(* ===== verification/Prelude.thy ===== *)
theory Prelude
  imports Main "HOL-Library.Word" "HOL-Library.Monad_Syntax"
begin

text \<open>
  The shared vocabulary of the development: the machine types of the C sources, C's shift
  operators on them, bit extensionality for 32-bit words in a form the simplifier can carry
  out, and the fact collections of the component theories.

  A function whose result type is an option returns \<open>None\<close> where the debug build
  stops at a failed \<^verbatim>\<open>ASSERT\<close> or \<^verbatim>\<open>CLIENT_ASSERT\<close>, or where the C code has no defined behaviour
  (an access outside an array). Errors the code reports itself are values inside the option.
\<close>

unbundle bit_operations_syntax

type_synonym u8 = "8 word"
type_synonym u16 = "16 word"
type_synonym u32 = "32 word"
type_synonym u64 = "64 word"

text \<open>The byte at every address.\<close>

type_synonym memory = "u64 \<Rightarrow> u8"

text \<open>
  \<open>bitf\<close> collects the rules that compute one bit of a word expression; \<open>codec_defs\<close> the
  definitions of the operand decoders and encoders; \<open>codec_prims\<close> the rules that evaluate the
  operand and instruction primitives they call.
\<close>

named_theorems bitf
named_theorems codec_defs
named_theorems codec_prims

text \<open>An \<^verbatim>\<open>ASSERT\<close> or \<^verbatim>\<open>CLIENT_ASSERT\<close> as a step of a \<open>do\<close> block.\<close>

definition ASSERT :: "bool \<Rightarrow> unit option" where
  "ASSERT b = (if b then Some () else None)"

lemma ASSERT_bind [simp]: "(ASSERT b \<bind> f) = (if b then f () else None)"
  by (simp add: ASSERT_def)

subsection \<open>C shifts\<close>

definition shl :: "'a::len word \<Rightarrow> nat \<Rightarrow> 'a word" where
  "shl w n = push_bit n w"

definition shr :: "'a::len word \<Rightarrow> nat \<Rightarrow> 'a word" where
  "shr w n = drop_bit n w"

definition sar :: "'a::len word \<Rightarrow> nat \<Rightarrow> 'a word" where
  "sar w n = signed_drop_bit n w"

lemma bit_shl [bitf]: "bit (shl w k) n \<longleftrightarrow> k \<le> n \<and> n < LENGTH('a) \<and> bit w (n - k)"
  for w :: "'a::len word"
  by (auto simp: shl_def bit_simps)

lemma bit_shr [bitf]: "bit (shr w k) n \<longleftrightarrow> bit w (k + n)"
  for w :: "'a::len word"
  by (simp add: shr_def bit_simps)

lemma bit_sar [bitf]:
  "bit (sar w k) n \<longleftrightarrow>
     bit w (if LENGTH('a) - k \<le> n \<and> n < LENGTH('a) then LENGTH('a) - 1 else k + n)"
  for w :: "'a::len word"
  by (simp add: sar_def bit_simps)

lemmas [bitf] = bit_or_iff bit_and_iff bit_xor_iff bit_not_iff bit_mask_iff
  bit_unsigned_iff bit_signed_iff bit_push_bit_iff bit_drop_bit_eq bit_take_bit_iff

lemma push_bit_1_minus_1: "push_bit k 1 - 1 = (mask k :: 'a::len word)"
  by (simp add: mask_eq_exp_minus_1 push_bit_eq_mult)

subsection \<open>Bit extensionality, one premise per bit\<close>

lemma u32_bitsI:
  fixes x y :: u32
  assumes "bit x 0 = bit y 0" "bit x 1 = bit y 1" "bit x 2 = bit y 2" "bit x 3 = bit y 3"
    "bit x 4 = bit y 4" "bit x 5 = bit y 5" "bit x 6 = bit y 6" "bit x 7 = bit y 7"
    "bit x 8 = bit y 8" "bit x 9 = bit y 9" "bit x 10 = bit y 10" "bit x 11 = bit y 11"
    "bit x 12 = bit y 12" "bit x 13 = bit y 13" "bit x 14 = bit y 14" "bit x 15 = bit y 15"
    "bit x 16 = bit y 16" "bit x 17 = bit y 17" "bit x 18 = bit y 18" "bit x 19 = bit y 19"
    "bit x 20 = bit y 20" "bit x 21 = bit y 21" "bit x 22 = bit y 22" "bit x 23 = bit y 23"
    "bit x 24 = bit y 24" "bit x 25 = bit y 25" "bit x 26 = bit y 26" "bit x 27 = bit y 27"
    "bit x 28 = bit y 28" "bit x 29 = bit y 29" "bit x 30 = bit y 30" "bit x 31 = bit y 31"
  shows "x = y"
proof (rule bit_word_eqI)
  fix n assume "n < LENGTH(32)"
  then have "n \<in> set [0..<32]" by simp
  moreover have "[0..<32] = [0, 1, 2, 3, 4, 5, 6, 7, 8, 9, 10, 11, 12, 13, 14, 15, 16, 17, 18,
      19, 20, 21, 22, 23, 24, 25, 26, 27, 28, 29, 30, 31]"
    by code_simp
  ultimately have "n \<in> set [0, 1, 2, 3, 4, 5, 6, 7, 8, 9, 10, 11, 12, 13, 14, 15, 16, 17, 18,
      19, 20, 21, 22, 23, 24, 25, 26, 27, 28, 29, 30, 31]"
    by (simp only:)
  then show "bit x n = bit y n" using assms by auto
qed

subsection \<open>Casts\<close>

lemma ucast_scast_32 [simp]: "ucast (scast (x :: u32) :: u64) = x"
proof (rule bit_word_eqI)
  fix n assume "n < LENGTH(32)"
  then have "min 31 n = n" by simp
  then show "bit (ucast (scast x :: u64) :: u32) n = bit x n"
    using \<open>n < LENGTH(32)\<close> by (simp add: bit_simps)
qed

lemma ucast_ucast_32 [simp]: "ucast (ucast (x :: u32) :: u64) = x"
  by (rule bit_word_eqI) (auto simp: bit_simps)

lemma ucast_or: "(ucast (x OR y) :: 'b::len word) = ucast x OR ucast y"
  for x y :: "'a::len word"
  by (rule bit_word_eqI) (auto simp: bit_simps)

lemma unat_less_exp: "unat (w :: 'a::len word) < 2 ^ LENGTH('a)"
  by (rule unsigned_less)

lemma unat_ucast_up [simp]:
  "LENGTH('a) \<le> LENGTH('b) \<Longrightarrow> unat (ucast w :: 'b::len word) = unat w" for w :: "'a::len word"
proof -
  assume "LENGTH('a) \<le> LENGTH('b)"
  then have "(2 :: nat) ^ LENGTH('a) \<le> 2 ^ LENGTH('b)" by simp
  then have "unat w < 2 ^ LENGTH('b)" using unat_less_exp [of w] by linarith
  then show ?thesis by (simp add: unsigned_ucast_eq take_bit_nat_eq_self_iff)
qed

lemma less_inc_iff: "x + 1 \<noteq> 0 \<Longrightarrow> y < x + 1 \<longleftrightarrow> y \<le> x" for x y :: "'a::len word"
proof -
  assume "x + 1 \<noteq> 0"
  then have "unat (x + 1) = Suc (unat x)" using unatSuc [of x] by (simp add: add.commute)
  then show ?thesis by (simp add: word_less_nat_alt word_le_nat_alt less_Suc_eq_le)
qed

end
