(* ===== verification/RvBits.thy ===== *)
theory RvBits
  imports Prelude
begin

text \<open>
  The bit-level layer of the RISC-V codec (\<^verbatim>\<open>core/ir/riscv64/codec.h\<close> and \<^verbatim>\<open>trie.h\<close>): the field
  macros, the instruction-width decoder and the opcode trie. The macros mix 32-bit operands
  with the 64-bit constant \<^verbatim>\<open>1ULL\<close>, so a field value has type \<open>u64\<close> and the callers truncate
  it; the model keeps these widths.
\<close>

subsection \<open>Field macros\<close>

definition TESTALL :: "'a::len word \<Rightarrow> 'a word \<Rightarrow> bool" where
  "TESTALL msk var \<longleftrightarrow> msk AND var = msk"

definition TESTANY :: "'a::len word \<Rightarrow> 'a word \<Rightarrow> bool" where
  "TESTANY msk var \<longleftrightarrow> msk AND var \<noteq> 0"

definition BIT :: "'a::len word \<Rightarrow> nat \<Rightarrow> 'a word" where
  "BIT v b = shr v b AND 1"

definition GET_FIELD :: "'a::len word \<Rightarrow> nat \<Rightarrow> nat \<Rightarrow> u64" where
  "GET_FIELD v high low = ucast (shr v low) AND (push_bit (high - low + 1) 1 - 1)"

definition SET_FIELD :: "u64 \<Rightarrow> nat \<Rightarrow> nat \<Rightarrow> u64" where
  "SET_FIELD v high low = shl (v AND (push_bit (high - low + 1) 1 - 1)) low"

definition SIGN_EXTEND :: "u32 \<Rightarrow> nat \<Rightarrow> u32" where
  "SIGN_EXTEND val val_sz = sar (shl val (32 - val_sz)) (32 - val_sz)"

text \<open>
  The compound assignments \<^verbatim>\<open>imm |= e\<close> on an \<^verbatim>\<open>int32_t\<close> and \<^verbatim>\<open>*out |= e\<close> on a \<^verbatim>\<open>uint32_t\<close>, with
  a 64-bit right-hand side: the left operand is widened, the result truncated.
\<close>

definition or_assign_i32 :: "u32 \<Rightarrow> u64 \<Rightarrow> u32" where
  "or_assign_i32 imm e = ucast ((scast imm :: u64) OR e)"

definition or_assign_u32 :: "u32 \<Rightarrow> u64 \<Rightarrow> u32" where
  "or_assign_u32 out e = ucast ((ucast out :: u64) OR e)"

lemma or_assign_i32_eq: "or_assign_i32 imm e = imm OR ucast e"
  by (simp add: or_assign_i32_def ucast_or)

lemma or_assign_u32_eq: "or_assign_u32 out e = out OR ucast e"
  by (simp add: or_assign_u32_def ucast_or)

lemma bit_or_assign_i32 [bitf]: "bit (or_assign_i32 imm e) n \<longleftrightarrow> bit imm n \<or> n < 32 \<and> bit e n"
  by (auto simp: or_assign_i32_eq bit_simps)

lemma bit_or_assign_u32 [bitf]: "bit (or_assign_u32 out e) n \<longleftrightarrow> bit out n \<or> n < 32 \<and> bit e n"
  by (auto simp: or_assign_u32_eq bit_simps)

lemma bit_BIT [bitf]: "bit (BIT v b) n \<longleftrightarrow> n = 0 \<and> bit v b"
  by (auto simp: BIT_def bitf bit_1_iff)

lemma bit_GET_FIELD [bitf]:
  "bit (GET_FIELD v high low) n \<longleftrightarrow> n < 64 \<and> n \<le> high - low \<and> bit v (low + n)"
  unfolding GET_FIELD_def push_bit_1_minus_1 by (auto simp: bitf)

lemma bit_SET_FIELD [bitf]:
  "bit (SET_FIELD v high low) n \<longleftrightarrow> n < 64 \<and> low \<le> n \<and> n - low \<le> high - low \<and> bit v (n - low)"
  unfolding SET_FIELD_def push_bit_1_minus_1 by (auto simp: bitf)

lemma bit_SIGN_EXTEND [bitf]:
  "0 < sz \<Longrightarrow> sz \<le> 32 \<Longrightarrow> bit (SIGN_EXTEND v sz) n \<longleftrightarrow> n < 32 \<and> bit v (min n (sz - 1))"
  by (auto simp: SIGN_EXTEND_def bitf min_def)

lemma bit_scast_SIGN_EXTEND:
  "0 < sz \<Longrightarrow> sz < 32 \<Longrightarrow> n < 64 \<Longrightarrow>
   bit (scast (SIGN_EXTEND v sz) :: u64) n = bit v (min n (sz - 1))"
  by (auto simp: bitf min_def)

lemma bit_of_sint_range:
  fixes off :: u64
  assumes "- (2 ^ k) \<le> sint off" "sint off < 2 ^ k" "k < 64" "n < 64"
  shows "bit off n = bit off (min n k)"
proof -
  have "signed_take_bit k (sint off) = sint off"
    using assms by (intro signed_take_bit_int_eq_self) auto
  then have "bit (sint off) n = bit (sint off) (min k n)"
    using bit_signed_take_bit_iff [of k "sint off" n] by simp
  then show ?thesis using assms by (simp add: bit_sint_iff min.commute split: if_splits)
qed

lemma GET_FIELD_eq: "GET_FIELD v high low = take_bit (high - low + 1) (ucast (shr v low))"
  unfolding GET_FIELD_def push_bit_1_minus_1 by (simp add: take_bit_eq_mask)

lemma unat_GET_FIELD_less: "unat (GET_FIELD v high low) < 2 ^ (high - low + 1)"
  unfolding GET_FIELD_eq unsigned_take_bit_eq by (rule take_bit_nat_less_exp)

text \<open>Setting, clearing and testing flag bits.\<close>

lemma TESTALL_or_self [simp]: "TESTALL m (f OR m)"
  by (auto simp: TESTALL_def bit_eq_iff bit_simps)

lemma TESTALL_and_not_self [simp]: "TESTALL m (f AND NOT m) \<longleftrightarrow> m = 0"
  by (auto simp: TESTALL_def bit_eq_iff bit_simps)

lemma TESTALL_or_disjoint [simp]: "m AND n = 0 \<Longrightarrow> TESTALL m (f OR n) = TESTALL m f"
  by (auto simp: TESTALL_def bit_eq_iff bit_simps)

lemma TESTALL_and_not_disjoint [simp]: "m AND n = 0 \<Longrightarrow> TESTALL m (f AND NOT n) = TESTALL m f"
  by (auto simp: TESTALL_def bit_eq_iff bit_simps)

subsection \<open>Instruction width\<close>

definition instruction_width :: "u16 \<Rightarrow> int" where
  "instruction_width lower16b =
     (if \<not> TESTALL 0b11 (GET_FIELD lower16b 1 0) then 2
      else if \<not> TESTALL 0b111 (GET_FIELD lower16b 4 2) then 4
      else if TESTALL 0b011111 (GET_FIELD lower16b 5 0) then 6
      else if TESTALL 0b0111111 (GET_FIELD lower16b 6 0) then 8
      else if TESTALL 0b1111111 (GET_FIELD lower16b 6 0) \<and>
        \<not> TESTALL 0b111 (GET_FIELD lower16b 14 12)
      then 10 + 2 * uint (GET_FIELD lower16b 14 12)
      else -1)"

lemma TESTALL_mask: "k \<le> LENGTH('a) \<Longrightarrow> TESTALL (mask k) v \<longleftrightarrow> (\<forall>n<k. bit v n)"
  for v :: "'a::len word"
  by (auto simp: TESTALL_def bit_eq_iff bit_simps) (meson less_le_trans)

lemma TESTALL_GET_FIELD_bits:
  fixes w :: u16
  shows "TESTALL 0b11 (GET_FIELD w 1 0) \<longleftrightarrow> bit w 0 \<and> bit w 1"
    and "TESTALL 0b111 (GET_FIELD w 4 2) \<longleftrightarrow> bit w 2 \<and> bit w 3 \<and> bit w 4"
    and "TESTALL 0b011111 (GET_FIELD w 5 0) \<longleftrightarrow>
      bit w 0 \<and> bit w 1 \<and> bit w 2 \<and> bit w 3 \<and> bit w 4"
  using TESTALL_mask [of 2 "GET_FIELD w 1 0"] TESTALL_mask [of 3 "GET_FIELD w 4 2"]
    TESTALL_mask [of 5 "GET_FIELD w 5 0"]
  by (simp_all add: bitf mask_eq_exp_minus_1 numeral_eq_Suc All_less_Suc ac_simps)

text \<open>
  The width that the length decoder computes, for every first halfword: 2 or 4 bytes as the
  encoding of the length prescribes, and 6 for every longer encoding. The branches for 8 bytes,
  for 10 and more and for the reserved encodings are never reached, because the test for the
  48-bit prefix also accepts the longer prefixes.
\<close>

theorem instruction_width_cases:
  "instruction_width w =
     (if \<not> (bit w 0 \<and> bit w 1) then 2 else if \<not> (bit w 2 \<and> bit w 3 \<and> bit w 4) then 4 else 6)"
  unfolding instruction_width_def TESTALL_GET_FIELD_bits by auto

subsection \<open>The opcode trie\<close>

record trie_node_t =
  tn_mask :: u8
  tn_shift :: u8
  tn_index :: u16

definition TRIE_NODE_EMPTY :: nat where
  "TRIE_NODE_EMPTY = unat (- 1 :: u16)"

definition TRIE_LEAF_NODE :: "trie_node_t \<Rightarrow> bool" where
  "TRIE_LEAF_NODE n \<longleftrightarrow> tn_mask n = 0"

definition TRIE_CHILD_OFFSET :: "trie_node_t \<Rightarrow> u32 \<Rightarrow> u32" where
  "TRIE_CHILD_OFFSET n i = shr i (unat (tn_shift n)) AND ucast (tn_mask n)"

text \<open>
  The lookup loop. It returns \<open>None\<close> where it reads past the end of the node array or never
  reaches a leaf; \<open>trie_wf\<close> is the layout that \<^verbatim>\<open>trie.h\<close> documents (children are stored after
  their parent), under which neither happens.
\<close>

partial_function (option) trie_lookup :: "trie_node_t list \<Rightarrow> u32 \<Rightarrow> nat \<Rightarrow> nat option" where
  "trie_lookup trie word idx =
     (if idx < TRIE_NODE_EMPTY then
        (if idx < length trie then
           (if TRIE_LEAF_NODE (trie ! idx) then Some (unat (tn_index (trie ! idx)))
            else trie_lookup trie word
              (unat (tn_index (trie ! idx)) + unat (TRIE_CHILD_OFFSET (trie ! idx) word)))
         else None)
      else Some TRIE_NODE_EMPTY)"

definition trie_wf :: "trie_node_t list \<Rightarrow> bool" where
  "trie_wf trie \<longleftrightarrow> list_all (\<lambda>i. TRIE_LEAF_NODE (trie ! i) \<or>
     i < unat (tn_index (trie ! i)) \<and>
     unat (tn_index (trie ! i)) + unat (tn_mask (trie ! i)) < length trie) [0..<length trie]"

lemma TRIE_NODE_EMPTY_eq: "TRIE_NODE_EMPTY = 65535"
  by (simp add: TRIE_NODE_EMPTY_def unsigned_minus_1_eq_mask mask_eq_exp_minus_1)

lemma TRIE_CHILD_OFFSET_le: "unat (TRIE_CHILD_OFFSET n w) \<le> unat (tn_mask n)"
proof -
  have "unat (TRIE_CHILD_OFFSET n w) \<le> unat (ucast (tn_mask n) :: u32)"
    unfolding TRIE_CHILD_OFFSET_def word_le_nat_alt [symmetric] by (rule word_and_le1)
  then show ?thesis by simp
qed

lemma trie_lookup_ends:
  "trie_wf trie \<Longrightarrow> start < length trie \<Longrightarrow> \<exists>r \<le> TRIE_NODE_EMPTY. trie_lookup trie word start = Some r"
proof (induction "length trie - start" arbitrary: start rule: less_induct)
  case less
  let ?n = "trie ! start"
  have bnd: "unat (tn_index ?n) \<le> TRIE_NODE_EMPTY"
    using unat_less_exp [of "tn_index ?n"] by (simp add: TRIE_NODE_EMPTY_eq)
  show ?case
  proof (cases "start < TRIE_NODE_EMPTY \<and> \<not> TRIE_LEAF_NODE ?n")
    case True
    let ?next = "unat (tn_index ?n) + unat (TRIE_CHILD_OFFSET ?n word)"
    from less.prems(1) True less.prems(2) have "start < unat (tn_index ?n)"
      and "unat (tn_index ?n) + unat (tn_mask ?n) < length trie"
      by (auto simp: trie_wf_def list_all_iff)
    then have "start < ?next" "?next < length trie"
      using TRIE_CHILD_OFFSET_le [of ?n word] by linarith+
    then have "\<exists>r \<le> TRIE_NODE_EMPTY. trie_lookup trie word ?next = Some r"
      using less.prems(1) by (intro less.hyps) auto
    then show ?thesis using True less.prems(2) by (simp add: trie_lookup.simps [of trie word start])
  next
    case False
    then show ?thesis using bnd less.prems(2)
      by (auto simp: trie_lookup.simps [of trie word start])
  qed
qed

text \<open>
  C37: On a trie laid out as documented (children after their parent) the lookup loop ends without
  reading past the node array, from any start node and for any instruction word.
\<close>

theorem trie_lookup_total:
  assumes wf: "trie_wf trie"
  shows "start < length trie \<Longrightarrow> \<exists>r \<le> TRIE_NODE_EMPTY. trie_lookup trie word start = Some r"
  by (rule trie_lookup_ends [OF wf])

end
