(* ===== verification/Opnd.thy ===== *)
theory Opnd
  imports RvBits
begin

text \<open>
  Instruction operands (\<^verbatim>\<open>opnd_t\<close>) as the RISC-V build of DynamoRIO has them:
  \<^verbatim>\<open>core/ir/opnd_api.h\<close>, \<^verbatim>\<open>instr_inline_api.h\<close> and \<^verbatim>\<open>opnd_shared.c\<close>. The tagged union becomes a
  datatype with the source's kinds as constructors; the \<^verbatim>\<open>CLIENT_ASSERT\<close>s of the constructors
  and accessors are the \<open>None\<close> results.
\<close>

subsection \<open>Operand sizes\<close>

type_synonym opnd_size_t = nat

text \<open>
  The enumeration of operand sizes in its declared order, each with the byte count that
  \<^verbatim>\<open>opnd_size_in_bytes\<close> gives it in a 64-bit build; \<open>None\<close> marks the sizes that function
  rejects with an assertion.
\<close>

definition opsz_table :: "(string \<times> nat option) list" where
  "opsz_table =
    [(''OPSZ_NA'', None), (''OPSZ_0'', Some 0), (''OPSZ_1'', Some 1), (''OPSZ_2'', Some 2),
     (''OPSZ_4'', Some 4), (''OPSZ_6'', Some 6), (''OPSZ_8'', Some 8), (''OPSZ_10'', Some 10),
     (''OPSZ_16'', Some 16), (''OPSZ_14'', Some 14), (''OPSZ_28'', Some 28),
     (''OPSZ_94'', Some 94), (''OPSZ_108'', Some 108), (''OPSZ_512'', Some 512),
     (''OPSZ_2_short1'', Some 2), (''OPSZ_4_short2'', Some 4), (''OPSZ_4_rex8_short2'', Some 4),
     (''OPSZ_4_rex8'', Some 4), (''OPSZ_6_irex10_short4'', Some 6), (''OPSZ_8_short2'', Some 8),
     (''OPSZ_8_short4'', Some 8), (''OPSZ_28_short14'', Some 28),
     (''OPSZ_108_short94'', Some 108), (''OPSZ_4x8'', Some 8), (''OPSZ_6x10'', Some 6),
     (''OPSZ_4x8_short2'', Some 8), (''OPSZ_4x8_short2xi8'', Some 8),
     (''OPSZ_4_short2xi4'', Some 4), (''OPSZ_1_reg4'', Some 1), (''OPSZ_2_reg4'', Some 2),
     (''OPSZ_4_reg16'', Some 4), (''OPSZ_xsave'', Some 0), (''OPSZ_12'', Some 12),
     (''OPSZ_32'', Some 32), (''OPSZ_40'', Some 40), (''OPSZ_32_short16'', Some 32),
     (''OPSZ_8_rex16'', Some 8), (''OPSZ_8_rex16_short4'', Some 8),
     (''OPSZ_12_rex40_short6'', Some 12), (''OPSZ_16_vex32'', Some 16), (''OPSZ_15'', Some 15),
     (''OPSZ_3'', Some 3), (''OPSZ_1b'', Some 1), (''OPSZ_2b'', Some 1), (''OPSZ_3b'', Some 1),
     (''OPSZ_4b'', Some 1), (''OPSZ_5b'', Some 1), (''OPSZ_6b'', Some 1), (''OPSZ_7b'', Some 1),
     (''OPSZ_9b'', Some 2), (''OPSZ_10b'', Some 2), (''OPSZ_11b'', Some 2),
     (''OPSZ_12b'', Some 2), (''OPSZ_20b'', Some 3), (''OPSZ_25b'', Some 4),
     (''OPSZ_VAR_REGLIST'', Some 0), (''OPSZ_20'', Some 20), (''OPSZ_24'', Some 24),
     (''OPSZ_36'', Some 36), (''OPSZ_44'', Some 44), (''OPSZ_48'', Some 48),
     (''OPSZ_52'', Some 52), (''OPSZ_56'', Some 56), (''OPSZ_60'', Some 60),
     (''OPSZ_64'', Some 64), (''OPSZ_68'', Some 68), (''OPSZ_72'', Some 72),
     (''OPSZ_76'', Some 76), (''OPSZ_80'', Some 80), (''OPSZ_84'', Some 84),
     (''OPSZ_88'', Some 88), (''OPSZ_92'', Some 92), (''OPSZ_96'', Some 96),
     (''OPSZ_100'', Some 100), (''OPSZ_104'', Some 104), (''OPSZ_112'', Some 112),
     (''OPSZ_116'', Some 116), (''OPSZ_120'', Some 120), (''OPSZ_124'', Some 124),
     (''OPSZ_128'', Some 128), (''OPSZ_SCALABLE'', None), (''OPSZ_SCALABLE_PRED'', None),
     (''OPSZ_16_vex32_evex64'', Some 16), (''OPSZ_vex32_evex64'', Some 32),
     (''OPSZ_16_of_32_evex64'', None), (''OPSZ_32_of_64'', None),
     (''OPSZ_4_of_32_evex64'', None), (''OPSZ_8_of_32_evex64'', None), (''OPSZ_8x16'', Some 16),
     (''OPSZ_256'', Some 256), (''OPSZ_192'', Some 192), (''OPSZ_1_of_4'', Some 1),
     (''OPSZ_2_of_4'', Some 2), (''OPSZ_1_of_8'', Some 1), (''OPSZ_2_of_8'', Some 2),
     (''OPSZ_4_of_8'', Some 4), (''OPSZ_1_of_16'', Some 1), (''OPSZ_2_of_16'', Some 2),
     (''OPSZ_4_of_16'', Some 4), (''OPSZ_4_rex8_of_16'', Some 4), (''OPSZ_8_of_16'', Some 8),
     (''OPSZ_12_of_16'', Some 12), (''OPSZ_12_rex8_of_16'', Some 12),
     (''OPSZ_14_of_16'', Some 14), (''OPSZ_15_of_16'', Some 15), (''OPSZ_16_of_32'', Some 16),
     (''OPSZ_half_16_vex32'', Some 8), (''OPSZ_half_16_vex32_evex64'', None),
     (''OPSZ_quarter_16_vex32'', Some 4), (''OPSZ_quarter_16_vex32_evex64'', Some 4),
     (''OPSZ_eighth_16_vex32'', Some 2), (''OPSZ_eighth_16_vex32_evex64'', Some 2)]"

fun index_of :: "string \<Rightarrow> (string \<times> 'a) list \<Rightarrow> nat" where
  "index_of s [] = 0"
| "index_of s ((t, _) # rest) = (if s = t then 0 else Suc (index_of s rest))"

definition opsz :: "string \<Rightarrow> opnd_size_t" where
  "opsz s = index_of s opsz_table"

definition OPSZ_LAST_ENUM :: opnd_size_t where
  "OPSZ_LAST_ENUM = length opsz_table"

abbreviation (input) OPSZ_NA :: opnd_size_t where "OPSZ_NA \<equiv> 0"
abbreviation (input) OPSZ_0 :: opnd_size_t where "OPSZ_0 \<equiv> 1"
abbreviation (input) OPSZ_4 :: opnd_size_t where "OPSZ_4 \<equiv> 4"
abbreviation (input) OPSZ_8 :: opnd_size_t where "OPSZ_8 \<equiv> 6"
abbreviation (input) OPSZ_PTR :: opnd_size_t where "OPSZ_PTR \<equiv> OPSZ_8"

definition opnd_size_in_bytes :: "opnd_size_t \<Rightarrow> nat option" where
  "opnd_size_in_bytes sz = (if sz < length opsz_table then snd (opsz_table ! sz) else None)"

definition opnd_size_in_bits :: "opnd_size_t \<Rightarrow> nat option" where
  "opnd_size_in_bits sz =
     (case map_of [(opsz ''OPSZ_1b'', 1), (opsz ''OPSZ_2b'', 2), (opsz ''OPSZ_3b'', 3),
        (opsz ''OPSZ_4b'', 4), (opsz ''OPSZ_5b'', 5), (opsz ''OPSZ_6b'', 6),
        (opsz ''OPSZ_7b'', 7), (opsz ''OPSZ_9b'', 9), (opsz ''OPSZ_10b'', 10),
        (opsz ''OPSZ_11b'', 11), (opsz ''OPSZ_12b'', 12), (opsz ''OPSZ_20b'', 20),
        (opsz ''OPSZ_25b'', 25)] sz of
        Some n \<Rightarrow> Some n
      | None \<Rightarrow> map_option (\<lambda>n. n * 8) (opnd_size_in_bytes sz))"

definition opsz_by_bytes :: "(nat \<times> opnd_size_t) list" where
  "opsz_by_bytes =
    [(0, opsz ''OPSZ_0''), (1, opsz ''OPSZ_1''), (2, opsz ''OPSZ_2''), (3, opsz ''OPSZ_3''),
     (4, opsz ''OPSZ_4''), (6, opsz ''OPSZ_6''), (8, opsz ''OPSZ_8''), (10, opsz ''OPSZ_10''),
     (12, opsz ''OPSZ_12''), (14, opsz ''OPSZ_14''), (15, opsz ''OPSZ_15''),
     (16, opsz ''OPSZ_16''), (20, opsz ''OPSZ_20''), (24, opsz ''OPSZ_24''),
     (28, opsz ''OPSZ_28''), (32, opsz ''OPSZ_32''), (36, opsz ''OPSZ_36''),
     (40, opsz ''OPSZ_40''), (44, opsz ''OPSZ_44''), (48, opsz ''OPSZ_48''),
     (52, opsz ''OPSZ_52''), (56, opsz ''OPSZ_56''), (60, opsz ''OPSZ_60''),
     (64, opsz ''OPSZ_64''), (68, opsz ''OPSZ_68''), (72, opsz ''OPSZ_72''),
     (76, opsz ''OPSZ_76''), (80, opsz ''OPSZ_80''), (84, opsz ''OPSZ_84''),
     (88, opsz ''OPSZ_88''), (92, opsz ''OPSZ_92''), (94, opsz ''OPSZ_94''),
     (96, opsz ''OPSZ_96''), (100, opsz ''OPSZ_100''), (104, opsz ''OPSZ_104''),
     (108, opsz ''OPSZ_108''), (112, opsz ''OPSZ_112''), (116, opsz ''OPSZ_116''),
     (120, opsz ''OPSZ_120''), (124, opsz ''OPSZ_124''), (128, opsz ''OPSZ_128''),
     (192, opsz ''OPSZ_192''), (256, opsz ''OPSZ_256''), (512, opsz ''OPSZ_512'')]"

definition opnd_size_from_bytes :: "nat \<Rightarrow> opnd_size_t" where
  "opnd_size_from_bytes bytes =
     (case map_of opsz_by_bytes bytes of Some sz \<Rightarrow> sz | None \<Rightarrow> OPSZ_NA)"

subsection \<open>Registers\<close>

text \<open>
  The register enumeration of the RISC-V build: 0 is \<^verbatim>\<open>DR_REG_NULL\<close>, 1 \<^verbatim>\<open>DR_REG_INVALID\<close>. An
  enumeration constant takes the width of the expression it stands in.
\<close>

type_synonym reg_id_t = u16

abbreviation (input) DR_REG_NULL :: "'a::len word" where "DR_REG_NULL \<equiv> 0"
abbreviation (input) DR_REG_INVALID :: "'a::len word" where "DR_REG_INVALID \<equiv> 1"
abbreviation (input) DR_REG_X0 :: "'a::len word" where "DR_REG_X0 \<equiv> 2"
abbreviation (input) DR_REG_X1 :: "'a::len word" where "DR_REG_X1 \<equiv> 3"
abbreviation (input) DR_REG_X2 :: "'a::len word" where "DR_REG_X2 \<equiv> 4"
abbreviation (input) DR_REG_X8 :: "'a::len word" where "DR_REG_X8 \<equiv> 10"
abbreviation (input) DR_REG_X31 :: "'a::len word" where "DR_REG_X31 \<equiv> 33"
abbreviation (input) DR_REG_PC :: "'a::len word" where "DR_REG_PC \<equiv> 34"
abbreviation (input) DR_REG_F0 :: "'a::len word" where "DR_REG_F0 \<equiv> 35"
abbreviation (input) DR_REG_F8 :: "'a::len word" where "DR_REG_F8 \<equiv> 43"
abbreviation (input) DR_REG_F31 :: "'a::len word" where "DR_REG_F31 \<equiv> 66"
abbreviation (input) DR_REG_FCSR :: "'a::len word" where "DR_REG_FCSR \<equiv> 67"
abbreviation (input) DR_REG_VR0 :: "'a::len word" where "DR_REG_VR0 \<equiv> 68"
abbreviation (input) DR_REG_VR31 :: "'a::len word" where "DR_REG_VR31 \<equiv> 99"
abbreviation (input) DR_REG_ZERO :: "'a::len word" where "DR_REG_ZERO \<equiv> DR_REG_X0"
abbreviation (input) DR_REG_RA :: "'a::len word" where "DR_REG_RA \<equiv> DR_REG_X1"
abbreviation (input) DR_REG_SP :: "'a::len word" where "DR_REG_SP \<equiv> DR_REG_X2"
abbreviation (input) DR_REG_LAST_ENUM :: "'a::len word" where "DR_REG_LAST_ENUM \<equiv> DR_REG_VR31"

subsection \<open>Operands\<close>

text \<open>
  An \<^verbatim>\<open>instr_t *\<close> held by an operand is a reference, a number; who follows it takes the store of
  instructions as an argument. Fields of the union that a kind does not use are left out.
\<close>

type_synonym instr_ref = nat

datatype opnd_t =
    NULL_kind
  | IMMED_INTEGER_kind opnd_size_t u16 u64
  | IMMED_FLOAT_kind u32
  | IMMED_DOUBLE_kind u64
  | PC_kind u64
  | INSTR_kind opnd_size_t u16 instr_ref
  | REG_kind opnd_size_t u16 reg_id_t opnd_size_t
  | BASE_DISP_kind opnd_size_t u16 u32 u8 u8
  | FAR_PC_kind u16 u64
  | FAR_INSTR_kind u16 instr_ref
  | REL_ADDR_kind opnd_size_t u64
  | ABS_ADDR_kind opnd_size_t u64
  | MEM_INSTR_kind opnd_size_t u16 instr_ref

definition DR_OPND_IMM_PRINT_DECIMAL :: u16 where
  "DR_OPND_IMM_PRINT_DECIMAL = 0x1000"

fun opnd_is_null :: "opnd_t \<Rightarrow> bool" where
  "opnd_is_null NULL_kind = True" | "opnd_is_null _ = False"

fun opnd_is_immed_int :: "opnd_t \<Rightarrow> bool" where
  "opnd_is_immed_int (IMMED_INTEGER_kind _ _ _) = True" | "opnd_is_immed_int _ = False"

fun opnd_is_reg :: "opnd_t \<Rightarrow> bool" where
  "opnd_is_reg (REG_kind _ _ _ _) = True" | "opnd_is_reg _ = False"

fun opnd_is_base_disp :: "opnd_t \<Rightarrow> bool" where
  "opnd_is_base_disp (BASE_DISP_kind _ _ _ _ _) = True" | "opnd_is_base_disp _ = False"

fun opnd_is_mem_instr :: "opnd_t \<Rightarrow> bool" where
  "opnd_is_mem_instr (MEM_INSTR_kind _ _ _) = True" | "opnd_is_mem_instr _ = False"

fun opnd_is_pc :: "opnd_t \<Rightarrow> bool" where
  "opnd_is_pc (PC_kind _) = True" | "opnd_is_pc (FAR_PC_kind _ _) = True" | "opnd_is_pc _ = False"

fun opnd_is_instr :: "opnd_t \<Rightarrow> bool" where
  "opnd_is_instr (INSTR_kind _ _ _) = True" | "opnd_is_instr (FAR_INSTR_kind _ _) = True"
| "opnd_is_instr _ = False"

fun opnd_is_rel_addr :: "opnd_t \<Rightarrow> bool" where
  "opnd_is_rel_addr (REL_ADDR_kind _ _) = True" | "opnd_is_rel_addr _ = False"

text \<open>Constructors.\<close>

definition opnd_create_null :: opnd_t where
  "opnd_create_null = NULL_kind"

definition opnd_create_reg :: "reg_id_t \<Rightarrow> opnd_t option" where
  "opnd_create_reg r =
     (if r \<le> DR_REG_LAST_ENUM \<and> r \<noteq> DR_REG_INVALID then Some (REG_kind 0 0 r OPSZ_NA) else None)"

definition opnd_create_pc :: "u64 \<Rightarrow> opnd_t" where
  "opnd_create_pc pc = PC_kind pc"

definition opnd_check_immed_size :: "u64 \<Rightarrow> opnd_size_t \<Rightarrow> bool" where
  "opnd_check_immed_size i sz =
     (case opnd_size_in_bytes sz of
        None \<Rightarrow> False
      | Some n \<Rightarrow>
          if n = 1 then - 128 \<le> sint i \<and> sint i \<le> 127 \<or> 0 \<le> sint i \<and> sint i \<le> 255
          else if n = 2 then - 32768 \<le> sint i \<and> sint i \<le> 32767 \<or> 0 \<le> sint i \<and> sint i \<le> 65535
          else if n = 4
          then - 2147483648 \<le> sint i \<and> sint i \<le> 2147483647 \<or> 0 \<le> sint i \<and> sint i \<le> 4294967295
          else True)"

definition opnd_create_immed_int :: "u64 \<Rightarrow> opnd_size_t \<Rightarrow> opnd_t option" where
  "opnd_create_immed_int i sz =
     (if sz < OPSZ_LAST_ENUM \<and> opnd_check_immed_size i sz
      then Some (IMMED_INTEGER_kind sz 0 i) else None)"

definition opnd_create_immed_uint :: "u64 \<Rightarrow> opnd_size_t \<Rightarrow> opnd_t option" where
  "opnd_create_immed_uint i sz =
     (if sz < OPSZ_LAST_ENUM \<and> opnd_check_immed_size i sz
      then Some (IMMED_INTEGER_kind sz 0 i) else None)"

definition opnd_create_instr_ex :: "instr_ref \<Rightarrow> opnd_size_t \<Rightarrow> u16 \<Rightarrow> opnd_t" where
  "opnd_create_instr_ex instr sz shft = INSTR_kind sz shft instr"

definition opnd_create_instr :: "instr_ref \<Rightarrow> opnd_t" where
  "opnd_create_instr instr = opnd_create_instr_ex instr OPSZ_PTR 0"

definition opnd_create_far_instr :: "u16 \<Rightarrow> instr_ref \<Rightarrow> opnd_t" where
  "opnd_create_far_instr seg_selector instr = FAR_INSTR_kind seg_selector instr"

definition opnd_create_far_base_disp_ex ::
  "reg_id_t \<Rightarrow> reg_id_t \<Rightarrow> reg_id_t \<Rightarrow> nat \<Rightarrow> u32 \<Rightarrow> opnd_size_t \<Rightarrow> opnd_t option" where
  "opnd_create_far_base_disp_ex seg base_reg index_reg scale disp sz =
     (if sz < OPSZ_LAST_ENUM \<and> scale \<in> {0, 1, 2, 4, 8} \<and> seg = DR_REG_NULL \<and>
         base_reg \<le> DR_REG_LAST_ENUM \<and> index_reg \<le> DR_REG_LAST_ENUM \<and>
         scale < 2 ^ 4 \<and> unat base_reg < 2 ^ 8 \<and> unat index_reg < 2 ^ 8 \<and>
         (disp = 0 \<or> index_reg = DR_REG_NULL)
      then Some (BASE_DISP_kind sz 0 disp (ucast base_reg) (ucast index_reg)) else None)"

definition opnd_create_base_disp ::
  "reg_id_t \<Rightarrow> reg_id_t \<Rightarrow> nat \<Rightarrow> u32 \<Rightarrow> opnd_size_t \<Rightarrow> opnd_t option" where
  "opnd_create_base_disp base_reg index_reg scale disp sz =
     opnd_create_far_base_disp_ex DR_REG_NULL base_reg index_reg scale disp sz"

definition opnd_create_far_rel_addr :: "reg_id_t \<Rightarrow> u64 \<Rightarrow> opnd_size_t \<Rightarrow> opnd_t option" where
  "opnd_create_far_rel_addr seg addr data_size =
     (if data_size < OPSZ_LAST_ENUM \<and> seg = DR_REG_NULL then Some (REL_ADDR_kind data_size addr)
      else None)"

definition opnd_create_rel_addr :: "u64 \<Rightarrow> opnd_size_t \<Rightarrow> opnd_t option" where
  "opnd_create_rel_addr addr data_size = opnd_create_far_rel_addr DR_REG_NULL addr data_size"

fun opnd_set_flags :: "opnd_t \<Rightarrow> u16 \<Rightarrow> opnd_t option" where
  "opnd_set_flags (REG_kind sz _ r esz) fl = Some (REG_kind sz fl r esz)"
| "opnd_set_flags (BASE_DISP_kind sz _ d b i) fl = Some (BASE_DISP_kind sz fl d b i)"
| "opnd_set_flags (IMMED_INTEGER_kind sz _ i) fl = Some (IMMED_INTEGER_kind sz fl i)"
| "opnd_set_flags _ fl = None"

fun opnd_get_flags :: "opnd_t \<Rightarrow> u16 option" where
  "opnd_get_flags (REG_kind _ fl _ _) = Some fl"
| "opnd_get_flags (BASE_DISP_kind _ fl _ _ _) = Some fl"
| "opnd_get_flags (IMMED_INTEGER_kind _ fl _) = Some fl"
| "opnd_get_flags _ = None"

definition opnd_add_flags :: "opnd_t \<Rightarrow> u16 \<Rightarrow> opnd_t option" where
  "opnd_add_flags opnd flags = do { fl \<leftarrow> opnd_get_flags opnd; opnd_set_flags opnd (flags OR fl) }"

text \<open>Accessors.\<close>

fun opnd_get_reg :: "opnd_t \<Rightarrow> reg_id_t option" where
  "opnd_get_reg (REG_kind _ _ r _) = Some r" | "opnd_get_reg _ = None"

fun opnd_get_base :: "opnd_t \<Rightarrow> reg_id_t option" where
  "opnd_get_base (BASE_DISP_kind _ _ _ b _) = Some (ucast b)" | "opnd_get_base _ = None"

fun opnd_get_index :: "opnd_t \<Rightarrow> reg_id_t option" where
  "opnd_get_index (BASE_DISP_kind _ _ _ _ i) = Some (ucast i)" | "opnd_get_index _ = None"

fun opnd_get_disp :: "opnd_t \<Rightarrow> u32 option" where
  "opnd_get_disp (BASE_DISP_kind _ _ d _ _) = Some d" | "opnd_get_disp _ = None"

fun opnd_get_immed_int :: "opnd_t \<Rightarrow> u64 option" where
  "opnd_get_immed_int (IMMED_INTEGER_kind _ _ i) = Some i" | "opnd_get_immed_int _ = None"

fun opnd_get_pc :: "opnd_t \<Rightarrow> u64 option" where
  "opnd_get_pc (PC_kind pc) = Some pc" | "opnd_get_pc (FAR_PC_kind _ pc) = Some pc"
| "opnd_get_pc _ = None"

fun opnd_is_far_instr :: "opnd_t \<Rightarrow> bool" where
  "opnd_is_far_instr (FAR_INSTR_kind _ _) = True" | "opnd_is_far_instr _ = False"

fun opnd_get_segment_selector :: "opnd_t \<Rightarrow> u16 option" where
  "opnd_get_segment_selector (FAR_PC_kind seg _) = Some seg"
| "opnd_get_segment_selector (FAR_INSTR_kind seg _) = Some seg"
| "opnd_get_segment_selector _ = None"

fun opnd_get_instr :: "opnd_t \<Rightarrow> instr_ref option" where
  "opnd_get_instr (INSTR_kind _ _ r) = Some r" | "opnd_get_instr (FAR_INSTR_kind _ r) = Some r"
| "opnd_get_instr (MEM_INSTR_kind _ _ r) = Some r" | "opnd_get_instr _ = None"

definition opnd_is_abs_base_disp :: "opnd_t \<Rightarrow> bool" where
  "opnd_is_abs_base_disp opnd \<longleftrightarrow> opnd_is_base_disp opnd \<and> opnd_get_base opnd = Some DR_REG_NULL \<and>
     opnd_get_index opnd = Some DR_REG_NULL"

fun opnd_get_addr :: "opnd_t \<Rightarrow> u64 option" where
  "opnd_get_addr (BASE_DISP_kind sz fl d b i) =
     (if opnd_is_abs_base_disp (BASE_DISP_kind sz fl d b i) then Some (scast d) else None)"
| "opnd_get_addr (ABS_ADDR_kind _ a) = Some a"
| "opnd_get_addr (REL_ADDR_kind _ a) = Some a"
| "opnd_get_addr _ = None"

definition opnd_is_memory_reference :: "opnd_t \<Rightarrow> bool" where
  "opnd_is_memory_reference opnd \<longleftrightarrow> opnd_is_base_disp opnd \<or> opnd_is_mem_instr opnd"

subsection \<open>Rules for clients\<close>

lemma opsz_constants:
  "opsz ''OPSZ_NA'' = OPSZ_NA" "opsz ''OPSZ_0'' = OPSZ_0" "opsz ''OPSZ_4'' = OPSZ_4"
  "opsz ''OPSZ_8'' = OPSZ_8"
  by (simp_all add: opsz_def opsz_table_def)

lemma OPSZ_LAST_ENUM_eq: "OPSZ_LAST_ENUM = 112"
  by (simp add: OPSZ_LAST_ENUM_def opsz_table_def)

lemma opnd_add_flags_immed [codec_prims]:
  "opnd_add_flags (IMMED_INTEGER_kind sz fl i) f = Some (IMMED_INTEGER_kind sz (f OR fl) i)"
  by (simp add: opnd_add_flags_def)

lemma opnd_add_flags_base_disp [codec_prims]:
  "opnd_add_flags (BASE_DISP_kind sz fl d b i) f = Some (BASE_DISP_kind sz (f OR fl) d b i)"
  by (simp add: opnd_add_flags_def)

lemma opnd_create_base_disp_no_index [codec_prims]:
  "unat r \<le> 99 \<Longrightarrow> opnd_create_base_disp r DR_REG_NULL 0 disp sz =
     (if sz < OPSZ_LAST_ENUM then Some (BASE_DISP_kind sz 0 disp (ucast r) 0) else None)"
  by (auto simp: opnd_create_base_disp_def opnd_create_far_base_disp_ex_def word_le_nat_alt)

lemma opnd_create_reg_valid [codec_prims]:
  "1 < unat r \<Longrightarrow> unat r \<le> 99 \<Longrightarrow> opnd_create_reg r = Some (REG_kind 0 0 r OPSZ_NA)"
  by (auto simp: opnd_create_reg_def word_le_nat_alt)

lemma opsz_by_bytes_sound:
  "list_all (\<lambda>(n, sz). sz \<noteq> OPSZ_NA \<and> opnd_size_in_bytes sz = Some n) opsz_by_bytes"
  by code_simp

text \<open>\<^verbatim>\<open>opnd_size_from_bytes\<close> is a right inverse of \<^verbatim>\<open>opnd_size_in_bytes\<close>: whenever a byte count has an
operand size, that size has the byte count.\<close>

theorem opnd_size_roundtrip:
  assumes "opnd_size_from_bytes n \<noteq> OPSZ_NA"
  shows "opnd_size_in_bytes (opnd_size_from_bytes n) = Some n"
proof -
  obtain sz where sz: "map_of opsz_by_bytes n = Some sz"
    using assms by (auto simp: opnd_size_from_bytes_def split: option.splits)
  then have "(n, sz) \<in> set opsz_by_bytes" by (rule map_of_SomeD)
  then show ?thesis
    using opsz_by_bytes_sound sz by (auto simp: list_all_iff opnd_size_from_bytes_def)
qed

theorem opnd_size_roundtrip_witness:
  "opnd_size_from_bytes 128 = 79 \<and> opnd_size_in_bytes 79 = Some 128"
proof -
  have "opnd_size_from_bytes 128 = 79" by code_simp
  then show ?thesis using opnd_size_roundtrip [of 128] by simp
qed

end
