(* ===== verification/Instr.thy ===== *)
theory Instr
  imports Opnd
begin

text \<open>
  The instruction object \<^verbatim>\<open>instr_t\<close> (\<^verbatim>\<open>core/ir/instr_api.h\<close>) and the setters and getters that the
  codec uses (\<^verbatim>\<open>core/ir/instr_shared.c\<close>, \<^verbatim>\<open>instr_inline_api.h\<close>). A source or destination array
  is a list whose elements are \<open>None\<close> while the heap memory is uninitialised; the empty list is
  the \<^verbatim>\<open>NULL\<close> pointer. The getters call \<^verbatim>\<open>MAKE_OPNDS_VALID\<close>, which decodes the raw bits again
  when the operands are not valid; that case is \<open>None\<close> here, as every caller in the model has
  valid operands.
\<close>

unbundle bit_operations_syntax

subsection \<open>State\<close>

record instr_t =
  i_flags :: u32
  i_length :: u32
  i_bytes :: u64
  i_translation :: u64
  i_opcode :: nat
  i_num_dsts :: nat
  i_num_srcs :: nat
  i_src0 :: opnd_t
  i_srcs :: "opnd_t option list"
  i_dsts :: "opnd_t option list"
  i_offset :: u64

definition INSTR_OPERANDS_VALID :: u32 where "INSTR_OPERANDS_VALID = 0x00010000"
definition INSTR_RAW_BITS_VALID :: u32 where "INSTR_RAW_BITS_VALID = 0x00080000"
definition INSTR_RAW_BITS_ALLOCATED :: u32 where "INSTR_RAW_BITS_ALLOCATED = 0x00100000"
definition INSTR_DO_NOT_MANGLE :: u32 where "INSTR_DO_NOT_MANGLE = 0x00200000"
definition INSTR_IS_NOALLOC_STRUCT :: u32 where "INSTR_IS_NOALLOC_STRUCT = 0x00400000"
definition INSTR_OUR_MANGLING :: u32 where "INSTR_OUR_MANGLING = 0x40000000"

abbreviation (input) OP_INVALID :: nat where "OP_INVALID \<equiv> 0"
abbreviation (input) OP_UNDECODED :: nat where "OP_UNDECODED \<equiv> 1"
abbreviation (input) OP_CONTD :: nat where "OP_CONTD \<equiv> 2"
abbreviation (input) OP_LABEL :: nat where "OP_LABEL \<equiv> 3"

abbreviation (input) MAX_SRC_OPNDS :: nat where "MAX_SRC_OPNDS \<equiv> 3"
abbreviation (input) MAX_DST_OPNDS :: nat where "MAX_DST_OPNDS \<equiv> 1"

definition instr_init :: instr_t where
  "instr_init = \<lparr>i_flags = 0, i_length = 0, i_bytes = 0, i_translation = 0, i_opcode = OP_INVALID,
     i_num_dsts = 0, i_num_srcs = 0, i_src0 = NULL_kind, i_srcs = [], i_dsts = [], i_offset = 0\<rparr>"

definition instr_noalloc_init :: instr_t where
  "instr_noalloc_init = instr_init\<lparr>i_flags := 0 OR INSTR_IS_NOALLOC_STRUCT\<rparr>"

subsection \<open>Flags\<close>

definition instr_operands_valid :: "instr_t \<Rightarrow> bool" where
  "instr_operands_valid instr \<longleftrightarrow> TESTALL INSTR_OPERANDS_VALID (i_flags instr)"

definition instr_raw_bits_valid :: "instr_t \<Rightarrow> bool" where
  "instr_raw_bits_valid instr \<longleftrightarrow> TESTALL INSTR_RAW_BITS_VALID (i_flags instr)"

definition instr_has_allocated_bits :: "instr_t \<Rightarrow> bool" where
  "instr_has_allocated_bits instr \<longleftrightarrow> TESTALL INSTR_RAW_BITS_ALLOCATED (i_flags instr)"

definition instr_needs_encoding :: "instr_t \<Rightarrow> bool" where
  "instr_needs_encoding instr \<longleftrightarrow> \<not> TESTALL INSTR_RAW_BITS_VALID (i_flags instr)"

definition instr_is_app :: "instr_t \<Rightarrow> bool" where
  "instr_is_app instr \<longleftrightarrow> i_flags instr AND INSTR_DO_NOT_MANGLE = 0"

definition instr_is_meta :: "instr_t \<Rightarrow> bool" where
  "instr_is_meta instr \<longleftrightarrow> i_flags instr AND INSTR_DO_NOT_MANGLE \<noteq> 0"

definition instr_set_app :: "instr_t \<Rightarrow> instr_t" where
  "instr_set_app instr = instr\<lparr>i_flags := i_flags instr AND NOT INSTR_DO_NOT_MANGLE\<rparr>"

definition instr_set_meta :: "instr_t \<Rightarrow> instr_t" where
  "instr_set_meta instr = instr\<lparr>i_flags := i_flags instr OR INSTR_DO_NOT_MANGLE\<rparr>"

definition instr_is_our_mangling :: "instr_t \<Rightarrow> bool" where
  "instr_is_our_mangling instr \<longleftrightarrow> TESTALL INSTR_OUR_MANGLING (i_flags instr)"

definition instr_set_our_mangling :: "instr_t \<Rightarrow> bool \<Rightarrow> instr_t" where
  "instr_set_our_mangling instr ours =
     (if ours then instr\<lparr>i_flags := i_flags instr OR INSTR_OUR_MANGLING\<rparr>
      else instr\<lparr>i_flags := i_flags instr AND NOT INSTR_OUR_MANGLING\<rparr>)"

definition instr_set_operands_valid :: "instr_t \<Rightarrow> bool \<Rightarrow> instr_t" where
  "instr_set_operands_valid instr valid =
     (if valid then instr\<lparr>i_flags := i_flags instr OR INSTR_OPERANDS_VALID\<rparr>
      else instr\<lparr>i_flags := i_flags instr AND NOT INSTR_OPERANDS_VALID\<rparr>)"

definition instr_set_raw_bits_valid :: "instr_t \<Rightarrow> bool \<Rightarrow> instr_t" where
  "instr_set_raw_bits_valid instr valid =
     (if valid then instr\<lparr>i_flags := i_flags instr OR INSTR_RAW_BITS_VALID\<rparr>
      else instr\<lparr>i_flags := i_flags instr AND NOT INSTR_RAW_BITS_VALID\<rparr>)"

definition instr_being_modified :: "instr_t \<Rightarrow> bool \<Rightarrow> instr_t" where
  "instr_being_modified instr raw_bits_valid =
     instr_set_our_mangling
       (if \<not> raw_bits_valid then instr_set_raw_bits_valid instr False else instr) False"

subsection \<open>Opcode, raw bits and translation\<close>

definition instr_valid :: "instr_t \<Rightarrow> bool" where
  "instr_valid instr \<longleftrightarrow> i_opcode instr \<noteq> OP_INVALID"

definition instr_opcode_valid :: "instr_t \<Rightarrow> bool" where
  "instr_opcode_valid instr \<longleftrightarrow> i_opcode instr \<noteq> OP_INVALID \<and> i_opcode instr \<noteq> OP_UNDECODED"

text \<open>An \<^verbatim>\<open>OP_UNDECODED\<close> opcode makes \<^verbatim>\<open>instr_get_opcode\<close> decode the raw bits, which is \<open>None\<close> here.\<close>

definition instr_get_opcode :: "instr_t \<Rightarrow> nat option" where
  "instr_get_opcode instr = (if i_opcode instr = OP_UNDECODED then None else Some (i_opcode instr))"

definition instr_is_label :: "instr_t \<Rightarrow> bool" where
  "instr_is_label instr \<longleftrightarrow> instr_opcode_valid instr \<and> i_opcode instr = OP_LABEL"

definition instr_set_opcode :: "instr_t \<Rightarrow> nat \<Rightarrow> instr_t option" where
  "instr_set_opcode instr opc =
     (let instr = instr_being_modified (instr\<lparr>i_opcode := opc\<rparr>) False in
      if (opc \<noteq> OP_INVALID \<and> opc \<noteq> OP_UNDECODED) \<or> \<not> instr_operands_valid instr
      then Some instr else None)"

definition instr_set_raw_bits :: "instr_t \<Rightarrow> u64 \<Rightarrow> u32 \<Rightarrow> instr_t option" where
  "instr_set_raw_bits instr addr len =
     (if i_flags instr AND INSTR_RAW_BITS_ALLOCATED \<noteq> 0 \<and>
         \<not> (addr = i_bytes instr \<and> len = i_length instr)
      then None
      else do {
        instr \<leftarrow> (if \<not> instr_valid instr then instr_set_opcode instr OP_UNDECODED else Some instr);
        Some (instr\<lparr>i_flags := i_flags instr OR INSTR_RAW_BITS_VALID, i_bytes := addr,
          i_length := len\<rparr>)
      })"

definition instr_set_translation :: "instr_t \<Rightarrow> u64 \<Rightarrow> instr_t" where
  "instr_set_translation instr addr = instr\<lparr>i_translation := addr\<rparr>"

definition instr_free_raw_bits :: "instr_t \<Rightarrow> instr_t" where
  "instr_free_raw_bits instr =
     (if i_flags instr AND INSTR_RAW_BITS_ALLOCATED = 0 then instr
      else instr\<lparr>i_bytes := 0,
        i_flags := i_flags instr AND NOT INSTR_RAW_BITS_VALID AND NOT INSTR_RAW_BITS_ALLOCATED\<rparr>)"

subsection \<open>Operands\<close>

definition instr_set_num_opnds :: "instr_t \<Rightarrow> nat \<Rightarrow> nat \<Rightarrow> instr_t option" where
  "instr_set_num_opnds instr instr_num_dsts instr_num_srcs =
     do {
       instr \<leftarrow> (if instr_num_dsts > 0 then
           (if i_num_dsts instr = 0 \<and> i_dsts instr = [] \<and> instr_num_dsts < 256
            then Some (instr\<lparr>i_num_dsts := instr_num_dsts,
              i_dsts := replicate (if TESTALL INSTR_IS_NOALLOC_STRUCT (i_flags instr)
                then MAX_DST_OPNDS else instr_num_dsts) None\<rparr>)
            else None)
         else Some instr);
       instr \<leftarrow> (if instr_num_srcs > 0 then
           do {
             instr \<leftarrow> (if instr_num_srcs > 1 then
                 (if i_num_srcs instr \<le> 1 \<and> i_srcs instr = []
                  then Some (instr\<lparr>i_srcs := replicate
                    (if TESTALL INSTR_IS_NOALLOC_STRUCT (i_flags instr)
                     then MAX_SRC_OPNDS - 1 else instr_num_srcs - 1) None\<rparr>)
                  else None)
               else Some instr);
             if instr_num_srcs < 256 then Some (instr\<lparr>i_num_srcs := instr_num_srcs\<rparr>) else None
           }
         else Some instr);
       Some (instr_set_operands_valid (instr_being_modified instr False) True)
     }"

definition instr_set_src :: "instr_t \<Rightarrow> nat \<Rightarrow> opnd_t \<Rightarrow> instr_t option" where
  "instr_set_src instr pos opnd =
     (if pos < i_num_srcs instr then
        do {
          instr \<leftarrow> (if pos = 0 then Some (instr\<lparr>i_src0 := opnd\<rparr>)
            else if pos - 1 < length (i_srcs instr)
            then Some (instr\<lparr>i_srcs := (i_srcs instr)[pos - 1 := Some opnd]\<rparr>)
            else None);
          Some (instr_set_operands_valid (instr_being_modified instr False) True)
        }
      else None)"

definition instr_set_dst :: "instr_t \<Rightarrow> nat \<Rightarrow> opnd_t \<Rightarrow> instr_t option" where
  "instr_set_dst instr pos opnd =
     (if pos < i_num_dsts instr \<and> pos < length (i_dsts instr) then
        Some (instr_set_operands_valid (instr_being_modified
          (instr\<lparr>i_dsts := (i_dsts instr)[pos := Some opnd]\<rparr>) False) True)
      else None)"

text \<open>\<^verbatim>\<open>instr_is_cti_short_rewrite\<close> is constantly false on RISC-V (\<^verbatim>\<open>core/ir/riscv64/instr.c\<close>).\<close>

definition instr_set_target :: "instr_t \<Rightarrow> opnd_t \<Rightarrow> instr_t option" where
  "instr_set_target instr target =
     (if 1 \<le> i_num_srcs instr then
        Some (instr_set_operands_valid
          (instr_being_modified (instr\<lparr>i_src0 := target\<rparr>) False) True)
      else None)"

definition instr_get_src :: "instr_t \<Rightarrow> nat \<Rightarrow> opnd_t option" where
  "instr_get_src instr pos =
     (if instr_operands_valid instr \<and> pos < i_num_srcs instr then
        (if pos = 0 then Some (i_src0 instr)
         else if pos - 1 < length (i_srcs instr) then i_srcs instr ! (pos - 1) else None)
      else None)"

definition instr_get_dst :: "instr_t \<Rightarrow> nat \<Rightarrow> opnd_t option" where
  "instr_get_dst instr pos =
     (if instr_operands_valid instr \<and> pos < i_num_dsts instr \<and> pos < length (i_dsts instr)
      then i_dsts instr ! pos else None)"

text \<open>
  Removing operands copies the survivors into a freshly allocated array. \<open>memcpy_opnds\<close> is the
  \<^verbatim>\<open>memcpy\<close> of \<open>cnt\<close> elements from \<open>src + soff\<close> to \<open>dst + doff\<close>.
\<close>

definition memcpy_opnds :: "'a list \<Rightarrow> nat \<Rightarrow> 'a list \<Rightarrow> nat \<Rightarrow> nat \<Rightarrow> 'a list option" where
  "memcpy_opnds dst doff src soff cnt =
     (if doff + cnt \<le> length dst \<and> soff + cnt \<le> length src
      then Some (take doff dst @ take cnt (drop soff src) @ drop (doff + cnt) dst) else None)"

definition instr_remove_srcs :: "instr_t \<Rightarrow> nat \<Rightarrow> nat \<Rightarrow> instr_t option" where
  "instr_remove_srcs instr start end =
     (if TESTALL INSTR_IS_NOALLOC_STRUCT (i_flags instr) \<or>
         \<not> (end \<le> i_num_srcs instr \<and> start < end)
      then None
      else do {
        new_srcs \<leftarrow> (if i_num_srcs instr - 1 > end - start then
            do {
              let new_srcs = replicate (i_num_srcs instr - 1 - (end - start)) None;
              new_srcs \<leftarrow> (if start > 1 then memcpy_opnds new_srcs 0 (i_srcs instr) 0 (start - 1)
                else Some new_srcs);
              if end < i_num_srcs instr - 1
              then memcpy_opnds new_srcs (if start = 0 then 0 else start - 1) (i_srcs instr) end
                (i_num_srcs instr - 1 - end)
              else Some new_srcs
            }
          else Some []);
        src0 \<leftarrow> (if start = 0 \<and> end < i_num_srcs instr then
            (if end - 1 < length (i_srcs instr) then i_srcs instr ! (end - 1) else None)
          else Some (i_src0 instr));
        Some (instr_set_operands_valid (instr_being_modified
          (instr\<lparr>i_src0 := src0, i_num_srcs := i_num_srcs instr - (end - start),
             i_srcs := new_srcs\<rparr>) False) True)
      })"

definition instr_remove_dsts :: "instr_t \<Rightarrow> nat \<Rightarrow> nat \<Rightarrow> instr_t option" where
  "instr_remove_dsts instr start end =
     (if TESTALL INSTR_IS_NOALLOC_STRUCT (i_flags instr) \<or>
         \<not> (end \<le> i_num_dsts instr \<and> start < end)
      then None
      else do {
        new_dsts \<leftarrow> (if i_num_dsts instr > end - start then
            do {
              let new_dsts = replicate (i_num_dsts instr - (end - start)) None;
              new_dsts \<leftarrow> (if start > 0 then memcpy_opnds new_dsts 0 (i_dsts instr) 0 start
                else Some new_dsts);
              if end < i_num_dsts instr
              then memcpy_opnds new_dsts start (i_dsts instr) end (i_num_dsts instr - end)
              else Some new_dsts
            }
          else Some []);
        Some (instr_set_operands_valid (instr_being_modified
          (instr\<lparr>i_num_dsts := i_num_dsts instr - (end - start), i_dsts := new_dsts\<rparr>) False) True)
      })"

subsection \<open>Well-formed instructions\<close>

text \<open>
  The operand arrays have the size their counters say (heap-allocated instructions; the inline
  arrays of an \<^verbatim>\<open>instr_noalloc_t\<close> have a fixed size).
\<close>

definition instr_wf :: "instr_t \<Rightarrow> bool" where
  "instr_wf instr \<longleftrightarrow> length (i_dsts instr) = i_num_dsts instr \<and>
     length (i_srcs instr) = i_num_srcs instr - 1 \<and> i_num_dsts instr < 256 \<and>
     i_num_srcs instr < 256 \<and> \<not> TESTALL INSTR_IS_NOALLOC_STRUCT (i_flags instr)"

lemma flag_disjoint [simp]:
  "INSTR_OPERANDS_VALID AND INSTR_RAW_BITS_VALID = 0"
  "INSTR_OPERANDS_VALID AND INSTR_OUR_MANGLING = 0"
  "INSTR_RAW_BITS_VALID AND INSTR_OPERANDS_VALID = 0"
  "INSTR_RAW_BITS_VALID AND INSTR_OUR_MANGLING = 0"
  "INSTR_RAW_BITS_ALLOCATED AND INSTR_OPERANDS_VALID = 0"
  "INSTR_RAW_BITS_ALLOCATED AND INSTR_OUR_MANGLING = 0"
  "INSTR_RAW_BITS_ALLOCATED AND INSTR_RAW_BITS_VALID = 0"
  "INSTR_IS_NOALLOC_STRUCT AND INSTR_OPERANDS_VALID = 0"
  "INSTR_IS_NOALLOC_STRUCT AND INSTR_RAW_BITS_VALID = 0"
  "INSTR_IS_NOALLOC_STRUCT AND INSTR_OUR_MANGLING = 0"
  "INSTR_OUR_MANGLING AND INSTR_OPERANDS_VALID = 0"
  "INSTR_OPERANDS_VALID \<noteq> 0" "INSTR_RAW_BITS_VALID \<noteq> 0" "INSTR_OUR_MANGLING \<noteq> 0"
  "INSTR_IS_NOALLOC_STRUCT \<noteq> 0" "INSTR_RAW_BITS_ALLOCATED \<noteq> 0"
  by (simp_all add: INSTR_OPERANDS_VALID_def INSTR_RAW_BITS_VALID_def INSTR_OUR_MANGLING_def
      INSTR_RAW_BITS_ALLOCATED_def INSTR_IS_NOALLOC_STRUCT_def)

lemmas instr_flag_defs = instr_set_operands_valid_def instr_being_modified_def
  instr_set_our_mangling_def instr_set_raw_bits_valid_def instr_operands_valid_def
  instr_raw_bits_valid_def instr_is_our_mangling_def

lemma touched_fields [simp]:
  "i_opcode (instr_set_operands_valid i v) = i_opcode i"
  "i_offset (instr_set_operands_valid i v) = i_offset i"
  "i_num_srcs (instr_set_operands_valid i v) = i_num_srcs i"
  "i_num_dsts (instr_set_operands_valid i v) = i_num_dsts i"
  "i_src0 (instr_set_operands_valid i v) = i_src0 i"
  "i_srcs (instr_set_operands_valid i v) = i_srcs i"
  "i_dsts (instr_set_operands_valid i v) = i_dsts i"
  "i_opcode (instr_being_modified i r) = i_opcode i"
  "i_offset (instr_being_modified i r) = i_offset i"
  "i_num_srcs (instr_being_modified i r) = i_num_srcs i"
  "i_num_dsts (instr_being_modified i r) = i_num_dsts i"
  "i_src0 (instr_being_modified i r) = i_src0 i"
  "i_srcs (instr_being_modified i r) = i_srcs i"
  "i_dsts (instr_being_modified i r) = i_dsts i"
  by (simp_all add: instr_flag_defs)

lemma touched_flags [simp]:
  "instr_operands_valid (instr_set_operands_valid i True)"
  "\<not> instr_operands_valid (instr_set_operands_valid i False)"
  "instr_raw_bits_valid (instr_set_operands_valid i v) = instr_raw_bits_valid i"
  "instr_is_our_mangling (instr_set_operands_valid i v) = instr_is_our_mangling i"
  "\<not> instr_raw_bits_valid (instr_being_modified i False)"
  "instr_operands_valid (instr_being_modified i r) = instr_operands_valid i"
  "\<not> instr_is_our_mangling (instr_being_modified i r)"
  "TESTALL INSTR_IS_NOALLOC_STRUCT (i_flags (instr_set_operands_valid i v)) =
     TESTALL INSTR_IS_NOALLOC_STRUCT (i_flags i)"
  "TESTALL INSTR_IS_NOALLOC_STRUCT (i_flags (instr_being_modified i r)) =
     TESTALL INSTR_IS_NOALLOC_STRUCT (i_flags i)"
  by (simp_all add: instr_flag_defs)

lemma instr_wf_init: "instr_wf instr_init"
  by (simp add: instr_wf_def instr_init_def TESTALL_def)

lemma instr_wf_set_num_opnds:
  "instr_wf i \<Longrightarrow> i_num_srcs i \<le> 1 \<Longrightarrow> instr_set_num_opnds i nd ns = Some i' \<Longrightarrow>
   instr_wf i' \<and> i_opcode i' = i_opcode i \<and> instr_operands_valid i' \<and>
   i_num_dsts i' = (if nd = 0 then i_num_dsts i else nd) \<and>
   i_num_srcs i' = (if ns = 0 then i_num_srcs i else ns)"
  by (auto simp: instr_wf_def instr_set_num_opnds_def split: if_splits bind_splits)

subsection \<open>Operand slots\<close>

text \<open>
  One index space for the source and destination operands of an instruction. The jump target is
  the first source.
\<close>

datatype opnd_slot = DST nat | SRC nat

fun slot_set :: "instr_t \<Rightarrow> opnd_slot \<Rightarrow> opnd_t \<Rightarrow> instr_t option" where
  "slot_set instr (DST i) opnd = instr_set_dst instr i opnd"
| "slot_set instr (SRC i) opnd = instr_set_src instr i opnd"

fun slot_get :: "instr_t \<Rightarrow> opnd_slot \<Rightarrow> opnd_t option" where
  "slot_get instr (DST i) = instr_get_dst instr i"
| "slot_get instr (SRC i) = instr_get_src instr i"

fun set_all :: "('i \<Rightarrow> 's \<Rightarrow> 'v \<Rightarrow> 'i option) \<Rightarrow> 'i \<Rightarrow> ('s \<times> 'v) list \<Rightarrow> 'i option" where
  "set_all st i [] = Some i"
| "set_all st i ((s, v) # ws) = do { i' \<leftarrow> st i s v; set_all st i' ws }"

text \<open>
  What the codec relies on: a written slot reads back as written, and writing one slot keeps
  every other slot and the fields outside the slots.
\<close>

locale operand_store =
  fixes get :: "'i \<Rightarrow> 's \<Rightarrow> 'v option"
    and set_slot :: "'i \<Rightarrow> 's \<Rightarrow> 'v \<Rightarrow> 'i option"
    and rest :: "'i \<Rightarrow> 'r"
  assumes get_same: "set_slot i s v = Some i' \<Longrightarrow> get i' s = Some v"
    and get_other: "set_slot i s v = Some i' \<Longrightarrow> t \<noteq> s \<Longrightarrow> get i t = Some w \<Longrightarrow> get i' t = Some w"
    and rest_kept: "set_slot i s v = Some i' \<Longrightarrow> rest i' = rest i"
begin

lemma set_all_keeps:
  "set_all set_slot i ws = Some i' \<Longrightarrow> t \<notin> fst ` set ws \<Longrightarrow> get i t = Some w \<Longrightarrow> get i' t = Some w"
  by (induction ws arbitrary: i) (auto split: bind_splits dest!: get_other)

lemma set_all_rest: "set_all set_slot i ws = Some i' \<Longrightarrow> rest i' = rest i"
  by (induction ws arbitrary: i) (auto split: bind_splits dest: rest_kept)

lemma set_all_reads:
  "set_all set_slot i ws = Some i' \<Longrightarrow> distinct (map fst ws) \<Longrightarrow> (s, v) \<in> set ws \<Longrightarrow>
   get i' s = Some v"
proof (induction ws arbitrary: i)
  case (Cons w ws)
  obtain s0 v0 i0 where w: "w = (s0, v0)" "set_slot i s0 v0 = Some i0"
      "set_all set_slot i0 ws = Some i'"
    using Cons.prems(1) by (cases w) (auto split: bind_splits)
  show ?case
  proof (cases "(s, v) = w")
    case True
    then have "get i0 s = Some v" "s \<notin> fst ` set ws"
      using w Cons.prems(2) get_same [OF w(2)] by auto
    then show ?thesis using set_all_keeps [OF w(3)] by blast
  next
    case False
    then show ?thesis using Cons.IH [OF w(3)] Cons.prems(2,3) by auto
  qed
qed simp

end

text \<open>The state outside the operand slots that a setter keeps.\<close>

definition instr_frame :: "instr_t \<Rightarrow> nat \<times> u64 \<times> nat \<times> nat \<times> bool" where
  "instr_frame i = (i_opcode i, i_offset i, i_num_dsts i, i_num_srcs i,
     TESTALL INSTR_IS_NOALLOC_STRUCT (i_flags i))"

lemma slot_set_Some:
  assumes "slot_set i s v = Some i'"
  shows "slot_get i' s = Some v"
    and "t \<noteq> s \<Longrightarrow> slot_get i t = Some w \<Longrightarrow> slot_get i' t = Some w"
    and "instr_frame i' = instr_frame i"
    and "instr_operands_valid i' \<and> \<not> instr_raw_bits_valid i'"
    and "instr_wf i \<Longrightarrow> instr_wf i'"
  using assms
  by (cases s; cases t; auto simp: instr_set_src_def instr_set_dst_def instr_get_src_def
      instr_get_dst_def instr_frame_def instr_wf_def nth_list_update split: if_splits bind_splits)+

interpretation islots: operand_store slot_get slot_set instr_frame
  using slot_set_Some by unfold_locales blast+

lemma instr_set_target_src0: "instr_set_target i opnd = instr_set_src i 0 opnd"
  by (simp add: instr_set_target_def instr_set_src_def)

lemma slot_set_defined:
  assumes "instr_wf i"
  shows "n < i_num_dsts i \<Longrightarrow> \<exists>i'. slot_set i (DST n) v = Some i'"
    and "n < i_num_srcs i \<Longrightarrow> \<exists>i'. slot_set i (SRC n) v = Some i'"
  using assms by (auto simp: instr_set_src_def instr_set_dst_def instr_wf_def)

subsection \<open>Removing operands\<close>

lemma memcpy_opnds_fresh:
  "memcpy_opnds (replicate n v) 0 src 0 cnt =
     (if cnt \<le> n \<and> cnt \<le> length src then Some (take cnt src @ replicate (n - cnt) v) else None)"
  by (auto simp: memcpy_opnds_def)

text \<open>All operands of an instruction, in order.\<close>

definition all_srcs :: "instr_t \<Rightarrow> opnd_t option list" where
  "all_srcs i = (if i_num_srcs i = 0 then [] else Some (i_src0 i) # i_srcs i)"

definition remove_range :: "nat \<Rightarrow> nat \<Rightarrow> 'a list \<Rightarrow> 'a list" where
  "remove_range start end xs = take start xs @ drop end xs"

lemma replicate_one: "replicate (Suc 0) x = [x]"
  by simp

text \<open>Removing the destinations \<open>[start, end)\<close> leaves exactly the others, in order, keeps every source
and keeps the instruction well formed.\<close>

theorem instr_remove_dsts_spec:
  assumes wf: "instr_wf i" and r: "start < end" "end \<le> i_num_dsts i"
  shows "\<exists>i'. instr_remove_dsts i start end = Some i' \<and> i_dsts i' = remove_range start end (i_dsts i) \<and>
    i_num_dsts i' = i_num_dsts i - (end - start) \<and> all_srcs i' = all_srcs i \<and> instr_wf i'"
proof -
  let ?i = "instr_set_operands_valid (instr_being_modified
    (i\<lparr>i_num_dsts := i_num_dsts i - (end - start), i_dsts := remove_range start end (i_dsts i)\<rparr>) False) True"
  have len: "length (i_dsts i) = i_num_dsts i" and na: "\<not> TESTALL INSTR_IS_NOALLOC_STRUCT (i_flags i)"
    using wf by (auto simp: instr_wf_def)
  have "instr_remove_dsts i start end = Some ?i"
    using r len na
    by (cases "start = 0"; cases "end = i_num_dsts i")
      (auto simp: instr_remove_dsts_def memcpy_opnds_def remove_range_def Let_def)
  moreover have "instr_wf ?i" "all_srcs ?i = all_srcs i"
    using wf r by (auto simp: instr_wf_def remove_range_def all_srcs_def)
  ultimately show ?thesis by simp
qed

text \<open>removing the first \<open>end\<close> sources leaves exactly the others, in order: the first survivor becomes
\<^verbatim>\<open>src0\<close>, the rest the \<^verbatim>\<open>srcs\<close> array.\<close>

theorem instr_remove_srcs_front:
  assumes wf: "instr_wf i" and r: "0 < end" "end \<le> i_num_srcs i" and ini: "None \<notin> set (i_srcs i)"
  shows "\<exists>i'. instr_remove_srcs i 0 end = Some i' \<and> all_srcs i' = remove_range 0 end (all_srcs i) \<and>
    i_dsts i' = i_dsts i \<and> instr_wf i'"
proof (cases "end < i_num_srcs i")
  case True
  have len: "length (i_srcs i) = i_num_srcs i - 1" and na: "\<not> TESTALL INSTR_IS_NOALLOC_STRUCT (i_flags i)"
    using wf by (auto simp: instr_wf_def)
  have "i_srcs i ! (end - 1) \<in> set (i_srcs i)" using True r len by (intro nth_mem) auto
  then obtain src where src: "i_srcs i ! (end - 1) = Some src" using ini by (metis option.exhaust)
  have dr: "drop (end - 1) (i_srcs i) = Some src # drop end (i_srcs i)"
    using Cons_nth_drop_Suc [of "end - 1" "i_srcs i"] True r len src by auto
  let ?i = "instr_set_operands_valid (instr_being_modified
    (i\<lparr>i_src0 := src, i_num_srcs := i_num_srcs i - end, i_srcs := drop end (i_srcs i)\<rparr>) False) True"
  have "instr_remove_srcs i 0 end = Some ?i"
    using r len na src True
    by (cases "end < i_num_srcs i - 1")
      (auto simp: instr_remove_srcs_def memcpy_opnds_def Let_def)
  moreover have "instr_wf ?i" using wf r by (auto simp: instr_wf_def)
  moreover have "all_srcs ?i = remove_range 0 end (all_srcs i)"
    using True r dr by (simp add: all_srcs_def remove_range_def drop_Cons')
  ultimately show ?thesis by simp
next
  case False
  then show ?thesis using assms
    by (intro exI [of _ "instr_set_operands_valid (instr_being_modified
        (i\<lparr>i_num_srcs := 0, i_srcs := []\<rparr>) False) True"])
      (auto simp: instr_remove_srcs_def instr_wf_def remove_range_def all_srcs_def)
qed

text \<open>Removing an inner range \<open>[start, end)\<close> of sources, \<open>0 < start\<close>, also drops source \<open>end\<close> and leaves
the last slot of the new array uninitialised: \<^verbatim>\<open>instr->srcs + end\<close> is the address of source \<open>end + 1\<close>,
because the array starts with source 1.\<close>

theorem instr_remove_srcs_drops:
  assumes wf: "instr_wf i" and r: "0 < start" "start < end" "end < i_num_srcs i"
  shows "\<exists>i'. instr_remove_srcs i start end = Some i' \<and>
     all_srcs i' = take start (all_srcs i) @ drop (Suc end) (all_srcs i) @ [None]"
proof -
  have len: "length (i_srcs i) = i_num_srcs i - 1" and na: "\<not> TESTALL INSTR_IS_NOALLOC_STRUCT (i_flags i)"
    using wf by (auto simp: instr_wf_def)
  obtain k where start: "start = Suc k" using r by (cases start) auto
  let ?i = "instr_set_operands_valid (instr_being_modified
    (i\<lparr>i_num_srcs := i_num_srcs i - (end - start), i_srcs := take k (i_srcs i) @ drop end (i_srcs i) @ [None]\<rparr>) False) True"
  obtain m where m: "i_num_srcs i = Suc (end + m)" using r less_imp_Suc_add by blast
  have "instr_remove_srcs i start end = Some ?i"
    using r len na start m
    by (cases "k = 0"; cases "m = 0")
      (auto simp: instr_remove_srcs_def memcpy_opnds_def Let_def Suc_diff_le
        replicate_one simp del: replicate_Suc)
  then show ?thesis using r start by (simp add: all_srcs_def)
qed

subsection \<open>The properties on a concrete instruction\<close>

definition sample_instr :: instr_t where
  "sample_instr = instr_init\<lparr>i_num_dsts := 3, i_num_srcs := 4, i_src0 := PC_kind 10,
     i_srcs := map (\<lambda>r. Some (PC_kind r)) [11, 12, 13],
     i_dsts := map (\<lambda>r. Some (PC_kind r)) [20, 21, 22]\<rparr>"

lemma sample_instr_wf: "instr_wf sample_instr"
  by (simp add: instr_wf_def sample_instr_def instr_init_def TESTALL_def INSTR_IS_NOALLOC_STRUCT_def)

lemma sample_instr_opnds:
  "all_srcs sample_instr = map (\<lambda>r. Some (PC_kind r)) [10, 11, 12, 13]"
  "i_num_srcs sample_instr = 4" "i_num_dsts sample_instr = 3" "None \<notin> set (i_srcs sample_instr)"
  "i_dsts sample_instr = map (\<lambda>r. Some (PC_kind r)) [20, 21, 22]"
  by (simp_all add: sample_instr_def all_srcs_def)

theorem instr_remove_dsts_spec_witness:
  "\<exists>i'. instr_remove_dsts sample_instr 1 2 = Some i' \<and>
     i_dsts i' = map (\<lambda>r. Some (PC_kind r)) [20, 22]"
  using instr_remove_dsts_spec [of sample_instr 1 2] sample_instr_wf
  by (auto simp: sample_instr_opnds remove_range_def)

theorem instr_remove_srcs_front_witness:
  "\<exists>i'. instr_remove_srcs sample_instr 0 2 = Some i' \<and>
     all_srcs i' = map (\<lambda>r. Some (PC_kind r)) [12, 13]"
  using instr_remove_srcs_front [of sample_instr 2] sample_instr_wf
  by (auto simp: sample_instr_opnds remove_range_def)

theorem instr_remove_srcs_drops_witness:
  "\<exists>i'. instr_remove_srcs sample_instr 1 2 = Some i' \<and>
     all_srcs i' = [Some (PC_kind 10), Some (PC_kind 13), None]"
  using instr_remove_srcs_drops [of sample_instr 1 2] sample_instr_wf
  by (auto simp: sample_instr_opnds)

end
