(* ===== verification/InstrList.thy ===== *)
theory InstrList
  imports Instr
begin

text \<open>
  Instruction lists (\<^verbatim>\<open>core/ir/instrlist.c\<close>, \<^verbatim>\<open>instrlist.h\<close>) and the links of an instruction object
  (\<^verbatim>\<open>instr_inline_api.h\<close>). The instructions live in a store from references to nodes, so that the aliasing between
  a list, its neighbours and a chain being inserted is explicit; reference 0 is \<^verbatim>\<open>NULL\<close>, and following it
  is \<open>None\<close>. An \<^verbatim>\<open>instrlist_t\<close> is passed by value and returned updated.
\<close>

unbundle bit_operations_syntax

subsection \<open>Nodes\<close>

record node =
  n_instr :: instr_t
  n_note :: instr_ref
  n_prev :: instr_ref
  n_next :: instr_ref

type_synonym store = "instr_ref \<Rightarrow> node option"

definition node_at :: "store \<Rightarrow> instr_ref \<Rightarrow> node option" where
  "node_at h p = (if p = 0 then None else h p)"

definition upd_node :: "store \<Rightarrow> instr_ref \<Rightarrow> (node \<Rightarrow> node) \<Rightarrow> store option" where
  "upd_node h p f = do { nd \<leftarrow> node_at h p; Some (h(p \<mapsto> f nd)) }"

definition instr_get_next :: "store \<Rightarrow> instr_ref \<Rightarrow> instr_ref option" where
  "instr_get_next h p = do { nd \<leftarrow> node_at h p; Some (n_next nd) }"

definition instr_get_prev :: "store \<Rightarrow> instr_ref \<Rightarrow> instr_ref option" where
  "instr_get_prev h p = do { nd \<leftarrow> node_at h p; Some (n_prev nd) }"

definition instr_get_note :: "store \<Rightarrow> instr_ref \<Rightarrow> instr_ref option" where
  "instr_get_note h p = do { nd \<leftarrow> node_at h p; Some (n_note nd) }"

definition instr_set_next :: "store \<Rightarrow> instr_ref \<Rightarrow> instr_ref \<Rightarrow> store option" where
  "instr_set_next h p q = upd_node h p (\<lambda>nd. nd\<lparr>n_next := q\<rparr>)"

definition instr_set_prev :: "store \<Rightarrow> instr_ref \<Rightarrow> instr_ref \<Rightarrow> store option" where
  "instr_set_prev h p q = upd_node h p (\<lambda>nd. nd\<lparr>n_prev := q\<rparr>)"

definition instr_set_note :: "store \<Rightarrow> instr_ref \<Rightarrow> instr_ref \<Rightarrow> store option" where
  "instr_set_note h p v = upd_node h p (\<lambda>nd. nd\<lparr>n_note := v\<rparr>)"

text \<open>The loops of \<^verbatim>\<open>instr_get_next_app\<close> and \<^verbatim>\<open>instr_get_prev_app\<close>; a cyclic chain without an application
instruction makes them run forever.\<close>

partial_function (option) next_app_from :: "store \<Rightarrow> instr_ref \<Rightarrow> instr_ref option" where
  "next_app_from h p =
     (if p = 0 then Some 0
      else do { nd \<leftarrow> node_at h p; if instr_is_app (n_instr nd) then Some p else next_app_from h (n_next nd) })"

partial_function (option) prev_app_from :: "store \<Rightarrow> instr_ref \<Rightarrow> instr_ref option" where
  "prev_app_from h p =
     (if p = 0 then Some 0
      else do { nd \<leftarrow> node_at h p; if instr_is_app (n_instr nd) then Some p else prev_app_from h (n_prev nd) })"

definition instr_get_next_app :: "store \<Rightarrow> instr_ref \<Rightarrow> instr_ref option" where
  "instr_get_next_app h p = do { q \<leftarrow> instr_get_next h p; next_app_from h q }"

definition instr_get_prev_app :: "store \<Rightarrow> instr_ref \<Rightarrow> instr_ref option" where
  "instr_get_prev_app h p = do { q \<leftarrow> instr_get_prev h p; prev_app_from h q }"

subsection \<open>List objects\<close>

record instrlist_t =
  l_first :: instr_ref
  l_last :: instr_ref
  l_flags :: u32
  l_translation_target :: u64
  l_fall_through_bb :: u64

definition instrlist_init :: instrlist_t where
  "instrlist_init = \<lparr>l_first = 0, l_last = 0, l_flags = 0, l_translation_target = 0, l_fall_through_bb = 0\<rparr>"

definition instrlist_create :: instrlist_t where
  "instrlist_create = instrlist_init"

definition instrlist_destroy :: "instrlist_t \<Rightarrow> unit option" where
  "instrlist_destroy l = ASSERT (l_first l = 0 \<and> l_last l = 0)"

definition instrlist_set_fall_through_target :: "instrlist_t \<Rightarrow> u64 \<Rightarrow> bool \<times> instrlist_t" where
  "instrlist_set_fall_through_target l tgt = (True, l\<lparr>l_fall_through_bb := tgt\<rparr>)"

definition instrlist_set_return_target :: "instrlist_t \<Rightarrow> u64 \<Rightarrow> bool \<times> instrlist_t" where
  "instrlist_set_return_target l tgt = (True, l\<lparr>l_fall_through_bb := tgt\<rparr>)"

definition instrlist_set_translation_target :: "instrlist_t \<Rightarrow> u64 \<Rightarrow> instrlist_t" where
  "instrlist_set_translation_target l pc = l\<lparr>l_translation_target := pc\<rparr>"

definition instrlist_set_our_mangling :: "instrlist_t \<Rightarrow> bool \<Rightarrow> instrlist_t" where
  "instrlist_set_our_mangling l ours =
     (if ours then l\<lparr>l_flags := l_flags l OR INSTR_OUR_MANGLING\<rparr>
      else l\<lparr>l_flags := l_flags l AND NOT INSTR_OUR_MANGLING\<rparr>)"

definition instrlist_get_our_mangling :: "instrlist_t \<Rightarrow> bool" where
  "instrlist_get_our_mangling l \<longleftrightarrow> TESTALL INSTR_OUR_MANGLING (l_flags l)"

subsection \<open>Queries\<close>

definition instrlist_first_app :: "store \<Rightarrow> instrlist_t \<Rightarrow> instr_ref option" where
  "instrlist_first_app h l =
     (let first = l_first l in
      if first = 0 then Some 0
      else do { nd \<leftarrow> node_at h first; if instr_is_app (n_instr nd) then Some first else instr_get_next_app h first })"

partial_function (option) skip_labels :: "store \<Rightarrow> instr_ref \<Rightarrow> instr_ref option" where
  "skip_labels h p =
     (if p = 0 then Some 0
      else do { nd \<leftarrow> node_at h p; if instr_is_label (n_instr nd) then skip_labels h (n_next nd) else Some p })"

definition instrlist_first_nonlabel :: "store \<Rightarrow> instrlist_t \<Rightarrow> instr_ref option" where
  "instrlist_first_nonlabel h l = skip_labels h (l_first l)"

definition instrlist_last_app :: "store \<Rightarrow> instrlist_t \<Rightarrow> instr_ref option" where
  "instrlist_last_app h l =
     (let last = l_last l in
      if last = 0 then Some 0
      else do { nd \<leftarrow> node_at h last; if instr_is_app (n_instr nd) then Some last else instr_get_prev_app h last })"

subsection \<open>Insertion\<close>

definition translate :: "instrlist_t \<Rightarrow> instr_t \<Rightarrow> instr_t" where
  "translate l i =
     (let i = (if l_translation_target l \<noteq> 0 \<and> i_translation i = 0
               then instr_set_translation i (l_translation_target l) else i)
      in if instrlist_get_our_mangling l then instr_set_our_mangling i True else i)"

definition check_translation :: "instrlist_t \<Rightarrow> store \<Rightarrow> instr_ref \<Rightarrow> store option" where
  "check_translation l h p = upd_node h p (\<lambda>nd. nd\<lparr>n_instr := translate l (n_instr nd)\<rparr>)"

text \<open>The loop that the four insertions share: check the chain from \<open>inst\<close> on and find its bottom.\<close>

partial_function (option) chain_bottom :: "instrlist_t \<Rightarrow> store \<Rightarrow> instr_ref \<Rightarrow> (instr_ref \<times> store) option" where
  "chain_bottom l h inst = do {
     h \<leftarrow> check_translation l h inst;
     next \<leftarrow> instr_get_next h inst;
     if next = 0 then Some (inst, h) else chain_bottom l h next }"

definition instrlist_append :: "store \<Rightarrow> instrlist_t \<Rightarrow> instr_ref \<Rightarrow> (store \<times> instrlist_t) option" where
  "instrlist_append h l inst = do {
     prev \<leftarrow> instr_get_prev h inst;
     ASSERT (prev = 0);
     (bot, h) \<leftarrow> chain_bottom l h inst;
     if l_last l \<noteq> 0 then do {
       h \<leftarrow> instr_set_next h (l_last l) inst;
       h \<leftarrow> instr_set_prev h inst (l_last l);
       Some (h, l\<lparr>l_last := bot\<rparr>) }
     else Some (h, l\<lparr>l_first := inst, l_last := bot\<rparr>) }"

definition instrlist_prepend :: "store \<Rightarrow> instrlist_t \<Rightarrow> instr_ref \<Rightarrow> (store \<times> instrlist_t) option" where
  "instrlist_prepend h l inst = do {
     prev \<leftarrow> instr_get_prev h inst;
     ASSERT (prev = 0);
     (bot, h) \<leftarrow> chain_bottom l h inst;
     if l_first l \<noteq> 0 then do {
       h \<leftarrow> instr_set_next h bot (l_first l);
       h \<leftarrow> instr_set_prev h (l_first l) bot;
       Some (h, l\<lparr>l_first := inst\<rparr>) }
     else Some (h, l\<lparr>l_first := inst, l_last := bot\<rparr>) }"

definition instrlist_preinsert :: "instr_ref \<Rightarrow> store \<Rightarrow> instrlist_t \<Rightarrow> instr_ref \<Rightarrow> (store \<times> instrlist_t) option" where
  "instrlist_preinsert pos h l inst =
     (if pos = 0 then instrlist_append h l inst
      else do {
        prev \<leftarrow> instr_get_prev h inst;
        ASSERT (prev = 0);
        whereprev \<leftarrow> instr_get_prev h pos;
        (bot, h) \<leftarrow> chain_bottom l h inst;
        (h, l) \<leftarrow> (if whereprev \<noteq> 0 then do {
            h \<leftarrow> instr_set_next h whereprev inst;
            h \<leftarrow> instr_set_prev h inst whereprev;
            Some (h, l) }
          else Some (h, l\<lparr>l_first := inst\<rparr>));
        h \<leftarrow> instr_set_next h bot pos;
        h \<leftarrow> instr_set_prev h pos bot;
        Some (h, l) })"

definition instrlist_postinsert :: "instr_ref \<Rightarrow> store \<Rightarrow> instrlist_t \<Rightarrow> instr_ref \<Rightarrow> (store \<times> instrlist_t) option" where
  "instrlist_postinsert pos h l inst =
     (if pos = 0 then instrlist_prepend h l inst
      else do {
        prev \<leftarrow> instr_get_prev h inst;
        ASSERT (prev = 0);
        wherenext \<leftarrow> instr_get_next h pos;
        (bot, h) \<leftarrow> chain_bottom l h inst;
        h \<leftarrow> instr_set_next h pos inst;
        h \<leftarrow> instr_set_prev h inst pos;
        if wherenext \<noteq> 0 then do {
          h \<leftarrow> instr_set_next h bot wherenext;
          h \<leftarrow> instr_set_prev h wherenext bot;
          Some (h, l) }
        else Some (h, l\<lparr>l_last := bot\<rparr>) })"

text \<open>Insertion as a non-application instruction; \<open>ins\<close> is the insertion that the routine calls.\<close>

definition instr_mark_meta :: "store \<Rightarrow> instr_ref \<Rightarrow> store option" where
  "instr_mark_meta h p = upd_node h p (\<lambda>nd. nd\<lparr>n_instr := instr_set_meta (n_instr nd)\<rparr>)"

definition instrlist_meta_preinsert :: "instr_ref \<Rightarrow> store \<Rightarrow> instrlist_t \<Rightarrow> instr_ref \<Rightarrow> (store \<times> instrlist_t) option" where
  "instrlist_meta_preinsert pos h l inst = do { h \<leftarrow> instr_mark_meta h inst; instrlist_preinsert pos h l inst }"

definition instrlist_meta_postinsert :: "instr_ref \<Rightarrow> store \<Rightarrow> instrlist_t \<Rightarrow> instr_ref \<Rightarrow> (store \<times> instrlist_t) option" where
  "instrlist_meta_postinsert pos h l inst = do { h \<leftarrow> instr_mark_meta h inst; instrlist_postinsert pos h l inst }"

definition instrlist_meta_append :: "store \<Rightarrow> instrlist_t \<Rightarrow> instr_ref \<Rightarrow> (store \<times> instrlist_t) option" where
  "instrlist_meta_append h l inst = do { h \<leftarrow> instr_mark_meta h inst; instrlist_append h l inst }"

subsection \<open>Removal\<close>

definition instrlist_remove :: "store \<Rightarrow> instrlist_t \<Rightarrow> instr_ref \<Rightarrow> (store \<times> instrlist_t) option" where
  "instrlist_remove h l inst = do {
     prev \<leftarrow> instr_get_prev h inst;
     next \<leftarrow> instr_get_next h inst;
     (h, l) \<leftarrow> (if prev \<noteq> 0 then do { h \<leftarrow> instr_set_next h prev next; Some (h, l) }
       else Some (h, l\<lparr>l_first := next\<rparr>));
     next \<leftarrow> instr_get_next h inst;
     prev \<leftarrow> instr_get_prev h inst;
     (h, l) \<leftarrow> (if next \<noteq> 0 then do { h \<leftarrow> instr_set_prev h next prev; Some (h, l) }
       else Some (h, l\<lparr>l_last := prev\<rparr>));
     h \<leftarrow> instr_set_prev h inst 0;
     h \<leftarrow> instr_set_next h inst 0;
     Some (h, l) }"

definition instrlist_replace ::
  "store \<Rightarrow> instrlist_t \<Rightarrow> instr_ref \<Rightarrow> instr_ref \<Rightarrow> (instr_ref \<times> store \<times> instrlist_t) option" where
  "instrlist_replace h l oldinst newinst = do {
     ASSERT (oldinst \<noteq> 0);
     prev \<leftarrow> instr_get_prev h newinst;
     ASSERT (prev = 0);
     pos \<leftarrow> instr_get_prev h oldinst;
     (h, l) \<leftarrow> instrlist_remove h l oldinst;
     (h, l) \<leftarrow> (if pos \<noteq> 0 then instrlist_postinsert pos h l newinst else instrlist_prepend h l newinst);
     Some (oldinst, h, l) }"

definition instrlist_cut :: "store \<Rightarrow> instrlist_t \<Rightarrow> instr_ref \<Rightarrow> (store \<times> instrlist_t) option" where
  "instrlist_cut h l cut_point = do {
     ASSERT (cut_point \<noteq> 0);
     last_instr \<leftarrow> instr_get_prev h cut_point;
     h \<leftarrow> (if last_instr \<noteq> 0 then instr_set_next h last_instr 0 else Some h);
     h \<leftarrow> instr_set_prev h cut_point 0;
     Some (h, l\<lparr>l_last := last_instr\<rparr>) }"

text \<open>The result is the list, and the other list if it still exists.\<close>

definition instrlist_prepend_instrlist ::
  "store \<Rightarrow> instrlist_t \<Rightarrow> instrlist_t \<Rightarrow> (store \<times> instrlist_t \<times> instrlist_t option) option" where
  "instrlist_prepend_instrlist h l prependee =
     (let first = l_first prependee in
      if first = 0 then Some (h, l, Some prependee)
      else do {
        (h, l) \<leftarrow> instrlist_prepend h l first;
        _ \<leftarrow> instrlist_destroy instrlist_init;
        Some (h, l, None) })"

definition instrlist_append_instrlist ::
  "store \<Rightarrow> instrlist_t \<Rightarrow> instrlist_t \<Rightarrow> (store \<times> instrlist_t \<times> instrlist_t option) option" where
  "instrlist_append_instrlist h l appendee =
     (let first = l_first appendee in
      if first = 0 then Some (h, l, Some appendee)
      else do {
        (h, l) \<leftarrow> instrlist_append h l first;
        _ \<leftarrow> instrlist_destroy instrlist_init;
        Some (h, l, None) })"

subsection \<open>Links\<close>

text \<open>
  The links of the nodes, and what a node holds besides them. The setters change one link of one node.
\<close>

type_synonym links = "instr_ref \<Rightarrow> (instr_ref \<times> instr_ref) option"

definition links :: "store \<Rightarrow> links" where
  "links h x = map_option (\<lambda>nd. (n_prev nd, n_next nd)) (node_at h x)"

definition payload :: "store \<Rightarrow> instr_ref \<Rightarrow> (instr_t \<times> instr_ref) option" where
  "payload h x = map_option (\<lambda>nd. (n_instr nd, n_note nd)) (h x)"

definition set_nx :: "links \<Rightarrow> instr_ref \<Rightarrow> instr_ref \<Rightarrow> links" where
  "set_nx lk x q = lk(x := map_option (\<lambda>(a, b). (a, q)) (lk x))"

definition set_pv :: "links \<Rightarrow> instr_ref \<Rightarrow> instr_ref \<Rightarrow> links" where
  "set_pv lk x q = lk(x := map_option (\<lambda>(a, b). (q, b)) (lk x))"

definition put_next :: "store \<Rightarrow> instr_ref \<Rightarrow> instr_ref \<Rightarrow> store" where
  "put_next h x q = h(x := map_option (\<lambda>nd. nd\<lparr>n_next := q\<rparr>) (h x))"

definition put_prev :: "store \<Rightarrow> instr_ref \<Rightarrow> instr_ref \<Rightarrow> store" where
  "put_prev h x q = h(x := map_option (\<lambda>nd. nd\<lparr>n_prev := q\<rparr>) (h x))"

lemma node_at_Some: "node_at h x = Some nd \<longleftrightarrow> x \<noteq> 0 \<and> h x = Some nd"
  by (auto simp: node_at_def)

lemma links_null [simp]: "links h 0 = None"
  by (simp add: links_def node_at_def)

lemma put_links [simp]:
  "links (put_next h x q) = set_nx (links h) x q" "links (put_prev h x q) = set_pv (links h) x q"
  by (auto simp: links_def put_next_def put_prev_def set_nx_def set_pv_def node_at_def fun_eq_iff
      option.map_comp o_def)

lemma put_payload [simp]: "payload (put_next h x q) = payload h" "payload (put_prev h x q) = payload h"
  by (auto simp: payload_def put_next_def put_prev_def fun_eq_iff option.map_comp o_def)

lemma set_dom [simp]:
  "set_nx lk x q y = None \<longleftrightarrow> lk y = None" "set_pv lk x q y = None \<longleftrightarrow> lk y = None"
  by (auto simp: set_nx_def set_pv_def)

lemma set_other:
  "y \<noteq> x \<Longrightarrow> set_nx lk x q y = lk y" "y \<noteq> x \<Longrightarrow> set_pv lk x q y = lk y"
  by (simp_all add: set_nx_def set_pv_def)

lemma set_link [simp]:
  "links h x \<noteq> None \<Longrightarrow> instr_set_next h x q = Some (put_next h x q)"
  "links h x \<noteq> None \<Longrightarrow> instr_set_prev h x q = Some (put_prev h x q)"
  by (auto simp: links_def instr_set_next_def instr_set_prev_def upd_node_def put_next_def put_prev_def
      node_at_def split: if_splits)

lemma get_link:
  "instr_get_next h x = map_option snd (links h x)" "instr_get_prev h x = map_option fst (links h x)"
  by (auto simp: links_def instr_get_next_def instr_get_prev_def option.map_comp o_def map_conv_bind_option)

lemma node_unchanged:
  "links h' x = links h x \<Longrightarrow> payload h' x = payload h x \<Longrightarrow> node_at h' x = node_at h x"
  by (cases "h x"; cases "h' x") (auto simp: links_def payload_def node_at_def split: if_splits)

subsection \<open>Segments\<close>

text \<open>
  \<open>dseg lk p xs n\<close>: the nodes \<open>xs\<close> are linked in this order in both directions, the first one points
  back to \<open>p\<close> and the last one on to \<open>n\<close>.
\<close>

primrec dseg :: "links \<Rightarrow> instr_ref \<Rightarrow> instr_ref list \<Rightarrow> instr_ref \<Rightarrow> bool" where
  "dseg lk p [] n \<longleftrightarrow> True"
| "dseg lk p (x # xs) n \<longleftrightarrow> lk x = Some (p, hd (xs @ [n])) \<and> dseg lk x xs n"

definition ilist_ok :: "store \<Rightarrow> instrlist_t \<Rightarrow> instr_ref list \<Rightarrow> bool" where
  "ilist_ok h l xs \<longleftrightarrow>
     dseg (links h) 0 xs 0 \<and> distinct xs \<and> l_first l = hd (xs @ [0]) \<and> l_last l = last (0 # xs)"

definition chain_ok :: "store \<Rightarrow> instr_ref \<Rightarrow> instr_ref list \<Rightarrow> bool" where
  "chain_ok h inst ys \<longleftrightarrow> ys \<noteq> [] \<and> hd ys = inst \<and> dseg (links h) 0 ys 0 \<and> distinct ys"

lemma dseg_append:
  "dseg lk p (xs @ ys) n \<longleftrightarrow> dseg lk p xs (hd (ys @ [n])) \<and> dseg lk (last (p # xs)) ys n"
proof (induction xs arbitrary: p)
  case (Cons x xs)
  have "hd ((xs @ ys) @ [n]) = hd (xs @ [hd (ys @ [n])])" by (cases xs) auto
  then show ?case using Cons by auto
qed simp

lemma dseg_upd [simp]: "x \<notin> set xs \<Longrightarrow> dseg (lk(x := v)) p xs n = dseg lk p xs n"
  by (induction xs arbitrary: p) auto

lemma dseg_frame [simp]:
  "x \<notin> set xs \<Longrightarrow> dseg (set_nx lk x q) p xs n = dseg lk p xs n"
  "x \<notin> set xs \<Longrightarrow> dseg (set_pv lk x q) p xs n = dseg lk p xs n"
  by (simp_all add: set_nx_def set_pv_def)

lemma dseg_dom: "dseg lk p xs n \<Longrightarrow> x \<in> set xs \<Longrightarrow> lk x \<noteq> None"
  by (induction xs arbitrary: p) auto

lemma dseg_nonnull: "dseg (links h) p xs n \<Longrightarrow> 0 \<notin> set xs"
  using dseg_dom [of "links h" p xs n 0] by auto

lemma dseg_last: "dseg lk p xs n \<Longrightarrow> xs \<noteq> [] \<Longrightarrow> \<exists>q. lk (last xs) = Some (q, n)"
  by (cases xs rule: rev_cases) (auto simp: dseg_append)

lemma dseg_set_last:
  "dseg lk p xs n \<Longrightarrow> distinct xs \<Longrightarrow> xs \<noteq> [] \<Longrightarrow> dseg (set_nx lk (last xs) m) p xs m"
  by (cases xs rule: rev_cases) (auto simp: dseg_append set_nx_def)

lemma dseg_set_first:
  "dseg lk p xs n \<Longrightarrow> distinct xs \<Longrightarrow> xs \<noteq> [] \<Longrightarrow> dseg (set_pv lk (hd xs) q) q xs n"
  by (cases xs) (auto simp: set_pv_def)

subsection \<open>The shared loop\<close>

definition translated :: "instrlist_t \<Rightarrow> instr_ref list \<Rightarrow> store \<Rightarrow> store" where
  "translated l ys h = (\<lambda>x. if x \<in> set ys then map_option (\<lambda>nd. nd\<lparr>n_instr := translate l (n_instr nd)\<rparr>) (h x) else h x)"

lemma links_translated [simp]: "links (translated l ys h) = links h"
  by (auto simp: links_def translated_def node_at_def fun_eq_iff option.map_comp o_def)

lemma payload_translated:
  "payload (translated l ys h) x = (if x \<in> set ys then map_option (apfst (translate l)) (payload h x) else payload h x)"
  by (auto simp: payload_def translated_def option.map_comp o_def)

lemma chain_bottom_chain:
  "dseg (links h) p ys 0 \<Longrightarrow> distinct ys \<Longrightarrow> ys \<noteq> [] \<Longrightarrow>
   chain_bottom l h (hd ys) = Some (last ys, translated l ys h)"
proof (induction ys arbitrary: h p)
  case (Cons y ys)
  let ?h = "translated l [y] h"
  have h: "translated l ys ?h = translated l (y # ys) h"
    using Cons.prems(2) by (auto simp: translated_def fun_eq_iff)
  have next_y: "instr_get_next ?h y = Some (hd (ys @ [0]))" and tl: "dseg (links h) y ys 0"
    using Cons.prems by (auto simp: get_link)
  have "check_translation l h y = Some ?h"
    using Cons.prems(1) by (auto simp: check_translation_def upd_node_def links_def translated_def node_at_def fun_eq_iff
        split: if_splits)
  then have unf: "chain_bottom l h y = (if hd (ys @ [0]) = 0 then Some (y, ?h) else chain_bottom l ?h (hd (ys @ [0])))"
    using next_y by (subst chain_bottom.simps) simp
  show ?case
  proof (cases ys)
    case (Cons z zs)
    have "z \<noteq> 0" using dseg_nonnull [OF tl] Cons by auto
    then show ?thesis using unf h Cons Cons.IH [of ?h y] tl Cons.prems(2) by simp
  qed (use unf h in \<open>simp add: translated_def\<close>)
qed simp

subsection \<open>Insertion at a place\<close>

text \<open>
  The contract that the insertions share. \<open>place xs\<close> is the number of instructions in front of which
  the chain goes, \<open>None\<close> where the insertion point is not an instruction of the list. The chain is
  spliced in, its instructions are translated, and nothing else but links inside the list changes.
\<close>

definition attributes :: "instrlist_t \<Rightarrow> u32 \<times> u64 \<times> u64" where
  "attributes l = (l_flags l, l_translation_target l, l_fall_through_bb l)"

definition spliced :: "instrlist_t \<Rightarrow> instr_ref list \<Rightarrow> instr_ref list \<Rightarrow> store \<Rightarrow> store \<Rightarrow> bool" where
  "spliced l xs ys h h' \<longleftrightarrow> payload h' = payload (translated l ys h) \<and>
     (\<forall>z. z \<notin> set xs \<union> set ys \<longrightarrow> node_at h' z = node_at h z)"

text \<open>Nothing but links inside the list has changed.\<close>

definition relinked :: "instr_ref list \<Rightarrow> store \<Rightarrow> store \<Rightarrow> bool" where
  "relinked xs h h' \<longleftrightarrow> payload h' = payload h \<and> (\<forall>z. z \<notin> set xs \<longrightarrow> node_at h' z = node_at h z)"

definition place_of :: "instr_ref \<Rightarrow> instr_ref list \<Rightarrow> nat option" where
  "place_of p xs = (if p \<in> set xs then Some (length (takeWhile (\<lambda>x. x \<noteq> p) xs)) else None)"

locale list_insertion =
  fixes ins :: "store \<Rightarrow> instrlist_t \<Rightarrow> instr_ref \<Rightarrow> (store \<times> instrlist_t) option"
    and place :: "instr_ref list \<Rightarrow> nat option"
  assumes splice:
    "ilist_ok h l xs \<Longrightarrow> chain_ok h inst ys \<Longrightarrow> set xs \<inter> set ys = {} \<Longrightarrow> place xs = Some k \<Longrightarrow>
     \<exists>h' l'. ins h l inst = Some (h', l') \<and> ilist_ok h' l' (take k xs @ ys @ drop k xs) \<and>
       spliced l xs ys h h' \<and> attributes l' = attributes l"

lemma splicedI:
  "payload h' = payload (translated l ys h) \<Longrightarrow> (\<And>z. z \<notin> set xs \<union> set ys \<Longrightarrow> links h' z = links h z) \<Longrightarrow>
   spliced l xs ys h h'"
  by (auto simp: spliced_def payload_translated intro!: node_unchanged)

lemma notin_ends: "z \<notin> set xs \<Longrightarrow> xs \<noteq> [] \<Longrightarrow> z \<noteq> hd xs \<and> z \<noteq> last xs"
  by auto

lemma ends_apart:
  "set xs \<inter> set ys = {} \<Longrightarrow> xs \<noteq> [] \<Longrightarrow> hd xs \<notin> set ys \<and> last xs \<notin> set ys"
  by (meson disjoint_iff hd_in_set last_in_set)

lemma dseg_join:
  assumes "dseg lk p xs m" "dseg lk m' ys n" "distinct xs" "distinct ys" "set xs \<inter> set ys = {}" "xs \<noteq> []" "ys \<noteq> []"
  shows "dseg (set_pv (set_nx lk (last xs) (hd ys)) (hd ys) (last xs)) p (xs @ ys) n"
proof -
  have out: "hd ys \<notin> set xs" "last xs \<notin> set ys" 
    using ends_apart [of xs ys] ends_apart [of ys xs] assms(5-7) by auto
  have "dseg (set_nx lk (last xs) (hd ys)) p xs (hd ys)" using assms by (simp add: dseg_set_last)
  moreover have "dseg (set_pv (set_nx lk (last xs) (hd ys)) (hd ys) (last xs)) (last xs) ys n"
    using assms out by (intro dseg_set_first [of _ m']) auto
  ultimately show ?thesis using assms(6,7) out by (simp add: dseg_append)
qed

lemma dseg_splice:
  assumes "dseg lk p (xs @ zs) n" "dseg lk 0 ys m" "distinct (xs @ ys @ zs)" "xs \<noteq> []" "ys \<noteq> []" "zs \<noteq> []"
  shows "dseg (set_pv (set_nx (set_pv (set_nx lk (last xs) (hd ys)) (hd ys) (last xs)) (last ys) (hd zs)) (hd zs) (last ys))
           p (xs @ ys @ zs) n"
proof -
  have out: "hd ys \<notin> set zs" "last xs \<notin> set zs" 
    using ends_apart [of ys zs] ends_apart [of xs zs] assms(3-6) by auto
  have "dseg (set_pv (set_nx lk (last xs) (hd ys)) (hd ys) (last xs)) p (xs @ ys) m"
    using assms by (intro dseg_join [of _ _ _ "hd zs" 0]) (auto simp: dseg_append)
  moreover have "dseg (set_pv (set_nx lk (last xs) (hd ys)) (hd ys) (last xs)) (last xs) zs n"
    using assms out by (simp add: dseg_append)
  moreover have "distinct (xs @ ys)" "distinct zs" "set (xs @ ys) \<inter> set zs = {}" using assms(3) by auto
  ultimately show ?thesis using dseg_join [of _ p "xs @ ys" m "last xs" zs n] assms(5,6) by simp
qed


lemma ilist_okD:
  assumes "ilist_ok h l xs"
  shows "dseg (links h) 0 xs 0" "distinct xs" "l_first l = hd (xs @ [0])" "l_last l = last (0 # xs)"
    "l_first l = 0 \<longleftrightarrow> xs = []" "l_last l = 0 \<longleftrightarrow> xs = []"
proof -
  show d: "dseg (links h) 0 xs 0" "distinct xs" "l_first l = hd (xs @ [0])" "l_last l = last (0 # xs)"
    using assms by (auto simp: ilist_ok_def)
  show "l_first l = 0 \<longleftrightarrow> xs = []" "l_last l = 0 \<longleftrightarrow> xs = []"
    using d(3,4) notin_ends [OF dseg_nonnull [OF d(1)]] by (auto simp: hd_append)
qed

lemma chain_start:
  assumes "chain_ok h inst ys"
  shows "instr_get_prev h inst = Some 0" "chain_bottom l h inst = Some (last ys, translated l ys h)"
  using assms chain_bottom_chain [of h 0 ys l] by (cases ys, auto simp: chain_ok_def get_link)+

lemma append_splice:
  assumes "ilist_ok h l xs" "chain_ok h inst ys" "set xs \<inter> set ys = {}"
  shows "\<exists>h' l'. instrlist_append h l inst = Some (h', l') \<and> ilist_ok h' l' (xs @ ys) \<and>
    spliced l xs ys h h' \<and> attributes l' = attributes l"
proof (cases "xs = []")
  case True
  then show ?thesis
    using assms ilist_okD [OF assms(1)] chain_start [OF assms(2)]
    by (auto simp: instrlist_append_def ilist_ok_def chain_ok_def attributes_def intro!: splicedI)
next
  case False
  note l = ilist_okD [OF assms(1)]
  have ys: "ys \<noteq> []" "hd ys = inst" "dseg (links h) 0 ys 0" "distinct ys" using assms(2) by (auto simp: chain_ok_def)
  have dom: "links h (last xs) \<noteq> None" "links h inst \<noteq> None"
    using dseg_dom [OF l(1), of "last xs"] dseg_dom [OF ys(3), of inst] ys False by auto
  let ?h = "put_prev (put_next (translated l ys h) (last xs) inst) inst (last xs)"
  have "instrlist_append h l inst = Some (?h, l\<lparr>l_last := last ys\<rparr>)"
    using chain_start [OF assms(2)] l(4,6) dom False by (auto simp: instrlist_append_def)
  moreover have "dseg (links ?h) 0 (xs @ ys) 0"
    using dseg_join [OF l(1) ys(3) l(2) ys(4) assms(3) False ys(1)] ys(2) by simp
  moreover have "spliced l xs ys h ?h"
    using ys(1,2) False by (intro splicedI) (auto simp: set_other dest!: notin_ends)
  ultimately show ?thesis
    using l ys False assms(3) by (auto simp: ilist_ok_def attributes_def)
qed

interpretation append: list_insertion instrlist_append "\<lambda>xs. Some (length xs)"
  by unfold_locales (use append_splice in auto)


lemma prepend_splice:
  assumes "ilist_ok h l xs" "chain_ok h inst ys" "set xs \<inter> set ys = {}"
  shows "\<exists>h' l'. instrlist_prepend h l inst = Some (h', l') \<and> ilist_ok h' l' (ys @ xs) \<and>
    spliced l xs ys h h' \<and> attributes l' = attributes l"
proof (cases "xs = []")
  case True
  then show ?thesis
    using assms ilist_okD [OF assms(1)] chain_start [OF assms(2)]
    by (auto simp: instrlist_prepend_def ilist_ok_def chain_ok_def attributes_def intro!: splicedI)
next
  case False
  note l = ilist_okD [OF assms(1)]
  have ys: "ys \<noteq> []" "hd ys = inst" "dseg (links h) 0 ys 0" "distinct ys" using assms(2) by (auto simp: chain_ok_def)
  have dom: "links h (hd xs) \<noteq> None" "links h (last ys) \<noteq> None"
    using dseg_dom [OF l(1), of "hd xs"] dseg_dom [OF ys(3), of "last ys"] ys False by auto
  let ?h = "put_prev (put_next (translated l ys h) (last ys) (hd xs)) (hd xs) (last ys)"
  have "instrlist_prepend h l inst = Some (?h, l\<lparr>l_first := inst\<rparr>)"
    using chain_start [OF assms(2)] l(3,5) dom False by (auto simp: instrlist_prepend_def)
  moreover have "dseg (links ?h) 0 (ys @ xs) 0"
    using dseg_join [OF ys(3) l(1) ys(4) l(2) _ ys(1) False] assms(3) by (simp add: Int_commute)
  moreover have "spliced l xs ys h ?h"
    using ys(1) False by (intro splicedI) (auto simp: set_other dest!: notin_ends)
  ultimately show ?thesis
    using l ys False assms(3) by (auto simp: ilist_ok_def attributes_def)
qed

text \<open>Insertion between two instructions: the steps that \<^verbatim>\<open>instrlist_preinsert\<close> and \<^verbatim>\<open>instrlist_postinsert\<close> then take.\<close>

lemma middle_splice:
  assumes l: "ilist_ok h l (xs @ zs)" and c: "chain_ok h inst ys" and "set (xs @ zs) \<inter> set ys = {}"
    and ne: "xs \<noteq> []" "zs \<noteq> []"
  defines "h' \<equiv> put_prev (put_next (put_prev (put_next (translated l ys h) (last xs) inst) inst (last xs))
    (last ys) (hd zs)) (hd zs) (last ys)"
  shows "ilist_ok h' l (xs @ ys @ zs)" "spliced l (xs @ zs) ys h h'"
    "links h (last xs) \<noteq> None" "links h inst \<noteq> None" "links h (last ys) \<noteq> None" "links h (hd zs) \<noteq> None"
    "instr_get_prev h (hd zs) = Some (last xs)" "instr_get_next h (last xs) = Some (hd zs)"
    "last xs \<noteq> 0" "hd zs \<noteq> 0"
proof -
  note ld = ilist_okD [OF l]
  have ys: "ys \<noteq> []" "hd ys = inst" "dseg (links h) 0 ys 0" "distinct ys" using c by (auto simp: chain_ok_def)
  have dst: "distinct (xs @ ys @ zs)" using ld(2) ys(4) assms(3) by auto
  have "dseg (links h') 0 (xs @ ys @ zs) 0"
    using dseg_splice [OF ld(1) ys(3) dst ne(1) ys(1) ne(2)] ys(2) by (simp add: h'_def)
  then show "ilist_ok h' l (xs @ ys @ zs)" using ld ne dst by (auto simp: ilist_ok_def)
  show "spliced l (xs @ zs) ys h h'"
    using ys(1,2) ne by (intro splicedI) (auto simp: h'_def set_other dest!: notin_ends)
  show "links h (last xs) \<noteq> None" "links h inst \<noteq> None" "links h (last ys) \<noteq> None" "links h (hd zs) \<noteq> None"
    using dseg_dom [OF ld(1)] dseg_dom [OF ys(3)] ys(1,2) ne by auto
  have seg: "dseg (links h) 0 xs (hd zs)" "dseg (links h) (last xs) zs 0" using ld(1) ne by (auto simp: dseg_append)
  show "instr_get_next h (last xs) = Some (hd zs)" using dseg_last [OF seg(1) ne(1)] by (auto simp: get_link)
  show "instr_get_prev h (hd zs) = Some (last xs)" using seg(2) ne(2) by (cases zs) (auto simp: get_link)
  show "last xs \<noteq> 0" "hd zs \<noteq> 0" using notin_ends [OF dseg_nonnull [OF seg(1)] ne(1)] notin_ends [OF dseg_nonnull [OF seg(2)] ne(2)] by auto
qed

lemma place_ofE:
  assumes "place_of p xs = Some k"
  obtains as bs where "xs = as @ p # bs" "k = length as" "p \<notin> set as"
proof -
  obtain as bs where "xs = as @ p # bs" "p \<notin> set as"
    using assms split_list_first [of p xs] by (auto simp: place_of_def split: if_splits)
  moreover from this have "takeWhile (\<lambda>x. x \<noteq> p) xs = as" by (subst \<open>xs = _\<close>, subst takeWhile_append2) auto
  ultimately show ?thesis using that assms by (auto simp: place_of_def split: if_splits)
qed

lemma preinsert_splice:
  assumes l: "ilist_ok h l (as @ p # bs)" and c: "chain_ok h inst ys" and d: "set (as @ p # bs) \<inter> set ys = {}"
  shows "\<exists>h' l'. instrlist_preinsert p h l inst = Some (h', l') \<and> ilist_ok h' l' (as @ ys @ p # bs) \<and>
    spliced l (as @ p # bs) ys h h' \<and> attributes l' = attributes l"
proof (cases "as = []")
  case True
  note ld = ilist_okD [OF l]
  have p: "p \<noteq> 0" "l_first l = p" "instr_get_prev h p = Some 0" "links h p \<noteq> None"
    using ld(1,3) dseg_nonnull [OF ld(1)] True by (auto simp: get_link)
  have "links h (last ys) \<noteq> None" using c dseg_dom [of "links h" 0 ys 0 "last ys"] by (auto simp: chain_ok_def)
  then have "instrlist_preinsert p h l inst = instrlist_prepend h l inst"
    using p chain_start [OF c] by (auto simp: instrlist_preinsert_def instrlist_prepend_def)
  then show ?thesis using prepend_splice [OF l c d] True by simp
next
  case False
  note m = middle_splice [OF l c d False]
  show ?thesis
    using m chain_start [OF c] by (auto simp: instrlist_preinsert_def)
qed

lemma postinsert_splice:
  assumes l: "ilist_ok h l (as @ p # bs)" and c: "chain_ok h inst ys" and d: "set (as @ p # bs) \<inter> set ys = {}"
  shows "\<exists>h' l'. instrlist_postinsert p h l inst = Some (h', l') \<and> ilist_ok h' l' (as @ p # ys @ bs) \<and>
    spliced l (as @ p # bs) ys h h' \<and> attributes l' = attributes l"
proof (cases "bs = []")
  case True
  note ld = ilist_okD [OF l]
  have p: "p \<noteq> 0" "l_last l = p" "instr_get_next h p = Some 0" "links h p \<noteq> None"
    using ld(1,4) dseg_nonnull [OF ld(1)] True by (auto simp: get_link dseg_append)
  have "links h inst \<noteq> None" using c dseg_dom [of "links h" 0 ys 0 "hd ys"] by (auto simp: chain_ok_def)
  then have "instrlist_postinsert p h l inst = instrlist_append h l inst"
    using p chain_start [OF c] by (auto simp: instrlist_postinsert_def instrlist_append_def)
  then show ?thesis using append_splice [OF l c d] True by simp
next
  case False
  have m: "ilist_ok h l ((as @ [p]) @ bs)" "set ((as @ [p]) @ bs) \<inter> set ys = {}" using l d by simp_all
  show ?thesis
    using middle_splice [OF m(1) c m(2) _ False] chain_start [OF c] by (auto simp: instrlist_postinsert_def)
qed

interpretation prepend: list_insertion instrlist_prepend "\<lambda>xs. Some 0"
  by unfold_locales (use prepend_splice in auto)

interpretation preinsert: list_insertion "instrlist_preinsert p"
    "\<lambda>xs. if p = 0 then Some (length xs) else place_of p xs" for p
proof
  fix h l xs inst ys k
  assume a: "ilist_ok h l xs" "chain_ok h inst ys" "set xs \<inter> set ys = {}"
    "(if p = 0 then Some (length xs) else place_of p xs) = Some k"
  show "\<exists>h' l'. instrlist_preinsert p h l inst = Some (h', l') \<and> ilist_ok h' l' (take k xs @ ys @ drop k xs) \<and>
      spliced l xs ys h h' \<and> attributes l' = attributes l"
  proof (cases "p = 0")
    case True
    then show ?thesis using append_splice [OF a(1-3)] a(4) by (simp add: instrlist_preinsert_def)
  next
    case False
    then obtain as bs where "xs = as @ p # bs" "k = length as" using a(4) by (auto elim: place_ofE)
    then show ?thesis using preinsert_splice a(1-3) by simp
  qed
qed

interpretation postinsert: list_insertion "instrlist_postinsert p"
    "\<lambda>xs. if p = 0 then Some 0 else map_option Suc (place_of p xs)" for p
proof
  fix h l xs inst ys k
  assume a: "ilist_ok h l xs" "chain_ok h inst ys" "set xs \<inter> set ys = {}"
    "(if p = 0 then Some 0 else map_option Suc (place_of p xs)) = Some k"
  show "\<exists>h' l'. instrlist_postinsert p h l inst = Some (h', l') \<and> ilist_ok h' l' (take k xs @ ys @ drop k xs) \<and>
      spliced l xs ys h h' \<and> attributes l' = attributes l"
  proof (cases "p = 0")
    case True
    then show ?thesis using prepend_splice [OF a(1-3)] a(4) by (simp add: instrlist_postinsert_def)
  next
    case False
    then obtain as bs where "xs = as @ p # bs" "k = Suc (length as)" using a(4) by (auto elim: place_ofE)
    then show ?thesis using postinsert_splice a(1-3) by simp
  qed
qed


subsection \<open>Removal\<close>

lemma remove_splice:
  assumes "ilist_ok h l (as @ x # bs)"
  shows "\<exists>h' l'. instrlist_remove h l x = Some (h', l') \<and> ilist_ok h' l' (as @ bs) \<and> chain_ok h' x [x] \<and>
    payload h' = payload h \<and> (\<forall>z. z \<notin> set (as @ x # bs) \<longrightarrow> node_at h' z = node_at h z) \<and> attributes l' = attributes l"
proof -
  note l = ilist_okD [OF assms]
  let ?a = "last (0 # as)" and ?b = "hd (bs @ [0])"
  have seg: "dseg (links h) 0 as x" "links h x = Some (?a, ?b)" "dseg (links h) x bs 0"
    and dst: "distinct as" "distinct bs" "x \<notin> set as" "x \<notin> set bs" "set as \<inter> set bs = {}"
    using l(1,2) by (auto simp: dseg_append)
  have nz: "?a = 0 \<longleftrightarrow> as = []" "?b = 0 \<longleftrightarrow> bs = []" "x \<noteq> 0"
    using seg notin_ends [OF dseg_nonnull [OF seg(1)]] notin_ends [OF dseg_nonnull [OF seg(3)]]
    by (auto simp: hd_append intro!: Nat.gr0I)
  let ?h1 = "if as = [] then h else put_next h ?a ?b"
  let ?h2 = "if bs = [] then ?h1 else put_prev ?h1 ?b ?a"
  let ?h' = "put_next (put_prev ?h2 x 0) x 0"
  let ?l' = "l\<lparr>l_first := if as = [] then ?b else l_first l, l_last := if bs = [] then ?a else l_last l\<rparr>"
  have ends: "as \<noteq> [] \<Longrightarrow> last as \<in> set as" "bs \<noteq> [] \<Longrightarrow> hd bs \<in> set bs" by simp_all
  have x1: "links ?h1 x = links h x" "links ?h2 x = links h x"
    using notin_ends [OF dst(3)] notin_ends [OF dst(4)] by (simp_all add: set_other)
  have dom: "as \<noteq> [] \<Longrightarrow> links h (last as) \<noteq> None" "bs \<noteq> [] \<Longrightarrow> links h (hd bs) \<noteq> None"
    using dseg_dom [OF seg(1)] dseg_dom [OF seg(3)] ends by blast+
  have "instrlist_remove h l x = Some (?h', ?l')"
    using x1 dom nz seg(2) by (auto simp: instrlist_remove_def get_link hd_append)
  moreover have "dseg (links ?h') 0 (as @ bs) 0"
  proof -
    have "dseg (links ?h1) 0 as ?b" using dseg_set_last [OF seg(1) dst(1)] by auto
    then have 1: "dseg (links ?h2) 0 as ?b" using ends_apart [of bs as] dst(5) by (auto simp: Int_commute)
    have "dseg (links ?h1) x bs 0" using seg(3) ends_apart [OF dst(5)] by auto
    then have "dseg (links ?h2) ?a bs 0" using dseg_set_first [OF _ dst(2)] by (auto simp: hd_append)
    with 1 show ?thesis using dst(3,4) by (simp add: dseg_append)
  qed
  moreover have "chain_ok ?h' x [x]" using x1(2) seg(2) by (auto simp: chain_ok_def set_nx_def set_pv_def)
  moreover have "node_at ?h' z = node_at h z" if "z \<notin> set (as @ x # bs)" for z
    using that ends by (intro node_unchanged) (auto simp: set_other dest!: notin_ends)
  ultimately show ?thesis using l dst by (auto simp: ilist_ok_def attributes_def hd_append)
qed

lemma chain_ok_cong:
  assumes "\<And>z. z \<in> set ys \<Longrightarrow> node_at h' z = node_at h z"
  shows "chain_ok h' inst ys = chain_ok h inst ys"
proof -
  have "dseg (links h') p ys n = dseg (links h) p ys n" for p n
    using assms by (induction ys arbitrary: p) (auto simp: links_def)
  then show ?thesis by (simp add: chain_ok_def)
qed

lemma translate_cong: "attributes l' = attributes l \<Longrightarrow> translate l' = translate l"
  by (auto simp: attributes_def translate_def instrlist_get_our_mangling_def fun_eq_iff Let_def)

lemma replace_splice:
  assumes "ilist_ok h l (as @ x # bs)" "chain_ok h inst ys" "set (as @ x # bs) \<inter> set ys = {}"
  shows "\<exists>h' l'. instrlist_replace h l x inst = Some (x, h', l') \<and> ilist_ok h' l' (as @ ys @ bs) \<and>
    chain_ok h' x [x] \<and> spliced l (as @ x # bs) ys h h' \<and> attributes l' = attributes l"
proof -
  obtain h1 l1 where rm: "instrlist_remove h l x = Some (h1, l1)" "ilist_ok h1 l1 (as @ bs)" "chain_ok h1 x [x]"
      "payload h1 = payload h" "\<forall>z. z \<notin> set (as @ x # bs) \<longrightarrow> node_at h1 z = node_at h z" "attributes l1 = attributes l"
    using remove_splice [OF assms(1)] by blast
  have c: "chain_ok h1 inst ys" using rm(5) assms(2,3) by (subst chain_ok_cong [of ys h1 h]) auto
  have d: "set (as @ bs) \<inter> set ys = {}" "x \<notin> set (as @ bs) \<union> set ys"
    using assms(3) ilist_okD(2) [OF assms(1)] by auto
  have prev: "instr_get_prev h x = Some (last (0 # as))" "last (0 # as) = 0 \<longleftrightarrow> as = []" "x \<noteq> 0"
    using ilist_okD(1) [OF assms(1)] notin_ends [of 0 as] dseg_nonnull [OF ilist_okD(1) [OF assms(1)]]
    by (auto simp: dseg_append get_link)
  let ?ins = "if as \<noteq> [] then instrlist_postinsert (last as) h1 l1 inst else instrlist_prepend h1 l1 inst"
  have "\<exists>h' l'. ?ins = Some (h', l') \<and> ilist_ok h' l' (as @ ys @ bs) \<and> spliced l1 (as @ bs) ys h1 h' \<and>
      attributes l' = attributes l1"
  proof (cases as rule: rev_cases)
    case Nil
    then show ?thesis using prepend_splice [of h1 l1 bs inst ys] rm(2) c d(1) by simp
  next
    case (snoc as' a)
    then show ?thesis using postinsert_splice [of h1 l1 as' a bs inst ys] rm(2) c d(1) by simp
  qed
  then obtain h2 l2 where i: "?ins = Some (h2, l2)" "ilist_ok h2 l2 (as @ ys @ bs)" "spliced l1 (as @ bs) ys h1 h2"
      "attributes l2 = attributes l1" by blast
  have "instrlist_replace h l x inst = Some (x, h2, l2)"
    using rm(1) i(1) prev chain_start(1) [OF assms(2)] by (auto simp: instrlist_replace_def)
  moreover have "chain_ok h2 x [x]"
    using rm(3) d(2) i(3) by (subst chain_ok_cong [of "[x]" h2 h1]) (auto simp: spliced_def)
  moreover have "payload h2 = payload (translated l ys h)"
    using i(3) by (simp add: spliced_def fun_eq_iff payload_translated rm(4) translate_cong [OF rm(6)])
  then have "spliced l (as @ x # bs) ys h h2" using rm(5) i(3) by (simp add: spliced_def)
  ultimately show ?thesis using i(2,4) rm(6) by auto
qed

lemma cut_splice:
  assumes "ilist_ok h l (as @ x # bs)"
  shows "\<exists>h' l'. instrlist_cut h l x = Some (h', l') \<and> chain_ok h' x (x # bs) \<and> relinked (as @ x # bs) h h' \<and>
    attributes l' = attributes l \<and> (if as = [] then l_first l' = x \<and> l_last l' = 0 else ilist_ok h' l' as)"
proof (cases "as = []")
  case True
  note l = ilist_okD [OF assms(1)]
  have x: "links h x \<noteq> None" "x \<noteq> 0" "instr_get_prev h x = Some 0"
    using l(1) dseg_nonnull [OF l(1)] True by (auto simp: get_link)
  have "instrlist_cut h l x = Some (put_prev h x 0, l\<lparr>l_last := 0\<rparr>)" using x by (simp add: instrlist_cut_def)
  moreover have "chain_ok (put_prev h x 0) x (x # bs)"
    using dseg_set_first [of "links h" 0 "x # bs" 0 0] l(1,2) True by (simp add: chain_ok_def)
  moreover have "relinked (as @ x # bs) h (put_prev h x 0)"
    by (auto simp: relinked_def set_other intro!: node_unchanged)
  ultimately show ?thesis using True l(3) by (auto simp: attributes_def)
next
  case False
  note l = ilist_okD [OF assms(1)]
  have seg: "dseg (links h) 0 as x" "dseg (links h) (last as) (x # bs) 0" and dst: "distinct as" "distinct (x # bs)" "set as \<inter> set (x # bs) = {}"
    using l(1,2) False by (auto simp: dseg_append)
  let ?h = "put_prev (put_next h (last as) 0) x 0"
  have "last as \<noteq> 0" "x \<noteq> 0" using notin_ends [of 0 as] dseg_nonnull [OF l(1)] False by auto
  moreover have "links h (last as) \<noteq> None" using dseg_dom [OF seg(1)] False by simp
  ultimately have "instrlist_cut h l x = Some (?h, l\<lparr>l_last := last as\<rparr>)"
    using seg(2) by (auto simp: instrlist_cut_def get_link)
  moreover have "ilist_ok ?h (l\<lparr>l_last := last as\<rparr>) as"
    using dseg_set_last [OF seg(1) dst(1) False] dst l(3) False by (auto simp: ilist_ok_def)
  moreover have "chain_ok ?h x (x # bs)"
    using dseg_set_first [of "set_nx (links h) (last as) 0" "last as" "x # bs" 0 0] seg(2) dst False
      ends_apart [OF dst(3) False] by (auto simp: chain_ok_def set_other)
  moreover have "relinked (as @ x # bs) h ?h"
    using False by (auto simp: relinked_def set_other dest!: notin_ends intro!: node_unchanged)
  ultimately show ?thesis using False by (auto simp: attributes_def)
qed


lemma dseg_determines: "dseg lk p xs n \<Longrightarrow> dseg lk' p xs n \<Longrightarrow> x \<in> set xs \<Longrightarrow> lk x = lk' x"
  by (induction xs arbitrary: p) auto

lemma ilist_determines:
  "ilist_ok h l xs \<Longrightarrow> ilist_ok h' l' xs \<Longrightarrow> attributes l' = attributes l \<Longrightarrow> l' = l"
  by (auto simp: ilist_ok_def attributes_def)

subsection \<open>Joining two lists\<close>

text \<open>The list object of the other list is freed only if that list was not empty.\<close>

lemma join_lists:
  assumes "ilist_ok h l xs" "ilist_ok h m ys" "set xs \<inter> set ys = {}"
  shows "\<exists>h' l'. instrlist_append_instrlist h l m = Some (h', l', if ys = [] then Some m else None) \<and> ilist_ok h' l' (xs @ ys)"
    "\<exists>h' l'. instrlist_prepend_instrlist h l m = Some (h', l', if ys = [] then Some m else None) \<and> ilist_ok h' l' (ys @ xs)"
proof -
  have c: "ys \<noteq> [] \<Longrightarrow> chain_ok h (l_first m) ys" using ilist_okD [OF assms(2)] by (auto simp: chain_ok_def)
  have d: "instrlist_destroy instrlist_init = Some ()" by (simp add: instrlist_destroy_def instrlist_init_def ASSERT_def)
  show "\<exists>h' l'. instrlist_append_instrlist h l m = Some (h', l', if ys = [] then Some m else None) \<and> ilist_ok h' l' (xs @ ys)"
    using append_splice [OF assms(1) c assms(3)] ilist_okD(5) [OF assms(2)] assms(1) d
    by (cases "ys = []") (auto simp: instrlist_append_instrlist_def)
  show "\<exists>h' l'. instrlist_prepend_instrlist h l m = Some (h', l', if ys = [] then Some m else None) \<and> ilist_ok h' l' (ys @ xs)"
    using prepend_splice [OF assms(1) c assms(3)] ilist_okD(5) [OF assms(2)] assms(1) d
    by (cases "ys = []") (auto simp: instrlist_prepend_instrlist_def)
qed

subsection \<open>What all insertions share\<close>

lemma mark_meta:
  assumes "chain_ok h inst ys"
  obtains h1 where "instr_mark_meta h inst = Some h1" "links h1 = links h"
    "payload h1 = (payload h)(inst := map_option (apfst instr_set_meta) (payload h inst))"
proof -
  obtain nd where nd: "node_at h inst = Some nd"
    using assms by (cases ys) (auto simp: chain_ok_def links_def)
  let ?h = "h(inst \<mapsto> nd\<lparr>n_instr := instr_set_meta (n_instr nd)\<rparr>)"
  have "instr_mark_meta h inst = Some ?h" using nd by (simp add: instr_mark_meta_def upd_node_def)
  moreover have "links ?h = links h" using nd by (auto simp: links_def node_at_def fun_eq_iff)
  moreover have "payload ?h = (payload h)(inst := map_option (apfst instr_set_meta) (payload h inst))"
    using nd by (auto simp: payload_def node_at_Some fun_eq_iff)
  ultimately show ?thesis by (rule that)
qed

lemma translate_meta: "instr_is_meta (translate l (instr_set_meta i))"
proof -
  have "bit (INSTR_DO_NOT_MANGLE) 21" by (simp add: INSTR_DO_NOT_MANGLE_def bit_numeral_rec)
  then have "bit (i_flags (translate l (instr_set_meta i)) AND INSTR_DO_NOT_MANGLE) 21"
    by (auto simp: translate_def instr_set_meta_def instr_set_translation_def instr_set_our_mangling_def Let_def bit_simps)
  then show ?thesis by (auto simp: instr_is_meta_def)
qed

context list_insertion
begin

lemma meta_splice:
  assumes "ilist_ok h l xs" "chain_ok h inst ys" "set xs \<inter> set ys = {}" "place xs = Some k"
  shows "\<exists>h' l' nd. instr_mark_meta h inst \<bind> (\<lambda>h. ins h l inst) = Some (h', l') \<and>
    ilist_ok h' l' (take k xs @ ys @ drop k xs) \<and> node_at h' inst = Some nd \<and> instr_is_meta (n_instr nd)"
proof -
  obtain h1 where h1: "instr_mark_meta h inst = Some h1" "links h1 = links h"
      "payload h1 = (payload h)(inst := map_option (apfst instr_set_meta) (payload h inst))"
    using mark_meta [OF assms(2)] by blast
  have "ilist_ok h1 l xs" "chain_ok h1 inst ys" using assms(1,2) h1(2) by (simp_all add: ilist_ok_def chain_ok_def)
  then obtain h' l' where ok: "ins h1 l inst = Some (h', l')" "ilist_ok h' l' (take k xs @ ys @ drop k xs)"
      "spliced l xs ys h1 h'" using splice [OF _ _ assms(3,4)] by blast
  have mem: "inst \<in> set ys" "links h' inst \<noteq> None"
    using assms(2) dseg_dom [OF ilist_okD(1) [OF ok(2)], of inst] by (auto simp: chain_ok_def)
  then obtain nd where nd: "node_at h' inst = Some nd" by (auto simp: links_def)
  have "payload h' inst = map_option (apfst (translate l)) (payload h1 inst)"
    using ok(3) mem(1) by (simp add: spliced_def payload_translated)
  then have "instr_is_meta (n_instr nd)"
    using nd translate_meta by (cases "h inst") (auto simp: h1(3) payload_def node_at_Some)
  then show ?thesis using ok nd h1(1) by auto
qed

lemma insert_remove:
  assumes "ilist_ok h l xs" "chain_ok h inst [inst]" "inst \<notin> set xs" "place xs = Some k"
  shows "\<exists>h1 l1 h2. ins h l inst = Some (h1, l1) \<and> instrlist_remove h1 l1 inst = Some (h2, l) \<and>
    (\<forall>z. z \<noteq> inst \<longrightarrow> node_at h2 z = node_at h z) \<and> ilist_ok h2 l xs \<and> chain_ok h2 inst [inst]"
proof -
  obtain h1 l1 where i: "ins h l inst = Some (h1, l1)" "ilist_ok h1 l1 (take k xs @ inst # drop k xs)"
      "spliced l xs [inst] h h1" "attributes l1 = attributes l"
    using splice [OF assms(1,2) _ assms(4)] assms(3) by auto
  have set_xs: "set (take k xs @ inst # drop k xs) = insert inst (set xs)"
    by (metis Un_insert_right append_take_drop_id list.simps(15) set_append)
  obtain h2 l2 where r: "instrlist_remove h1 l1 inst = Some (h2, l2)" "ilist_ok h2 l2 xs" "chain_ok h2 inst [inst]"
      "payload h2 = payload h1" "\<forall>z. z \<notin> insert inst (set xs) \<longrightarrow> node_at h2 z = node_at h1 z" "attributes l2 = attributes l1"
    using remove_splice [OF i(2)] unfolding set_xs by auto
  have "l2 = l" using ilist_determines [OF assms(1) r(2)] r(6) i(4) by simp
  moreover have "node_at h2 z = node_at h z" if z: "z \<noteq> inst" for z
  proof (cases "z \<in> set xs")
    case True
    then have "links h2 z = links h z" using dseg_determines assms(1) r(2) by (auto simp: ilist_ok_def)
    moreover have "payload h2 z = payload h z" using i(3) r(4) z by (simp add: spliced_def payload_translated)
    ultimately show ?thesis by (rule node_unchanged)
  next
    case False
    then show ?thesis using r(5) i(3) z by (simp add: spliced_def)
  qed
  ultimately show ?thesis using i(1) r by blast
qed

end

subsection \<open>Queries\<close>

lemma app_from:
  "dseg (links h) p xs 0 \<Longrightarrow> next_app_from h (hd (xs @ [0])) =
     Some (hd (filter (\<lambda>x. instr_is_app (n_instr (the (h x)))) xs @ [0]))"
proof (induction xs arbitrary: p)
  case (Cons x xs)
  then obtain nd where "node_at h x = Some nd" "h x = Some nd" "n_next nd = hd (xs @ [0])" "x \<noteq> 0"
    by (auto simp: links_def node_at_Some)
  then show ?case using Cons by (subst next_app_from.simps) auto
qed (simp add: next_app_from.simps)

lemma app_before:
  "dseg (links h) 0 xs n \<Longrightarrow> prev_app_from h (last (0 # xs)) =
     Some (last (0 # filter (\<lambda>x. instr_is_app (n_instr (the (h x)))) xs))"
proof (induction xs arbitrary: n rule: rev_induct)
  case (snoc x xs)
  then obtain nd where "node_at h x = Some nd" "h x = Some nd" "n_prev nd = last (0 # xs)" "x \<noteq> 0"
    by (auto simp: links_def node_at_Some dseg_append)
  then show ?case using snoc by (subst prev_app_from.simps) (auto simp: dseg_append)
qed (simp add: prev_app_from.simps)

lemma labels_from:
  "dseg (links h) p xs 0 \<Longrightarrow> skip_labels h (hd (xs @ [0])) =
     Some (hd (filter (\<lambda>x. \<not> instr_is_label (n_instr (the (h x)))) xs @ [0]))"
proof (induction xs arbitrary: p)
  case (Cons x xs)
  then obtain nd where "node_at h x = Some nd" "h x = Some nd" "n_next nd = hd (xs @ [0])" "x \<noteq> 0"
    by (auto simp: links_def node_at_Some)
  then show ?case using Cons by (subst skip_labels.simps) auto
qed (simp add: skip_labels.simps)

lemma first_app_is: "instrlist_first_app h l = next_app_from h (l_first l)"
  by (subst next_app_from.simps, cases "node_at h (l_first l)")
    (auto simp: instrlist_first_app_def instr_get_next_app_def instr_get_next_def)

lemma last_app_is: "instrlist_last_app h l = prev_app_from h (l_last l)"
  by (subst prev_app_from.simps, cases "node_at h (l_last l)")
    (auto simp: instrlist_last_app_def instr_get_prev_app_def instr_get_prev_def)


subsection \<open>Lists as the store represents them\<close>

text \<open>A list of three instructions and a chain of two, for the witnesses.\<close>

definition sample_node :: "instr_ref \<Rightarrow> instr_ref \<Rightarrow> node" where
  "sample_node p n = \<lparr>n_instr = instr_init, n_note = 0, n_prev = p, n_next = n\<rparr>"

definition sample_store :: store where
  "sample_store = map_of [(1, sample_node 0 2), (2, sample_node 1 3), (3, sample_node 2 0), (7, sample_node 0 8),
     (8, sample_node 7 0), (9, sample_node 0 0)]"

definition sample_list :: instrlist_t where
  "sample_list = \<lparr>l_first = 1, l_last = 3, l_flags = 0, l_translation_target = 0x1000, l_fall_through_bb = 0\<rparr>"

lemma sample_ok:
  "ilist_ok sample_store sample_list [1, 2, 3]" "chain_ok sample_store 7 [7, 8]" "chain_ok sample_store 9 [9]"
  by (simp_all add: ilist_ok_def chain_ok_def sample_store_def sample_list_def sample_node_def links_def node_at_def)

text \<open>
  C28: the routines of \<^verbatim>\<open>instrlist.c\<close> that change a list implement the operations on a sequence. On a list that
  represents \<open>xs\<close>, empty or not, and a chain \<open>ys\<close> apart from it, insertion at the ends and before or behind every
  instruction, removal and replacement of every instruction, and cutting at every instruction succeed and leave a
  well-linked list of the expected sequence with the same attributes. Insertion and replacement translate exactly the
  instructions of the chain. A removed or replaced instruction is unlinked, what is cut off is a chain of
  its own. None of the routines changes a node outside the list and the chain, or more than the links of a node of the list.
  The exception is the cut at the first instruction, where the object keeps its first instruction and loses its last.
\<close>

theorem instrlist_refines_sequence:
  assumes l: "ilist_ok h l xs" and c: "chain_ok h inst ys" and d: "set xs \<inter> set ys = {}"
  shows
    "(\<forall>ins \<in> {instrlist_append, instrlist_preinsert 0}. \<exists>h' l'. ins h l inst = Some (h', l') \<and>
       ilist_ok h' l' (xs @ ys) \<and> spliced l xs ys h h' \<and> attributes l' = attributes l) \<and>
     (\<forall>ins \<in> {instrlist_prepend, instrlist_postinsert 0}. \<exists>h' l'. ins h l inst = Some (h', l') \<and>
       ilist_ok h' l' (ys @ xs) \<and> spliced l xs ys h h' \<and> attributes l' = attributes l) \<and>
     (\<forall>as p bs. xs = as @ p # bs \<longrightarrow>
       (\<exists>h' l'. instrlist_preinsert p h l inst = Some (h', l') \<and> ilist_ok h' l' (as @ ys @ p # bs) \<and>
         spliced l xs ys h h' \<and> attributes l' = attributes l) \<and>
       (\<exists>h' l'. instrlist_postinsert p h l inst = Some (h', l') \<and> ilist_ok h' l' (as @ p # ys @ bs) \<and>
         spliced l xs ys h h' \<and> attributes l' = attributes l) \<and>
       (\<exists>h' l'. instrlist_remove h l p = Some (h', l') \<and> ilist_ok h' l' (as @ bs) \<and> chain_ok h' p [p] \<and>
         relinked xs h h' \<and> attributes l' = attributes l) \<and>
       (\<exists>h' l'. instrlist_replace h l p inst = Some (p, h', l') \<and> ilist_ok h' l' (as @ ys @ bs) \<and> chain_ok h' p [p] \<and>
         spliced l xs ys h h' \<and> attributes l' = attributes l) \<and>
       (\<exists>h' l'. instrlist_cut h l p = Some (h', l') \<and> chain_ok h' p (p # bs) \<and> relinked xs h h' \<and>
         attributes l' = attributes l \<and> (if as = [] then l_first l' = p \<and> l_last l' = 0 else ilist_ok h' l' as)))"
proof (intro conjI allI impI)
  show "\<forall>ins \<in> {instrlist_append, instrlist_preinsert 0}. \<exists>h' l'. ins h l inst = Some (h', l') \<and>
      ilist_ok h' l' (xs @ ys) \<and> spliced l xs ys h h' \<and> attributes l' = attributes l"
    using append_splice [OF l c d] by (simp add: instrlist_preinsert_def)
  show "\<forall>ins \<in> {instrlist_prepend, instrlist_postinsert 0}. \<exists>h' l'. ins h l inst = Some (h', l') \<and>
      ilist_ok h' l' (ys @ xs) \<and> spliced l xs ys h h' \<and> attributes l' = attributes l"
    using prepend_splice [OF l c d] by (simp add: instrlist_postinsert_def)
next
  fix as p bs
  assume xs: "xs = as @ p # bs"
  note l = l [unfolded xs] and d = d [unfolded xs]
  show "\<exists>h' l'. instrlist_preinsert p h l inst = Some (h', l') \<and> ilist_ok h' l' (as @ ys @ p # bs) \<and>
      spliced l xs ys h h' \<and> attributes l' = attributes l"
    unfolding xs by (rule preinsert_splice [OF l c d])
  show "\<exists>h' l'. instrlist_postinsert p h l inst = Some (h', l') \<and> ilist_ok h' l' (as @ p # ys @ bs) \<and>
      spliced l xs ys h h' \<and> attributes l' = attributes l"
    unfolding xs by (rule postinsert_splice [OF l c d])
  show "\<exists>h' l'. instrlist_remove h l p = Some (h', l') \<and> ilist_ok h' l' (as @ bs) \<and> chain_ok h' p [p] \<and>
      relinked xs h h' \<and> attributes l' = attributes l"
    unfolding xs using remove_splice [OF l] by (simp add: relinked_def)
  show "\<exists>h' l'. instrlist_replace h l p inst = Some (p, h', l') \<and> ilist_ok h' l' (as @ ys @ bs) \<and> chain_ok h' p [p] \<and>
      spliced l xs ys h h' \<and> attributes l' = attributes l"
    unfolding xs by (rule replace_splice [OF l c d])
  show "\<exists>h' l'. instrlist_cut h l p = Some (h', l') \<and> chain_ok h' p (p # bs) \<and> relinked xs h h' \<and>
      attributes l' = attributes l \<and> (if as = [] then l_first l' = p \<and> l_last l' = 0 else ilist_ok h' l' as)"
    unfolding xs by (rule cut_splice [OF l])
qed

theorem instrlist_refines_sequence_witness:
  "(\<exists>h' l'. instrlist_preinsert 2 sample_store sample_list 7 = Some (h', l') \<and> ilist_ok h' l' [1, 7, 8, 2, 3]) \<and>
   (\<exists>h' l'. instrlist_append sample_store instrlist_init 7 = Some (h', l') \<and> ilist_ok h' l' [7, 8])"
proof
  show "\<exists>h' l'. instrlist_preinsert 2 sample_store sample_list 7 = Some (h', l') \<and> ilist_ok h' l' [1, 7, 8, 2, 3]"
    using instrlist_refines_sequence [OF sample_ok(1,2)] by (fastforce dest: spec [of _ "[1]"])
  show "\<exists>h' l'. instrlist_append sample_store instrlist_init 7 = Some (h', l') \<and> ilist_ok h' l' [7, 8]"
    using instrlist_refines_sequence [of sample_store instrlist_init "[]" 7 "[7, 8]"] sample_ok(2)
    by (auto simp: ilist_ok_def instrlist_init_def)
qed

text \<open>
  Inserting one instruction in front of any instruction of a list (or at its end) and removing it again restores
  the list object and every other node of the store.
\<close>

theorem preinsert_remove_restores:
  assumes "ilist_ok h l xs" "chain_ok h inst [inst]" "inst \<notin> set xs" "p = 0 \<or> p \<in> set xs"
  shows "\<exists>h1 l1 h2. instrlist_preinsert p h l inst = Some (h1, l1) \<and> instrlist_remove h1 l1 inst = Some (h2, l) \<and>
    (\<forall>z. z \<noteq> inst \<longrightarrow> node_at h2 z = node_at h z)"
proof -
  have "\<exists>k. (if p = 0 then Some (length xs) else place_of p xs) = Some k"
    using assms(4) by (auto simp: place_of_def)
  then show ?thesis using preinsert.insert_remove [OF assms(1-3)] by blast
qed

theorem preinsert_remove_restores_witness:
  "\<exists>h1 l1 h2. instrlist_preinsert 3 sample_store sample_list 9 = Some (h1, l1) \<and>
     instrlist_remove h1 l1 9 = Some (h2, sample_list) \<and> node_at h2 2 = node_at sample_store 2"
proof -
  have "\<exists>h1 l1 h2. instrlist_preinsert 3 sample_store sample_list 9 = Some (h1, l1) \<and>
      instrlist_remove h1 l1 9 = Some (h2, sample_list) \<and> (\<forall>z. z \<noteq> 9 \<longrightarrow> node_at h2 z = node_at sample_store z)"
    using preinsert_remove_restores [OF sample_ok(1,3), of 3] by simp
  then obtain h1 l1 h2 where "instrlist_preinsert 3 sample_store sample_list 9 = Some (h1, l1)"
      "instrlist_remove h1 l1 9 = Some (h2, sample_list)" "node_at h2 2 = node_at sample_store 2" by auto
  then show ?thesis by blast
qed

text \<open>
  A list cut at its first instruction is no list any more: \<^verbatim>\<open>instrlist_cut\<close> clears \<^verbatim>\<open>last\<close> and leaves \<^verbatim>\<open>first\<close> on the
  instruction that was cut off, so that the object is neither empty nor ends in its last instruction.
\<close>

theorem instrlist_cut_first_dangles:
  assumes "ilist_ok h l (x # xs)"
  shows "\<exists>h' l'. instrlist_cut h l x = Some (h', l') \<and> l_first l' = x \<and> l_last l' = 0 \<and>
    instrlist_destroy l' = None \<and> (\<nexists>zs. ilist_ok h' l' zs)"
proof -
  note l = ilist_okD [OF assms]
  have x: "x \<noteq> 0" "links h x = Some (0, hd (xs @ [0]))" "l_first l = x" using l(1,3) dseg_nonnull [OF l(1)] by auto
  then have "instrlist_cut h l x = Some (put_prev h x 0, l\<lparr>l_last := 0\<rparr>)"
    by (auto simp: instrlist_cut_def get_link)
  moreover have "\<nexists>zs. ilist_ok (put_prev h x 0) (l\<lparr>l_last := 0\<rparr>) zs"
    using x(1,3) ilist_okD(5,6) [of "put_prev h x 0" "l\<lparr>l_last := 0\<rparr>"] by auto
  ultimately show ?thesis using x by (auto simp: instrlist_destroy_def ASSERT_def)
qed

theorem instrlist_cut_first_dangles_witness:
  "\<exists>h' l'. instrlist_cut sample_store sample_list 1 = Some (h', l') \<and> l_first l' = 1 \<and> l_last l' = 0"
  using instrlist_cut_first_dangles [OF sample_ok(1)] by blast

end
