(* ===== verification/RvDecode.thy ===== *)
theory RvDecode
  imports Instr
begin

text \<open>
  The operand decoders of the RISC-V codec (\<^verbatim>\<open>core/ir/riscv64/codec.c\<close>), one definition per
  \<^verbatim>\<open>decode_*_opnd\<close> function in the order of the source, and the dispatch table
  \<^verbatim>\<open>opnd_decoders\<close>. A decoder takes the instruction word, the operand size, the address of the
  bytes, the original address, the operand position and the instruction object; it returns the
  success flag and the updated object. The \<^verbatim>\<open>dcontext\<close> argument is unused by all of them.
\<close>

unbundle bit_operations_syntax

type_synonym opnd_dec_func_t =
  "u32 \<Rightarrow> opnd_size_t \<Rightarrow> u64 \<Rightarrow> u64 \<Rightarrow> nat \<Rightarrow> instr_t \<Rightarrow> (bool \<times> instr_t) option"

definition decode_none_opnd :: opnd_dec_func_t where [codec_defs]:
  "decode_none_opnd inst op_sz pc orig_pc idx out = None"

definition decode_rd_opnd :: opnd_dec_func_t where [codec_defs]:
  "decode_rd_opnd inst op_sz pc orig_pc idx out =
     do {
       let rd = DR_REG_X0 + GET_FIELD inst 11 7;
       opnd \<leftarrow> opnd_create_reg (ucast rd);
       out \<leftarrow> instr_set_dst out idx opnd;
       Some (True, out)
     }"

definition decode_rdfp_opnd :: opnd_dec_func_t where [codec_defs]:
  "decode_rdfp_opnd inst op_sz pc orig_pc idx out =
     do {
       let reg = DR_REG_F0 + GET_FIELD inst 11 7;
       opnd \<leftarrow> opnd_create_reg (ucast reg);
       out \<leftarrow> instr_set_dst out idx opnd;
       Some (True, out)
     }"

definition decode_vd_opnd :: opnd_dec_func_t where [codec_defs]:
  "decode_vd_opnd inst op_sz pc orig_pc idx out =
     do {
       let reg = DR_REG_VR0 + GET_FIELD inst 11 7;
       opnd \<leftarrow> opnd_create_reg (ucast reg);
       out \<leftarrow> instr_set_dst out idx opnd;
       Some (True, out)
     }"

definition decode_rs1_opnd :: opnd_dec_func_t where [codec_defs]:
  "decode_rs1_opnd inst op_sz pc orig_pc idx out =
     do {
       let reg = DR_REG_X0 + GET_FIELD inst 19 15;
       opnd \<leftarrow> opnd_create_reg (ucast reg);
       out \<leftarrow> instr_set_src out idx opnd;
       Some (True, out)
     }"

definition decode_rs1fp_opnd :: opnd_dec_func_t where [codec_defs]:
  "decode_rs1fp_opnd inst op_sz pc orig_pc idx out =
     do {
       let reg = DR_REG_F0 + GET_FIELD inst 19 15;
       opnd \<leftarrow> opnd_create_reg (ucast reg);
       out \<leftarrow> instr_set_src out idx opnd;
       Some (True, out)
     }"

definition decode_vs1_opnd :: opnd_dec_func_t where [codec_defs]:
  "decode_vs1_opnd inst op_sz pc orig_pc idx out =
     do {
       let reg = DR_REG_VR0 + GET_FIELD inst 19 15;
       opnd \<leftarrow> opnd_create_reg (ucast reg);
       out \<leftarrow> instr_set_src out idx opnd;
       Some (True, out)
     }"

definition decode_base_opnd :: opnd_dec_func_t where [codec_defs]:
  "decode_base_opnd inst op_sz pc orig_pc idx out =
     do {
       let reg = DR_REG_X0 + GET_FIELD inst 19 15;
       opnd \<leftarrow> opnd_create_base_disp (ucast reg) DR_REG_NULL 0 0 op_sz;
       out \<leftarrow> instr_set_src out idx opnd;
       Some (True, out)
     }"

definition decode_rs2_opnd :: opnd_dec_func_t where [codec_defs]:
  "decode_rs2_opnd inst op_sz pc orig_pc idx out =
     do {
       let reg = DR_REG_X0 + GET_FIELD inst 24 20;
       opnd \<leftarrow> opnd_create_reg (ucast reg);
       out \<leftarrow> instr_set_src out idx opnd;
       Some (True, out)
     }"

definition decode_rs2fp_opnd :: opnd_dec_func_t where [codec_defs]:
  "decode_rs2fp_opnd inst op_sz pc orig_pc idx out =
     do {
       let reg = DR_REG_F0 + GET_FIELD inst 24 20;
       opnd \<leftarrow> opnd_create_reg (ucast reg);
       out \<leftarrow> instr_set_src out idx opnd;
       Some (True, out)
     }"

definition decode_vs2_opnd :: opnd_dec_func_t where [codec_defs]:
  "decode_vs2_opnd inst op_sz pc orig_pc idx out =
     do {
       let reg = DR_REG_VR0 + GET_FIELD inst 24 20;
       opnd \<leftarrow> opnd_create_reg (ucast reg);
       out \<leftarrow> instr_set_src out idx opnd;
       Some (True, out)
     }"

definition decode_rs3fp_opnd :: opnd_dec_func_t where [codec_defs]:
  "decode_rs3fp_opnd inst op_sz pc orig_pc idx out =
     do {
       let reg = DR_REG_F0 + GET_FIELD inst 31 27;
       opnd \<leftarrow> opnd_create_reg (ucast reg);
       out \<leftarrow> instr_set_src out idx opnd;
       Some (True, out)
     }"

definition decode_vs3_opnd :: opnd_dec_func_t where [codec_defs]:
  "decode_vs3_opnd inst op_sz pc orig_pc idx out =
     do {
       let reg = DR_REG_VR0 + GET_FIELD inst 11 7;
       opnd \<leftarrow> opnd_create_reg (ucast reg);
       out \<leftarrow> instr_set_src out idx opnd;
       Some (True, out)
     }"

definition decode_fm_opnd :: opnd_dec_func_t where [codec_defs]:
  "decode_fm_opnd inst op_sz pc orig_pc idx out =
     do {
       let imm = (ucast (GET_FIELD inst 31 28) :: u32);
       opnd \<leftarrow> opnd_create_immed_int (scast imm) op_sz;
       out \<leftarrow> instr_set_src out idx opnd;
       Some (True, out)
     }"

definition decode_pred_opnd :: opnd_dec_func_t where [codec_defs]:
  "decode_pred_opnd inst op_sz pc orig_pc idx out =
     do {
       let imm = (ucast (GET_FIELD inst 27 24) :: u32);
       opnd \<leftarrow> opnd_create_immed_int (scast imm) op_sz;
       out \<leftarrow> instr_set_src out idx opnd;
       Some (True, out)
     }"

definition decode_succ_opnd :: opnd_dec_func_t where [codec_defs]:
  "decode_succ_opnd inst op_sz pc orig_pc idx out =
     do {
       let imm = (ucast (GET_FIELD inst 23 20) :: u32);
       opnd \<leftarrow> opnd_create_immed_int (scast imm) op_sz;
       out \<leftarrow> instr_set_src out idx opnd;
       Some (True, out)
     }"

definition decode_aqrl_opnd :: opnd_dec_func_t where [codec_defs]:
  "decode_aqrl_opnd inst op_sz pc orig_pc idx out =
     do {
       let imm = (ucast (GET_FIELD inst 26 25) :: u32);
       opnd \<leftarrow> opnd_create_immed_int (scast imm) op_sz;
       out \<leftarrow> instr_set_src out idx opnd;
       Some (True, out)
     }"

definition decode_csr_opnd :: opnd_dec_func_t where [codec_defs]:
  "decode_csr_opnd inst op_sz pc orig_pc idx out =
     do {
       let imm = (ucast (GET_FIELD inst 31 20) :: u32);
       opnd \<leftarrow> opnd_create_immed_int (scast imm) op_sz;
       out \<leftarrow> instr_set_src out idx opnd;
       Some (True, out)
     }"

definition decode_rm_opnd :: opnd_dec_func_t where [codec_defs]:
  "decode_rm_opnd inst op_sz pc orig_pc idx out =
     do {
       let imm = (ucast (GET_FIELD inst 14 12) :: u32);
       ASSERT (imm \<noteq> 0b101 \<and> imm \<noteq> 0b110);
       opnd \<leftarrow> opnd_create_immed_int (scast imm) op_sz;
       out \<leftarrow> instr_set_src out idx opnd;
       Some (True, out)
     }"

definition decode_shamt_opnd :: opnd_dec_func_t where [codec_defs]:
  "decode_shamt_opnd inst op_sz pc orig_pc idx out =
     do {
       let imm = (ucast (GET_FIELD inst 25 20) :: u32);
       opnd \<leftarrow> opnd_create_immed_int (scast imm) op_sz;
       opnd \<leftarrow> opnd_add_flags opnd DR_OPND_IMM_PRINT_DECIMAL;
       out \<leftarrow> instr_set_src out idx opnd;
       Some (True, out)
     }"

definition decode_shamt5_opnd :: opnd_dec_func_t where [codec_defs]:
  "decode_shamt5_opnd inst op_sz pc orig_pc idx out =
     do {
       let imm = (ucast (GET_FIELD inst 24 20) :: u32);
       opnd \<leftarrow> opnd_create_immed_int (scast imm) op_sz;
       opnd \<leftarrow> opnd_add_flags opnd DR_OPND_IMM_PRINT_DECIMAL;
       out \<leftarrow> instr_set_src out idx opnd;
       Some (True, out)
     }"

definition decode_shamt6_opnd :: opnd_dec_func_t where [codec_defs]:
  "decode_shamt6_opnd inst op_sz pc orig_pc idx out =
     do {
       let imm = (ucast (GET_FIELD inst 26 20) :: u32);
       opnd \<leftarrow> opnd_create_immed_int (scast imm) op_sz;
       opnd \<leftarrow> opnd_add_flags opnd DR_OPND_IMM_PRINT_DECIMAL;
       out \<leftarrow> instr_set_src out idx opnd;
       Some (True, out)
     }"

definition decode_i_imm_opnd :: opnd_dec_func_t where [codec_defs]:
  "decode_i_imm_opnd inst op_sz pc orig_pc idx out =
     do {
       let imm = SIGN_EXTEND (ucast (GET_FIELD inst 31 20)) 12;
       opnd \<leftarrow> opnd_create_immed_int (scast imm) op_sz;
       opnd \<leftarrow> opnd_add_flags opnd DR_OPND_IMM_PRINT_DECIMAL;
       out \<leftarrow> instr_set_src out idx opnd;
       Some (True, out)
     }"

definition decode_s_imm_opnd :: opnd_dec_func_t where [codec_defs]:
  "decode_s_imm_opnd inst op_sz pc orig_pc idx out =
     do {
       let imm = (ucast (shl (GET_FIELD inst 31 25) 5 OR GET_FIELD inst 11 7) :: u32);
       let imm = SIGN_EXTEND imm 12;
       opnd \<leftarrow> opnd_create_immed_int (scast imm) op_sz;
       opnd \<leftarrow> opnd_add_flags opnd DR_OPND_IMM_PRINT_DECIMAL;
       out \<leftarrow> instr_set_src out idx opnd;
       Some (True, out)
     }"

definition decode_b_imm_opnd :: opnd_dec_func_t where [codec_defs]:
  "decode_b_imm_opnd inst op_sz pc orig_pc idx out =
     do {
       let imm = shl (BIT inst 31) 12;
       let imm = imm OR shl (BIT inst 7) 11;
       let imm = or_assign_i32 imm (shl (GET_FIELD inst 30 25) 5);
       let imm = or_assign_i32 imm (shl (GET_FIELD inst 11 8) 1);
       let imm = SIGN_EXTEND imm 13;
       let opnd = opnd_create_pc (orig_pc + scast imm);
       out \<leftarrow> instr_set_target out opnd;
       Some (True, out)
     }"

definition decode_u_imm_opnd :: opnd_dec_func_t where [codec_defs]:
  "decode_u_imm_opnd inst op_sz pc orig_pc idx out =
     do {
       let uimm = (ucast (GET_FIELD inst 31 12) :: u32);
       opnd \<leftarrow> opnd_create_immed_int (ucast uimm) op_sz;
       out \<leftarrow> instr_set_src out idx opnd;
       Some (True, out)
     }"

definition decode_u_immpc_opnd :: opnd_dec_func_t where [codec_defs]:
  "decode_u_immpc_opnd inst op_sz pc orig_pc idx out =
     do {
       let uimm = (ucast (GET_FIELD inst 31 12) :: u32);
       opnd \<leftarrow> opnd_create_rel_addr (orig_pc + scast (shl uimm 12)) OPSZ_0;
       out \<leftarrow> instr_set_src out idx opnd;
       Some (True, out)
     }"

definition decode_j_imm_opnd :: opnd_dec_func_t where [codec_defs]:
  "decode_j_imm_opnd inst op_sz pc orig_pc idx out =
     do {
       let imm = shl (BIT inst 31) 20;
       let imm = or_assign_i32 imm (shl (GET_FIELD inst 19 12) 12);
       let imm = imm OR shl (BIT inst 20) 11;
       let imm = or_assign_i32 imm (shl (GET_FIELD inst 30 21) 1);
       let imm = SIGN_EXTEND imm 21;
       let opnd = opnd_create_pc (orig_pc + scast imm);
       out \<leftarrow> instr_set_target out opnd;
       Some (True, out)
     }"

definition decode_crd_opnd :: opnd_dec_func_t where [codec_defs]:
  "decode_crd_opnd inst op_sz pc orig_pc idx out =
     do {
       let reg = DR_REG_X0 + GET_FIELD inst 11 7;
       opnd \<leftarrow> opnd_create_reg (ucast reg);
       out \<leftarrow> instr_set_dst out idx opnd;
       Some (True, out)
     }"

definition decode_crdfp_opnd :: opnd_dec_func_t where [codec_defs]:
  "decode_crdfp_opnd inst op_sz pc orig_pc idx out =
     do {
       let reg = DR_REG_F0 + GET_FIELD inst 11 7;
       opnd \<leftarrow> opnd_create_reg (ucast reg);
       out \<leftarrow> instr_set_dst out idx opnd;
       Some (True, out)
     }"

definition decode_crs1_opnd :: opnd_dec_func_t where [codec_defs]:
  "decode_crs1_opnd inst op_sz pc orig_pc idx out =
     do {
       let reg = DR_REG_X0 + GET_FIELD inst 11 7;
       opnd \<leftarrow> opnd_create_reg (ucast reg);
       out \<leftarrow> instr_set_src out idx opnd;
       Some (True, out)
     }"

definition decode_crs2_opnd :: opnd_dec_func_t where [codec_defs]:
  "decode_crs2_opnd inst op_sz pc orig_pc idx out =
     do {
       let reg = DR_REG_X0 + GET_FIELD inst 6 2;
       opnd \<leftarrow> opnd_create_reg (ucast reg);
       out \<leftarrow> instr_set_src out idx opnd;
       Some (True, out)
     }"

definition decode_crs2fp_opnd :: opnd_dec_func_t where [codec_defs]:
  "decode_crs2fp_opnd inst op_sz pc orig_pc idx out =
     do {
       let reg = DR_REG_F0 + GET_FIELD inst 6 2;
       opnd \<leftarrow> opnd_create_reg (ucast reg);
       out \<leftarrow> instr_set_src out idx opnd;
       Some (True, out)
     }"

definition decode_crd__opnd :: opnd_dec_func_t where [codec_defs]:
  "decode_crd__opnd inst op_sz pc orig_pc idx out =
     do {
       let reg = DR_REG_X8 + GET_FIELD inst 4 2;
       opnd \<leftarrow> opnd_create_reg (ucast reg);
       out \<leftarrow> instr_set_dst out idx opnd;
       Some (True, out)
     }"

definition decode_crd_fp_opnd :: opnd_dec_func_t where [codec_defs]:
  "decode_crd_fp_opnd inst op_sz pc orig_pc idx out =
     do {
       let reg = DR_REG_F8 + GET_FIELD inst 4 2;
       opnd \<leftarrow> opnd_create_reg (ucast reg);
       out \<leftarrow> instr_set_dst out idx opnd;
       Some (True, out)
     }"

definition decode_crs1__opnd :: opnd_dec_func_t where [codec_defs]:
  "decode_crs1__opnd inst op_sz pc orig_pc idx out =
     do {
       let reg = DR_REG_X8 + GET_FIELD inst 9 7;
       opnd \<leftarrow> opnd_create_reg (ucast reg);
       out \<leftarrow> instr_set_src out idx opnd;
       Some (True, out)
     }"

definition decode_crs2__opnd :: opnd_dec_func_t where [codec_defs]:
  "decode_crs2__opnd inst op_sz pc orig_pc idx out =
     do {
       let reg = DR_REG_X8 + GET_FIELD inst 4 2;
       opnd \<leftarrow> opnd_create_reg (ucast reg);
       out \<leftarrow> instr_set_src out idx opnd;
       Some (True, out)
     }"

definition decode_crs2_fp_opnd :: opnd_dec_func_t where [codec_defs]:
  "decode_crs2_fp_opnd inst op_sz pc orig_pc idx out =
     do {
       let reg = DR_REG_F8 + GET_FIELD inst 4 2;
       opnd \<leftarrow> opnd_create_reg (ucast reg);
       out \<leftarrow> instr_set_src out idx opnd;
       Some (True, out)
     }"

definition decode_crd___opnd :: opnd_dec_func_t where [codec_defs]:
  "decode_crd___opnd inst op_sz pc orig_pc idx out =
     do {
       let reg = DR_REG_X8 + GET_FIELD inst 9 7;
       opnd \<leftarrow> opnd_create_reg (ucast reg);
       out \<leftarrow> instr_set_dst out idx opnd;
       Some (True, out)
     }"

definition decode_cshamt_opnd :: opnd_dec_func_t where [codec_defs]:
  "decode_cshamt_opnd inst op_sz pc orig_pc idx out =
     do {
       let imm = (ucast (ucast (shl (BIT inst 12) 5) OR GET_FIELD inst 6 2) :: u32);
       opnd \<leftarrow> opnd_create_immed_int (scast imm) op_sz;
       opnd \<leftarrow> opnd_add_flags opnd DR_OPND_IMM_PRINT_DECIMAL;
       out \<leftarrow> instr_set_src out idx opnd;
       Some (True, out)
     }"

definition decode_csr_imm_opnd :: opnd_dec_func_t where [codec_defs]:
  "decode_csr_imm_opnd inst op_sz pc orig_pc idx out =
     do {
       let imm = (ucast (GET_FIELD inst 19 15) :: u32);
       opnd \<leftarrow> opnd_create_immed_int (scast imm) op_sz;
       opnd \<leftarrow> opnd_add_flags opnd DR_OPND_IMM_PRINT_DECIMAL;
       out \<leftarrow> instr_set_src out idx opnd;
       Some (True, out)
     }"

definition decode_caddi16sp_imm_opnd :: opnd_dec_func_t where [codec_defs]:
  "decode_caddi16sp_imm_opnd inst op_sz pc orig_pc idx out =
     do {
       let imm = shl (BIT inst 12) 9;
       let imm = or_assign_i32 imm (shl (GET_FIELD inst 4 3) 7);
       let imm = imm OR shl (BIT inst 5) 6;
       let imm = imm OR shl (BIT inst 2) 5;
       let imm = imm OR shl (BIT inst 6) 4;
       let imm = SIGN_EXTEND imm 10;
       opnd \<leftarrow> opnd_create_immed_int (scast imm) op_sz;
       opnd \<leftarrow> opnd_add_flags opnd DR_OPND_IMM_PRINT_DECIMAL;
       out \<leftarrow> instr_set_src out idx opnd;
       Some (True, out)
     }"

definition decode_clwsp_imm_opnd :: opnd_dec_func_t where [codec_defs]:
  "decode_clwsp_imm_opnd inst op_sz pc orig_pc idx out =
     do {
       let imm = (ucast (shl (GET_FIELD inst 3 2) 6) :: u32);
       let imm = imm OR shl (BIT inst 12) 5;
       let imm = or_assign_i32 imm (shl (GET_FIELD inst 6 4) 2);
       opnd \<leftarrow> opnd_create_base_disp DR_REG_SP DR_REG_NULL 0 imm OPSZ_4;
       opnd \<leftarrow> opnd_add_flags opnd DR_OPND_IMM_PRINT_DECIMAL;
       out \<leftarrow> instr_set_src out idx opnd;
       Some (True, out)
     }"

definition decode_cldsp_imm_opnd :: opnd_dec_func_t where [codec_defs]:
  "decode_cldsp_imm_opnd inst op_sz pc orig_pc idx out =
     do {
       let imm = (ucast (shl (GET_FIELD inst 4 2) 6) :: u32);
       let imm = imm OR shl (BIT inst 12) 5;
       let imm = or_assign_i32 imm (shl (GET_FIELD inst 6 5) 3);
       opnd \<leftarrow> opnd_create_base_disp DR_REG_SP DR_REG_NULL 0 imm OPSZ_8;
       opnd \<leftarrow> opnd_add_flags opnd DR_OPND_IMM_PRINT_DECIMAL;
       out \<leftarrow> instr_set_src out idx opnd;
       Some (True, out)
     }"

definition decode_clui_imm_opnd :: opnd_dec_func_t where [codec_defs]:
  "decode_clui_imm_opnd inst op_sz pc orig_pc idx out =
     do {
       let imm = (ucast (ucast (shl (BIT inst 12) 5) OR GET_FIELD inst 6 2) :: u32);
       opnd \<leftarrow> opnd_create_immed_int (scast imm) op_sz;
       out \<leftarrow> instr_set_src out idx opnd;
       Some (True, out)
     }"

definition decode_cswsp_imm_opnd :: opnd_dec_func_t where [codec_defs]:
  "decode_cswsp_imm_opnd inst op_sz pc orig_pc idx out =
     do {
       let imm = (ucast (shl (GET_FIELD inst 8 7) 6 OR shl (GET_FIELD inst 12 9) 2) :: u32);
       opnd \<leftarrow> opnd_create_base_disp DR_REG_SP DR_REG_NULL 0 imm OPSZ_4;
       opnd \<leftarrow> opnd_add_flags opnd DR_OPND_IMM_PRINT_DECIMAL;
       out \<leftarrow> instr_set_dst out idx opnd;
       Some (True, out)
     }"

definition decode_csdsp_imm_opnd :: opnd_dec_func_t where [codec_defs]:
  "decode_csdsp_imm_opnd inst op_sz pc orig_pc idx out =
     do {
       let imm = (ucast (shl (GET_FIELD inst 9 7) 6 OR shl (GET_FIELD inst 12 10) 3) :: u32);
       opnd \<leftarrow> opnd_create_base_disp DR_REG_SP DR_REG_NULL 0 imm OPSZ_8;
       opnd \<leftarrow> opnd_add_flags opnd DR_OPND_IMM_PRINT_DECIMAL;
       out \<leftarrow> instr_set_dst out idx opnd;
       Some (True, out)
     }"

definition decode_ciw_imm_opnd :: opnd_dec_func_t where [codec_defs]:
  "decode_ciw_imm_opnd inst op_sz pc orig_pc idx out =
     do {
       let imm = (ucast (shl (GET_FIELD inst 10 7) 6) :: u32);
       let imm = or_assign_i32 imm (shl (GET_FIELD inst 12 11) 4);
       let imm = imm OR shl (BIT inst 5) 3;
       let imm = imm OR shl (BIT inst 6) 2;
       opnd \<leftarrow> opnd_create_immed_int (scast imm) op_sz;
       opnd \<leftarrow> opnd_add_flags opnd DR_OPND_IMM_PRINT_DECIMAL;
       out \<leftarrow> instr_set_src out idx opnd;
       Some (True, out)
     }"

definition decode_clw_imm_opnd :: opnd_dec_func_t where [codec_defs]:
  "decode_clw_imm_opnd inst op_sz pc orig_pc idx out =
     do {
       let reg = DR_REG_X8 + GET_FIELD inst 9 7;
       let imm = shl (BIT inst 5) 6;
       let imm = or_assign_i32 imm (shl (GET_FIELD inst 12 10) 3);
       let imm = imm OR shl (BIT inst 6) 2;
       opnd \<leftarrow> opnd_create_base_disp (ucast reg) DR_REG_NULL 0 imm OPSZ_4;
       opnd \<leftarrow> opnd_add_flags opnd DR_OPND_IMM_PRINT_DECIMAL;
       out \<leftarrow> instr_set_src out idx opnd;
       Some (True, out)
     }"

definition decode_cld_imm_opnd :: opnd_dec_func_t where [codec_defs]:
  "decode_cld_imm_opnd inst op_sz pc orig_pc idx out =
     do {
       let reg = DR_REG_X8 + GET_FIELD inst 9 7;
       let imm = (ucast (shl (GET_FIELD inst 6 5) 6 OR shl (GET_FIELD inst 12 10) 3) :: u32);
       opnd \<leftarrow> opnd_create_base_disp (ucast reg) DR_REG_NULL 0 imm OPSZ_8;
       opnd \<leftarrow> opnd_add_flags opnd DR_OPND_IMM_PRINT_DECIMAL;
       out \<leftarrow> instr_set_src out idx opnd;
       Some (True, out)
     }"

definition decode_csw_imm_opnd :: opnd_dec_func_t where [codec_defs]:
  "decode_csw_imm_opnd inst op_sz pc orig_pc idx out =
     do {
       let reg = DR_REG_X8 + GET_FIELD inst 9 7;
       let imm = shl (BIT inst 5) 6;
       let imm = or_assign_i32 imm (shl (GET_FIELD inst 12 10) 3);
       let imm = imm OR shl (BIT inst 6) 2;
       opnd \<leftarrow> opnd_create_base_disp (ucast reg) DR_REG_NULL 0 imm OPSZ_4;
       opnd \<leftarrow> opnd_add_flags opnd DR_OPND_IMM_PRINT_DECIMAL;
       out \<leftarrow> instr_set_dst out idx opnd;
       Some (True, out)
     }"

definition decode_csd_imm_opnd :: opnd_dec_func_t where [codec_defs]:
  "decode_csd_imm_opnd inst op_sz pc orig_pc idx out =
     do {
       let reg = DR_REG_X8 + GET_FIELD inst 9 7;
       let imm = (ucast (shl (GET_FIELD inst 6 5) 6 OR shl (GET_FIELD inst 12 10) 3) :: u32);
       opnd \<leftarrow> opnd_create_base_disp (ucast reg) DR_REG_NULL 0 imm OPSZ_8;
       opnd \<leftarrow> opnd_add_flags opnd DR_OPND_IMM_PRINT_DECIMAL;
       out \<leftarrow> instr_set_dst out idx opnd;
       Some (True, out)
     }"

definition decode_cimm5_opnd :: opnd_dec_func_t where [codec_defs]:
  "decode_cimm5_opnd inst op_sz pc orig_pc idx out =
     do {
       let imm = SIGN_EXTEND (ucast (ucast (shl (BIT inst 12) 5) OR GET_FIELD inst 6 2)) 6;
       opnd \<leftarrow> opnd_create_immed_int (scast imm) op_sz;
       opnd \<leftarrow> opnd_add_flags opnd DR_OPND_IMM_PRINT_DECIMAL;
       out \<leftarrow> instr_set_src out idx opnd;
       Some (True, out)
     }"

definition decode_cb_imm_opnd :: opnd_dec_func_t where [codec_defs]:
  "decode_cb_imm_opnd inst op_sz pc orig_pc idx out =
     do {
       let imm = shl (BIT inst 12) 8;
       let imm = or_assign_i32 imm (shl (GET_FIELD inst 6 5) 6);
       let imm = imm OR shl (BIT inst 2) 5;
       let imm = or_assign_i32 imm (shl (GET_FIELD inst 11 10) 3);
       let imm = or_assign_i32 imm (shl (GET_FIELD inst 4 3) 1);
       let imm = SIGN_EXTEND imm 9;
       let opnd = opnd_create_pc (orig_pc + scast imm);
       out \<leftarrow> instr_set_target out opnd;
       Some (True, out)
     }"

definition decode_cj_imm_opnd :: opnd_dec_func_t where [codec_defs]:
  "decode_cj_imm_opnd inst op_sz pc orig_pc idx out =
     do {
       let imm = shl (BIT inst 12) 11;
       let imm = imm OR shl (BIT inst 8) 10;
       let imm = or_assign_i32 imm (shl (GET_FIELD inst 10 9) 8);
       let imm = imm OR shl (BIT inst 6) 7;
       let imm = imm OR shl (BIT inst 7) 6;
       let imm = imm OR shl (BIT inst 2) 5;
       let imm = imm OR shl (BIT inst 11) 4;
       let imm = or_assign_i32 imm (shl (GET_FIELD inst 5 3) 1);
       let imm = SIGN_EXTEND imm 12;
       let opnd = opnd_create_pc (orig_pc + scast imm);
       out \<leftarrow> instr_set_target out opnd;
       Some (True, out)
     }"

definition decode_v_l_rs1_disp_opnd :: opnd_dec_func_t where [codec_defs]:
  "decode_v_l_rs1_disp_opnd inst op_sz pc orig_pc idx out =
     do {
       let reg = DR_REG_X0 + GET_FIELD inst 19 15;
       let is_vector_load = (GET_FIELD inst 6 0 = 0b0000111 \<and>
         (GET_FIELD inst 14 12 = 0 \<or> GET_FIELD inst 14 12 > 0b100));
       let is_lr = (GET_FIELD inst 6 0 = 0b0101111);
       let imm = (if is_vector_load \<or> is_lr then 0
         else SIGN_EXTEND (ucast (GET_FIELD inst 31 20)) 12);
       opnd \<leftarrow> opnd_create_base_disp (ucast reg) DR_REG_NULL 0 imm op_sz;
       opnd \<leftarrow> opnd_add_flags opnd DR_OPND_IMM_PRINT_DECIMAL;
       out \<leftarrow> instr_set_src out idx opnd;
       Some (True, out)
     }"

definition decode_v_s_rs1_disp_opnd :: opnd_dec_func_t where [codec_defs]:
  "decode_v_s_rs1_disp_opnd inst op_sz pc orig_pc idx out =
     do {
       let reg = DR_REG_X0 + GET_FIELD inst 19 15;
       let is_vector_store = (GET_FIELD inst 6 0 = 0b0100111 \<and>
         (GET_FIELD inst 14 12 = 0 \<or> GET_FIELD inst 14 12 > 0b100));
       let is_sc = (GET_FIELD inst 6 0 = 0b0101111);
       let imm = (ucast (if is_vector_store \<or> is_sc then 0
         else shl (GET_FIELD inst 31 25) 5 OR GET_FIELD inst 11 7) :: u32);
       let imm = SIGN_EXTEND imm 12;
       opnd \<leftarrow> opnd_create_base_disp (ucast reg) DR_REG_NULL 0 imm op_sz;
       opnd \<leftarrow> opnd_add_flags opnd DR_OPND_IMM_PRINT_DECIMAL;
       out \<leftarrow> instr_set_dst out idx opnd;
       Some (True, out)
     }"

definition decode_irs1_sp_opnd :: opnd_dec_func_t where [codec_defs]:
  "decode_irs1_sp_opnd inst op_sz pc orig_pc idx out =
     do {
       ASSERT (idx = 0);
       opnd \<leftarrow> opnd_create_reg DR_REG_SP;
       out \<leftarrow> instr_set_src out idx opnd;
       Some (True, out)
     }"

definition decode_irs1_zero_opnd :: opnd_dec_func_t where [codec_defs]:
  "decode_irs1_zero_opnd inst op_sz pc orig_pc idx out =
     do {
       ASSERT (idx = 0);
       opnd \<leftarrow> opnd_create_reg DR_REG_ZERO;
       out \<leftarrow> instr_set_src out idx opnd;
       Some (True, out)
     }"

definition decode_irs2_zero_opnd :: opnd_dec_func_t where [codec_defs]:
  "decode_irs2_zero_opnd inst op_sz pc orig_pc idx out =
     do {
       ASSERT (idx = 1);
       opnd \<leftarrow> opnd_create_reg DR_REG_ZERO;
       out \<leftarrow> instr_set_src out idx opnd;
       Some (True, out)
     }"

definition decode_ird_zero_opnd :: opnd_dec_func_t where [codec_defs]:
  "decode_ird_zero_opnd inst op_sz pc orig_pc idx out =
     do {
       ASSERT (idx = 0);
       opnd \<leftarrow> opnd_create_reg DR_REG_ZERO;
       out \<leftarrow> instr_set_dst out idx opnd;
       Some (True, out)
     }"

definition decode_ird_ra_opnd :: opnd_dec_func_t where [codec_defs]:
  "decode_ird_ra_opnd inst op_sz pc orig_pc idx out =
     do {
       ASSERT (idx = 0);
       opnd \<leftarrow> opnd_create_reg DR_REG_RA;
       out \<leftarrow> instr_set_dst out idx opnd;
       Some (True, out)
     }"

definition decode_ird_sp_opnd :: opnd_dec_func_t where [codec_defs]:
  "decode_ird_sp_opnd inst op_sz pc orig_pc idx out =
     do {
       ASSERT (idx = 0);
       opnd \<leftarrow> opnd_create_reg DR_REG_SP;
       out \<leftarrow> instr_set_dst out idx opnd;
       Some (True, out)
     }"

definition decode_iimm_0_opnd :: opnd_dec_func_t where [codec_defs]:
  "decode_iimm_0_opnd inst op_sz pc orig_pc idx out =
     do {
       ASSERT (idx = 1);
       opnd \<leftarrow> opnd_create_immed_int 0 op_sz;
       opnd \<leftarrow> opnd_add_flags opnd DR_OPND_IMM_PRINT_DECIMAL;
       out \<leftarrow> instr_set_src out idx opnd;
       Some (True, out)
     }"

definition decode_icrs1_opnd :: opnd_dec_func_t where [codec_defs]:
  "decode_icrs1_opnd inst op_sz pc orig_pc idx out =
     do {
       ASSERT (idx = 0);
       let reg = DR_REG_X0 + GET_FIELD inst 11 7;
       opnd \<leftarrow> opnd_create_reg (ucast reg);
       out \<leftarrow> instr_set_src out idx opnd;
       Some (True, out)
     }"

definition decode_icrs1___opnd :: opnd_dec_func_t where [codec_defs]:
  "decode_icrs1___opnd inst op_sz pc orig_pc idx out =
     do {
       ASSERT (idx = 0);
       let reg = DR_REG_X8 + GET_FIELD inst 9 7;
       opnd \<leftarrow> opnd_create_reg (ucast reg);
       out \<leftarrow> instr_set_src out idx opnd;
       Some (True, out)
     }"

definition decode_zimm_opnd :: opnd_dec_func_t where [codec_defs]:
  "decode_zimm_opnd inst op_sz pc orig_pc idx out =
     do {
       let imm = (ucast (GET_FIELD inst 19 15) :: u32);
       opnd \<leftarrow> opnd_create_immed_uint (ucast imm) op_sz;
       out \<leftarrow> instr_set_src out idx opnd;
       Some (True, out)
     }"

definition decode_zimm10_opnd :: opnd_dec_func_t where [codec_defs]:
  "decode_zimm10_opnd inst op_sz pc orig_pc idx out =
     do {
       let imm = (ucast (GET_FIELD inst 29 20) :: u32);
       opnd \<leftarrow> opnd_create_immed_uint (ucast imm) op_sz;
       out \<leftarrow> instr_set_src out idx opnd;
       Some (True, out)
     }"

definition decode_zimm11_opnd :: opnd_dec_func_t where [codec_defs]:
  "decode_zimm11_opnd inst op_sz pc orig_pc idx out =
     do {
       let imm = (ucast (GET_FIELD inst 30 20) :: u32);
       opnd \<leftarrow> opnd_create_immed_uint (ucast imm) op_sz;
       out \<leftarrow> instr_set_src out idx opnd;
       Some (True, out)
     }"

definition decode_vm_opnd :: opnd_dec_func_t where [codec_defs]:
  "decode_vm_opnd inst op_sz pc orig_pc idx out =
     do {
       let imm = (ucast (GET_FIELD inst 25 25) :: u32);
       opnd \<leftarrow> opnd_create_immed_uint (ucast imm) op_sz;
       out \<leftarrow> instr_set_src out idx opnd;
       Some (True, out)
     }"

definition decode_nf_opnd :: opnd_dec_func_t where [codec_defs]:
  "decode_nf_opnd inst op_sz pc orig_pc idx out =
     do {
       let imm = (ucast (GET_FIELD inst 31 29) :: u32);
       opnd \<leftarrow> opnd_create_immed_uint (ucast imm) op_sz;
       out \<leftarrow> instr_set_src out idx opnd;
       Some (True, out)
     }"

definition decode_simm5_opnd :: opnd_dec_func_t where [codec_defs]:
  "decode_simm5_opnd inst op_sz pc orig_pc idx out =
     do {
       let imm = (ucast (GET_FIELD inst 19 15) :: u32);
       opnd \<leftarrow> opnd_create_immed_uint (ucast imm) op_sz;
       out \<leftarrow> instr_set_src out idx opnd;
       Some (True, out)
     }"

text \<open>
  The dispatch table, indexed by the numbers of the enumeration \<^verbatim>\<open>riscv64_fld_t\<close>
  (\<^verbatim>\<open>codec.h\<close>); the designated initialisers of the source are put in the enumeration's order.
\<close>

abbreviation (input) RISCV64_FLD_CNT :: nat where "RISCV64_FLD_CNT \<equiv> 73"

definition opnd_decoders :: "opnd_dec_func_t list" where
  "opnd_decoders =
    [decode_none_opnd, decode_rd_opnd, decode_rdfp_opnd, decode_rs1_opnd, decode_rs1fp_opnd,
     decode_base_opnd, decode_rs2_opnd, decode_rs2fp_opnd, decode_rs3fp_opnd, decode_fm_opnd,
     decode_pred_opnd, decode_succ_opnd, decode_aqrl_opnd, decode_csr_opnd, decode_rm_opnd,
     decode_shamt_opnd, decode_shamt5_opnd, decode_shamt6_opnd, decode_i_imm_opnd,
     decode_s_imm_opnd, decode_b_imm_opnd, decode_u_imm_opnd, decode_u_immpc_opnd,
     decode_j_imm_opnd, decode_crd_opnd, decode_crdfp_opnd, decode_crs1_opnd, decode_crs2_opnd,
     decode_crs2fp_opnd, decode_crd__opnd, decode_crd_fp_opnd, decode_crs1__opnd,
     decode_crs2__opnd, decode_crs2_fp_opnd, decode_crd___opnd, decode_cshamt_opnd,
     decode_csr_imm_opnd, decode_caddi16sp_imm_opnd, decode_clwsp_imm_opnd,
     decode_cldsp_imm_opnd, decode_clui_imm_opnd, decode_cswsp_imm_opnd, decode_csdsp_imm_opnd,
     decode_ciw_imm_opnd, decode_clw_imm_opnd, decode_cld_imm_opnd, decode_csw_imm_opnd,
     decode_csd_imm_opnd, decode_cimm5_opnd, decode_cb_imm_opnd, decode_cj_imm_opnd,
     decode_v_l_rs1_disp_opnd, decode_v_s_rs1_disp_opnd, decode_irs1_sp_opnd,
     decode_irs1_zero_opnd, decode_irs2_zero_opnd, decode_ird_zero_opnd, decode_ird_ra_opnd,
     decode_ird_sp_opnd, decode_iimm_0_opnd, decode_icrs1_opnd, decode_icrs1___opnd,
     decode_v_s_rs1_disp_opnd, decode_zimm_opnd, decode_zimm10_opnd, decode_zimm11_opnd,
     decode_vm_opnd, decode_nf_opnd, decode_simm5_opnd, decode_vd_opnd, decode_vs1_opnd,
     decode_vs2_opnd, decode_vs3_opnd]"

end
