(* ===== verification/RvInstr.thy ===== *)
theory RvInstr
  imports Instr
begin

text \<open>
  The RISC-V instruction queries of \<^verbatim>\<open>core/ir/riscv64/instr.c\<close>: control-transfer classes, branch
  types, instruction lengths and the inversion of conditional branches. The opcode numbers come
  from a header that the build generates, so every query takes the numbering \<open>OP\<close> as an argument
  (\<open>OP ''beq''\<close> is \<^verbatim>\<open>OP_beq\<close>); what the code relies on is that different names have different
  numbers.
\<close>

unbundle bit_operations_syntax

type_synonym op_enum = "string \<Rightarrow> nat"

definition op_is :: "op_enum \<Rightarrow> string list \<Rightarrow> nat \<Rightarrow> bool" where
  "op_is OP names opc \<longleftrightarrow> opc \<in> set (map OP names)"

definition dst_reg :: "instr_t \<Rightarrow> nat \<Rightarrow> reg_id_t option" where
  "dst_reg instr pos = do { opnd \<leftarrow> instr_get_dst instr pos; opnd_get_reg opnd }"

definition src_reg :: "instr_t \<Rightarrow> nat \<Rightarrow> reg_id_t option" where
  "src_reg instr pos = do { opnd \<leftarrow> instr_get_src instr pos; opnd_get_reg opnd }"

definition src_immed_int :: "instr_t \<Rightarrow> nat \<Rightarrow> u64 option" where
  "src_immed_int instr pos = do { opnd \<leftarrow> instr_get_src instr pos; opnd_get_immed_int opnd }"

subsection \<open>Lengths\<close>

abbreviation (input) RISCV64_INSTR_SIZE :: int where "RISCV64_INSTR_SIZE \<equiv> 4"
abbreviation (input) RISCV64_INSTR_COMPRESSED_SIZE :: int where "RISCV64_INSTR_COMPRESSED_SIZE \<equiv> 2"

definition compressed_ops :: "string list" where
  "compressed_ops =
    [''c_flwsp'', ''c_fswsp'', ''c_flw'', ''c_fsw'', ''c_jal'', ''c_ldsp'', ''c_sdsp'', ''c_ld'',
     ''c_sd'', ''c_addiw'', ''c_addw'', ''c_subw'', ''c_lwsp'', ''c_fldsp'', ''c_swsp'',
     ''c_fsdsp'', ''c_lw'', ''c_fld'', ''c_sw'', ''c_fsd'', ''c_j'', ''c_jr'', ''c_jalr'',
     ''c_beqz'', ''c_bnez'', ''c_li'', ''c_lui'', ''c_addi'', ''c_addi16sp'', ''c_addi4spn'',
     ''c_slli'', ''c_srli'', ''c_srai'', ''c_andi'', ''c_mv'', ''c_add'', ''c_and'', ''c_or'',
     ''c_xor'', ''c_sub'', ''c_nop'', ''c_ebreak'']"

definition instr_length_arch :: "op_enum \<Rightarrow> instr_t \<Rightarrow> int option" where
  "instr_length_arch OP instr =
     do {
       opc \<leftarrow> instr_get_opcode instr;
       Some (if opc = OP_LABEL then 0
         else if op_is OP compressed_ops opc then RISCV64_INSTR_COMPRESSED_SIZE
         else RISCV64_INSTR_SIZE)
     }"

subsection \<open>Control transfers\<close>

abbreviation (input) LINK_DIRECT :: u32 where "LINK_DIRECT \<equiv> 0x0001"
abbreviation (input) LINK_INDIRECT :: u32 where "LINK_INDIRECT \<equiv> 0x0002"
abbreviation (input) LINK_RETURN :: u32 where "LINK_RETURN \<equiv> 0x0004"
abbreviation (input) LINK_CALL :: u32 where "LINK_CALL \<equiv> 0x0008"
abbreviation (input) LINK_JMP :: u32 where "LINK_JMP \<equiv> 0x0010"

text \<open>\<^verbatim>\<open>a && b\<close> and \<^verbatim>\<open>a || b\<close> with operands that may fail: the right one is evaluated only if needed.\<close>

definition and_then :: "bool \<Rightarrow> bool option \<Rightarrow> bool option" where
  "and_then a b = (if a then b else Some False)"

definition or_else :: "bool option \<Rightarrow> bool option \<Rightarrow> bool option" where
  "or_else a b = do { x \<leftarrow> a; if x then Some True else b }"

text \<open>The conditional branches, as the sources enumerate them twice.\<close>

definition cbr_ops :: "string list" where
  "cbr_ops = [''beq'', ''bne'', ''blt'', ''bltu'', ''bge'', ''bgeu'', ''c_beqz'', ''c_bnez'']"

definition instr_branch_type :: "op_enum \<Rightarrow> instr_t \<Rightarrow> u32 option" where
  "instr_branch_type OP cti_instr =
     do {
       opc \<leftarrow> instr_get_opcode cti_instr;
       if op_is OP [''jal'', ''c_jal'', ''c_j''] opc then
         do {
           rd \<leftarrow> dst_reg cti_instr 0;
           Some (if rd \<noteq> DR_REG_ZERO then LINK_DIRECT OR LINK_CALL else LINK_DIRECT OR LINK_JMP)
         }
       else if op_is OP [''jalr'', ''c_jr'', ''c_jalr''] opc then
         do {
           rd \<leftarrow> dst_reg cti_instr 0;
           is_ret \<leftarrow> and_then (rd = DR_REG_ZERO) (do {
             rs \<leftarrow> src_reg cti_instr 0;
             and_then (rs = DR_REG_RA) (do { i \<leftarrow> src_immed_int cti_instr 1; Some (i = 0) })
           });
           Some (if is_ret then LINK_INDIRECT OR LINK_RETURN
             else if rd \<noteq> DR_REG_ZERO then LINK_INDIRECT OR LINK_CALL
             else LINK_INDIRECT OR LINK_JMP)
         }
       else if op_is OP cbr_ops opc
       then Some (LINK_DIRECT OR LINK_JMP)
       else None
     }"

definition instr_is_call_arch :: "op_enum \<Rightarrow> instr_t \<Rightarrow> bool option" where
  "instr_is_call_arch OP instr =
     do {
       opc \<leftarrow> instr_get_opcode instr;
       and_then (op_is OP [''jal'', ''jalr'', ''c_jal'', ''c_jalr''] opc)
         (do { rd \<leftarrow> dst_reg instr 0; Some (rd \<noteq> DR_REG_ZERO) })
     }"

definition instr_is_call_direct :: "op_enum \<Rightarrow> instr_t \<Rightarrow> bool option" where
  "instr_is_call_direct OP instr =
     do {
       opc \<leftarrow> instr_get_opcode instr;
       and_then (op_is OP [''jal'', ''c_jal''] opc)
         (do { rd \<leftarrow> dst_reg instr 0; Some (rd \<noteq> DR_REG_ZERO) })
     }"

definition instr_is_call_indirect :: "op_enum \<Rightarrow> instr_t \<Rightarrow> bool option" where
  "instr_is_call_indirect OP instr =
     do {
       opc \<leftarrow> instr_get_opcode instr;
       and_then (op_is OP [''jalr'', ''c_jalr''] opc)
         (do { rd \<leftarrow> dst_reg instr 0; Some (rd \<noteq> DR_REG_ZERO) })
     }"

definition instr_is_return :: "op_enum \<Rightarrow> instr_t \<Rightarrow> bool option" where
  "instr_is_return OP instr =
     do {
       opc \<leftarrow> instr_get_opcode instr;
       and_then (op_is OP [''c_jr'', ''jalr''] opc) (do {
         rd \<leftarrow> dst_reg instr 0;
         and_then (rd = DR_REG_X0) (do {
           rs \<leftarrow> src_reg instr 0;
           and_then (rs = DR_REG_RA) (do { i \<leftarrow> src_immed_int instr 1; Some (i = 0) })
         })
       })
     }"

definition instr_is_cbr_arch :: "op_enum \<Rightarrow> instr_t \<Rightarrow> bool option" where
  "instr_is_cbr_arch OP instr =
     do {
       opc \<leftarrow> instr_get_opcode instr;
       Some (op_is OP cbr_ops opc)
     }"

definition instr_is_mbr_arch :: "op_enum \<Rightarrow> instr_t \<Rightarrow> bool option" where
  "instr_is_mbr_arch OP instr =
     do { opc \<leftarrow> instr_get_opcode instr; Some (op_is OP [''jalr'', ''c_jr'', ''c_jalr''] opc) }"

definition instr_is_ubr_arch :: "op_enum \<Rightarrow> instr_t \<Rightarrow> bool option" where
  "instr_is_ubr_arch OP instr =
     do {
       opc \<leftarrow> instr_get_opcode instr;
       and_then (op_is OP [''jal'', ''c_j''] opc)
         (do { rd \<leftarrow> dst_reg instr 0; Some (rd = DR_REG_ZERO) })
     }"

definition instr_is_cti_short :: "op_enum \<Rightarrow> instr_t \<Rightarrow> bool option" where
  "instr_is_cti_short OP instr =
     do { opc \<leftarrow> instr_get_opcode instr; Some (op_is OP [''c_beqz'', ''c_bnez''] opc) }"

definition instr_is_cti :: "op_enum \<Rightarrow> instr_t \<Rightarrow> bool option" where
  "instr_is_cti OP instr =
     or_else (instr_is_cbr_arch OP instr) (or_else (instr_is_ubr_arch OP instr)
       (or_else (instr_is_mbr_arch OP instr) (instr_is_call_arch OP instr)))"

text \<open>The accessor \<^verbatim>\<open>instr_get_target\<close> asserts that the instruction is a control transfer.\<close>

definition instr_get_target :: "op_enum \<Rightarrow> instr_t \<Rightarrow> opnd_t option" where
  "instr_get_target OP instr =
     (if instr_operands_valid instr \<and> instr_is_cti OP instr = Some True \<and> 1 \<le> i_num_srcs instr
      then Some (i_src0 instr) else None)"

definition invert_pairs :: "(string \<times> string) list" where
  "invert_pairs =
    [(''beq'', ''bne''), (''bne'', ''beq''), (''blt'', ''bge''), (''bltu'', ''bgeu''),
     (''bge'', ''blt''), (''bgeu'', ''bltu''), (''c_beqz'', ''c_bnez''), (''c_bnez'', ''c_beqz'')]"

definition instr_invert_cbr :: "op_enum \<Rightarrow> instr_t \<Rightarrow> instr_t option" where
  "instr_invert_cbr OP instr =
     do {
       opc \<leftarrow> instr_get_opcode instr;
       is_cbr \<leftarrow> instr_is_cbr_arch OP instr;
       if is_cbr then
         do { opc' \<leftarrow> map_of (map (map_prod OP OP) invert_pairs) opc; instr_set_opcode instr opc' }
       else None
     }"

subsection \<open>Other queries\<close>

definition instr_is_syscall :: "op_enum \<Rightarrow> instr_t \<Rightarrow> bool option" where
  "instr_is_syscall OP instr = do { opc \<leftarrow> instr_get_opcode instr; Some (opc = OP ''ecall'') }"

definition instr_is_mov_constant :: "op_enum \<Rightarrow> instr_t \<Rightarrow> u64 option option" where
  "instr_is_mov_constant OP instr =
     do {
       opc \<leftarrow> instr_get_opcode instr;
       if op_is OP [''addi'', ''addiw'', ''c_addi'', ''c_addiw'', ''c_addi4spn'', ''c_addi16sp'',
           ''c_li''] opc then
         do {
           op1 \<leftarrow> instr_get_src instr 0;
           op2 \<leftarrow> instr_get_src instr 1;
           if opnd_is_reg op1 \<and> opnd_get_reg op1 = Some DR_REG_X0 then
             do { v \<leftarrow> opnd_get_immed_int op2; Some (Some v) }
           else Some None
         }
       else Some None
     }"

definition instr_is_prefetch :: "op_enum \<Rightarrow> instr_t \<Rightarrow> bool option" where
  "instr_is_prefetch OP instr =
     do {
       opc \<leftarrow> instr_get_opcode instr;
       Some (op_is OP [''prefetch_i'', ''prefetch_r'', ''prefetch_w''] opc)
     }"

definition instr_is_nop :: "op_enum \<Rightarrow> instr_t \<Rightarrow> bool option" where
  "instr_is_nop OP instr =
     do {
       opc \<leftarrow> instr_get_opcode instr;
       if opc = OP ''c_nop'' then Some True
       else if \<not> instr_operands_valid instr then None
       else if i_num_srcs instr < 2 \<or> i_num_dsts instr < 1 then Some False
       else do {
         rd \<leftarrow> instr_get_dst instr 0;
         rs \<leftarrow> instr_get_src instr 0;
         i \<leftarrow> instr_get_src instr 1;
         and_then (opc = OP ''addi'') (do {
           r \<leftarrow> opnd_get_reg rd;
           and_then (r = DR_REG_X0) (do {
             s \<leftarrow> opnd_get_reg rs;
             and_then (s = DR_REG_X0) (do { v \<leftarrow> opnd_get_immed_int i; Some (v = 0) })
           })
         })
       }
     }"

definition instr_is_exclusive_load :: "op_enum \<Rightarrow> instr_t \<Rightarrow> bool option" where
  "instr_is_exclusive_load OP instr =
     do { opc \<leftarrow> instr_get_opcode instr; Some (op_is OP [''lr_w'', ''lr_d''] opc) }"

definition instr_is_exclusive_store :: "op_enum \<Rightarrow> instr_t \<Rightarrow> bool option" where
  "instr_is_exclusive_store OP instr =
     do { opc \<leftarrow> instr_get_opcode instr; Some (op_is OP [''sc_w'', ''sc_d''] opc) }"

definition reg_is_gpr :: "reg_id_t \<Rightarrow> bool" where
  "reg_is_gpr reg \<longleftrightarrow> DR_REG_X1 \<le> reg \<and> reg \<le> DR_REG_X31"

text \<open>The control transfers, and what the properties below need of the generated opcode enumeration: those
opcodes are distinct and lie above the two pseudo opcodes that carry no encoding.\<close>

definition cti_ops :: "string list" where
  "cti_ops = cbr_ops @ [''jal'', ''c_jal'', ''c_j''] @ [''jalr'', ''c_jr'', ''c_jalr'']"

definition op_wf :: "op_enum \<Rightarrow> bool" where
  "op_wf OP \<longleftrightarrow> distinct (map OP cti_ops) \<and> (\<forall>n \<in> set cti_ops. OP_LABEL < OP n)"

lemma op_is_OP:
  "op_wf OP \<Longrightarrow> n \<in> set cti_ops \<Longrightarrow> set names \<subseteq> set cti_ops \<Longrightarrow> op_is OP names (OP n) \<longleftrightarrow> n \<in> set names"
  by (auto simp: op_wf_def op_is_def distinct_map dest: inj_onD)

lemma OP_inj: "op_wf OP \<Longrightarrow> a \<in> set cti_ops \<Longrightarrow> b \<in> set cti_ops \<Longrightarrow> OP a = OP b \<longleftrightarrow> a = b"
  by (auto simp: op_wf_def distinct_map dest: inj_onD)

lemma cbr_ops_sub: "set cbr_ops \<subseteq> set cti_ops"
  by (auto simp: cti_ops_def)

lemma get_opcode_OP:
  "op_wf OP \<Longrightarrow> n \<in> set cti_ops \<Longrightarrow> i_opcode instr = OP n \<Longrightarrow> instr_get_opcode instr = Some (OP n)"
  by (auto simp: op_wf_def instr_get_opcode_def)

lemma map_of_OP:
  "inj_on OP (fst ` set ps \<union> {n}) \<Longrightarrow> map_of (map (map_prod OP OP) ps) (OP n) = map_option OP (map_of ps n)"
  by (induction ps) (auto simp: inj_on_def)

lemma invert_pairs_swap:
  assumes "n \<in> set cbr_ops"
  obtains n' where "map_of invert_pairs n = Some n'" "map_of invert_pairs n' = Some n" "n' \<noteq> n"
    "n' \<in> set cbr_ops"
proof -
  have "\<exists>n'. map_of invert_pairs n = Some n' \<and> map_of invert_pairs n' = Some n \<and> n' \<noteq> n \<and>
    n' \<in> set cbr_ops"
    using assms unfolding cbr_ops_def set_simps insert_iff empty_iff
    by (elim disjE) (simp_all add: invert_pairs_def)
  then show thesis using that by blast
qed

lemma instr_invert_cbr_OP:
  assumes wf: "op_wf OP" and n: "n \<in> set cbr_ops"
    and opc: "i_opcode instr = OP n" and m: "map_of invert_pairs n = Some n'" 
    and n': "n' \<in> set cbr_ops"
  shows "instr_is_cbr_arch OP instr = Some True"
    "instr_invert_cbr OP instr = Some (instr_being_modified (instr\<lparr>i_opcode := OP n'\<rparr>) False)"
proof -
  have nc: "n \<in> set cti_ops" "n' \<in> set cti_ops" using n n' cbr_ops_sub by auto
  show c: "instr_is_cbr_arch OP instr = Some True"
    by (simp add: instr_is_cbr_arch_def get_opcode_OP [OF wf nc(1) opc]
        op_is_OP [OF wf nc(1) cbr_ops_sub] n)
  have "inj_on OP (fst ` set invert_pairs \<union> {n})"
  proof (rule inj_on_subset)
    show "inj_on OP (set cti_ops)" using wf by (simp add: op_wf_def distinct_map)
    show "fst ` set invert_pairs \<union> {n} \<subseteq> set cti_ops"
      using nc by (simp add: invert_pairs_def cti_ops_def cbr_ops_def)
  qed
  then have "map_of (map (map_prod OP OP) invert_pairs) (OP n) = Some (OP n')"
    using m by (simp add: map_of_OP)
  then show "instr_invert_cbr OP instr = Some (instr_being_modified (instr\<lparr>i_opcode := OP n'\<rparr>) False)"
    using c get_opcode_OP [OF wf nc(1) opc] wf nc(2)
    by (auto simp: instr_invert_cbr_def instr_set_opcode_def Let_def op_wf_def)
qed

text \<open>\<^verbatim>\<open>instr_invert_cbr\<close> succeeds on every conditional branch, yields a different conditional
branch whose raw bits are no longer valid, and inverting twice restores the opcode.\<close>

theorem instr_invert_cbr_involutive:
  assumes wf: "op_wf OP" and cbr: "instr_is_cbr_arch OP instr = Some True"
  shows "\<exists>i1 i2. instr_invert_cbr OP instr = Some i1 \<and> instr_invert_cbr OP i1 = Some i2 \<and>
    i_opcode i2 = i_opcode instr \<and> i_opcode i1 \<noteq> i_opcode instr \<and>
    instr_is_cbr_arch OP i1 = Some True \<and> \<not> instr_raw_bits_valid i1"
proof -
  let ?cbr = "cbr_ops"
  obtain n where n: "n \<in> set ?cbr" "i_opcode instr = OP n"
    using cbr by (auto simp: instr_is_cbr_arch_def op_is_def bind_eq_Some_conv instr_get_opcode_def split: if_splits)
  obtain n' where n': "map_of invert_pairs n = Some n'" "map_of invert_pairs n' = Some n" "n' \<noteq> n" "n' \<in> set ?cbr"
    by (rule invert_pairs_swap [OF n(1)])
  let ?i1 = "instr_being_modified (instr\<lparr>i_opcode := OP n'\<rparr>) False"
  have i1: "i_opcode ?i1 = OP n'" by simp
  have "OP n' \<noteq> OP n" using OP_inj [OF wf] n(1) n'(3,4) cbr_ops_sub by blast
  then show ?thesis
    using instr_invert_cbr_OP [OF wf n n'(1,4)] instr_invert_cbr_OP [OF wf n'(4) i1 n'(2) n(1)] n(2)
    by simp
qed

text \<open>The implicit link register of the compressed jumps, as the decoder sets it.\<close>

definition compressed_dst_ok :: "op_enum \<Rightarrow> instr_t \<Rightarrow> bool" where
  "compressed_dst_ok OP instr \<longleftrightarrow>
     (op_is OP [''c_j'', ''c_jr''] (i_opcode instr) \<longrightarrow> dst_reg instr 0 = Some DR_REG_ZERO) \<and>
     (op_is OP [''c_jal'', ''c_jalr''] (i_opcode instr) \<longrightarrow> dst_reg instr 0 = Some DR_REG_RA)"


lemma op_classes:
  assumes wf: "op_wf OP" and n: "n \<in> set cti_ops"
  shows "op_is OP cbr_ops (OP n) \<longleftrightarrow> n \<in> set cbr_ops"
    "op_is OP [''jal'', ''c_jal'', ''c_j''] (OP n) \<longleftrightarrow> n \<in> {''jal'', ''c_jal'', ''c_j''}"
    "op_is OP [''jalr'', ''c_jr'', ''c_jalr''] (OP n) \<longleftrightarrow> n \<in> {''jalr'', ''c_jr'', ''c_jalr''}"
    "op_is OP [''jal'', ''jalr'', ''c_jal'', ''c_jalr''] (OP n) \<longleftrightarrow>
      n \<in> {''jal'', ''jalr'', ''c_jal'', ''c_jalr''}"
    "op_is OP [''c_jr'', ''jalr''] (OP n) \<longleftrightarrow> n \<in> {''c_jr'', ''jalr''}"
    "op_is OP [''jal'', ''c_j''] (OP n) \<longleftrightarrow> n \<in> {''jal'', ''c_j''}"
    "op_is OP [''c_j'', ''c_jr''] (OP n) \<longleftrightarrow> n \<in> {''c_j'', ''c_jr''}"
    "op_is OP [''c_jal'', ''c_jalr''] (OP n) \<longleftrightarrow> n \<in> {''c_jal'', ''c_jalr''}"
  by (subst op_is_OP [OF wf n]; simp add: cti_ops_def cbr_ops_def)+

text \<open>What the classifiers report for one instruction, given the link flags of its branch type.\<close>

definition classified :: "op_enum \<Rightarrow> instr_t \<Rightarrow> u32 \<Rightarrow> bool" where
  "classified OP instr t \<longleftrightarrow> instr_is_cti OP instr = Some True \<and>
    instr_is_call_arch OP instr = Some (TESTANY LINK_CALL t) \<and>
    instr_is_mbr_arch OP instr = Some (TESTANY LINK_INDIRECT t) \<and>
    instr_is_return OP instr = Some (TESTANY LINK_RETURN t)"

lemmas classifier_defs = instr_branch_type_def instr_is_cti_def instr_is_cbr_arch_def
  instr_is_mbr_arch_def instr_is_ubr_arch_def instr_is_call_arch_def instr_is_return_def
  and_then_def or_else_def compressed_dst_ok_def TESTANY_def classified_def

lemma classified_cbr:
  assumes "instr_get_opcode instr = Some opc"
    and "op_is OP cbr_ops opc" "\<not> op_is OP [''jal'', ''c_jal'', ''c_j''] opc"
    "\<not> op_is OP [''jalr'', ''c_jr'', ''c_jalr''] opc" "\<not> op_is OP [''c_jr'', ''jalr''] opc"
    "\<not> op_is OP [''jal'', ''jalr'', ''c_jal'', ''c_jalr''] opc"
    and "instr_branch_type OP instr = Some t"
  shows "classified OP instr t"
  using assms by (auto simp: classifier_defs)

lemma classified_direct:
  assumes "instr_get_opcode instr = Some opc" "i_opcode instr = opc"
    and "\<not> op_is OP cbr_ops opc" "op_is OP [''jal'', ''c_jal'', ''c_j''] opc"
    "\<not> op_is OP [''jalr'', ''c_jr'', ''c_jalr''] opc" "\<not> op_is OP [''c_jr'', ''jalr''] opc"
    and k: "op_is OP [''jal'', ''jalr'', ''c_jal'', ''c_jalr''] opc \<or> op_is OP [''c_j'', ''c_jr''] opc"
    "op_is OP [''jal'', ''c_j''] opc \<or> op_is OP [''c_jal'', ''c_jalr''] opc"
    and ty: "instr_branch_type OP instr = Some t" and "compressed_dst_ok OP instr"
  shows "classified OP instr t"
proof -
  obtain rd where "dst_reg instr 0 = Some rd" using assms by (auto simp: classifier_defs bind_eq_Some_conv)
  then show ?thesis using assms by (auto simp: classifier_defs split: if_splits)
qed

lemma classified_indirect:
  assumes "instr_get_opcode instr = Some opc" "i_opcode instr = opc"
    and "\<not> op_is OP cbr_ops opc" "\<not> op_is OP [''jal'', ''c_jal'', ''c_j''] opc"
    "op_is OP [''jalr'', ''c_jr'', ''c_jalr''] opc" "\<not> op_is OP [''jal'', ''c_j''] opc"
    and k: "op_is OP [''jal'', ''jalr'', ''c_jal'', ''c_jalr''] opc \<or> op_is OP [''c_j'', ''c_jr''] opc"
    "op_is OP [''c_jr'', ''jalr''] opc \<or> op_is OP [''c_jal'', ''c_jalr''] opc"
    and ty: "instr_branch_type OP instr = Some t" and "compressed_dst_ok OP instr"
  shows "classified OP instr t"
proof -
  obtain rd where rd: "dst_reg instr 0 = Some rd" using assms by (auto simp: classifier_defs bind_eq_Some_conv)
  show ?thesis
  proof (cases "rd = DR_REG_ZERO")
    case False
    then show ?thesis using assms rd by (auto simp: classifier_defs)
  next
    case True
    then have ret: "op_is OP [''c_jr'', ''jalr''] opc" using assms rd by (auto simp: compressed_dst_ok_def)
    have "instr_branch_type OP instr = do {
        r \<leftarrow> instr_is_return OP instr;
        Some (if r then LINK_INDIRECT OR LINK_RETURN else LINK_INDIRECT OR LINK_JMP) }"
      using assms(1-5) rd True ret
      by (simp add: instr_branch_type_def instr_is_return_def and_then_def bind_assoc)
    then obtain r where r: "instr_is_return OP instr = Some r"
      "t = (if r then LINK_INDIRECT OR LINK_RETURN else LINK_INDIRECT OR LINK_JMP)"
      using ty by (cases "instr_is_return OP instr") auto
    have "instr_is_call_arch OP instr = Some False" "instr_is_mbr_arch OP instr = Some True"
      "instr_is_cbr_arch OP instr = Some False" "instr_is_ubr_arch OP instr = Some False"
      using assms rd True by (auto simp: instr_is_call_arch_def instr_is_mbr_arch_def and_then_def
          instr_is_cbr_arch_def instr_is_ubr_arch_def)
    then show ?thesis using r by (simp add: classified_def instr_is_cti_def or_else_def TESTANY_def)
  qed
qed

text \<open>The link flags of \<^verbatim>\<open>instr_branch_type\<close> agree with the predicates: the instruction is a control
transfer, it is a call iff \<^verbatim>\<open>LINK_CALL\<close> is set, an indirect branch iff \<^verbatim>\<open>LINK_INDIRECT\<close> is set, and a
return iff \<^verbatim>\<open>LINK_RETURN\<close> is set.\<close>

theorem branch_type_classifies:
  assumes wf: "op_wf OP"
    and ty: "instr_branch_type OP instr = Some t" and dst: "compressed_dst_ok OP instr"
  shows "instr_is_cti OP instr = Some True \<and>
    instr_is_call_arch OP instr = Some (TESTANY LINK_CALL t) \<and>
    instr_is_mbr_arch OP instr = Some (TESTANY LINK_INDIRECT t) \<and>
    instr_is_return OP instr = Some (TESTANY LINK_RETURN t)"
proof -
  obtain n where n: "n \<in> set cti_ops" and opc: "i_opcode instr = OP n"
    using ty by (auto simp: instr_branch_type_def op_is_def bind_eq_Some_conv instr_get_opcode_def
        cti_ops_def cbr_ops_def split: if_splits)
  note get = get_opcode_OP [OF wf n opc] and ops = op_classes [OF wf n]
  consider "n \<in> set cbr_ops" | "n \<in> {''jal'', ''c_jal'', ''c_j''}" | "n \<in> {''jalr'', ''c_jr'', ''c_jalr''}"
    using n unfolding cti_ops_def set_append Un_iff list.simps by blast
  then have "classified OP instr t"
  proof cases
    case 1
    show ?thesis by (rule classified_cbr [OF get _ _ _ _ _ ty]; unfold ops; use 1 in \<open>auto simp: cbr_ops_def\<close>)
  next
    case 2
    show ?thesis
      by (rule classified_direct [OF get opc _ _ _ _ _ _ ty dst]; unfold ops; use 2 in \<open>auto simp: cbr_ops_def\<close>)
  next
    case 3
    show ?thesis
      by (rule classified_indirect [OF get opc _ _ _ _ _ _ ty dst]; unfold ops; use 3 in \<open>auto simp: cbr_ops_def\<close>)
  qed
  then show ?thesis by (simp add: classified_def)
qed

end
