(* ===== verification/RvEncode.thy ===== *)
theory RvEncode
  imports RvInstr
begin

text \<open>
  The operand encoders of the RISC-V codec (\<^verbatim>\<open>core/ir/riscv64/codec.c\<close>), one definition per
  \<^verbatim>\<open>encode_*_opnd\<close> function, and the dispatch table \<^verbatim>\<open>opnd_encoders\<close>. An encoder takes the
  instruction object, the final address, the operand position, the word built so far and the
  \<^verbatim>\<open>decode_info_t\<close>; it returns the success flag and the word with its field or-ed in.
\<close>

unbundle bit_operations_syntax

text \<open>
  Besides \<^verbatim>\<open>check_reachable\<close> the record carries what the encoders read from elsewhere: the
  opcode numbering and the \<^verbatim>\<open>offset\<close> of an instruction that a target operand points to.
\<close>

record decode_info_t =
  di_check_reachable :: bool
  di_OP :: op_enum
  di_offset :: "instr_ref \<Rightarrow> u64"

type_synonym opnd_enc_func_t =
  "instr_t \<Rightarrow> u64 \<Rightarrow> nat \<Rightarrow> u32 \<Rightarrow> decode_info_t \<Rightarrow> (bool \<times> u32) option"

text \<open>The offset that the branch and jump encoders compute from a target operand.\<close>

definition pc_or_instr_offset :: "decode_info_t \<Rightarrow> instr_t \<Rightarrow> u64 \<Rightarrow> opnd_t \<Rightarrow> u32 option" where
  "pc_or_instr_offset di instr pc opnd =
     (case opnd of
        PC_kind target \<Rightarrow> Some (ucast (target - pc))
      | INSTR_kind _ _ r \<Rightarrow> Some (ucast (di_offset di r - i_offset instr))
      | _ \<Rightarrow> None)"

definition encode_none_opnd :: opnd_enc_func_t where [codec_defs]:
  "encode_none_opnd instr pc idx out di = None"

definition encode_implicit_opnd :: opnd_enc_func_t where [codec_defs]:
  "encode_implicit_opnd instr pc idx out di =
     do {
       Some (True, out)
     }"

definition encode_rd_opnd :: opnd_enc_func_t where [codec_defs]:
  "encode_rd_opnd instr pc idx out di =
     do {
       opnd \<leftarrow> instr_get_dst instr idx;
       r \<leftarrow> opnd_get_reg opnd;
       let rd = ((ucast r :: u32) - DR_REG_X0);
       let out = or_assign_u32 out (SET_FIELD (ucast rd) 11 7);
       Some (True, out)
     }"

definition encode_rdfp_opnd :: opnd_enc_func_t where [codec_defs]:
  "encode_rdfp_opnd instr pc idx out di =
     do {
       opnd \<leftarrow> instr_get_dst instr idx;
       r \<leftarrow> opnd_get_reg opnd;
       ASSERT (r \<ge> DR_REG_F0);
       r \<leftarrow> opnd_get_reg opnd;
       let rd = ((ucast r :: u32) - DR_REG_F0);
       let out = or_assign_u32 out (SET_FIELD (ucast rd) 11 7);
       Some (True, out)
     }"

definition encode_vd_opnd :: opnd_enc_func_t where [codec_defs]:
  "encode_vd_opnd instr pc idx out di =
     do {
       opnd \<leftarrow> instr_get_dst instr idx;
       r \<leftarrow> opnd_get_reg opnd;
       let reg = ((ucast r :: u32) - DR_REG_VR0);
       let out = or_assign_u32 out (SET_FIELD (ucast reg) 11 7);
       Some (True, out)
     }"

definition encode_rs1_opnd :: opnd_enc_func_t where [codec_defs]:
  "encode_rs1_opnd instr pc idx out di =
     do {
       opnd \<leftarrow> instr_get_src instr idx;
       r \<leftarrow> opnd_get_reg opnd;
       let rd = ((ucast r :: u32) - DR_REG_X0);
       let out = or_assign_u32 out (SET_FIELD (ucast rd) 19 15);
       Some (True, out)
     }"

definition encode_rs1fp_opnd :: opnd_enc_func_t where [codec_defs]:
  "encode_rs1fp_opnd instr pc idx out di =
     do {
       opnd \<leftarrow> instr_get_src instr idx;
       r \<leftarrow> opnd_get_reg opnd;
       ASSERT (r \<ge> DR_REG_F0);
       r \<leftarrow> opnd_get_reg opnd;
       let rd = ((ucast r :: u32) - DR_REG_F0);
       let out = or_assign_u32 out (SET_FIELD (ucast rd) 19 15);
       Some (True, out)
     }"

definition encode_vs1_opnd :: opnd_enc_func_t where [codec_defs]:
  "encode_vs1_opnd instr pc idx out di =
     do {
       opnd \<leftarrow> instr_get_src instr idx;
       r \<leftarrow> opnd_get_reg opnd;
       let reg = ((ucast r :: u32) - DR_REG_VR0);
       let out = or_assign_u32 out (SET_FIELD (ucast reg) 19 15);
       Some (True, out)
     }"

definition encode_base_opnd :: opnd_enc_func_t where [codec_defs]:
  "encode_base_opnd instr pc idx out di =
     do {
       opnd \<leftarrow> instr_get_src instr idx;
       r \<leftarrow> opnd_get_base opnd;
       let rd = ((ucast r :: u32) - DR_REG_X0);
       let out = or_assign_u32 out (SET_FIELD (ucast rd) 19 15);
       Some (True, out)
     }"

definition encode_rs2_opnd :: opnd_enc_func_t where [codec_defs]:
  "encode_rs2_opnd instr pc idx out di =
     do {
       opnd \<leftarrow> instr_get_src instr idx;
       r \<leftarrow> opnd_get_reg opnd;
       let rd = ((ucast r :: u32) - DR_REG_X0);
       let out = or_assign_u32 out (SET_FIELD (ucast rd) 24 20);
       Some (True, out)
     }"

definition encode_rs2fp_opnd :: opnd_enc_func_t where [codec_defs]:
  "encode_rs2fp_opnd instr pc idx out di =
     do {
       opnd \<leftarrow> instr_get_src instr idx;
       r \<leftarrow> opnd_get_reg opnd;
       ASSERT (r \<ge> DR_REG_F0);
       r \<leftarrow> opnd_get_reg opnd;
       let rd = ((ucast r :: u32) - DR_REG_F0);
       let out = or_assign_u32 out (SET_FIELD (ucast rd) 24 20);
       Some (True, out)
     }"

definition encode_vs2_opnd :: opnd_enc_func_t where [codec_defs]:
  "encode_vs2_opnd instr pc idx out di =
     do {
       opnd \<leftarrow> instr_get_src instr idx;
       r \<leftarrow> opnd_get_reg opnd;
       let reg = ((ucast r :: u32) - DR_REG_VR0);
       let out = or_assign_u32 out (SET_FIELD (ucast reg) 24 20);
       Some (True, out)
     }"

definition encode_rs3fp_opnd :: opnd_enc_func_t where [codec_defs]:
  "encode_rs3fp_opnd instr pc idx out di =
     do {
       opnd \<leftarrow> instr_get_src instr idx;
       r \<leftarrow> opnd_get_reg opnd;
       let rd = ((ucast r :: u32) - DR_REG_F0);
       let out = or_assign_u32 out (SET_FIELD (ucast rd) 31 27);
       Some (True, out)
     }"

definition encode_vs3_opnd :: opnd_enc_func_t where [codec_defs]:
  "encode_vs3_opnd instr pc idx out di =
     do {
       opnd \<leftarrow> instr_get_src instr idx;
       r \<leftarrow> opnd_get_reg opnd;
       let reg = ((ucast r :: u32) - DR_REG_VR0);
       let out = or_assign_u32 out (SET_FIELD (ucast reg) 11 7);
       Some (True, out)
     }"

definition encode_fm_opnd :: opnd_enc_func_t where [codec_defs]:
  "encode_fm_opnd instr pc idx out di =
     do {
       opnd \<leftarrow> instr_get_src instr idx;
       i \<leftarrow> opnd_get_immed_int opnd;
       let imm = (ucast i :: u32);
       let out = or_assign_u32 out (SET_FIELD (scast imm) 31 28);
       Some (True, out)
     }"

definition encode_pred_opnd :: opnd_enc_func_t where [codec_defs]:
  "encode_pred_opnd instr pc idx out di =
     do {
       opnd \<leftarrow> instr_get_src instr idx;
       i \<leftarrow> opnd_get_immed_int opnd;
       let imm = (ucast i :: u32);
       let out = or_assign_u32 out (SET_FIELD (scast imm) 27 24);
       Some (True, out)
     }"

definition encode_succ_opnd :: opnd_enc_func_t where [codec_defs]:
  "encode_succ_opnd instr pc idx out di =
     do {
       opnd \<leftarrow> instr_get_src instr idx;
       i \<leftarrow> opnd_get_immed_int opnd;
       let imm = (ucast i :: u32);
       let out = or_assign_u32 out (SET_FIELD (scast imm) 23 20);
       Some (True, out)
     }"

definition encode_aqrl_opnd :: opnd_enc_func_t where [codec_defs]:
  "encode_aqrl_opnd instr pc idx out di =
     do {
       opnd \<leftarrow> instr_get_src instr idx;
       i \<leftarrow> opnd_get_immed_int opnd;
       let imm = (ucast i :: u32);
       let out = or_assign_u32 out (SET_FIELD (scast imm) 26 25);
       Some (True, out)
     }"

definition encode_csr_opnd :: opnd_enc_func_t where [codec_defs]:
  "encode_csr_opnd instr pc idx out di =
     do {
       opnd \<leftarrow> instr_get_src instr idx;
       i \<leftarrow> opnd_get_immed_int opnd;
       let imm = (ucast i :: u32);
       let out = or_assign_u32 out (SET_FIELD (scast imm) 31 20);
       Some (True, out)
     }"

definition encode_rm_opnd :: opnd_enc_func_t where [codec_defs]:
  "encode_rm_opnd instr pc idx out di =
     do {
       opnd \<leftarrow> instr_get_src instr idx;
       i \<leftarrow> opnd_get_immed_int opnd;
       let imm = (ucast i :: u32);
       ASSERT (imm \<noteq> 0b101 \<and> imm \<noteq> 0b110);
       let out = or_assign_u32 out (SET_FIELD (scast imm) 14 12);
       Some (True, out)
     }"

definition encode_shamt_opnd :: opnd_enc_func_t where [codec_defs]:
  "encode_shamt_opnd instr pc idx out di =
     do {
       opnd \<leftarrow> instr_get_src instr idx;
       i \<leftarrow> opnd_get_immed_int opnd;
       let imm = (ucast i :: u32);
       let out = or_assign_u32 out (SET_FIELD (scast imm) 25 20);
       Some (True, out)
     }"

definition encode_shamt5_opnd :: opnd_enc_func_t where [codec_defs]:
  "encode_shamt5_opnd instr pc idx out di =
     do {
       opnd \<leftarrow> instr_get_src instr idx;
       i \<leftarrow> opnd_get_immed_int opnd;
       let imm = (ucast i :: u32);
       let out = or_assign_u32 out (SET_FIELD (scast imm) 24 20);
       Some (True, out)
     }"

definition encode_shamt6_opnd :: opnd_enc_func_t where [codec_defs]:
  "encode_shamt6_opnd instr pc idx out di =
     do {
       opnd \<leftarrow> instr_get_src instr idx;
       i \<leftarrow> opnd_get_immed_int opnd;
       let imm = (ucast i :: u32);
       let out = or_assign_u32 out (SET_FIELD (scast imm) 26 20);
       Some (True, out)
     }"

definition encode_i_imm_opnd :: opnd_enc_func_t where [codec_defs]:
  "encode_i_imm_opnd instr pc idx out di =
     do {
       opnd \<leftarrow> instr_get_src instr idx;
       i \<leftarrow> opnd_get_immed_int opnd;
       let imm = (ucast i :: u32);
       let out = or_assign_u32 out (SET_FIELD (scast imm) 31 20);
       Some (True, out)
     }"

definition encode_s_imm_opnd :: opnd_enc_func_t where [codec_defs]:
  "encode_s_imm_opnd instr pc idx out di =
     do {
       opnd \<leftarrow> instr_get_src instr idx;
       i \<leftarrow> opnd_get_immed_int opnd;
       let imm = (ucast i :: u32);
       let out = or_assign_u32 out (SET_FIELD (scast (sar imm 5)) 31 25 OR
         SET_FIELD (scast imm) 11 7);
       Some (True, out)
     }"

definition encode_b_imm_opnd :: opnd_enc_func_t where [codec_defs]:
  "encode_b_imm_opnd instr pc idx out di =
     do {
       opnd \<leftarrow> instr_get_target (di_OP di) instr;
       case pc_or_instr_offset di instr pc opnd of
         None \<Rightarrow> Some (False, out)
       | Some imm \<Rightarrow>
           do {
             let out = or_assign_u32 out (SET_FIELD (scast (sar imm 11)) 7 7 OR
               SET_FIELD (scast (sar imm 1)) 11 8 OR SET_FIELD (scast (sar imm 5)) 30 25 OR
               SET_FIELD (scast (sar imm 12)) 31 31);
             Some (True, out)
           }
     }"

definition encode_u_imm_opnd :: opnd_enc_func_t where [codec_defs]:
  "encode_u_imm_opnd instr pc idx out di =
     do {
       opnd \<leftarrow> instr_get_src instr idx;
       i \<leftarrow> opnd_get_immed_int opnd;
       let imm = (ucast i :: u32);
       let out = or_assign_u32 out (SET_FIELD (ucast imm) 31 12);
       Some (True, out)
     }"

definition encode_u_immpc_opnd :: opnd_enc_func_t where [codec_defs]:
  "encode_u_immpc_opnd instr pc idx out di =
     do {
       opnd \<leftarrow> instr_get_src instr idx;
       case (case opnd of
           REL_ADDR_kind _ addr \<Rightarrow> Some (ucast (addr - pc) :: u32)
         | INSTR_kind _ _ r \<Rightarrow> Some (ucast (di_offset di r - i_offset instr))
         | _ \<Rightarrow> None) of
         None \<Rightarrow> Some (False, out)
       | Some imm \<Rightarrow>
           if \<not> di_check_reachable di \<or> shl (shr imm 12) 12 = imm
           then Some (True, or_assign_u32 out (SET_FIELD (ucast (shr imm 12)) 31 12))
           else Some (False, out)
     }"

definition encode_j_imm_opnd :: opnd_enc_func_t where [codec_defs]:
  "encode_j_imm_opnd instr pc idx out di =
     do {
       opnd \<leftarrow> instr_get_target (di_OP di) instr;
       case pc_or_instr_offset di instr pc opnd of
         None \<Rightarrow> Some (False, out)
       | Some imm \<Rightarrow>
           do {
             let out = or_assign_u32 out (SET_FIELD (scast (sar imm 1)) 31 21 OR
               SET_FIELD (scast (sar imm 11)) 20 20 OR SET_FIELD (scast (sar imm 12)) 19 12 OR
               SET_FIELD (scast (sar imm 20)) 31 31);
             Some (True, out)
           }
     }"

definition encode_crd_opnd :: opnd_enc_func_t where [codec_defs]:
  "encode_crd_opnd instr pc idx out di =
     do {
       opnd \<leftarrow> instr_get_dst instr idx;
       r \<leftarrow> opnd_get_reg opnd;
       let rd = ((ucast r :: u32) - DR_REG_X0);
       let out = or_assign_u32 out (SET_FIELD (ucast rd) 11 7);
       Some (True, out)
     }"

definition encode_crdfp_opnd :: opnd_enc_func_t where [codec_defs]:
  "encode_crdfp_opnd instr pc idx out di =
     do {
       opnd \<leftarrow> instr_get_dst instr idx;
       r \<leftarrow> opnd_get_reg opnd;
       let rd = ((ucast r :: u32) - DR_REG_F0);
       let out = or_assign_u32 out (SET_FIELD (ucast rd) 11 7);
       Some (True, out)
     }"

definition encode_crs1_opnd :: opnd_enc_func_t where [codec_defs]:
  "encode_crs1_opnd instr pc idx out di =
     do {
       opnd \<leftarrow> instr_get_src instr idx;
       r \<leftarrow> opnd_get_reg opnd;
       let rd = ((ucast r :: u32) - DR_REG_X0);
       let out = or_assign_u32 out (SET_FIELD (ucast rd) 11 7);
       Some (True, out)
     }"

definition encode_crs2_opnd :: opnd_enc_func_t where [codec_defs]:
  "encode_crs2_opnd instr pc idx out di =
     do {
       opnd \<leftarrow> instr_get_src instr idx;
       r \<leftarrow> opnd_get_reg opnd;
       let rd = ((ucast r :: u32) - DR_REG_X0);
       let out = or_assign_u32 out (SET_FIELD (ucast rd) 6 2);
       Some (True, out)
     }"

definition encode_crs2fp_opnd :: opnd_enc_func_t where [codec_defs]:
  "encode_crs2fp_opnd instr pc idx out di =
     do {
       opnd \<leftarrow> instr_get_src instr idx;
       r \<leftarrow> opnd_get_reg opnd;
       let rd = ((ucast r :: u32) - DR_REG_F0);
       let out = or_assign_u32 out (SET_FIELD (ucast rd) 6 2);
       Some (True, out)
     }"

definition encode_crd__opnd :: opnd_enc_func_t where [codec_defs]:
  "encode_crd__opnd instr pc idx out di =
     do {
       opnd \<leftarrow> instr_get_dst instr idx;
       r \<leftarrow> opnd_get_reg opnd;
       let rd = ((ucast r :: u32) - DR_REG_X8);
       let out = or_assign_u32 out (SET_FIELD (ucast rd) 4 2);
       Some (True, out)
     }"

definition encode_crd_fp_opnd :: opnd_enc_func_t where [codec_defs]:
  "encode_crd_fp_opnd instr pc idx out di =
     do {
       opnd \<leftarrow> instr_get_dst instr idx;
       r \<leftarrow> opnd_get_reg opnd;
       let rd = ((ucast r :: u32) - DR_REG_F8);
       let out = or_assign_u32 out (SET_FIELD (ucast rd) 4 2);
       Some (True, out)
     }"

definition encode_crs1__opnd :: opnd_enc_func_t where [codec_defs]:
  "encode_crs1__opnd instr pc idx out di =
     do {
       opnd \<leftarrow> instr_get_src instr idx;
       r \<leftarrow> opnd_get_reg opnd;
       let rd = ((ucast r :: u32) - DR_REG_X8);
       let out = or_assign_u32 out (SET_FIELD (ucast rd) 9 7);
       Some (True, out)
     }"

definition encode_crs2__opnd :: opnd_enc_func_t where [codec_defs]:
  "encode_crs2__opnd instr pc idx out di =
     do {
       opnd \<leftarrow> instr_get_src instr idx;
       r \<leftarrow> opnd_get_reg opnd;
       let rd = ((ucast r :: u32) - DR_REG_X8);
       let out = or_assign_u32 out (SET_FIELD (ucast rd) 4 2);
       Some (True, out)
     }"

definition encode_crs2_fp_opnd :: opnd_enc_func_t where [codec_defs]:
  "encode_crs2_fp_opnd instr pc idx out di =
     do {
       opnd \<leftarrow> instr_get_src instr idx;
       r \<leftarrow> opnd_get_reg opnd;
       let rd = ((ucast r :: u32) - DR_REG_F8);
       let out = or_assign_u32 out (SET_FIELD (ucast rd) 4 2);
       Some (True, out)
     }"

definition encode_crd___opnd :: opnd_enc_func_t where [codec_defs]:
  "encode_crd___opnd instr pc idx out di =
     do {
       opnd \<leftarrow> instr_get_dst instr idx;
       r \<leftarrow> opnd_get_reg opnd;
       let rd = ((ucast r :: u32) - DR_REG_X8);
       let out = or_assign_u32 out (SET_FIELD (ucast rd) 9 7);
       Some (True, out)
     }"

definition encode_cshamt_opnd :: opnd_enc_func_t where [codec_defs]:
  "encode_cshamt_opnd instr pc idx out di =
     do {
       opnd \<leftarrow> instr_get_src instr idx;
       i \<leftarrow> opnd_get_immed_int opnd;
       let imm = (ucast i :: u32);
       let out = or_assign_u32 out (SET_FIELD (scast imm) 6 2 OR
         SET_FIELD (scast (sar imm 5)) 12 12);
       Some (True, out)
     }"

definition encode_csr_imm_opnd :: opnd_enc_func_t where [codec_defs]:
  "encode_csr_imm_opnd instr pc idx out di =
     do {
       opnd \<leftarrow> instr_get_src instr idx;
       i \<leftarrow> opnd_get_immed_int opnd;
       let imm = (ucast i :: u32);
       let out = or_assign_u32 out (SET_FIELD (scast imm) 19 15);
       Some (True, out)
     }"

definition encode_caddi16sp_imm_opnd :: opnd_enc_func_t where [codec_defs]:
  "encode_caddi16sp_imm_opnd instr pc idx out di =
     do {
       opnd \<leftarrow> instr_get_src instr idx;
       i \<leftarrow> opnd_get_immed_int opnd;
       let imm = (ucast i :: u32);
       let out = or_assign_u32 out (SET_FIELD (scast (sar imm 5)) 2 2 OR
         SET_FIELD (scast (sar imm 7)) 4 3 OR SET_FIELD (scast (sar imm 6)) 5 5 OR
         SET_FIELD (scast (sar imm 4)) 6 6 OR SET_FIELD (scast (sar imm 9)) 12 12);
       Some (True, out)
     }"

definition encode_clwsp_imm_opnd :: opnd_enc_func_t where [codec_defs]:
  "encode_clwsp_imm_opnd instr pc idx out di =
     do {
       opnd \<leftarrow> instr_get_src instr idx;
       imm \<leftarrow> opnd_get_disp opnd;
       b \<leftarrow> opnd_get_base opnd;
       ASSERT (b = DR_REG_SP);
       let out = or_assign_u32 out (SET_FIELD (scast (sar imm 6)) 3 2 OR
         SET_FIELD (scast (sar imm 2)) 6 4 OR SET_FIELD (scast (sar imm 5)) 12 12);
       Some (True, out)
     }"

definition encode_cldsp_imm_opnd :: opnd_enc_func_t where [codec_defs]:
  "encode_cldsp_imm_opnd instr pc idx out di =
     do {
       opnd \<leftarrow> instr_get_src instr idx;
       imm \<leftarrow> opnd_get_disp opnd;
       b \<leftarrow> opnd_get_base opnd;
       ASSERT (b = DR_REG_SP);
       let out = or_assign_u32 out (SET_FIELD (scast (sar imm 6)) 4 2 OR
         SET_FIELD (scast (sar imm 3)) 6 5 OR SET_FIELD (scast (sar imm 5)) 12 12);
       Some (True, out)
     }"

definition encode_clui_imm_opnd :: opnd_enc_func_t where [codec_defs]:
  "encode_clui_imm_opnd instr pc idx out di =
     do {
       opnd \<leftarrow> instr_get_src instr idx;
       i \<leftarrow> opnd_get_immed_int opnd;
       let imm = (ucast i :: u32);
       let out = or_assign_u32 out (SET_FIELD (scast imm) 6 2 OR
         SET_FIELD (scast (sar imm 5)) 12 12);
       Some (True, out)
     }"

definition encode_cswsp_imm_opnd :: opnd_enc_func_t where [codec_defs]:
  "encode_cswsp_imm_opnd instr pc idx out di =
     do {
       opnd \<leftarrow> instr_get_dst instr idx;
       imm \<leftarrow> opnd_get_disp opnd;
       b \<leftarrow> opnd_get_base opnd;
       ASSERT (b = DR_REG_SP);
       let out = or_assign_u32 out (SET_FIELD (scast (sar imm 6)) 8 7 OR
         SET_FIELD (scast (sar imm 2)) 12 9);
       Some (True, out)
     }"

definition encode_csdsp_imm_opnd :: opnd_enc_func_t where [codec_defs]:
  "encode_csdsp_imm_opnd instr pc idx out di =
     do {
       opnd \<leftarrow> instr_get_dst instr idx;
       imm \<leftarrow> opnd_get_disp opnd;
       b \<leftarrow> opnd_get_base opnd;
       ASSERT (b = DR_REG_SP);
       let out = or_assign_u32 out (SET_FIELD (scast (sar imm 6)) 9 7 OR
         SET_FIELD (scast (sar imm 3)) 12 10);
       Some (True, out)
     }"

definition encode_ciw_imm_opnd :: opnd_enc_func_t where [codec_defs]:
  "encode_ciw_imm_opnd instr pc idx out di =
     do {
       opnd \<leftarrow> instr_get_src instr idx;
       i \<leftarrow> opnd_get_immed_int opnd;
       let imm = (ucast i :: u32);
       let out = or_assign_u32 out (SET_FIELD (scast (sar imm 3)) 5 5 OR
         SET_FIELD (scast (sar imm 2)) 6 6 OR SET_FIELD (scast (sar imm 6)) 10 7 OR
         SET_FIELD (scast (sar imm 4)) 12 11);
       Some (True, out)
     }"

definition encode_clw_imm_opnd :: opnd_enc_func_t where [codec_defs]:
  "encode_clw_imm_opnd instr pc idx out di =
     do {
       opnd \<leftarrow> instr_get_src instr idx;
       r \<leftarrow> opnd_get_base opnd;
       let reg = ((ucast r :: u32) - DR_REG_X8);
       let out = or_assign_u32 out (SET_FIELD (ucast reg) 9 7);
       imm \<leftarrow> opnd_get_disp opnd;
       let out = or_assign_u32 out (SET_FIELD (scast (sar imm 6)) 5 5 OR
         SET_FIELD (scast (sar imm 2)) 6 6 OR SET_FIELD (scast (sar imm 3)) 12 10);
       Some (True, out)
     }"

definition encode_cld_imm_opnd :: opnd_enc_func_t where [codec_defs]:
  "encode_cld_imm_opnd instr pc idx out di =
     do {
       opnd \<leftarrow> instr_get_src instr idx;
       r \<leftarrow> opnd_get_base opnd;
       let reg = ((ucast r :: u32) - DR_REG_X8);
       let out = or_assign_u32 out (SET_FIELD (ucast reg) 9 7);
       imm \<leftarrow> opnd_get_disp opnd;
       let out = or_assign_u32 out (SET_FIELD (scast (sar imm 6)) 6 5 OR
         SET_FIELD (scast (sar imm 3)) 12 10);
       Some (True, out)
     }"

definition encode_csw_imm_opnd :: opnd_enc_func_t where [codec_defs]:
  "encode_csw_imm_opnd instr pc idx out di =
     do {
       opnd \<leftarrow> instr_get_dst instr idx;
       r \<leftarrow> opnd_get_base opnd;
       let reg = ((ucast r :: u32) - DR_REG_X8);
       let out = or_assign_u32 out (SET_FIELD (ucast reg) 9 7);
       imm \<leftarrow> opnd_get_disp opnd;
       let out = or_assign_u32 out (SET_FIELD (scast (sar imm 6)) 5 5 OR
         SET_FIELD (scast (sar imm 2)) 6 6 OR SET_FIELD (scast (sar imm 3)) 12 10);
       Some (True, out)
     }"

definition encode_csd_imm_opnd :: opnd_enc_func_t where [codec_defs]:
  "encode_csd_imm_opnd instr pc idx out di =
     do {
       opnd \<leftarrow> instr_get_dst instr idx;
       r \<leftarrow> opnd_get_base opnd;
       let reg = ((ucast r :: u32) - DR_REG_X8);
       let out = or_assign_u32 out (SET_FIELD (ucast reg) 9 7);
       imm \<leftarrow> opnd_get_disp opnd;
       let out = or_assign_u32 out (SET_FIELD (scast (sar imm 6)) 6 5 OR
         SET_FIELD (scast (sar imm 3)) 12 10);
       Some (True, out)
     }"

definition encode_cimm5_opnd :: opnd_enc_func_t where [codec_defs]:
  "encode_cimm5_opnd instr pc idx out di =
     do {
       opnd \<leftarrow> instr_get_src instr idx;
       i \<leftarrow> opnd_get_immed_int opnd;
       let imm = (ucast i :: u32);
       let out = or_assign_u32 out (SET_FIELD (scast imm) 6 2 OR
         SET_FIELD (scast (sar imm 5)) 12 12);
       Some (True, out)
     }"

definition encode_cb_imm_opnd :: opnd_enc_func_t where [codec_defs]:
  "encode_cb_imm_opnd instr pc idx out di =
     do {
       opnd \<leftarrow> instr_get_target (di_OP di) instr;
       case pc_or_instr_offset di instr pc opnd of
         None \<Rightarrow> Some (False, out)
       | Some imm \<Rightarrow>
           do {
             let out = or_assign_u32 out (SET_FIELD (scast (sar imm 5)) 2 2 OR
               SET_FIELD (scast (sar imm 1)) 4 3 OR SET_FIELD (scast (sar imm 6)) 6 5 OR
               SET_FIELD (scast (sar imm 3)) 11 10 OR SET_FIELD (scast (sar imm 8)) 12 12);
             Some (True, out)
           }
     }"

definition encode_cj_imm_opnd :: opnd_enc_func_t where [codec_defs]:
  "encode_cj_imm_opnd instr pc idx out di =
     do {
       opnd \<leftarrow> instr_get_target (di_OP di) instr;
       case pc_or_instr_offset di instr pc opnd of
         None \<Rightarrow> Some (False, out)
       | Some imm \<Rightarrow>
           do {
             let out = or_assign_u32 out (SET_FIELD (scast (sar imm 5)) 2 2 OR
               SET_FIELD (scast (sar imm 1)) 5 3 OR SET_FIELD (scast (sar imm 7)) 6 6 OR
               SET_FIELD (scast (sar imm 6)) 7 7 OR SET_FIELD (scast (sar imm 10)) 8 8 OR
               SET_FIELD (scast (sar imm 8)) 10 9 OR SET_FIELD (scast (sar imm 4)) 11 11 OR
               SET_FIELD (scast (sar imm 11)) 12 12);
             Some (True, out)
           }
     }"

definition encode_v_l_rs1_disp_opnd :: opnd_enc_func_t where [codec_defs]:
  "encode_v_l_rs1_disp_opnd instr pc idx out di =
     do {
       opnd \<leftarrow> instr_get_src instr idx;
       r \<leftarrow> opnd_get_base opnd;
       let reg = ((ucast r :: u32) - DR_REG_X0);
       let out = or_assign_u32 out (SET_FIELD (ucast reg) 19 15);
       if i_opcode instr \<noteq> di_OP di ''lr_w'' \<and> i_opcode instr \<noteq> di_OP di ''lr_d'' then
         do {
           imm \<leftarrow> opnd_get_disp opnd;
           Some (True, or_assign_u32 out (SET_FIELD (scast imm) 31 20))
         }
       else Some (True, out)
     }"

definition encode_v_s_rs1_disp_opnd :: opnd_enc_func_t where [codec_defs]:
  "encode_v_s_rs1_disp_opnd instr pc idx out di =
     do {
       opnd \<leftarrow> instr_get_dst instr idx;
       r \<leftarrow> opnd_get_base opnd;
       let reg = ((ucast r :: u32) - DR_REG_X0);
       let out = or_assign_u32 out (SET_FIELD (ucast reg) 19 15);
       if i_opcode instr \<noteq> di_OP di ''sc_w'' \<and> i_opcode instr \<noteq> di_OP di ''sc_d'' then
         do {
           imm \<leftarrow> opnd_get_disp opnd;
           Some (True, or_assign_u32 out
             (SET_FIELD (scast imm) 11 7 OR SET_FIELD (scast (sar imm 5)) 31 25))
         }
       else Some (True, out)
     }"

definition encode_zimm_opnd :: opnd_enc_func_t where [codec_defs]:
  "encode_zimm_opnd instr pc idx out di =
     do {
       opnd \<leftarrow> instr_get_src instr idx;
       i \<leftarrow> opnd_get_immed_int opnd;
       let imm = (ucast i :: u32);
       let out = or_assign_u32 out (SET_FIELD (ucast imm) 19 15);
       Some (True, out)
     }"

definition encode_zimm10_opnd :: opnd_enc_func_t where [codec_defs]:
  "encode_zimm10_opnd instr pc idx out di =
     do {
       opnd \<leftarrow> instr_get_src instr idx;
       i \<leftarrow> opnd_get_immed_int opnd;
       let imm = (ucast i :: u32);
       let out = or_assign_u32 out (SET_FIELD (ucast imm) 29 20);
       Some (True, out)
     }"

definition encode_zimm11_opnd :: opnd_enc_func_t where [codec_defs]:
  "encode_zimm11_opnd instr pc idx out di =
     do {
       opnd \<leftarrow> instr_get_src instr idx;
       i \<leftarrow> opnd_get_immed_int opnd;
       let imm = (ucast i :: u32);
       let out = or_assign_u32 out (SET_FIELD (ucast imm) 30 20);
       Some (True, out)
     }"

definition encode_vm_opnd :: opnd_enc_func_t where [codec_defs]:
  "encode_vm_opnd instr pc idx out di =
     do {
       opnd \<leftarrow> instr_get_src instr idx;
       i \<leftarrow> opnd_get_immed_int opnd;
       let imm = (ucast i :: u32);
       let out = or_assign_u32 out (SET_FIELD (ucast imm) 25 25);
       Some (True, out)
     }"

definition encode_nf_opnd :: opnd_enc_func_t where [codec_defs]:
  "encode_nf_opnd instr pc idx out di =
     do {
       opnd \<leftarrow> instr_get_src instr idx;
       i \<leftarrow> opnd_get_immed_int opnd;
       let imm = (ucast i :: u32);
       let out = or_assign_u32 out (SET_FIELD (ucast imm) 31 29);
       Some (True, out)
     }"

definition encode_simm5_opnd :: opnd_enc_func_t where [codec_defs]:
  "encode_simm5_opnd instr pc idx out di =
     do {
       opnd \<leftarrow> instr_get_src instr idx;
       i \<leftarrow> opnd_get_immed_int opnd;
       let imm = (ucast i :: u32);
       let out = or_assign_u32 out (SET_FIELD (scast imm) 19 15);
       Some (True, out)
     }"

text \<open>The dispatch table, in the order of the enumeration \<^verbatim>\<open>riscv64_fld_t\<close>.\<close>

definition opnd_encoders :: "opnd_enc_func_t list" where
  "opnd_encoders =
    [encode_none_opnd, encode_rd_opnd, encode_rdfp_opnd, encode_rs1_opnd, encode_rs1fp_opnd,
     encode_base_opnd, encode_rs2_opnd, encode_rs2fp_opnd, encode_rs3fp_opnd, encode_fm_opnd,
     encode_pred_opnd, encode_succ_opnd, encode_aqrl_opnd, encode_csr_opnd, encode_rm_opnd,
     encode_shamt_opnd, encode_shamt5_opnd, encode_shamt6_opnd, encode_i_imm_opnd,
     encode_s_imm_opnd, encode_b_imm_opnd, encode_u_imm_opnd, encode_u_immpc_opnd,
     encode_j_imm_opnd, encode_crd_opnd, encode_crdfp_opnd, encode_crs1_opnd, encode_crs2_opnd,
     encode_crs2fp_opnd, encode_crd__opnd, encode_crd_fp_opnd, encode_crs1__opnd,
     encode_crs2__opnd, encode_crs2_fp_opnd, encode_crd___opnd, encode_cshamt_opnd,
     encode_csr_imm_opnd, encode_caddi16sp_imm_opnd, encode_clwsp_imm_opnd,
     encode_cldsp_imm_opnd, encode_clui_imm_opnd, encode_cswsp_imm_opnd, encode_csdsp_imm_opnd,
     encode_ciw_imm_opnd, encode_clw_imm_opnd, encode_cld_imm_opnd, encode_csw_imm_opnd,
     encode_csd_imm_opnd, encode_cimm5_opnd, encode_cb_imm_opnd, encode_cj_imm_opnd,
     encode_v_l_rs1_disp_opnd, encode_v_s_rs1_disp_opnd, encode_implicit_opnd,
     encode_implicit_opnd, encode_implicit_opnd, encode_implicit_opnd, encode_implicit_opnd,
     encode_implicit_opnd, encode_implicit_opnd, encode_implicit_opnd, encode_implicit_opnd,
     encode_implicit_opnd, encode_zimm_opnd, encode_zimm10_opnd, encode_zimm11_opnd,
     encode_vm_opnd, encode_nf_opnd, encode_simm5_opnd, encode_vd_opnd, encode_vs1_opnd,
     encode_vs2_opnd, encode_vs3_opnd]"

end
