(* ===== verification/RvFields.thy ===== *)
theory RvFields
  imports RvDecode RvEncode
begin

text \<open>
  The contract between the operand decoders and encoders. For every operand field of
  \<^verbatim>\<open>riscv64_fld_t\<close> a specification says in which operand slot the field lives, which bits of the
  instruction word it stands for, and under which side condition the encoder writes exactly the
  bits that the decoder read. \<open>field_contract\<close> is proved for all fields of the two dispatch
  tables; the codec theory uses it through the locale \<open>operand_tables\<close>.
\<close>

unbundle bit_operations_syntax

subsection \<open>Field specifications\<close>

datatype fld_place = AtDst | AtSrc | AtTarget

fun place_slot :: "fld_place \<Rightarrow> nat \<Rightarrow> opnd_slot" where
  "place_slot AtDst idx = DST idx"
| "place_slot AtSrc idx = SRC idx"
| "place_slot AtTarget idx = SRC 0"

definition fmask :: "nat \<Rightarrow> nat \<Rightarrow> u32" where
  "fmask high low = ucast (SET_FIELD (- 1) high low)"

record fld_spec =
  fs_place :: fld_place
  fs_mask :: "u32 \<Rightarrow> u32"
  fs_side :: "op_enum \<Rightarrow> nat \<Rightarrow> u32 \<Rightarrow> bool"

definition plain :: "fld_place \<Rightarrow> u32 \<Rightarrow> fld_spec" where
  "plain place msk = \<lparr>fs_place = place, fs_mask = (\<lambda>_. msk), fs_side = (\<lambda>_ _ _. True)\<rparr>"

text \<open>
  The jump offset is re-encoded faithfully only when bit 11 of the offset implies its sign bit;
  see \<open>encode_j_imm_leak\<close> below. Loads and stores with a displacement share their field with the
  atomics and the vector accesses, which have none: the decoders tell them apart by the major
  opcode, the encoders by the opcode of the instruction object.
\<close>

definition j_imm_spec :: fld_spec where
  "j_imm_spec = \<lparr>fs_place = AtTarget, fs_mask = (\<lambda>_. fmask 31 12),
     fs_side = (\<lambda>_ _ inst. bit inst 20 \<longrightarrow> bit inst 31)\<rparr>"

definition is_lr_sc :: "u32 \<Rightarrow> bool" where
  "is_lr_sc inst \<longleftrightarrow> GET_FIELD inst 6 0 = 0b0101111"

definition is_vector_access :: "u64 \<Rightarrow> u32 \<Rightarrow> bool" where
  "is_vector_access major inst \<longleftrightarrow> GET_FIELD inst 6 0 = major \<and>
     (GET_FIELD inst 14 12 = 0 \<or> GET_FIELD inst 14 12 > 0b100)"

definition v_l_spec :: fld_spec where
  "v_l_spec = \<lparr>fs_place = AtSrc,
     fs_mask = (\<lambda>inst. if is_vector_access 0b0000111 inst \<or> is_lr_sc inst then fmask 19 15
       else fmask 19 15 OR fmask 31 20),
     fs_side = (\<lambda>OP opc inst. opc = OP ''lr_w'' \<or> opc = OP ''lr_d'' \<longrightarrow> is_lr_sc inst)\<rparr>"

definition v_s_spec :: fld_spec where
  "v_s_spec = \<lparr>fs_place = AtDst,
     fs_mask = (\<lambda>inst. if is_vector_access 0b0100111 inst \<or> is_lr_sc inst then fmask 19 15
       else fmask 19 15 OR fmask 31 25 OR fmask 11 7),
     fs_side = (\<lambda>OP opc inst. opc = OP ''sc_w'' \<or> opc = OP ''sc_d'' \<longrightarrow> is_lr_sc inst)\<rparr>"

definition opnd_specs :: "fld_spec list" where
  "opnd_specs =
    [plain AtSrc 0, plain AtDst (fmask 11 7), plain AtDst (fmask 11 7),
     plain AtSrc (fmask 19 15), plain AtSrc (fmask 19 15), plain AtSrc (fmask 19 15),
     plain AtSrc (fmask 24 20), plain AtSrc (fmask 24 20), plain AtSrc (fmask 31 27),
     plain AtSrc (fmask 31 28), plain AtSrc (fmask 27 24), plain AtSrc (fmask 23 20),
     plain AtSrc (fmask 26 25), plain AtSrc (fmask 31 20), plain AtSrc (fmask 14 12),
     plain AtSrc (fmask 25 20), plain AtSrc (fmask 24 20), plain AtSrc (fmask 26 20),
     plain AtSrc (fmask 31 20), plain AtSrc (fmask 31 25 OR fmask 11 7),
     plain AtTarget (fmask 31 25 OR fmask 11 7), plain AtSrc (fmask 31 12),
     plain AtSrc (fmask 31 12), j_imm_spec, plain AtDst (fmask 11 7), plain AtDst (fmask 11 7),
     plain AtSrc (fmask 11 7), plain AtSrc (fmask 6 2), plain AtSrc (fmask 6 2),
     plain AtDst (fmask 4 2), plain AtDst (fmask 4 2), plain AtSrc (fmask 9 7),
     plain AtSrc (fmask 4 2), plain AtSrc (fmask 4 2), plain AtDst (fmask 9 7),
     plain AtSrc (fmask 12 12 OR fmask 6 2), plain AtSrc (fmask 19 15),
     plain AtSrc (fmask 12 12 OR fmask 6 2), plain AtSrc (fmask 12 12 OR fmask 6 2),
     plain AtSrc (fmask 12 12 OR fmask 6 2), plain AtSrc (fmask 12 12 OR fmask 6 2),
     plain AtDst (fmask 12 7), plain AtDst (fmask 12 7), plain AtSrc (fmask 12 5),
     plain AtSrc (fmask 12 5), plain AtSrc (fmask 12 5), plain AtDst (fmask 12 5),
     plain AtDst (fmask 12 5), plain AtSrc (fmask 12 12 OR fmask 6 2),
     plain AtTarget (fmask 12 10 OR fmask 6 2), plain AtTarget (fmask 12 2), v_l_spec,
     v_s_spec, plain AtSrc 0, plain AtSrc 0, plain AtSrc 0, plain AtDst 0, plain AtDst 0,
     plain AtDst 0, plain AtSrc 0, plain AtSrc 0, plain AtSrc 0, plain AtDst 0,
     plain AtSrc (fmask 19 15), plain AtSrc (fmask 29 20), plain AtSrc (fmask 30 20),
     plain AtSrc (fmask 25 25), plain AtSrc (fmask 31 29), plain AtSrc (fmask 19 15),
     plain AtDst (fmask 11 7), plain AtSrc (fmask 19 15), plain AtSrc (fmask 24 20),
     plain AtSrc (fmask 11 7)]"

subsection \<open>The contract\<close>

text \<open>
  \<open>reencodes\<close>: from any instruction that holds the operand in the slot, the encoder succeeds and
  ors the field bits of \<open>inst\<close> into the word. \<open>field_contract\<close>: a decoder that gets past its
  assertions reports success, stores one operand in the slot of the field and changes nothing
  else, and that operand re-encodes.
\<close>

definition reencodes ::
  "fld_spec \<Rightarrow> opnd_enc_func_t \<Rightarrow> u32 \<Rightarrow> u64 \<Rightarrow> nat \<Rightarrow> opnd_t \<Rightarrow> bool" where
  "reencodes spec enc inst orig_pc idx opnd \<longleftrightarrow>
     (\<forall>instr w di. slot_get instr (place_slot (fs_place spec) idx) = Some opnd \<longrightarrow>
        (fs_place spec = AtTarget \<longrightarrow> instr_is_cti (di_OP di) instr = Some True) \<longrightarrow>
        fs_side spec (di_OP di) (i_opcode instr) inst \<longrightarrow>
        enc instr orig_pc idx w di = Some (True, w OR (inst AND fs_mask spec inst)))"

definition field_contract :: "fld_spec \<Rightarrow> opnd_dec_func_t \<Rightarrow> opnd_enc_func_t \<Rightarrow> bool" where
  "field_contract spec dec enc \<longleftrightarrow>
     (\<forall>inst sz pc orig_pc idx out b out'. dec inst sz pc orig_pc idx out = Some (b, out') \<longrightarrow>
        b \<and> (\<exists>opnd. slot_set out (place_slot (fs_place spec) idx) opnd = Some out' \<and>
               reencodes spec enc inst orig_pc idx opnd))"

subsection \<open>Lemmas for the field proofs\<close>

lemma bit_fmask [bitf]: "bit (fmask high low) n \<longleftrightarrow> n < 32 \<and> low \<le> n \<and> n - low \<le> high - low"
  by (auto simp: fmask_def bitf)

lemma opnd_create_reg_Some: "opnd_create_reg r = Some opnd \<Longrightarrow> opnd = REG_kind 0 0 r OPSZ_NA"
  by (simp add: opnd_create_reg_def split: if_splits)

lemma opnd_create_immed_int_Some:
  "opnd_create_immed_int i sz = Some opnd \<Longrightarrow> opnd = IMMED_INTEGER_kind sz 0 i"
  by (simp add: opnd_create_immed_int_def split: if_splits)

lemma opnd_create_immed_uint_Some:
  "opnd_create_immed_uint i sz = Some opnd \<Longrightarrow> opnd = IMMED_INTEGER_kind sz 0 i"
  by (simp add: opnd_create_immed_uint_def split: if_splits)

lemma opnd_create_base_disp_Some:
  "opnd_create_base_disp r 0 s d sz = Some opnd \<Longrightarrow> opnd = BASE_DISP_kind sz 0 d (ucast r) 0"
  by (simp add: opnd_create_base_disp_def opnd_create_far_base_disp_ex_def split: if_splits)

lemma opnd_create_rel_addr_Some:
  "opnd_create_rel_addr a sz = Some opnd \<Longrightarrow> opnd = REL_ADDR_kind sz a"
  by (simp add: opnd_create_rel_addr_def opnd_create_far_rel_addr_def split: if_splits)

lemmas create_Some = opnd_create_reg_Some opnd_create_immed_int_Some opnd_create_immed_uint_Some
  opnd_create_base_disp_Some opnd_create_rel_addr_Some

lemma instr_get_target_src0:
  "instr_is_cti OP i = Some True \<Longrightarrow> instr_get_target OP i = instr_get_src i 0"
  by (simp add: instr_get_target_def instr_get_src_def)

text \<open>A register number survives the narrowing to \<^verbatim>\<open>reg_id_t\<close> and to the 8-bit base register.\<close>

lemma reg_number_of_nat:
  fixes x :: u64
  assumes "unat x < 32" "b < 100"
  shows "(ucast (of_nat b + x) :: u16) = of_nat (b + unat x)"
    and "(ucast (ucast (of_nat b + x) :: u16) :: u32) - of_nat b = ucast x"
    and "(ucast (ucast (ucast (ucast (of_nat b + x) :: u16) :: u8) :: u16) :: u32) - of_nat b =
      ucast x"
proof -
  have "of_nat b + x = of_nat (b + unat x)" by simp
  then show u16: "(ucast (of_nat b + x) :: u16) = of_nat (b + unat x)" using assms
    by (simp add: unsigned_of_nat take_bit_nat_eq_self del: of_nat_add)
  have casts: "(ucast (of_nat (b + unat x) :: u16) :: u32) = of_nat (b + unat x)"
      "(ucast (of_nat (b + unat x) :: u16) :: u8) = of_nat (b + unat x)"
      "(ucast (of_nat (b + unat x) :: u8) :: u16) = of_nat (b + unat x)"
    using assms by (simp_all add: unsigned_of_nat take_bit_nat_eq_self del: of_nat_add)
  have "(of_nat (unat x) :: u32) = ucast x" by simp
  then show "(ucast (ucast (of_nat b + x) :: u16) :: u32) - of_nat b = ucast x"
    and "(ucast (ucast (ucast (ucast (of_nat b + x) :: u16) :: u8) :: u16) :: u32) - of_nat b =
      ucast x"
    unfolding u16 casts by simp_all
qed

lemma unat_reg_field: "high - low \<le> 4 \<Longrightarrow> unat (GET_FIELD v high low) < 32"
proof -
  assume "high - low \<le> 4"
  then have "(2::nat) ^ (high - low + 1) \<le> 2 ^ 5" by (intro power_increasing) auto
  then show ?thesis using unat_GET_FIELD_less [of v high low] by simp
qed

lemma reg_number:
  assumes "high - low \<le> 4" "numeral b < (100::nat)"
  shows "(ucast (ucast (numeral b + GET_FIELD v high low) :: u16) :: u32) - numeral b =
      ucast (GET_FIELD v high low)"
    and "(ucast (ucast (ucast (ucast (numeral b + GET_FIELD v high low) :: u16) :: u8) :: u16) ::
      u32) - numeral b = ucast (GET_FIELD v high low)"
  using reg_number_of_nat(2,3) [OF unat_reg_field [OF assms(1)] assms(2), of v] by simp_all

lemma reg_number_of_nat_ge:
  fixes x :: u64
  assumes "unat x < 32" "b < 100"
  shows "(of_nat b :: u16) \<le> ucast (of_nat b + x)"
  unfolding reg_number_of_nat(1) [OF assms] word_le_nat_alt using assms
  by (simp add: unsigned_of_nat take_bit_nat_eq_self del: of_nat_add)

lemma reg_number_ge:
  assumes "high - low \<le> 4" "numeral b < (100::nat)"
  shows "(numeral b :: u16) \<le> ucast (numeral b + GET_FIELD v high low)"
  using reg_number_of_nat_ge [OF unat_reg_field [OF assms(1)] assms(2), of v] by simp

lemma reg_field:
  "high < 32 \<Longrightarrow> or_assign_u32 w (SET_FIELD (ucast (ucast (GET_FIELD inst high low) :: u32)) high low) =
     w OR (inst AND fmask high low)" for inst :: u32
  by (rule bit_word_eqI) (auto simp: or_assign_u32_eq bitf)

lemmas contract_simps = field_contract_def reencodes_def plain_def bind_eq_Some_conv Let_def
  codec_prims reg_number reg_number_ge reg_field opnd_create_pc_def pc_or_instr_offset_def instr_set_target_src0
  instr_get_target_src0

subsection \<open>Every field\<close>

lemma none_fields:
  "field_contract (plain AtSrc 0) decode_none_opnd encode_none_opnd"
  by (simp add: field_contract_def decode_none_opnd_def)

lemma reg_fields:
  "field_contract (plain AtDst (fmask 11 7)) decode_rd_opnd encode_rd_opnd"
  "field_contract (plain AtDst (fmask 11 7)) decode_rdfp_opnd encode_rdfp_opnd"
  "field_contract (plain AtSrc (fmask 19 15)) decode_rs1_opnd encode_rs1_opnd"
  "field_contract (plain AtSrc (fmask 19 15)) decode_rs1fp_opnd encode_rs1fp_opnd"
  "field_contract (plain AtSrc (fmask 24 20)) decode_rs2_opnd encode_rs2_opnd"
  "field_contract (plain AtSrc (fmask 24 20)) decode_rs2fp_opnd encode_rs2fp_opnd"
  "field_contract (plain AtSrc (fmask 31 27)) decode_rs3fp_opnd encode_rs3fp_opnd"
  "field_contract (plain AtDst (fmask 11 7)) decode_crd_opnd encode_crd_opnd"
  "field_contract (plain AtDst (fmask 11 7)) decode_crdfp_opnd encode_crdfp_opnd"
  "field_contract (plain AtSrc (fmask 11 7)) decode_crs1_opnd encode_crs1_opnd"
  "field_contract (plain AtSrc (fmask 6 2)) decode_crs2_opnd encode_crs2_opnd"
  "field_contract (plain AtSrc (fmask 6 2)) decode_crs2fp_opnd encode_crs2fp_opnd"
  "field_contract (plain AtDst (fmask 4 2)) decode_crd__opnd encode_crd__opnd"
  "field_contract (plain AtDst (fmask 4 2)) decode_crd_fp_opnd encode_crd_fp_opnd"
  "field_contract (plain AtSrc (fmask 9 7)) decode_crs1__opnd encode_crs1__opnd"
  "field_contract (plain AtSrc (fmask 4 2)) decode_crs2__opnd encode_crs2__opnd"
  "field_contract (plain AtSrc (fmask 4 2)) decode_crs2_fp_opnd encode_crs2_fp_opnd"
  "field_contract (plain AtDst (fmask 9 7)) decode_crd___opnd encode_crd___opnd"
  "field_contract (plain AtDst (fmask 11 7)) decode_vd_opnd encode_vd_opnd"
  "field_contract (plain AtSrc (fmask 19 15)) decode_vs1_opnd encode_vs1_opnd"
  "field_contract (plain AtSrc (fmask 24 20)) decode_vs2_opnd encode_vs2_opnd"
  "field_contract (plain AtSrc (fmask 11 7)) decode_vs3_opnd encode_vs3_opnd"
  by - (force simp: codec_defs contract_simps dest!: create_Some intro!: exI)+

lemma impl_fields:
  "field_contract (plain AtSrc 0) decode_irs1_sp_opnd encode_implicit_opnd"
  "field_contract (plain AtSrc 0) decode_irs1_zero_opnd encode_implicit_opnd"
  "field_contract (plain AtSrc 0) decode_irs2_zero_opnd encode_implicit_opnd"
  "field_contract (plain AtDst 0) decode_ird_zero_opnd encode_implicit_opnd"
  "field_contract (plain AtDst 0) decode_ird_ra_opnd encode_implicit_opnd"
  "field_contract (plain AtDst 0) decode_ird_sp_opnd encode_implicit_opnd"
  "field_contract (plain AtSrc 0) decode_iimm_0_opnd encode_implicit_opnd"
  "field_contract (plain AtSrc 0) decode_icrs1_opnd encode_implicit_opnd"
  "field_contract (plain AtSrc 0) decode_icrs1___opnd encode_implicit_opnd"
  "field_contract (plain AtDst 0) decode_v_s_rs1_disp_opnd encode_implicit_opnd"
  by - (force simp: codec_defs contract_simps dest!: create_Some intro!: exI)+

lemma imm_fields:
  "field_contract (plain AtSrc (fmask 31 28)) decode_fm_opnd encode_fm_opnd"
  "field_contract (plain AtSrc (fmask 27 24)) decode_pred_opnd encode_pred_opnd"
  "field_contract (plain AtSrc (fmask 23 20)) decode_succ_opnd encode_succ_opnd"
  "field_contract (plain AtSrc (fmask 26 25)) decode_aqrl_opnd encode_aqrl_opnd"
  "field_contract (plain AtSrc (fmask 31 20)) decode_csr_opnd encode_csr_opnd"
  "field_contract (plain AtSrc (fmask 14 12)) decode_rm_opnd encode_rm_opnd"
  "field_contract (plain AtSrc (fmask 25 20)) decode_shamt_opnd encode_shamt_opnd"
  "field_contract (plain AtSrc (fmask 24 20)) decode_shamt5_opnd encode_shamt5_opnd"
  "field_contract (plain AtSrc (fmask 26 20)) decode_shamt6_opnd encode_shamt6_opnd"
  "field_contract (plain AtSrc (fmask 31 20)) decode_i_imm_opnd encode_i_imm_opnd"
  "field_contract (plain AtSrc (fmask 31 25 OR fmask 11 7)) decode_s_imm_opnd encode_s_imm_opnd"
  "field_contract (plain AtSrc (fmask 31 12)) decode_u_imm_opnd encode_u_imm_opnd"
  "field_contract (plain AtSrc (fmask 12 12 OR fmask 6 2)) decode_cshamt_opnd encode_cshamt_opnd"
  "field_contract (plain AtSrc (fmask 19 15)) decode_csr_imm_opnd encode_csr_imm_opnd"
  "field_contract (plain AtSrc (fmask 12 12 OR fmask 6 2))
     decode_caddi16sp_imm_opnd encode_caddi16sp_imm_opnd"
  "field_contract (plain AtSrc (fmask 12 12 OR fmask 6 2))
     decode_clui_imm_opnd encode_clui_imm_opnd"
  "field_contract (plain AtSrc (fmask 12 5)) decode_ciw_imm_opnd encode_ciw_imm_opnd"
  "field_contract (plain AtSrc (fmask 12 12 OR fmask 6 2)) decode_cimm5_opnd encode_cimm5_opnd"
  "field_contract (plain AtSrc (fmask 19 15)) decode_zimm_opnd encode_zimm_opnd"
  "field_contract (plain AtSrc (fmask 29 20)) decode_zimm10_opnd encode_zimm10_opnd"
  "field_contract (plain AtSrc (fmask 30 20)) decode_zimm11_opnd encode_zimm11_opnd"
  "field_contract (plain AtSrc (fmask 25 25)) decode_vm_opnd encode_vm_opnd"
  "field_contract (plain AtSrc (fmask 31 29)) decode_nf_opnd encode_nf_opnd"
  "field_contract (plain AtSrc (fmask 19 15)) decode_simm5_opnd encode_simm5_opnd"
  by - (auto simp: codec_defs contract_simps dest!: create_Some intro!: exI; rule u32_bitsI;
      simp add: bitf or_assign_u32_eq)+

lemma base_fields:
  "field_contract (plain AtSrc (fmask 19 15)) decode_base_opnd encode_base_opnd"
  "field_contract (plain AtSrc (fmask 12 12 OR fmask 6 2))
     decode_clwsp_imm_opnd encode_clwsp_imm_opnd"
  "field_contract (plain AtSrc (fmask 12 12 OR fmask 6 2))
     decode_cldsp_imm_opnd encode_cldsp_imm_opnd"
  "field_contract (plain AtDst (fmask 12 7)) decode_cswsp_imm_opnd encode_cswsp_imm_opnd"
  "field_contract (plain AtDst (fmask 12 7)) decode_csdsp_imm_opnd encode_csdsp_imm_opnd"
  "field_contract (plain AtSrc (fmask 12 5)) decode_clw_imm_opnd encode_clw_imm_opnd"
  "field_contract (plain AtSrc (fmask 12 5)) decode_cld_imm_opnd encode_cld_imm_opnd"
  "field_contract (plain AtDst (fmask 12 5)) decode_csw_imm_opnd encode_csw_imm_opnd"
  "field_contract (plain AtDst (fmask 12 5)) decode_csd_imm_opnd encode_csd_imm_opnd"
  by - (auto simp: codec_defs contract_simps dest!: create_Some intro!: exI; rule u32_bitsI;
      simp add: bitf or_assign_u32_eq)+

lemma pc_fields:
  "field_contract (plain AtTarget (fmask 31 25 OR fmask 11 7))
     decode_b_imm_opnd encode_b_imm_opnd"
  "field_contract (plain AtSrc (fmask 31 12)) decode_u_immpc_opnd encode_u_immpc_opnd"
  "field_contract (plain AtTarget (fmask 12 10 OR fmask 6 2))
     decode_cb_imm_opnd encode_cb_imm_opnd"
  "field_contract (plain AtTarget (fmask 12 2)) decode_cj_imm_opnd encode_cj_imm_opnd"
  by - (auto simp: codec_defs contract_simps dest!: create_Some intro!: exI; rule u32_bitsI;
      simp add: bitf or_assign_u32_eq)+

lemma j_imm_field: "field_contract j_imm_spec decode_j_imm_opnd encode_j_imm_opnd"
  by - (auto simp: codec_defs contract_simps j_imm_spec_def dest!: create_Some intro!: exI;
      rule u32_bitsI; auto simp: bitf or_assign_u32_eq)

lemma v_l_field: "field_contract v_l_spec decode_v_l_rs1_disp_opnd encode_v_l_rs1_disp_opnd"
  by - (auto simp: codec_defs contract_simps v_l_spec_def is_lr_sc_def is_vector_access_def
      dest!: create_Some intro!: exI split: if_splits; rule u32_bitsI;
      simp add: bitf or_assign_u32_eq)

lemma v_s_field: "field_contract v_s_spec decode_v_s_rs1_disp_opnd encode_v_s_rs1_disp_opnd"
  by - (auto simp: codec_defs contract_simps v_s_spec_def is_lr_sc_def is_vector_access_def
      dest!: create_Some intro!: exI split: if_splits; rule u32_bitsI;
      simp add: bitf or_assign_u32_eq)

lemma table_lengths:
  "length opnd_specs = RISCV64_FLD_CNT" "length opnd_decoders = RISCV64_FLD_CNT"
  "length opnd_encoders = RISCV64_FLD_CNT"
  by (simp_all add: opnd_specs_def opnd_decoders_def opnd_encoders_def)

lemma all_field_contracts:
  assumes "f < RISCV64_FLD_CNT"
  shows "field_contract (opnd_specs ! f) (opnd_decoders ! f) (opnd_encoders ! f)"
proof -
  have "list_all (\<lambda>(spec, dec, enc). field_contract spec dec enc)
      (zip opnd_specs (zip opnd_decoders opnd_encoders))"
    by (simp add: opnd_specs_def opnd_decoders_def opnd_encoders_def none_fields reg_fields
        impl_fields imm_fields base_fields pc_fields j_imm_field v_l_field v_s_field)
  then show ?thesis using assms by (simp add: list_all_length table_lengths)
qed

subsection \<open>Properties of single operands\<close>

text \<open>
  C36: For every operand field, decoding never reports failure, and encoding the decoded operand
  at the same original address ors exactly the bits of the field, as they were in the instruction
  word, into the output. Of a branch or jump target this needs that the opcode is a control transfer. Three fields
  need a condition on the word, \<open>fs_side\<close>: the offset of a jump with bit 11 set must have its sign
  bit set too (for the others the encoder is wrong, see \<open>encode_j_imm_leak\<close>), and for the two memory operands that may
  have a displacement, if the opcode of the object is an \<^verbatim>\<open>lr\<close> or \<^verbatim>\<open>sc\<close>, the word must have the major opcode of the atomics.
\<close>

theorem operand_roundtrip:
  assumes f: "f < RISCV64_FLD_CNT"
    and dec: "(opnd_decoders ! f) inst sz pc orig_pc idx instr = Some (ok, instr')"
    and cti: "fs_place (opnd_specs ! f) = AtTarget \<longrightarrow> instr_is_cti (di_OP di) instr' = Some True"
    and side: "fs_side (opnd_specs ! f) (di_OP di) (i_opcode instr') inst"
  shows "ok \<and> (opnd_encoders ! f) instr' orig_pc idx w di =
    Some (True, w OR (inst AND fs_mask (opnd_specs ! f) inst))"
  using all_field_contracts [OF f] dec cti side slot_set_Some(1)
  unfolding field_contract_def reencodes_def by blast

text \<open>
  The jump encoder writes bit 11 of the offset into the sign bit of the encoding: the sign
  bit of the result is set when bit 20 or bit 11 of the offset is.
\<close>

theorem encode_j_imm_leak:
  assumes "instr_get_target (di_OP di) instr = Some (PC_kind target)"
  shows "\<exists>w'. encode_j_imm_opnd instr pc idx w di = Some (True, w') \<and>
     (bit w' 31 \<longleftrightarrow> bit w 31 \<or> bit (target - pc) 20 \<or> bit (target - pc) 11)"
  using assms by (auto simp: encode_j_imm_opnd_def pc_or_instr_offset_def bitf)

lemma b_imm_value:
  fixes imm :: u32 and off :: u64
  assumes r: "- 4096 \<le> sint off" "sint off < 4096" and ev: "\<not> bit off 0"
    and w: "w AND (fmask 31 25 OR fmask 11 7) = 0"
    and w': "w' = or_assign_u32 w (SET_FIELD (scast (sar imm 11)) 7 7 OR
      SET_FIELD (scast (sar imm 1)) 11 8 OR SET_FIELD (scast (sar imm 5)) 30 25 OR
      SET_FIELD (scast (sar imm 12)) 31 31)"
    and imm: "imm = ucast off"
  shows "scast (SIGN_EXTEND (or_assign_i32 (or_assign_i32 (shl (BIT w' 31) 12 OR shl (BIT w' 7) 11)
      (shl (GET_FIELD w' 30 25) 5)) (shl (GET_FIELD w' 11 8) 1)) 13) = off"
  (is "scast (SIGN_EXTEND ?v 13) = off")
proof (rule bit_word_eqI)
  fix n assume "n < LENGTH(64)"
  have wb: "\<not> bit w m" if "m \<in> {7..11} \<union> {25..31}" for m
    using arg_cong [OF w, of "\<lambda>x. bit x m"] that by (auto simp: bitf)
  have "min n 12 \<in> {0,1,2,3,4,5,6,7,8,9,10,11,12}" by (simp add: min_def) presburger
  then have "bit ?v (min n 12) = bit off (min n 12)"
    unfolding insert_iff empty_iff by (elim disjE)
      (simp_all add: bitf w' imm wb ev, simp_all add: eval_nat_numeral)
  then show "bit (scast (SIGN_EXTEND ?v 13) :: u64) n = bit off n"
    using \<open>n < LENGTH(64)\<close> bit_of_sint_range [of 12 off n] r by (simp add: bit_scast_SIGN_EXTEND)
qed

text \<open>
  Every even branch offset from -4096 to 4094 survives encoding and decoding: the decoder
  finds the target that was encoded.
\<close>

theorem b_imm_encode_decode:
  assumes tgt: "instr_get_target (di_OP di) instr = Some (PC_kind target)"
    and r: "- 4096 \<le> sint (target - pc)" "sint (target - pc) < 4096" "\<not> bit (target - pc) 0"
    and w: "w AND (fmask 31 25 OR fmask 11 7) = 0"
  shows "\<exists>w'. encode_b_imm_opnd instr pc idx w di = Some (True, w') \<and>
    decode_b_imm_opnd w' sz a pc idx' out =
      map_option (Pair True) (instr_set_target out (PC_kind target))"
  using tgt b_imm_value [OF r w refl refl]
  by (cases "instr_set_target out (PC_kind target)")
    (simp_all add: encode_b_imm_opnd_def decode_b_imm_opnd_def pc_or_instr_offset_def
      opnd_create_pc_def Let_def)

end
