(* ===== verification/RvCodec.thy ===== *)
theory RvCodec
  imports RvFields
begin

text \<open>
  Whole-instruction decoding and encoding of the RISC-V codec (\<^verbatim>\<open>core/ir/riscv64/codec.c\<close>): the
  quadrant matchers of the compressed instructions, the trie lookup of the others,
  \<^verbatim>\<open>decode_common\<close> and \<^verbatim>\<open>encode_common\<close>. The instruction table and the trie are generated by the
  build from \<^verbatim>\<open>isl/*.txt\<close>; they and the opcode numbering form the argument \<open>codec_tables\<close>. A
  pointer into \<^verbatim>\<open>instr_infos\<close> is its index; \<open>None\<close> inside a result is the \<^verbatim>\<open>NULL\<close> pointer.
\<close>

unbundle bit_operations_syntax

subsection \<open>Tables\<close>

record rv_instr_info_t =
  ii_type :: nat
  ii_opcode :: u32
  ii_dst1_type :: nat
  ii_dst1_size :: opnd_size_t
  ii_dst2_type :: nat
  ii_dst2_size :: opnd_size_t
  ii_src1_type :: nat
  ii_src1_size :: opnd_size_t
  ii_src2_type :: nat
  ii_src2_size :: opnd_size_t
  ii_src3_type :: nat
  ii_src3_size :: opnd_size_t
  ii_code :: u64
  ii_ext :: nat

record codec_tables =
  instr_infos :: "rv_instr_info_t list"
  instr_infos_trie :: "trie_node_t list"
  OP_enum :: op_enum

abbreviation (input) RISCV64_ISA_EXT_RVC :: nat where "RISCV64_ISA_EXT_RVC \<equiv> 22"
abbreviation (input) ENCFAIL :: u32 where "ENCFAIL \<equiv> 0"

definition INFO_NDST :: "u32 \<Rightarrow> nat" where
  "INFO_NDST opcode = unat (GET_FIELD opcode 31 30)"

definition INFO_NSRC :: "u32 \<Rightarrow> nat" where
  "INFO_NSRC opcode = unat (GET_FIELD opcode 29 27)"

definition info_mask :: "rv_instr_info_t \<Rightarrow> u32" where
  "info_mask info = ucast (GET_FIELD (ii_code info) 31 0)"

definition info_match :: "rv_instr_info_t \<Rightarrow> u32" where
  "info_match info = ucast (GET_FIELD (ii_code info) 63 32)"

subsection \<open>Compressed instructions\<close>

definition match_op_0 :: "op_enum \<Rightarrow> nat \<Rightarrow> bool \<Rightarrow> bool \<Rightarrow> nat option" where
  "match_op_0 OP funct rv32 rv64 =
     (if funct = 0 then Some (OP ''c_addi4spn'')
      else if funct = 1 then Some (OP ''c_fld'')
      else if funct = 2 then Some (OP ''c_lw'')
      else if funct = 3 then
        (if rv32 then Some (OP ''c_flw'') else if rv64 then Some (OP ''c_ld'') else None)
      else if funct = 5 then Some (OP ''c_fsd'')
      else if funct = 6 then Some (OP ''c_sw'')
      else if funct = 7 then
        (if rv32 then Some (OP ''c_fsw'') else if rv64 then Some (OP ''c_sd'') else None)
      else None)"

definition match_op_1 ::
  "op_enum \<Rightarrow> nat \<Rightarrow> nat \<Rightarrow> nat \<Rightarrow> nat \<Rightarrow> nat \<Rightarrow> bool \<Rightarrow> bool \<Rightarrow> nat option" where
  "match_op_1 OP funct funct2 funct3 bit11to7 bit12 rv32 rv64 =
     (if funct = 0 then (if bit11to7 = 0 then Some (OP ''c_nop'') else Some (OP ''c_addi''))
      else if funct = 1 then
        (if rv32 then Some (OP ''c_jal'') else if rv64 then Some (OP ''c_addiw'') else None)
      else if funct = 2 then Some (OP ''c_li'')
      else if funct = 3 then
        (if bit11to7 = 2 then Some (OP ''c_addi16sp'') else Some (OP ''c_lui''))
      else if funct = 4 then
        (if funct2 = 0 then Some (OP ''c_srli'')
         else if funct2 = 1 then Some (OP ''c_srai'')
         else if funct2 = 2 then Some (OP ''c_andi'')
         else if funct2 = 3 then
           (if bit12 = 0 then
              (if funct3 = 0 then Some (OP ''c_sub'')
               else if funct3 = 1 then Some (OP ''c_xor'')
               else if funct3 = 2 then Some (OP ''c_or'')
               else if funct3 = 3 then Some (OP ''c_and'')
               else None)
            else if bit12 = 1 then
              (if funct3 = 0 then Some (OP ''c_subw'')
               else if funct3 = 1 then Some (OP ''c_addw'')
               else None)
            else None)
         else None)
      else if funct = 5 then Some (OP ''c_j'')
      else if funct = 6 then Some (OP ''c_beqz'')
      else if funct = 7 then Some (OP ''c_bnez'')
      else None)"

definition match_op_2 ::
  "op_enum \<Rightarrow> nat \<Rightarrow> nat \<Rightarrow> nat \<Rightarrow> nat \<Rightarrow> bool \<Rightarrow> bool \<Rightarrow> nat option" where
  "match_op_2 OP funct bit11to7 bit6to2 bit12 rv32 rv64 =
     (if funct = 0 then Some (OP ''c_slli'')
      else if funct = 1 then Some (OP ''c_fldsp'')
      else if funct = 2 then Some (OP ''c_lwsp'')
      else if funct = 3 then
        (if rv32 then Some (OP ''c_flwsp'') else if rv64 then Some (OP ''c_ldsp'') else None)
      else if funct = 4 then
        (if bit12 = 0 then (if bit6to2 = 0 then Some (OP ''c_jr'') else Some (OP ''c_mv''))
         else if bit12 = 1 then
           (if bit11to7 = 0 \<and> bit6to2 = 0 then Some (OP ''c_ebreak'')
            else if bit6to2 = 0 then Some (OP ''c_jalr'')
            else Some (OP ''c_add''))
         else None)
      else if funct = 5 then Some (OP ''c_fsdsp'')
      else if funct = 6 then Some (OP ''c_swsp'')
      else if funct = 7 then
        (if rv32 then Some (OP ''c_fswsp'') else if rv64 then Some (OP ''c_sdsp'') else None)
      else None)"

definition get_rvc_instr_info :: "codec_tables \<Rightarrow> u32 \<Rightarrow> nat \<Rightarrow> nat option option" where
  "get_rvc_instr_info T inst xlen =
     (if inst = 0 then Some (Some (OP_enum T ''unimp''))
      else
        let op = unat (GET_FIELD inst 1 0);
            funct = unat (GET_FIELD inst 15 13);
            bit11to7 = unat (GET_FIELD inst 11 7);
            funct2 = unat (GET_FIELD inst 11 10);
            bit12 = unat (BIT inst 12);
            funct3 = unat (GET_FIELD inst 6 5);
            bit6to2 = unat (GET_FIELD inst 6 2);
            rv32 = (xlen = 32);
            rv64 = (xlen = 64);
            info = (if op = 0 then match_op_0 (OP_enum T) funct rv32 rv64
              else if op = 1
              then match_op_1 (OP_enum T) funct funct2 funct3 bit11to7 bit12 rv32 rv64
              else if op = 2
              then match_op_2 (OP_enum T) funct bit11to7 bit6to2 bit12 rv32 rv64
              else None)
        in case info of
             None \<Rightarrow> Some None
           | Some k \<Rightarrow>
               if k < length (instr_infos T) \<and>
                 inst AND info_mask (instr_infos T ! k) = info_match (instr_infos T ! k)
               then Some (Some k) else None)"

subsection \<open>Uncompressed instructions\<close>

definition OPCODE_FLD_MASK :: u32 where
  "OPCODE_FLD_MASK = 0x7f"

definition get_rv_instr_info :: "codec_tables \<Rightarrow> u32 \<Rightarrow> nat option option" where
  "get_rv_instr_info T inst =
     do {
       let index = unat (inst AND OPCODE_FLD_MASK) + 1;
       index \<leftarrow> trie_lookup (instr_infos_trie T) inst index;
       if index = TRIE_NODE_EMPTY then Some None
       else if index < length (instr_infos T) then
         (if inst AND info_mask (instr_infos T ! index) \<noteq> info_match (instr_infos T ! index)
          then Some None else Some (Some index))
       else None
     }"

definition get_instruction_info :: "codec_tables \<Rightarrow> nat \<Rightarrow> nat option" where
  "get_instruction_info T opc = (if opc \<ge> length (instr_infos T) then None else Some opc)"

subsection \<open>Operand slots of a table entry\<close>

text \<open>
  The two fall-through switches of \<^verbatim>\<open>decode_common\<close> and \<^verbatim>\<open>encode_common\<close>: the operands they
  visit, in order, each with its field, size and position. \<open>None\<close> is the \<^verbatim>\<open>default\<close> case.
\<close>

definition dst_slots :: "rv_instr_info_t \<Rightarrow> nat \<Rightarrow> (nat \<times> opnd_size_t \<times> nat) list option" where
  "dst_slots info ndst =
     (let d2 = (ii_dst2_type info, ii_dst2_size info, 1);
          d1 = (ii_dst1_type info, ii_dst1_size info, 0)
      in if ndst = 2 then Some [d2, d1] else if ndst = 1 then Some [d1]
         else if ndst = 0 then Some [] else None)"

definition src_slots :: "rv_instr_info_t \<Rightarrow> nat \<Rightarrow> (nat \<times> opnd_size_t \<times> nat) list option" where
  "src_slots info nsrc =
     (let s4 = (ii_dst2_type info, ii_dst2_size info, 3);
          s3 = (ii_src3_type info, ii_src3_size info, 2);
          s2 = (ii_src2_type info, ii_src2_size info, 1);
          s1 = (ii_src1_type info, ii_src1_size info, 0)
      in if nsrc = 4 then Some [s4, s3, s2, s1] else if nsrc = 3 then Some [s3, s2, s1]
         else if nsrc = 2 then Some [s2, s1] else if nsrc = 1 then Some [s1]
         else if nsrc = 0 then Some [] else None)"

fun decode_opnds ::
  "opnd_dec_func_t list \<Rightarrow> u32 \<Rightarrow> u64 \<Rightarrow> u64 \<Rightarrow> (nat \<times> opnd_size_t \<times> nat) list \<Rightarrow> instr_t \<Rightarrow>
   (bool \<times> instr_t) option" where
  "decode_opnds decoders inst pc orig_pc [] instr = Some (True, instr)"
| "decode_opnds decoders inst pc orig_pc ((f, sz, idx) # slots) instr =
     do {
       ASSERT (f < RISCV64_FLD_CNT);
       (ok, instr) \<leftarrow> (decoders ! f) inst sz pc orig_pc idx instr;
       if ok then decode_opnds decoders inst pc orig_pc slots instr else Some (False, instr)
     }"

fun encode_opnds ::
  "opnd_enc_func_t list \<Rightarrow> instr_t \<Rightarrow> u64 \<Rightarrow> (nat \<times> opnd_size_t \<times> nat) list \<Rightarrow> u32 \<Rightarrow>
   decode_info_t \<Rightarrow> (bool \<times> u32) option" where
  "encode_opnds encoders instr pc [] inst di = Some (True, inst)"
| "encode_opnds encoders instr pc ((f, sz, idx) # slots) inst di =
     do {
       ASSERT (f < RISCV64_FLD_CNT);
       (ok, inst) \<leftarrow> (encoders ! f) instr pc idx inst di;
       if ok then encode_opnds encoders instr pc slots inst di else Some (False, inst)
     }"

subsection \<open>Decoding and encoding an instruction\<close>

datatype dr_isa_mode_t = DR_ISA_RV64 | DR_ISA_REGDEPS

definition read_u16 :: "memory \<Rightarrow> u64 \<Rightarrow> u16" where
  "read_u16 mem pc = ucast (mem pc) OR shl (ucast (mem (pc + 1))) 8"

text \<open>The instruction word at \<open>pc\<close> and its table entry, or \<^verbatim>\<open>NULL\<close>.\<close>

definition decode_fetch :: "codec_tables \<Rightarrow> memory \<Rightarrow> u64 \<Rightarrow> (u32 \<times> nat option) option" where
  "decode_fetch T mem pc =
     do {
       let width = instruction_width (read_u16 mem pc);
       let inst = (ucast (read_u16 mem pc) :: u32);
       if width = 4 then
         do {
           let inst = inst OR shl (ucast (read_u16 mem (pc + 2))) 16;
           info \<leftarrow> get_rv_instr_info T inst;
           Some (inst, info)
         }
       else if width = 2 then do { info \<leftarrow> get_rvc_instr_info T inst 64; Some (inst, info) }
       else Some (inst, None)
     }"

definition decode_failure :: "instr_t \<Rightarrow> (u64 option \<times> instr_t) option" where
  "decode_failure instr =
     do { instr \<leftarrow> instr_set_opcode (instr_set_operands_valid instr False) OP_INVALID;
          Some (None, instr) }"

definition decode_common ::
  "codec_tables \<Rightarrow> (u64 \<Rightarrow> instr_t \<Rightarrow> (u64 option \<times> instr_t) option) \<Rightarrow> dr_isa_mode_t \<Rightarrow> memory \<Rightarrow>
   u64 \<Rightarrow> u64 \<Rightarrow> instr_t \<Rightarrow> (u64 option \<times> instr_t) option" where
  "decode_common T decode_isa_regdeps mode mem pc orig_pc instr =
     (if mode = DR_ISA_REGDEPS then decode_isa_regdeps pc instr
      else do {
        ASSERT (i_opcode instr = OP_INVALID \<or> i_opcode instr = OP_UNDECODED);
        (inst, entry) \<leftarrow> decode_fetch T mem pc;
        case entry of
          None \<Rightarrow> Some (None, instr)
        | Some k \<Rightarrow>
            do {
              ASSERT (k < length (instr_infos T));
              let info = instr_infos T ! k;
              let next_pc = pc + word_of_int (instruction_width (read_u16 mem pc));
              let nsrc = INFO_NSRC (ii_opcode info);
              let ndst = INFO_NDST (ii_opcode info);
              instr \<leftarrow> instr_set_opcode instr (ii_type info);
              instr \<leftarrow> instr_set_num_opnds instr ndst nsrc;
              dsts \<leftarrow> dst_slots info ndst;
              (ok, instr) \<leftarrow> decode_opnds opnd_decoders inst pc orig_pc dsts instr;
              if \<not> ok then decode_failure instr
              else do {
                srcs \<leftarrow> src_slots info nsrc;
                (ok, instr) \<leftarrow> decode_opnds opnd_decoders inst pc orig_pc srcs instr;
                if \<not> ok then decode_failure instr
                else if orig_pc \<noteq> pc then
                  Some (Some next_pc,
                    instr_set_translation (instr_set_raw_bits_valid instr False) orig_pc)
                else do {
                  instr \<leftarrow> instr_set_raw_bits instr pc (ucast (next_pc - pc));
                  Some (Some next_pc, instr)
                }
              }
            }
      })"

definition encode_common ::
  "codec_tables \<Rightarrow> u64 \<Rightarrow> instr_t \<Rightarrow> decode_info_t \<Rightarrow> u32 option" where
  "encode_common T pc instr di =
     do {
       ASSERT (pc AND 1 = 0);
       ASSERT (i_opcode instr < length (instr_infos T));
       let info = instr_infos T ! i_opcode instr;
       let ndst = INFO_NDST (ii_opcode info);
       let nsrc = INFO_NSRC (ii_opcode info);
       let inst = (ucast (shr (ii_code info) 32) :: u32);
       dsts \<leftarrow> dst_slots info ndst;
       (ok, inst) \<leftarrow> encode_opnds opnd_encoders instr pc dsts inst di;
       if \<not> ok then Some ENCFAIL
       else do {
         srcs \<leftarrow> src_slots info nsrc;
         (ok, inst) \<leftarrow> encode_opnds opnd_encoders instr pc srcs inst di;
         if \<not> ok then Some ENCFAIL
         else Some (if ii_ext info = RISCV64_ISA_EXT_RVC then inst AND 0xFFFF else inst)
       }
     }"

subsection \<open>Round trip\<close>

text \<open>
  What the codec relies on in the two dispatch tables: every field satisfies its contract. The
  client lemmas say what the operand loops do: decoding writes one operand per slot, and encoding
  an instruction that holds these operands ors the bits of all fields into the word.
\<close>

definition slot_of :: "fld_spec list \<Rightarrow> nat \<times> opnd_size_t \<times> nat \<Rightarrow> opnd_slot" where
  "slot_of specs s = place_slot (fs_place (specs ! fst s)) (snd (snd s))"

fun slots_mask :: "fld_spec list \<Rightarrow> u32 \<Rightarrow> (nat \<times> opnd_size_t \<times> nat) list \<Rightarrow> u32" where
  "slots_mask specs inst [] = 0"
| "slots_mask specs inst (s # slots) = fs_mask (specs ! fst s) inst OR slots_mask specs inst slots"

text \<open>The conditions under which the fields of an instruction object re-encode.\<close>

definition slots_side ::
  "fld_spec list \<Rightarrow> op_enum \<Rightarrow> u32 \<Rightarrow> (nat \<times> opnd_size_t \<times> nat) list \<Rightarrow> instr_t \<Rightarrow> bool" where
  "slots_side specs OP inst slots instr \<longleftrightarrow> list_all (\<lambda>s.
     (fs_place (specs ! fst s) = AtTarget \<longrightarrow> instr_is_cti OP instr = Some True) \<and>
     fs_side (specs ! fst s) OP (i_opcode instr) inst) slots"

locale operand_tables =
  fixes specs :: "fld_spec list"
    and decoders :: "opnd_dec_func_t list"
    and encoders :: "opnd_enc_func_t list"
  assumes contract: "f < RISCV64_FLD_CNT \<Longrightarrow> field_contract (specs ! f) (decoders ! f) (encoders ! f)"
begin

lemma decode_opnds_writes:
  "decode_opnds decoders inst pc orig_pc slots i = Some (ok, i') \<Longrightarrow>
   ok \<and> (\<exists>opnds. set_all slot_set i (zip (map (slot_of specs) slots) opnds) = Some i' \<and>
     list_all2 (\<lambda>s opnd. fst s < RISCV64_FLD_CNT \<and>
       reencodes (specs ! fst s) (encoders ! fst s) inst orig_pc (snd (snd s)) opnd) slots opnds)"
proof (induction slots arbitrary: i)
  case Nil
  then show ?case by auto
next
  case (Cons s slots)
  obtain f sz idx where s: "s = (f, sz, idx)" by (cases s)
  obtain ok0 i0 where f: "f < RISCV64_FLD_CNT"
    and dec: "(decoders ! f) inst sz pc orig_pc idx i = Some (ok0, i0)"
    and rest: "(if ok0 then decode_opnds decoders inst pc orig_pc slots i0 else Some (False, i0)) =
      Some (ok, i')"
    using Cons.prems unfolding s by (auto simp: bind_eq_Some_conv split: if_splits)
  obtain opnd where ok0: ok0 and st: "slot_set i (slot_of specs s) opnd = Some i0"
    and re: "reencodes (specs ! f) (encoders ! f) inst orig_pc idx opnd"
    using contract [OF f] dec unfolding field_contract_def slot_of_def s by fastforce
  obtain opnds where ok: ok
    and "set_all slot_set i0 (zip (map (slot_of specs) slots) opnds) = Some i'"
    and "list_all2 (\<lambda>s opnd. fst s < RISCV64_FLD_CNT \<and>
       reencodes (specs ! fst s) (encoders ! fst s) inst orig_pc (snd (snd s)) opnd) slots opnds"
    using Cons.IH rest ok0 by auto
  then have "set_all slot_set i (zip (map (slot_of specs) (s # slots)) (opnd # opnds)) = Some i' \<and>
     list_all2 (\<lambda>s opnd. fst s < RISCV64_FLD_CNT \<and>
       reencodes (specs ! fst s) (encoders ! fst s) inst orig_pc (snd (snd s)) opnd)
       (s # slots) (opnd # opnds)"
    using st re f by (simp add: s)
  then show ?case using ok by blast
qed

lemma encode_opnds_ors:
  "list_all2 (\<lambda>s opnd. fst s < RISCV64_FLD_CNT \<and>
     reencodes (specs ! fst s) (encoders ! fst s) inst orig_pc (snd (snd s)) opnd) slots opnds \<Longrightarrow>
   list_all2 (\<lambda>s opnd. slot_get instr (slot_of specs s) = Some opnd) slots opnds \<Longrightarrow>
   slots_side specs (di_OP di) inst slots instr \<Longrightarrow>
   encode_opnds encoders instr orig_pc slots w di =
     Some (True, w OR (inst AND slots_mask specs inst slots))"
proof (induction slots opnds arbitrary: w rule: list_all2_induct)
  case Nil
  then show ?case by simp
next
  case (Cons s slots opnd opnds)
  obtain f sz idx where s: "s = (f, sz, idx)" by (cases s)
  have "(encoders ! f) instr orig_pc idx w di =
      Some (True, w OR (inst AND fs_mask (specs ! f) inst))"
    using Cons by (simp add: s reencodes_def slot_of_def slots_side_def)
  moreover have "(w OR (inst AND fs_mask (specs ! f) inst)) OR
      (inst AND slots_mask specs inst slots) =
      w OR (inst AND (fs_mask (specs ! f) inst OR slots_mask specs inst slots))"
    by (rule bit_word_eqI) (auto simp: bit_simps)
  ultimately show ?case using Cons by (simp add: s slots_side_def)
qed

lemma decode_opnds_ok: "decode_opnds decoders inst pc orig_pc slots i = Some (ok, i') \<Longrightarrow> ok"
  using decode_opnds_writes by blast

lemma decode_opnds_frame:
  "decode_opnds decoders inst pc orig_pc slots i = Some (ok, i') \<Longrightarrow> instr_frame i' = instr_frame i"
  using decode_opnds_writes islots.set_all_rest by blast

text \<open>The two loops together: what was decoded into distinct slots encodes back.\<close>

lemma opnds_roundtrip:
  assumes "decode_opnds decoders inst pc orig_pc slots i = Some (ok, i')"
    and "distinct (map (slot_of specs) slots)"
    and "\<And>s opnd. s \<in> slot_of specs ` set slots \<Longrightarrow> slot_get i' s = Some opnd \<Longrightarrow>
      slot_get instr s = Some opnd"
    and "slots_side specs (di_OP di) inst slots instr"
  shows "encode_opnds encoders instr orig_pc slots w di =
     Some (True, w OR (inst AND slots_mask specs inst slots))"
proof -
  obtain opnds where wr: "set_all slot_set i (zip (map (slot_of specs) slots) opnds) = Some i'"
    and re: "list_all2 (\<lambda>s opnd. fst s < RISCV64_FLD_CNT \<and>
      reencodes (specs ! fst s) (encoders ! fst s) inst orig_pc (snd (snd s)) opnd) slots opnds"
    using decode_opnds_writes [OF assms(1)] by blast
  have len: "length opnds = length slots" using re by (simp add: list_all2_lengthD)
  have "slot_get i' (slot_of specs (slots ! k)) = Some (opnds ! k)" if "k < length slots" for k
    using that assms(2) len
    by (intro islots.set_all_reads [OF wr]) (auto simp: in_set_conv_nth intro!: exI [of _ k])
  then have "list_all2 (\<lambda>s opnd. slot_get instr (slot_of specs s) = Some opnd) slots opnds"
    using assms(3) len by (auto simp: list_all2_conv_all_nth)
  then show ?thesis using encode_opnds_ors [OF re _ assms(4)] by blast
qed

end

interpretation rv: operand_tables opnd_specs opnd_decoders opnd_encoders
  using all_field_contracts by unfold_locales

text \<open>All operand slots of a table entry, in the order both loops visit them.\<close>

definition entry_slots :: "rv_instr_info_t \<Rightarrow> (nat \<times> opnd_size_t \<times> nat) list option" where
  "entry_slots info =
     do {
       dsts \<leftarrow> dst_slots info (INFO_NDST (ii_opcode info));
       srcs \<leftarrow> src_slots info (INFO_NSRC (ii_opcode info));
       Some (dsts @ srcs)
     }"

lemma decode_opnds_append:
  "decode_opnds ds inst pc orig_pc (xs @ ys) i =
     do {
       (ok, i) \<leftarrow> decode_opnds ds inst pc orig_pc xs i;
       if ok then decode_opnds ds inst pc orig_pc ys i else Some (False, i)
     }"
proof (induction xs arbitrary: i)
  case (Cons s xs)
  obtain f sz idx where s: "s = (f, sz, idx)" by (cases s)
  show ?case
    by (cases "(ds ! f) inst sz pc orig_pc idx i") (auto simp: s Cons.IH)
qed simp

lemma encode_opnds_append:
  "encode_opnds es instr pc (xs @ ys) w di =
     do {
       (ok, w) \<leftarrow> encode_opnds es instr pc xs w di;
       if ok then encode_opnds es instr pc ys w di else Some (False, w)
     }"
proof (induction xs arbitrary: w)
  case (Cons s xs)
  obtain f sz idx where s: "s = (f, sz, idx)" by (cases s)
  show ?case by (cases "(es ! f) instr pc idx w di") (auto simp: s Cons.IH)
qed simp

lemma encode_common_slots:
  "entry_slots (instr_infos T ! i_opcode instr) = Some slots \<Longrightarrow> pc AND 1 = 0 \<Longrightarrow>
   i_opcode instr < length (instr_infos T) \<Longrightarrow>
   encode_common T pc instr di =
     do {
       (ok, w) \<leftarrow> encode_opnds opnd_encoders instr pc slots
         (info_match (instr_infos T ! i_opcode instr)) di;
       Some (if \<not> ok then ENCFAIL
         else if ii_ext (instr_infos T ! i_opcode instr) = RISCV64_ISA_EXT_RVC then w AND 0xFFFF
         else w)
     }"
proof -
  have m: "(ucast (shr (ii_code info) 32) :: u32) = info_match info" for info
    by (rule bit_word_eqI) (auto simp: info_match_def bitf)
  let ?info = "instr_infos T ! i_opcode instr"
  assume "entry_slots ?info = Some slots" and pre: "pc AND 1 = 0"
    "i_opcode instr < length (instr_infos T)"
  then obtain dsts srcs where "dst_slots ?info (INFO_NDST (ii_opcode ?info)) = Some dsts"
    "src_slots ?info (INFO_NSRC (ii_opcode ?info)) = Some srcs" "slots = dsts @ srcs"
    by (auto simp: entry_slots_def bind_eq_Some_conv)
  then show ?thesis using pre
    by (simp add: encode_common_def encode_opnds_append m split: bind_split)
qed

text \<open>
  The fields that the writes of raw bits and translation leave alone.
\<close>

lemma raw_bits_keep:
  "instr_set_raw_bits i addr len = Some i' \<Longrightarrow> instr_valid i \<Longrightarrow>
   slot_get i' s = slot_get i s \<and> i_opcode i' = i_opcode i"
  "slot_get (instr_set_translation (instr_set_raw_bits_valid i v) a) s = slot_get i s"
  "i_opcode (instr_set_translation (instr_set_raw_bits_valid i v) a) = i_opcode i"
  by (cases s; auto simp: instr_set_raw_bits_def instr_get_src_def instr_get_dst_def
      instr_operands_valid_def instr_set_translation_def instr_set_raw_bits_valid_def
      split: if_splits)+

text \<open>The operand counts that a table entry asks for; a count of zero leaves the instruction's own.\<close>

definition entry_ndst :: "rv_instr_info_t \<Rightarrow> nat" where
  "entry_ndst info = unat (drop_bit 30 (ii_opcode info))"

definition entry_nsrc :: "rv_instr_info_t \<Rightarrow> nat" where
  "entry_nsrc info = unat (take_bit 3 (drop_bit 27 (ii_opcode info)))"

definition counts_for :: "rv_instr_info_t \<Rightarrow> instr_t \<Rightarrow> nat \<times> nat" where
  "counts_for info instr =
     (if entry_ndst info = 0 then i_num_dsts instr else entry_ndst info,
      if entry_nsrc info = 0 then i_num_srcs instr else entry_nsrc info)"

lemma INFO_counts: "INFO_NDST (ii_opcode info) = entry_ndst info" "INFO_NSRC (ii_opcode info) = entry_nsrc info"
proof -
  have "GET_FIELD v 31 30 = ucast (drop_bit 30 v)" "GET_FIELD v 29 27 = ucast (take_bit 3 (drop_bit 27 v))" for v :: u32
    by (rule bit_word_eqI; fastforce simp: bitf bit_simps dest: bit_imp_le_length)+
  then show "INFO_NDST (ii_opcode info) = entry_ndst info" "INFO_NSRC (ii_opcode info) = entry_nsrc info"
    by (simp_all add: INFO_NDST_def INFO_NSRC_def entry_ndst_def entry_nsrc_def unat_ucast_up)
qed

lemma num_opnds_counts:
  "instr_set_opcode instr k = Some ia \<Longrightarrow>
   instr_set_num_opnds ia (INFO_NDST (ii_opcode info)) (INFO_NSRC (ii_opcode info)) = Some i0 \<Longrightarrow>
   (i_num_dsts i0, i_num_srcs i0) = counts_for info instr"
  unfolding INFO_counts counts_for_def
  by (auto simp: instr_set_opcode_def instr_set_num_opnds_def bind_eq_Some_conv split: if_splits)

lemma decode_common_steps:
  assumes "decode_common T rd DR_ISA_RV64 mem pc orig_pc instr = Some (Some next_pc, i')"
    and "decode_fetch T mem pc = Some (inst, Some k)" "ii_type (instr_infos T ! k) = k"
  obtains i0 slots i1 where "k < length (instr_infos T)" "i_opcode i0 = k"
    "instr_operands_valid i0" "\<not> instr_raw_bits_valid i0"
    "(i_num_dsts i0, i_num_srcs i0) = counts_for (instr_infos T ! k) instr"
    "entry_slots (instr_infos T ! k) = Some slots"
    "decode_opnds opnd_decoders inst pc orig_pc slots i0 = Some (True, i1)"
    "next_pc = pc + word_of_int (instruction_width (read_u16 mem pc))"
    "if pc = orig_pc then instr_set_raw_bits i1 pc (ucast (next_pc - pc)) = Some i'
     else i' = instr_set_translation (instr_set_raw_bits_valid i1 False) orig_pc"
proof -
  let ?info = "instr_infos T ! k"
  note unf = decode_common_def bind_eq_Some_conv Let_def decode_failure_def
  have k: "k < length (instr_infos T)" using assms by (auto simp: unf split: if_splits)
  obtain ia where op: "instr_set_opcode instr k = Some ia"
    using assms k by (auto simp: unf split: if_splits)
  obtain i0 where num: "instr_set_num_opnds ia (INFO_NDST (ii_opcode ?info))
      (INFO_NSRC (ii_opcode ?info)) = Some i0"
    using assms k op by (auto simp: unf split: if_splits)
  obtain dsts id where dsts: "dst_slots ?info (INFO_NDST (ii_opcode ?info)) = Some dsts"
    and dd: "decode_opnds opnd_decoders inst pc orig_pc dsts i0 = Some (True, id)"
    using assms k op num by (auto simp: unf split: if_splits)
  obtain srcs i1 where srcs: "src_slots ?info (INFO_NSRC (ii_opcode ?info)) = Some srcs"
    and ds: "decode_opnds opnd_decoders inst pc orig_pc srcs id = Some (True, i1)"
    using assms k op num dsts dd by (auto simp: unf split: if_splits)
  have "next_pc = pc + word_of_int (instruction_width (read_u16 mem pc))"
    "if pc = orig_pc then instr_set_raw_bits i1 pc (ucast (next_pc - pc)) = Some i'
     else i' = instr_set_translation (instr_set_raw_bits_valid i1 False) orig_pc"
    using assms k op num dsts dd srcs ds by (auto simp: unf split: if_splits)
  moreover have "i_opcode i0 = k" "instr_operands_valid i0" "\<not> instr_raw_bits_valid i0"
    using op num by (auto simp: instr_set_opcode_def instr_set_num_opnds_def Let_def
        bind_eq_Some_conv split: if_splits)
  ultimately show thesis
    using that k dd ds dsts srcs num_opnds_counts [OF op num] by (auto simp: entry_slots_def decode_opnds_append)
qed

lemma decode_common_slots:
  assumes "decode_common T rd DR_ISA_RV64 mem pc orig_pc instr = Some (Some next_pc, i')"
    and "decode_fetch T mem pc = Some (inst, Some k)"
    and "ii_type (instr_infos T ! k) = k" "k \<noteq> OP_INVALID"
  obtains slots i0 i1 where "k < length (instr_infos T)"
    "entry_slots (instr_infos T ! k) = Some slots"
    "decode_opnds opnd_decoders inst pc orig_pc slots i0 = Some (True, i1)"
    "\<And>s. slot_get i' s = slot_get i1 s" "i_opcode i' = k"
proof -
  obtain i0 slots i1 where st: "k < length (instr_infos T)" "i_opcode i0 = k"
    "entry_slots (instr_infos T ! k) = Some slots"
    "decode_opnds opnd_decoders inst pc orig_pc slots i0 = Some (True, i1)"
    and fin: "if pc = orig_pc then instr_set_raw_bits i1 pc (ucast (next_pc - pc)) = Some i'
      else i' = instr_set_translation (instr_set_raw_bits_valid i1 False) orig_pc"
    by (rule decode_common_steps [OF assms(1-3)])
  have "i_opcode i1 = k"
    using rv.decode_opnds_frame [OF st(4)] st(2) by (simp add: instr_frame_def)
  then have "slot_get i' s = slot_get i1 s \<and> i_opcode i' = k" for s
    using fin raw_bits_keep assms(4) by (auto simp: instr_valid_def split: if_splits)
  then show thesis using that st by blast
qed

lemma set_all_flags:
  "set_all slot_set i ws = Some i' \<Longrightarrow> instr_operands_valid i \<Longrightarrow> \<not> instr_raw_bits_valid i \<Longrightarrow>
   instr_operands_valid i' \<and> \<not> instr_raw_bits_valid i'"
proof (induction ws arbitrary: i)
  case (Cons w ws)
  then show ?case using slot_set_Some(4) by (cases w) (fastforce simp: bind_eq_Some_conv)
qed simp

lemma instr_set_raw_bits_sets:
  "instr_set_raw_bits i addr len = Some i' \<Longrightarrow> instr_valid i \<Longrightarrow>
   instr_raw_bits_valid i' \<and> i_bytes i' = addr \<and> i_length i' = len \<and>
   instr_operands_valid i' = instr_operands_valid i \<and> i_opcode i' = i_opcode i \<and>
   i_num_dsts i' = i_num_dsts i \<and> i_num_srcs i' = i_num_srcs i"
  by (auto simp: instr_set_raw_bits_def instr_raw_bits_valid_def instr_operands_valid_def
      split: if_splits)

lemma decode_common_result:
  assumes dec: "decode_common T rd DR_ISA_RV64 mem pc orig_pc instr = Some (Some next_pc, i')"
    and fetch: "decode_fetch T mem pc = Some (inst, Some k)"
    and ty: "ii_type (instr_infos T ! k) = k" "k \<noteq> OP_INVALID"
  shows "i_opcode i' = k \<and> instr_operands_valid i' \<and>
     (i_num_dsts i', i_num_srcs i') = counts_for (instr_infos T ! k) instr \<and>
     next_pc = pc + word_of_int (instruction_width (read_u16 mem pc)) \<and>
     (if pc = orig_pc
      then instr_raw_bits_valid i' \<and> i_bytes i' = pc \<and> i_length i' = ucast (next_pc - pc)
      else \<not> instr_raw_bits_valid i' \<and> i_translation i' = orig_pc)"
proof -
  obtain i0 slots i1 where i0: "i_opcode i0 = k" "instr_operands_valid i0" "\<not> instr_raw_bits_valid i0"
      "(i_num_dsts i0, i_num_srcs i0) = counts_for (instr_infos T ! k) instr"
    and d: "decode_opnds opnd_decoders inst pc orig_pc slots i0 = Some (True, i1)"
    and np: "next_pc = pc + word_of_int (instruction_width (read_u16 mem pc))"
    and fin: "if pc = orig_pc then instr_set_raw_bits i1 pc (ucast (next_pc - pc)) = Some i'
      else i' = instr_set_translation (instr_set_raw_bits_valid i1 False) orig_pc"
    by (rule decode_common_steps [OF dec fetch ty(1)])
  have i1: "i_opcode i1 = k" "instr_operands_valid i1" "\<not> instr_raw_bits_valid i1"
    "(i_num_dsts i1, i_num_srcs i1) = counts_for (instr_infos T ! k) instr"
    using rv.decode_opnds_frame [OF d] rv.decode_opnds_writes [OF d] set_all_flags i0
    by (auto simp: instr_frame_def)
  show ?thesis
    using fin np i1 ty(2) instr_set_raw_bits_sets [of i1]
    by (auto simp: instr_valid_def instr_set_translation_def instr_flag_defs split: if_splits)
qed

text \<open>
  C33: What a successful decode leaves in the instruction object besides the operands: the opcode
  of the matched entry, valid operands, as many destinations and sources as the two topmost and the next three bits of
  the entry's opcode word say (a count of zero leaves the one the object had, which is zero in a fresh one), and the address
  of the next instruction. If the code was decoded in place, the raw bits are valid, point at the decoded
  bytes, and the length is that of the instruction; otherwise the raw bits are invalid, the length is not set, and the
  translation is the original address.
\<close>

theorem decode_common_sets:
  assumes dec: "decode_common T rd DR_ISA_RV64 mem pc orig_pc instr = Some (Some next_pc, i')"
    and fetch: "decode_fetch T mem pc = Some (inst, Some k)"
    and ty: "ii_type (instr_infos T ! k) = k" "k \<noteq> OP_INVALID"
  shows "i_opcode i' = k \<and> instr_operands_valid i' \<and>
     (i_num_dsts i', i_num_srcs i') = counts_for (instr_infos T ! k) instr \<and>
     next_pc = pc + word_of_int (instruction_width (read_u16 mem pc)) \<and>
     (if pc = orig_pc
      then instr_raw_bits_valid i' \<and> i_bytes i' = pc \<and> i_length i' = ucast (next_pc - pc)
      else \<not> instr_raw_bits_valid i' \<and> i_translation i' = orig_pc)"
  using decode_common_result [OF assms] by simp

text \<open>
  The decoder returns \<^verbatim>\<open>NULL\<close> only when the lookup found no entry: the \<^verbatim>\<open>decode_failure\<close> path of
  the source is never taken.
\<close>

lemma decode_common_null:
  "decode_common T rd DR_ISA_RV64 mem pc orig_pc instr = Some (None, i') \<longleftrightarrow>
     (i_opcode instr = OP_INVALID \<or> i_opcode instr = OP_UNDECODED) \<and> i' = instr \<and>
     (\<exists>inst. decode_fetch T mem pc = Some (inst, None))"
  by (auto simp: decode_common_def bind_eq_Some_conv Let_def split: if_splits option.splits
      dest: rv.decode_opnds_ok)

lemma decode_fetch_match:
  "decode_fetch T mem pc = Some (inst, Some k) \<Longrightarrow> inst \<noteq> 0 \<Longrightarrow>
   inst AND info_mask (instr_infos T ! k) = info_match (instr_infos T ! k)"
  by (auto simp: decode_fetch_def get_rv_instr_info_def get_rvc_instr_info_def bind_eq_Some_conv Let_def
      split: if_splits option.splits)

definition entry_wf :: "codec_tables \<Rightarrow> nat \<Rightarrow> bool" where
  "entry_wf T k \<longleftrightarrow> ii_type (instr_infos T ! k) = k \<and> k \<noteq> OP_INVALID \<and>
     (case entry_slots (instr_infos T ! k) of None \<Rightarrow> False
      | Some slots \<Rightarrow> distinct (map (slot_of opnd_specs) slots))"

definition entry_covers :: "rv_instr_info_t \<Rightarrow> u32 \<Rightarrow> bool" where
  "entry_covers info inst \<longleftrightarrow>
     (case entry_slots info of None \<Rightarrow> False
      | Some slots \<Rightarrow> inst AND (info_mask info OR slots_mask opnd_specs inst slots) = inst) \<and>
     (ii_ext info = RISCV64_ISA_EXT_RVC \<longrightarrow> inst AND 0xFFFF = inst)"

definition entry_side :: "codec_tables \<Rightarrow> nat \<Rightarrow> u32 \<Rightarrow> instr_t \<Rightarrow> bool" where
  "entry_side T k inst instr \<longleftrightarrow>
     (case entry_slots (instr_infos T ! k) of None \<Rightarrow> False
      | Some slots \<Rightarrow> slots_side opnd_specs (OP_enum T) inst slots instr)"

lemma encode_after_decode:
  assumes dec: "decode_common T rd DR_ISA_RV64 mem pc orig_pc instr = Some (Some next_pc, instr')"
    and fetch: "decode_fetch T mem pc = Some (inst, Some k)" "inst \<noteq> 0"
    and wf: "entry_wf T k" "entry_covers (instr_infos T ! k) inst"
    and side: "entry_side T k inst instr'" "di_OP di = OP_enum T"
    and even: "orig_pc AND 1 = 0"
  shows "encode_common T orig_pc instr' di = Some inst"
proof -
  let ?info = "instr_infos T ! k"
  obtain slots i0 i1 where k: "k < length (instr_infos T)" and slots: "entry_slots ?info = Some slots"
    and d: "decode_opnds opnd_decoders inst pc orig_pc slots i0 = Some (True, i1)"
    and same: "\<And>s. slot_get instr' s = slot_get i1 s" and opc: "i_opcode instr' = k"
    by (rule decode_common_slots [OF dec fetch(1)]) (use wf(1) in \<open>auto simp: entry_wf_def\<close>)
  have "encode_opnds opnd_encoders instr' orig_pc slots (info_match ?info) di =
      Some (True, info_match ?info OR (inst AND slots_mask opnd_specs inst slots))"
    using wf(1) side slots same by (intro rv.opnds_roundtrip [OF d]) (auto simp: entry_wf_def entry_side_def)
  moreover have "info_match ?info = inst AND info_mask ?info"
    using decode_fetch_match [OF fetch] by simp
  then have "info_match ?info OR (inst AND slots_mask opnd_specs inst slots) = inst"
    using wf(2) slots by (simp add: entry_covers_def word_ao_dist [symmetric] ac_simps)
      (simp add: bit.conj_disj_distrib)
  ultimately show ?thesis
    using encode_common_slots [of T instr' slots orig_pc di] slots opc k even wf(2)
    by (simp add: entry_covers_def)
qed

text \<open>
  C32: Decoding and then encoding an instruction gives back the original word. It needs of the
  table entry that its number is its opcode, that its operands live in different slots and that
  its fixed bits and operand fields cover the word; and the side conditions of the fields.
\<close>

theorem encode_decode_roundtrip:
  assumes dec: "decode_common T rd DR_ISA_RV64 mem pc orig_pc instr = Some (Some next_pc, instr')"
    and fetch: "decode_fetch T mem pc = Some (inst, Some k)" "inst \<noteq> 0"
    and wf: "entry_wf T k" "entry_covers (instr_infos T ! k) inst"
    and side: "entry_side T k inst instr'" "di_OP di = OP_enum T"
    and even: "orig_pc AND 1 = 0"
  shows "encode_common T orig_pc instr' di = Some inst"
  using encode_after_decode [OF assms] by simp

text \<open>
  An entry that the decoder picks for a nonzero word exists in the table and agrees with the
  word on all fixed bits.
\<close>

theorem decode_fetch_sound:
  "decode_fetch T mem pc = Some (inst, Some k) \<Longrightarrow> inst \<noteq> 0 \<Longrightarrow>
   k < length (instr_infos T) \<and>
   inst AND info_mask (instr_infos T ! k) = info_match (instr_infos T ! k)"
  by (auto simp: decode_fetch_def get_rv_instr_info_def get_rvc_instr_info_def bind_eq_Some_conv
      Let_def split: if_splits option.splits)

text \<open>
  A compressed \<^verbatim>\<open>c.nop\<close> with a nonzero immediate is a HINT that a processor executes as a
  no-op. The matcher picks the \<^verbatim>\<open>c_nop\<close> entry, whose fixed bits cover the whole halfword, and
  the consistency assertion of \<^verbatim>\<open>get_rvc_instr_info\<close> fails.
\<close>

theorem c_nop_hint_aborts:
  assumes "info_mask (instr_infos T ! OP_enum T ''c_nop'') = 0xFFFF"
    and "info_match (instr_infos T ! OP_enum T ''c_nop'') = 0x0001"
    and "GET_FIELD inst 1 0 = 1" "GET_FIELD inst 15 13 = 0" "GET_FIELD inst 11 7 = 0"
    and "inst AND 0xFFFF \<noteq> 0x0001"
  shows "get_rvc_instr_info T inst 64 = None"
proof -
  have "inst \<noteq> 0" using assms(3) by (auto simp: GET_FIELD_def shr_def)
  then show ?thesis using assms by (simp add: get_rvc_instr_info_def match_op_1_def)
qed

end
