(* ===== verification/RvSample.thy ===== *)
theory RvSample
  imports RvCodec
begin

text \<open>
  A small instance of the generated tables, for evaluating the codec on concrete instructions:
  the entries that the build derives from \<^verbatim>\<open>isl/rv32i.txt\<close>, \<^verbatim>\<open>rvc.txt\<close> and \<^verbatim>\<open>rv32f.txt\<close> for a few
  instructions, numbered from \<^verbatim>\<open>OP_FIRST\<close> on, and the trie over them (the root indexes with the
  major opcode, each of its children is a leaf). \<open>codec_eval\<close> collects what \<open>simp\<close> needs to run
  the codec on them.
\<close>

unbundle bit_operations_syntax

named_theorems codec_eval

definition no_info :: rv_instr_info_t where [codec_eval]:
  "no_info = \<lparr>ii_type = 0, ii_opcode = 0, ii_dst1_type = 0, ii_dst1_size = 0, ii_dst2_type = 0,
     ii_dst2_size = 0, ii_src1_type = 0, ii_src1_size = 0, ii_src2_type = 0, ii_src2_size = 0,
     ii_src3_type = 0, ii_src3_size = 0, ii_code = 0, ii_ext = 0\<rparr>"

definition info_for :: "nat \<Rightarrow> u32 \<Rightarrow> u32 \<Rightarrow> nat \<Rightarrow> rv_instr_info_t" where [codec_eval]:
  "info_for op match msk ext = no_info\<lparr>ii_type := op,
     ii_code := shl (ucast match) 32 OR ucast msk, ii_ext := ext\<rparr>"

definition jal_info :: rv_instr_info_t where [codec_eval]:
  "jal_info = (info_for 4 0x6f 0x7f 5)\<lparr>ii_opcode := 0x48000000, ii_dst1_type := 1,
     ii_dst1_size := 6, ii_src1_type := 23, ii_src1_size := 3\<rparr>"

definition beq_info :: rv_instr_info_t where [codec_eval]:
  "beq_info = (info_for 5 0x63 0x707f 5)\<lparr>ii_opcode := 0x18000000, ii_src1_type := 20,
     ii_src1_size := 3, ii_src2_type := 3, ii_src2_size := 6, ii_src3_type := 6, ii_src3_size := 6\<rparr>"

definition addi_info :: rv_instr_info_t where [codec_eval]:
  "addi_info = (info_for 6 0x13 0x707f 5)\<lparr>ii_opcode := 0x50000000, ii_dst1_type := 1,
     ii_dst1_size := 6, ii_src1_type := 3, ii_src1_size := 6, ii_src2_type := 18,
     ii_src2_size := 52\<rparr>"

definition c_li_info :: rv_instr_info_t where [codec_eval]:
  "c_li_info = (info_for 7 0x4001 0xe003 22)\<lparr>ii_opcode := 0x50000000, ii_dst1_type := 24,
     ii_dst1_size := 6, ii_src1_type := 54, ii_src1_size := 6, ii_src2_type := 48,
     ii_src2_size := 47\<rparr>"

definition fmadd_s_info :: rv_instr_info_t where [codec_eval]:
  "fmadd_s_info = (info_for 10 0x43 0x600007f 3)\<lparr>ii_opcode := 0x60000000, ii_dst1_type := 2,
     ii_dst1_size := 6, ii_src1_type := 4, ii_src1_size := 6, ii_src2_type := 7, ii_src2_size := 6,
     ii_src3_type := 8, ii_src3_size := 6, ii_dst2_type := 14, ii_dst2_size := 44\<rparr>"

definition sample_infos :: "rv_instr_info_t list" where
  "sample_infos = [no_info, no_info, no_info, no_info, jal_info, beq_info, addi_info, c_li_info,
     info_for 8 0x0001 0xffff 22, info_for 9 0x0000 0xffff 22, fmadd_s_info]"

definition sample_leaf :: "nat \<Rightarrow> trie_node_t" where
  "sample_leaf opc = \<lparr>tn_mask = 0, tn_shift = 0,
     tn_index = (if opc = 0x6f then 4 else if opc = 0x63 then 5 else if opc = 0x13 then 6
       else if opc = 0x43 then 10 else 0xffff)\<rparr>"

definition sample_trie :: "trie_node_t list" where
  "sample_trie = \<lparr>tn_mask = 0x7f, tn_shift = 0, tn_index = 1\<rparr> # map sample_leaf [0..<128]"

definition sample_OP :: op_enum where
  "sample_OP s = (case map_of [(''jal'', 4), (''beq'', 5), (''addi'', 6), (''c_li'', 7),
     (''c_nop'', 8), (''unimp'', 9), (''fmadd_s'', 10)] s of Some n \<Rightarrow> n | None \<Rightarrow> 100)"

definition sample_tables :: codec_tables where
  "sample_tables = \<lparr>instr_infos = sample_infos, instr_infos_trie = sample_trie,
     OP_enum = sample_OP\<rparr>"

text \<open>Four bytes of memory at address \<open>0x1000\<close>.\<close>

definition bytes4 :: "u8 \<Rightarrow> u8 \<Rightarrow> u8 \<Rightarrow> u8 \<Rightarrow> memory" where
  "bytes4 b0 b1 b2 b3 a = (if a = 0x1000 then b0 else if a = 0x1001 then b1
     else if a = 0x1002 then b2 else if a = 0x1003 then b3 else 0)"

definition sample_di :: decode_info_t where
  "sample_di = \<lparr>di_check_reachable = True, di_OP = sample_OP, di_offset = (\<lambda>_. 0)\<rparr>"

definition no_regdeps :: "u64 \<Rightarrow> instr_t \<Rightarrow> (u64 option \<times> instr_t) option" where
  "no_regdeps pc instr = None"

subsection \<open>Evaluation rules\<close>

lemma sample_trie_nth:
  "sample_trie ! (opc + 1) = sample_leaf opc \<and> opc + 1 < length sample_trie" if "opc < 128"
  using that by (simp add: sample_trie_def)

lemma sample_lookup [codec_eval]:
  "0 < k \<Longrightarrow> k \<le> 128 \<Longrightarrow>
   trie_lookup sample_trie w k = Some (unat (tn_index (sample_leaf (k - 1))))"
  using sample_trie_nth [of "k - 1"]
  by (simp add: trie_lookup.simps TRIE_NODE_EMPTY_eq TRIE_LEAF_NODE_def sample_leaf_def)

lemma sample_tables_sel [codec_eval]:
  "instr_infos sample_tables = sample_infos" "instr_infos_trie sample_tables = sample_trie"
  "OP_enum sample_tables = sample_OP"
  by (simp_all add: sample_tables_def)

lemma sample_infos_nth [codec_eval]:
  "sample_infos ! 4 = jal_info" "sample_infos ! 5 = beq_info" "sample_infos ! 6 = addi_info"
  "sample_infos ! 7 = c_li_info" "sample_infos ! 10 = fmadd_s_info" "length sample_infos = 11"
  by (simp_all add: sample_infos_def)

lemma decoders_nth [codec_eval]:
  "opnd_decoders ! Suc 0 = decode_rd_opnd" "opnd_decoders ! 2 = decode_rdfp_opnd"
  "opnd_decoders ! 3 = decode_rs1_opnd" "opnd_decoders ! 4 = decode_rs1fp_opnd"
  "opnd_decoders ! 6 = decode_rs2_opnd" "opnd_decoders ! 7 = decode_rs2fp_opnd"
  "opnd_decoders ! 8 = decode_rs3fp_opnd" "opnd_decoders ! 14 = decode_rm_opnd"
  "opnd_decoders ! 18 = decode_i_imm_opnd" "opnd_decoders ! 20 = decode_b_imm_opnd"
  "opnd_decoders ! 23 = decode_j_imm_opnd" "opnd_decoders ! 24 = decode_crd_opnd"
  "opnd_decoders ! 48 = decode_cimm5_opnd" "opnd_decoders ! 54 = decode_irs1_zero_opnd"
  by (simp_all add: opnd_decoders_def)

lemma specs_nth [codec_eval]:
  "opnd_specs ! Suc 0 = plain AtDst (fmask 11 7)" "opnd_specs ! 3 = plain AtSrc (fmask 19 15)"
  "opnd_specs ! 18 = plain AtSrc (fmask 31 20)" "opnd_specs ! 23 = j_imm_spec"
  by (simp_all add: opnd_specs_def)

lemma sizes_eval [codec_eval]:
  "opnd_size_in_bytes 52 = Some 2" "opnd_size_in_bytes 47 = Some 1" "opnd_size_in_bytes 44 = Some 1"
  "OPSZ_LAST_ENUM = 112"
  by (simp_all add: opnd_size_in_bytes_def opsz_table_def OPSZ_LAST_ENUM_def)

lemmas word_eval [codec_eval] = GET_FIELD_def SET_FIELD_def BIT_def SIGN_EXTEND_def shr_def shl_def
  sar_def TESTALL_def or_assign_i32_def or_assign_u32_def fmask_def

lemmas instr_eval [codec_eval] = instr_set_opcode_def instr_set_num_opnds_def instr_flag_defs
  INSTR_IS_NOALLOC_STRUCT_def INSTR_OPERANDS_VALID_def INSTR_RAW_BITS_VALID_def
  INSTR_OUR_MANGLING_def INSTR_RAW_BITS_ALLOCATED_def instr_valid_def instr_set_src_def
  instr_set_dst_def instr_set_raw_bits_def instr_set_target_def instr_get_src_def instr_get_dst_def
  instr_set_translation_def

lemmas opnd_eval [codec_eval] = opnd_create_reg_def opnd_create_immed_int_def
  opnd_check_immed_size_def opnd_create_pc_def opnd_add_flags_def DR_OPND_IMM_PRINT_DECIMAL_def

lemmas entry_eval [codec_eval] = INFO_NDST_def INFO_NSRC_def info_mask_def info_match_def
  dst_slots_def src_slots_def entry_slots_def

lemmas fetch_eval = decode_fetch_def get_rv_instr_info_def get_rvc_instr_info_def
  OPCODE_FLD_MASK_def TRIE_NODE_EMPTY_eq instruction_width_def read_u16_def bytes4_def
  sample_leaf_def

lemma fetch_addi:
  "decode_fetch sample_tables (bytes4 0x93 0x82 0xf2 0xff) 0x1000 = Some (0xfff28293, Some 6)"
  by (simp add: fetch_eval codec_eval)

lemma fetch_jal:
  "decode_fetch sample_tables (bytes4 0x6f 0 0x10 0) 0x1000 = Some (0x0010006f, Some 4)"
  by (simp add: fetch_eval codec_eval)

lemma decode_addi:
  "\<exists>instr. decode_common sample_tables no_regdeps DR_ISA_RV64 (bytes4 0x93 0x82 0xf2 0xff) 0x1000
     0x1000 instr_init = Some (Some 0x1004, instr)"
  by (simp add: decode_common_def fetch_addi instr_init_def read_u16_def bytes4_def
      instruction_width_def codec_eval codec_defs)

lemma decode_jal:
  "\<exists>instr. decode_common sample_tables no_regdeps DR_ISA_RV64 (bytes4 0x6f 0 0x10 0) 0x1000
     0x1000 instr_init = Some (Some 0x1004, instr) \<and>
     instr_get_target sample_OP instr = Some (PC_kind 0x1800)"
  by (simp add: decode_common_def fetch_jal instr_init_def read_u16_def bytes4_def
      instruction_width_def codec_eval codec_defs instr_get_target_def instr_is_cti_def
      instr_is_cbr_arch_def instr_is_ubr_arch_def instr_is_mbr_arch_def op_is_def sample_OP_def
      cbr_ops_def instr_get_opcode_def or_else_def and_then_def dst_reg_def)

subsection \<open>Witnesses\<close>

theorem encode_decode_roundtrip_witness:
  "\<exists>instr. decode_common sample_tables no_regdeps DR_ISA_RV64 (bytes4 0x93 0x82 0xf2 0xff) 0x1000
     0x1000 instr_init = Some (Some 0x1004, instr) \<and>
     encode_common sample_tables 0x1000 instr sample_di = Some 0xfff28293"
proof -
  obtain instr where "decode_common sample_tables no_regdeps DR_ISA_RV64
      (bytes4 0x93 0x82 0xf2 0xff) 0x1000 0x1000 instr_init = Some (Some 0x1004, instr)"
    using decode_addi by blast
  moreover from this have "encode_common sample_tables 0x1000 instr sample_di = Some 0xfff28293"
    by (rule encode_decode_roundtrip [OF _ fetch_addi])
      (simp_all add: entry_wf_def entry_covers_def entry_side_def slots_side_def slot_of_def
        sample_di_def plain_def codec_eval)
  ultimately show ?thesis by blast
qed

theorem decode_common_sets_witness:
  "\<exists>instr. decode_common sample_tables no_regdeps DR_ISA_RV64 (bytes4 0x93 0x82 0xf2 0xff) 0x1000
     0x1000 instr_init = Some (Some 0x1004, instr) \<and> i_opcode instr = 6 \<and>
     i_num_dsts instr = 1 \<and> i_num_srcs instr = 2 \<and> instr_raw_bits_valid instr \<and> i_length instr = 4"
proof -
  obtain instr where d: "decode_common sample_tables no_regdeps DR_ISA_RV64
      (bytes4 0x93 0x82 0xf2 0xff) 0x1000 0x1000 instr_init = Some (Some 0x1004, instr)"
    using decode_addi by blast
  then show ?thesis
    using decode_common_sets [OF d fetch_addi]
    by (simp add: codec_eval counts_for_def entry_ndst_def entry_nsrc_def instr_init_def)
qed

theorem decode_fetch_sound_witness:
  "(0xfff28293 :: u32) AND info_mask addi_info = info_match addi_info"
  using decode_fetch_sound [OF fetch_addi] by (simp add: sample_tables_sel sample_infos_nth)

theorem c_nop_hint_aborts_witness:
  "get_rvc_instr_info sample_tables 0x0005 64 = None"
  by (rule c_nop_hint_aborts) (simp_all add: codec_eval sample_OP_def sample_infos_def)

theorem operand_roundtrip_witness:
  "\<exists>instr. decode_rs1_opnd 0xfff28293 6 0x1000 0x1000 0 (instr_init\<lparr>i_num_srcs := 1\<rparr>) =
     Some (True, instr) \<and> encode_rs1_opnd instr 0x1000 0 0x13 sample_di = Some (True, 0x28013)"
proof -
  obtain instr where d: "decode_rs1_opnd 0xfff28293 6 0x1000 0x1000 0
      (instr_init\<lparr>i_num_srcs := 1\<rparr>) = Some (True, instr)"
    by (simp add: codec_eval decode_rs1_opnd_def)
  have n: "opnd_decoders ! 3 = decode_rs1_opnd" "opnd_encoders ! 3 = encode_rs1_opnd"
    "opnd_specs ! 3 = plain AtSrc (fmask 19 15)"
    by (simp_all add: opnd_decoders_def opnd_encoders_def opnd_specs_def)
  show ?thesis
    using operand_roundtrip [of 3 "0xfff28293" 6 "0x1000" "0x1000" 0 _ True instr sample_di "0x13"] d
    by (simp add: n plain_def codec_eval)
qed

theorem encode_j_imm_leak_witness:
  "\<exists>instr w. decode_common sample_tables no_regdeps DR_ISA_RV64 (bytes4 0x6f 0 0x10 0) 0x1000
     0x1000 instr_init = Some (Some 0x1004, instr) \<and>
     encode_j_imm_opnd instr 0x1000 0 0x6f sample_di = Some (True, w) \<and> bit w 31 \<and>
     \<not> bit (0x0010006f :: u32) 31"
proof -
  obtain instr where d: "decode_common sample_tables no_regdeps DR_ISA_RV64 (bytes4 0x6f 0 0x10 0)
      0x1000 0x1000 instr_init = Some (Some 0x1004, instr)"
    and t: "instr_get_target (di_OP sample_di) instr = Some (PC_kind 0x1800)"
    using decode_jal by (auto simp: sample_di_def)
  show ?thesis
    using encode_j_imm_leak [OF t, of "0x1000" 0 "0x6f"] d by (auto simp: bit_numeral_rec)
qed

theorem b_imm_encode_decode_witness:
  "\<exists>instr w. instr_get_target sample_OP instr = Some (PC_kind 0x0ffe) \<and>
     encode_b_imm_opnd instr 0x1000 0 0x63 sample_di = Some (True, w) \<and>
     decode_b_imm_opnd w 3 0x1000 0x1000 0 (instr_init\<lparr>i_num_srcs := 1\<rparr>) =
       map_option (Pair True) (instr_set_target (instr_init\<lparr>i_num_srcs := 1\<rparr>) (PC_kind 0x0ffe))"
proof -
  let ?i = "instr_init\<lparr>i_opcode := 5, i_num_srcs := 1, i_src0 := PC_kind 0x0ffe,
    i_flags := INSTR_OPERANDS_VALID\<rparr>"
  have t: "instr_get_target (di_OP sample_di) ?i = Some (PC_kind 0x0ffe)"
    by (simp add: instr_get_target_def instr_is_cti_def instr_is_cbr_arch_def op_is_def cbr_ops_def
        sample_OP_def instr_get_opcode_def or_else_def sample_di_def codec_eval)
  have "\<exists>w. encode_b_imm_opnd ?i 0x1000 0 0x63 sample_di = Some (True, w) \<and>
     decode_b_imm_opnd w 3 0x1000 0x1000 0 (instr_init\<lparr>i_num_srcs := 1\<rparr>) =
       map_option (Pair True) (instr_set_target (instr_init\<lparr>i_num_srcs := 1\<rparr>) (PC_kind 0x0ffe))"
    by (rule b_imm_encode_decode [OF t]) (simp_all add: codec_eval)
  then show ?thesis using t by (auto simp: sample_di_def)
qed

theorem trie_lookup_total_witness:
  "\<exists>r \<le> TRIE_NODE_EMPTY. trie_lookup [\<lparr>tn_mask = 1, tn_shift = 0, tn_index = 1\<rparr>,
     \<lparr>tn_mask = 0, tn_shift = 0, tn_index = 7\<rparr>, \<lparr>tn_mask = 0, tn_shift = 0, tn_index = 8\<rparr>] 5 0 = Some r"
  by (rule trie_lookup_total) (simp_all add: trie_wf_def TRIE_LEAF_NODE_def)

text \<open>An opcode enumeration of the control transfers, in the order \<^verbatim>\<open>cti_ops\<close> lists them.\<close>

definition cti_OP :: op_enum where
  "cti_OP s = 4 + index_of s (map (\<lambda>n. (n, ())) cti_ops)"

lemma cti_OP_wf: "op_wf cti_OP"
  by (simp add: op_wf_def cti_OP_def cti_ops_def cbr_ops_def)

lemma cti_OP_eval: "cti_OP ''beq'' = 4" "cti_OP ''bne'' = 5" "cti_OP ''jalr'' = 15"
  by (simp_all add: cti_OP_def cti_ops_def cbr_ops_def)

theorem instr_invert_cbr_involutive_witness:
  "\<exists>i1 i2. instr_invert_cbr cti_OP (instr_init\<lparr>i_opcode := 4\<rparr>) = Some i1 \<and>
     instr_invert_cbr cti_OP i1 = Some i2 \<and> i_opcode i2 = 4 \<and> i_opcode i1 \<noteq> 4"
proof -
  have "instr_is_cbr_arch cti_OP (instr_init\<lparr>i_opcode := 4\<rparr>) = Some True"
    by (simp add: instr_is_cbr_arch_def instr_get_opcode_def op_is_def cbr_ops_def cti_OP_eval)
  from instr_invert_cbr_involutive [OF cti_OP_wf this] show ?thesis by auto
qed

definition ret_instr :: instr_t where
  "ret_instr = instr_init\<lparr>i_opcode := 15, i_num_dsts := 1, i_num_srcs := 2,
     i_flags := INSTR_OPERANDS_VALID, i_dsts := [Some (REG_kind 0 0 DR_REG_ZERO 0)],
     i_src0 := REG_kind 0 0 DR_REG_RA 0, i_srcs := [Some (IMMED_INTEGER_kind 0 0 0)]\<rparr>"

theorem branch_type_classifies_witness:
  "instr_branch_type cti_OP ret_instr = Some (LINK_INDIRECT OR LINK_RETURN) \<and>
   instr_is_cti cti_OP ret_instr = Some True \<and> instr_is_return cti_OP ret_instr = Some True"
proof -
  have ops: "''jalr'' \<in> set cti_ops" "cti_OP ''jalr'' = 15" by (simp_all add: cti_ops_def cti_OP_eval)
  note cl = op_classes [OF cti_OP_wf ops(1), unfolded ops(2)]
  have ty: "instr_branch_type cti_OP ret_instr = Some (LINK_INDIRECT OR LINK_RETURN)"
    by (simp add: instr_branch_type_def ret_instr_def instr_get_opcode_def cl dst_reg_def src_reg_def
        src_immed_int_def and_then_def codec_eval)
  have "compressed_dst_ok cti_OP ret_instr"
    by (simp add: compressed_dst_ok_def ret_instr_def cl)
  from branch_type_classifies [OF cti_OP_wf ty this] show ?thesis
    using ty by (simp add: TESTANY_def)
qed

text \<open>An \<^verbatim>\<open>instr_noalloc_t\<close> is too small for the codec: decoding \<^verbatim>\<open>fmadd.s\<close>, whose entry has four sources,
succeeds into a heap-allocated instruction and runs past the three source slots of a fresh
\<^verbatim>\<open>instr_noalloc_t\<close>.\<close>

theorem noalloc_fmadd_overflow:
  "decode_common sample_tables no_regdeps DR_ISA_RV64 (bytes4 0x43 0xf0 0x20 0x18) 0x1000 0x1000
     instr_noalloc_init = None \<and>
   (\<exists>instr. decode_common sample_tables no_regdeps DR_ISA_RV64 (bytes4 0x43 0xf0 0x20 0x18) 0x1000
     0x1000 instr_init = Some (Some 0x1004, instr) \<and> i_num_srcs instr = 4)"
proof -
  have f: "decode_fetch sample_tables (bytes4 0x43 0xf0 0x20 0x18) 0x1000 = Some (0x1820f043, Some 10)"
    by (simp add: fetch_eval codec_eval)
  show ?thesis
    by (simp add: decode_common_def f instr_noalloc_init_def instr_init_def read_u16_def bytes4_def
      instruction_width_def codec_eval codec_defs)
qed

end
