(* ===== verification/Bytes.thy ===== *)
theory Bytes
  imports Prelude
begin

text \<open>
  Byte-level facts shared by the tracer and the Python scripts: little-endian integers in memory
  and in files, stores into a byte buffer, and decimal numerals.
\<close>

subsection \<open>Little-endian integers\<close>

fun le_bytes :: "nat \<Rightarrow> nat \<Rightarrow> u8 list" where
  "le_bytes 0 x = []"
| "le_bytes (Suc n) x = word_of_nat (x mod 256) # le_bytes n (x div 256)"

text \<open>Python's \<^verbatim>\<open>int.from_bytes(bs, "little")\<close>.\<close>

fun from_le :: "u8 list \<Rightarrow> nat" where
  "from_le [] = 0"
| "from_le (b # bs) = unat b + 256 * from_le bs"

lemma length_le_bytes [simp]: "length (le_bytes n x) = n"
  by (induction n arbitrary: x) simp_all

lemma unat_byte_mod [simp]: "unat (word_of_nat (x mod 256) :: u8) = x mod 256"
  by (simp add: unat_of_nat take_bit_eq_mod)

lemma from_le_le_bytes: "from_le (le_bytes n x) = x mod 256 ^ n"
proof (induction n arbitrary: x)
  case (Suc n)
  have "x mod (256 * 256 ^ n) = 256 * (x div 256 mod 256 ^ n) + x mod 256"
    by (rule mod_mult2_eq)
  then show ?case by (simp add: Suc)
qed simp

lemma from_le_unat64 [simp]: "from_le (le_bytes 8 (unat w)) = unat (w :: u64)"
  using unat_less_exp [of w] by (simp add: from_le_le_bytes)

lemma from_le_unat32 [simp]: "from_le (le_bytes 4 (unat w)) = unat (w :: u32)"
  using unat_less_exp [of w] by (simp add: from_le_le_bytes)

subsection \<open>Blocks of memory\<close>

definition read_mem :: "memory \<Rightarrow> u64 \<Rightarrow> nat \<Rightarrow> u8 list" where
  "read_mem mem a n = map (\<lambda>i. mem (a + word_of_nat i)) [0..<n]"

fun write_mem :: "memory \<Rightarrow> u64 \<Rightarrow> u8 list \<Rightarrow> memory" where
  "write_mem mem a [] = mem"
| "write_mem mem a (b # bs) = write_mem (mem(a := b)) (a + 1) bs"

lemma length_read_mem [simp]: "length (read_mem mem a n) = n"
  by (simp add: read_mem_def)

lemma read_mem_add: "read_mem mem a (n + m) = read_mem mem a n @ read_mem mem (a + word_of_nat n) m"
  by (rule nth_equalityI) (auto simp: read_mem_def nth_append ac_simps)

lemma read_mem_append:
  assumes "read_mem mem a (length (xs @ ys)) = xs @ ys"
  shows "read_mem mem a (length xs) = xs" "read_mem mem (a + word_of_nat (length xs)) (length ys) = ys"
  using assms by (simp_all add: read_mem_add)

subsection \<open>Stores into a buffer\<close>

text \<open>A store of bytes at an offset; \<open>None\<close> when it leaves the buffer.\<close>

definition store_bytes :: "'a list \<Rightarrow> nat \<Rightarrow> 'a list \<Rightarrow> 'a list option" where
  "store_bytes buf off bs =
     (if off + length bs \<le> length buf
      then Some (take off buf @ bs @ drop (off + length bs) buf) else None)"

lemma store_bytes_Some:
  "store_bytes buf off bs = Some buf' \<longleftrightarrow>
     off + length bs \<le> length buf \<and> buf' = take off buf @ bs @ drop (off + length bs) buf"
  unfolding store_bytes_def by (cases "off + length bs \<le> length buf") auto

lemma store_bytes_length: "store_bytes buf off bs = Some buf' \<Longrightarrow> length buf' = length buf"
  unfolding store_bytes_Some by simp

lemma store_bytes_prefix:
  "store_bytes buf off bs = Some buf' \<Longrightarrow> k \<le> off \<Longrightarrow> take k buf' = take k buf"
  unfolding store_bytes_Some by (simp add: min_absorb1)

lemma store_bytes_take:
  "store_bytes buf off bs = Some buf' \<Longrightarrow> take (off + length bs) buf' = take off buf @ bs"
  unfolding store_bytes_Some by simp

lemma split_at3:
  assumes "p + n \<le> length xs"
  obtains a b d where "xs = a @ b @ d" "length a = p" "length b = n"
proof -
  have "xs = take p xs @ take n (drop p xs) @ drop n (drop p xs)"
    by (simp only: append_take_drop_id)
  then show thesis using assms that by auto
qed

subsection \<open>Decimal numerals\<close>

definition digit :: "nat \<Rightarrow> char" where
  "digit d = ''0123456789'' ! d"

text \<open>Python's \<^verbatim>\<open>str(n)\<close> of a natural number.\<close>

fun str_nat :: "nat \<Rightarrow> string" where
  "str_nat n = (if n < 10 then [digit n] else str_nat (n div 10) @ [digit (n mod 10)])"

declare str_nat.simps [simp del]

lemma str_nat_small [simp]: "n < 10 \<Longrightarrow> str_nat n = [digit n]"
  by (subst str_nat.simps) simp

lemma str_nat_big: "\<not> n < 10 \<Longrightarrow> str_nat n = str_nat (n div 10) @ [digit (n mod 10)]"
  by (subst str_nat.simps) simp

lemma str_nat_digits: "c \<in> set (str_nat n) \<Longrightarrow> \<exists>d < 10. c = digit d"
proof (induction n arbitrary: c rule: str_nat.induct)
  case (1 n)
  show ?case
  proof (cases "n < 10")
    case True
    then show ?thesis using 1(2) by auto
  next
    case False
    then consider "c \<in> set (str_nat (n div 10))" | "c = digit (n mod 10)"
      using 1(2) str_nat_big [of n] by auto
    then show ?thesis
    proof cases
      case 1
      then show ?thesis using "1.IH" False by blast
    next
      case 2
      then show ?thesis by (intro exI [of _ "n mod 10"]) simp
    qed
  qed
qed

lemma str_nat_length:
  assumes "n < 10 ^ Suc k"
  shows "length (str_nat n) \<le> Suc k"
  using assms
proof (induction k arbitrary: n)
  case (Suc k)
  show ?case
  proof (cases "n < 10")
    case False
    have "n div 10 < 10 ^ Suc k" using Suc.prems by simp
    then show ?thesis using Suc.IH False by (simp add: str_nat_big)
  qed simp
qed simp

end
