(* ===== verification/RvApi.thy ===== *)
theory RvApi
  imports RvSample Bytes
begin

text \<open>
  The routines of \<^verbatim>\<open>core/ir/riscv64/decode.c\<close> and \<^verbatim>\<open>encode.c\<close> around the codec: the entry points of the decoder, the
  raw queries that look at the bytes without decoding, writing an instruction into memory, and the
  register tables. Memory is a function from addresses to bytes. The entry points that stop at
  \<^verbatim>\<open>ASSERT_NOT_IMPLEMENTED\<close> are left out.
\<close>

unbundle bit_operations_syntax

subsection \<open>Decoding\<close>

definition read_u32 :: "memory \<Rightarrow> u64 \<Rightarrow> u32" where
  "read_u32 mem pc = ucast (read_u16 mem pc) OR shl (ucast (read_u16 mem (pc + 2))) 16"

definition is_isa_mode_legal :: "dr_isa_mode_t \<Rightarrow> bool" where
  "is_isa_mode_legal mode \<longleftrightarrow> mode = DR_ISA_RV64 \<or> mode = DR_ISA_REGDEPS"

definition canonicalize_pc_target :: "u64 \<Rightarrow> u64" where
  "canonicalize_pc_target pc = pc"

definition decode ::
  "codec_tables \<Rightarrow> (u64 \<Rightarrow> instr_t \<Rightarrow> (u64 option \<times> instr_t) option) \<Rightarrow> dr_isa_mode_t \<Rightarrow> memory \<Rightarrow>
   u64 \<Rightarrow> instr_t \<Rightarrow> (u64 option \<times> instr_t) option" where
  "decode T rd mode mem pc instr = decode_common T rd mode mem pc pc instr"

definition decode_from_copy ::
  "codec_tables \<Rightarrow> (u64 \<Rightarrow> instr_t \<Rightarrow> (u64 option \<times> instr_t) option) \<Rightarrow> dr_isa_mode_t \<Rightarrow> memory \<Rightarrow>
   u64 \<Rightarrow> u64 \<Rightarrow> instr_t \<Rightarrow> (u64 option \<times> instr_t) option" where
  "decode_from_copy T rd mode mem copy_pc orig_pc instr = decode_common T rd mode mem copy_pc orig_pc instr"

definition decode_cti ::
  "codec_tables \<Rightarrow> (u64 \<Rightarrow> instr_t \<Rightarrow> (u64 option \<times> instr_t) option) \<Rightarrow> dr_isa_mode_t \<Rightarrow> memory \<Rightarrow>
   u64 \<Rightarrow> instr_t \<Rightarrow> (u64 option \<times> instr_t) option" where
  "decode_cti T rd mode mem pc instr = decode T rd mode mem pc instr"

definition decode_next_pc :: "memory \<Rightarrow> u64 \<Rightarrow> u64" where
  "decode_next_pc mem pc = pc + word_of_int (instruction_width (read_u16 mem pc))"

definition decode_sizeof :: "memory \<Rightarrow> u64 \<Rightarrow> int" where
  "decode_sizeof mem pc = instruction_width (read_u16 mem pc)"

text \<open>There are no flags on RISC-V: the usage is 0.\<close>

definition decode_eflags_usage :: "memory \<Rightarrow> u64 \<Rightarrow> u32 \<times> u64" where
  "decode_eflags_usage mem pc = (0, decode_next_pc mem pc)"

definition decode_raw_is_jmp :: "memory \<Rightarrow> u64 \<Rightarrow> bool" where
  "decode_raw_is_jmp mem pc \<longleftrightarrow> read_u32 mem pc AND 0x7f = 0x6f"

definition decode_raw_jmp_target :: "memory \<Rightarrow> u64 \<Rightarrow> u64" where
  "decode_raw_jmp_target mem pc =
     (let enc = read_u32 mem pc;
          imm = shl (shr enc 31 AND 1) 20 OR shl (shr enc 12 AND 0xff) 12 OR
            shl (shr enc 20 AND 1) 11 OR shl (shr enc 21 AND 0x3ff) 1
      in pc + scast (sar (shl imm 11) 11))"

subsection \<open>Encoding into memory\<close>

definition store_u16 :: "memory \<Rightarrow> u64 \<Rightarrow> u16 \<Rightarrow> memory" where
  "store_u16 mem a w = mem(a := ucast w, a + 1 := ucast (shr w 8))"

definition store_u32 :: "memory \<Rightarrow> u64 \<Rightarrow> u32 \<Rightarrow> memory" where
  "store_u32 mem a w =
     mem(a := ucast w, a + 1 := ucast (shr w 8), a + 2 := ucast (shr w 16), a + 3 := ucast (shr w 24))"

definition encoding_possible :: "codec_tables \<Rightarrow> decode_info_t \<Rightarrow> u64 \<Rightarrow> instr_t \<Rightarrow> bool option" where
  "encoding_possible T di tmp instr = do { enc \<leftarrow> encode_common T tmp instr di; Some (enc \<noteq> ENCFAIL) }"

definition decode_info_init_for_instr :: "decode_info_t \<Rightarrow> decode_info_t" where
  "decode_info_init_for_instr di = di\<lparr>di_check_reachable := False\<rparr>"

text \<open>The result is the pointer behind the written instruction, and the memory.\<close>

definition copy_and_re_relativize_raw_instr ::
  "memory \<Rightarrow> instr_t \<Rightarrow> u64 \<Rightarrow> u64 \<Rightarrow> (u64 \<times> memory) option" where
  "copy_and_re_relativize_raw_instr mem instr dst_pc final_pc = do {
     ASSERT (instr_raw_bits_valid instr);
     Some (dst_pc + ucast (i_length instr),
       write_mem mem dst_pc (read_mem mem (i_bytes instr) (unat (i_length instr)))) }"

text \<open>\<open>None\<close> as the pointer is \<^verbatim>\<open>NULL\<close>: the instruction cannot be encoded.\<close>

definition instr_encode_arch ::
  "codec_tables \<Rightarrow> decode_info_t \<Rightarrow> memory \<Rightarrow> instr_t \<Rightarrow> u64 \<Rightarrow> u64 \<Rightarrow> bool \<Rightarrow> (u64 option \<times> memory) option" where
  "instr_encode_arch T di mem instr copy_pc final_pc check_reachable =
     (if instr_is_label instr then Some (Some copy_pc, mem)
      else if instr_raw_bits_valid instr then do {
        ASSERT check_reachable;
        (pc, mem) \<leftarrow> copy_and_re_relativize_raw_instr mem instr copy_pc final_pc;
        Some (Some pc, mem) }
      else do {
        ASSERT (instr_operands_valid instr);
        enc \<leftarrow> encode_common T final_pc instr (di\<lparr>di_check_reachable := check_reachable\<rparr>);
        if enc = ENCFAIL then Some (None, mem)
        else do {
          instr_length \<leftarrow> instr_length_arch (OP_enum T) instr;
          mem \<leftarrow> (if instr_length = RISCV64_INSTR_COMPRESSED_SIZE then Some (store_u16 mem copy_pc (ucast enc))
            else do { ASSERT (instr_length = RISCV64_INSTR_SIZE); Some (store_u32 mem copy_pc enc) });
          Some (Some (copy_pc + word_of_int instr_length), mem) } })"

subsection \<open>Register tables\<close>

text \<open>Each in the order of the register enumeration: two invalid numbers, \<^verbatim>\<open>X0\<close> to \<^verbatim>\<open>X31\<close>, \<^verbatim>\<open>PC\<close>, \<^verbatim>\<open>F0\<close> to \<^verbatim>\<open>F31\<close>, \<^verbatim>\<open>FCSR\<close>, \<^verbatim>\<open>VR0\<close> to \<^verbatim>\<open>VR31\<close>.\<close>

definition reg_names :: "string list" where
  "reg_names = [''<NULL>'', ''<invalid>'',
     ''zero'', ''ra'', ''sp'', ''gp'', ''tp'', ''t0'', ''t1'', ''t2'', ''fp'', ''s1'', ''a0'',
     ''a1'', ''a2'', ''a3'', ''a4'', ''a5'', ''a6'', ''a7'', ''s2'', ''s3'', ''s4'', ''s5'', ''s6'',
     ''s7'', ''s8'', ''s9'', ''s10'', ''s11'', ''t3'', ''t4'', ''t5'', ''t6'', ''pc'',
     ''ft0'', ''ft1'', ''ft2'', ''ft3'', ''ft4'', ''ft5'', ''ft6'', ''ft7'', ''fs0'', ''fs1'',
     ''fa0'', ''fa1'', ''fa2'', ''fa3'', ''fa4'', ''fa5'', ''fa6'', ''fa7'', ''fs2'', ''fs3'',
     ''fs4'', ''fs5'', ''fs6'', ''fs7'', ''fs8'', ''fs9'', ''fs10'', ''fs11'', ''ft8'', ''ft9'',
     ''ft10'', ''ft11'', ''fcsr'', ''v0'', ''v1'', ''v2'', ''v3'', ''v4'', ''v5'', ''v6'', ''v7'',
     ''v8'', ''v9'', ''v10'', ''v11'', ''v12'', ''v13'', ''v14'', ''v15'', ''v16'', ''v17'', ''v18'',
     ''v19'', ''v20'', ''v21'', ''v22'', ''v23'', ''v24'', ''v25'', ''v26'', ''v27'', ''v28'', ''v29'',
     ''v30'', ''v31'']"

definition dr_reg_fixer :: "reg_id_t list" where
  "dr_reg_fixer = [DR_REG_NULL, DR_REG_NULL] @ map (\<lambda>i. DR_REG_X0 + word_of_nat i) [0..<32] @ [DR_REG_PC] @
     map (\<lambda>i. DR_REG_F0 + word_of_nat i) [0..<32] @ [DR_REG_FCSR] @ map (\<lambda>i. DR_REG_VR0 + word_of_nat i) [0..<32]"

text \<open>The virtual registers \<^verbatim>\<open>DR_REG_V0\<close>, \<^verbatim>\<open>DR_REG_V1\<close>, \<dots> are numbered from 2 on.\<close>

definition d_r_reg_id_to_virtual :: "reg_id_t list" where
  "d_r_reg_id_to_virtual = [DR_REG_NULL, DR_REG_NULL] @ map (\<lambda>i. 2 + word_of_nat i) [0..<98]"

lemma reg_table_lengths:
  "length reg_names = unat (DR_REG_LAST_ENUM :: reg_id_t) + 1"
  "length dr_reg_fixer = unat (DR_REG_LAST_ENUM :: reg_id_t) + 1"
  "length d_r_reg_id_to_virtual = length dr_reg_fixer"
  by (simp_all add: reg_names_def dr_reg_fixer_def d_r_reg_id_to_virtual_def)

lemma reg_names_distinct: "distinct reg_names"
  by code_simp

lemma dr_reg_fixer_eq: "dr_reg_fixer = [DR_REG_NULL, DR_REG_NULL] @ map word_of_nat [2..<100]"
  by code_simp

lemma dr_reg_fixer_id: "2 \<le> r \<Longrightarrow> r < 100 \<Longrightarrow> dr_reg_fixer ! r = word_of_nat r"
  using le_Suc_ex [of 2 r] by (auto simp: dr_reg_fixer_eq simp del: upt_rec_numeral)

lemma reg_id_to_virtual_inj: "inj_on (\<lambda>r. d_r_reg_id_to_virtual ! r) {2..<100}"
  by (rule inj_onI) (auto simp: d_r_reg_id_to_virtual_def nth_append nth_Cons' word_of_nat_eq_iff take_bit_nat_eq_self)

subsection \<open>Looking at the bytes agrees with decoding\<close>

lemma raw_jmp_imm:
  fixes enc :: u32
  shows "sar (shl (shl (shr enc 31 AND 1) 20 OR shl (shr enc 12 AND 0xff) 12 OR
            shl (shr enc 20 AND 1) 11 OR shl (shr enc 21 AND 0x3ff) 1) 11) 11 =
    SIGN_EXTEND (or_assign_i32 (or_assign_i32 (shl (BIT enc 31) 20) (shl (GET_FIELD enc 19 12) 12) OR
      shl (BIT enc 20) 11) (shl (GET_FIELD enc 30 21) 1)) 21"
  unfolding SIGN_EXTEND_def BIT_def by (rule u32_bitsI; simp add: bitf)

text \<open>
  C15: On a jump-and-link word, \<^verbatim>\<open>decode_raw_jmp_target\<close> computes the target that the operand decoder of the codec
  stores: the two extractions of the scattered immediate are the same function.
\<close>

theorem decode_raw_jmp_target_agrees:
  "decode_j_imm_opnd (read_u32 mem pc) op_sz pc pc idx out =
     do { out \<leftarrow> instr_set_target out (opnd_create_pc (decode_raw_jmp_target mem pc)); Some (True, out) }"
  unfolding decode_j_imm_opnd_def decode_raw_jmp_target_def Let_def raw_jmp_imm by (rule refl)

subsection \<open>Writing what was read\<close>

lemma read_u16_bytes:
  "ucast (read_u16 mem pc) = mem pc" "ucast (shr (read_u16 mem pc) 8) = mem (pc + 1)"
  unfolding read_u16_def by (rule bit_word_eqI; auto simp: bitf dest: bit_imp_le_length)+

lemma ucast_ucast_16 [simp]: "ucast (ucast (w :: u16) :: u32) = w"
  by (rule bit_word_eqI) (auto simp: bitf)

lemma read_u32_bytes:
  "ucast (read_u32 mem pc) = mem pc" "ucast (shr (read_u32 mem pc) 8) = mem (pc + 1)"
  "ucast (shr (read_u32 mem pc) 16) = mem (pc + 2)" "ucast (shr (read_u32 mem pc) 24) = mem (pc + 3)"
  unfolding read_u32_def read_u16_def
  by (rule bit_word_eqI; auto simp: bitf add.assoc dest: bit_imp_le_length)+

lemma read_mem_2: "read_mem mem a 2 = [mem a, mem (a + 1)]"
  by (simp add: read_mem_def numeral_2_eq_2)

lemma read_mem_4: "read_mem mem a 4 = [mem a, mem (a + 1), mem (a + 2), mem (a + 3)]"
  by (simp add: read_mem_def upt_rec)

lemma fetch_word:
  assumes "decode_fetch T mem pc = Some (inst, Some k)"
  shows "(instruction_width (read_u16 mem pc) = 2 \<and> inst = ucast (read_u16 mem pc)) \<or>
    (instruction_width (read_u16 mem pc) = 4 \<and> inst = read_u32 mem pc)"
  using assms by (auto simp: decode_fetch_def read_u32_def Let_def bind_eq_Some_conv split: if_splits)

text \<open>
  C14: An instruction decoded from a copy of the application's code and written back by \<^verbatim>\<open>instr_encode_arch\<close> at
  another place, for the address it came from, leaves exactly the bytes it was decoded from there, and
  returns the address behind them. Besides the conditions of the codec it needs that the length
  switch lists the opcode as compressed exactly when the bytes are.
\<close>

theorem encode_arch_restores_bytes:
  assumes dec: "decode_from_copy T rd DR_ISA_RV64 mem pc orig_pc instr = Some (Some next_pc, instr')" "pc \<noteq> orig_pc"
    and fetch: "decode_fetch T mem pc = Some (inst, Some k)" "inst \<noteq> 0"
    and wf: "entry_wf T k" "entry_covers (instr_infos T ! k) inst"
    and side: "entry_side T k inst instr'" "di_OP di = OP_enum T" "orig_pc AND 1 = 0"
    and op: "OP_LABEL < k" "op_is (OP_enum T) compressed_ops k \<longleftrightarrow> instruction_width (read_u16 mem pc) = 2"
  shows "\<exists>mem'. instr_encode_arch T di mem instr' copy_pc orig_pc check =
      Some (Some (copy_pc + word_of_int (decode_sizeof mem pc)), mem') \<and>
    read_mem mem' copy_pc (nat (decode_sizeof mem pc)) = read_mem mem pc (nat (decode_sizeof mem pc))"
proof -
  let ?di = "di\<lparr>di_check_reachable := check\<rparr>"
  have d: "decode_common T rd DR_ISA_RV64 mem pc orig_pc instr = Some (Some next_pc, instr')"
    using dec(1) by (simp add: decode_from_copy_def)
  have k: "ii_type (instr_infos T ! k) = k" "k \<noteq> OP_INVALID" using wf(1) by (simp_all add: entry_wf_def)
  have i': "i_opcode instr' = k" "instr_operands_valid instr'" "\<not> instr_raw_bits_valid instr'"
    using decode_common_result [OF d fetch(1) k] dec(2) by simp_all
  have enc: "encode_common T orig_pc instr' ?di = Some inst"
    using encode_after_decode [OF d fetch wf side(1) _ side(3), of ?di] side(2) by simp
  have len: "instr_length_arch (OP_enum T) instr' = Some (decode_sizeof mem pc)"
    using op i'(1) fetch_word [OF fetch(1)] by (auto simp: instr_length_arch_def instr_get_opcode_def decode_sizeof_def)
  have label: "\<not> instr_is_label instr'" using i'(1) op(1) by (simp add: instr_is_label_def)
  show ?thesis
    using fetch_word [OF fetch(1)] fetch(2) enc len label i'(2,3)
    by (auto simp: instr_encode_arch_def decode_sizeof_def store_u16_def store_u32_def read_mem_2 read_mem_4
        read_u16_bytes read_u32_bytes)
qed

text \<open>
  The all-zero halfword decodes to \<^verbatim>\<open>unimp\<close>, but \<^verbatim>\<open>unimp\<close> cannot be encoded: its encoding is the value
  that stands for failure, so \<^verbatim>\<open>instr_encode_arch\<close> returns \<^verbatim>\<open>NULL\<close>.
\<close>

theorem unimp_not_encodable:
  assumes "i_opcode instr = OP_enum T ''unimp''" "OP_LABEL < i_opcode instr" "i_opcode instr < length (instr_infos T)"
    and "instr_operands_valid instr" "\<not> instr_raw_bits_valid instr" "final_pc AND 1 = 0"
    and "info_match (instr_infos T ! OP_enum T ''unimp'') = 0"
    and "INFO_NDST (ii_opcode (instr_infos T ! OP_enum T ''unimp'')) = 0"
      "INFO_NSRC (ii_opcode (instr_infos T ! OP_enum T ''unimp'')) = 0"
  shows "get_rvc_instr_info T 0 64 = Some (Some (OP_enum T ''unimp'')) \<and>
    instr_encode_arch T di mem instr copy_pc final_pc check = Some (None, mem)"
proof -
  have "entry_slots (instr_infos T ! i_opcode instr) = Some []"
    using assms(1,8,9) by (simp add: entry_slots_def dst_slots_def src_slots_def)
  then have "encode_common T final_pc instr (di\<lparr>di_check_reachable := check\<rparr>) = Some ENCFAIL"
    using encode_common_slots [of T instr "[]" final_pc "di\<lparr>di_check_reachable := check\<rparr>"] assms(1,3,6,7) by simp
  then show ?thesis
    using assms(2,4,5) by (simp add: get_rvc_instr_info_def instr_encode_arch_def instr_is_label_def)
qed

subsection \<open>Examples\<close>

text \<open>The \<^verbatim>\<open>addi\<close> of the sample tables, decoded from a copy and written back at \<open>0x2000\<close>.\<close>

lemma decode_addi_copy:
  "\<exists>instr. decode_from_copy sample_tables no_regdeps DR_ISA_RV64 (bytes4 0x93 0x82 0xf2 0xff) 0x1000
     0x8000 instr_init = Some (Some 0x1004, instr)"
  by (simp add: decode_from_copy_def decode_common_def fetch_addi instr_init_def read_u16_def bytes4_def
      instruction_width_def codec_eval codec_defs)

theorem encode_arch_restores_bytes_witness:
  "\<exists>instr mem'. decode_from_copy sample_tables no_regdeps DR_ISA_RV64 (bytes4 0x93 0x82 0xf2 0xff) 0x1000
     0x8000 instr_init = Some (Some 0x1004, instr) \<and>
     instr_encode_arch sample_tables sample_di (bytes4 0x93 0x82 0xf2 0xff) instr 0x2000 0x8000 True =
       Some (Some 0x2004, mem') \<and> read_mem mem' 0x2000 4 = [0x93, 0x82, 0xf2, 0xff]"
proof -
  let ?mem = "bytes4 0x93 0x82 0xf2 0xff"
  obtain instr where d: "decode_from_copy sample_tables no_regdeps DR_ISA_RV64 ?mem 0x1000 0x8000 instr_init =
      Some (Some 0x1004, instr)"
    using decode_addi_copy by blast
  have w: "decode_sizeof ?mem 0x1000 = 4"
    by (simp add: decode_sizeof_def instruction_width_def read_u16_def bytes4_def codec_eval)
  have side: "entry_side sample_tables 6 0xfff28293 instr"
    by (simp add: entry_side_def slots_side_def slot_of_def plain_def codec_eval)
  have wf: "entry_wf sample_tables 6" "entry_covers (instr_infos sample_tables ! 6) 0xfff28293"
    by (simp_all add: entry_wf_def entry_covers_def slot_of_def plain_def codec_eval)
  have op: "op_is (OP_enum sample_tables) compressed_ops 6 \<longleftrightarrow> instruction_width (read_u16 ?mem 0x1000) = 2"
    using w by (simp add: decode_sizeof_def op_is_def compressed_ops_def sample_OP_def codec_eval)
  have m: "read_mem ?mem 0x1000 4 = [0x93, 0x82, 0xf2, 0xff]"
    by (simp add: read_mem_4 bytes4_def)
  show ?thesis
    using encode_arch_restores_bytes [OF d _ fetch_addi _ wf side _ _ _ op, of sample_di "0x2000" True] d w m
    by (auto simp: sample_di_def codec_eval)
qed

lemma sample_unimp [codec_eval]: "sample_infos ! 9 = info_for 9 0 0xffff 22"
  by (simp add: sample_infos_def)

theorem unimp_not_encodable_witness:
  "get_rvc_instr_info sample_tables 0 64 = Some (Some 9) \<and>
   instr_encode_arch sample_tables sample_di (\<lambda>_. 0)
     (instr_init\<lparr>i_opcode := 9, i_flags := INSTR_OPERANDS_VALID\<rparr>) 0x2000 0x8000 True = Some (None, \<lambda>_. 0)"
  using unimp_not_encodable [of "instr_init\<lparr>i_opcode := 9, i_flags := INSTR_OPERANDS_VALID\<rparr>" sample_tables
      "0x8000" sample_di "\<lambda>_. 0" "0x2000" True]
  by (simp add: sample_OP_def instr_init_def instr_operands_valid_def instr_raw_bits_valid_def TESTALL_def
      INSTR_OPERANDS_VALID_def INSTR_RAW_BITS_VALID_def codec_eval)

end
