(* ===== verification/InstrListOps.thy ===== *)
theory InstrListOps
  imports InstrList RvApi
begin

text \<open>
  The routines of \<^verbatim>\<open>core/ir/instrlist.c\<close> that go through whole lists: freeing a list and encoding it into memory; with
  the routines of \<^verbatim>\<open>instr_shared.c\<close> and \<^verbatim>\<open>encode_shared.c\<close> they call on one instruction. A label keeps the address
  of its callback in the field of the raw bits, as in the union of \<^verbatim>\<open>instr_t\<close>; the label data are not modelled,
  nor the encoder of the synthetic instruction set \<^verbatim>\<open>DR_ISA_REGDEPS\<close>. \<^verbatim>\<open>instr_length_arch\<close> never returns -1 on RISC-V, so
  that \<^verbatim>\<open>instr_length\<close> does not encode.
\<close>

unbundle bit_operations_syntax

subsection \<open>Freeing\<close>

definition instr_get_label_callback :: "instr_t \<Rightarrow> u64 option" where
  "instr_get_label_callback instr = do {
     ASSERT (instr_is_label instr);
     ASSERT (\<not> TESTALL INSTR_RAW_BITS_ALLOCATED (i_flags instr));
     Some (i_bytes instr) }"

text \<open>The result is the callback that was called, if any, and the instruction.\<close>

definition instr_free :: "instr_t \<Rightarrow> (u64 option \<times> instr_t) option" where
  "instr_free instr = do {
     cb \<leftarrow> (if instr_is_label instr then do {
         cb \<leftarrow> instr_get_label_callback instr;
         Some (if cb \<noteq> 0 then Some cb else None) }
       else Some None);
     if TESTALL INSTR_IS_NOALLOC_STRUCT (i_flags instr) then Some (cb, instr)
     else do {
       let instr = (if TESTALL INSTR_RAW_BITS_ALLOCATED (i_flags instr) then instr_free_raw_bits instr else instr);
       let instr = (if i_num_dsts instr > 0 then instr\<lparr>i_dsts := [], i_num_dsts := 0\<rparr> else instr);
       let instr = (if i_num_srcs instr > 1 then instr\<lparr>i_srcs := [], i_num_srcs := 0\<rparr> else instr);
       Some (cb, instr) } }"

definition instr_destroy :: "store \<Rightarrow> instr_ref \<Rightarrow> (u64 option \<times> store) option" where
  "instr_destroy h p = do {
     nd \<leftarrow> node_at h p;
     (cb, instr) \<leftarrow> instr_free (n_instr nd);
     Some (cb, h(p := None)) }"

text \<open>The callbacks of the freed labels are collected in \<open>cbs\<close>.\<close>

partial_function (option) instrlist_clear ::
  "store \<Rightarrow> instrlist_t \<Rightarrow> (instr_ref \<times> u64) list \<Rightarrow> (store \<times> instrlist_t \<times> (instr_ref \<times> u64) list) option" where
  "instrlist_clear h l cbs =
     (let instr = l_first l in
      if instr = 0 then Some (h, l, cbs)
      else do {
        r \<leftarrow> instrlist_remove h l instr;
        d \<leftarrow> instr_destroy (fst r) instr;
        instrlist_clear (snd d) (snd r) (case fst d of None \<Rightarrow> cbs | Some cb \<Rightarrow> cbs @ [(instr, cb)]) })"

definition instrlist_clear_and_destroy ::
  "store \<Rightarrow> instrlist_t \<Rightarrow> (store \<times> (instr_ref \<times> u64) list) option" where
  "instrlist_clear_and_destroy h l = do {
     (h, l, cbs) \<leftarrow> instrlist_clear h l [];
     _ \<leftarrow> instrlist_destroy l;
     Some (h, cbs) }"

subsection \<open>Encoding\<close>

definition instr_length :: "op_enum \<Rightarrow> instr_t \<Rightarrow> int option" where
  "instr_length OP instr = (if \<not> instr_needs_encoding instr then Some (sint (i_length instr)) else instr_length_arch OP instr)"

definition instr_encode_to_copy ::
  "codec_tables \<Rightarrow> decode_info_t \<Rightarrow> memory \<Rightarrow> instr_t \<Rightarrow> u64 \<Rightarrow> u64 \<Rightarrow> (u64 option \<times> memory) option" where
  "instr_encode_to_copy T di mem instr copy_pc final_pc = instr_encode_arch T di mem instr copy_pc final_pc True"

text \<open>The extra pass of the higher check levels: no instruction operands unless they are announced.\<close>

partial_function (option) check_no_instr_opnds :: "store \<Rightarrow> instr_ref \<Rightarrow> unit option" where
  "check_no_instr_opnds h inst =
     (if inst = 0 then Some ()
      else do {
        nd \<leftarrow> node_at h inst;
        let instr = n_instr nd;
        ASSERT (TESTALL INSTR_OPERANDS_VALID (i_flags instr) \<longrightarrow>
          list_all (\<lambda>i. case instr_get_src instr i of Some opnd \<Rightarrow> \<not> opnd_is_instr opnd | None \<Rightarrow> False) [0..<i_num_srcs instr]);
        check_no_instr_opnds h (n_next nd) })"

partial_function (option) offsets_from ::
  "op_enum \<Rightarrow> bool \<Rightarrow> store \<Rightarrow> instr_ref \<Rightarrow> u64 \<Rightarrow> (store \<times> u64) option" where
  "offsets_from OP has_instr_jmp_targets h inst len =
     (if inst = 0 then Some (h, len)
      else do {
        nd \<leftarrow> node_at h inst;
        let nd = (if has_instr_jmp_targets then nd\<lparr>n_instr := (n_instr nd)\<lparr>i_offset := len\<rparr>\<rparr> else nd);
        n \<leftarrow> instr_length OP (n_instr nd);
        offsets_from OP has_instr_jmp_targets (h(inst \<mapsto> nd)) (n_next nd) (len + word_of_int n) })"

partial_function (option) encode_from ::
  "codec_tables \<Rightarrow> decode_info_t \<Rightarrow> store \<Rightarrow> memory \<Rightarrow> instr_ref \<Rightarrow> u64 \<Rightarrow> u64 \<Rightarrow> (u64 option \<times> memory) option" where
  "encode_from T di h mem inst copy_pc final_pc =
     (if inst = 0 then Some (Some copy_pc, mem)
      else do {
        nd \<leftarrow> node_at h inst;
        r \<leftarrow> instr_encode_to_copy T di mem (n_instr nd) copy_pc final_pc;
        (case fst r of
           None \<Rightarrow> Some (None, snd r)
         | Some pc \<Rightarrow> encode_from T di h (snd r) (n_next nd) pc (final_pc + (pc - copy_pc))) })"

definition store_offset :: "store \<Rightarrow> instr_ref \<Rightarrow> u64" where
  "store_offset h r = (case h r of Some nd \<Rightarrow> i_offset (n_instr nd) | None \<Rightarrow> 0)"

definition POINTER_OVERFLOW_ON_ADD :: "u64 \<Rightarrow> u64 \<Rightarrow> bool" where
  "POINTER_OVERFLOW_ON_ADD ptr add \<longleftrightarrow> ptr + add < ptr"

text \<open>The result is the pointer behind the code (\<open>None\<close> for \<^verbatim>\<open>NULL\<close>), the memory and the store. \<open>check\<close> says
whether the check level is at least 2.\<close>

definition instrlist_encode_to_copy ::
  "codec_tables \<Rightarrow> decode_info_t \<Rightarrow> bool \<Rightarrow> store \<Rightarrow> memory \<Rightarrow> instrlist_t \<Rightarrow> u64 \<Rightarrow> u64 \<Rightarrow> u64 \<Rightarrow> bool \<Rightarrow>
   (u64 option \<times> memory \<times> store) option" where
  "instrlist_encode_to_copy T di check h mem l copy_pc final_pc max_pc has_instr_jmp_targets = do {
     _ \<leftarrow> (if check \<and> \<not> has_instr_jmp_targets then check_no_instr_opnds h (l_first l) else Some ());
     (h, len) \<leftarrow> (if has_instr_jmp_targets \<or> max_pc \<noteq> 0
       then offsets_from (OP_enum T) has_instr_jmp_targets h (l_first l) 0 else Some (h, 0));
     if max_pc \<noteq> 0 \<and> (copy_pc + len > max_pc \<or> POINTER_OVERFLOW_ON_ADD copy_pc len) then Some (None, mem, h)
     else do {
       (pc, mem) \<leftarrow> encode_from T (di\<lparr>di_offset := store_offset h\<rparr>) h mem (l_first l) copy_pc final_pc;
       Some (pc, mem, h) } }"

definition instrlist_encode ::
  "codec_tables \<Rightarrow> decode_info_t \<Rightarrow> bool \<Rightarrow> store \<Rightarrow> memory \<Rightarrow> instrlist_t \<Rightarrow> u64 \<Rightarrow> bool \<Rightarrow>
   (u64 option \<times> memory \<times> store) option" where
  "instrlist_encode T di check h mem l pc has_instr_jmp_targets =
     instrlist_encode_to_copy T di check h mem l pc pc 0 has_instr_jmp_targets"


subsection \<open>Clearing a list\<close>

text \<open>The callbacks that freeing the instructions calls, in order.\<close>

definition label_callbacks :: "store \<Rightarrow> instr_ref list \<Rightarrow> (instr_ref \<times> u64) list" where
  "label_callbacks h xs = concat (map (\<lambda>x. case h x of
       Some nd \<Rightarrow> if instr_is_label (n_instr nd) \<and> i_bytes (n_instr nd) \<noteq> 0 then [(x, i_bytes (n_instr nd))] else []
     | None \<Rightarrow> []) xs)"

definition freeable :: "store \<Rightarrow> instr_ref \<Rightarrow> bool" where
  "freeable h x \<longleftrightarrow> (case payload h x of None \<Rightarrow> False
     | Some (i, _) \<Rightarrow> \<not> (instr_is_label i \<and> TESTALL INSTR_RAW_BITS_ALLOCATED (i_flags i)))"

lemma free_callback:
  "\<not> (instr_is_label i \<and> TESTALL INSTR_RAW_BITS_ALLOCATED (i_flags i)) \<Longrightarrow>
   \<exists>i'. instr_free i = Some (if instr_is_label i \<and> i_bytes i \<noteq> 0 then Some (i_bytes i) else None, i')"
  by (auto simp: instr_free_def instr_get_label_callback_def Let_def)

lemma label_callbacks_cong: "(\<And>x. x \<in> set xs \<Longrightarrow> payload h' x = payload h x) \<Longrightarrow> label_callbacks h' xs = label_callbacks h xs"
proof -
  assume a: "\<And>x. x \<in> set xs \<Longrightarrow> payload h' x = payload h x"
  have "label_callbacks h' [x] = label_callbacks h [x]" if "x \<in> set xs" for x
    using a [OF that] by (cases "h x"; cases "h' x") (auto simp: payload_def label_callbacks_def)
  then show ?thesis unfolding label_callbacks_def by (intro arg_cong [where f = concat] map_cong refl) simp
qed

lemma ilist_ok_drop: "ilist_ok h l xs \<Longrightarrow> x \<notin> set xs \<Longrightarrow> ilist_ok (h(x := None)) l xs"
proof -
  have "links (h(x := None)) = (links h)(x := None)" by (auto simp: links_def node_at_def fun_eq_iff)
  then show "ilist_ok h l xs \<Longrightarrow> x \<notin> set xs \<Longrightarrow> ?thesis" by (simp add: ilist_ok_def)
qed

lemma clear_list:
  "ilist_ok h l xs \<Longrightarrow> list_all (freeable h) xs \<Longrightarrow>
   \<exists>h' l'. instrlist_clear h l cbs = Some (h', l', cbs @ label_callbacks h xs) \<and> ilist_ok h' l' [] \<and>
     (\<forall>x. node_at h' x = (if x \<in> set xs then None else node_at h x)) \<and> attributes l' = attributes l"
proof (induction xs arbitrary: h l cbs)
  case Nil
  then show ?case using ilist_okD(5) [OF Nil(1)] by (subst instrlist_clear.simps) (auto simp: label_callbacks_def)
next
  case (Cons x xs)
  obtain h1 l1 where rm: "instrlist_remove h l x = Some (h1, l1)" "ilist_ok h1 l1 xs" "chain_ok h1 x [x]"
      "payload h1 = payload h" "\<forall>z. z \<notin> set (x # xs) \<longrightarrow> node_at h1 z = node_at h z" "attributes l1 = attributes l"
    using remove_splice [of h l "[]" x xs] Cons.prems(1) by auto
  have x: "l_first l = x" "x \<noteq> 0" "x \<notin> set xs"
    using ilist_okD [OF Cons.prems(1)] dseg_nonnull [OF ilist_okD(1) [OF Cons.prems(1)]] by auto
  obtain nd where nd: "node_at h1 x = Some nd" using rm(3) by (auto simp: chain_ok_def links_def)
  obtain nd0 where nd0: "h x = Some nd0" "n_instr nd0 = n_instr nd"
    using fun_cong [OF rm(4), of x] nd by (cases "h x") (auto simp: payload_def node_at_Some)
  let ?cb = "if instr_is_label (n_instr nd) \<and> i_bytes (n_instr nd) \<noteq> 0 then [(x, i_bytes (n_instr nd))] else []"
  obtain i' where "instr_free (n_instr nd) =
      Some (if instr_is_label (n_instr nd) \<and> i_bytes (n_instr nd) \<noteq> 0 then Some (i_bytes (n_instr nd)) else None, i')"
    using free_callback [of "n_instr nd"] Cons.prems(2) nd0 by (auto simp: freeable_def payload_def)
  then have step: "instrlist_clear h l cbs = instrlist_clear (h1(x := None)) l1 (cbs @ ?cb)"
    using x nd rm(1) by (subst instrlist_clear.simps) (simp add: instr_destroy_def)
  have pl: "payload (h1(x := None)) z = payload h z" if "z \<in> set xs" for z
    using that x(3) fun_cong [OF rm(4), of z] by (auto simp: payload_def)
  have "list_all (freeable (h1(x := None))) xs"
    using Cons.prems(2) pl by (auto simp: list_all_iff freeable_def)
  note IH = Cons.IH [OF ilist_ok_drop [OF rm(2) x(3)] this, of "cbs @ ?cb"]
  have lc: "label_callbacks (h1(x := None)) xs = label_callbacks h xs" using pl by (rule label_callbacks_cong)
  obtain h' l' where
    "instrlist_clear h l cbs = Some (h', l', (cbs @ ?cb) @ label_callbacks h xs)" "ilist_ok h' l' []"
    "\<forall>z. node_at h' z = (if z \<in> set xs then None else node_at (h1(x := None)) z)" "attributes l' = attributes l"
    using IH unfolding step lc rm(6) by blast
  moreover have "?cb @ label_callbacks h xs = label_callbacks h (x # xs)"
    using nd0 by (simp add: label_callbacks_def)
  ultimately show ?case using rm(5) by (auto simp: node_at_def)
qed

text \<open>A label with a callback, and an instruction.\<close>

definition callback_store :: store where
  "callback_store = map_of [(1, \<lparr>n_instr = instr_init\<lparr>i_opcode := OP_LABEL, i_bytes := 0x77\<rparr>, n_note = 0, n_prev = 0, n_next = 2\<rparr>),
     (2, sample_node 1 0), (5, sample_node 0 0)]"

text \<open>
  C31: clearing and destroying a well-linked list ends, frees every instruction of the list and no other, calls the
  callbacks of its labels once each and in order, and finds the list empty when the list object is freed.
\<close>

theorem clear_and_destroy_frees:
  assumes "ilist_ok h l xs" "\<forall>x \<in> set xs. freeable h x"
  shows "\<exists>h'. instrlist_clear_and_destroy h l = Some (h', label_callbacks h xs) \<and>
    (\<forall>x. node_at h' x = (if x \<in> set xs then None else node_at h x))"
proof -
  obtain h' l' where "instrlist_clear h l [] = Some (h', l', label_callbacks h xs)" "ilist_ok h' l' []"
      "\<forall>x. node_at h' x = (if x \<in> set xs then None else node_at h x)"
    using clear_list [OF assms(1), of "[]"] assms(2) by (auto simp: list_all_iff)
  then show ?thesis by (auto simp: instrlist_clear_and_destroy_def instrlist_destroy_def ilist_ok_def ASSERT_def)
qed

theorem clear_and_destroy_frees_witness:
  "\<exists>h'. instrlist_clear_and_destroy callback_store (instrlist_init\<lparr>l_first := 1, l_last := 2\<rparr>) = Some (h', [(1, 0x77)]) \<and>
     node_at h' 1 = None \<and> node_at h' 5 = Some (sample_node 0 0)"
proof -
  have "ilist_ok callback_store (instrlist_init\<lparr>l_first := 1, l_last := 2\<rparr>) [1, 2]" "\<forall>x \<in> set [1, 2]. freeable callback_store x"
    "label_callbacks callback_store [1, 2] = [(1, 0x77)]" "node_at callback_store 5 = Some (sample_node 0 0)"
    by (simp_all add: ilist_ok_def callback_store_def sample_node_def instrlist_init_def links_def node_at_def freeable_def payload_def
        label_callbacks_def instr_is_label_def instr_opcode_valid_def instr_init_def TESTALL_def)
  then show ?thesis
    using clear_and_destroy_frees [of callback_store "instrlist_init\<lparr>l_first := 1, l_last := 2\<rparr>" "[1, 2]"] by auto
qed

subsection \<open>Encoding in place\<close>

text \<open>\<open>kept mem mem' a n\<close>: only the \<open>n\<close> bytes from \<open>a\<close> on differ.\<close>

definition kept :: "memory \<Rightarrow> memory \<Rightarrow> u64 \<Rightarrow> nat \<Rightarrow> bool" where
  "kept mem mem' a n \<longleftrightarrow> (\<forall>x. n \<le> unat (x - a) \<longrightarrow> mem' x = mem x)"

lemma kept_refl [simp]: "kept mem mem a n"
  by (simp add: kept_def)

lemma unat_minus_step:
  fixes x a :: u64
  assumes "m \<le> unat (x - a)"
  shows "unat (x - (a + word_of_nat m)) = unat (x - a) - m"
proof -
  have "m < 2 ^ 64" using assms unat_less_exp [of "x - a"] by simp
  then have m: "unat (word_of_nat m :: u64) = m" by (simp add: unat_of_nat take_bit_eq_mod)
  have "unat ((x - a) - word_of_nat m) = unat (x - a) - m"
    using assms m by (subst unat_sub) (auto simp: word_le_nat_alt)
  then show ?thesis by (simp add: algebra_simps)
qed

lemma kept_trans:
  "kept mem mem1 a m \<Longrightarrow> kept mem1 mem2 (a + word_of_nat m) n \<Longrightarrow> kept mem mem2 a (m + n)"
  by (auto simp: kept_def unat_minus_step)

lemma kept_upd: "kept mem (mem(a := b)) a (Suc 0)"
  by (auto simp: kept_def)

lemma kept_write: "kept mem (write_mem mem a bs) a (length bs)"
proof (induction bs arbitrary: mem a)
  case (Cons b bs)
  have "kept mem (write_mem (mem(a := b)) (a + 1) bs) a (Suc 0 + length bs)"
    by (rule kept_trans [OF kept_upd [of _ _ b]]) (simp add: Cons del: fun_upd_apply)
  then show ?case by simp
qed simp

lemma kept_store:
  "kept mem (store_u16 mem a w) a 2" "kept mem (store_u32 mem a v) a 4"
proof -
  have "store_u16 mem a w = write_mem mem a [ucast w, ucast (shr w 8)]"
    "store_u32 mem a v = write_mem mem a [ucast v, ucast (shr v 8), ucast (shr v 16), ucast (shr v 24)]"
    by (simp_all add: store_u16_def store_u32_def add.assoc)
  then show "kept mem (store_u16 mem a w) a 2" "kept mem (store_u32 mem a v) a 4"
    using kept_write [of mem a "[ucast w, ucast (shr w 8)]"]
      kept_write [of mem a "[ucast v, ucast (shr v 8), ucast (shr v 16), ucast (shr v 24)]"] by (simp_all add: eval_nat_numeral)
qed

text \<open>
  Raw bits are shorter than 2 GiB, so that \<^verbatim>\<open>instr_length\<close> does not turn negative, and a label has none (their
  field holds its callback).
\<close>

definition raw_bits_ok :: "instr_t \<Rightarrow> bool" where
  "raw_bits_ok i \<longleftrightarrow> unat (i_length i) < 2 ^ 31 \<and> (instr_is_label i \<longrightarrow> instr_needs_encoding i)"

lemma small_length:
  fixes w :: u32
  assumes "unat w < 2 ^ 31"
  shows "sint w = uint w" "uint w < 2 ^ 31" "0 \<le> sint w"
proof -
  have "int (unat w) < 2 ^ 31" using assms by (metis of_nat_less_iff of_nat_numeral of_nat_power)
  then show u: "uint w < 2 ^ 31" by simp
  have "- (2 ^ 31) \<le> uint w" by (rule order.trans [of _ 0]) simp_all
  then show s: "sint w = uint w" using u by (simp add: sint_uint signed_take_bit_int_eq_self_iff)
  show "0 \<le> sint w" unfolding s by simp
qed

lemma encode_length:
  assumes "instr_encode_to_copy T di mem i copy_pc final_pc = Some (r, mem')" "instr_length (OP_enum T) i = Some n"
    "raw_bits_ok i"
  shows "0 \<le> n" "n < 2 ^ 31" "kept mem mem' copy_pc (nat n)" "r = None \<or> r = Some (copy_pc + word_of_int n)"
proof -
  consider (label) "instr_is_label i" | (raw) "\<not> instr_is_label i" "instr_raw_bits_valid i"
    | (enc) "\<not> instr_is_label i" "\<not> instr_raw_bits_valid i" by blast
  then have "0 \<le> n \<and> n < 2 ^ 31 \<and> kept mem mem' copy_pc (nat n) \<and> (r = None \<or> r = Some (copy_pc + word_of_int n))"
  proof cases
    case label
    then show ?thesis using assms
      by (auto simp: instr_encode_to_copy_def instr_encode_arch_def instr_length_def raw_bits_ok_def instr_length_arch_def
          instr_is_label_def instr_get_opcode_def)
  next
    case raw
    then have "n = uint (i_length i)" "n < 2 ^ 31"
      using assms(2,3) small_length [of "i_length i"]
      by (auto simp: instr_length_def instr_needs_encoding_def instr_raw_bits_valid_def raw_bits_ok_def)
    moreover have "ucast (i_length i) = (word_of_int (uint (i_length i)) :: u64)" by (simp add: unsigned_ucast_eq word_of_int_uint)
    moreover have "nat (uint (i_length i)) = unat (i_length i)" by simp
    ultimately show ?thesis using raw assms(1,3) kept_write [of mem copy_pc "read_mem mem (i_bytes i) (unat (i_length i))"]
      by (auto simp: instr_encode_to_copy_def instr_encode_arch_def copy_and_re_relativize_raw_instr_def raw_bits_ok_def
          split: if_splits)
  next
    case enc
    then have "instr_length_arch (OP_enum T) i = Some n" "n = 2 \<or> n = 4"
      using assms(2) by (auto simp: instr_length_def instr_needs_encoding_def instr_raw_bits_valid_def instr_length_arch_def
          instr_is_label_def instr_opcode_valid_def instr_get_opcode_def split: if_splits)
    then show ?thesis using enc assms(1) kept_store
      by (auto simp: instr_encode_to_copy_def instr_encode_arch_def split: if_splits bind_splits)
  qed
  then show "0 \<le> n" "n < 2 ^ 31" "kept mem mem' copy_pc (nat n)" "r = None \<or> r = Some (copy_pc + word_of_int n)" by auto
qed


lemma dseg_ConsE:
  assumes "dseg (links h) p (x # xs) n"
  obtains nd where "node_at h x = Some nd" "h x = Some nd" "n_next nd = hd (xs @ [n])" "x \<noteq> 0" "dseg (links h) x xs n"
proof -
  obtain nd where "node_at h x = Some nd" "n_next nd = hd (xs @ [n])" using assms by (auto simp: links_def)
  then show ?thesis using that assms by (auto simp: node_at_Some)
qed

text \<open>The lengths of the instructions of a list, and a store that differs in offsets only.\<close>

definition code_length :: "op_enum \<Rightarrow> store \<Rightarrow> instr_ref list \<Rightarrow> nat" where
  "code_length OP h xs = sum_list (map (\<lambda>x. nat (the (instr_length OP (n_instr (the (h x)))))) xs)"

definition offset_only :: "store \<Rightarrow> store \<Rightarrow> bool" where
  "offset_only h h' \<longleftrightarrow> (\<forall>x. map_option (\<lambda>nd. nd\<lparr>n_instr := (n_instr nd)\<lparr>i_offset := 0\<rparr>\<rparr>) (h' x) =
     map_option (\<lambda>nd. nd\<lparr>n_instr := (n_instr nd)\<lparr>i_offset := 0\<rparr>\<rparr>) (h x))"

lemma offset_irrelevant [simp]:
  "instr_length OP (i\<lparr>i_offset := off\<rparr>) = instr_length OP i" "raw_bits_ok (i\<lparr>i_offset := off\<rparr>) = raw_bits_ok i"
  by (simp_all add: instr_length_def instr_needs_encoding_def instr_length_arch_def instr_get_opcode_def raw_bits_ok_def
      instr_is_label_def instr_opcode_valid_def)

lemma offset_onlyD:
  assumes "offset_only h h'" "h x = Some nd"
  obtains nd' where "h' x = Some nd'" "n_next nd' = n_next nd" "n_prev nd' = n_prev nd"
    "instr_length OP (n_instr nd') = instr_length OP (n_instr nd)" "raw_bits_ok (n_instr nd') = raw_bits_ok (n_instr nd)"
proof -
  obtain nd' where nd': "h' x = Some nd'"
    "nd'\<lparr>n_instr := (n_instr nd')\<lparr>i_offset := 0\<rparr>\<rparr> = nd\<lparr>n_instr := (n_instr nd)\<lparr>i_offset := 0\<rparr>\<rparr>"
    using assms unfolding offset_only_def by (metis (no_types, lifting) map_option_eq_Some)
  have i: "(n_instr nd')\<lparr>i_offset := 0\<rparr> = (n_instr nd)\<lparr>i_offset := 0\<rparr>"
    using arg_cong [OF nd'(2), of n_instr] by simp
  show ?thesis
    using that [OF nd'(1)] arg_cong [OF nd'(2), of n_next] arg_cong [OF nd'(2), of n_prev]
      arg_cong [OF i, of "instr_length OP"] arg_cong [OF i, of raw_bits_ok] by simp
qed

lemma instr_length_nonneg: "raw_bits_ok i \<Longrightarrow> instr_length OP i = Some n \<Longrightarrow> 0 \<le> n"
  using small_length(3) [of "i_length i"]
  by (auto simp: instr_length_def instr_length_arch_def raw_bits_ok_def split: if_splits bind_splits)

lemma offset_only_upd:
  assumes "h x = Some nd"
  shows "offset_only h (h(x \<mapsto> nd\<lparr>n_instr := (n_instr nd)\<lparr>i_offset := off\<rparr>\<rparr>))" "links (h(x \<mapsto> nd\<lparr>n_instr := i\<rparr>)) = links h"
  using assms by (auto simp: offset_only_def links_def node_at_def fun_eq_iff)

lemma code_length_upd: "x \<notin> set xs \<Longrightarrow> code_length OP (h(x := v)) xs = code_length OP h xs"
  unfolding code_length_def by (intro arg_cong [where f = sum_list] map_cong refl) auto

lemma offsets_pass:
  "offsets_from OP has h (hd (xs @ [0])) len = Some (h', len') \<Longrightarrow> dseg (links h) p xs 0 \<Longrightarrow> distinct xs \<Longrightarrow>
   (\<And>x. x \<in> set xs \<Longrightarrow> raw_bits_ok (n_instr (the (h x)))) \<Longrightarrow>
   len' = len + word_of_nat (code_length OP h xs) \<and> offset_only h h' \<and>
   (\<forall>x \<in> set xs. \<exists>n. instr_length OP (n_instr (the (h x))) = Some n) \<and> (\<forall>x. x \<notin> set xs \<longrightarrow> h' x = h x) \<and>
   (has \<longrightarrow> (\<forall>as x bs. xs = as @ x # bs \<longrightarrow>
      i_offset (n_instr (the (h' x))) = len + word_of_nat (code_length OP h as)))"
proof (induction xs arbitrary: h len p)
  case Nil
  then show ?case by (auto simp: offsets_from.simps code_length_def offset_only_def)
next
  case (Cons x xs)
  obtain nd where nd: "node_at h x = Some nd" "h x = Some nd" "n_next nd = hd (xs @ [0])" "x \<noteq> 0" "dseg (links h) x xs 0"
    using Cons.prems(2) by (rule dseg_ConsE)
  define h1 where "h1 = h(x \<mapsto> if has then nd\<lparr>n_instr := (n_instr nd)\<lparr>i_offset := len\<rparr>\<rparr> else nd)"
  obtain n where n: "instr_length OP (n_instr nd) = Some n"
    and rest: "offsets_from OP has h1 (hd (xs @ [0])) (len + word_of_int n) = Some (h', len')"
    using Cons.prems(1) nd unfolding h1_def by (subst (asm) offsets_from.simps) (auto split: bind_splits if_splits)
  have "0 \<le> n" using instr_length_nonneg [OF _ n] Cons.prems(4) [of x] nd by simp
  then have cl: "word_of_nat (code_length OP h (x # as)) = (word_of_int n + word_of_nat (code_length OP h as) :: u64)" for as
    using nd n by (simp add: code_length_def)
  have x: "x \<notin> set xs" using Cons.prems(3) by simp
  have oo: "offset_only h h1" "links h1 = links h"
    using offset_only_upd [of h x nd] nd(2) by (auto simp: h1_def offset_only_def fun_upd_idem)
  have h1: "y \<noteq> x \<Longrightarrow> h1 y = h y" "has \<Longrightarrow> i_offset (n_instr (the (h1 x))) = len"
    "x \<notin> set as \<Longrightarrow> code_length OP h1 as = code_length OP h as" for y as
    by (auto simp: h1_def code_length_upd)
  have same: "y \<in> set xs \<Longrightarrow> h1 y = h y" for y by (cases "y = x") (use x h1(1) in auto)
  have "raw_bits_ok (n_instr (the (h1 y)))" if "y \<in> set xs" for y using that Cons.prems(4) same by simp
  then have IH: "len' = len + word_of_int n + word_of_nat (code_length OP h xs)" "offset_only h1 h'"
    "\<forall>y \<in> set xs. \<exists>n. instr_length OP (n_instr (the (h1 y))) = Some n" "\<forall>y. y \<notin> set xs \<longrightarrow> h' y = h1 y"
    "has \<longrightarrow> (\<forall>as y bs. xs = as @ y # bs \<longrightarrow>
      i_offset (n_instr (the (h' y))) = len + word_of_int n + word_of_nat (code_length OP h1 as))"
    using Cons.IH [OF rest, of x] nd(5) oo(2) Cons.prems(3) h1(3) [OF x] by auto
  have offs: "i_offset (n_instr (the (h' y))) = len + word_of_nat (code_length OP h as)"
    if "has" "x # xs = as @ y # bs" for as y bs
  proof (cases as)
    case Nil
    then show ?thesis using that IH(4) x h1(2) by (auto simp: code_length_def)
  next
    case (Cons a as')
    then have "x \<notin> set as'" "xs = as' @ y # bs" "a = x" using that(2) x by auto
    then show ?thesis using IH(5) [rule_format, OF that(1)] Cons cl [of as'] h1(3) by (simp add: add.assoc)
  qed
  have "\<forall>y \<in> set (x # xs). \<exists>n. instr_length OP (n_instr (the (h y))) = Some n" using IH(3) nd(2) n same by auto
  moreover have "\<forall>y. y \<notin> set (x # xs) \<longrightarrow> h' y = h y" using IH(4) h1(1) by auto
  moreover have "offset_only h h'" using IH(2) oo(1) by (simp add: offset_only_def)
  ultimately show ?case using IH(1) offs cl [of xs] by (simp add: add.assoc)
qed

lemma encode_from_node:
  "node_at h x = Some nd \<Longrightarrow> encode_from T di h mem x copy_pc final_pc = do {
     r \<leftarrow> instr_encode_to_copy T di mem (n_instr nd) copy_pc final_pc;
     (case fst r of None \<Rightarrow> Some (None, snd r)
      | Some pc \<Rightarrow> encode_from T di h (snd r) (n_next nd) pc (final_pc + (pc - copy_pc))) }"
  by (subst encode_from.simps) (simp add: node_at_def split: if_splits)

lemma encode_pass:
  "encode_from T di h mem (hd (xs @ [0])) copy_pc final_pc = Some (r, mem') \<Longrightarrow> dseg (links h) p xs 0 \<Longrightarrow>
   (\<And>x. x \<in> set xs \<Longrightarrow> raw_bits_ok (n_instr (the (h x)))) \<Longrightarrow>
   (\<And>x. x \<in> set xs \<Longrightarrow> \<exists>n. instr_length (OP_enum T) (n_instr (the (h x))) = Some n) \<Longrightarrow>
   kept mem mem' copy_pc (code_length (OP_enum T) h xs) \<and>
   (r = None \<or> r = Some (copy_pc + word_of_nat (code_length (OP_enum T) h xs)))"
proof (induction xs arbitrary: mem copy_pc final_pc p)
  case Nil
  then show ?case by (auto simp: encode_from.simps code_length_def)
next
  case (Cons x xs)
  obtain nd where nd: "node_at h x = Some nd" "h x = Some nd" "n_next nd = hd (xs @ [0])" "x \<noteq> 0" "dseg (links h) x xs 0"
    using Cons.prems(2) by (rule dseg_ConsE)
  obtain n where n: "instr_length (OP_enum T) (n_instr nd) = Some n" using Cons.prems(4) [of x] nd by auto
  obtain r0 where r0: "instr_encode_to_copy T di mem (n_instr nd) copy_pc final_pc = Some r0"
    "(case fst r0 of None \<Rightarrow> Some (None, snd r0)
       | Some pc \<Rightarrow> encode_from T di h (snd r0) (n_next nd) pc (final_pc + (pc - copy_pc))) = Some (r, mem')"
    using Cons.prems(1) nd(1) by (auto simp: encode_from_node split: bind_splits)
  define r1 mem1 where defs: "r1 = fst r0" "mem1 = snd r0"
  have e: "instr_encode_to_copy T di mem (n_instr nd) copy_pc final_pc = Some (r1, mem1)"
    using r0(1) by (simp add: defs)
  have rest: "(case r1 of None \<Rightarrow> Some (None, mem1)
       | Some pc \<Rightarrow> encode_from T di h mem1 (hd (xs @ [0])) pc (final_pc + (pc - copy_pc))) = Some (r, mem')"
    using r0(2) unfolding defs nd(3) .
  have ok: "raw_bits_ok (n_instr nd)" using Cons.prems(3) [of x] nd by simp
  note el = encode_length [OF e n ok]
  have cl: "code_length (OP_enum T) h (x # xs) = nat n + code_length (OP_enum T) h xs"
    using nd n by (simp add: code_length_def)
  show ?case
  proof (cases r1)
    case None
    then show ?thesis using rest el(3) cl by (auto simp: kept_def)
  next
    case (Some pc)
    then have pc: "pc = copy_pc + word_of_nat (nat n)" using el(1,4) by simp
    have "kept mem1 mem' pc (code_length (OP_enum T) h xs) \<and>
        (r = None \<or> r = Some (pc + word_of_nat (code_length (OP_enum T) h xs)))"
      using rest Some Cons.IH [OF _ nd(5)] Cons.prems(3,4) by auto
    then show ?thesis using kept_trans [OF el(3)] pc cl by (auto simp: add.assoc)
  qed
qed


lemma offset_only_links: "offset_only h h' \<Longrightarrow> links h' = links h"
proof
  fix x assume o: "offset_only h h'"
  have "map_option (\<lambda>nd. (n_prev nd, n_next nd)) (h' x) = map_option (\<lambda>nd. (n_prev nd, n_next nd)) (h x)"
    using arg_cong [OF spec [OF o [unfolded offset_only_def], of x], of "map_option (\<lambda>nd. (n_prev nd, n_next nd))"]
    by (simp add: option.map_comp o_def)
  then show "links h' x = links h x" by (simp add: links_def node_at_def)
qed

lemma offset_only_instr:
  assumes "offset_only h h'" "dseg (links h) p xs 0" "x \<in> set xs"
  shows "raw_bits_ok (n_instr (the (h' x))) = raw_bits_ok (n_instr (the (h x)))"
    "instr_length OP (n_instr (the (h' x))) = instr_length OP (n_instr (the (h x)))"
proof -
  obtain nd where "h x = Some nd" using dseg_dom [OF assms(2,3)] by (auto simp: links_def node_at_Some)
  from offset_onlyD [OF assms(1) this] this show "raw_bits_ok (n_instr (the (h' x))) = raw_bits_ok (n_instr (the (h x)))"
    "instr_length OP (n_instr (the (h' x))) = instr_length OP (n_instr (the (h x)))" by (metis option.sel)+
qed

lemma offset_only_length:
  "offset_only h h' \<Longrightarrow> dseg (links h) p xs 0 \<Longrightarrow> code_length OP h' xs = code_length OP h xs"
  unfolding code_length_def by (intro arg_cong [where f = sum_list] map_cong refl) (simp add: offset_only_instr(2))

lemma kept_outside:
  assumes "kept mem mem' a n" "n < 2 ^ 64" "\<not> POINTER_OVERFLOW_ON_ADD a (word_of_nat n)" "a + word_of_nat n \<le> m"
  shows "\<not> (a \<le> x \<and> x < m) \<Longrightarrow> mem' x = mem x" "unat a + n \<le> unat m"
proof -
  have n: "unat (word_of_nat n :: u64) = n" using assms(2) by (simp add: unat_of_nat take_bit_eq_mod)
  have sum: "unat (a + word_of_nat n) = unat a + n"
    using assms(3) n by (simp add: POINTER_OVERFLOW_ON_ADD_def not_less unat_plus_simple)
  then show m: "unat a + n \<le> unat m" using assms(4) by (simp add: word_le_nat_alt)
  assume out: "\<not> (a \<le> x \<and> x < m)"
  have "n \<le> unat (x - a)"
  proof (rule ccontr)
    assume "\<not> n \<le> unat (x - a)"
    moreover have "unat a + n < 2 ^ 64" using sum unat_less_exp [of "a + word_of_nat n"] by simp
    ultimately have "unat (a + (x - a)) = unat a + unat (x - a)" by (subst unat_add_lem [symmetric]) simp
    then show False using out m \<open>\<not> n \<le> unat (x - a)\<close> by (auto simp: word_le_nat_alt word_less_nat_alt)
  qed
  then show "mem' x = mem x" using assms(1) by (simp add: kept_def)
qed

text \<open>
  C30: encoding a list into a buffer that ends at \<^verbatim>\<open>max_pc\<close> writes no byte outside the buffer, also when an instruction cannot be
  encoded half-way. On success the returned pointer lies behind the code, whose size is the sum of the instruction lengths,
  and with jump targets the offset of every instruction is the size of the code in front of it.
\<close>

theorem encode_to_copy_in_bounds:
  assumes "ilist_ok h l xs" and raw: "\<forall>x \<in> set xs. raw_bits_ok (n_instr (the (h x)))"
    and len: "code_length (OP_enum T) h xs < 2 ^ 64" and "max_pc \<noteq> 0"
    and run: "instrlist_encode_to_copy T di check h mem l copy_pc final_pc max_pc has_targets = Some (r, mem', h')"
  shows "(\<forall>a. \<not> (copy_pc \<le> a \<and> a < max_pc) \<longrightarrow> mem' a = mem a) \<and>
    (\<forall>pc. r = Some pc \<longrightarrow> pc = copy_pc + word_of_nat (code_length (OP_enum T) h xs) \<and>
       unat copy_pc + code_length (OP_enum T) h xs \<le> unat max_pc) \<and>
    (has_targets \<longrightarrow> (\<forall>as x bs. xs = as @ x # bs \<longrightarrow>
       i_offset (n_instr (the (h' x))) = word_of_nat (code_length (OP_enum T) h as)))"
proof -
  let ?n = "code_length (OP_enum T) h xs"
  note l = ilist_okD [OF assms(1)]
  obtain h1 len' where off: "offsets_from (OP_enum T) has_targets h (hd (xs @ [0])) 0 = Some (h1, len')"
    and run1: "(if copy_pc + len' > max_pc \<or> POINTER_OVERFLOW_ON_ADD copy_pc len' then Some (None, mem, h1)
      else do { (pc, mem) \<leftarrow> encode_from T (di\<lparr>di_offset := store_offset h1\<rparr>) h1 mem (hd (xs @ [0])) copy_pc final_pc;
        Some (pc, mem, h1) }) = Some (r, mem', h')"
    using run assms(4) l(3) by (auto simp: instrlist_encode_to_copy_def split: bind_splits if_splits)
  note op = offsets_pass [OF off l(1,2) raw [rule_format]]
  show ?thesis
  proof (cases "copy_pc + len' > max_pc \<or> POINTER_OVERFLOW_ON_ADD copy_pc len'")
    case True
    then show ?thesis using run1 op by auto
  next
    case False
    then have enc: "encode_from T (di\<lparr>di_offset := store_offset h1\<rparr>) h1 mem (hd (xs @ [0])) copy_pc final_pc = Some (r, mem')" "h1 = h'"
      using run1 by (auto split: bind_splits)
    have seg: "dseg (links h1) 0 xs 0" using l(1) op offset_only_links by metis
    have ok: "raw_bits_ok (n_instr (the (h1 x)))" "\<exists>n. instr_length (OP_enum T) (n_instr (the (h1 x))) = Some n" if "x \<in> set xs" for x
      using offset_only_instr [of h h1 0 xs x] that raw op l(1) by auto
    have cl: "code_length (OP_enum T) h1 xs = ?n" using offset_only_length op l(1) by blast
    note ep = encode_pass [OF enc(1) seg ok]
    have k: "kept mem mem' copy_pc ?n" using ep cl by simp
    have no: "\<not> POINTER_OVERFLOW_ON_ADD copy_pc (word_of_nat ?n)" "copy_pc + word_of_nat ?n \<le> max_pc"
      using False op by (auto simp: not_less)
    show ?thesis using kept_outside [OF k len no] ep cl op enc(2) by auto
  qed
qed


text \<open>A list of a label and a jump that is kept as raw bits.\<close>

definition raw_jump :: instr_t where
  "raw_jump = instr_init\<lparr>i_flags := INSTR_RAW_BITS_VALID, i_opcode := 4, i_bytes := 0x1000, i_length := 4\<rparr>"

definition raw_store :: store where
  "raw_store = map_of [(1, \<lparr>n_instr = instr_init\<lparr>i_opcode := OP_LABEL\<rparr>, n_note = 0, n_prev = 0, n_next = 2\<rparr>),
     (2, \<lparr>n_instr = raw_jump, n_note = 0, n_prev = 1, n_next = 0\<rparr>)]"

definition raw_list :: instrlist_t where
  "raw_list = instrlist_init\<lparr>l_first := 1, l_last := 2\<rparr>"

lemma raw_run:
  "\<exists>mem' h'. instrlist_encode_to_copy sample_tables sample_di False raw_store (bytes4 0x6f 0 0 1) raw_list 0x2000 0x2000 0x2010 True =
     Some (Some 0x2004, mem', h')"
  by (simp add: instrlist_encode_to_copy_def raw_list_def raw_store_def instrlist_init_def offsets_from.simps node_at_def
      instr_length_def instr_needs_encoding_def instr_length_arch_def instr_get_opcode_def instr_init_def raw_jump_def
      TESTALL_def POINTER_OVERFLOW_ON_ADD_def encode_from.simps instr_encode_to_copy_def instr_encode_arch_def
      instr_is_label_def instr_opcode_valid_def instr_raw_bits_valid_def copy_and_re_relativize_raw_instr_def)

theorem encode_to_copy_in_bounds_witness:
  "\<exists>mem' h'. instrlist_encode_to_copy sample_tables sample_di False raw_store (bytes4 0x6f 0 0 1) raw_list 0x2000 0x2000 0x2010 True =
     Some (Some 0x2004, mem', h') \<and> mem' 0x3000 = bytes4 0x6f 0 0 1 0x3000"
proof -
  obtain mem' h' where run: "instrlist_encode_to_copy sample_tables sample_di False raw_store (bytes4 0x6f 0 0 1) raw_list
      0x2000 0x2000 0x2010 True = Some (Some 0x2004, mem', h')" using raw_run by blast
  have "ilist_ok raw_store raw_list [1, 2]"
    by (simp add: ilist_ok_def raw_store_def raw_list_def instrlist_init_def links_def node_at_def)
  moreover have "\<forall>x \<in> set [1, 2]. raw_bits_ok (n_instr (the (raw_store x)))" "code_length (OP_enum sample_tables) raw_store [1, 2] = 4"
    by (simp_all add: raw_bits_ok_def raw_store_def raw_jump_def instr_init_def instr_needs_encoding_def TESTALL_def
        instr_is_label_def instr_opcode_valid_def code_length_def instr_length_def instr_length_arch_def instr_get_opcode_def)
  ultimately have "mem' 0x3000 = bytes4 0x6f 0 0 1 0x3000"
    using encode_to_copy_in_bounds [OF _ _ _ _ run, of "[1, 2]"] by simp
  then show ?thesis using run by blast
qed

end
