(* ===== verification/InstrListClone.thy ===== *)
theory InstrListClone
  imports InstrListOps
begin

text \<open>
  \<^verbatim>\<open>instrlist_clone\<close> of \<^verbatim>\<open>core/ir/instrlist.c\<close> and \<^verbatim>\<open>instr_clone\<close> of \<^verbatim>\<open>instr_shared.c\<close>. The address of the next heap
  block is given by the allocator, a parameter: \<open>alloc k\<close> is the \<open>k\<close>-th instruction object and \<open>raw k\<close> the \<open>k\<close>-th
  block for raw bits. The three loops of the routine are three functions; the proof gives each of them
  its effect on the contents of the nodes and on their links.
\<close>

unbundle bit_operations_syntax

subsection \<open>The routines\<close>

record ir_state =
  ir_store :: store
  ir_mem :: memory
  ir_allocs :: nat

text \<open>\<^verbatim>\<open>memcpy\<close> of the first \<open>n\<close> operands.\<close>

definition copy_opnds :: "nat \<Rightarrow> opnd_t option list \<Rightarrow> opnd_t option list option" where
  "copy_opnds n opnds = (if n \<le> length opnds then Some (take n opnds) else None)"

definition instr_clone ::
  "(nat \<Rightarrow> instr_ref) \<Rightarrow> (nat \<Rightarrow> u64) \<Rightarrow> ir_state \<Rightarrow> instr_ref \<Rightarrow> (instr_ref \<times> ir_state) option" where
  "instr_clone alloc raw st p = do {
     nd \<leftarrow> node_at (ir_store st) p;
     let orig = n_instr nd;
     ASSERT (\<not> TESTALL INSTR_IS_NOALLOC_STRUCT (i_flags orig));
     let k = ir_allocs st;
     let instr = instr_set_our_mangling orig False;
     (instr, mem) \<leftarrow>
       (if i_flags orig AND INSTR_RAW_BITS_ALLOCATED \<noteq> 0 then
          Some (instr\<lparr>i_bytes := raw k\<rparr>,
            write_mem (ir_mem st) (raw k) (read_mem (ir_mem st) (i_bytes orig) (unat (i_length instr))))
        else if instr_is_label orig then do {
          cb \<leftarrow> instr_get_label_callback instr;
          Some (if cb \<noteq> 0 then instr\<lparr>i_bytes := 0\<rparr> else instr, ir_mem st) }
        else Some (instr, ir_mem st));
     dsts \<leftarrow> (if i_num_dsts orig > 0 then copy_opnds (i_num_dsts instr) (i_dsts orig) else Some (i_dsts instr));
     srcs \<leftarrow> (if i_num_srcs orig > 1 then copy_opnds (i_num_srcs instr - 1) (i_srcs orig) else Some (i_srcs instr));
     let instr = instr\<lparr>i_dsts := dsts, i_srcs := srcs, i_offset := i_offset orig\<rparr>;
     Some (alloc k, st\<lparr>ir_store := (ir_store st)(alloc k \<mapsto>
         \<lparr>n_instr = instr, n_note = n_note nd, n_prev = 0, n_next = 0\<rparr>),
       ir_mem := mem, ir_allocs := k + 1\<rparr>) }"

text \<open>The first loop: the copies, with the \<^verbatim>\<open>note\<close> of each original clobbered.\<close>

partial_function (option) clone_instrs ::
  "(nat \<Rightarrow> instr_ref) \<Rightarrow> (nat \<Rightarrow> u64) \<Rightarrow> instrlist_t \<Rightarrow> ir_state \<Rightarrow> instr_ref \<Rightarrow> (instrlist_t \<times> ir_state) option" where
  "clone_instrs alloc raw newlist st inst =
     (if inst = 0 then Some (newlist, st)
      else do {
        c \<leftarrow> instr_clone alloc raw st inst;
        h \<leftarrow> instr_set_note (ir_store (snd c)) inst (fst c);
        r \<leftarrow> instrlist_append h newlist (fst c);
        next \<leftarrow> instr_get_next (fst r) inst;
        clone_instrs alloc raw (snd r) ((snd c)\<lparr>ir_store := fst r\<rparr>) next })"

text \<open>The second loop: the instruction operands of a copy point to the copies of their targets.\<close>

definition fix_src :: "store \<Rightarrow> instr_ref \<Rightarrow> nat \<Rightarrow> store option" where
  "fix_src h copy i = do {
     nd \<leftarrow> node_at h copy;
     opnd \<leftarrow> instr_get_src (n_instr nd) i;
     if \<not> opnd_is_instr opnd then Some h
     else do {
       r \<leftarrow> opnd_get_instr opnd;
       ASSERT (r \<noteq> 0);
       tgt \<leftarrow> instr_get_note h r;
       ASSERT (tgt \<noteq> 0);
       opnd \<leftarrow> (if opnd_is_far_instr opnd then do {
           seg \<leftarrow> opnd_get_segment_selector opnd;
           Some (opnd_create_far_instr seg tgt) }
         else Some (opnd_create_instr tgt));
       instr \<leftarrow> instr_set_src (n_instr nd) i opnd;
       Some (h(copy \<mapsto> nd\<lparr>n_instr := instr\<rparr>)) } }"

fun fix_srcs :: "store \<Rightarrow> instr_ref \<Rightarrow> nat list \<Rightarrow> store option" where
  "fix_srcs h copy [] = Some h"
| "fix_srcs h copy (i # is) = do { h \<leftarrow> fix_src h copy i; fix_srcs h copy is }"

partial_function (option) fix_targets :: "store \<Rightarrow> instr_ref \<Rightarrow> instr_ref \<Rightarrow> store option" where
  "fix_targets h inst copy =
     (if inst = 0 \<or> copy = 0 then Some h
      else do {
        nd \<leftarrow> node_at h inst;
        h \<leftarrow> fix_srcs h copy [0..<i_num_srcs (n_instr nd)];
        inst \<leftarrow> instr_get_next h inst;
        copy \<leftarrow> instr_get_next h copy;
        fix_targets h inst copy })"

partial_function (option) restore_notes :: "store \<Rightarrow> instr_ref \<Rightarrow> instr_ref \<Rightarrow> store option" where
  "restore_notes h inst copy =
     (if inst = 0 \<or> copy = 0 then Some h
      else do {
        note \<leftarrow> instr_get_note h copy;
        h \<leftarrow> instr_set_note h inst note;
        inst \<leftarrow> instr_get_next h inst;
        copy \<leftarrow> instr_get_next h copy;
        restore_notes h inst copy })"

definition instrlist_clone ::
  "(nat \<Rightarrow> instr_ref) \<Rightarrow> (nat \<Rightarrow> u64) \<Rightarrow> ir_state \<Rightarrow> instrlist_t \<Rightarrow> (instrlist_t \<times> ir_state) option" where
  "instrlist_clone alloc raw st old = do {
     (newlist, st) \<leftarrow> clone_instrs alloc raw instrlist_create st (l_first old);
     h \<leftarrow> fix_targets (ir_store st) (l_first old) (l_first newlist);
     h \<leftarrow> restore_notes h (l_first old) (l_first newlist);
     Some (newlist\<lparr>l_fall_through_bb := l_fall_through_bb old\<rparr>, st\<lparr>ir_store := h\<rparr>) }"

subsection \<open>One instruction\<close>

definition put_note :: "store \<Rightarrow> instr_ref \<Rightarrow> instr_ref \<Rightarrow> store" where
  "put_note h x v = h(x := map_option (\<lambda>nd. nd\<lparr>n_note := v\<rparr>) (h x))"

lemma put_note_simps [simp]:
  "links (put_note h x v) = links h"
  "payload (put_note h x v) = (payload h)(x := map_option (\<lambda>(i, _). (i, v)) (payload h x))"
  by (auto simp: put_note_def links_def payload_def node_at_def fun_eq_iff option.map_comp o_def)

lemma set_note_put: "links h x \<noteq> None \<Longrightarrow> instr_set_note h x v = Some (put_note h x v)"
  by (auto simp: links_def instr_set_note_def upd_node_def put_note_def node_at_def split: if_splits)

text \<open>The copy of an instruction; \<open>b\<close> is the block that its raw bits are copied to, if it has its own.\<close>

definition clone_of :: "u64 \<Rightarrow> instr_t \<Rightarrow> instr_t" where
  "clone_of b i = (instr_set_our_mangling i False)\<lparr>i_bytes :=
     (if i_flags i AND INSTR_RAW_BITS_ALLOCATED \<noteq> 0 then b else if instr_is_label i then 0 else i_bytes i)\<rparr>"

lemma testall_exp: "n < 32 \<Longrightarrow> TESTALL (2 ^ n) w \<longleftrightarrow> bit (w :: u32) n"
proof
  assume n: "n < 32" and "TESTALL (2 ^ n) w"
  then have "bit (2 ^ n AND w) n = bit (2 ^ n :: u32) n" by (simp add: TESTALL_def)
  then show "bit w n" using n by (simp add: bit_simps)
next
  assume "n < 32" "bit w n"
  then show "TESTALL (2 ^ n) w" unfolding TESTALL_def by (intro bit_word_eqI) (auto simp: bit_simps)
qed

lemma allocated_bit:
  "TESTALL INSTR_RAW_BITS_ALLOCATED w \<longleftrightarrow> bit w 20" "w AND INSTR_RAW_BITS_ALLOCATED \<noteq> 0 \<longleftrightarrow> bit w 20"
proof -
  have f: "INSTR_RAW_BITS_ALLOCATED = 2 ^ 20" by (simp add: INSTR_RAW_BITS_ALLOCATED_def)
  show "w AND INSTR_RAW_BITS_ALLOCATED \<noteq> 0 \<longleftrightarrow> bit w 20" unfolding f and_exp_eq_0_iff_not_bit by simp
  show "TESTALL INSTR_RAW_BITS_ALLOCATED w \<longleftrightarrow> bit w 20"
    unfolding f by (rule testall_exp) simp
qed

lemma instr_clone_ok:
  assumes "node_at (ir_store st) p = Some nd" "instr_wf (n_instr nd)"
  obtains m where "instr_clone alloc raw st p = Some (alloc (ir_allocs st), st\<lparr>ir_store := (ir_store st)(alloc (ir_allocs st) \<mapsto>
      \<lparr>n_instr = clone_of (raw (ir_allocs st)) (n_instr nd), n_note = n_note nd, n_prev = 0, n_next = 0\<rparr>),
      ir_mem := m, ir_allocs := Suc (ir_allocs st)\<rparr>)"
proof -
  let ?i = "n_instr nd" and ?k = "ir_allocs st"
  have wf: "\<not> TESTALL INSTR_IS_NOALLOC_STRUCT (i_flags ?i)" "length (i_dsts ?i) = i_num_dsts ?i" "length (i_srcs ?i) = i_num_srcs ?i - 1"
    using assms(2) by (auto simp: instr_wf_def)
  have lab: "instr_is_label (instr_set_our_mangling ?i False) = instr_is_label ?i"
    by (simp add: instr_is_label_def instr_opcode_valid_def instr_set_our_mangling_def)
  have alc: "TESTALL INSTR_RAW_BITS_ALLOCATED (i_flags (instr_set_our_mangling ?i False)) \<longleftrightarrow> i_flags ?i AND INSTR_RAW_BITS_ALLOCATED \<noteq> 0"
    by (simp add: instr_set_our_mangling_def allocated_bit INSTR_OUR_MANGLING_def bit_simps bit_numeral_rec)
  let ?a = "i_flags ?i AND INSTR_RAW_BITS_ALLOCATED \<noteq> 0"
  let ?m = "if ?a then write_mem (ir_mem st) (raw ?k) (read_mem (ir_mem st) (i_bytes ?i) (unat (i_length ?i))) else ir_mem st"
  have cb: "\<not> ?a \<Longrightarrow> instr_is_label ?i \<Longrightarrow>
      instr_get_label_callback (instr_set_our_mangling ?i False) = Some (i_bytes ?i)"
    using lab alc by (simp add: instr_get_label_callback_def) (simp add: instr_set_our_mangling_def)
  have opnds: "copy_opnds (i_num_dsts ?i) (i_dsts ?i) = Some (i_dsts ?i)" "copy_opnds (i_num_srcs ?i - Suc 0) (i_srcs ?i) = Some (i_srcs ?i)"
    using wf by (simp_all add: copy_opnds_def)
  obtain j where j: "instr_set_our_mangling ?i False = j" by blast
  have flds: "i_num_dsts ?i = i_num_dsts j" "i_num_srcs ?i = i_num_srcs j" "i_dsts ?i = i_dsts j" "i_srcs ?i = i_srcs j"
    "i_length ?i = i_length j" "i_bytes ?i = i_bytes j" "i_offset ?i = i_offset j"
    by (simp_all add: instr_set_our_mangling_def flip: j)
  have z: "i_bytes j = 0 \<Longrightarrow> j\<lparr>i_bytes := 0\<rparr> = j" by (cases j) simp
  have "instr_clone alloc raw st p = Some (alloc ?k, st\<lparr>ir_store := (ir_store st)(alloc ?k \<mapsto>
      \<lparr>n_instr = clone_of (raw ?k) ?i, n_note = n_note nd, n_prev = 0, n_next = 0\<rparr>), ir_mem := ?m, ir_allocs := Suc ?k\<rparr>)"
    using assms(1) wf(1) opnds cb
    by (cases ?a; cases "instr_is_label ?i") (simp_all add: instr_clone_def clone_of_def Let_def j flds z)
  then show ?thesis by (rule that)
qed


subsection \<open>The loops\<close>

text \<open>The first loop: a well-linked list of copies with the original notes; each original's note is its copy.\<close>

definition all_wf :: "store \<Rightarrow> instr_ref list \<Rightarrow> bool" where
  "all_wf h xs \<longleftrightarrow> (\<forall>x \<in> set xs. \<exists>i nt. payload h x = Some (i, nt) \<and> instr_wf i)"

definition fresh_refs :: "(nat \<Rightarrow> instr_ref) \<Rightarrow> store \<Rightarrow> nat \<Rightarrow> nat \<Rightarrow> bool" where
  "fresh_refs alloc h k n \<longleftrightarrow> distinct (map alloc [k..<k + n]) \<and> (\<forall>j \<in> {k..<k + n}. alloc j \<noteq> 0 \<and> h (alloc j) = None)"

definition no_attributes :: "instrlist_t \<Rightarrow> bool" where
  "no_attributes l \<longleftrightarrow> attributes l = attributes instrlist_init"

lemma translate_none [simp]: "no_attributes l \<Longrightarrow> translate l i = i"
  by (simp add: no_attributes_def attributes_def instrlist_init_def translate_def instrlist_get_our_mangling_def TESTALL_def)

lemma payload_translated_none: "no_attributes l \<Longrightarrow> payload (translated l ys h) = payload h"
proof
  show "no_attributes l \<Longrightarrow> payload (translated l ys h) x = payload h x" for x
    by (cases "payload h x") (auto simp: payload_translated)
qed

lemma clone_step:
  assumes "node_at (ir_store st) x = Some nd" "instr_wf (n_instr nd)" "fresh_refs alloc (ir_store st) (ir_allocs st) (Suc n)"
    "ilist_ok (ir_store st) l ys" "no_attributes l" "x \<notin> set ys"
  defines "c \<equiv> alloc (ir_allocs st)"
  obtains l' st' where "clone_instrs alloc raw l st x = clone_instrs alloc raw l' st' (n_next nd)"
    "ilist_ok (ir_store st') l' (ys @ [c])" "no_attributes l'" "ir_allocs st' = Suc (ir_allocs st)"
    "\<And>z. z \<notin> set (ys @ [c]) \<Longrightarrow> links (ir_store st') z = links (ir_store st) z"
    "payload (ir_store st') = (payload (ir_store st))(c \<mapsto> (clone_of (raw (ir_allocs st)) (n_instr nd), n_note nd),
       x \<mapsto> (n_instr nd, c))"
proof -
  let ?h = "ir_store st"
  have c: "c \<noteq> 0" "?h c = None" using assms(3) by (auto simp: fresh_refs_def c_def)
  have x: "x \<noteq> 0" "?h x = Some nd" "c \<noteq> x" using assms(1) c by (auto simp: node_at_Some)
  have cys: "c \<notin> set ys" using dseg_dom [OF ilist_okD(1) [OF assms(4)], of c] c by (auto simp: links_def node_at_def)
  obtain m where cl: "instr_clone alloc raw st x = Some (c, st\<lparr>ir_store := ?h(c \<mapsto>
      \<lparr>n_instr = clone_of (raw (ir_allocs st)) (n_instr nd), n_note = n_note nd, n_prev = 0, n_next = 0\<rparr>),
      ir_mem := m, ir_allocs := Suc (ir_allocs st)\<rparr>)"
    using instr_clone_ok [OF assms(1,2)] unfolding c_def by blast
  define h1 where "h1 = ?h(c \<mapsto> \<lparr>n_instr = clone_of (raw (ir_allocs st)) (n_instr nd), n_note = n_note nd, n_prev = 0, n_next = 0\<rparr>)"
  have l1: "links h1 = (links ?h)(c \<mapsto> (0, 0))" and p1: "payload h1 = (payload ?h)(c \<mapsto> (clone_of (raw (ir_allocs st)) (n_instr nd), n_note nd))"
    using c(1) by (auto simp: h1_def links_def payload_def node_at_def fun_eq_iff)
  define h2 where "h2 = put_note h1 x (c)"
  have nx: "links ?h x = Some (n_prev nd, n_next nd)" using assms(1) by (simp add: links_def)
  have snote: "instr_set_note h1 x c = Some h2"
    using set_note_put [of h1 x c] x(3) nx by (simp add: l1 h2_def)
  have l2: "links h2 = (links ?h)(c \<mapsto> (0, 0))" by (simp add: h2_def l1)
  have p2: "payload h2 = (payload ?h)(c \<mapsto> (clone_of (raw (ir_allocs st)) (n_instr nd), n_note nd), x \<mapsto> (n_instr nd, c))"
    using x by (auto simp: h2_def p1 payload_def fun_eq_iff)
  have "ilist_ok h2 l ys" using assms(4) cys by (simp add: ilist_ok_def l2)
  moreover have "chain_ok h2 c [c]" by (simp add: chain_ok_def l2)
  ultimately obtain h3 l' where ap: "instrlist_append h2 l c = Some (h3, l')" "ilist_ok h3 l' (ys @ [c])"
      "spliced l ys [c] h2 h3" "attributes l' = attributes l"
    using append_splice [of h2 l ys c "[c]"] cys by auto
  have l3: "links h3 z = links ?h z" if "z \<notin> set (ys @ [c])" for z
    using that ap(3) l2 by (auto simp: spliced_def links_def fun_eq_iff split: if_splits)
  have "links h3 x = links ?h x" using l3 assms(6) x(3) by auto
  then have "instr_get_next h3 x = Some (n_next nd)" using nx by (simp add: get_link)
  then have "clone_instrs alloc raw l st x =
      clone_instrs alloc raw l' (st\<lparr>ir_mem := m, ir_allocs := Suc (ir_allocs st), ir_store := h3\<rparr>) (n_next nd)"
    using cl x(1) snote ap(1) by (subst clone_instrs.simps) (simp flip: h1_def)
  moreover have "payload h3 = payload h2"
    using ap(3) payload_translated_none [OF assms(5)] by (simp add: spliced_def)
  ultimately show ?thesis
    using that [of l' "st\<lparr>ir_mem := m, ir_allocs := Suc (ir_allocs st), ir_store := h3\<rparr>"] ap(2,4) l3 p2 assms(5)
    by (simp add: no_attributes_def)
qed


lemma dseg_eq: "(\<And>z. z \<in> set xs \<Longrightarrow> lk z = lk' z) \<Longrightarrow> dseg lk p xs n = dseg lk' p xs n"
  by (induction xs arbitrary: p) auto

lemma payload_None: "payload h z = None \<longleftrightarrow> h z = None"
  by (simp add: payload_def)

lemma fresh_outside:
  assumes "fresh_refs alloc h k n" "dseg (links h) p xs 0" "j \<in> {k..<k + n}"
  shows "alloc j \<notin> set xs"
  using assms dseg_dom [OF assms(2), of "alloc j"] by (auto simp: fresh_refs_def links_def node_at_def split: if_splits)

lemma fresh_Suc:
  assumes "fresh_refs alloc h k (Suc n)"
  shows "alloc k \<notin> alloc ` {Suc k..<Suc k + n}"
    "(\<And>z. z \<notin> {alloc k, x} \<Longrightarrow> payload h' z = payload h z) \<Longrightarrow> h x \<noteq> None \<Longrightarrow> fresh_refs alloc h' (Suc k) n"
proof -
  have "distinct (alloc k # map alloc [Suc k..<Suc k + n])" and none: "\<forall>j \<in> {k..<Suc k + n}. alloc j \<noteq> 0 \<and> h (alloc j) = None"
    using assms by (simp_all add: fresh_refs_def upt_conv_Cons del: upt_Suc)
  then have *: "alloc k \<notin> alloc ` {Suc k..<Suc k + n}" and dst: "distinct (map alloc [Suc k..<Suc k + n])" by auto
  show "alloc k \<notin> alloc ` {Suc k..<Suc k + n}" by (rule *)
  assume "\<And>z. z \<notin> {alloc k, x} \<Longrightarrow> payload h' z = payload h z" "h x \<noteq> None"
  then have "h' (alloc j) = None" if "j \<in> {Suc k..<Suc k + n}" for j
    using that * none by (metis (no_types, lifting) atLeastLessThan_iff Suc_leD image_eqI insert_iff payload_None singletonD)
  then show "fresh_refs alloc h' (Suc k) n" using dst none by (simp add: fresh_refs_def)
qed

definition copied :: "(nat \<Rightarrow> instr_ref) \<Rightarrow> (nat \<Rightarrow> u64) \<Rightarrow> nat \<Rightarrow> instr_ref list \<Rightarrow> store \<Rightarrow> store \<Rightarrow> bool" where
  "copied alloc raw k xs h h' \<longleftrightarrow>
     (\<forall>z. z \<notin> set xs \<union> alloc ` {k..<k + length xs} \<longrightarrow> payload h' z = payload h z) \<and>
     (\<forall>j < length xs. \<exists>i nt. payload h (xs ! j) = Some (i, nt) \<and> payload h' (xs ! j) = Some (i, alloc (k + j)) \<and>
        payload h' (alloc (k + j)) = Some (clone_of (raw (k + j)) i, nt))"

lemma image_upto: "f ` {k..<k + length (x # xs)} = insert (f k) (f ` {Suc k..<Suc k + length xs})"
proof -
  have "{k..<k + length (x # xs)} = insert k {Suc k..<Suc k + length xs}" by auto
  then show ?thesis by simp
qed

lemma copied_Cons:
  assumes "copied alloc raw (Suc k) xs h1 h'" "payload h x = Some (i, nt)" "x \<notin> set xs" "alloc k \<notin> set (x # xs)"
    "alloc k \<notin> alloc ` {Suc k..<Suc k + length xs}" "x \<notin> alloc ` {Suc k..<Suc k + length xs}"
    "payload h1 = (payload h)(alloc k \<mapsto> (clone_of (raw k) i, nt), x \<mapsto> (i, alloc k))"
  shows "copied alloc raw k (x # xs) h h'"
proof -
  have im: "alloc ` {k..<k + length (x # xs)} = insert (alloc k) (alloc ` {Suc k..<Suc k + length xs})"
    by (rule image_upto)
  show ?thesis
    unfolding copied_def im
  proof (intro conjI allI impI)
    fix z assume "z \<notin> set (x # xs) \<union> insert (alloc k) (alloc ` {Suc k..<Suc k + length xs})"
    then show "payload h' z = payload h z" using assms(1,7) by (auto simp: copied_def)
  next
    fix j assume j: "j < length (x # xs)"
    show "\<exists>i nt. payload h ((x # xs) ! j) = Some (i, nt) \<and> payload h' ((x # xs) ! j) = Some (i, alloc (k + j)) \<and>
        payload h' (alloc (k + j)) = Some (clone_of (raw (k + j)) i, nt)"
    proof (cases j)
      case 0
      then show ?thesis using assms by (auto simp: copied_def)
    next
      case (Suc m)
      then have "xs ! m \<noteq> x" "xs ! m \<noteq> alloc k" "m < length xs" using j assms(3,4) by (auto simp: in_set_conv_nth)
      then show ?thesis using Suc assms(1,7) by (auto simp: copied_def)
    qed
  qed
qed

lemma clone_list:
  "dseg (links (ir_store st)) p xs 0 \<Longrightarrow> distinct xs \<Longrightarrow> all_wf (ir_store st) xs \<Longrightarrow>
   fresh_refs alloc (ir_store st) (ir_allocs st) (length xs) \<Longrightarrow> ilist_ok (ir_store st) l ys \<Longrightarrow> no_attributes l \<Longrightarrow>
   set xs \<inter> set ys = {} \<Longrightarrow>
   \<exists>l' st'. clone_instrs alloc raw l st (hd (xs @ [0])) = Some (l', st') \<and>
     ilist_ok (ir_store st') l' (ys @ map alloc [ir_allocs st..<ir_allocs st + length xs]) \<and> no_attributes l' \<and>
     (\<forall>z. z \<notin> set ys \<union> alloc ` {ir_allocs st..<ir_allocs st + length xs} \<longrightarrow> links (ir_store st') z = links (ir_store st) z) \<and>
     copied alloc raw (ir_allocs st) xs (ir_store st) (ir_store st')"
proof (induction xs arbitrary: st l ys p)
  case Nil
  then show ?case by (simp add: clone_instrs.simps copied_def)
next
  case (Cons x xs)
  let ?k = "ir_allocs st" and ?h = "ir_store st"
  let ?c = "alloc ?k"
  obtain nd where nd: "node_at ?h x = Some nd" "?h x = Some nd" "n_next nd = hd (xs @ [0])" "dseg (links ?h) x xs 0"
    using dseg_ConsE [OF Cons.prems(1)] by metis
  have px: "payload ?h x = Some (n_instr nd, n_note nd)" using nd(2) by (simp add: payload_def)
  have wf: "instr_wf (n_instr nd)" using Cons.prems(3) px by (auto simp: all_wf_def)
  have fr: "fresh_refs alloc ?h ?k (Suc (length xs))" using Cons.prems(4) by simp
  have out: "alloc j \<notin> set (x # xs)" if "j \<in> {?k..<?k + Suc (length xs)}" for j
    using fresh_outside [OF fr Cons.prems(1) that] .
  obtain l1 st1 where st: "clone_instrs alloc raw l st x = clone_instrs alloc raw l1 st1 (n_next nd)"
    "ilist_ok (ir_store st1) l1 (ys @ [?c])" "no_attributes l1" "ir_allocs st1 = Suc ?k"
    "\<And>z. z \<notin> set (ys @ [?c]) \<Longrightarrow> links (ir_store st1) z = links ?h z"
    "payload (ir_store st1) = (payload ?h)(?c \<mapsto> (clone_of (raw ?k) (n_instr nd), n_note nd), x \<mapsto> (n_instr nd, ?c))"
    using clone_step [OF nd(1) wf fr Cons.prems(5,6), of raw] Cons.prems(7) by auto
  have cx: "?c \<notin> set (x # xs)" using out [of ?k] by simp
  have disj: "set xs \<inter> set (ys @ [?c]) = {}" using Cons.prems(7) cx by auto
  then have "links (ir_store st1) z = links ?h z" if "z \<in> set xs" for z
    using that by (intro st(5)) (meson disjoint_iff)
  then have "dseg (links (ir_store st1)) x xs 0" using nd(4) dseg_eq [of xs "links (ir_store st1)" "links ?h"] by simp
  moreover have "all_wf (ir_store st1) xs" using Cons.prems(2,3) cx by (auto simp: all_wf_def st(6))
  moreover have "fresh_refs alloc (ir_store st1) (ir_allocs st1) (length xs)"
    unfolding st(4) by (rule fresh_Suc(2) [OF fr]) (auto simp: st(6) nd(2))
  ultimately obtain l' st' where IH: "clone_instrs alloc raw l1 st1 (hd (xs @ [0])) = Some (l', st')"
      "ilist_ok (ir_store st') l' ((ys @ [?c]) @ map alloc [Suc ?k..<Suc ?k + length xs])" "no_attributes l'"
      "\<forall>z. z \<notin> set (ys @ [?c]) \<union> alloc ` {Suc ?k..<Suc ?k + length xs} \<longrightarrow> links (ir_store st') z = links (ir_store st1) z"
      "copied alloc raw (Suc ?k) xs (ir_store st1) (ir_store st')"
    using Cons.IH [of st1 x l1 "ys @ [?c]"] st(2-4) disj Cons.prems(2) by auto
  have "x \<notin> alloc ` {Suc ?k..<Suc ?k + length xs}"
  proof
    assume "x \<in> alloc ` {Suc ?k..<Suc ?k + length xs}"
    then obtain j where "x = alloc j" "j \<in> {?k..<?k + Suc (length xs)}" by auto
    then show False using out [of j] by simp
  qed
  then have "copied alloc raw ?k (x # xs) ?h (ir_store st')"
    using copied_Cons [OF IH(5) px _ cx fresh_Suc(1) [OF fr] _ st(6)] Cons.prems(2) by simp
  moreover have "map alloc [?k..<?k + length (x # xs)] = ?c # map alloc [Suc ?k..<Suc ?k + length xs]"
    by (simp add: upt_conv_Cons del: upt_Suc)
  moreover have "alloc ` {?k..<?k + length (x # xs)} = insert ?c (alloc ` {Suc ?k..<Suc ?k + length xs})"
    by (rule image_upto)
  ultimately show ?case using IH st(1,5) nd(3) by auto
qed


text \<open>The third loop gives every original the note of its copy.\<close>

lemma restore_list:
  "length xs = length ys \<Longrightarrow> dseg (links h) p xs 0 \<Longrightarrow> dseg (links h) q ys 0 \<Longrightarrow> distinct xs \<Longrightarrow> set xs \<inter> set ys = {} \<Longrightarrow>
   \<exists>h'. restore_notes h (hd (xs @ [0])) (hd (ys @ [0])) = Some h' \<and> links h' = links h \<and>
     (\<forall>z. z \<notin> set xs \<longrightarrow> payload h' z = payload h z) \<and>
     (\<forall>j < length xs. \<forall>i n m k. payload h (xs ! j) = Some (i, n) \<longrightarrow> payload h (ys ! j) = Some (m, k) \<longrightarrow> payload h' (xs ! j) = Some (i, k))"
proof (induction xs ys arbitrary: h p q rule: list_induct2)
  case Nil
  then show ?case by (simp add: restore_notes.simps)
next
  case (Cons x xs y ys)
  obtain nx where nx: "node_at h x = Some nx" "n_next nx = hd (xs @ [0])" "x \<noteq> 0" "dseg (links h) x xs 0"
    using dseg_ConsE [OF Cons.prems(1)] by metis
  obtain ny where ny: "node_at h y = Some ny" "h y = Some ny" "n_next ny = hd (ys @ [0])" "y \<noteq> 0" "dseg (links h) y ys 0"
    using dseg_ConsE [OF Cons.prems(2)] by metis
  let ?h = "put_note h x (n_note ny)"
  have lk: "links h x = Some (n_prev nx, hd (xs @ [0]))" "links h y = Some (n_prev ny, hd (ys @ [0]))"
    using nx ny by (simp_all add: links_def)
  have step: "restore_notes h x y = restore_notes ?h (hd (xs @ [0])) (hd (ys @ [0]))"
    using nx(3) ny(1,4) lk by (subst restore_notes.simps) (simp add: instr_get_note_def set_note_put get_link)
  have dis: "x \<notin> set xs" "x \<notin> set (y # ys)" "set xs \<inter> set ys = {}" "distinct xs" using Cons.prems(3,4) by auto
  obtain h' where IH: "restore_notes ?h (hd (xs @ [0])) (hd (ys @ [0])) = Some h'" "links h' = links h"
    "\<forall>z. z \<notin> set xs \<longrightarrow> payload h' z = payload ?h z"
    "\<forall>j < length xs. \<forall>i n m k. payload ?h (xs ! j) = Some (i, n) \<longrightarrow> payload ?h (ys ! j) = Some (m, k) \<longrightarrow> payload h' (xs ! j) = Some (i, k)"
    using Cons.IH [of ?h x y] nx(4) ny(5) dis(3,4) by (metis put_note_simps(1))
  have rest: "payload h' ((x # xs) ! j) = Some (i, k)"
    if "j < length (x # xs)" "payload h ((x # xs) ! j) = Some (i, n)" "payload h ((y # ys) ! j) = Some (m, k)" for j i n m k
  proof (cases j)
    case 0
    then show ?thesis using that IH(3) dis(1) ny(2) by (simp add: payload_def [of h y])
  next
    case (Suc j')
    then have "xs ! j' \<noteq> x" "ys ! j' \<noteq> x" using that(1) dis(1,2) Cons.hyps by (auto simp: in_set_conv_nth)
    then show ?thesis using that Suc IH(4) by (simp del: payload_None)
  qed
  show ?case using step IH(1-3) rest dis by (intro exI [of _ h']) auto
qed


text \<open>The second loop: what it makes of an operand and of an instruction.\<close>

fun retarget :: "(instr_ref \<Rightarrow> instr_ref) \<Rightarrow> opnd_t \<Rightarrow> opnd_t" where
  "retarget f (INSTR_kind sz shft r) = opnd_create_instr (f r)"
| "retarget f (FAR_INSTR_kind seg r) = opnd_create_far_instr seg (f r)"
| "retarget f opnd = opnd"

definition clone_frame :: "instr_t \<Rightarrow> nat \<times> nat \<times> nat \<times> opnd_t option list \<times> u64 \<times> u64 \<times> u32 \<times> u64" where
  "clone_frame i = (i_opcode i, i_num_srcs i, i_num_dsts i, i_dsts i, i_translation i, i_offset i, i_length i, i_bytes i)"

definition retargeted :: "(instr_ref \<Rightarrow> instr_ref) \<Rightarrow> instr_t \<Rightarrow> instr_t \<Rightarrow> bool" where
  "retargeted f i i' \<longleftrightarrow> clone_frame i' = clone_frame i \<and>
     (\<forall>t < i_num_srcs i. instr_get_src i' t = map_option (retarget f) (instr_get_src i t))"

definition target_ok :: "(instr_ref \<Rightarrow> instr_ref) \<Rightarrow> store \<Rightarrow> opnd_t \<Rightarrow> bool" where
  "target_ok f h opnd \<longleftrightarrow> (opnd_is_instr opnd \<longrightarrow> (\<exists>r. opnd_get_instr opnd = Some r \<and> r \<noteq> 0 \<and>
     instr_get_note h r = Some (f r) \<and> f r \<noteq> 0))"

definition put_instr :: "store \<Rightarrow> instr_ref \<Rightarrow> instr_t \<Rightarrow> store" where
  "put_instr h c i = h(c := map_option (\<lambda>nd. nd\<lparr>n_instr := i\<rparr>) (h c))"

lemma put_instr_simps [simp]:
  "links (put_instr h c i) = links h"
  "payload (put_instr h c i) = (payload h)(c := map_option (\<lambda>(_, nt). (i, nt)) (payload h c))"
  "put_instr (put_instr h c i) c i' = put_instr h c i'"
  by (auto simp: put_instr_def links_def payload_def node_at_def fun_eq_iff option.map_comp o_def)

lemma put_instr_same: "payload h c = Some (i, nt) \<Longrightarrow> put_instr h c i = h"
  by (cases "h c") (auto simp: put_instr_def payload_def fun_eq_iff)

lemma note_put: "instr_get_note (put_instr h c i) r = instr_get_note h r"
  by (auto simp: instr_get_note_def put_instr_def node_at_def option.map_comp o_def map_conv_bind_option split: option.splits)

lemma set_src_frame: "instr_set_src i j v = Some i' \<Longrightarrow> clone_frame i' = clone_frame i"
  by (auto simp: instr_set_src_def clone_frame_def instr_flag_defs split: if_splits bind_splits)

lemma fix_src_ok:
  assumes c: "payload h c = Some (i, nt)" "c \<noteq> 0" and wf: "instr_wf i" and src: "instr_get_src i j = Some opnd" "target_ok f h opnd"
  obtains i' where "fix_src h c j = Some (put_instr h c i')" "instr_get_src i' j = Some (retarget f opnd)"
    "\<And>t w. t \<noteq> j \<Longrightarrow> instr_get_src i t = Some w \<Longrightarrow> instr_get_src i' t = Some w" "instr_wf i'" "clone_frame i' = clone_frame i"
proof -
  obtain nd where nd: "node_at h c = Some nd" "n_instr nd = i" "h c = Some nd"
    using c by (cases "h c") (auto simp: payload_def node_at_def)
  show ?thesis
  proof (cases "opnd_is_instr opnd")
    case False
    then have "fix_src h c j = Some (put_instr h c i)" "retarget f opnd = opnd"
      using nd src(1) put_instr_same [OF c(1)] by (simp add: fix_src_def, cases opnd, auto)
    then show ?thesis using that [of i] src(1) wf by simp
  next
    case True
    then obtain r where r: "opnd_get_instr opnd = Some r" "r \<noteq> 0" "instr_get_note h r = Some (f r)" "f r \<noteq> 0"
      using src(2) by (auto simp: target_ok_def)
    have "j < i_num_srcs i" using src(1) by (simp add: instr_get_src_def split: if_splits)
    then obtain i' where i': "slot_set i (SRC j) (retarget f opnd) = Some i'" using slot_set_defined(2) [OF wf] by blast
    have "fix_src h c j = Some (h(c \<mapsto> nd\<lparr>n_instr := i'\<rparr>))"
      using nd src(1) True r i' by (cases opnd) (auto simp: fix_src_def)
    moreover have "h(c \<mapsto> nd\<lparr>n_instr := i'\<rparr>) = put_instr h c i'" using nd(3) by (simp add: put_instr_def)
    ultimately show ?thesis
      using that [of i'] slot_set_Some [OF i'] slot_set_Some(2) [OF i', of "SRC t" for t] wf set_src_frame i' by auto
  qed
qed


lemma fix_srcs_ok:
  "payload h c = Some (i, nt) \<Longrightarrow> c \<noteq> 0 \<Longrightarrow> instr_wf i \<Longrightarrow> distinct js \<Longrightarrow>
   (\<And>j. j \<in> set js \<Longrightarrow> \<exists>opnd. instr_get_src i j = Some opnd \<and> target_ok f h opnd) \<Longrightarrow>
   \<exists>i'. fix_srcs h c js = Some (put_instr h c i') \<and> instr_wf i' \<and> clone_frame i' = clone_frame i \<and>
     (\<forall>j \<in> set js. instr_get_src i' j = map_option (retarget f) (instr_get_src i j)) \<and>
     (\<forall>t w. t \<notin> set js \<longrightarrow> instr_get_src i t = Some w \<longrightarrow> instr_get_src i' t = Some w)"
proof (induction js arbitrary: h i)
  case Nil
  then show ?case using put_instr_same [OF Nil(1)] by (intro exI [of _ i]) simp
next
  case (Cons j js)
  obtain opnd where opnd: "instr_get_src i j = Some opnd" "target_ok f h opnd" using Cons.prems(5) [of j] by auto
  obtain i1 where i1: "fix_src h c j = Some (put_instr h c i1)" "instr_get_src i1 j = Some (retarget f opnd)"
    "\<And>t w. t \<noteq> j \<Longrightarrow> instr_get_src i t = Some w \<Longrightarrow> instr_get_src i1 t = Some w" "instr_wf i1" "clone_frame i1 = clone_frame i"
    using fix_src_ok [OF Cons.prems(1-3) opnd] by blast
  let ?h = "put_instr h c i1"
  have srcs: "\<exists>opnd. instr_get_src i1 t = Some opnd \<and> target_ok f ?h opnd" "instr_get_src i1 t = instr_get_src i t" if "t \<in> set js" for t
  proof -
    obtain op where op: "instr_get_src i t = Some op" "target_ok f h op" using Cons.prems(5) [of t] \<open>t \<in> set js\<close> by auto
    have "t \<noteq> j" using that Cons.prems(4) by auto
    then show "instr_get_src i1 t = instr_get_src i t" "\<exists>opnd. instr_get_src i1 t = Some opnd \<and> target_ok f ?h opnd"
      using i1(3) op by (auto simp: target_ok_def note_put)
  qed
  obtain i' where i': "fix_srcs ?h c js = Some (put_instr ?h c i')" "instr_wf i'" "clone_frame i' = clone_frame i1"
    "\<forall>t \<in> set js. instr_get_src i' t = map_option (retarget f) (instr_get_src i1 t)"
    "\<forall>t w. t \<notin> set js \<longrightarrow> instr_get_src i1 t = Some w \<longrightarrow> instr_get_src i' t = Some w"
    using Cons.IH [of ?h i1] Cons.prems(1,2,4) i1(4) srcs(1) by auto
  have "fix_srcs h c (j # js) = Some (put_instr h c i')"
    using i1(1) i'(1) by simp
  then show ?case using i' i1 opnd(1) srcs(2) Cons.prems(4) by (intro exI [of _ i']) auto
qed

definition sources_ok :: "(instr_ref \<Rightarrow> instr_ref) \<Rightarrow> store \<Rightarrow> instr_t \<Rightarrow> bool" where
  "sources_ok f h i \<longleftrightarrow> instr_wf i \<and> (\<forall>t < i_num_srcs i. \<exists>opnd. instr_get_src i t = Some opnd \<and> target_ok f h opnd)"

lemma fix_list:
  "length xs = length ys \<Longrightarrow> dseg (links h) p xs 0 \<Longrightarrow> dseg (links h) q ys 0 \<Longrightarrow> distinct ys \<Longrightarrow> set xs \<inter> set ys = {} \<Longrightarrow>
   (\<And>j. j < length xs \<Longrightarrow> \<exists>i nt i0 nt0. payload h (ys ! j) = Some (i, nt) \<and> payload h (xs ! j) = Some (i0, nt0) \<and>
      i_num_srcs i0 = i_num_srcs i \<and> sources_ok f h i) \<Longrightarrow>
   \<exists>h'. fix_targets h (hd (xs @ [0])) (hd (ys @ [0])) = Some h' \<and> links h' = links h \<and>
     (\<forall>z. z \<notin> set ys \<longrightarrow> payload h' z = payload h z) \<and>
     (\<forall>j < length ys. \<exists>i nt i'. payload h (ys ! j) = Some (i, nt) \<and> payload h' (ys ! j) = Some (i', nt) \<and> retargeted f i i')"
proof (induction xs ys arbitrary: h p q rule: list_induct2)
  case Nil
  then show ?case by (simp add: fix_targets.simps)
next
  case (Cons x xs y ys)
  obtain nx where nx: "node_at h x = Some nx" "h x = Some nx" "n_next nx = hd (xs @ [0])" "x \<noteq> 0" "dseg (links h) x xs 0"
    using dseg_ConsE [OF Cons.prems(1)] by metis
  obtain ny where ny: "node_at h y = Some ny" "n_next ny = hd (ys @ [0])" "y \<noteq> 0" "dseg (links h) y ys 0"
    using dseg_ConsE [OF Cons.prems(2)] by metis
  obtain i nt where i: "payload h y = Some (i, nt)" "i_num_srcs (n_instr nx) = i_num_srcs i" "sources_ok f h i"
    using Cons.prems(5) [of 0] nx(2) by (auto simp: payload_def)
  obtain i' where i': "fix_srcs h y [0..<i_num_srcs i] = Some (put_instr h y i')" "retargeted f i i'"
    using fix_srcs_ok [OF i(1) ny(3), of "[0..<i_num_srcs i]" f] i(3) by (auto simp: sources_ok_def retargeted_def)
  let ?h = "put_instr h y i'"
  have "links h x = Some (n_prev nx, hd (xs @ [0]))" "links h y = Some (n_prev ny, hd (ys @ [0]))" using nx ny by (simp_all add: links_def)
  then have step: "fix_targets h x y = fix_targets ?h (hd (xs @ [0])) (hd (ys @ [0]))"
    using nx ny(3) i(2) i'(1) by (subst fix_targets.simps) (simp add: get_link)
  have dis: "y \<notin> set xs" "y \<notin> set ys" "set xs \<inter> set ys = {}" "distinct ys" using Cons.prems(3,4) by auto
  have other: "payload ?h (xs ! j) = payload h (xs ! j)" "payload ?h (ys ! j) = payload h (ys ! j)" if "j < length xs" for j
    using that dis(1,2) Cons.hyps by (auto simp: in_set_conv_nth)
  have "sources_ok f ?h i0 = sources_ok f h i0" for i0 by (simp add: sources_ok_def target_ok_def note_put)
  then have prem: "\<exists>i nt i0 nt0. payload ?h (ys ! j) = Some (i, nt) \<and> payload ?h (xs ! j) = Some (i0, nt0) \<and>
      i_num_srcs i0 = i_num_srcs i \<and> sources_ok f ?h i" if "j < length xs" for j
    using Cons.prems(5) [of "Suc j"] that other [OF that] by simp
  obtain h' where IH: "fix_targets ?h (hd (xs @ [0])) (hd (ys @ [0])) = Some h'" "links h' = links h"
    "\<forall>z. z \<notin> set ys \<longrightarrow> payload h' z = payload ?h z"
    "\<forall>j < length ys. \<exists>i nt i'. payload ?h (ys ! j) = Some (i, nt) \<and> payload h' (ys ! j) = Some (i', nt) \<and> retargeted f i i'"
    using Cons.IH [of ?h x y, OF _ _ dis(4,3) prem] nx(5) ny(4) by auto
  have "\<exists>i nt i'. payload h ((y # ys) ! j) = Some (i, nt) \<and> payload h' ((y # ys) ! j) = Some (i', nt) \<and> retargeted f i i'"
    if "j < length (y # ys)" for j
    using that i(1) i'(2) IH(3,4) dis(2) other(2) Cons.hyps by (cases j) auto
  then show ?case using step IH(1-3) by (intro exI [of _ h']) auto
qed


subsection \<open>The whole clone\<close>

definition counterpart :: "instr_ref list \<Rightarrow> instr_ref list \<Rightarrow> instr_ref \<Rightarrow> instr_ref" where
  "counterpart xs ys r = the (map_of (zip xs ys) r)"

definition clonable :: "instr_ref list \<Rightarrow> instr_t \<Rightarrow> bool" where
  "clonable xs i \<longleftrightarrow> instr_wf i \<and> list_all (\<lambda>t. case instr_get_src i t of
       Some opnd \<Rightarrow> opnd_is_instr opnd \<longrightarrow> (case opnd_get_instr opnd of Some r \<Rightarrow> r \<in> set xs | None \<Rightarrow> False)
     | None \<Rightarrow> False) [0..<i_num_srcs i]"

lemma clonableD:
  assumes "clonable xs i"
  shows "instr_wf i" "t < i_num_srcs i \<Longrightarrow> \<exists>opnd. instr_get_src i t = Some opnd \<and>
    (opnd_is_instr opnd \<longrightarrow> (\<exists>r \<in> set xs. opnd_get_instr opnd = Some r))"
proof -
  show "instr_wf i" using assms by (simp add: clonable_def)
  assume "t < i_num_srcs i"
  then have "case instr_get_src i t of
      Some opnd \<Rightarrow> opnd_is_instr opnd \<longrightarrow> (case opnd_get_instr opnd of Some r \<Rightarrow> r \<in> set xs | None \<Rightarrow> False)
    | None \<Rightarrow> False"
    using assms unfolding clonable_def list_all_iff by (metis atLeastLessThan_upt atLeastLessThan_iff le0)
  then show "\<exists>opnd. instr_get_src i t = Some opnd \<and> (opnd_is_instr opnd \<longrightarrow> (\<exists>r \<in> set xs. opnd_get_instr opnd = Some r))"
    by (auto split: option.splits)
qed

lemma clone_of_opnds [simp]:
  "instr_get_src (clone_of b i) t = instr_get_src i t" "instr_wf (clone_of b i) = instr_wf i" "i_num_srcs (clone_of b i) = i_num_srcs i"
  by (simp_all add: clone_of_def instr_get_src_def instr_wf_def instr_flag_defs)

lemma counterpart_nth: "distinct xs \<Longrightarrow> length xs = length ys \<Longrightarrow> j < length xs \<Longrightarrow> counterpart xs ys (xs ! j) = ys ! j"
  by (simp add: counterpart_def map_of_zip_nth)

lemma copied_sources:
  assumes "copied alloc raw k xs h h1" "dseg (links h1) p xs 0" "distinct xs" "\<forall>j \<in> {k..<k + length xs}. alloc j \<noteq> 0"
    "\<forall>x \<in> set xs. clonable xs (n_instr (the (h x)))" "j < length xs"
  defines "ys \<equiv> map alloc [k..<k + length xs]"
  shows "\<exists>i nt i0 nt0. payload h1 (ys ! j) = Some (i, nt) \<and> payload h1 (xs ! j) = Some (i0, nt0) \<and>
      i_num_srcs i0 = i_num_srcs i \<and> sources_ok (counterpart xs ys) h1 i"
proof -
  obtain i nt where i: "payload h (xs ! j) = Some (i, nt)" "payload h1 (xs ! j) = Some (i, alloc (k + j))"
      "payload h1 (alloc (k + j)) = Some (clone_of (raw (k + j)) i, nt)"
    using assms(1,6) by (auto simp: copied_def)
  have cl: "clonable xs i"
    using bspec [OF assms(5) nth_mem [OF assms(6)]] i(1) by (cases "h (xs ! j)") (auto simp: payload_def)
  have nt: "r \<noteq> 0 \<and> instr_get_note h1 r = Some (counterpart xs ys r) \<and> counterpart xs ys r \<noteq> 0" if r: "r \<in> set xs" for r
  proof -
    obtain m where m: "m < length xs" "r = xs ! m" using r by (auto simp: in_set_conv_nth)
    then obtain i1 where "payload h1 r = Some (i1, alloc (k + m))" using assms(1) by (auto simp: copied_def)
    moreover have "r \<noteq> 0" using r dseg_nonnull [OF assms(2)] by metis
    moreover have "counterpart xs ys r = alloc (k + m)" using m assms(3) by (simp add: counterpart_nth ys_def)
    ultimately show ?thesis using assms(4) m(1) by (auto simp: instr_get_note_def node_at_def payload_def)
  qed
  have "sources_ok (counterpart xs ys) h1 (clone_of (raw (k + j)) i)"
    unfolding sources_ok_def target_ok_def using clonableD [OF cl] nt by fastforce
  then show ?thesis using i assms(6) by (auto simp: ys_def)
qed


lemma clone_loops:
  assumes c: "ilist_ok h1 l1 ys" "copied alloc raw k xs h h1" and x: "dseg (links h1) 0 xs 0" "distinct xs" "set xs \<inter> set ys = {}"
    and ys: "ys = map alloc [k..<k + length xs]" "\<forall>j \<in> {k..<k + length xs}. alloc j \<noteq> 0"
    and ok: "\<forall>x \<in> set xs. clonable xs (n_instr (the (h x)))"
  obtains h2 h3 where "fix_targets h1 (hd (xs @ [0])) (hd (ys @ [0])) = Some h2" "restore_notes h2 (hd (xs @ [0])) (hd (ys @ [0])) = Some h3"
    "links h3 = links h1" "\<And>z. z \<notin> set ys \<Longrightarrow> payload h3 z = payload h z"
    "\<And>j. j < length xs \<Longrightarrow> \<exists>i i' nt. payload h (xs ! j) = Some (i, nt) \<and> payload h3 (ys ! j) = Some (i', nt) \<and>
       retargeted (counterpart xs ys) (clone_of (raw (k + j)) i) i'"
proof -
  have len: "length xs = length ys" by (simp add: ys(1))
  note cd = ilist_okD [OF c(1)]
  obtain h2 where f: "fix_targets h1 (hd (xs @ [0])) (hd (ys @ [0])) = Some h2" "links h2 = links h1"
      "\<forall>z. z \<notin> set ys \<longrightarrow> payload h2 z = payload h1 z"
      "\<forall>j < length ys. \<exists>i nt i'. payload h1 (ys ! j) = Some (i, nt) \<and> payload h2 (ys ! j) = Some (i', nt) \<and>
         retargeted (counterpart xs ys) i i'"
    using fix_list [OF len x(1) cd(1,2) x(3) copied_sources [OF c(2) x(1,2) ys(2) ok, folded ys(1)]] by blast
  obtain h3 where r: "restore_notes h2 (hd (xs @ [0])) (hd (ys @ [0])) = Some h3" "links h3 = links h2"
      "\<forall>z. z \<notin> set xs \<longrightarrow> payload h3 z = payload h2 z"
      "\<forall>j < length xs. \<forall>i n m k. payload h2 (xs ! j) = Some (i, n) \<longrightarrow> payload h2 (ys ! j) = Some (m, k) \<longrightarrow> payload h3 (xs ! j) = Some (i, k)"
    using restore_list [OF len, of h2 0 0] x cd(1) f(2) by auto
  have each: "\<exists>i i' nt. payload h (xs ! j) = Some (i, nt) \<and> payload h3 (xs ! j) = Some (i, nt) \<and> payload h3 (ys ! j) = Some (i', nt) \<and>
      retargeted (counterpart xs ys) (clone_of (raw (k + j)) i) i'" if j: "j < length xs" for j
  proof -
    obtain i nt where i: "payload h (xs ! j) = Some (i, nt)" "payload h1 (xs ! j) = Some (i, alloc (k + j))"
        "payload h1 (ys ! j) = Some (clone_of (raw (k + j)) i, nt)"
      using c(2) j by (auto simp: copied_def ys(1))
    have o: "xs ! j \<notin> set ys" "ys ! j \<notin> set xs" using x(3) j len by (meson disjoint_iff nth_mem, metis disjoint_iff nth_mem)
    obtain i' where i': "payload h2 (ys ! j) = Some (i', nt)" "retargeted (counterpart xs ys) (clone_of (raw (k + j)) i) i'"
      using f(4) j len i(3) by auto
    then show ?thesis using i r(3,4) f(3) o j by auto
  qed
  have "payload h3 z = payload h z" if "z \<notin> set ys" for z
  proof (cases "z \<in> set xs")
    case True
    then show ?thesis using each by (metis in_set_conv_nth)
  next
    case False
    then show ?thesis using that r(3) f(3) c(2) by (simp add: copied_def ys(1))
  qed
  then show ?thesis using that f(1,2) r(1,2) each by metis
qed

text \<open>
  C29: \<^verbatim>\<open>instrlist_clone\<close> returns a well-linked list of fresh copies. Every node that existed before is unchanged in the
  end, the notes that the routine clobbers on the way included; each copy carries the note of its original, and its
  instruction operands point to the copies of the instructions that the original's point to.
\<close>

theorem instrlist_clone_copies:
  assumes l: "ilist_ok (ir_store st) l xs" and fresh: "fresh_refs alloc (ir_store st) (ir_allocs st) (length xs)"
    and ok: "\<forall>x \<in> set xs. clonable xs (n_instr (the (ir_store st x)))"
  shows "\<exists>l' st' ys. instrlist_clone alloc raw st l = Some (l', st') \<and> ys = map alloc [ir_allocs st..<ir_allocs st + length xs] \<and>
    ilist_ok (ir_store st') l' ys \<and> l_fall_through_bb l' = l_fall_through_bb l \<and>
    (\<forall>z. z \<notin> set ys \<longrightarrow> node_at (ir_store st') z = node_at (ir_store st) z) \<and>
    (\<forall>j < length xs. \<exists>i i' nt. payload (ir_store st) (xs ! j) = Some (i, nt) \<and> payload (ir_store st') (ys ! j) = Some (i', nt) \<and>
       retargeted (counterpart xs ys) (clone_of (raw (ir_allocs st + j)) i) i')"
proof -
  let ?h = "ir_store st" and ?k = "ir_allocs st"
  define ys where "ys = map alloc [?k..<?k + length xs]"
  note ld = ilist_okD [OF l]
  have wf: "all_wf ?h xs"
    unfolding all_wf_def using dseg_dom [OF ld(1)] ok clonableD(1) by (fastforce simp: payload_def links_def node_at_def split: if_splits)
  have "ilist_ok ?h instrlist_create []" "no_attributes instrlist_create"
    by (simp_all add: ilist_ok_def instrlist_create_def instrlist_init_def no_attributes_def)
  from clone_list [OF ld(1,2) wf fresh this, of raw] obtain l1 st1 where
    c: "clone_instrs alloc raw instrlist_create st (hd (xs @ [0])) = Some (l1, st1)" "ilist_ok (ir_store st1) l1 ys"
      "\<forall>z. z \<notin> set ys \<longrightarrow> links (ir_store st1) z = links ?h z" "copied alloc raw ?k xs ?h (ir_store st1)"
    by (auto simp: ys_def)
  have out: "set xs \<inter> set ys = {}" using fresh_outside [OF fresh ld(1)] by (auto simp: ys_def)
  have len: "length xs = length ys" by (simp add: ys_def)
  have lx: "dseg (links (ir_store st1)) 0 xs 0"
    using ld(1) c(3) out by (subst dseg_eq [of xs _ "links ?h"]) (auto dest: disjoint_iff [THEN iffD1, rule_format])
  have nz: "\<forall>j \<in> {?k..<?k + length xs}. alloc j \<noteq> 0" using fresh by (simp add: fresh_refs_def)
  obtain h2 h3 where h: "fix_targets (ir_store st1) (hd (xs @ [0])) (hd (ys @ [0])) = Some h2"
      "restore_notes h2 (hd (xs @ [0])) (hd (ys @ [0])) = Some h3" "links h3 = links (ir_store st1)"
      "\<And>z. z \<notin> set ys \<Longrightarrow> payload h3 z = payload ?h z"
      "\<And>j. j < length xs \<Longrightarrow> \<exists>i i' nt. payload ?h (xs ! j) = Some (i, nt) \<and> payload h3 (ys ! j) = Some (i', nt) \<and>
         retargeted (counterpart xs ys) (clone_of (raw (?k + j)) i) i'"
    using clone_loops [OF c(2,4) lx ld(2) out ys_def nz ok] by blast
  have "instrlist_clone alloc raw st l = Some (l1\<lparr>l_fall_through_bb := l_fall_through_bb l\<rparr>, st1\<lparr>ir_store := h3\<rparr>)"
    using c(1) h(1,2) ld(3) ilist_okD(3) [OF c(2)] by (simp add: instrlist_clone_def)
  moreover have "ilist_ok h3 (l1\<lparr>l_fall_through_bb := l_fall_through_bb l\<rparr>) ys" using c(2) h(3) by (simp add: ilist_ok_def)
  moreover have "node_at h3 z = node_at ?h z" if "z \<notin> set ys" for z
    using that h(3,4) c(3) by (intro node_unchanged) auto
  ultimately show ?thesis using h(5)
    by (intro exI [of _ "l1\<lparr>l_fall_through_bb := l_fall_through_bb l\<rparr>"] exI [of _ "st1\<lparr>ir_store := h3\<rparr>"] exI [of _ ys])
      (simp add: ys_def)
qed


text \<open>A loop: a label, and a jump back to it.\<close>

definition loop_jump :: instr_t where
  "loop_jump = instr_init\<lparr>i_flags := INSTR_OPERANDS_VALID, i_opcode := 4, i_num_srcs := 1, i_src0 := INSTR_kind OPSZ_PTR 0 1\<rparr>"

definition loop_state :: ir_state where
  "loop_state = \<lparr>ir_store = map_of [(1, \<lparr>n_instr = instr_init\<lparr>i_opcode := OP_LABEL\<rparr>, n_note = 5, n_prev = 0, n_next = 2\<rparr>),
     (2, \<lparr>n_instr = loop_jump, n_note = 6, n_prev = 1, n_next = 0\<rparr>)], ir_mem = (\<lambda>_. 0), ir_allocs = 0\<rparr>"

lemma loop_jump_src: "instr_get_src loop_jump 0 = Some (INSTR_kind OPSZ_PTR 0 1)" "i_num_srcs loop_jump = 1" "instr_wf loop_jump"
  by (simp_all add: loop_jump_def instr_init_def instr_get_src_def instr_operands_valid_def TESTALL_def instr_wf_def
      INSTR_OPERANDS_VALID_def INSTR_IS_NOALLOC_STRUCT_def)

lemma loop_ok:
  "ilist_ok (ir_store loop_state) raw_list [1, 2]" "fresh_refs (\<lambda>j. 10 + j) (ir_store loop_state) (ir_allocs loop_state) 2"
  "\<forall>x \<in> set [1, 2]. clonable [1, 2] (n_instr (the (ir_store loop_state x)))"
proof -
  show "ilist_ok (ir_store loop_state) raw_list [1, 2]"
    by (simp add: ilist_ok_def links_def node_at_def raw_list_def instrlist_init_def loop_state_def)
  show "fresh_refs (\<lambda>j. 10 + j) (ir_store loop_state) (ir_allocs loop_state) 2"
    by (simp add: fresh_refs_def loop_state_def numeral_2_eq_2)
  show "\<forall>x \<in> set [1, 2]. clonable [1, 2] (n_instr (the (ir_store loop_state x)))"
    by (simp add: loop_state_def clonable_def loop_jump_src) (simp add: instr_wf_def instr_init_def TESTALL_def)
qed

theorem instrlist_clone_copies_witness:
  "\<exists>l' st' i' nt. instrlist_clone (\<lambda>j. 10 + j) (\<lambda>_. 0) loop_state raw_list = Some (l', st') \<and>
     ilist_ok (ir_store st') l' [10, 11] \<and> payload (ir_store st') 11 = Some (i', nt) \<and>
     instr_get_src i' 0 = Some (INSTR_kind OPSZ_PTR 0 10)"
proof -
  obtain l' st' where c: "instrlist_clone (\<lambda>j. 10 + j) (\<lambda>_. 0) loop_state raw_list = Some (l', st')"
      "ilist_ok (ir_store st') l' [10, 11]"
    and each: "\<forall>j < 2. \<exists>i i' nt. payload (ir_store loop_state) ([1, 2] ! j) = Some (i, nt) \<and>
       payload (ir_store st') ([10, 11] ! j) = Some (i', nt) \<and> retargeted (counterpart [1, 2] [10, 11]) (clone_of 0 i) i'"
    using instrlist_clone_copies [OF loop_ok(1) _ loop_ok(3), of "\<lambda>j. 10 + j" "\<lambda>_. 0"] loop_ok(2)
    by (auto simp: loop_state_def eval_nat_numeral)
  obtain i i' nt where "payload (ir_store loop_state) 2 = Some (i, nt)" "payload (ir_store st') 11 = Some (i', nt)"
      "retargeted (counterpart [1, 2] [10, 11]) (clone_of 0 i) i'"
    using each [rule_format, of 1] by auto
  moreover from this have "i = loop_jump" by (simp add: payload_def loop_state_def)
  ultimately have "instr_get_src i' 0 = Some (INSTR_kind OPSZ_PTR 0 10)"
    by (simp add: retargeted_def loop_jump_src counterpart_def opnd_create_instr_def opnd_create_instr_ex_def)
  then show ?thesis using c \<open>payload (ir_store st') 11 = _\<close> by blast
qed

end
