(* ===== verification/Tracer.thy ===== *)
theory Tracer
  imports Bytes
begin

text \<open>
  The DynamoRIO client of \<^verbatim>\<open>src/fld/tracer/tracer_template.c\<close>: it reads the table of traced addresses,
  instruments basic blocks with clean calls and writes one 16-byte record per traced event through
  a buffer of 8192 records.

  The static variables of the file are the fields of a record. The buffer is the byte list that
  \<^verbatim>\<open>buf_base\<close> points to, with \<^verbatim>\<open>buf_ptr\<close> as an offset into it; \<^verbatim>\<open>buf_end\<close> is the constant offset
  \<open>FILE_BUF_SIZE\<close>. (The struct that holds the three pointers gets the room of one pointer from
  \<^verbatim>\<open>dr_global_alloc(sizeof(buffer))\<close>; the model gives it the room it needs.) The trace file is the list
  of the bytes written to it. \<open>None\<close> is an access outside an array or a signed overflow.
  Values that DynamoRIO supplies (time of day, module paths, register contents, the instructions of a
  block) are arguments.
\<close>

subsection \<open>Records and state\<close>

record collection_t =
  time_stamp :: u64
  ctype :: u32
  cpc :: u32

definition TYPE_HW :: u32 where "TYPE_HW = 0"
definition TYPE_SW :: u32 where "TYPE_SW = 1"

definition sizeof_collection :: nat where "sizeof_collection = 16"
definition MAX_NUM_COLLECTIONS_REFS :: nat where "MAX_NUM_COLLECTIONS_REFS = 8192"
definition FILE_BUF_SIZE :: nat where "FILE_BUF_SIZE = sizeof_collection * MAX_NUM_COLLECTIONS_REFS"
definition MAX_ADDRESS_LINES :: nat where "MAX_ADDRESS_LINES = 512000"
definition MAX_VP_RIPS :: nat where "MAX_VP_RIPS = 0xFFFFF"
definition MAX_SW_PCS :: nat where "MAX_SW_PCS = 0xFFFFFFF"

record tracer_t =
  trace_pc :: u32
  base_address :: u64
  vp_address :: "nat \<Rightarrow> bool"
  sw_address :: "nat \<Rightarrow> bool"
  buf_base :: "u8 list"
  buf_ptr :: nat
  trace_file :: "u8 list"

definition static_init :: tracer_t where
  "static_init = \<lparr>trace_pc = 0, base_address = 0, vp_address = (\<lambda>_. False), sw_address = (\<lambda>_. False),
     buf_base = [], buf_ptr = 0, trace_file = []\<rparr>"

text \<open>The bytes of a record in memory.\<close>

definition collection_bytes :: "collection_t \<Rightarrow> u8 list" where
  "collection_bytes c = le_bytes 8 (unat (time_stamp c)) @ le_bytes 4 (unat (ctype c)) @
     le_bytes 4 (unat (cpc c))"

subsection \<open>Helpers\<close>

fun dr_memset :: "u8 list \<Rightarrow> nat \<Rightarrow> u8 \<Rightarrow> nat \<Rightarrow> u8 list option" where
  "dr_memset buf ptr value 0 = Some buf"
| "dr_memset buf ptr value (Suc count) =
     (if ptr < length buf then dr_memset (buf[ptr := value]) (Suc ptr) value count else None)"

text \<open>A character of a C string; the terminator is the last one that may be read.\<close>

definition cstr_at :: "string \<Rightarrow> nat \<Rightarrow> char option" where
  "cstr_at s i = (if i < length s then Some (s ! i) else if i = length s then Some (CHR 0x00) else None)"

fun app_name_at :: "string \<Rightarrow> nat \<Rightarrow> string \<Rightarrow> bool \<Rightarrow> bool option" where
  "app_name_at full_path k [] foundAll = Some foundAll"
| "app_name_at full_path k (a # appName) foundAll =
     do {
       c \<leftarrow> cstr_at full_path k;
       app_name_at full_path (Suc k) appName (if c \<noteq> a then False else foundAll)
     }"

fun ends_loop :: "string \<Rightarrow> string \<Rightarrow> nat list \<Rightarrow> bool option" where
  "ends_loop appName full_path [] = Some False"
| "ends_loop appName full_path (i # is) =
     do {
       foundAll \<leftarrow> app_name_at full_path i appName True;
       if foundAll then Some True else ends_loop appName full_path is
     }"

definition endsWithApplicationName :: "string \<Rightarrow> string \<Rightarrow> bool option" where
  "endsWithApplicationName appName full_path = ends_loop appName full_path [0..<length full_path]"

definition event_module_load :: "string \<Rightarrow> string \<Rightarrow> u64 \<Rightarrow> tracer_t \<Rightarrow> tracer_t option" where
  "event_module_load appName full_path start st =
     do {
       b \<leftarrow> endsWithApplicationName appName full_path;
       Some (if b then st\<lparr>base_address := start\<rparr> else st)
     }"

record dr_time_t =
  hour :: u32
  minute :: u32
  second :: u32
  milliseconds :: u32

definition getTimeInMilliseconds :: "dr_time_t \<Rightarrow> u64" where
  "getTimeInMilliseconds t =
     ucast (((hour t * 60 + minute t) * 60 + second t) * 1000 + milliseconds t)"

subsection \<open>The address table\<close>

definition int32 :: "int \<Rightarrow> int option" where
  "int32 x = (if - (2 ^ 31) \<le> x \<and> x < 2 ^ 31 then Some x else None)"

definition digit_value :: "char \<Rightarrow> int" where
  "digit_value c = (case map_of [(CHR ''0'', 0), (CHR ''1'', 1), (CHR ''2'', 2), (CHR ''3'', 3), (CHR ''4'', 4),
       (CHR ''5'', 5), (CHR ''6'', 6), (CHR ''7'', 7), (CHR ''8'', 8), (CHR ''9'', 9)] c of
     Some converted \<Rightarrow> converted | None \<Rightarrow> - 1)"

text \<open>The loop of \<^verbatim>\<open>convertToInteger\<close>, on the characters from the last to the first.\<close>

fun convert_loop :: "char list \<Rightarrow> int \<Rightarrow> int \<Rightarrow> int option" where
  "convert_loop [] result decimal = Some result"
| "convert_loop (c # cs) result decimal =
     do {
       p \<leftarrow> int32 (decimal * digit_value c);
       result \<leftarrow> int32 (result + p);
       decimal \<leftarrow> int32 (decimal * 10);
       convert_loop cs result decimal
     }"

definition convertToInteger :: "char list \<Rightarrow> nat \<Rightarrow> int option" where
  "convertToInteger string len = convert_loop (rev (take len string)) 0 1"

record parse_t =
  p_token :: "char list"
  p_token_index :: nat
  p_token_id :: int

definition token_store :: "char list \<Rightarrow> nat \<Rightarrow> char \<Rightarrow> char list option" where
  "token_store token i c = (if i < length token then Some (token[i := c]) else None)"

definition table_store :: "nat \<Rightarrow> (nat \<Rightarrow> bool) \<Rightarrow> int \<Rightarrow> (nat \<Rightarrow> bool) option" where
  "table_store bound table address =
     (if 0 \<le> address \<and> address < int bound then Some (table(nat address := True)) else None)"

definition parse_char :: "char \<Rightarrow> parse_t \<times> tracer_t \<Rightarrow> (parse_t \<times> tracer_t) option" where
  "parse_char c ps =
     (let (p, st) = ps in
      if c = CHR 0x0A then
        do {
          token \<leftarrow> token_store (p_token p) (p_token_index p) (CHR 0x00);
          address \<leftarrow> convertToInteger token (p_token_index p);
          st \<leftarrow> (if p_token_id p = 0 then Some (st\<lparr>trace_pc := word_of_int address\<rparr>)
            else if p_token_id p = 1 then
              do { t \<leftarrow> table_store MAX_VP_RIPS (vp_address st) address; Some (st\<lparr>vp_address := t\<rparr>) }
            else if p_token_id p = 2 then
              do { t \<leftarrow> table_store MAX_SW_PCS (sw_address st) address; Some (st\<lparr>sw_address := t\<rparr>) }
            else Some st);
          token \<leftarrow> token_store token 0 (CHR 0x00);
          Some (p\<lparr>p_token := token, p_token_index := 0\<rparr>, st)
        }
      else if c = CHR '':'' then
        do {
          token \<leftarrow> token_store (p_token p) (p_token_index p) (CHR 0x00);
          let ident = (if token ! 0 = CHR ''1'' then 1 else if token ! 0 = CHR ''2'' then 2
            else if token ! 0 = CHR ''0'' then 0 else p_token_id p);
          token \<leftarrow> token_store token 0 (CHR 0x00);
          Some (p\<lparr>p_token := token, p_token_index := 0, p_token_id := ident\<rparr>, st)
        }
      else
        do {
          token \<leftarrow> token_store (p_token p) (p_token_index p) c;
          Some (p\<lparr>p_token := token, p_token_index := Suc (p_token_index p)\<rparr>, st)
        })"

fun parse_chars :: "char list \<Rightarrow> parse_t \<times> tracer_t \<Rightarrow> (parse_t \<times> tracer_t) option" where
  "parse_chars [] ps = Some ps"
| "parse_chars (c # cs) ps = do { ps \<leftarrow> parse_char c ps; parse_chars cs ps }"

definition parse_init :: parse_t where
  "parse_init = \<lparr>p_token = replicate 256 (CHR 0x00), p_token_index = 0, p_token_id = - 1\<rparr>"

text \<open>The argument is the content of the address table, \<open>None\<close> if it cannot be opened.\<close>

definition parse_trace_addresses :: "char list option \<Rightarrow> tracer_t \<Rightarrow> tracer_t option" where
  "parse_trace_addresses trace_addresses st =
     (case trace_addresses of
        None \<Rightarrow> Some st
      | Some content \<Rightarrow>
          do {
            (p, st) \<leftarrow> parse_chars (take MAX_ADDRESS_LINES content) (parse_init, st);
            Some st
          })"

subsection \<open>The buffer\<close>

definition write_collection :: "tracer_t \<Rightarrow> collection_t \<Rightarrow> tracer_t option" where
  "write_collection st c =
     do {
       m \<leftarrow> store_bytes (buf_base st) (buf_ptr st + 8) (le_bytes 4 (unat (ctype c)));
       m \<leftarrow> store_bytes m (buf_ptr st) (le_bytes 8 (unat (time_stamp c)));
       m \<leftarrow> store_bytes m (buf_ptr st + 12) (le_bytes 4 (unat (cpc c)));
       Some (st\<lparr>buf_base := m\<rparr>)
     }"

definition flush_file :: "tracer_t \<Rightarrow> tracer_t option" where
  "flush_file st =
     do {
       m \<leftarrow> dr_memset (buf_base st) 0 0 FILE_BUF_SIZE;
       Some (st\<lparr>trace_file := trace_file st @ take (buf_ptr st) (buf_base st), buf_base := m,
         buf_ptr := 0\<rparr>)
     }"

definition zero_collection :: collection_t where
  "zero_collection = \<lparr>time_stamp = 0, ctype = 0, cpc = 0\<rparr>"

text \<open>The common part of the two clean calls: fill the current record, advance, flush a full buffer,
clear the next record.\<close>

definition add_collection :: "tracer_t \<Rightarrow> collection_t \<Rightarrow> tracer_t option" where
  "add_collection st c =
     do {
       st \<leftarrow> write_collection st c;
       let st = st\<lparr>buf_ptr := buf_ptr st + sizeof_collection\<rparr>;
       st \<leftarrow> (if FILE_BUF_SIZE \<le> buf_ptr st then flush_file st else Some st);
       write_collection st zero_collection
     }"

definition clean_call_add_rip :: "dr_time_t \<Rightarrow> u32 \<Rightarrow> tracer_t \<Rightarrow> tracer_t option" where
  "clean_call_add_rip now rip st =
     add_collection st \<lparr>time_stamp = getTimeInMilliseconds now, ctype = TYPE_HW, cpc = rip\<rparr>"

text \<open>\<open>reg_get_value\<close> is the register file of the interrupted application.\<close>

definition clean_call_add_pc ::
  "dr_time_t \<Rightarrow> (u32 \<Rightarrow> u64) \<Rightarrow> u32 \<Rightarrow> tracer_t \<Rightarrow> tracer_t option" where
  "clean_call_add_pc now reg_get_value reg st =
     (let pc = reg_get_value reg in
      if unat pc < MAX_SW_PCS \<and> sw_address st (unat pc)
      then add_collection st \<lparr>time_stamp = getTimeInMilliseconds now, ctype = TYPE_SW, cpc = ucast pc\<rparr>
      else Some st)"

definition dr_client_main :: "nat \<Rightarrow> char list option \<Rightarrow> u8 list \<Rightarrow> tracer_t \<Rightarrow> tracer_t option" where
  "dr_client_main argc trace_addresses heap st =
     (if argc < 2 then Some st
      else do {
        st \<leftarrow> parse_trace_addresses trace_addresses st;
        write_collection (st\<lparr>buf_base := heap, buf_ptr := 0, trace_file := []\<rparr>) zero_collection
      })"

definition event_exit :: "tracer_t \<Rightarrow> tracer_t option" where
  "event_exit st = do { st \<leftarrow> flush_file st; Some (st\<lparr>buf_base := [], buf_ptr := 0\<rparr>) }"

subsection \<open>Instrumentation\<close>

text \<open>What the client asks DynamoRIO about an instruction: its address, whether it writes memory, and
the register that is its first source (\<open>None\<close> if that is not a register).\<close>

record app_instr =
  app_pc :: u64
  writes_memory :: bool
  src0_reg :: "u32 option"

datatype clean_call = Add_rip u32 | Add_pc u32

definition instrument_rip :: "tracer_t \<Rightarrow> app_instr \<Rightarrow> clean_call list" where
  "instrument_rip st instr =
     (let pc_32 = (ucast (app_pc instr - base_address st) :: u32) in
      if pc_32 > 0 \<and> unat pc_32 < MAX_VP_RIPS \<and> vp_address st (unat pc_32) then [Add_rip pc_32] else [])"

definition instrument_pc :: "tracer_t \<Rightarrow> app_instr \<Rightarrow> clean_call list option" where
  "instrument_pc st instr =
     (let pc_32 = (ucast (app_pc instr - base_address st) :: u32) in
      if pc_32 = trace_pc st \<and> writes_memory instr
      then do { reg \<leftarrow> src0_reg instr; Some [Add_pc reg] } else Some [])"

text \<open>The block with the calls inserted before each instruction.\<close>

fun event_basic_block ::
  "tracer_t \<Rightarrow> app_instr list \<Rightarrow> (clean_call list \<times> app_instr) list option" where
  "event_basic_block st [] = Some []"
| "event_basic_block st (instr # bb) =
     do {
       calls \<leftarrow> instrument_pc st instr;
       rest \<leftarrow> event_basic_block st bb;
       Some ((instrument_rip st instr @ calls, instr) # rest)
     }"

subsection \<open>The buffer is a log\<close>

text \<open>What a sink of byte strings promises: every \<open>put\<close> succeeds and appends to the log.\<close>

locale byte_log =
  fixes good :: "'s \<Rightarrow> bool" and log_of :: "'s \<Rightarrow> u8 list" and put :: "'s \<Rightarrow> 'r \<Rightarrow> 's option"
    and bytes :: "'r \<Rightarrow> u8 list"
  assumes put_ok: "good s \<Longrightarrow> \<exists>s'. put s r = Some s' \<and> good s' \<and> log_of s' = log_of s @ bytes r"
begin

fun put_all :: "'s \<Rightarrow> 'r list \<Rightarrow> 's option" where
  "put_all s [] = Some s"
| "put_all s (r # rs) = put s r \<bind> (\<lambda>s. put_all s rs)"

lemma put_all_log:
  "good s \<Longrightarrow> \<exists>s'. put_all s rs = Some s' \<and> good s' \<and> log_of s' = log_of s @ concat (map bytes rs)"
proof (induction rs arbitrary: s)
  case (Cons r rs)
  then obtain s1 where "put s r = Some s1" "good s1" "log_of s1 = log_of s @ bytes r"
    using put_ok by blast
  then show ?case using Cons.IH [of s1] by auto
qed simp

end

definition tracer_wf :: "tracer_t \<Rightarrow> bool" where
  "tracer_wf st \<longleftrightarrow> length (buf_base st) = FILE_BUF_SIZE \<and> sizeof_collection dvd buf_ptr st \<and>
     buf_ptr st < FILE_BUF_SIZE"

text \<open>The bytes recorded so far: those in the file and those still in the buffer.\<close>

definition trace_log :: "tracer_t \<Rightarrow> u8 list" where
  "trace_log st = trace_file st @ take (buf_ptr st) (buf_base st)"

text \<open>The tables, which no event changes.\<close>

definition tracer_frame :: "tracer_t \<Rightarrow> u32 \<times> (nat \<Rightarrow> bool) \<times> (nat \<Rightarrow> bool)" where
  "tracer_frame st = (trace_pc st, vp_address st, sw_address st)"

lemma length_collection_bytes [simp]: "length (collection_bytes c) = 16"
  by (simp add: collection_bytes_def)

lemma dr_memset_eq:
  "ptr + n \<le> length buf \<Longrightarrow>
   dr_memset buf ptr v n = Some (take ptr buf @ replicate n v @ drop (ptr + n) buf)"
proof (induction n arbitrary: buf ptr)
  case (Suc n)
  have "take (Suc ptr) (buf[ptr := v]) = take ptr buf @ [v]"
    using Suc.prems by (simp add: take_Suc_conv_app_nth take_update_swap list_update_append)
  then show ?case using Suc by (simp add: replicate_app_Cons_same)
qed simp

lemma write_collection_eq:
  assumes "buf_ptr st + 16 \<le> length (buf_base st)"
  shows "write_collection st c = Some (st\<lparr>buf_base := take (buf_ptr st) (buf_base st) @
     collection_bytes c @ drop (buf_ptr st + 16) (buf_base st)\<rparr>)"
proof -
  let ?p = "buf_ptr st"
  obtain a b d where m: "buf_base st = a @ b @ d" "length a = ?p" "length b = 16"
    using assms by (rule split_at3)
  show ?thesis using m
    by (simp add: write_collection_def store_bytes_def collection_bytes_def take_drop)
qed

lemma flush_file_eq:
  assumes "length (buf_base st) = FILE_BUF_SIZE"
  shows "flush_file st = Some (st\<lparr>trace_file := trace_log st, buf_base := replicate FILE_BUF_SIZE 0,
     buf_ptr := 0\<rparr>)"
  using assms by (simp add: flush_file_def dr_memset_eq trace_log_def)

lemma next_record_fits:
  assumes "tracer_wf st"
  shows "buf_ptr st + 16 \<le> length (buf_base st)"
    and "\<not> FILE_BUF_SIZE \<le> buf_ptr st + 16 \<Longrightarrow> buf_ptr st + 32 \<le> length (buf_base st)"
    and "16 dvd buf_ptr st"
proof -
  obtain k where "buf_ptr st = 16 * k"
    using assms by (auto simp: tracer_wf_def sizeof_collection_def)
  then show "buf_ptr st + 16 \<le> length (buf_base st)" "16 dvd buf_ptr st"
    "\<not> FILE_BUF_SIZE \<le> buf_ptr st + 16 \<Longrightarrow> buf_ptr st + 32 \<le> length (buf_base st)"
    using assms by (auto simp: tracer_wf_def FILE_BUF_SIZE_def sizeof_collection_def
        MAX_NUM_COLLECTIONS_REFS_def)
qed

lemma write_collection_wf:
  assumes "tracer_wf st"
  shows "\<exists>st'. write_collection st c = Some st' \<and> tracer_wf st' \<and> trace_log st' = trace_log st \<and>
     tracer_frame st' = tracer_frame st"
  using assms next_record_fits [OF assms]
  by (simp add: write_collection_eq tracer_wf_def trace_log_def tracer_frame_def)

lemma add_collection_ok:
  assumes wf: "tracer_wf st"
  shows "\<exists>st'. add_collection st c = Some st' \<and> tracer_wf st' \<and>
     trace_log st' = trace_log st @ collection_bytes c \<and> tracer_frame st' = tracer_frame st"
proof -
  note fit = next_record_fits [OF wf]
  let ?m = "take (buf_ptr st) (buf_base st) @ collection_bytes c @ drop (buf_ptr st + 16) (buf_base st)"
  let ?st = "st\<lparr>buf_base := ?m, buf_ptr := buf_ptr st + 16\<rparr>"
  have len: "length (buf_base ?st) = FILE_BUF_SIZE" using wf fit by (simp add: tracer_wf_def)
  have log: "trace_log ?st = trace_log st @ collection_bytes c"
    using fit by (simp add: trace_log_def)
  have pos: "0 < FILE_BUF_SIZE"
    by (simp add: FILE_BUF_SIZE_def sizeof_collection_def MAX_NUM_COLLECTIONS_REFS_def)
  obtain st2 where st2: "(if FILE_BUF_SIZE \<le> buf_ptr ?st then flush_file ?st else Some ?st) = Some st2"
    "tracer_wf st2" "trace_log st2 = trace_log ?st" "tracer_frame st2 = tracer_frame st"
  proof (cases "FILE_BUF_SIZE \<le> buf_ptr ?st")
    case True
    then show thesis
      using that len flush_file_eq [of ?st] pos
      by (simp add: tracer_wf_def trace_log_def [of "_\<lparr>buf_ptr := 0\<rparr>"] tracer_frame_def)
  next
    case False
    then show thesis
      using that [of ?st] len fit wf by (simp add: tracer_wf_def tracer_frame_def sizeof_collection_def)
  qed
  have "add_collection st c = write_collection st2 zero_collection"
    using st2(1) fit by (simp add: add_collection_def write_collection_eq sizeof_collection_def Let_def split: if_splits)
  then show ?thesis using write_collection_wf [OF st2(2), of zero_collection] st2 log by auto
qed

interpretation tlog: byte_log tracer_wf trace_log add_collection collection_bytes
  by unfold_locales (use add_collection_ok in blast)

subsection \<open>Reachable states\<close>

text \<open>
  A run of the client from the state that \<^verbatim>\<open>dr_client_main\<close> left: modules are loaded, blocks are
  instrumented, and the calls in instrumented blocks are executed, in any order and any number of
  times. \<open>traced st0 code rs st\<close>: from \<open>st0\<close> the client can reach \<open>st\<close>, with the calls \<open>code\<close> in the
  code cache, having recorded \<open>rs\<close>.
\<close>

inductive traced :: "tracer_t \<Rightarrow> clean_call set \<Rightarrow> collection_t list \<Rightarrow> tracer_t \<Rightarrow> bool" for st0 where
  start: "traced st0 {} [] st0"
| load: "traced st0 code rs st \<Longrightarrow> event_module_load appName path base st = Some st' \<Longrightarrow>
    traced st0 code rs st'"
| block: "traced st0 code rs st \<Longrightarrow> event_basic_block st bb = Some out \<Longrightarrow>
    traced st0 (code \<union> (\<Union>(calls, _) \<in> set out. set calls)) rs st"
| rip: "traced st0 code rs st \<Longrightarrow> Add_rip r \<in> code \<Longrightarrow> clean_call_add_rip now r st = Some st' \<Longrightarrow>
    traced st0 code (rs @ [\<lparr>time_stamp = getTimeInMilliseconds now, ctype = TYPE_HW, cpc = r\<rparr>]) st'"
| pc: "traced st0 code rs st \<Longrightarrow> Add_pc r \<in> code \<Longrightarrow>
    unat (regs r) < MAX_SW_PCS \<and> sw_address st (unat (regs r)) \<Longrightarrow>
    clean_call_add_pc now regs r st = Some st' \<Longrightarrow>
    traced st0 code (rs @ [\<lparr>time_stamp = getTimeInMilliseconds now, ctype = TYPE_SW, cpc = ucast (regs r)\<rparr>]) st'"
| pc_untraced: "traced st0 code rs st \<Longrightarrow> Add_pc r \<in> code \<Longrightarrow>
    \<not> (unat (regs r) < MAX_SW_PCS \<and> sw_address st (unat (regs r))) \<Longrightarrow>
    clean_call_add_pc now regs r st = Some st' \<Longrightarrow> traced st0 code rs st'"

definition call_ok :: "tracer_t \<Rightarrow> clean_call \<Rightarrow> bool" where
  "call_ok st c = (case c of
     Add_rip r \<Rightarrow> 0 < r \<and> unat r < MAX_VP_RIPS \<and> vp_address st (unat r) | Add_pc _ \<Rightarrow> True)"

definition record_ok :: "tracer_t \<Rightarrow> collection_t \<Rightarrow> bool" where
  "record_ok st c \<longleftrightarrow>
     ctype c = TYPE_HW \<and> 0 < cpc c \<and> unat (cpc c) < MAX_VP_RIPS \<and> vp_address st (unat (cpc c)) \<or>
     ctype c = TYPE_SW \<and> unat (cpc c) < MAX_SW_PCS \<and> sw_address st (unat (cpc c))"

lemma event_basic_block_calls:
  "event_basic_block st bb = Some out \<Longrightarrow> (calls, i) \<in> set out \<Longrightarrow> c \<in> set calls \<Longrightarrow> call_ok st c"
  by (induction bb arbitrary: out)
    (auto simp: bind_eq_Some_conv instrument_rip_def instrument_pc_def call_ok_def Let_def
      split: if_splits)

lemma call_ok_frame: "tracer_frame st = tracer_frame st' \<Longrightarrow> call_ok st = call_ok st'"
  by (auto simp: call_ok_def tracer_frame_def fun_eq_iff split: clean_call.split)

lemma record_ok_frame: "tracer_frame st = tracer_frame st' \<Longrightarrow> record_ok st = record_ok st'"
  by (auto simp: record_ok_def tracer_frame_def fun_eq_iff)

lemma event_module_load_keeps:
  "event_module_load a p b st = Some st' \<Longrightarrow>
   tracer_frame st' = tracer_frame st \<and> trace_log st' = trace_log st \<and> (tracer_wf st' \<longleftrightarrow> tracer_wf st)"
  by (auto simp: event_module_load_def bind_eq_Some_conv tracer_frame_def trace_log_def tracer_wf_def
      split: if_splits)

lemma unat_ucast_pc:
  "unat (w :: u64) < MAX_SW_PCS \<Longrightarrow> unat (ucast w :: u32) = unat w"
  by (simp add: MAX_SW_PCS_def unsigned_ucast_eq take_bit_nat_eq_self_iff)

lemma add_collection_Some:
  assumes "add_collection st c = Some st'" "tracer_wf st"
  shows "tracer_wf st' \<and> trace_log st' = trace_log st @ collection_bytes c \<and>
    tracer_frame st' = tracer_frame st"
  using add_collection_ok [OF assms(2), of c] assms(1) by simp

lemma traced_inv:
  assumes "traced st0 code rs st" and wf: "tracer_wf st0"
  shows "tracer_wf st \<and> tracer_frame st = tracer_frame st0 \<and>
    trace_log st = trace_log st0 @ concat (map collection_bytes rs) \<and>
    (\<forall>c \<in> code. call_ok st0 c) \<and> (\<forall>c \<in> set rs. record_ok st0 c)"
  using assms(1)
proof (induction rule: traced.induct)
  case start
  show ?case using wf by simp
next
  case (load code rs st a p b st')
  then show ?case using event_module_load_keeps [OF load(2)] by simp
next
  case (block code rs st bb out)
  have "call_ok st0 c" if "(calls, i) \<in> set out" "c \<in> set calls" for calls i c
    using event_basic_block_calls [OF block(2) that] block.IH call_ok_frame [of st st0] by simp
  then show ?case using block.IH by auto
next
  case (rip code rs st r now st')
  then have "call_ok st0 (Add_rip r)" by blast
  then show ?case
    using add_collection_Some [OF rip(3) [unfolded clean_call_add_rip_def]] rip.IH
    by (auto simp: call_ok_def record_ok_def)
next
  case (pc code rs st r regs now st')
  then have "add_collection st \<lparr>time_stamp = getTimeInMilliseconds now, ctype = TYPE_SW,
      cpc = ucast (regs r)\<rparr> = Some st'" by (simp add: clean_call_add_pc_def Let_def)
  moreover have "sw_address st0 = sw_address st" using pc.IH by (simp add: tracer_frame_def)
  ultimately show ?case
    using add_collection_Some pc.IH pc(3) by (auto simp: record_ok_def unat_ucast_pc)
next
  case (pc_untraced code rs st r regs now st')
  then show ?case by (auto simp: clean_call_add_pc_def Let_def)
qed

lemma FILE_BUF_SIZE_pos: "16 \<le> FILE_BUF_SIZE"
  by (simp add: FILE_BUF_SIZE_def sizeof_collection_def MAX_NUM_COLLECTIONS_REFS_def)

lemma dr_client_main_wf:
  assumes "dr_client_main argc table heap st = Some st0" "2 \<le> argc" "length heap = FILE_BUF_SIZE"
  shows "tracer_wf st0 \<and> trace_log st0 = []"
proof -
  obtain st1 where p: "parse_trace_addresses table st = Some st1"
    and w: "write_collection (st1\<lparr>buf_base := heap, buf_ptr := 0, trace_file := []\<rparr>) zero_collection =
      Some st0"
    using assms by (auto simp: dr_client_main_def bind_eq_Some_conv)
  let ?st = "st1\<lparr>buf_base := heap, buf_ptr := 0, trace_file := []\<rparr>"
  have "tracer_wf ?st" using assms(3) FILE_BUF_SIZE_pos by (simp add: tracer_wf_def)
  from write_collection_wf [OF this, of zero_collection] show ?thesis
    using w by (auto simp: trace_log_def [of ?st])
qed

lemma event_exit_eq:
  "tracer_wf st \<Longrightarrow>
   event_exit st = Some (st\<lparr>trace_file := trace_log st, buf_base := [], buf_ptr := 0\<rparr>)"
  by (simp add: event_exit_def flush_file_eq tracer_wf_def)

text \<open>C2: whatever modules are loaded, blocks instrumented and calls executed after \<^verbatim>\<open>dr_client_main\<close>, the
exit handler succeeds and leaves in the trace file exactly the records of the executed calls, in
order, each of them for an address of the table: nothing is lost or repeated when the buffer is
flushed.\<close>

theorem trace_file_exact:
  assumes main: "dr_client_main argc table heap static_init = Some st0" "2 \<le> argc"
    and heap: "length heap = FILE_BUF_SIZE"
    and run: "traced st0 code rs st"
  shows "\<exists>st'. event_exit st = Some st' \<and> trace_file st' = concat (map collection_bytes rs) \<and>
    (\<forall>c \<in> set rs. record_ok st0 c)"
  using traced_inv [OF run] dr_client_main_wf [OF main heap] by (auto simp: event_exit_eq)

text \<open>C6: in every reachable state the clean calls and the exit handler run without leaving the
buffer.\<close>

theorem tracer_progress:
  assumes main: "dr_client_main argc table heap static_init = Some st0" "2 \<le> argc"
    and heap: "length heap = FILE_BUF_SIZE"
    and run: "traced st0 code rs st"
  shows "clean_call_add_rip now r st \<noteq> None \<and> clean_call_add_pc now regs q st \<noteq> None \<and>
    event_exit st \<noteq> None"
proof -
  have wf: "tracer_wf st" using traced_inv [OF run] dr_client_main_wf [OF main heap] by simp
  then show ?thesis
    using add_collection_ok [OF wf] event_exit_eq [OF wf]
    by (auto simp: clean_call_add_rip_def clean_call_add_pc_def Let_def)
qed

subsection \<open>Times\<close>

lemma time_of_day_bound:
  fixes h m s ms :: nat
  assumes "h \<le> 23" "m \<le> 59" "s \<le> 59" "ms \<le> 999"
  shows "((h * 60 + m) * 60 + s) * 1000 + ms < 86400000"
proof -
  have "h * 60 + m \<le> 1439" using assms by linarith
  then have "(h * 60 + m) * 60 \<le> 1439 * 60" by (rule mult_le_mono1)
  then have "(h * 60 + m) * 60 + s \<le> 1439 * 60 + 59" using assms(3) by (rule add_mono)
  then have "((h * 60 + m) * 60 + s) * 1000 \<le> (1439 * 60 + 59) * 1000" by (rule mult_le_mono1)
  then have "((h * 60 + m) * 60 + s) * 1000 + ms \<le> (1439 * 60 + 59) * 1000 + 999"
    using assms(4) by (rule add_mono)
  also have "\<dots> < 86400000" by simp
  finally show ?thesis .
qed

text \<open>For a time of day the 32-bit arithmetic of \<^verbatim>\<open>getTimeInMilliseconds\<close> does not wrap: the stamp is the
number of milliseconds since midnight, below 86400000.\<close>

theorem getTimeInMilliseconds_exact:
  assumes "hour t < 24" "minute t < 60" "second t < 60" "milliseconds t < 1000"
  shows "unat (getTimeInMilliseconds t) =
      ((unat (hour t) * 60 + unat (minute t)) * 60 + unat (second t)) * 1000 + unat (milliseconds t) \<and>
    unat (getTimeInMilliseconds t) < 86400000"
proof -
  have b: "unat (hour t) \<le> 23" "unat (minute t) \<le> 59" "unat (second t) \<le> 59"
    "unat (milliseconds t) \<le> 999"
    using assms by (simp_all add: word_less_nat_alt)
  then have "((unat (hour t) * 60 + unat (minute t)) * 60 + unat (second t)) * 1000 +
      unat (milliseconds t) < 86400000" by (rule time_of_day_bound)
  moreover have "unat (getTimeInMilliseconds t) =
      ((unat (hour t) * 60 + unat (minute t)) * 60 + unat (second t)) * 1000 + unat (milliseconds t)"
    using b by (simp add: getTimeInMilliseconds_def unat_word_ariths)
  ultimately show ?thesis by simp
qed

theorem getTimeInMilliseconds_exact_witness:
  "unat (getTimeInMilliseconds \<lparr>hour = 23, minute = 59, second = 59, milliseconds = 999\<rparr>) < 86400000"
  using getTimeInMilliseconds_exact [of "\<lparr>hour = 23, minute = 59, second = 59, milliseconds = 999\<rparr>"]
  by simp

subsection \<open>The application name\<close>

lemma app_name_at_in:
  "k + length appName \<le> length path \<Longrightarrow>
   app_name_at path k appName f = Some (f \<and> take (length appName) (drop k path) = appName)"
proof (induction appName arbitrary: k f)
  case (Cons a appName)
  then have "k < length path" by simp
  then have "drop k path = path ! k # drop (Suc k) path" by (rule Cons_nth_drop_Suc [symmetric])
  then show ?case using Cons by (auto simp: cstr_at_def)
qed simp

lemma app_name_at_out:
  "k \<le> Suc (length path) \<Longrightarrow> Suc (length path) < k + length appName \<Longrightarrow>
   app_name_at path k appName f = None"
proof (induction appName arbitrary: k f)
  case (Cons a appName)
  show ?case
  proof (cases "k \<le> length path")
    case True
    then show ?thesis using Cons by (auto simp: cstr_at_def)
  next
    case False
    then show ?thesis by (simp add: cstr_at_def)
  qed
qed simp

lemma ends_loop_found:
  assumes "app_name_at path k appName True = Some True" "k \<in> set is"
    and "\<forall>i \<in> set is. i < k \<longrightarrow> app_name_at path i appName True \<noteq> None" "sorted is"
  shows "ends_loop appName path is = Some True"
  using assms by (induction "is") (force simp: order_less_le)+

text \<open>\<^verbatim>\<open>endsWithApplicationName\<close> holds of every path that contains the application name anywhere, also in
the middle: a module whose path merely contains the name of the application redefines
\<^verbatim>\<open>base_address\<close>.\<close>

theorem endsWithApplicationName_contains:
  assumes "appName \<noteq> []"
  shows "endsWithApplicationName appName (pre @ appName @ post) = Some True"
proof -
  let ?path = "pre @ appName @ post"
  have "app_name_at ?path (length pre) appName True = Some True"
    by (subst app_name_at_in) simp_all
  moreover have "app_name_at ?path i appName True \<noteq> None" if "i < length pre" for i
    using that by (subst app_name_at_in) simp_all
  ultimately show ?thesis using assms unfolding endsWithApplicationName_def
    by (intro ends_loop_found [of _ "length pre"]) auto
qed

theorem endsWithApplicationName_contains_witness:
  "endsWithApplicationName ''hifive-vp'' ''/opt/hifive-vp/lib/libsystemc.so'' = Some True"
  using endsWithApplicationName_contains [of "''hifive-vp''" "''/opt/''" "''/lib/libsystemc.so''"] by simp

text \<open>On a path that does not contain the name, the loop reads behind the terminator of the path, since
the inner loop goes on after a mismatch.\<close>

theorem endsWithApplicationName_overread:
  assumes "2 < length appName" "path \<noteq> []"
    and no: "\<forall>k. k + length appName \<le> length path \<longrightarrow> take (length appName) (drop k path) \<noteq> appName"
    and nz: "last appName \<noteq> CHR 0x00"
  shows "endsWithApplicationName appName path = None"
proof -
  have loop: "ends_loop appName path is = None"
    if "length path - 1 \<in> set is" "\<forall>i \<in> set is. app_name_at path i appName True \<noteq> Some True" for "is"
    using that
  proof (induction "is")
    case (Cons i "is")
    have "app_name_at path (length path - 1) appName True = None"
      using assms(1,2) by (intro app_name_at_out) (auto simp: Suc_le_eq)
    then show ?case using Cons by (cases "app_name_at path i appName True") auto
  qed simp
  have "app_name_at path i appName True \<noteq> Some True" if "i < length path" for i
  proof (cases "i + length appName \<le> length path")
    case True
    then show ?thesis using no by (auto simp: app_name_at_in)
  next
    case out: False
    show ?thesis
    proof (cases "i + length appName = Suc (length path)")
      case True
      obtain xs x where app: "appName = xs @ [x]" using assms(1) by (cases appName rule: rev_cases) auto
      have split: "app_name_at path k (ys @ [y]) f = do { g \<leftarrow> app_name_at path k ys f;
          c \<leftarrow> cstr_at path (k + length ys); Some (if c \<noteq> y then False else g) }" for k ys y f
        by (induction ys arbitrary: k f) simp_all
      show ?thesis using True nz app
        by (auto simp: split cstr_at_def bind_eq_Some_conv split: if_splits)
    next
      case False
      then show ?thesis using out that app_name_at_out [of i path appName True] by simp
    qed
  qed
  then show ?thesis unfolding endsWithApplicationName_def using assms(2) by (intro loop) auto
qed

theorem endsWithApplicationName_overread_witness:
  "endsWithApplicationName ''vp-bin'' ''libc'' = None"
  by (rule endsWithApplicationName_overread) simp_all

end
