(* ===== verification/AddressTable.thy ===== *)
theory AddressTable
  imports Tracer
begin

text \<open>
  The address table, the file through which the Python scripts tell the tracer what to trace.
  \<^verbatim>\<open>src/fld/addressTranslation.py\<close> writes it: one line \<^verbatim>\<open>0:<address>\<close> for the instruction that stores the
  simulated program counter, a line \<^verbatim>\<open>1:<address>\<close> for every start and end of a hardware method and
  \<^verbatim>\<open>2:<address>\<close> for the software methods. The DWARF reader (\<^verbatim>\<open>pyelftools\<close>) is outside the repository, so
  its result, the list of (file, line, address), is an argument. Python's \<^verbatim>\<open>None\<close> is \<open>None\<close>.
\<close>

subsection \<open>Writing the table\<close>

text \<open>A node of the code structure (\<^verbatim>\<open>codeStructure.Content\<close>) with the lines that \<^verbatim>\<open>parseCodeContent\<close> adds.\<close>

datatype content = Content (Type: string) (Name: string) (SubContent: "content list")
  (StartLine: nat) (EndLines: "nat list")

type_synonym dwarf_info = "(string \<times> nat \<times> nat) list"

text \<open>An entry of \<^verbatim>\<open>METHODS\<close>: type, file, name, start address and end addresses.\<close>

type_synonym method_entry = "nat \<times> string \<times> string \<times> nat \<times> nat option list"

fun getDWARFAddress :: "dwarf_info \<Rightarrow> string \<Rightarrow> nat \<Rightarrow> nat option" where
  "getDWARFAddress [] fileName line = None"
| "getDWARFAddress ((f, l, address) # info) fileName line =
     (if f = fileName \<and> l = line then Some address else getDWARFAddress info fileName line)"

definition newline :: string where "newline = [CHR 0x0A]"

text \<open>Python's \<^verbatim>\<open>str\<close> of an address that may be \<^verbatim>\<open>None\<close>.\<close>

definition str_address :: "nat option \<Rightarrow> string" where
  "str_address a = (case a of None \<Rightarrow> ''None'' | Some n \<Rightarrow> str_nat n)"

definition address_line :: "nat \<Rightarrow> nat option \<Rightarrow> string" where
  "address_line kind a = digit kind # '':'' @ str_address a @ newline"

definition end_addresses :: "dwarf_info \<Rightarrow> string \<Rightarrow> nat list \<Rightarrow> nat option list" where
  "end_addresses info fileName lines =
     (let ends = map (getDWARFAddress info fileName) lines in if ends = [] then [Some 0] else ends)"

definition export_method ::
  "nat \<Rightarrow> dwarf_info \<Rightarrow> string \<Rightarrow> content \<Rightarrow> string \<times> method_entry list" where
  "export_method kind info fileName inner =
     (if Type inner = ''Method'' then
        (let ends = end_addresses info fileName (EndLines inner) in
         case getDWARFAddress info fileName (StartLine inner) of
           None \<Rightarrow> ([], [])
         | Some start \<Rightarrow>
             (address_line kind (Some start) @ concat (map (address_line kind) ends),
              [(kind - 1, fileName, Name inner, start, ends)]))
      else ([], []))"

text \<open>\<^verbatim>\<open>exportHWAddresses\<close> and \<^verbatim>\<open>exportSWAddresses\<close> differ in the DWARF list, the first character of a line
(\<open>kind\<close>) and the type in \<^verbatim>\<open>METHODS\<close>, which is one less.\<close>

fun exportAddresses ::
  "nat \<Rightarrow> dwarf_info \<Rightarrow> string \<Rightarrow> content list \<Rightarrow> string \<times> method_entry list" where
  "exportAddresses kind info fileName [] = ([], [])"
| "exportAddresses kind info fileName (Content ty nm sub sl els # rest) =
     (let (l1, m1) = export_method kind info fileName (Content ty nm sub sl els);
          (l2, m2) = exportAddresses kind info fileName sub;
          (l3, m3) = exportAddresses kind info fileName rest
      in (l1 @ l2 @ l3, m1 @ m2 @ m3))"

definition exportHWAddresses where "exportHWAddresses = exportAddresses 1"
definition exportSWAddresses where "exportSWAddresses = exportAddresses 2"

text \<open>The files of the libraries, each a name with its content.\<close>

fun export_libraries ::
  "(string \<Rightarrow> content list \<Rightarrow> string \<times> method_entry list) \<Rightarrow> (string \<times> content list) list \<Rightarrow>
   string \<times> method_entry list" where
  "export_libraries export [] = ([], [])"
| "export_libraries export ((fileName, content) # files) =
     (let (l1, m1) = export fileName content; (l2, m2) = export_libraries export files
      in (l1 @ l2, m1 @ m2))"

definition exportAddressTable ::
  "nat \<Rightarrow> dwarf_info \<Rightarrow> dwarf_info \<Rightarrow> (string \<times> content list) list \<Rightarrow> (string \<times> content list) list \<Rightarrow>
   string \<times> method_entry list" where
  "exportAddressTable pc_line hw_info sw_info hw_files sw_files =
     (let (l1, m1) = export_libraries (exportHWAddresses hw_info) hw_files;
          (l2, m2) = export_libraries (exportSWAddresses sw_info) sw_files
      in (address_line 0 (Some pc_line) @ l1 @ l2, m1 @ m2))"

subsection \<open>The table as a list of entries\<close>

type_synonym table_entry = "nat \<times> nat option"

definition table_text :: "table_entry list \<Rightarrow> string" where
  "table_text es = concat (map (\<lambda>(k, a). address_line k a) es)"

lemma table_text_simps [simp]:
  "table_text [] = []" "table_text ((k, a) # es) = address_line k a @ table_text es"
  "table_text (es @ fs) = table_text es @ table_text fs"
  by (simp_all add: table_text_def)

definition method_entries :: "method_entry \<Rightarrow> table_entry list" where
  "method_entries m = (case m of (ty, f, nm, start, ends) \<Rightarrow> map (Pair (Suc ty)) (Some start # ends))"

lemma export_method_text:
  "0 < kind \<Longrightarrow> fst (export_method kind info f c) =
     table_text (concat (map method_entries (snd (export_method kind info f c))))"
  by (auto simp: export_method_def method_entries_def Let_def table_text_def comp_def split: option.split)

lemma exportAddresses_text:
  "0 < kind \<Longrightarrow> fst (exportAddresses kind info f cs) =
     table_text (concat (map method_entries (snd (exportAddresses kind info f cs))))"
  by (induction kind info f cs rule: exportAddresses.induct)
    (auto split: prod.split, metis export_method_text fst_conv snd_conv)

lemma export_libraries_text:
  "(\<And>f cs. fst (ex f cs) = table_text (concat (map method_entries (snd (ex f cs))))) \<Longrightarrow>
   fst (export_libraries ex files) = table_text (concat (map method_entries (snd (export_libraries ex files))))"
  by (induction files) (auto split: prod.split, metis fst_conv snd_conv)

lemma exportAddressTable_text:
  "fst (exportAddressTable pc hi si hf sf) =
     table_text ((0, Some pc) # concat (map method_entries (snd (exportAddressTable pc hi si hf sf))))"
  using export_libraries_text [of "exportHWAddresses hi" hf] export_libraries_text [of "exportSWAddresses si" sf]
  by (auto simp: exportAddressTable_def exportHWAddresses_def exportSWAddresses_def exportAddresses_text
      split: prod.split)

subsection \<open>Reading numbers\<close>

lemma digit_value_digit [simp]: "d < 10 \<Longrightarrow> digit_value (digit d) = int d"
proof -
  assume "d < 10"
  then have "d \<in> {0, 1, 2, 3, 4, 5, 6, 7, 8, 9}" by auto
  then show ?thesis by (auto simp: digit_value_def digit_def)
qed

lemma digit_not_special: "d < 10 \<Longrightarrow> digit d \<noteq> CHR 0x0A \<and> digit d \<noteq> CHR '':''"
proof -
  assume "d < 10"
  then have "d \<in> {0, 1, 2, 3, 4, 5, 6, 7, 8, 9}" by auto
  then show ?thesis by (auto simp: digit_def)
qed

lemma int32_ok [simp]: "0 \<le> x \<Longrightarrow> x < 2 ^ 31 \<Longrightarrow> int32 x = Some x"
  by (simp add: int32_def)

lemma pow10_int32: "j \<le> 9 \<Longrightarrow> (10 :: int) ^ j \<le> 10 ^ 9" 
  by (rule power_increasing) simp_all

lemma convert_loop_str:
  assumes "0 \<le> r" "r + 10 ^ j * int n < 10 ^ 9" "length (str_nat n) + j \<le> 9"
  shows "convert_loop (rev (str_nat n)) r (10 ^ j) = Some (r + 10 ^ j * int n)"
  using assms
proof (induction n arbitrary: r j rule: str_nat.induct)
  case (1 n)
  define q d where "q = n div 10" and "d = n mod 10"
  have "n = 10 * q + d" and d: "d < 10" by (simp_all add: q_def d_def)
  then have n: "int n = 10 * int q + int d" by simp
  have p: "10 ^ j * int n = 10 ^ j * int d + 10 ^ Suc j * int q" by (simp add: n algebra_simps)
  have nonneg: "0 \<le> (10 :: int) ^ j * int d" "0 \<le> (10 :: int) ^ Suc j * int q" by simp_all
  have b: "r + 10 ^ j * int d < 10 ^ 9" "(10 :: int) ^ j * int d < 10 ^ 9"
    using 1(2,3) p nonneg by linarith+
  have lt: "(10 :: int) ^ 9 < 2 ^ 31" by simp
  have len: "Suc j \<le> 9" using 1(4) by (cases "n < 10") (auto simp: str_nat_big)
  have step: "convert_loop (digit d # cs) r (10 ^ j) = convert_loop cs (r + 10 ^ j * int d) (10 ^ Suc j)" for cs
    using b lt nonneg pow10_int32 [OF len] 1(2) d by (simp add: mult.commute)
  show ?case
  proof (cases "n < 10")
    case True
    then show ?thesis using step [of "[]"] by (simp add: d_def)
  next
    case False
    have "convert_loop (rev (str_nat q)) (r + 10 ^ j * int d) (10 ^ Suc j) =
        Some (r + 10 ^ j * int d + 10 ^ Suc j * int q)"
      unfolding q_def
      by (rule 1(1)) (use False 1 p nonneg in \<open>simp_all add: q_def d_def str_nat_big\<close>)
    then show ?thesis
      using False step by (simp add: str_nat_big p q_def [symmetric] d_def [symmetric] add.assoc)
  qed
qed

lemma convertToInteger_str:
  assumes "n < 10 ^ 9"
  shows "convertToInteger (str_nat n @ cs) (length (str_nat n)) = Some (int n)"
proof -
  have "length (str_nat n) \<le> 9" using assms str_nat_length [of n 8] by simp
  moreover have "int n < 10 ^ 9" using assms by simp
  ultimately show ?thesis using convert_loop_str [of 0 0 n] by (simp add: convertToInteger_def)
qed

subsection \<open>Reading the table\<close>

definition plain_char :: "char \<Rightarrow> bool" where
  "plain_char c \<longleftrightarrow> c \<noteq> CHR 0x0A \<and> c \<noteq> CHR '':''"

lemma plain_str_nat: "list_all plain_char (str_nat n)"
  using str_nat_digits digit_not_special by (fastforce simp: list_all_iff plain_char_def)

lemma parse_chars_append:
  "parse_chars (xs @ ys) ps = parse_chars xs ps \<bind> parse_chars ys"
proof (induction xs arbitrary: ps)
  case (Cons c xs)
  then show ?case by (cases "parse_char c ps") simp_all
qed simp

text \<open>Reading the characters of a token.\<close>

lemma parse_token:
  assumes "list_all plain_char cs" "i + length cs \<le> length token"
  shows "parse_chars cs (\<lparr>p_token = token, p_token_index = i, p_token_id = ident\<rparr>, st) =
    Some (\<lparr>p_token = take i token @ cs @ drop (i + length cs) token, p_token_index = i + length cs,
      p_token_id = ident\<rparr>, st)"
  using assms
proof (induction cs arbitrary: i token)
  case (Cons c cs)
  have "take (Suc i) (token[i := c]) = take i token @ [c]"
    using Cons.prems by (simp add: take_Suc_conv_app_nth take_update_swap list_update_append)
  then show ?case using Cons by (simp add: parse_char_def token_store_def plain_char_def)
qed simp

text \<open>What one line does to the tables.\<close>

definition enter :: "table_entry \<Rightarrow> tracer_t \<Rightarrow> tracer_t option" where
  "enter e st = (case e of
     (k, None) \<Rightarrow> None
   | (k, Some a) \<Rightarrow>
       if k = 0 \<and> a < 10 ^ 9 then Some (st\<lparr>trace_pc := word_of_nat a\<rparr>)
       else if k = 1 \<and> a < MAX_VP_RIPS then Some (st\<lparr>vp_address := (vp_address st)(a := True)\<rparr>)
       else if k = 2 \<and> a < MAX_SW_PCS then Some (st\<lparr>sw_address := (sw_address st)(a := True)\<rparr>)
       else None)"

definition between_lines :: "parse_t \<Rightarrow> bool" where
  "between_lines p \<longleftrightarrow> length (p_token p) = 256 \<and> p_token_index p = 0"

lemma parse_kind:
  assumes "between_lines p" "k < 3"
  shows "\<exists>token. length token = 256 \<and> parse_chars [digit k, CHR '':''] (p, st) =
    Some (\<lparr>p_token = token, p_token_index = 0, p_token_id = int k\<rparr>, st)"
proof -
  obtain token i where p: "p = \<lparr>p_token = token, p_token_index = 0, p_token_id = i\<rparr>" "length token = 256"
    using assms(1) by (cases p) (auto simp: between_lines_def)
  have "k \<in> {0, 1, 2}" using assms(2) by auto
  then show ?thesis using p
    by (auto simp: parse_char_def token_store_def digit_def Let_def nth_list_update)
qed

lemma parse_newline:
  assumes "i < length token" "convertToInteger (token[i := CHR 0x00]) i = Some a"
  shows "parse_chars newline (\<lparr>p_token = token, p_token_index = i, p_token_id = int k\<rparr>, st) =
    (let p = \<lparr>p_token = token[i := CHR 0x00, 0 := CHR 0x00], p_token_index = 0, p_token_id = int k\<rparr> in
     if k = 0 then Some (p, st\<lparr>trace_pc := word_of_int a\<rparr>)
     else if k = 1 then map_option (\<lambda>t. (p, st\<lparr>vp_address := t\<rparr>)) (table_store MAX_VP_RIPS (vp_address st) a)
     else if k = 2 then map_option (\<lambda>t. (p, st\<lparr>sw_address := t\<rparr>)) (table_store MAX_SW_PCS (sw_address st) a)
     else Some (p, st))"
  using assms by (auto simp: newline_def parse_char_def token_store_def table_store_def Let_def)

text \<open>A line: the kind, the text of the number, the end of the line.\<close>

lemma parse_line:
  assumes p: "between_lines p" and k: "k < 3" and cs: "list_all plain_char cs" "length cs < 256"
    and a: "\<And>rest. convertToInteger (cs @ rest) (length cs) = Some a"
  shows "\<exists>p'. between_lines p' \<and> parse_chars (digit k # '':'' @ cs @ newline) (p, st) =
     (if k = 0 then Some (p', st\<lparr>trace_pc := word_of_int a\<rparr>)
      else if k = 1 then map_option (\<lambda>t. (p', st\<lparr>vp_address := t\<rparr>)) (table_store MAX_VP_RIPS (vp_address st) a)
      else map_option (\<lambda>t. (p', st\<lparr>sw_address := t\<rparr>)) (table_store MAX_SW_PCS (sw_address st) a))"
proof -
  obtain token where t: "length token = 256" and hd: "parse_chars [digit k, CHR '':''] (p, st) =
      Some (\<lparr>p_token = token, p_token_index = 0, p_token_id = int k\<rparr>, st)"
    using parse_kind [OF p k] by blast
  let ?token = "cs @ drop (length cs) token"
  let ?p = "\<lparr>p_token = ?token[length cs := CHR 0x00, 0 := CHR 0x00], p_token_index = 0, p_token_id = int k\<rparr>"
  have upd: "?token[length cs := CHR 0x00] = cs @ (drop (length cs) token)[0 := CHR 0x00]"
    by (simp add: list_update_append)
  have "parse_chars ([digit k, CHR '':''] @ cs @ newline) (p, st) =
      parse_chars newline (\<lparr>p_token = ?token, p_token_index = length cs, p_token_id = int k\<rparr>, st)"
    unfolding parse_chars_append [of "[digit k, CHR '':'']"] hd
    using parse_token [OF cs(1), of 0 token] cs(2) t by (simp add: parse_chars_append)
  also have "\<dots> = (if k = 0 then Some (?p, st\<lparr>trace_pc := word_of_int a\<rparr>)
      else if k = 1 then map_option (\<lambda>t. (?p, st\<lparr>vp_address := t\<rparr>)) (table_store MAX_VP_RIPS (vp_address st) a)
      else map_option (\<lambda>t. (?p, st\<lparr>sw_address := t\<rparr>)) (table_store MAX_SW_PCS (sw_address st) a))"
    using cs(2) t a k by (subst parse_newline [where a = a]) (auto simp: upd Let_def)
  finally have "parse_chars (digit k # '':'' @ cs @ newline) (p, st) =
     (if k = 0 then Some (?p, st\<lparr>trace_pc := word_of_int a\<rparr>)
      else if k = 1 then map_option (\<lambda>t. (?p, st\<lparr>vp_address := t\<rparr>)) (table_store MAX_VP_RIPS (vp_address st) a)
      else map_option (\<lambda>t. (?p, st\<lparr>sw_address := t\<rparr>)) (table_store MAX_SW_PCS (sw_address st) a))"
    by (simp only: append_Cons append_Nil)
  moreover have "between_lines ?p" using t cs(2) by (simp add: between_lines_def)
  ultimately show ?thesis by blast
qed

lemma enter_line:
  assumes p: "between_lines p" and e: "enter (k, a) st = Some st'"
  obtains p' where "between_lines p'" "parse_chars (address_line k a) (p, st) = Some (p', st')"
proof -
  obtain n where a: "a = Some n" and n: "n < 10 ^ 9" and k: "k < 3"
    using e by (auto simp: enter_def MAX_VP_RIPS_def MAX_SW_PCS_def split: option.splits if_splits)
  have len: "length (str_nat n) < 256" using n str_nat_length [of n 8] by simp
  obtain p' where "between_lines p'"
    "parse_chars (digit k # '':'' @ str_nat n @ newline) (p, st) =
     (if k = 0 then Some (p', st\<lparr>trace_pc := word_of_int (int n)\<rparr>)
      else if k = 1 then map_option (\<lambda>t. (p', st\<lparr>vp_address := t\<rparr>)) (table_store MAX_VP_RIPS (vp_address st) (int n))
      else map_option (\<lambda>t. (p', st\<lparr>sw_address := t\<rparr>)) (table_store MAX_SW_PCS (sw_address st) (int n)))"
    using parse_line [OF p k plain_str_nat len convertToInteger_str [OF n]] by blast
  then show thesis
    using that e a by (auto simp: enter_def address_line_def str_address_def table_store_def split: if_splits)
qed

fun enter_all :: "table_entry list \<Rightarrow> tracer_t \<Rightarrow> tracer_t option" where
  "enter_all [] st = Some st"
| "enter_all (e # es) st = do { st \<leftarrow> enter e st; enter_all es st }"

lemma parse_table:
  "between_lines p \<Longrightarrow> enter_all es st = Some st' \<Longrightarrow>
   \<exists>p'. between_lines p' \<and> parse_chars (table_text es) (p, st) = Some (p', st')"
proof (induction es arbitrary: p st)
  case (Cons e es)
  obtain k a where [simp]: "e = (k, a)" by (cases e)
  obtain st1 where st1: "enter (k, a) st = Some st1" "enter_all es st1 = Some st'"
    using Cons.prems by (auto simp: bind_eq_Some_conv)
  obtain p1 where "between_lines p1" "parse_chars (address_line k a) (p, st) = Some (p1, st1)"
    by (rule enter_line [OF Cons.prems(1) st1(1)])
  then show ?case using Cons.IH st1(2) by (simp add: parse_chars_append)
qed simp

subsection \<open>The tracer reads what the scripts write\<close>

text \<open>The addresses of a method list, by type, and the condition that the table can hold them.\<close>

definition method_addresses :: "nat \<Rightarrow> method_entry list \<Rightarrow> nat set" where
  "method_addresses ty ms = {a. \<exists>f nm start ends. (ty, f, nm, start, ends) \<in> set ms \<and>
     (a = start \<or> Some a \<in> set ends)}"

definition method_fits :: "method_entry \<Rightarrow> bool" where
  "method_fits m = (case m of (ty, f, nm, start, ends) \<Rightarrow> ty \<le> 1 \<and> None \<notin> set ends \<and>
     (\<forall>a. a = start \<or> Some a \<in> set ends \<longrightarrow> a < (if ty = 0 then MAX_VP_RIPS else MAX_SW_PCS)))"

lemma enter_all_append: "enter_all (es @ fs) st = enter_all es st \<bind> enter_all fs"
proof (induction es arbitrary: st)
  case (Cons e es)
  then show ?case by (cases "enter e st") simp_all
qed simp

lemma enter_all_kind:
  assumes "k = 1 \<or> k = 2" "\<forall>a \<in> set as. \<exists>n. a = Some n \<and> n < (if k = 1 then MAX_VP_RIPS else MAX_SW_PCS)"
  shows "enter_all (map (Pair k) as) st = Some (if k = 1
    then st\<lparr>vp_address := (\<lambda>n. vp_address st n \<or> Some n \<in> set as)\<rparr>
    else st\<lparr>sw_address := (\<lambda>n. sw_address st n \<or> Some n \<in> set as)\<rparr>)"
  using assms
proof (induction as arbitrary: st)
  case (Cons a as)
  then obtain n where "a = Some n" "n < (if k = 1 then MAX_VP_RIPS else MAX_SW_PCS)" by auto
  then show ?case using Cons
    by (auto simp: enter_def fun_eq_iff intro!: tracer_t.equality)
qed (auto intro!: tracer_t.equality)

lemma enter_all_methods:
  "list_all method_fits ms \<Longrightarrow> enter_all (concat (map method_entries ms)) st = Some (st\<lparr>
     vp_address := (\<lambda>n. vp_address st n \<or> n \<in> method_addresses 0 ms),
     sw_address := (\<lambda>n. sw_address st n \<or> n \<in> method_addresses 1 ms)\<rparr>)"
proof (induction ms arbitrary: st)
  case Nil
  show ?case by (auto simp: method_addresses_def intro!: tracer_t.equality)
next
  case (Cons m ms)
  obtain ty f nm start ends where m: "m = (ty, f, nm, start, ends)" by (cases m)
  have ty: "ty = 0 \<or> ty = 1" using Cons.prems m by (auto simp: method_fits_def)
  have fit: "None \<notin> set ends" "\<And>a. a = start \<or> Some a \<in> set ends \<Longrightarrow>
      a < (if ty = 0 then MAX_VP_RIPS else MAX_SW_PCS)"
    using Cons.prems m by (auto simp: method_fits_def)
  have "\<exists>n. a = Some n \<and> n < (if Suc ty = 1 then MAX_VP_RIPS else MAX_SW_PCS)"
    if "a \<in> set (Some start # ends)" for a
    by (cases a; use that fit in auto)
  then have "\<forall>a \<in> set (Some start # ends). \<exists>n. a = Some n \<and>
      n < (if Suc ty = 1 then MAX_VP_RIPS else MAX_SW_PCS)" by blast
  from enter_all_kind [OF _ this, of st] ty
  have "enter_all (method_entries m) st = Some (if ty = 0
      then st\<lparr>vp_address := (\<lambda>n. vp_address st n \<or> Some n \<in> set (Some start # ends))\<rparr>
      else st\<lparr>sw_address := (\<lambda>n. sw_address st n \<or> Some n \<in> set (Some start # ends))\<rparr>)"
    by (auto simp: method_entries_def m)
  moreover have "method_addresses t (m # ms) =
      (if t = ty then {n. Some n \<in> set (Some start # ends)} else {}) \<union> method_addresses t ms" for t
    using m by (auto simp: method_addresses_def)
  ultimately show ?case
    using Cons ty by (auto simp: enter_all_append fun_eq_iff intro!: tracer_t.equality)
qed

lemma parse_init_between: "between_lines parse_init"
  by (simp add: between_lines_def parse_init_def)

lemma parse_exported_table:
  assumes export: "exportAddressTable pc hw_info sw_info hw_files sw_files = (table, methods)"
    and pc: "pc < 10 ^ 9" and fits: "list_all method_fits methods"
    and len: "length table \<le> MAX_ADDRESS_LINES"
  shows "parse_trace_addresses (Some table) st = Some (st\<lparr>trace_pc := word_of_nat pc,
     vp_address := (\<lambda>n. vp_address st n \<or> n \<in> method_addresses 0 methods),
     sw_address := (\<lambda>n. sw_address st n \<or> n \<in> method_addresses 1 methods)\<rparr>)"
proof -
  have table: "table = table_text ((0, Some pc) # concat (map method_entries methods))"
    using exportAddressTable_text [of pc hw_info sw_info hw_files sw_files] export by simp
  have "enter_all ((0, Some pc) # concat (map method_entries methods)) st = Some (st\<lparr>trace_pc := word_of_nat pc,
     vp_address := (\<lambda>n. vp_address st n \<or> n \<in> method_addresses 0 methods),
     sw_address := (\<lambda>n. sw_address st n \<or> n \<in> method_addresses 1 methods)\<rparr>)"
    using pc enter_all_methods [OF fits, of "st\<lparr>trace_pc := word_of_nat pc\<rparr>"] by (simp add: enter_def)
  from parse_table [OF parse_init_between this] show ?thesis
    using len by (auto simp: parse_trace_addresses_def table simp del: table_text_simps)
qed

text \<open>C5: the tracer reads exactly what the scripts wrote: if every end address was resolved, all addresses
are within the bounds of the tables and the file fits into the read buffer, then parsing the exported
table succeeds, \<^verbatim>\<open>trace_pc\<close> is the address of the program-counter line, \<^verbatim>\<open>vp_address\<close> marks the addresses
of the hardware methods and \<^verbatim>\<open>sw_address\<close> those of the software methods.\<close>

theorem address_table_roundtrip:
  assumes export: "exportAddressTable pc hw_info sw_info hw_files sw_files = (table, methods)"
    and pc: "pc < 10 ^ 9" and fits: "list_all method_fits methods"
    and len: "length table \<le> MAX_ADDRESS_LINES"
  shows "parse_trace_addresses (Some table) static_init = Some (static_init\<lparr>trace_pc := word_of_nat pc,
     vp_address := (\<lambda>n. n \<in> method_addresses 0 methods),
     sw_address := (\<lambda>n. n \<in> method_addresses 1 methods)\<rparr>)"
  using parse_exported_table [OF assms, of static_init] by (simp add: static_init_def)

text \<open>An end line without an address makes the scripts write \<^verbatim>\<open>1:None\<close>, which the tracer converts to the
number -1111 and uses as an index: it writes outside the table, wherever the line stands.\<close>

theorem unresolved_address_aborts:
  assumes "enter_all es static_init = Some st" "k = 1 \<or> k = 2"
    and "length (table_text (es @ [(k, None)])) \<le> MAX_ADDRESS_LINES"
  shows "parse_trace_addresses (Some (table_text (es @ (k, None) # rest))) static_init = None"
proof -
  obtain p where p: "between_lines p" "parse_chars (table_text es) (parse_init, static_init) = Some (p, st)"
    using parse_table [OF parse_init_between assms(1)] by blast
  have conv: "convertToInteger (''None'' @ cs) (length ''None'') = Some (- 1111)" for cs
    by (simp add: convertToInteger_def digit_value_def int32_def)
  have k3: "k < 3" using assms(2) by auto
  have plain: "list_all plain_char ''None''" by (simp add: plain_char_def)
  obtain p' where p': "between_lines p'" "parse_chars (digit k # '':'' @ ''None'' @ newline) (p, st) =
     (if k = 0 then Some (p', st\<lparr>trace_pc := word_of_int (- 1111)\<rparr>)
      else if k = 1 then map_option (\<lambda>t. (p', st\<lparr>vp_address := t\<rparr>)) (table_store MAX_VP_RIPS (vp_address st) (- 1111))
      else map_option (\<lambda>t. (p', st\<lparr>sw_address := t\<rparr>)) (table_store MAX_SW_PCS (sw_address st) (- 1111)))"
    using parse_line [OF p(1) k3 plain _ conv, of st] by auto
  have "parse_chars (address_line k None) (p, st) = None"
    using p'(2) assms(2) by (auto simp: address_line_def str_address_def table_store_def)
  then have bad: "parse_chars (table_text (es @ [(k, None)])) (parse_init, static_init) = None"
    using p(2) by (simp add: parse_chars_append)
  obtain cs where "take MAX_ADDRESS_LINES (table_text (es @ (k, None) # rest)) =
      table_text (es @ [(k, None)]) @ cs"
    using assms(3) by simp
  then show ?thesis using bad by (simp add: parse_trace_addresses_def parse_chars_append
        del: table_text_simps)
qed

subsection \<open>The properties on a small project\<close>

definition sample_info :: dwarf_info where
  "sample_info = [(''cpu.h'', 3, 100), (''cpu.h'', 7, 120)]"

definition sample_file :: "string \<times> content list" where
  "sample_file = (''cpu.h'', [Content ''Method'' ''step'' [] 3 [7]])"

definition sample_methods :: "method_entry list" where
  "sample_methods = [(0, ''cpu.h'', ''step'', 100, [Some 120])]"

lemma sample_export:
  "exportAddressTable 64 sample_info [] [sample_file] [] =
     (table_text [(0, Some 64), (1, Some 100), (1, Some 120)], sample_methods)"
  by (simp add: exportAddressTable_def exportHWAddresses_def sample_file_def sample_info_def
      export_method_def end_addresses_def sample_methods_def)

lemma str_nat_100: "str_nat 64 = ''64''" "str_nat 100 = ''100''" "str_nat 120 = ''120''"
  by (simp_all add: str_nat_big digit_def)

lemma sample_length: "length (table_text [(0, Some 64), (1, Some 100), (1, Some 120)]) \<le> MAX_ADDRESS_LINES"
  by (simp add: address_line_def str_address_def str_nat_100 newline_def MAX_ADDRESS_LINES_def)

theorem address_table_roundtrip_witness:
  "\<exists>st. parse_trace_addresses (Some (fst (exportAddressTable 64 sample_info [] [sample_file] []))) static_init =
     Some st \<and> vp_address st 100 \<and> vp_address st 120 \<and> \<not> vp_address st 64 \<and> trace_pc st = 64"
  using address_table_roundtrip [OF sample_export] sample_length
  by (auto simp: sample_export sample_methods_def method_fits_def method_addresses_def MAX_VP_RIPS_def
      simp del: table_text_simps)

theorem unresolved_address_aborts_witness:
  "parse_trace_addresses (Some (table_text [(0, Some 64), (1, None)])) static_init = None"
proof -
  have "enter_all [(0, Some 64)] static_init = Some (static_init\<lparr>trace_pc := 64\<rparr>)"
    by (simp add: enter_def)
  from unresolved_address_aborts [OF this, of 1 "[]"] show ?thesis
    by (simp add: address_line_def str_address_def str_nat_100 newline_def MAX_ADDRESS_LINES_def)
qed

text \<open>A run of the client on this table: the block at address 100 is instrumented and executed once.\<close>

definition sample_time :: dr_time_t where
  "sample_time = \<lparr>hour = 0, minute = 0, second = 1, milliseconds = 5\<rparr>"

definition sample_record :: collection_t where
  "sample_record = \<lparr>time_stamp = 1005, ctype = 0, cpc = 100\<rparr>"

lemma sample_start:
  obtains st0 where "dr_client_main 2 (Some (table_text [(0, Some 64), (1, Some 100), (1, Some 120)]))
      (replicate FILE_BUF_SIZE 0) static_init = Some st0" "vp_address st0 100" "base_address st0 = 0"
    "trace_pc st0 = 64" "tracer_wf st0"
proof -
  let ?es = "[(0, Some 64), (1, Some 100), (1, Some 120)] :: table_entry list"
  let ?st = "static_init\<lparr>trace_pc := 64, vp_address := (vp_address static_init)(100 := True, 120 := True)\<rparr>"
  have "enter_all ?es static_init = Some ?st"
    by (simp add: enter_def MAX_VP_RIPS_def static_init_def)
  then have "parse_trace_addresses (Some (table_text ?es)) static_init = Some ?st"
    using parse_table [OF parse_init_between] sample_length
    by (fastforce simp: parse_trace_addresses_def simp del: table_text_simps)
  moreover have "tracer_wf (?st\<lparr>buf_base := replicate FILE_BUF_SIZE 0, buf_ptr := 0, trace_file := []\<rparr>)"
    using FILE_BUF_SIZE_pos by (simp add: tracer_wf_def)
  moreover note write_collection_wf [OF this, of zero_collection]
  ultimately obtain st0 where "dr_client_main 2 (Some (table_text ?es)) (replicate FILE_BUF_SIZE 0)
      static_init = Some st0" "vp_address st0 100" "trace_pc st0 = 64" "tracer_wf st0"
    "base_address st0 = 0"
    using FILE_BUF_SIZE_pos
    by (auto simp: dr_client_main_def tracer_frame_def write_collection_eq static_init_def
        simp del: table_text_simps)
  then show thesis using that by blast
qed

lemma sample_run:
  assumes "vp_address st0 100" "base_address st0 = 0" "trace_pc st0 = 64" "tracer_wf st0"
  shows "\<exists>st. traced st0 {Add_rip 100} [sample_record] st"
proof -
  let ?bb = "[\<lparr>app_pc = 100, writes_memory = False, src0_reg = None\<rparr>]"
  have "event_basic_block st0 ?bb = Some [([Add_rip 100], hd ?bb)]"
    using assms by (simp add: instrument_rip_def instrument_pc_def MAX_VP_RIPS_def Let_def)
  from traced.block [OF traced.start this] have b: "traced st0 {Add_rip 100} [] st0" by simp
  obtain st where "clean_call_add_rip sample_time 100 st0 = Some st"
    using add_collection_ok [OF assms(4)] by (auto simp: clean_call_add_rip_def)
  from traced.rip [OF b _ this] show ?thesis
    by (auto simp: sample_record_def sample_time_def getTimeInMilliseconds_def TYPE_HW_def)
qed

theorem trace_file_exact_witness:
  "\<exists>st0 st st'. traced st0 {Add_rip 100} [sample_record] st \<and> event_exit st = Some st' \<and>
     trace_file st' = collection_bytes sample_record"
proof -
  obtain st0 where main: "dr_client_main 2 (Some (table_text [(0, Some 64), (1, Some 100), (1, Some 120)]))
      (replicate FILE_BUF_SIZE 0) static_init = Some st0" and st0: "vp_address st0 100" "base_address st0 = 0"
    "trace_pc st0 = 64" "tracer_wf st0"
    by (rule sample_start)
  obtain st where "traced st0 {Add_rip 100} [sample_record] st" using sample_run [OF st0] by blast
  then show ?thesis using trace_file_exact [OF main] by fastforce
qed

theorem tracer_progress_witness:
  "\<exists>st0 st. traced st0 {Add_rip 100} [sample_record] st \<and> event_exit st \<noteq> None"
proof -
  obtain st0 where main: "dr_client_main 2 (Some (table_text [(0, Some 64), (1, Some 100), (1, Some 120)]))
      (replicate FILE_BUF_SIZE 0) static_init = Some st0" and st0: "vp_address st0 100" "base_address st0 = 0"
    "trace_pc st0 = 64" "tracer_wf st0"
    by (rule sample_start)
  obtain st where "traced st0 {Add_rip 100} [sample_record] st" using sample_run [OF st0] by blast
  then show ?thesis using tracer_progress [OF main] by fastforce
qed

end
