(* ===== verification/FtrWriter.thy ===== *)
theory FtrWriter
  imports Prelude
begin

text \<open>
  The FTR file writer of \<^verbatim>\<open>src/fld/ftr_writer.py\<close>: CBOR items, the dictionary, the directory of streams and
  generators, transactions and relations. An instance of \<^verbatim>\<open>FTRWriter\<close> is a record; a method is a function
  on it. \<open>None\<close> is a raised exception: \<^verbatim>\<open>struct.error\<close> from \<^verbatim>\<open>struct.pack\<close> for a value outside a byte,
  \<^verbatim>\<open>ValueError\<close> from \<^verbatim>\<open>list.index\<close>, \<^verbatim>\<open>IndexError\<close>. Python's integers are \<open>int\<close>, its strings are lists of
  the bytes of their UTF-8 form. The package \<^verbatim>\<open>cbor2\<close> is outside the repository: what \<^verbatim>\<open>dumps\<close> makes of a
  tagged byte string, and of a tagged transaction block, are arguments.
\<close>

unbundle bit_operations_syntax

subsection \<open>CBOR items\<close>

text \<open>\<^verbatim>\<open>struct.pack('B', x)\<close>.\<close>

definition packB :: "int \<Rightarrow> u8 list option" where
  "packB x = (if 0 \<le> x \<and> x < 256 then Some [word_of_int x] else None)"

definition byte_at :: "nat \<Rightarrow> int \<Rightarrow> u8 list option" where
  "byte_at k value = packB (drop_bit k value AND 0xFF)"

fun append_bytes :: "u8 list option list \<Rightarrow> u8 list option" where
  "append_bytes [] = Some []"
| "append_bytes (b # bs) = do { x \<leftarrow> b; y \<leftarrow> append_bytes bs; Some (x @ y) }"

definition GenerateTypedValue :: "int \<Rightarrow> int \<Rightarrow> u8 list option" where
  "GenerateTypedValue majorType value =
     (let mt = push_bit 5 majorType in
      if value < 24 then packB (mt OR value)
      else if value < 255 then append_bytes [packB (mt OR 24), byte_at 0 value]
      else if value < 65536 then append_bytes [packB (mt OR 25), byte_at 8 value, byte_at 0 value]
      else if value < 2 ^ 32 - 1 then
        append_bytes [packB (mt OR 26), byte_at 24 value, byte_at 16 value, byte_at 8 value, byte_at 0 value]
      else
        append_bytes [packB (mt OR 27), byte_at 56 value, byte_at 48 value, byte_at 40 value,
          byte_at 32 value, byte_at 24 value, byte_at 16 value, byte_at 8 value, byte_at 0 value])"

definition GenerateArraySize :: "int option \<Rightarrow> u8 list option" where
  "GenerateArraySize sz = (case sz of
     Some n \<Rightarrow> GenerateTypedValue 4 n
   | None \<Rightarrow> packB ((push_bit 5 4 OR 31) AND 0xFF))"

definition GenerateTag :: "int \<Rightarrow> u8 list option" where
  "GenerateTag value = GenerateTypedValue 6 value"

definition GenerateTime :: "int \<Rightarrow> u8 list option" where
  "GenerateTime time = GenerateTypedValue 0 time"

definition GenerateSigned :: "int \<Rightarrow> u8 list option" where
  "GenerateSigned value =
     (if value < 0 then GenerateTypedValue 1 (\<bar>value\<bar> - 1) else GenerateTypedValue 0 value)"

definition GenerateBreak :: "u8 list option" where
  "GenerateBreak = packB 0xFF"

type_synonym utf8 = "u8 list"

definition GenerateDictionaryItem :: "int \<Rightarrow> utf8 \<Rightarrow> u8 list option" where
  "GenerateDictionaryItem idx txt =
     append_bytes [GenerateTypedValue 0 idx, GenerateTypedValue 3 (int (length txt)), Some txt]"

subsection \<open>The writer\<close>

record attribute =
  a_type :: int
  a_name :: nat
  a_vtype :: int
  a_value :: int

record transaction =
  t_id :: nat
  t_generator :: nat
  t_start :: int
  t_end :: int
  t_attrs :: "attribute list"

record tx_entry =
  e_stream :: nat
  e_start :: int
  e_end :: int
  e_txs :: "transaction list"

record ftr_writer =
  FTRFileContent :: "u8 list"
  DumpedDictItems :: nat
  Dictionary :: "utf8 list"
  Streams :: "(nat \<times> nat) list"
  Generators :: "(nat \<times> nat) list"
  TXEntries :: "tx_entry list"
  TransactionId :: nat
  Relations :: "(nat \<times> nat \<times> nat \<times> nat \<times> nat) list"

text \<open>Python's \<^verbatim>\<open>list.index\<close>.\<close>

fun list_index :: "'a list \<Rightarrow> 'a \<Rightarrow> nat option" where
  "list_index [] x = None"
| "list_index (y # ys) x = (if y = x then Some 0 else map_option Suc (list_index ys x))"

definition FTRWriter :: "ftr_writer option" where
  "FTRWriter = do {
     c \<leftarrow> append_bytes [GenerateTag 55799, GenerateArraySize None];
     Some \<lparr>FTRFileContent = c, DumpedDictItems = 0, Dictionary = [], Streams = [], Generators = [],
       TXEntries = [], TransactionId = 0, Relations = []\<rparr> }"

definition add_content :: "u8 list \<Rightarrow> ftr_writer \<Rightarrow> ftr_writer" where
  "add_content bs w = w\<lparr>FTRFileContent := FTRFileContent w @ bs\<rparr>"

definition GenerateInfoChunk ::
  "(int \<Rightarrow> u8 list \<Rightarrow> u8 list) \<Rightarrow> int \<Rightarrow> int \<Rightarrow> ftr_writer \<Rightarrow> ftr_writer option" where
  "GenerateInfoChunk dumps now unit w = do {
     infoChunk \<leftarrow> append_bytes [GenerateArraySize (Some 2), GenerateSigned unit, GenerateTag 1,
       GenerateTime now];
     Some (add_content (dumps 6 infoChunk) w) }"

definition AddToDictionary :: "utf8 \<Rightarrow> ftr_writer \<Rightarrow> (nat \<times> ftr_writer) option" where
  "AddToDictionary item w = do {
     let w = w\<lparr>Dictionary := Dictionary w @ [item]\<rparr>;
     i \<leftarrow> list_index (Dictionary w) item;
     Some (i, w) }"

definition GenerateDictionaryChunk ::
  "(int \<Rightarrow> u8 list \<Rightarrow> u8 list) \<Rightarrow> ftr_writer \<Rightarrow> ftr_writer option" where
  "GenerateDictionaryChunk dumps w = do {
     let new = drop (DumpedDictItems w) (Dictionary w);
     dictionary \<leftarrow> append_bytes (GenerateTypedValue 5 (int (length new)) #
       map (\<lambda>(idx, item). GenerateDictionaryItem (int (idx + DumpedDictItems w)) item) (enumerate 0 new));
     Some (add_content (dumps 8 dictionary) (w\<lparr>DumpedDictItems := length (Dictionary w)\<rparr>)) }"

definition AddToStreams :: "utf8 \<Rightarrow> utf8 \<Rightarrow> ftr_writer \<Rightarrow> (nat \<times> ftr_writer) option" where
  "AddToStreams name kind w = do {
     nameIndex \<leftarrow> list_index (Dictionary w) name;
     kindIndex \<leftarrow> list_index (Dictionary w) kind;
     let w = w\<lparr>Streams := Streams w @ [(nameIndex, kindIndex)]\<rparr>;
     i \<leftarrow> list_index (Streams w) (nameIndex, kindIndex);
     Some (i + 1, w) }"

definition AddToGenerators :: "utf8 \<Rightarrow> nat \<Rightarrow> ftr_writer \<Rightarrow> (nat \<times> ftr_writer) option" where
  "AddToGenerators name stream w = do {
     nameIndex \<leftarrow> list_index (Dictionary w) name;
     let w = w\<lparr>Generators := Generators w @ [(nameIndex, stream)]\<rparr>;
     i \<leftarrow> list_index (Generators w) (nameIndex, stream);
     Some (i + 1 + length (Streams w), w) }"

definition GenerateStream :: "nat \<Rightarrow> nat \<Rightarrow> nat \<Rightarrow> u8 list option" where
  "GenerateStream streamIdx nameIdx kindIdx = append_bytes [GenerateTag 16, GenerateArraySize (Some 3),
     GenerateSigned (int streamIdx), GenerateSigned (int nameIdx), GenerateSigned (int kindIdx)]"

definition GenerateGenerator :: "nat \<Rightarrow> nat \<Rightarrow> nat \<Rightarrow> u8 list option" where
  "GenerateGenerator generatorIdx nameIdx streamIdx = append_bytes [GenerateTag 17,
     GenerateArraySize (Some 3), GenerateSigned (int generatorIdx), GenerateSigned (int nameIdx),
     GenerateSigned (int streamIdx)]"

text \<open>The ids of the directory entries. After the first loop \<^verbatim>\<open>lastIdx\<close> is the index of the last stream, and 0 if
there is none.\<close>

definition stream_ids :: "ftr_writer \<Rightarrow> (nat \<times> nat \<times> nat) list" where
  "stream_ids w = map (\<lambda>(i, n, k). (i + 1, n, k)) (enumerate 0 (Streams w))"

definition generator_ids :: "ftr_writer \<Rightarrow> (nat \<times> nat \<times> nat) list" where
  "generator_ids w =
     (let lastIdx = length (Streams w) - 1
      in map (\<lambda>(idx, n, s). (lastIdx + idx + 2, n, s)) (enumerate 0 (Generators w)))"

definition GenerateDirectoryChunk ::
  "(int \<Rightarrow> u8 list \<Rightarrow> u8 list) \<Rightarrow> ftr_writer \<Rightarrow> ftr_writer option" where
  "GenerateDirectoryChunk dumps w = do {
     directory \<leftarrow> append_bytes ([GenerateArraySize None] @
       map (\<lambda>(i, n, k). GenerateStream i n k) (stream_ids w) @
       map (\<lambda>(i, n, s). GenerateGenerator i n s) (generator_ids w) @ [GenerateBreak]);
     Some (add_content (dumps 10 directory) w) }"

definition AddTXStream :: "nat \<Rightarrow> int \<Rightarrow> int \<Rightarrow> ftr_writer \<Rightarrow> (nat \<times> ftr_writer) option" where
  "AddTXStream streamIdx startTime endTime w = do {
     let e = \<lparr>e_stream = streamIdx, e_start = startTime, e_end = endTime, e_txs = []\<rparr>;
     let w = w\<lparr>TXEntries := TXEntries w @ [e]\<rparr>;
     i \<leftarrow> list_index (TXEntries w) e;
     Some (i, w) }"

definition AddTransaction ::
  "nat \<Rightarrow> nat \<Rightarrow> int \<Rightarrow> int \<Rightarrow> ftr_writer \<Rightarrow> (nat \<times> ftr_writer) option" where
  "AddTransaction txEntryIdx generatorIdx startTime endTime w =
     (if txEntryIdx < length (TXEntries w) then
        let i = TransactionId w + 1;
            e = TXEntries w ! txEntryIdx;
            t = \<lparr>t_id = i, t_generator = generatorIdx, t_start = startTime, t_end = endTime, t_attrs = []\<rparr>
        in Some (i, w\<lparr>TransactionId := i,
             TXEntries := (TXEntries w)[txEntryIdx := e\<lparr>e_txs := e_txs e @ [t]\<rparr>]\<rparr>)
      else None)"

definition AddAttribute ::
  "nat \<Rightarrow> int \<Rightarrow> utf8 \<Rightarrow> int \<Rightarrow> int \<Rightarrow> ftr_writer \<Rightarrow> ftr_writer option" where
  "AddAttribute transactionId attrType name ty value w = do {
     nameIdx \<leftarrow> list_index (Dictionary w) name;
     let a = \<lparr>a_type = attrType, a_name = nameIdx, a_vtype = ty, a_value = value\<rparr>;
     Some (w\<lparr>TXEntries := map (\<lambda>e. e\<lparr>e_txs := map (\<lambda>t.
       if t_id t = transactionId then t\<lparr>t_attrs := t_attrs t @ [a]\<rparr> else t) (e_txs e)\<rparr>) (TXEntries w)\<rparr>) }"

definition GenerateTransaction :: "transaction \<Rightarrow> u8 list option" where
  "GenerateTransaction t = append_bytes ([GenerateArraySize (Some (int (length (t_attrs t)) + 1)),
     GenerateTag 6, GenerateArraySize (Some 4), GenerateSigned (int (t_id t)),
     GenerateSigned (int (t_generator t)), GenerateSigned (t_start t), GenerateSigned (t_end t)] @
     concat (map (\<lambda>a. [GenerateTag (a_type a), GenerateArraySize (Some 3), GenerateSigned (int (a_name a)),
       GenerateSigned (a_vtype a), GenerateSigned (a_value a)]) (t_attrs t)))"

definition GenerateTXBlock :: "tx_entry \<Rightarrow> u8 list option" where
  "GenerateTXBlock stream = append_bytes ([GenerateArraySize None] @
     map GenerateTransaction (e_txs stream) @ [GenerateBreak])"

fun GenerateTXBlockChunks ::
  "(nat \<Rightarrow> int \<Rightarrow> int \<Rightarrow> u8 list \<Rightarrow> u8 list) \<Rightarrow> tx_entry list \<Rightarrow> u8 list option" where
  "GenerateTXBlockChunks dumps_tx [] = Some []"
| "GenerateTXBlockChunks dumps_tx (stream # streams) = do {
     txblock \<leftarrow> GenerateTXBlock stream;
     rest \<leftarrow> GenerateTXBlockChunks dumps_tx streams;
     Some (dumps_tx (e_stream stream) (e_start stream) (e_end stream) txblock @ rest) }"

definition GenerateTXBlockChunk ::
  "(nat \<Rightarrow> int \<Rightarrow> int \<Rightarrow> u8 list \<Rightarrow> u8 list) \<Rightarrow> ftr_writer \<Rightarrow> ftr_writer option" where
  "GenerateTXBlockChunk dumps_tx w = do {
     bs \<leftarrow> GenerateTXBlockChunks dumps_tx (TXEntries w);
     Some (add_content bs w) }"

definition AddRelation ::
  "utf8 \<Rightarrow> nat \<Rightarrow> nat \<Rightarrow> nat \<Rightarrow> nat \<Rightarrow> ftr_writer \<Rightarrow> ftr_writer option" where
  "AddRelation name txSource txSink streamSource streamSink w = do {
     nameIdx \<leftarrow> list_index (Dictionary w) name;
     Some (w\<lparr>Relations := Relations w @ [(nameIdx, txSource, txSink, streamSource, streamSink)]\<rparr>) }"

definition GenerateRelationChunk ::
  "(int \<Rightarrow> u8 list \<Rightarrow> u8 list) \<Rightarrow> ftr_writer \<Rightarrow> ftr_writer option" where
  "GenerateRelationChunk dumps w = do {
     relations \<leftarrow> append_bytes ([GenerateArraySize None] @
       concat (map (\<lambda>(a, b, c, d, e). [GenerateArraySize (Some 5), GenerateSigned (int a),
         GenerateSigned (int b), GenerateSigned (int c), GenerateSigned (int d), GenerateSigned (int e)])
         (Relations w)) @ [GenerateBreak]);
     Some (add_content (dumps 14 relations) w) }"

text \<open>The bytes that \<^verbatim>\<open>WriteFTRFile\<close> puts into the file.\<close>

definition WriteFTRFile :: "ftr_writer \<Rightarrow> u8 list option" where
  "WriteFTRFile w = do { b \<leftarrow> GenerateBreak; Some (FTRFileContent w @ b) }"

subsection \<open>Reading CBOR items\<close>

text \<open>The head of a CBOR item as RFC 8949 defines it: the major type in the three upper bits of the first byte,
the argument in the lower five or in the following 1, 2, 4 or 8 bytes, most significant first.\<close>

fun be_nat :: "u8 list \<Rightarrow> nat \<Rightarrow> nat" where
  "be_nat [] acc = acc"
| "be_nat (b # bs) acc = be_nat bs (acc * 256 + unat b)"

definition cbor_arg :: "nat \<Rightarrow> u8 list \<Rightarrow> (nat \<times> u8 list) option" where
  "cbor_arg n bs = (if n \<le> length bs then Some (be_nat (take n bs) 0, drop n bs) else None)"

fun cbor_head :: "u8 list \<Rightarrow> (nat \<times> nat \<times> u8 list) option" where
  "cbor_head [] = None"
| "cbor_head (b # bs) =
     (let mt = unat b div 32; ai = unat b mod 32 in
      if ai < 24 then Some (mt, ai, bs)
      else if ai = 24 then map_option (Pair mt) (cbor_arg 1 bs)
      else if ai = 25 then map_option (Pair mt) (cbor_arg 2 bs)
      else if ai = 26 then map_option (Pair mt) (cbor_arg 4 bs)
      else if ai = 27 then map_option (Pair mt) (cbor_arg 8 bs)
      else None)"

definition cbor_int :: "u8 list \<Rightarrow> (int \<times> u8 list) option" where
  "cbor_int bs = do {
     (mt, v, rest) \<leftarrow> cbor_head bs;
     if mt = 0 then Some (int v, rest) else if mt = 1 then Some (- 1 - int v, rest) else None }"

lemma or_eq_add_5: "0 \<le> a \<Longrightarrow> a < 32 \<Longrightarrow> push_bit 5 m OR a = 32 * m + (a :: int)"
proof -
  assume a: "0 \<le> a" "a < 32"
  have "push_bit 5 m AND a = 0"
  proof (rule bit_eqI)
    fix n
    have "take_bit 5 a = a" using a by (simp add: take_bit_int_eq_self_iff)
    then have "bit a n \<Longrightarrow> n < 5" by (metis bit_take_bit_iff)
    then show "bit (push_bit 5 m AND a) n = bit (0 :: int) n" by (auto simp: bit_simps)
  qed
  then show ?thesis by (simp add: disjunctive_add_eq_or [symmetric] push_bit_eq_mult)
qed

lemma packB_ok: "0 \<le> x \<Longrightarrow> x < 256 \<Longrightarrow> packB x = Some [word_of_int x]"
  by (simp add: packB_def)

lemma unat_byte: "0 \<le> x \<Longrightarrow> x < 256 \<Longrightarrow> unat (word_of_int x :: u8) = nat x"
  by (simp add: unsigned_of_int take_bit_eq_mod)

text \<open>The bytes of a number, most significant first.\<close>

definition bytes_be :: "nat \<Rightarrow> nat \<Rightarrow> u8 list" where
  "bytes_be m n = map (\<lambda>k. word_of_nat (n div 256 ^ k mod 256)) (rev [0..<m])"

lemma length_bytes_be [simp]: "length (bytes_be m n) = m"
  by (simp add: bytes_be_def)

lemma bytes_be_Suc: "bytes_be (Suc m) n = word_of_nat (n div 256 ^ m mod 256) # bytes_be m n"
  by (simp add: bytes_be_def)

lemma be_nat_bytes: "be_nat (bytes_be m n) acc = acc * 256 ^ m + n mod 256 ^ m"
proof (induction m arbitrary: acc)
  case (Suc m)
  have "n mod (256 ^ m * 256) = 256 ^ m * (n div 256 ^ m mod 256) + n mod 256 ^ m"
    by (rule mod_mult2_eq)
  moreover have "unat (word_of_nat (n div 256 ^ m mod 256) :: u8) = n div 256 ^ m mod 256"
    by (simp add: unat_of_nat take_bit_eq_mod)
  ultimately show ?case by (simp add: bytes_be_Suc Suc.IH algebra_simps)
qed (simp add: bytes_be_def)

lemma byte_at_nat:
  assumes "p = 256 ^ k" "(2 :: nat) ^ j = 256 ^ k"
  shows "byte_at j (int n) = Some [word_of_nat (n div p mod 256)]"
proof -
  have "drop_bit j (int n) AND 255 = take_bit 8 (drop_bit j (int n))"
    by (simp add: take_bit_eq_mask mask_eq_exp_minus_1)
  also have "\<dots> = int (n div 2 ^ j mod 256)"
    by (simp add: take_bit_eq_mod drop_bit_eq_div zdiv_int zmod_int)
  finally show ?thesis using assms by (simp add: byte_at_def packB_def)
qed

lemma append_bytes_be:
  "append_bytes [byte_at 0 (int n)] = Some (bytes_be 1 n)"
  "append_bytes [byte_at 8 (int n), byte_at 0 (int n)] = Some (bytes_be 2 n)"
  "append_bytes [byte_at 24 (int n), byte_at 16 (int n), byte_at 8 (int n), byte_at 0 (int n)] =
     Some (bytes_be 4 n)"
  "append_bytes [byte_at 56 (int n), byte_at 48 (int n), byte_at 40 (int n), byte_at 32 (int n),
     byte_at 24 (int n), byte_at 16 (int n), byte_at 8 (int n), byte_at 0 (int n)] = Some (bytes_be 8 n)"
  by (simp_all add: byte_at_nat [of _ 0] byte_at_nat [of _ 1] byte_at_nat [of _ 2] byte_at_nat [of _ 3]
      byte_at_nat [of _ 4] byte_at_nat [of _ 5] byte_at_nat [of _ 6] byte_at_nat [of _ 7]
      bytes_be_def upt_rec)

definition head_byte :: "nat \<Rightarrow> nat \<Rightarrow> u8" where
  "head_byte m a = word_of_nat (32 * m + a)"

lemma packB_head:
  assumes "m < 8" "a < 32"
  shows "packB (push_bit 5 (int m) OR int a) = Some [head_byte m a]"
  using assms by (simp add: or_eq_add_5 packB_def head_byte_def)

lemma unat_head_byte:
  assumes "m < 8" "a < 32"
  shows "unat (head_byte m a) = 32 * m + a"
proof -
  have "32 * m + a < 256" using assms by linarith
  then show ?thesis unfolding head_byte_def unat_of_nat by (simp add: take_bit_eq_mod del: of_nat_add)
qed

lemma cbor_head_byte:
  assumes "m < 8" "a < 32"
  shows "cbor_head (head_byte m a # bs) =
    (if a < 24 then Some (m, a, bs)
     else if a = 24 then map_option (Pair m) (cbor_arg 1 bs)
     else if a = 25 then map_option (Pair m) (cbor_arg 2 bs)
     else if a = 26 then map_option (Pair m) (cbor_arg 4 bs)
     else if a = 27 then map_option (Pair m) (cbor_arg 8 bs) else None)"
  using assms by (simp add: Let_def unat_head_byte)

lemma cbor_arg_bytes:
  "n < 256 ^ w \<Longrightarrow> cbor_arg w (bytes_be w n @ rest) = Some (n, rest)"
  by (simp add: cbor_arg_def be_nat_bytes)

lemma typed_value_wide:
  assumes m: "m < 8" and aw: "(a, w) \<in> {(24, 1), (25, 2), (26, 4), (27, 8)}" and n: "n < 256 ^ w"
    and gen: "GenerateTypedValue (int m) (int n) = append_bytes (packB (push_bit 5 (int m) OR int a) # bs)"
    and bs: "append_bytes bs = Some (bytes_be w n)"
  shows "\<exists>bs. GenerateTypedValue (int m) (int n) = Some bs \<and> cbor_head (bs @ rest) = Some (m, n, rest)"
proof -
  have a: "a < 32" using aw by auto
  have "GenerateTypedValue (int m) (int n) = Some (head_byte m a # bytes_be w n)"
    using gen bs packB_head [OF m a] by simp
  moreover have "cbor_head ((head_byte m a # bytes_be w n) @ rest) = Some (m, n, rest)"
    using aw cbor_arg_bytes [OF n, of rest] cbor_head_byte [OF m a, of "bytes_be w n @ rest"] by auto
  ultimately show ?thesis by blast
qed

lemma GenerateTypedValue_head:
  assumes m: "m < 8" and n: "n < 2 ^ 64"
  shows "\<exists>bs. GenerateTypedValue (int m) (int n) = Some bs \<and> cbor_head (bs @ rest) = Some (m, n, rest)"
proof -
  consider "n < 24" | "24 \<le> n" "n < 255" | "255 \<le> n" "n < 65536" | "65536 \<le> n" "n < 2 ^ 32 - 1"
    | "2 ^ 32 - 1 \<le> n" by linarith
  then show ?thesis
  proof cases
    case 1
    then show ?thesis
      using packB_head [OF m, of n] cbor_head_byte [OF m, of n]
      by (simp add: GenerateTypedValue_def Let_def del: cbor_head.simps)
  next
    case 2
    then show ?thesis
      by (intro typed_value_wide [OF m, of 24 1, OF _ _ _ append_bytes_be(1)])
        (simp_all add: GenerateTypedValue_def Let_def)
  next
    case 3
    then show ?thesis
      by (intro typed_value_wide [OF m, of 25 2, OF _ _ _ append_bytes_be(2)])
        (simp_all add: GenerateTypedValue_def Let_def)
  next
    case 4
    then show ?thesis
      by (intro typed_value_wide [OF m, of 26 4, OF _ _ _ append_bytes_be(3)])
        (simp_all add: GenerateTypedValue_def Let_def)
  next
    case 5
    then show ?thesis using n
      by (intro typed_value_wide [OF m, of 27 8, OF _ _ _ append_bytes_be(4)])
        (simp_all add: GenerateTypedValue_def Let_def)
  qed
qed

text \<open>C8: every integer of 64 bits that \<^verbatim>\<open>_GenerateSigned\<close> writes is read back by a CBOR reader, and the reader
stops right behind it.\<close>

theorem GenerateSigned_roundtrip:
  assumes "- (2 ^ 64) \<le> v" "v < 2 ^ 64"
  shows "\<exists>bs. GenerateSigned v = Some bs \<and> cbor_int (bs @ rest) = Some (v, rest)"
proof (cases "v < 0")
  case True
  then have "nat (- v - 1) < 2 ^ 64" using assms by (simp add: nat_less_iff)
  from GenerateTypedValue_head [OF _ this, of 1 rest] True show ?thesis
    by (auto simp: GenerateSigned_def cbor_int_def)
next
  case False
  then have "nat v < 2 ^ 64" using assms by (simp add: nat_less_iff)
  from GenerateTypedValue_head [OF _ this, of 0 rest] False show ?thesis
    by (auto simp: GenerateSigned_def cbor_int_def)
qed

theorem GenerateSigned_roundtrip_witness:
  "\<exists>bs. GenerateSigned (- 300) = Some bs \<and> cbor_int (bs @ [7]) = Some (- 300, [7])"
  by (rule GenerateSigned_roundtrip) simp_all

text \<open>a negative argument is not encoded as a wrong item: \<^verbatim>\<open>_GenerateTypedValue\<close> raises an exception.\<close>

theorem GenerateTypedValue_negative:
  assumes "v < 0" "0 \<le> majorType"
  shows "GenerateTypedValue majorType v = None"
  using assms by (simp add: GenerateTypedValue_def packB_def Let_def or_nonnegative_int_iff)

theorem GenerateTypedValue_negative_witness: "GenerateTypedValue 0 (- 1) = None"
  by (rule GenerateTypedValue_negative) simp_all

subsection \<open>Transactions\<close>

text \<open>A reader for the transactions of a block. A transaction is an array: tag 6 with an array of four integers comes
first, then one item per attribute, a tag with an array of three integers. The reader of a block goes on until
the break byte that closes the indefinite array.\<close>

definition expect_head :: "nat \<Rightarrow> nat \<Rightarrow> u8 list \<Rightarrow> u8 list option" where
  "expect_head mt v bs = do { (m, n, rest) \<leftarrow> cbor_head bs; if m = mt \<and> n = v then Some rest else None }"

definition read_head :: "nat \<Rightarrow> u8 list \<Rightarrow> (nat \<times> u8 list) option" where
  "read_head mt bs = do { (m, n, rest) \<leftarrow> cbor_head bs; if m = mt then Some (n, rest) else None }"

type_synonym attribute_view = "int \<times> int \<times> int \<times> int"

definition read_attribute :: "u8 list \<Rightarrow> (attribute_view \<times> u8 list) option" where
  "read_attribute bs = do {
     (kind, bs) \<leftarrow> read_head 6 bs;
     bs \<leftarrow> expect_head 4 3 bs;
     (name, bs) \<leftarrow> cbor_int bs;
     (ty, bs) \<leftarrow> cbor_int bs;
     (value, bs) \<leftarrow> cbor_int bs;
     Some ((int kind, name, ty, value), bs) }"

fun read_attributes :: "nat \<Rightarrow> u8 list \<Rightarrow> (attribute_view list \<times> u8 list) option" where
  "read_attributes 0 bs = Some ([], bs)"
| "read_attributes (Suc n) bs = do {
     (a, bs) \<leftarrow> read_attribute bs;
     (as, bs) \<leftarrow> read_attributes n bs;
     Some (a # as, bs) }"

type_synonym transaction_view = "int \<times> int \<times> int \<times> int \<times> attribute_view list"

definition read_transaction :: "u8 list \<Rightarrow> (transaction_view \<times> u8 list) option" where
  "read_transaction bs = do {
     (n, bs) \<leftarrow> read_head 4 bs;
     bs \<leftarrow> expect_head 6 6 bs;
     bs \<leftarrow> expect_head 4 4 bs;
     (i, bs) \<leftarrow> cbor_int bs;
     (g, bs) \<leftarrow> cbor_int bs;
     (s, bs) \<leftarrow> cbor_int bs;
     (e, bs) \<leftarrow> cbor_int bs;
     (as, bs) \<leftarrow> read_attributes (n - 1) bs;
     Some ((i, g, s, e, as), bs) }"

partial_function (option) read_block :: "u8 list \<Rightarrow> (transaction_view list \<times> u8 list) option" where
  "read_block bs =
     (case bs of
        [] \<Rightarrow> None
      | b # rest \<Rightarrow>
          if b = 0xFF then Some ([], rest)
          else do {
            (t, bs) \<leftarrow> read_transaction bs;
            (ts, bs) \<leftarrow> read_block bs;
            Some (t # ts, bs) })"

definition int64 :: "int \<Rightarrow> bool" where
  "int64 v \<longleftrightarrow> - (2 ^ 64) \<le> v \<and> v < 2 ^ 64"

lemma GenerateSigned_read:
  "int64 v \<Longrightarrow> \<exists>bs. GenerateSigned v = Some bs \<and> (\<forall>rest. cbor_int (bs @ rest) = Some (v, rest))"
proof (cases "v < 0")
  case True
  moreover assume "int64 v"
  ultimately have "nat (- v - 1) < 2 ^ 64" by (simp add: nat_less_iff int64_def)
  then obtain bs where "GenerateTypedValue 1 (- v - 1) = Some bs"
    using GenerateTypedValue_head [of 1 "nat (- v - 1)"] True by auto
  then show ?thesis
    using GenerateTypedValue_head [of 1 "nat (- v - 1)"] \<open>nat (- v - 1) < 2 ^ 64\<close> True
    by (auto simp: GenerateSigned_def cbor_int_def)
next
  case False
  moreover assume "int64 v"
  ultimately have "nat v < 2 ^ 64" by (simp add: nat_less_iff int64_def)
  then obtain bs where "GenerateTypedValue 0 v = Some bs"
    using GenerateTypedValue_head [of 0 "nat v"] False by auto
  then show ?thesis
    using GenerateTypedValue_head [of 0 "nat v"] \<open>nat v < 2 ^ 64\<close> False
    by (auto simp: GenerateSigned_def cbor_int_def)
qed

lemma head_read:
  assumes "m < 8" "n < 2 ^ 64"
  shows "\<exists>bs. GenerateTypedValue (int m) (int n) = Some bs \<and>
    (\<forall>rest. expect_head m n (bs @ rest) = Some rest)"
proof -
  obtain bs where bs: "GenerateTypedValue (int m) (int n) = Some bs"
    using GenerateTypedValue_head [OF assms] by blast
  then have "expect_head m n (bs @ rest) = Some rest" for rest
    using GenerateTypedValue_head [OF assms, of rest] by (auto simp: expect_head_def)
  then show ?thesis using bs by blast
qed

lemma tag_read:
  assumes "m < 8" "n < 2 ^ 64"
  shows "\<exists>bs. GenerateTypedValue (int m) (int n) = Some bs \<and> (\<forall>rest. read_head m (bs @ rest) = Some (n, rest))"
proof -
  obtain bs where bs: "GenerateTypedValue (int m) (int n) = Some bs"
    using GenerateTypedValue_head [OF assms] by blast
  then have "read_head m (bs @ rest) = Some (n, rest)" for rest
    using GenerateTypedValue_head [OF assms, of rest] by (auto simp: read_head_def)
  then show ?thesis using bs by blast
qed

text \<open>What the format can hold: integers of 64 bits, attribute kinds that are tags, and an array head for the attributes.\<close>

definition attribute_ok :: "attribute \<Rightarrow> bool" where
  "attribute_ok a \<longleftrightarrow> 0 \<le> a_type a \<and> a_type a < 2 ^ 64 \<and> int64 (int (a_name a)) \<and> int64 (a_vtype a) \<and> int64 (a_value a)"

definition transaction_ok :: "transaction \<Rightarrow> bool" where
  "transaction_ok t \<longleftrightarrow> list_all attribute_ok (t_attrs t) \<and> length (t_attrs t) + 1 < 2 ^ 64 \<and>
     int64 (int (t_id t)) \<and> int64 (int (t_generator t)) \<and> int64 (t_start t) \<and> int64 (t_end t)"

definition attribute_view :: "attribute \<Rightarrow> attribute_view" where
  "attribute_view a = (a_type a, int (a_name a), a_vtype a, a_value a)"

definition transaction_view :: "transaction \<Rightarrow> transaction_view" where
  "transaction_view t = (int (t_id t), int (t_generator t), t_start t, t_end t, map attribute_view (t_attrs t))"

definition attribute_items :: "attribute \<Rightarrow> u8 list option list" where
  "attribute_items a = [GenerateTag (a_type a), GenerateArraySize (Some 3), GenerateSigned (int (a_name a)),
     GenerateSigned (a_vtype a), GenerateSigned (a_value a)]"

lemma append_bytes_append:
  "append_bytes (xs @ ys) = do { x \<leftarrow> append_bytes xs; y \<leftarrow> append_bytes ys; Some (x @ y) }"
  by (induction xs) (auto split: bind_split)

lemma attribute_read:
  assumes "attribute_ok a"
  shows "\<exists>bs. append_bytes (attribute_items a) = Some bs \<and>
    (\<forall>rest. read_attribute (bs @ rest) = Some (attribute_view a, rest))"
proof -
  have kind: "nat (a_type a) < 2 ^ 64" "0 \<le> a_type a"
    using assms by (auto simp: attribute_ok_def nat_less_iff)
  obtain h1 h2 where h: "GenerateTag (a_type a) = Some h1" "\<forall>rest. read_head 6 (h1 @ rest) = Some (nat (a_type a), rest)"
    "GenerateArraySize (Some 3) = Some h2" "\<forall>rest. expect_head 4 3 (h2 @ rest) = Some rest"
    using tag_read [of 6, OF _ kind(1)] head_read [of 4 3] kind(2)
    by (auto simp: GenerateArraySize_def GenerateTag_def)
  obtain n ty v where v: "GenerateSigned (int (a_name a)) = Some n" "\<forall>rest. cbor_int (n @ rest) = Some (int (a_name a), rest)"
    "GenerateSigned (a_vtype a) = Some ty" "\<forall>rest. cbor_int (ty @ rest) = Some (a_vtype a, rest)"
    "GenerateSigned (a_value a) = Some v" "\<forall>rest. cbor_int (v @ rest) = Some (a_value a, rest)"
    using assms GenerateSigned_read unfolding attribute_ok_def by metis
  show ?thesis
    using h v kind(2) by (intro exI [of _ "h1 @ h2 @ n @ ty @ v"])
      (simp add: attribute_items_def read_attribute_def attribute_view_def)
qed

lemma attributes_read:
  "list_all attribute_ok as \<Longrightarrow> \<exists>bs. append_bytes (concat (map attribute_items as)) = Some bs \<and>
     (\<forall>rest. read_attributes (length as) (bs @ rest) = Some (map attribute_view as, rest))"
proof (induction as)
  case (Cons a as)
  then obtain bs where "append_bytes (concat (map attribute_items as)) = Some bs"
    "\<forall>rest. read_attributes (length as) (bs @ rest) = Some (map attribute_view as, rest)" by auto
  moreover obtain b where "append_bytes (attribute_items a) = Some b"
    "\<forall>rest. read_attribute (b @ rest) = Some (attribute_view a, rest)"
    using attribute_read [of a] Cons.prems by auto
  ultimately show ?case by (auto simp: append_bytes_append)
qed simp

lemma GenerateTransaction_read:
  assumes "transaction_ok t"
  shows "\<exists>bs. GenerateTransaction t = Some bs \<and>
    (\<forall>rest. read_transaction (bs @ rest) = Some (transaction_view t, rest))"
proof -
  obtain h1 h2 h3 where h: "GenerateArraySize (Some (int (length (t_attrs t)) + 1)) = Some h1"
    "\<forall>rest. read_head 4 (h1 @ rest) = Some (length (t_attrs t) + 1, rest)"
    "GenerateTag 6 = Some h2" "\<forall>rest. expect_head 6 6 (h2 @ rest) = Some rest"
    "GenerateArraySize (Some 4) = Some h3" "\<forall>rest. expect_head 4 4 (h3 @ rest) = Some rest"
    using tag_read [of 4 "length (t_attrs t) + 1"] head_read [of 6 6] head_read [of 4 4] assms
    by (auto simp: GenerateArraySize_def GenerateTag_def transaction_ok_def add.commute)
  obtain i g s e where v: "GenerateSigned (int (t_id t)) = Some i"
    "\<forall>rest. cbor_int (i @ rest) = Some (int (t_id t), rest)"
    "GenerateSigned (int (t_generator t)) = Some g"
    "\<forall>rest. cbor_int (g @ rest) = Some (int (t_generator t), rest)"
    "GenerateSigned (t_start t) = Some s" "\<forall>rest. cbor_int (s @ rest) = Some (t_start t, rest)"
    "GenerateSigned (t_end t) = Some e" "\<forall>rest. cbor_int (e @ rest) = Some (t_end t, rest)"
    using assms GenerateSigned_read unfolding transaction_ok_def by metis
  obtain as where a: "append_bytes (concat (map attribute_items (t_attrs t))) = Some as"
    "\<forall>rest. read_attributes (length (t_attrs t)) (as @ rest) = Some (map attribute_view (t_attrs t), rest)"
    using attributes_read [of "t_attrs t"] assms by (auto simp: transaction_ok_def)
  have "GenerateTransaction t = append_bytes ([Some h1, Some h2, Some h3, Some i, Some g, Some s, Some e] @
      concat (map attribute_items (t_attrs t)))"
    using h v by (simp add: GenerateTransaction_def attribute_items_def [abs_def])
  then have "GenerateTransaction t = Some (h1 @ h2 @ h3 @ i @ g @ s @ e @ as)"
    by (simp add: append_bytes_append a(1))
  moreover have "read_transaction ((h1 @ h2 @ h3 @ i @ g @ s @ e @ as) @ rest) = Some (transaction_view t, rest)" for rest
    using h v a by (simp add: read_transaction_def transaction_view_def)
  ultimately show ?thesis by blast
qed

text \<open>A transaction does not begin with the break byte.\<close>

lemma transaction_not_break: "read_transaction (0xFF # bs) = None"
  by (simp add: read_transaction_def read_head_def Let_def)

lemma read_block_transaction:
  "read_transaction bs = Some (t, rest) \<Longrightarrow> read_block bs = map_option (apfst (Cons t)) (read_block rest)"
  by (subst read_block.simps, cases bs)
    (auto simp: transaction_not_break read_transaction_def read_head_def map_conv_bind_option split: bind_split)

text \<open>C7: the transaction block of a stream is read back: behind the start of the indefinite array a reader finds
exactly the transactions of the stream, in order, with their ids, generators, times and attributes, and then the
break byte. The values must be integers of 64 bits and the kinds of the attributes tags, that is not negative.\<close>

theorem GenerateTXBlock_roundtrip:
  assumes "list_all transaction_ok (e_txs stream)"
  shows "\<exists>bs. GenerateTXBlock stream = Some (0x9F # bs) \<and>
    (\<forall>rest. read_block (bs @ rest) = Some (map transaction_view (e_txs stream), rest))"
proof -
  have "\<exists>bs. append_bytes (map GenerateTransaction ts @ [Some [0xFF]]) = Some bs \<and>
      (\<forall>rest. read_block (bs @ rest) = Some (map transaction_view ts, rest))"
    if "list_all transaction_ok ts" for ts
    using that
  proof (induction ts)
    case Nil
    show ?case by (simp add: read_block.simps)
  next
    case (Cons t ts)
    then obtain bs where "append_bytes (map GenerateTransaction ts @ [Some [0xFF]]) = Some bs"
      "\<forall>rest. read_block (bs @ rest) = Some (map transaction_view ts, rest)" by auto
    then show ?case using GenerateTransaction_read [of t] Cons.prems by (auto simp: read_block_transaction)
  qed
  from this [OF assms] show ?thesis
    by (auto simp: GenerateTXBlock_def GenerateArraySize_def GenerateBreak_def packB_def or_eq_add_5)
qed

definition sample_stream :: tx_entry where
  "sample_stream = \<lparr>e_stream = 1, e_start = 0, e_end = 9,
     e_txs = [\<lparr>t_id = 1, t_generator = 300, t_start = 0, t_end = 70000,
       t_attrs = [\<lparr>a_type = 7, a_name = 2, a_vtype = 5, a_value = - 400\<rparr>]\<rparr>,
      \<lparr>t_id = 2, t_generator = 3, t_start = 4, t_end = 5, t_attrs = []\<rparr>]\<rparr>"

theorem GenerateTXBlock_roundtrip_witness:
  "\<exists>bs. GenerateTXBlock sample_stream = Some (0x9F # bs) \<and>
    read_block (bs @ [1]) = Some ([(1, 300, 0, 70000, [(7, 2, 5, - 400)]), (2, 3, 4, 5, [])], [1])"
proof -
  have "list_all transaction_ok (e_txs sample_stream)"
    by (simp add: sample_stream_def transaction_ok_def attribute_ok_def int64_def)
  from GenerateTXBlock_roundtrip [OF this] show ?thesis
    by (auto simp: sample_stream_def transaction_view_def attribute_view_def)
qed

subsection \<open>Identifiers\<close>

lemma list_index_Some: "list_index xs x = Some i \<Longrightarrow> i < length xs \<and> xs ! i = x"
  by (induction xs arbitrary: i) (auto split: if_splits)

lemma list_index_member: "x \<in> set xs \<Longrightarrow> \<exists>i. list_index xs x = Some i"
  by (induction xs) auto

text \<open>The id that \<^verbatim>\<open>AddToGenerators\<close> returns is the id under which the directory lists a generator with the
name and the stream that were passed, once there is a stream.\<close>

theorem generator_id_in_directory:
  assumes add: "AddToGenerators name stream w = Some (i, w')" and "Streams w \<noteq> []"
  shows "\<exists>n. (i, n, stream) \<in> set (generator_ids w') \<and> n < length (Dictionary w') \<and> Dictionary w' ! n = name"
proof -
  obtain n j where n: "list_index (Dictionary w) name = Some n"
    and j: "list_index (Generators w @ [(n, stream)]) (n, stream) = Some j"
    and w': "w' = w\<lparr>Generators := Generators w @ [(n, stream)]\<rparr>" and i: "i = j + 1 + length (Streams w)"
    using add by (auto simp: AddToGenerators_def bind_eq_Some_conv Let_def)
  have "(j, n, stream) \<in> set (enumerate 0 (Generators w'))"
    using list_index_Some [OF j] w' by (auto simp: in_set_enumerate_eq)
  then have "(length (Streams w) - 1 + j + 2, n, stream) \<in> set (generator_ids w')"
    unfolding generator_ids_def Let_def using w' by force
  moreover have "length (Streams w) - 1 + j + 2 = i" using assms(2) i by (cases "Streams w") auto
  ultimately show ?thesis using list_index_Some [OF n] w' by (intro exI [of _ n]) simp
qed

definition sample_writer :: ftr_writer where
  "sample_writer = \<lparr>FTRFileContent = [], DumpedDictItems = 0, Dictionary = [[102], [109]], Streams = [(0, 0)],
     Generators = [], TXEntries = [], TransactionId = 0, Relations = []\<rparr>"

theorem generator_id_in_directory_witness:
  "\<exists>w'. AddToGenerators [109] 1 sample_writer = Some (2, w') \<and> (\<exists>n. (2, n, 1) \<in> set (generator_ids w'))"
proof -
  obtain w' where w: "AddToGenerators [109] 1 sample_writer = Some (2, w')"
    by (simp add: AddToGenerators_def sample_writer_def)
  from generator_id_in_directory [OF w] show ?thesis using w by (auto simp: sample_writer_def)
qed

end
