(* ===== verification/Lifetime.thy ===== *)
theory Lifetime
  imports AddressTable FtrWriter "HOL-Library.List_Lexorder" "HOL-Library.Char_ord"
begin

text \<open>
  The evaluation of a trace, \<^verbatim>\<open>src/fld/generateFTRFile.py\<close>: the records of the trace file are assigned to the
  methods whose start or end address they carry, which gives every method a list of executions (a start
  and an end time), and the executions become the transactions of an FTR file. The global variables
  \<^verbatim>\<open>CONTENT\<close>, \<^verbatim>\<open>LATEST\<close> and \<^verbatim>\<open>EARLIEST\<close> are a record; \<open>None\<close> is a raised exception. \<^verbatim>\<open>METHODS\<close> is the list that
  \<^verbatim>\<open>addressTranslation.py\<close> pickled.
\<close>

subsection \<open>State\<close>

type_synonym execution = "nat \<times> nat option"

record method_t =
  m_name :: string
  m_start :: nat
  m_ends :: "nat option list"
  m_execs :: "execution list"

record file_t =
  f_type :: nat
  f_name :: string
  f_methods :: "method_t list"

record eval_t =
  LATEST :: nat
  EARLIEST :: nat
  CONTENT :: "file_t list"

fun fold_opt :: "('a \<Rightarrow> 's \<Rightarrow> 's option) \<Rightarrow> 'a list \<Rightarrow> 's \<Rightarrow> 's option" where
  "fold_opt f [] s = Some s"
| "fold_opt f (x # xs) s = do { s \<leftarrow> f x s; fold_opt f xs s }"

fun map_opt :: "('a \<Rightarrow> 'b option) \<Rightarrow> 'a list \<Rightarrow> 'b list option" where
  "map_opt f [] = Some []"
| "map_opt f (x # xs) = do { y \<leftarrow> f x; ys \<leftarrow> map_opt f xs; Some (y # ys) }"

subsection \<open>The methods\<close>

fun common_prefix :: "string \<Rightarrow> string \<Rightarrow> string" where
  "common_prefix (a # as) (b # bs) = (if a = b then a # common_prefix as bs else [])"
| "common_prefix _ _ = []"

definition commonPath :: "string list \<Rightarrow> string" where
  "commonPath files = (if files = [] then []
     else let files = sort files in common_prefix (hd files) (last files))"

text \<open>Python's \<^verbatim>\<open>str.replace\<close> for a pattern that is not empty; \<open>skip\<close> characters belong to the last match. (The
empty pattern with the empty replacement changes nothing.)\<close>

fun replace_from :: "string \<Rightarrow> string \<Rightarrow> nat \<Rightarrow> string \<Rightarrow> string" where
  "replace_from old new skip [] = []"
| "replace_from old new skip (c # cs) =
     (if 0 < skip then replace_from old new (skip - 1) cs
      else if take (length old) (c # cs) = old then new @ replace_from old new (length old - 1) cs
      else c # replace_from old new 0 cs)"

definition py_replace :: "string \<Rightarrow> string \<Rightarrow> string \<Rightarrow> string" where
  "py_replace s old new = (if old = [] then new @ concat (map (\<lambda>c. c # new) s) else replace_from old new 0 s)"

definition add_file :: "method_entry \<Rightarrow> file_t list \<Rightarrow> file_t list" where
  "add_file m content = (case m of (ty, file, nm, start, ends) \<Rightarrow>
     if \<exists>e \<in> set content. f_name e = file then content
     else content @ [\<lparr>f_type = ty, f_name = file, f_methods = []\<rparr>])"

text \<open>The inner loop compares a list with a number, so it never finds the method and always appends it.\<close>

definition add_method :: "method_entry \<Rightarrow> file_t list \<Rightarrow> file_t list" where
  "add_method m content = (case m of (ty, file, nm, start, ends) \<Rightarrow>
     map (\<lambda>e. if f_name e = file
       then e\<lparr>f_methods := f_methods e @ [\<lparr>m_name = nm, m_start = start, m_ends = ends, m_execs = []\<rparr>]\<rparr>
       else e) content)"

definition generateDictionary :: "method_entry list \<Rightarrow> file_t list" where
  "generateDictionary methods =
     (let content = fold add_file methods [];
          paths = map f_name content;
          content = fold add_method methods content;
          toReplace = commonPath paths
      in map (\<lambda>e. e\<lparr>f_name := py_replace (py_replace (f_name e) toReplace []) ''/'' ''.''\<rparr>) content)"

subsection \<open>The records\<close>

definition close_last :: "nat \<Rightarrow> execution list \<Rightarrow> execution list option" where
  "close_last ts execs = (if execs = [] then None else Some (butlast execs @ [(fst (last execs), Some ts)]))"

definition method_event :: "nat \<Rightarrow> nat \<Rightarrow> method_t \<Rightarrow> method_t option" where
  "method_event pc ts m = do {
     let execs = (if m_start m = pc then m_execs m @ [(ts, None)] else m_execs m);
     execs \<leftarrow> fold_opt (\<lambda>e execs. if e = Some pc then close_last ts execs else Some execs) (m_ends m) execs;
     Some (m\<lparr>m_execs := execs\<rparr>) }"

definition file_event :: "nat \<Rightarrow> nat \<Rightarrow> nat \<Rightarrow> file_t \<Rightarrow> file_t option" where
  "file_event pc_type pc ts f =
     (if f_type f = pc_type
      then do { ms \<leftarrow> map_opt (method_event pc ts) (f_methods f); Some (f\<lparr>f_methods := ms\<rparr>) }
      else Some f)"

definition addToContent :: "nat \<Rightarrow> nat \<Rightarrow> nat \<Rightarrow> file_t list \<Rightarrow> file_t list option" where
  "addToContent pc_type pc ts content = map_opt (file_event pc_type pc ts) content"

definition record_event :: "nat \<times> nat \<times> nat \<Rightarrow> eval_t \<Rightarrow> eval_t option" where
  "record_event r st = (case r of (ts, ty, pc) \<Rightarrow> do {
     let st = (if LATEST st < ts then st\<lparr>LATEST := ts\<rparr> else st);
     let st = (if EARLIEST st > ts then st\<lparr>EARLIEST := ts\<rparr> else st);
     content \<leftarrow> addToContent ty pc ts (CONTENT st);
     Some (st\<lparr>CONTENT := content\<rparr>) })"

lemma from_le_pos: "0 < from_le (take n (drop k bs)) \<Longrightarrow> 0 < length bs"
  by (cases bs) auto

text \<open>The loop of \<^verbatim>\<open>readTracerResults\<close> on the bytes that are still to be read; at the end of the file \<^verbatim>\<open>read\<close>
returns fewer bytes, in the end none.\<close>

function readTracerResults :: "u8 list \<Rightarrow> eval_t \<Rightarrow> eval_t option" where
  "readTracerResults results st =
     (let ts = from_le (take 8 results);
          ty = from_le (take 4 (drop 8 results));
          pc = from_le (take 4 (drop 12 results))
      in if ty = 0 \<and> pc = 0 then Some st
         else do { st \<leftarrow> record_event (ts, ty, pc) st; readTracerResults (drop 16 results) st })"
  by pat_completeness auto

termination
  by (relation "measure (\<lambda>(bs, _). length bs)") (auto dest: from_le_pos)

subsection \<open>The FTR file\<close>

definition min_start :: "execution \<Rightarrow> nat \<Rightarrow> nat" where
  "min_start e m = (if fst e < m then fst e else m)"

definition max_end :: "execution \<Rightarrow> nat \<Rightarrow> nat" where
  "max_end e m = (case snd e of Some t \<Rightarrow> if t > m then t else m | None \<Rightarrow> m)"

definition getMinMaxFileTime :: "nat \<Rightarrow> file_t \<Rightarrow> nat \<times> nat" where
  "getMinMaxFileTime latest file =
     (let execs = concat (map m_execs (f_methods file));
          mn = fold min_start execs 0xFFFFFFFF;
          mx = fold max_end execs 0
      in (mn, if mx = 0 then latest else mx))"

definition utf8 :: "string \<Rightarrow> utf8" where
  "utf8 s = map (\<lambda>c. word_of_nat (of_char c)) s"

record gen_t =
  g_writer :: ftr_writer
  g_streams :: "(string \<times> nat) list"
  g_generators :: "(string \<times> nat) list"

definition to_dictionary :: "string \<Rightarrow> gen_t \<Rightarrow> gen_t option" where
  "to_dictionary s g = do { (i, w) \<leftarrow> AddToDictionary (utf8 s) (g_writer g); Some (g\<lparr>g_writer := w\<rparr>) }"

definition gen_stream :: "file_t \<Rightarrow> gen_t \<Rightarrow> gen_t option" where
  "gen_stream file g = do {
     g \<leftarrow> to_dictionary (f_name file) g;
     (i, w) \<leftarrow> AddToStreams (utf8 (f_name file)) (utf8 ''file'') (g_writer g);
     let g = g\<lparr>g_writer := w, g_streams := g_streams g @ [(f_name file, i)]\<rparr>;
     fold_opt (\<lambda>m g. to_dictionary (m_name m) g) (f_methods file) g }"

definition gen_method :: "file_t \<Rightarrow> method_t \<Rightarrow> gen_t \<Rightarrow> gen_t option" where
  "gen_method file m g = do {
     g \<leftarrow> to_dictionary (m_name m) g;
     fold_opt (\<lambda>(name, sid) g.
       if name = f_name file then do {
         (i, w) \<leftarrow> AddToGenerators (utf8 (m_name m)) sid (g_writer g);
         Some (g\<lparr>g_writer := w, g_generators := g_generators g @ [(m_name m, i)]\<rparr>) }
       else Some g) (g_streams g) g }"

definition gen_execution :: "eval_t \<Rightarrow> (string \<times> nat) list \<Rightarrow> nat \<Rightarrow> string \<Rightarrow> execution \<Rightarrow> ftr_writer \<Rightarrow>
    ftr_writer option" where
  "gen_execution st generators tx name ex w =
     (let fixedEnd = (case snd ex of Some t \<Rightarrow> t | None \<Rightarrow> LATEST st) in
      fold_opt (\<lambda>(gname, gid) w.
        if gname = name
        then do { (i, w) \<leftarrow> AddTransaction tx gid (int (fst ex) - int (EARLIEST st)) (int fixedEnd - int (EARLIEST st)) w;
          Some w }
        else Some w) generators w)"

definition gen_file :: "eval_t \<Rightarrow> (string \<times> nat) list \<Rightarrow> (string \<times> nat) list \<Rightarrow> file_t \<Rightarrow> ftr_writer \<Rightarrow>
    ftr_writer option" where
  "gen_file st streams generators file w =
     fold_opt (\<lambda>(name, sid) w.
       if name = f_name file then do {
         let (mn, mx) = getMinMaxFileTime (LATEST st) file;
         (tx, w) \<leftarrow> AddTXStream sid (int mn - int (EARLIEST st)) (int mx - int (EARLIEST st)) w;
         fold_opt (\<lambda>m w. fold_opt (gen_execution st generators tx (m_name m)) (m_execs m) w) (f_methods file) w }
       else Some w) streams w"

text \<open>The bytes of the FTR file; \<open>now\<close> is the time of the info chunk.\<close>

definition generateFTRFile ::
  "(int \<Rightarrow> u8 list \<Rightarrow> u8 list) \<Rightarrow> (nat \<Rightarrow> int \<Rightarrow> int \<Rightarrow> u8 list \<Rightarrow> u8 list) \<Rightarrow> int \<Rightarrow> eval_t \<Rightarrow>
   u8 list option" where
  "generateFTRFile dumps dumps_tx now st = do {
     w \<leftarrow> FTRWriter;
     w \<leftarrow> GenerateInfoChunk dumps now (- 6) w;
     let g = \<lparr>g_writer = w, g_streams = [], g_generators = []\<rparr>;
     g \<leftarrow> fold_opt to_dictionary [''file'', ''call'', ''return''] g;
     g \<leftarrow> fold_opt gen_stream (CONTENT st) g;
     w \<leftarrow> GenerateDictionaryChunk dumps (g_writer g);
     g \<leftarrow> fold_opt (\<lambda>file g. fold_opt (gen_method file) (f_methods file) g) (CONTENT st) (g\<lparr>g_writer := w\<rparr>);
     w \<leftarrow> GenerateDirectoryChunk dumps (g_writer g);
     w \<leftarrow> fold_opt (gen_file st (g_streams g) (g_generators g)) (CONTENT st) w;
     w \<leftarrow> GenerateTXBlockChunk dumps_tx w;
     w \<leftarrow> GenerateRelationChunk dumps w;
     WriteFTRFile w }"

declare readTracerResults.simps [simp del]

subsection \<open>Reading back what the tracer wrote\<close>

definition record_view :: "collection_t \<Rightarrow> nat \<times> nat \<times> nat" where
  "record_view c = (unat (time_stamp c), unat (ctype c), unat (cpc c))"

lemma readTracerResults_Nil: "readTracerResults [] st = Some st"
  by (subst readTracerResults.simps) simp

lemma readTracerResults_record:
  assumes "\<not> (ctype c = 0 \<and> cpc c = 0)"
  shows "readTracerResults (collection_bytes c @ rest) st =
    record_event (record_view c) st \<bind> readTracerResults rest"
  using assms by (subst readTracerResults.simps) (auto simp: collection_bytes_def record_view_def Let_def unat_eq_0)

lemma readTracerResults_records:
  "list_all (\<lambda>c. \<not> (ctype c = 0 \<and> cpc c = 0)) rs \<Longrightarrow>
   readTracerResults (concat (map collection_bytes rs)) st = fold_opt record_event (map record_view rs) st"
proof (induction rs arbitrary: st)
  case Nil
  show ?case by (simp add: readTracerResults_Nil)
next
  case (Cons c rs)
  then show ?case
    by (cases "record_event (record_view c) st") (simp_all add: readTracerResults_record)
qed

lemma record_ok_nonzero: "record_ok st c \<Longrightarrow> \<not> (ctype c = 0 \<and> cpc c = 0)"
  by (auto simp: record_ok_def TYPE_SW_def)

text \<open>C3: from the tracer to the evaluation nothing is lost: for every run of the client, reading the trace file
that its exit handler completes processes exactly the recorded events, in order, and stops at the end
of the file, not at a record.\<close>

theorem trace_evaluation:
  assumes main: "dr_client_main argc table heap static_init = Some st0" "2 \<le> argc"
    and heap: "length heap = FILE_BUF_SIZE"
    and run: "traced st0 code rs st"
  shows "\<exists>st'. event_exit st = Some st' \<and>
    readTracerResults (trace_file st') ev = fold_opt record_event (map record_view rs) ev"
proof -
  have wf: "tracer_wf st" and log: "trace_log st = concat (map collection_bytes rs)"
    and ok: "\<forall>c \<in> set rs. record_ok st0 c"
    using traced_inv [OF run] dr_client_main_wf [OF main heap] by simp_all
  have "list_all (\<lambda>c. \<not> (ctype c = 0 \<and> cpc c = 0)) rs"
    using ok record_ok_nonzero by (fastforce simp: list_all_iff)
  then show ?thesis using event_exit_eq [OF wf] log readTracerResults_records by simp
qed

subsection \<open>Lifetimes\<close>

text \<open>What the records do to one method of a file of type \<open>ty\<close>.\<close>

definition method_step :: "nat \<Rightarrow> nat \<times> nat \<times> nat \<Rightarrow> method_t \<Rightarrow> method_t option" where
  "method_step ty r m = (case r of (ts, t, pc) \<Rightarrow> if t = ty then method_event pc ts m else Some m)"

definition relevant :: "nat \<Rightarrow> method_t \<Rightarrow> nat \<times> nat \<times> nat \<Rightarrow> bool" where
  "relevant ty m r = (case r of (ts, t, pc) \<Rightarrow> t = ty \<and> (pc = m_start m \<or> Some pc \<in> set (m_ends m)))"

lemma close_all:
  "fold_opt (\<lambda>e execs. if e = Some pc then close_last ts execs else Some execs) ends execs =
     (if Some pc \<in> set ends then close_last ts execs else Some execs)"
  by (induction ends arbitrary: execs) (auto simp: close_last_def bind_eq_Some_conv)

lemma method_event_eq:
  "method_event pc ts m =
     (let execs = (if m_start m = pc then m_execs m @ [(ts, None)] else m_execs m)
      in map_option (\<lambda>es. m\<lparr>m_execs := es\<rparr>)
        (if Some pc \<in> set (m_ends m) then close_last ts execs else Some execs))"
  by (auto simp: method_event_def close_all Let_def close_last_def)

lemma method_step_irrelevant: "\<not> relevant ty m r \<Longrightarrow> method_step ty r m = Some m"
  by (auto simp: method_step_def relevant_def method_event_eq Let_def split: prod.splits)

lemma method_step_keeps: "method_step ty r m = Some m' \<Longrightarrow> relevant ty m' = relevant ty m"
  by (auto simp: method_step_def relevant_def method_event_eq Let_def fun_eq_iff
      split: prod.splits if_splits)

lemma method_run_filter:
  "fold_opt (method_step ty) rs m = fold_opt (method_step ty) (filter (relevant ty m) rs) m"
proof (induction rs arbitrary: m)
  case (Cons r rs)
  show ?case
  proof (cases "relevant ty m r")
    case True
    then show ?thesis using Cons method_step_keeps [of ty r m]
      by (cases "method_step ty r m") simp_all
  next
    case False
    then show ?thesis using Cons by (simp add: method_step_irrelevant)
  qed
qed simp

lemma map_opt_list_all2: "map_opt f xs = Some ys \<longleftrightarrow> list_all2 (\<lambda>x y. f x = Some y) xs ys"
  by (induction xs arbitrary: ys) (auto simp: bind_eq_Some_conv list_all2_Cons1)

text \<open>Two stages of a file: the same type and name, each method after the records \<open>rs\<close>.\<close>

definition file_after :: "(nat \<times> nat \<times> nat) list \<Rightarrow> file_t \<Rightarrow> file_t \<Rightarrow> bool" where
  "file_after rs f f' \<longleftrightarrow> f_type f' = f_type f \<and> f_name f' = f_name f \<and>
     list_all2 (\<lambda>m m'. fold_opt (method_step (f_type f)) rs m = Some m') (f_methods f) (f_methods f')"

lemma fold_opt_append: "fold_opt g (xs @ ys) s = fold_opt g xs s \<bind> fold_opt g ys"
proof (induction xs arbitrary: s)
  case (Cons x xs)
  then show ?case by (cases "g x s") simp_all
qed simp

lemma record_event_file_after:
  assumes "record_event r ev = Some ev'"
  shows "list_all2 (file_after [r]) (CONTENT ev) (CONTENT ev')"
proof -
  obtain ts ty pc where r: "r = (ts, ty, pc)" by (cases r)
  have "map_opt (file_event ty pc ts) (CONTENT ev) = Some (CONTENT ev')"
    using assms r by (auto simp: record_event_def addToContent_def Let_def bind_eq_Some_conv split: if_splits)
  then have "list_all2 (\<lambda>f f'. file_event ty pc ts f = Some f') (CONTENT ev) (CONTENT ev')"
    by (simp add: map_opt_list_all2)
  then show ?thesis
  proof (rule list_all2_mono)
    fix f f' assume "file_event ty pc ts f = Some f'"
    then show "file_after [r] f f'"
      by (auto simp: file_event_def file_after_def r method_step_def map_opt_list_all2 bind_eq_Some_conv
          list.rel_refl split: if_splits)
  qed
qed

lemma file_after_trans:
  assumes "file_after rs f f1" "file_after qs f1 f2"
  shows "file_after (rs @ qs) f f2"
proof -
  have "list_all2 (\<lambda>m m'. fold_opt (method_step (f_type f)) (rs @ qs) m = Some m') (f_methods f) (f_methods f2)"
    using assms unfolding file_after_def
    by (auto intro: list_all2_trans [rotated 1] simp: fold_opt_append)
  then show ?thesis using assms by (simp add: file_after_def)
qed

lemma fold_events_file_after:
  "fold_opt record_event rs ev = Some ev' \<Longrightarrow> list_all2 (file_after rs) (CONTENT ev) (CONTENT ev')"
proof (induction rs arbitrary: ev)
  case Nil
  then show ?case by (auto simp: file_after_def intro!: list.rel_refl)
next
  case (Cons r rs)
  then obtain ev1 where ev1: "record_event r ev = Some ev1" "fold_opt record_event rs ev1 = Some ev'"
    by (auto simp: bind_eq_Some_conv)
  have "file_after (r # rs) f f2" if "file_after [r] f f1" "file_after rs f1 f2" for f f1 f2
    using file_after_trans [OF that] by simp
  then show ?case
    using list_all2_trans [of "file_after [r]" "file_after rs" "file_after (r # rs)"]
      record_event_file_after [OF ev1(1)] Cons.IH [OF ev1(2)] by blast
qed

text \<open>A call of the method: entered at \<open>s\<close>, left at \<open>e\<close> through the end address \<open>a\<close>.\<close>

definition call_records :: "nat \<Rightarrow> method_t \<Rightarrow> (nat \<times> nat \<times> nat) list \<Rightarrow> (nat \<times> nat \<times> nat) list" where
  "call_records ty m calls = concat (map (\<lambda>(s, e, a). [(s, ty, m_start m), (e, ty, a)]) calls)"

lemma method_run_calls:
  assumes "Some (m_start m) \<notin> set (m_ends m)" "\<forall>(s, e, a) \<in> set calls. Some a \<in> set (m_ends m)"
  shows "fold_opt (method_step ty) (call_records ty m calls) m =
    Some (m\<lparr>m_execs := m_execs m @ map (\<lambda>(s, e, a). (s, Some e)) calls\<rparr>)"
  using assms
proof (induction calls arbitrary: m)
  case (Cons c calls)
  obtain s e a where c: "c = (s, e, a)" by (cases c)
  have ne: "a \<noteq> m_start m" using Cons.prems c by auto
  let ?m = "m\<lparr>m_execs := m_execs m @ [(s, Some e)]\<rparr>"
  have "fold_opt (method_step ty) [(s, ty, m_start m), (e, ty, a)] m = Some ?m"
    using Cons.prems c ne by (auto simp: method_step_def method_event_eq Let_def close_last_def)
  moreover have "fold_opt (method_step ty) (call_records ty ?m calls) ?m =
      Some (?m\<lparr>m_execs := m_execs ?m @ map (\<lambda>(s, e, a). (s, Some e)) calls\<rparr>)"
    using Cons.prems by (intro Cons.IH) auto
  moreover have "call_records ty ?m calls = call_records ty m calls" by (simp add: call_records_def)
  moreover have "call_records ty m (c # calls) = [(s, ty, m_start m), (e, ty, a)] @ call_records ty m calls"
    by (simp add: call_records_def c)
  ultimately show ?case by (simp only: fold_opt_append) (simp add: c)
qed (simp add: call_records_def)

text \<open>C4: the lifetimes are right for calls that do not nest: if a trace was evaluated without an exception and
the records that concern a method are alternately its start and one of its end addresses, then the
executions of the method in the result are exactly those calls with their start and end times, whatever
records of other methods lie in between.\<close>

theorem lifetimes_exact:
  assumes run: "fold_opt record_event rs ev = Some ev'"
    and f: "i < length (CONTENT ev)" "CONTENT ev ! i = f"
    and m: "j < length (f_methods f)" "f_methods f ! j = m" "m_execs m = []"
    and ends: "Some (m_start m) \<notin> set (m_ends m)" "\<forall>(s, e, a) \<in> set calls. Some a \<in> set (m_ends m)"
    and trace: "filter (relevant (f_type f) m) rs = call_records (f_type f) m calls"
  shows "m_execs (f_methods (CONTENT ev' ! i) ! j) = map (\<lambda>(s, e, a). (s, Some e)) calls"
proof -
  have "file_after rs f (CONTENT ev' ! i)"
    using list_all2_nthD [OF fold_events_file_after [OF run]] f by blast
  then have "fold_opt (method_step (f_type f)) rs m = Some (f_methods (CONTENT ev' ! i) ! j)"
    using m list_all2_nthD unfolding file_after_def by blast
  then have "f_methods (CONTENT ev' ! i) ! j = m\<lparr>m_execs := map (\<lambda>(s, e, a). (s, Some e)) calls\<rparr>"
    using method_run_calls [OF ends, of "f_type f"] m(3) trace method_run_filter [of "f_type f" rs m] by simp
  then show ?thesis by simp
qed

text \<open>Nested calls of the same method (recursion) are not paired: of two calls, the second inside the first,
the outer one stays open and the inner one ends when the outer one returns.\<close>

theorem recursion_lifetimes:
  assumes "Some (m_start m) \<notin> set (m_ends m)" "Some a \<in> set (m_ends m)" "m_execs m = []"
  shows "fold_opt (method_step ty) [(t1, ty, m_start m), (t2, ty, m_start m), (t3, ty, a), (t4, ty, a)] m =
    Some (m\<lparr>m_execs := [(t1, None), (t2, Some t4)]\<rparr>)"
proof -
  have "a \<noteq> m_start m" using assms by auto
  then show ?thesis using assms by (simp add: method_step_def method_event_eq Let_def close_last_def)
qed

lemma map_opt_None: "x \<in> set xs \<Longrightarrow> g x = None \<Longrightarrow> map_opt g xs = None"
  by (induction xs) (auto split: bind_splits)

text \<open>A record with the end address of a method that has not been entered raises an exception
(\<^verbatim>\<open>[-1]\<close> of an empty list): the evaluation of the whole trace fails.\<close>

theorem unmatched_end_raises:
  assumes "f \<in> set (CONTENT ev)" "m \<in> set (f_methods f)" "m_execs m = []"
    and "Some pc \<in> set (m_ends m)" "pc \<noteq> m_start m"
  shows "record_event (ts, f_type f, pc) ev = None"
proof -
  have "method_event pc ts m = None" using assms by (simp add: method_event_eq Let_def close_last_def)
  then have "map_opt (method_event pc ts) (f_methods f) = None" by (rule map_opt_None [OF assms(2)])
  then have "file_event (f_type f) pc ts f = None" by (simp add: file_event_def)
  from map_opt_None [OF assms(1), of "file_event (f_type f) pc ts", OF this] show ?thesis by (simp add: record_event_def addToContent_def Let_def)
qed

text \<open>\<^verbatim>\<open>EARLIEST\<close> and \<^verbatim>\<open>LATEST\<close> enclose the time of every record, so that no transaction starts before time 0.\<close>

theorem time_bounds:
  assumes "fold_opt record_event rs ev = Some ev'"
  shows "EARLIEST ev' \<le> EARLIEST ev \<and> LATEST ev \<le> LATEST ev' \<and>
    (\<forall>(ts, ty, pc) \<in> set rs. EARLIEST ev' \<le> ts \<and> ts \<le> LATEST ev')"
  using assms
proof (induction rs arbitrary: ev)
  case (Cons r rs)
  obtain ts ty pc where r: "r = (ts, ty, pc)" by (cases r)
  obtain ev1 where ev1: "record_event r ev = Some ev1" "fold_opt record_event rs ev1 = Some ev'"
    using Cons.prems by (auto simp: bind_eq_Some_conv)
  have "EARLIEST ev1 \<le> EARLIEST ev \<and> EARLIEST ev1 \<le> ts \<and> LATEST ev \<le> LATEST ev1 \<and> ts \<le> LATEST ev1"
    using ev1(1) r by (auto simp: record_event_def Let_def bind_eq_Some_conv split: if_splits)
  then show ?case using Cons.IH [OF ev1(2)] r by fastforce
qed simp

subsection \<open>Transactions\<close>

definition execution_tx :: "eval_t \<Rightarrow> execution \<Rightarrow> nat \<Rightarrow> nat \<Rightarrow> transaction" where
  "execution_tx st ex i gid = \<lparr>t_id = i, t_generator = gid, t_start = int (fst ex) - int (EARLIEST st),
     t_end = int (case snd ex of Some t \<Rightarrow> t | None \<Rightarrow> LATEST st) - int (EARLIEST st), t_attrs = []\<rparr>"

text \<open>The transactions for the generators \<open>gids\<close>, numbered from \<open>i\<close>.\<close>

fun number_txs :: "(nat \<Rightarrow> nat \<Rightarrow> transaction) \<Rightarrow> nat \<Rightarrow> nat list \<Rightarrow> transaction list" where
  "number_txs mk i [] = []"
| "number_txs mk i (gid # gids) = mk i gid # number_txs mk (Suc i) gids"

text \<open>C38: one execution of a method becomes one transaction for \<^emph>\<open>every\<close> generator that has the method's name, also
for those of other files: methods that share their name show up in each other's rows.\<close>

theorem execution_transactions:
  assumes "tx < length (TXEntries w)"
  shows "\<exists>w'. gen_execution st generators tx name ex w = Some w' \<and>
    (let gids = map snd (filter (\<lambda>g. fst g = name) generators) in
     TransactionId w' = TransactionId w + length gids \<and>
     TXEntries w' = (TXEntries w)[tx := (TXEntries w ! tx)\<lparr>e_txs := e_txs (TXEntries w ! tx) @
       number_txs (execution_tx st ex) (Suc (TransactionId w)) gids\<rparr>])"
  using assms
proof (induction generators arbitrary: w)
  case Nil
  then show ?case by (simp add: gen_execution_def)
next
  case (Cons g generators)
  obtain gname gid where g: "g = (gname, gid)" by (cases g)
  show ?case
  proof (cases "gname = name")
    case True
    let ?e = "TXEntries w ! tx"
    let ?w = "w\<lparr>TransactionId := Suc (TransactionId w), TXEntries := (TXEntries w)[tx := ?e\<lparr>e_txs := e_txs ?e @
      [execution_tx st ex (Suc (TransactionId w)) gid]\<rparr>]\<rparr>"
    have "gen_execution st (g # generators) tx name ex w = gen_execution st generators tx name ex ?w"
      using Cons.prems True g
      by (simp add: gen_execution_def AddTransaction_def execution_tx_def Let_def)
    then show ?thesis using Cons.IH [of ?w] Cons.prems True g by (simp add: Let_def)
  next
    case False
    then have "gen_execution st (g # generators) tx name ex w = gen_execution st generators tx name ex w"
      using g by (simp add: gen_execution_def)
    then show ?thesis using Cons False g by simp
  qed
qed

subsection \<open>The properties on a small trace\<close>

definition sample_method :: method_t where
  "sample_method = \<lparr>m_name = ''step'', m_start = 100, m_ends = [Some 120], m_execs = []\<rparr>"

definition sample_eval :: eval_t where
  "sample_eval = \<lparr>LATEST = 0, EARLIEST = 0xFFFFFFFF,
     CONTENT = [\<lparr>f_type = 0, f_name = ''cpu.h'', f_methods = [sample_method]\<rparr>]\<rparr>"

definition sample_trace :: "(nat \<times> nat \<times> nat) list" where
  "sample_trace = [(10, 0, 100), (12, 1, 100), (15, 0, 120), (20, 0, 100), (30, 0, 120)]"

lemma sample_trace_run: "\<exists>ev'. fold_opt record_event sample_trace sample_eval = Some ev'"
  by (simp add: sample_trace_def sample_eval_def sample_method_def record_event_def addToContent_def
      file_event_def method_event_eq close_last_def)

theorem lifetimes_exact_witness:
  "\<exists>ev'. fold_opt record_event sample_trace sample_eval = Some ev' \<and>
     m_execs (f_methods (CONTENT ev' ! 0) ! 0) = [(10, Some 15), (20, Some 30)]"
proof -
  obtain ev' where run: "fold_opt record_event sample_trace sample_eval = Some ev'"
    using sample_trace_run by blast
  have "m_execs (f_methods (CONTENT ev' ! 0) ! 0) =
      map (\<lambda>(s, e, a :: nat). (s, Some e)) [(10, 15, 120), (20, 30, 120)]"
    by (rule lifetimes_exact [OF run, of 0 "hd (CONTENT sample_eval)" 0 sample_method]) (simp_all add: sample_eval_def sample_method_def sample_trace_def
        relevant_def call_records_def)
  then show ?thesis using run by simp
qed

theorem recursion_lifetimes_witness:
  "fold_opt (method_step 0) [(1, 0, 100), (2, 0, 100), (3, 0, 120), (4, 0, 120)] sample_method =
     Some (sample_method\<lparr>m_execs := [(1, None), (2, Some 4)]\<rparr>)"
  using recursion_lifetimes [of sample_method 120 0 1 2 3 4] by (simp add: sample_method_def)

theorem unmatched_end_raises_witness: "record_event (5, 0, 120) sample_eval = None"
  using unmatched_end_raises [of "hd (CONTENT sample_eval)" sample_eval sample_method 120 5]
  by (simp add: sample_eval_def sample_method_def)

theorem time_bounds_witness:
  "\<exists>ev'. fold_opt record_event sample_trace sample_eval = Some ev' \<and> EARLIEST ev' \<le> 10 \<and> 30 \<le> LATEST ev'"
proof -
  obtain ev' where run: "fold_opt record_event sample_trace sample_eval = Some ev'"
    using sample_trace_run by blast
  then show ?thesis using time_bounds [OF run] by (simp add: sample_trace_def)
qed

theorem execution_transactions_witness:
  "\<exists>w'. gen_execution sample_eval [(''init'', 3), (''init'', 7)] 0 ''init'' (10, Some 15)
     (sample_writer\<lparr>TXEntries := [\<lparr>e_stream = 1, e_start = 0, e_end = 0, e_txs = []\<rparr>]\<rparr>) = Some w' \<and>
     TransactionId w' = 2"
  using execution_transactions [of 0 "sample_writer\<lparr>TXEntries := [\<lparr>e_stream = 1, e_start = 0, e_end = 0,
      e_txs = []\<rparr>]\<rparr>" sample_eval "[(''init'', 3), (''init'', 7)]" "''init''" "(10, Some 15)"]
  by (auto simp: sample_writer_def Let_def)

theorem trace_evaluation_witness:
  "\<exists>st0 st st'. traced st0 {Add_rip 100} [sample_record] st \<and> event_exit st = Some st' \<and>
     readTracerResults (trace_file st') sample_eval = record_event (1005, 0, 100) sample_eval"
proof -
  obtain st0 where main: "dr_client_main 2 (Some (table_text [(0, Some 64), (1, Some 100), (1, Some 120)]))
      (replicate FILE_BUF_SIZE 0) static_init = Some st0" and st0: "vp_address st0 100" "base_address st0 = 0"
    "trace_pc st0 = 64" "tracer_wf st0"
    by (rule sample_start)
  obtain st where run: "traced st0 {Add_rip 100} [sample_record] st" using sample_run [OF st0] by blast
  obtain st' where "event_exit st = Some st'" "readTracerResults (trace_file st') sample_eval =
      fold_opt record_event (map record_view [sample_record]) sample_eval"
    using trace_evaluation [OF main _ _ run] by auto
  moreover have "fold_opt record_event (map record_view [sample_record]) sample_eval =
      record_event (1005, 0, 100) sample_eval"
    by (cases "record_event (1005, 0, 100) sample_eval") (simp_all add: record_view_def sample_record_def)
  ultimately show ?thesis using run by metis
qed

end
