(* ===== verification/DrVector.thy ===== *)
theory DrVector
  imports Prelude
begin

text \<open>
  The growable vector of \<^verbatim>\<open>src/dynamorio/ext/drcontainers/drvector.c\<close>. The array is a list of cells, \<open>None\<close> for
  a cell that was never written; \<open>None\<close> as the array is \<^verbatim>\<open>NULL\<close>. A mutex is the boolean that it is held: a
  second lock by the same thread blocks for ever, which is the result \<open>None\<close>, as is an access outside
  the array, a read of an unwritten cell or a copy that does not fit. The argument \<open>None\<close> in place of a
  vector is the \<^verbatim>\<open>NULL\<close> pointer.
\<close>

subsection \<open>The vector\<close>

record 'a drvector_t =
  v_entries :: u32
  v_capacity :: u32
  v_array :: "'a option list option"
  v_synch :: bool
  v_locked :: bool
  v_free :: bool
  v_freed :: "'a list"

definition INITIAL_CAPACITY_IF_ZERO_REQUESTED :: u32 where
  "INITIAL_CAPACITY_IF_ZERO_REQUESTED = 8"

definition alloc_cells :: "u32 \<Rightarrow> 'a option list" where
  "alloc_cells n = replicate (unat n) None"

definition drvector_init :: "u32 \<Rightarrow> bool \<Rightarrow> bool \<Rightarrow> 'a drvector_t" where
  "drvector_init initial_capacity synch free =
     \<lparr>v_entries = 0, v_capacity = initial_capacity,
      v_array = (if initial_capacity > 0 then Some (alloc_cells initial_capacity) else None),
      v_synch = synch, v_locked = False, v_free = free, v_freed = []\<rparr>"

definition drvector_lock :: "'a drvector_t \<Rightarrow> 'a drvector_t option" where
  "drvector_lock vec = (if v_locked vec then None else Some (vec\<lparr>v_locked := True\<rparr>))"

definition drvector_unlock :: "'a drvector_t \<Rightarrow> 'a drvector_t option" where
  "drvector_unlock vec = (if v_locked vec then Some (vec\<lparr>v_locked := False\<rparr>) else None)"

definition synch_lock :: "'a drvector_t \<Rightarrow> 'a drvector_t option" where
  "synch_lock vec = (if v_synch vec then drvector_lock vec else Some vec)"

definition synch_unlock :: "'a drvector_t \<Rightarrow> 'a drvector_t option" where
  "synch_unlock vec = (if v_synch vec then drvector_unlock vec else Some vec)"

definition cell :: "'a drvector_t \<Rightarrow> u32 \<Rightarrow> 'a option" where
  "cell vec idx = do {
     arr \<leftarrow> v_array vec;
     if unat idx < length arr then arr ! unat idx else None }"

text \<open>The result is the entry, \<open>None\<close> for \<^verbatim>\<open>NULL\<close>, and the vector.\<close>

definition drvector_get_entry ::
  "'a drvector_t option \<Rightarrow> u32 \<Rightarrow> ('a option \<times> 'a drvector_t option) option" where
  "drvector_get_entry vec idx = (case vec of
     None \<Rightarrow> Some (None, None)
   | Some vec \<Rightarrow> do {
       vec \<leftarrow> synch_lock vec;
       res \<leftarrow> (if idx < v_entries vec then do { x \<leftarrow> cell vec idx; Some (Some x) } else Some None);
       vec \<leftarrow> synch_unlock vec;
       Some (res, Some vec) })"

definition drvector_increase_size :: "'a drvector_t \<Rightarrow> u32 \<Rightarrow> 'a drvector_t option" where
  "drvector_increase_size vec newcap = do {
     newarray \<leftarrow> (case v_array vec of
         None \<Rightarrow> Some (alloc_cells newcap)
       | Some arr \<Rightarrow>
           if unat (v_entries vec) \<le> unat newcap \<and> unat (v_entries vec) \<le> length arr
           then Some (take (unat (v_entries vec)) arr @ drop (unat (v_entries vec)) (alloc_cells newcap))
           else None);
     Some (vec\<lparr>v_array := Some newarray, v_capacity := newcap\<rparr>) }"

definition store_cell :: "'a drvector_t \<Rightarrow> u32 \<Rightarrow> 'a \<Rightarrow> 'a drvector_t option" where
  "store_cell vec idx data = do {
     arr \<leftarrow> v_array vec;
     if unat idx < length arr then Some (vec\<lparr>v_array := Some (arr[unat idx := Some data])\<rparr>) else None }"

definition drvector_set_entry ::
  "'a drvector_t option \<Rightarrow> u32 \<Rightarrow> 'a \<Rightarrow> (bool \<times> 'a drvector_t option) option" where
  "drvector_set_entry vec idx data = (case vec of
     None \<Rightarrow> Some (False, None)
   | Some vec \<Rightarrow> do {
       vec \<leftarrow> synch_lock vec;
       vec \<leftarrow> (if idx \<ge> v_capacity vec then
           (if idx = 0 then drvector_increase_size vec INITIAL_CAPACITY_IF_ZERO_REQUESTED
            else drvector_increase_size vec (idx * 2))
         else Some vec);
       vec \<leftarrow> store_cell vec idx data;
       let vec = (if idx \<ge> v_entries vec then vec\<lparr>v_entries := idx + 1\<rparr> else vec);
       vec \<leftarrow> synch_unlock vec;
       Some (True, Some vec) })"

definition drvector_append ::
  "'a drvector_t option \<Rightarrow> 'a \<Rightarrow> (bool \<times> 'a drvector_t option) option" where
  "drvector_append vec data = (case vec of
     None \<Rightarrow> Some (False, None)
   | Some vec \<Rightarrow> do {
       vec \<leftarrow> synch_lock vec;
       vec \<leftarrow> (if v_entries vec \<ge> v_capacity vec then
           (if v_capacity vec = 0 then drvector_increase_size vec INITIAL_CAPACITY_IF_ZERO_REQUESTED
            else drvector_increase_size vec (v_capacity vec * 2))
         else Some vec);
       vec \<leftarrow> store_cell vec (v_entries vec) data;
       let vec = vec\<lparr>v_entries := v_entries vec + 1\<rparr>;
       vec \<leftarrow> synch_unlock vec;
       Some (True, Some vec) })"

text \<open>\<open>v_freed\<close> collects the arguments of the calls of \<^verbatim>\<open>free_data_func\<close>; every entry must have been written.\<close>

fun read_cells :: "'a option list \<Rightarrow> 'a list option" where
  "read_cells [] = Some []"
| "read_cells (c # cs) = do { x \<leftarrow> c; xs \<leftarrow> read_cells cs; Some (x # xs) }"

definition drvector_delete :: "'a drvector_t option \<Rightarrow> (bool \<times> 'a drvector_t option) option" where
  "drvector_delete vec = (case vec of
     None \<Rightarrow> Some (False, None)
   | Some vec \<Rightarrow> do {
       vec \<leftarrow> synch_lock vec;
       vec \<leftarrow> (case v_array vec of
           None \<Rightarrow> Some vec
         | Some arr \<Rightarrow> do {
             freed \<leftarrow> (if v_free vec then
                 (if unat (v_entries vec) \<le> length arr then read_cells (take (unat (v_entries vec)) arr)
                  else None)
               else Some []);
             Some (vec\<lparr>v_freed := v_freed vec @ freed, v_array := None, v_entries := 0\<rparr>) });
       vec \<leftarrow> synch_unlock vec;
       Some (True, Some vec) })"

subsection \<open>What a vector promises\<close>

text \<open>An abstract vector is the list of its entries, an unwritten one being \<open>None\<close>.\<close>

locale vector =
  fixes ok :: "'v \<Rightarrow> bool" and abs :: "'v \<Rightarrow> 'a option list" and room :: "'v \<Rightarrow> bool"
    and append :: "'v \<Rightarrow> 'a \<Rightarrow> 'v option" and get :: "'v \<Rightarrow> nat \<Rightarrow> 'a option option"
  assumes append_ok: "ok v \<Longrightarrow> room v \<Longrightarrow> \<exists>v'. append v x = Some v' \<and> ok v' \<and> abs v' = abs v @ [Some x]"
    and get_in: "ok v \<Longrightarrow> i < length (abs v) \<Longrightarrow> abs v ! i = Some x \<Longrightarrow> get v i = Some (Some x)"
begin

lemma get_appended: "ok v \<Longrightarrow> room v \<Longrightarrow> append v x = Some v' \<Longrightarrow> get v' (length (abs v)) = Some (Some x)"
  using append_ok [of v x] get_in [of v' "length (abs v)" x] by auto

lemma get_kept:
  assumes "ok v" "room v" "append v x = Some v'" "i < length (abs v)" "abs v ! i = Some y"
  shows "get v' i = Some (Some y)"
  using append_ok [of v x] get_in [of v' i y] assms by (auto simp: nth_append)

end

definition vec_ok :: "'a drvector_t \<Rightarrow> bool" where
  "vec_ok vec \<longleftrightarrow> \<not> v_locked vec \<and> v_entries vec \<le> v_capacity vec \<and>
     (case v_array vec of None \<Rightarrow> v_capacity vec = 0 | Some arr \<Rightarrow> length arr = unat (v_capacity vec))"

definition vec_abs :: "'a drvector_t \<Rightarrow> 'a option list" where
  "vec_abs vec = (case v_array vec of None \<Rightarrow> [] | Some arr \<Rightarrow> take (unat (v_entries vec)) arr)"

text \<open>The capacity can be doubled once more.\<close>

definition vec_room :: "'a drvector_t \<Rightarrow> bool" where
  "vec_room vec \<longleftrightarrow> v_capacity vec < 2 ^ 31"

subsection \<open>The operations\<close>

lemma length_alloc_cells [simp]: "length (alloc_cells n) = unat n"
  by (simp add: alloc_cells_def)

lemma drvector_init_ok: "vec_ok (drvector_init cap synch free) \<and> vec_abs (drvector_init cap synch free) = []"
  by (auto simp: vec_ok_def vec_abs_def drvector_init_def word_gt_0)

lemma locked_ops [simp]:
  "vec_ok vec \<Longrightarrow> \<exists>v. synch_lock vec = Some v \<and> v = vec\<lparr>v_locked := v_synch vec\<rparr>"
  by (auto simp: synch_lock_def drvector_lock_def vec_ok_def)

lemma synch_lock_eq: "\<not> v_locked vec \<Longrightarrow> synch_lock vec = Some (vec\<lparr>v_locked := v_synch vec\<rparr>)"
  by (auto simp: synch_lock_def drvector_lock_def)

lemma synch_unlock_eq: "v_locked vec = v_synch vec \<Longrightarrow> synch_unlock vec = Some (vec\<lparr>v_locked := False\<rparr>)"
  by (auto simp: synch_unlock_def drvector_unlock_def)

text \<open>Growing keeps the entries.\<close>

definition vec_inner :: "'a drvector_t \<Rightarrow> bool" where
  "vec_inner vec \<longleftrightarrow> v_entries vec \<le> v_capacity vec \<and>
     (case v_array vec of None \<Rightarrow> v_capacity vec = 0 | Some arr \<Rightarrow> length arr = unat (v_capacity vec))"

lemma vec_ok_inner: "vec_ok vec \<longleftrightarrow> \<not> v_locked vec \<and> vec_inner vec"
  by (simp add: vec_ok_def vec_inner_def)

lemma increase_size_ok:
  assumes "vec_inner vec" "v_capacity vec \<le> newcap"
  shows "\<exists>arr. drvector_increase_size vec newcap = Some (vec\<lparr>v_array := Some arr, v_capacity := newcap\<rparr>) \<and>
    length arr = unat newcap \<and> take (unat (v_entries vec)) arr = vec_abs vec"
proof -
  have le: "unat (v_entries vec) \<le> unat (v_capacity vec)" "unat (v_capacity vec) \<le> unat newcap"
    using assms by (simp_all add: vec_inner_def word_le_nat_alt)
  show ?thesis
  proof (cases "v_array vec")
    case None
    then have "unat (v_entries vec) = 0" using assms le by (simp add: vec_inner_def)
    then show ?thesis using None
      by (intro exI [of _ "alloc_cells newcap"]) (simp add: drvector_increase_size_def vec_abs_def)
  next
    case (Some arr)
    then have len: "length arr = unat (v_capacity vec)" using assms by (simp add: vec_inner_def)
    then show ?thesis using Some le
      by (intro exI [of _ "take (unat (v_entries vec)) arr @ drop (unat (v_entries vec)) (alloc_cells newcap)"])
        (simp add: drvector_increase_size_def vec_abs_def)
  qed
qed

lemma double_capacity: "c < 2 ^ 31 \<Longrightarrow> c \<le> c * 2 \<and> unat (c * 2) = 2 * unat (c :: u32)"
proof -
  assume "c < 2 ^ 31"
  then have "unat c < 2 ^ 31" by (simp add: word_less_nat_alt)
  then have "unat (c * 2) = 2 * unat c" by (simp add: unat_word_ariths)
  then show ?thesis by (simp add: word_le_nat_alt)
qed

text \<open>Storing at the end.\<close>

lemma store_end:
  assumes "vec_inner vec" "v_array vec = Some arr" "v_entries vec < v_capacity vec"
  shows "\<exists>arr'. store_cell vec (v_entries vec) x = Some (vec\<lparr>v_array := Some arr'\<rparr>) \<and>
    length arr' = length arr \<and> unat (v_entries vec + 1) = Suc (unat (v_entries vec)) \<and>
    v_entries vec + 1 \<le> v_capacity vec \<and>
    take (unat (v_entries vec + 1)) arr' = vec_abs vec @ [Some x]"
proof -
  have lt: "unat (v_entries vec) < unat (v_capacity vec)" using assms(3) by (simp add: word_less_nat_alt)
  have "unat (v_capacity vec) < 2 ^ 32" using unat_less_exp [of "v_capacity vec"] by simp
  then have "unat (v_entries vec) + 1 < 2 ^ 32" using lt by linarith
  then have suc: "unat (v_entries vec + 1) = Suc (unat (v_entries vec))"
    by (simp add: unat_word_ariths)
  have len: "length arr = unat (v_capacity vec)" using assms by (simp add: vec_inner_def)
  let ?arr = "arr[unat (v_entries vec) := Some x]"
  have "take (Suc (unat (v_entries vec))) ?arr = take (unat (v_entries vec)) arr @ [Some x]"
    using lt len by (simp add: take_Suc_conv_app_nth)
  then show ?thesis using lt len suc assms(2)
    by (intro exI [of _ ?arr]) (simp add: store_cell_def vec_abs_def word_le_nat_alt)
qed

text \<open>The prelude of \<^verbatim>\<open>drvector_append\<close>: room for one more entry.\<close>

lemma append_room:
  assumes ok: "vec_inner vec" and room: "vec_room vec"
  shows "\<exists>v arr. (if v_entries vec \<ge> v_capacity vec then
      (if v_capacity vec = 0 then drvector_increase_size vec INITIAL_CAPACITY_IF_ZERO_REQUESTED
       else drvector_increase_size vec (v_capacity vec * 2))
    else Some vec) = Some v \<and> vec_inner v \<and> v_array v = Some arr \<and> v_entries v < v_capacity v \<and>
    vec_abs v = vec_abs vec \<and> v_locked v = v_locked vec \<and> v_synch v = v_synch vec"
proof (cases "v_entries vec \<ge> v_capacity vec")
  case True
  let ?cap = "if v_capacity vec = 0 then INITIAL_CAPACITY_IF_ZERO_REQUESTED else v_capacity vec * 2"
  have eq: "v_entries vec = v_capacity vec" using True ok by (simp add: vec_inner_def)
  have room': "v_capacity vec < 2 ^ 31" using room by (simp add: vec_room_def)
  have cap: "v_capacity vec < ?cap"
  proof (cases "v_capacity vec = 0")
    case True
    then show ?thesis by (simp add: INITIAL_CAPACITY_IF_ZERO_REQUESTED_def)
  next
    case False
    then have "0 < unat (v_capacity vec)" by (simp add: unat_gt_0)
    then show ?thesis using False double_capacity [OF room'] by (simp add: word_less_nat_alt)
  qed
  obtain arr where arr: "drvector_increase_size vec ?cap = Some (vec\<lparr>v_array := Some arr, v_capacity := ?cap\<rparr>)"
    "length arr = unat ?cap" "take (unat (v_entries vec)) arr = vec_abs vec"
    using increase_size_ok [OF ok less_imp_le [OF cap]] by blast
  let ?v = "vec\<lparr>v_array := Some arr, v_capacity := ?cap\<rparr>"
  have "vec_inner ?v" using arr cap eq by (simp add: vec_inner_def)
  moreover have "vec_abs ?v = vec_abs vec" using arr by (simp add: vec_abs_def)
  moreover have "(if v_capacity vec = 0 then drvector_increase_size vec INITIAL_CAPACITY_IF_ZERO_REQUESTED
       else drvector_increase_size vec (v_capacity vec * 2)) = drvector_increase_size vec ?cap" by simp
  ultimately show ?thesis
    using True arr(1) cap eq by (intro exI [of _ ?v] exI [of _ arr]) simp
next
  case False
  then obtain arr where "v_array vec = Some arr"
    using ok by (auto simp: vec_inner_def split: option.splits)
  then show ?thesis using False ok by auto
qed

lemma drvector_append_ok:
  assumes ok: "vec_ok vec" and room: "vec_room vec"
  shows "\<exists>v. drvector_append (Some vec) x = Some (True, Some v) \<and> vec_ok v \<and> vec_abs v = vec_abs vec @ [Some x]"
proof -
  let ?v0 = "vec\<lparr>v_locked := v_synch vec\<rparr>"
  have v0: "vec_inner ?v0" "vec_room ?v0" "vec_abs ?v0 = vec_abs vec"
    using ok room by (auto simp: vec_ok_inner vec_inner_def vec_room_def vec_abs_def split: option.split)
  obtain v1 arr where v1: "(if v_entries ?v0 \<ge> v_capacity ?v0 then
      (if v_capacity ?v0 = 0 then drvector_increase_size ?v0 INITIAL_CAPACITY_IF_ZERO_REQUESTED
       else drvector_increase_size ?v0 (v_capacity ?v0 * 2))
    else Some ?v0) = Some v1" "vec_inner v1" "v_array v1 = Some arr" "v_entries v1 < v_capacity v1"
    "vec_abs v1 = vec_abs ?v0" "v_locked v1 = v_locked ?v0" "v_synch v1 = v_synch ?v0"
    using append_room [OF v0(1,2)] by blast
  obtain arr' where a: "store_cell v1 (v_entries v1) x = Some (v1\<lparr>v_array := Some arr'\<rparr>)"
    "length arr' = length arr" "v_entries v1 + 1 \<le> v_capacity v1"
    "take (unat (v_entries v1 + 1)) arr' = vec_abs v1 @ [Some x]"
    using store_end [OF v1(2,3,4)] by blast
  let ?v = "v1\<lparr>v_array := Some arr', v_entries := v_entries v1 + 1, v_locked := False\<rparr>"
  have "drvector_append (Some vec) x = Some (True, Some ?v)"
    using ok v1(1,6,7) a(1)
    by (simp add: drvector_append_def synch_lock_eq vec_ok_inner synch_unlock_eq Let_def)
  moreover have "vec_ok ?v" using v1(2,3) a(2,3) by (simp add: vec_ok_def vec_inner_def)
  moreover have "vec_abs ?v = vec_abs vec @ [Some x]"
    using a(4) v1(5) v0(3) by (simp add: vec_abs_def [of ?v])
  ultimately show ?thesis by blast
qed

lemma drvector_append_free:
  "drvector_append (Some vec) x = Some (b, Some v) \<Longrightarrow> v_free v = v_free vec \<and> v_freed v = v_freed vec"
  by (auto simp: drvector_append_def synch_lock_def drvector_lock_def synch_unlock_def drvector_unlock_def
      drvector_increase_size_def store_cell_def Let_def bind_eq_Some_conv split: if_splits option.splits)

lemma length_vec_abs: "vec_ok vec \<Longrightarrow> length (vec_abs vec) = unat (v_entries vec)"
  by (auto simp: vec_ok_def vec_abs_def word_le_nat_alt split: option.splits)

lemma drvector_get_entry_ok:
  assumes "vec_ok vec"
  shows "drvector_get_entry (Some vec) idx =
    (if unat idx < length (vec_abs vec) then map_option (\<lambda>x. (Some x, Some vec)) (vec_abs vec ! unat idx)
     else Some (None, Some vec))"
proof -
  have rel: "vec\<lparr>v_locked := False\<rparr> = vec" using assms by (simp add: vec_ok_def)
  let ?v = "vec\<lparr>v_locked := v_synch vec\<rparr>"
  have res: "(if idx < v_entries ?v then do { x \<leftarrow> cell ?v idx; Some (Some x) } else Some None) =
      (if unat idx < length (vec_abs vec) then map_option Some (vec_abs vec ! unat idx) else Some None)"
  proof (cases "v_array vec")
    case None
    then show ?thesis using length_vec_abs [OF assms] assms
      by (simp add: vec_abs_def vec_ok_def word_less_nat_alt)
  next
    case (Some arr)
    have "unat (v_entries vec) \<le> length arr" using assms Some by (simp add: vec_ok_def word_le_nat_alt)
    then show ?thesis using Some
      by (cases "arr ! unat idx") (auto simp: vec_abs_def cell_def word_less_nat_alt)
  qed
  have "drvector_get_entry (Some vec) idx =
      (if idx < v_entries ?v then do { x \<leftarrow> cell ?v idx; Some (Some x) } else Some None) \<bind>
      (\<lambda>res. Some (res, Some (vec\<lparr>v_locked := False\<rparr>)))"
    using assms by (simp add: drvector_get_entry_def synch_lock_eq synch_unlock_eq vec_ok_def)
  then show ?thesis unfolding res rel by (cases "vec_abs vec ! unat idx") simp_all
qed

definition vec_append :: "'a drvector_t \<Rightarrow> 'a \<Rightarrow> 'a drvector_t option" where
  "vec_append vec x = do { (b, v) \<leftarrow> drvector_append (Some vec) x; v }"

definition vec_get :: "'a drvector_t \<Rightarrow> nat \<Rightarrow> 'a option option" where
  "vec_get vec i = do { (x, v) \<leftarrow> drvector_get_entry (Some vec) (word_of_nat i); Some x }"

lemma vec_get_in:
  assumes "vec_ok vec" "i < length (vec_abs vec)" "vec_abs vec ! i = Some x"
  shows "vec_get vec i = Some (Some x)"
proof -
  have "i < 2 ^ 32" using assms length_vec_abs [OF assms(1)] unat_less_exp [of "v_entries vec"] by simp
  then have "unat (word_of_nat i :: u32) = i" by (simp add: unat_of_nat take_bit_nat_eq_self_iff)
  then show ?thesis using assms by (simp add: vec_get_def drvector_get_entry_ok)
qed

interpretation drvec: vector vec_ok vec_abs vec_room vec_append vec_get
proof
  fix v :: "'a drvector_t" and x
  assume "vec_ok v" "vec_room v"
  then show "\<exists>v'. vec_append v x = Some v' \<and> vec_ok v' \<and> vec_abs v' = vec_abs v @ [Some x]"
    using drvector_append_ok [of v x] by (auto simp: vec_append_def)
qed (rule vec_get_in)

text \<open>C13: appending to a vector that can still grow succeeds, keeps it well formed, and afterwards the new entry
is read at the old number of entries while every entry that was there before is still read at its index:
growing copies all of them.\<close>

theorem drvector_append_get:
  assumes "vec_ok vec" "vec_room vec"
  shows "\<exists>v. drvector_append (Some vec) x = Some (True, Some v) \<and> vec_ok v \<and>
    vec_get v (unat (v_entries vec)) = Some (Some x) \<and>
    (\<forall>i y. i < unat (v_entries vec) \<longrightarrow> vec_get vec i = Some (Some y) \<longrightarrow> vec_get v i = Some (Some y))"
proof -
  obtain v where v: "drvector_append (Some vec) x = Some (True, Some v)" "vec_ok v"
    using drvector_append_ok [OF assms] by blast
  then have app: "vec_append vec x = Some v" by (simp add: vec_append_def)
  have "vec_get v i = Some (Some y)" if "i < unat (v_entries vec)" "vec_get vec i = Some (Some y)" for i y
  proof -
    have "i < 2 ^ 32" using that(1) unat_less_exp [of "v_entries vec"] by simp
    then have u: "unat (word_of_nat i :: u32) = i" by (simp add: unat_of_nat take_bit_nat_eq_self_iff)
    have "vec_abs vec ! i = Some y"
      using that assms(1) u length_vec_abs [OF assms(1)]
      by (cases "vec_abs vec ! i") (auto simp: vec_get_def drvector_get_entry_ok)
    then show ?thesis
      using drvec.get_kept [OF assms app] that(1) length_vec_abs [OF assms(1)] by simp
  qed
  then show ?thesis
    using v drvec.get_appended [OF assms app] length_vec_abs [OF assms(1)] by auto
qed

theorem drvector_append_get_witness:
  "\<exists>v. drvector_append (Some (drvector_init 0 True False)) (7 :: nat) = Some (True, Some v) \<and>
     vec_get v 0 = Some (Some 7)"
proof -
  have "vec_ok (drvector_init 0 True False :: nat drvector_t)" "vec_room (drvector_init 0 True False :: nat drvector_t)"
    using drvector_init_ok [of 0 True False] by (auto simp: vec_room_def drvector_init_def)
  from drvector_append_get [OF this, of 7] show ?thesis by (auto simp: drvector_init_def)
qed

text \<open>Setting an entry behind the capacity at an index of \<open>2 ^ 31\<close> or more runs outside the array: the new
capacity \<^verbatim>\<open>idx * 2\<close> wraps around and is not larger than the index.\<close>

theorem drvector_set_entry_wraps:
  assumes "vec_ok vec" "v_capacity vec \<le> idx" "2 ^ 31 \<le> idx"
  shows "drvector_set_entry (Some vec) idx x = None"
proof -
  have i: "2 ^ 31 \<le> unat idx" "unat idx < 2 ^ 32"
    using assms(3) unat_less_exp [of idx] by (simp_all add: word_le_nat_alt)
  have "unat (idx * 2) = (unat idx * 2) mod 2 ^ 32" by (simp add: unat_word_ariths)
  also have "\<dots> = unat idx * 2 - 2 ^ 32"
    using i by (simp add: le_mod_geq)
  finally have w: "unat (idx * 2) \<le> unat idx" using i by simp
  have nz: "idx \<noteq> 0" using i by auto
  let ?v = "vec\<lparr>v_locked := v_synch vec\<rparr>"
  show ?thesis
  proof (cases "drvector_increase_size ?v (idx * 2)")
    case None
    then show ?thesis using assms(1,2) nz by (simp add: drvector_set_entry_def synch_lock_eq vec_ok_def)
  next
    case (Some v1)
    then have "store_cell v1 idx x = None"
      using w by (auto simp: drvector_increase_size_def store_cell_def bind_eq_Some_conv
          split: option.splits if_splits)
    then show ?thesis using Some assms(1,2) nz by (simp add: drvector_set_entry_def synch_lock_eq vec_ok_def)
  qed
qed

theorem drvector_set_entry_wraps_witness:
  "drvector_set_entry (Some (drvector_init 4 False False)) 0x80000000 (7 :: nat) = None"
proof -
  have "vec_ok (drvector_init 4 False False :: nat drvector_t)" using drvector_init_ok by blast
  from drvector_set_entry_wraps [OF this, of "0x80000000" 7] show ?thesis by (simp add: drvector_init_def)
qed

end
