(* ===== verification/DrTable.thy ===== *)
theory DrTable
  imports DrVector
begin

text \<open>
  The table of equally sized entries of \<^verbatim>\<open>src/dynamorio/ext/drcontainers/drtable.c\<close>: chunks of memory that never move,
  the pointers to them in a vector. A chunk object is named by its number in the order of creation, which is
  what the vector of chunk pointers and \<^verbatim>\<open>last_chunk\<close> hold, so that an update through either is seen through
  the other. Addresses and sizes are naturals with the 64-bit wrap-around written out. The address that the
  operating system gives to a chunk of a size is an argument; 0 is \<^verbatim>\<open>NULL\<close>, at which the assertion of
  \<^verbatim>\<open>drtable_chunk_alloc\<close> stops. The magic number is not modelled: a table is a table. The page size is that of
  the hosts the tool runs on.
\<close>

subsection \<open>The table and its chunks\<close>

definition w64 :: "nat \<Rightarrow> nat" where
  "w64 x = x mod 2 ^ 64"

definition PAGE_SIZE :: nat where "PAGE_SIZE = 4096"

definition DRTABLE_INVALID_INDEX :: nat where "DRTABLE_INVALID_INDEX = 2 ^ 64 - 1"

definition ALIGN_PAGE :: "nat \<Rightarrow> nat" where
  "ALIGN_PAGE x = w64 (x + (PAGE_SIZE - 1)) div PAGE_SIZE * PAGE_SIZE"

record drtable_chunk_t =
  c_index :: nat
  c_entries :: nat
  c_capacity :: nat
  c_size :: nat
  c_base :: nat
  c_cur :: nat

record drtable_t =
  t_compact :: bool
  t_locked :: bool
  t_free_entry :: bool
  t_synch :: bool
  t_entry_size :: nat
  t_entries :: nat
  t_capacity :: nat
  t_size :: nat
  t_last :: nat
  t_vec :: "nat drvector_t"
  t_chunks :: "drtable_chunk_t list"

definition drtable_lock :: "drtable_t \<Rightarrow> drtable_t option" where
  "drtable_lock t = (if t_locked t then None else Some (t\<lparr>t_locked := True\<rparr>))"

definition drtable_unlock :: "drtable_t \<Rightarrow> drtable_t option" where
  "drtable_unlock t = (if t_locked t then Some (t\<lparr>t_locked := False\<rparr>) else None)"

definition tab_lock :: "drtable_t \<Rightarrow> drtable_t option" where
  "tab_lock t = (if t_synch t then drtable_lock t else Some t)"

definition tab_unlock :: "drtable_t \<Rightarrow> drtable_t option" where
  "tab_unlock t = (if t_synch t then drtable_unlock t else Some t)"

text \<open>A pointer to a chunk read from the vector, which must not be \<^verbatim>\<open>NULL\<close>.\<close>

definition vec_chunk :: "drtable_t \<Rightarrow> nat \<Rightarrow> nat option" where
  "vec_chunk t i = do {
     (c, v) \<leftarrow> drvector_get_entry (Some (t_vec t)) (word_of_nat i);
     c }"

definition deref :: "drtable_t \<Rightarrow> nat \<Rightarrow> drtable_chunk_t option" where
  "deref t c = (if c < length (t_chunks t) then Some (t_chunks t ! c) else None)"

definition drtable_chunk_alloc :: "(nat \<Rightarrow> nat) \<Rightarrow> nat \<Rightarrow> nat option" where
  "drtable_chunk_alloc mem_alloc sz = do { ASSERT (mem_alloc sz \<noteq> 0); Some (mem_alloc sz) }"

definition drtable_chunk_create :: "(nat \<Rightarrow> nat) \<Rightarrow> drtable_t \<Rightarrow> nat \<Rightarrow> (nat \<times> drtable_t) option" where
  "drtable_chunk_create mem_alloc t num_entries = do {
     let sz = ALIGN_PAGE (max (t_size t) (w64 (t_entry_size t * num_entries)));
     base \<leftarrow> drtable_chunk_alloc mem_alloc sz;
     let capacity = sz div t_entry_size t mod 2 ^ 32;
     let chunk = \<lparr>c_index = t_capacity t, c_entries = 0, c_capacity = capacity, c_size = sz, c_base = base,
       c_cur = base\<rparr>;
     let c = length (t_chunks t);
     (ok, vec) \<leftarrow> drvector_append (Some (t_vec t)) c;
     vec \<leftarrow> vec;
     Some (c, t\<lparr>t_size := w64 (t_size t + sz), t_capacity := w64 (t_capacity t + capacity), t_vec := vec,
       t_chunks := t_chunks t @ [chunk]\<rparr>) }"

definition drtable_create ::
  "(nat \<Rightarrow> nat) \<Rightarrow> nat \<Rightarrow> nat \<Rightarrow> bool \<Rightarrow> bool \<Rightarrow> bool \<Rightarrow> drtable_t option" where
  "drtable_create mem_alloc capacity entry_size compact synch free_entry = do {
     ASSERT (entry_size > 0 \<and> entry_size < PAGE_SIZE);
     let sz = ALIGN_PAGE (w64 ((if capacity > 0 then capacity else 1) * entry_size));
     let t = \<lparr>t_compact = compact, t_locked = False, t_free_entry = free_entry, t_synch = synch,
       t_entry_size = entry_size, t_entries = 0, t_capacity = 0, t_size = 0, t_last = 0,
       t_vec = drvector_init 2 False True, t_chunks = []\<rparr>;
     (c, t) \<leftarrow> drtable_chunk_create mem_alloc t (sz div entry_size);
     Some (t\<lparr>t_last := c\<rparr>) }"

subsection \<open>Allocating entries\<close>

definition chunk_space :: "drtable_chunk_t \<Rightarrow> nat" where
  "chunk_space c = w64 (c_capacity c + 2 ^ 64 - c_entries c)"

text \<open>The search of \<^verbatim>\<open>DRTABLE_ALLOC_COMPACT\<close>, from the last chunk down; \<open>Some None\<close> when none has space.\<close>

fun find_space :: "drtable_t \<Rightarrow> nat \<Rightarrow> nat \<Rightarrow> nat option option" where
  "find_space t num_entries 0 = Some None"
| "find_space t num_entries (Suc i) = do {
     c \<leftarrow> vec_chunk t i;
     chunk \<leftarrow> deref t c;
     if chunk_space chunk \<ge> num_entries then Some (Some c) else find_space t num_entries i }"

text \<open>The result is the pointer and the index of the first of the entries.\<close>

definition drtable_alloc :: "(nat \<Rightarrow> nat) \<Rightarrow> drtable_t \<Rightarrow> nat \<Rightarrow> ((nat \<times> nat) \<times> drtable_t) option" where
  "drtable_alloc mem_alloc t num_entries = do {
     t \<leftarrow> tab_lock t;
     last \<leftarrow> deref t (t_last t);
     found \<leftarrow>
       (if chunk_space last \<ge> num_entries then Some (Some (t_last t))
        else if t_compact t then find_space t num_entries (unat (v_entries (t_vec t)))
        else Some None);
     (c, t) \<leftarrow> (case found of
         Some c \<Rightarrow> Some (c, t)
       | None \<Rightarrow> do { (c, t) \<leftarrow> drtable_chunk_create mem_alloc t num_entries; Some (c, t\<lparr>t_last := c\<rparr>) });
     chunk \<leftarrow> deref t c;
     let entry = c_cur chunk;
     let cur = w64 (c_cur chunk + w64 (num_entries * t_entry_size t));
     ASSERT (cur \<le> w64 (c_base chunk + c_size chunk));
     let idx = w64 (c_index chunk + c_entries chunk);
     let entries = w64 (c_entries chunk + num_entries);
     ASSERT (entries \<le> c_capacity chunk);
     let t = t\<lparr>t_chunks := (t_chunks t)[c := chunk\<lparr>c_cur := cur, c_entries := entries\<rparr>],
       t_entries := w64 (t_entries t + num_entries)\<rparr>;
     ASSERT (t_entries t \<le> t_capacity t);
     t \<leftarrow> tab_unlock t;
     Some ((entry, idx), t) }"

subsection \<open>Indices and pointers\<close>

text \<open>The searches of the two lookups: the first chunk from the end that satisfies \<open>P\<close>.\<close>

fun scan_chunks :: "(drtable_chunk_t \<Rightarrow> bool) \<Rightarrow> drtable_t \<Rightarrow> nat \<Rightarrow> drtable_chunk_t option option" where
  "scan_chunks P t 0 = Some None"
| "scan_chunks P t (Suc i) = do {
     c \<leftarrow> vec_chunk t i;
     chunk \<leftarrow> deref t c;
     if P chunk then Some (Some chunk) else scan_chunks P t i }"

definition drtable_chunk_lookup_index :: "drtable_t \<Rightarrow> nat \<Rightarrow> drtable_chunk_t option option" where
  "drtable_chunk_lookup_index t index =
     (if index > t_capacity t then Some None else do {
        chunk \<leftarrow> deref t (t_last t);
        if c_index chunk \<le> index \<and> index < w64 (c_index chunk + c_entries chunk) then Some (Some chunk)
        else do {
          t \<leftarrow> tab_lock t;
          res \<leftarrow> scan_chunks (\<lambda>c. c_index c \<le> index \<and> index < w64 (c_index c + c_capacity c)) t
            (unat (v_entries (t_vec t)));
          t \<leftarrow> tab_unlock t;
          Some res } })"

definition drtable_chunk_lookup_entry :: "drtable_t \<Rightarrow> nat \<Rightarrow> drtable_chunk_t option option" where
  "drtable_chunk_lookup_entry t entry = do {
     chunk \<leftarrow> deref t (t_last t);
     if c_base chunk \<le> entry \<and> entry < c_cur chunk then Some (Some chunk)
     else do {
       t \<leftarrow> tab_lock t;
       res \<leftarrow> scan_chunks (\<lambda>c. c_base c \<le> entry \<and> entry < c_cur c) t (unat (v_entries (t_vec t)));
       t \<leftarrow> tab_unlock t;
       Some res } }"

definition drtable_get_entry :: "drtable_t \<Rightarrow> nat \<Rightarrow> nat option" where
  "drtable_get_entry t index = do {
     chunk \<leftarrow> drtable_chunk_lookup_index t index;
     case chunk of
       None \<Rightarrow> Some 0
     | Some chunk \<Rightarrow> Some (w64 (c_base chunk + w64 (index * t_entry_size t))) }"

definition drtable_get_index :: "drtable_t \<Rightarrow> nat \<Rightarrow> nat option" where
  "drtable_get_index t entry = do {
     chunk \<leftarrow> drtable_chunk_lookup_entry t entry;
     case chunk of
       None \<Rightarrow> Some DRTABLE_INVALID_INDEX
     | Some chunk \<Rightarrow> Some (w64 (c_index chunk + (entry - c_base chunk) div t_entry_size t)) }"

definition drtable_num_entries :: "drtable_t \<Rightarrow> nat" where
  "drtable_num_entries t = t_entries t"

subsection \<open>Iteration, dump and destruction\<close>

text \<open>
  The callback gets the index, the address of the entry and its own data, and says whether to go on. The
  boolean of the result is \<^verbatim>\<open>stop_iter\<close>.
\<close>

fun chunk_loop ::
  "(nat \<Rightarrow> nat \<Rightarrow> 's \<Rightarrow> bool \<times> 's) \<Rightarrow> nat \<Rightarrow> nat \<Rightarrow> nat \<Rightarrow> nat \<Rightarrow> 's \<Rightarrow> bool \<times> 's" where
  "chunk_loop iter_func sz 0 idx entry s = (False, s)"
| "chunk_loop iter_func sz (Suc n) idx entry s =
     (let (go, s) = iter_func idx entry s in
      if \<not> go then (True, s) else chunk_loop iter_func sz n (w64 (idx + 1)) (w64 (entry + sz)) s)"

definition drtable_chunk_iterate ::
  "(nat \<Rightarrow> nat \<Rightarrow> 's \<Rightarrow> bool \<times> 's) \<Rightarrow> nat \<Rightarrow> drtable_chunk_t \<Rightarrow> 's \<Rightarrow> bool \<times> 's" where
  "drtable_chunk_iterate iter_func sz chunk s =
     chunk_loop iter_func sz (c_entries chunk) (c_index chunk) (c_base chunk) s"

fun iterate_from ::
  "(nat \<Rightarrow> nat \<Rightarrow> 's \<Rightarrow> bool \<times> 's) \<Rightarrow> drtable_t \<Rightarrow> nat \<Rightarrow> nat \<Rightarrow> 's \<Rightarrow> 's option" where
  "iterate_from iter_func t i 0 s = Some s"
| "iterate_from iter_func t i (Suc n) s = do {
     c \<leftarrow> vec_chunk t i;
     chunk \<leftarrow> deref t c;
     let (stop, s) = drtable_chunk_iterate iter_func (t_entry_size t) chunk s;
     if stop then Some s else iterate_from iter_func t (i + 1) n s }"

definition drtable_iterate ::
  "(nat \<Rightarrow> nat \<Rightarrow> 's \<Rightarrow> bool \<times> 's) \<Rightarrow> drtable_t \<Rightarrow> 's \<Rightarrow> ('s \<times> drtable_t) option" where
  "drtable_iterate iter_func t s = do {
     t \<leftarrow> tab_lock t;
     s \<leftarrow> iterate_from iter_func t 0 (unat (v_entries (t_vec t))) s;
     t \<leftarrow> tab_unlock t;
     Some (s, t) }"

text \<open>The writes of the dump, address and length of each, all of them complete.\<close>

fun dump_from :: "drtable_t \<Rightarrow> nat \<Rightarrow> nat \<Rightarrow> nat \<Rightarrow> (nat \<times> nat) list \<Rightarrow> (nat \<times> (nat \<times> nat) list) option" where
  "dump_from t i 0 entries out = Some (entries, out)"
| "dump_from t i (Suc n) entries out = do {
     c \<leftarrow> vec_chunk t i;
     chunk \<leftarrow> deref t c;
     dump_from t (i + 1) n (w64 (entries + c_entries chunk))
       (out @ [(c_base chunk, w64 (t_entry_size t * c_entries chunk))]) }"

definition drtable_dump_entries :: "drtable_t \<Rightarrow> (nat \<times> (nat \<times> nat) list \<times> drtable_t) option" where
  "drtable_dump_entries t = do {
     t \<leftarrow> tab_lock t;
     (entries, out) \<leftarrow> dump_from t 0 (unat (v_entries (t_vec t))) 0 [];
     ASSERT (entries = t_entries t);
     t \<leftarrow> tab_unlock t;
     Some (entries, out, t) }"

text \<open>The callbacks of \<^verbatim>\<open>free_entry_func\<close> when a chunk is freed, and the region given back.\<close>

definition drtable_free_callback :: "nat \<Rightarrow> nat \<Rightarrow> (nat \<times> nat) list \<Rightarrow> bool \<times> (nat \<times> nat) list" where
  "drtable_free_callback idx entry s = (True, s @ [(idx, entry)])"

definition drtable_chunk_free ::
  "drtable_t \<Rightarrow> drtable_chunk_t \<Rightarrow> (nat \<times> nat) list \<Rightarrow> (nat \<times> nat) list \<times> (nat \<times> nat)" where
  "drtable_chunk_free t chunk calls =
     (if t_free_entry t then snd (drtable_chunk_iterate drtable_free_callback (t_entry_size t) chunk calls) else calls,
      (c_base chunk, c_size chunk))"

fun free_chunks ::
  "drtable_t \<Rightarrow> nat list \<Rightarrow> (nat \<times> nat) list \<Rightarrow> (nat \<times> nat) list \<Rightarrow> ((nat \<times> nat) list \<times> (nat \<times> nat) list) option" where
  "free_chunks t [] calls freed = Some (calls, freed)"
| "free_chunks t (c # cs) calls freed = do {
     chunk \<leftarrow> deref t c;
     let (calls, region) = drtable_chunk_free t chunk calls;
     free_chunks t cs calls (freed @ [region]) }"

definition drtable_destroy :: "drtable_t \<Rightarrow> ((nat \<times> nat) list \<times> (nat \<times> nat) list) option" where
  "drtable_destroy t = do {
     t \<leftarrow> tab_lock t;
     (ok, vec) \<leftarrow> drvector_delete (Some (t_vec t));
     vec \<leftarrow> vec;
     res \<leftarrow> free_chunks t (v_freed vec) [] [];
     t \<leftarrow> tab_unlock t;
     Some res }"

subsection \<open>Well-formed tables\<close>

definition chunk_ok :: "nat \<Rightarrow> drtable_chunk_t \<Rightarrow> bool" where
  "chunk_ok sz c \<longleftrightarrow> c_entries c \<le> c_capacity c \<and> c_capacity c = c_size c div sz \<and>
     c_cur c = c_base c + c_entries c * sz \<and> 0 < c_base c \<and> c_base c + c_size c < 2 ^ 64"

definition apart :: "drtable_chunk_t \<Rightarrow> drtable_chunk_t \<Rightarrow> bool" where
  "apart c d \<longleftrightarrow> c_base c + c_size c \<le> c_base d \<or> c_base d + c_size d \<le> c_base c"

definition indexed :: "drtable_chunk_t list \<Rightarrow> bool" where
  "indexed cs \<longleftrightarrow> (\<forall>i < length cs. c_index (cs ! i) = sum_list (map c_capacity (take i cs)))"

definition dt_core :: "drtable_t \<Rightarrow> bool" where
  "dt_core t \<longleftrightarrow> 0 < t_entry_size t \<and> t_entry_size t < PAGE_SIZE \<and>
     v_free (t_vec t) \<and> v_freed (t_vec t) = [] \<and> vec_ok (t_vec t) \<and> vec_abs (t_vec t) = map Some [0..<length (t_chunks t)] \<and>
     (\<forall>c \<in> set (t_chunks t). chunk_ok (t_entry_size t) c) \<and>
     (\<forall>i j. i < j \<longrightarrow> j < length (t_chunks t) \<longrightarrow> apart (t_chunks t ! i) (t_chunks t ! j)) \<and>
     indexed (t_chunks t) \<and> t_capacity t = sum_list (map c_capacity (t_chunks t)) \<and>
     t_entries t = sum_list (map c_entries (t_chunks t)) \<and>
     t_size t = sum_list (map c_size (t_chunks t)) \<and> t_size t \<le> 2 ^ 33"

definition dt_inv :: "drtable_t \<Rightarrow> bool" where
  "dt_inv t \<longleftrightarrow> dt_core t \<and> \<not> t_locked t \<and> t_last t < length (t_chunks t)"

text \<open>The next chunk stays below 4 GB, so that its capacity fits into the 32 bits it is cast to, and the vector can grow.\<close>

definition dt_fits :: "nat \<Rightarrow> drtable_t \<Rightarrow> bool" where
  "dt_fits n t \<longleftrightarrow> max (t_size t) (t_entry_size t * n) + PAGE_SIZE \<le> 2 ^ 32 \<and> vec_room (t_vec t)"

text \<open>What the operating system promises: a region of the size, apart from those of the chunks.\<close>

definition fresh_region :: "drtable_t \<Rightarrow> nat \<Rightarrow> nat \<Rightarrow> bool" where
  "fresh_region t a n \<longleftrightarrow> 0 < a \<and> a + n < 2 ^ 64 \<and>
     (\<forall>c \<in> set (t_chunks t). c_base c + c_size c \<le> a \<or> a + n \<le> c_base c)"

lemma w64_small [simp]: "x < 2 ^ 64 \<Longrightarrow> w64 x = x"
  by (simp add: w64_def)

lemma dt_core_lock [simp]: "dt_core (t\<lparr>t_locked := b\<rparr>) = dt_core t"
  by (simp add: dt_core_def)

lemma dt_core_last [simp]: "dt_core (t\<lparr>t_last := c\<rparr>) = dt_core t"
  by (simp add: dt_core_def)

lemma tab_lock_eq: "\<not> t_locked t \<Longrightarrow> tab_lock t = Some (t\<lparr>t_locked := t_synch t\<rparr>)"
  by (auto simp: tab_lock_def drtable_lock_def)

lemma tab_unlock_eq: "t_locked t = t_synch t \<Longrightarrow> tab_unlock t = Some (t\<lparr>t_locked := False\<rparr>)"
  by (auto simp: tab_unlock_def drtable_unlock_def)

lemma num_chunks: "dt_core t \<Longrightarrow> unat (v_entries (t_vec t)) = length (t_chunks t)"
  using length_vec_abs [of "t_vec t"] by (simp add: dt_core_def)

lemma vec_chunk_eq:
  assumes "dt_core t" "i < length (t_chunks t)"
  shows "vec_chunk t i = Some i"
proof -
  have v: "vec_ok (t_vec t)" "vec_abs (t_vec t) = map Some [0..<length (t_chunks t)]"
    using assms(1) by (simp_all add: dt_core_def)
  have "i < 2 ^ 32" using assms num_chunks [OF assms(1)] unat_less_exp [of "v_entries (t_vec t)"] by simp
  then have "unat (word_of_nat i :: u32) = i" by (simp add: unat_of_nat take_bit_nat_eq_self_iff)
  then show ?thesis using v assms(2) by (simp add: vec_chunk_def drvector_get_entry_ok)
qed

lemma deref_eq: "c < length (t_chunks t) \<Longrightarrow> deref t c = Some (t_chunks t ! c)"
  by (simp add: deref_def)

text \<open>The searches from the end find a chunk if there is one, and only chunks.\<close>

lemma scan_chunks_eq:
  assumes "dt_core t" "n \<le> length (t_chunks t)"
  shows "scan_chunks P t n = Some (List.find P (rev (take n (t_chunks t))))"
  using assms(2) by (induction n) (simp_all add: vec_chunk_eq [OF assms(1)] deref_eq take_Suc_conv_app_nth)

lemma find_space_ok:
  assumes "dt_core t" "n \<le> length (t_chunks t)"
  shows "\<exists>r. find_space t m n = Some r \<and>
    (\<forall>c. r = Some c \<longrightarrow> c < length (t_chunks t) \<and> m \<le> chunk_space (t_chunks t ! c))"
  using assms(2) by (induction n) (auto simp: vec_chunk_eq [OF assms(1)] deref_eq)

lemma find_rev_unique:
  assumes "x \<in> set xs" "P x" "\<And>y. y \<in> set xs \<Longrightarrow> P y \<Longrightarrow> y = x"
  shows "List.find P (rev xs) = Some x"
proof -
  obtain y where "List.find P (rev xs) = Some y"
    using assms(1,2) by (cases "List.find P (rev xs)") (auto simp: find_None_iff)
  moreover from this have "y \<in> set xs" "P y" by (metis find_Some_iff nth_mem set_rev)+
  ultimately show ?thesis using assms(3) by simp
qed

lemma map_upd_same: "i < length xs \<Longrightarrow> f x = f (xs ! i) \<Longrightarrow> map f (xs[i := x]) = map f xs"
  by (simp add: map_update list_update_same_conv)

subsection \<open>Pointers and indices\<close>

lemma chunk_cur_le: "chunk_ok sz c \<Longrightarrow> c_cur c \<le> c_base c + c_size c"
proof -
  assume c: "chunk_ok sz c"
  then have "c_entries c * sz \<le> c_size c div sz * sz" by (intro mult_le_mono1) (simp add: chunk_ok_def)
  also have "\<dots> \<le> c_size c" by simp
  finally show ?thesis using c by (simp add: chunk_ok_def)
qed

text \<open>An address lies in the entries of at most one chunk.\<close>

lemma holder_unique:
  assumes "dt_core t" "c \<in> set (t_chunks t)" "d \<in> set (t_chunks t)"
    and "c_base c \<le> a" "a < c_cur c" "c_base d \<le> a" "a < c_cur d"
  shows "d = c"
proof -
  have "\<not> apart c d" "\<not> apart d c"
    using assms chunk_cur_le [of "t_entry_size t"] by (force simp: dt_core_def apart_def)+
  moreover obtain i j where "i < length (t_chunks t)" "c = t_chunks t ! i" "j < length (t_chunks t)" "d = t_chunks t ! j"
    using assms(2,3) by (auto simp: in_set_conv_nth)
  ultimately show ?thesis using assms(1) unfolding dt_core_def by (metis linorder_neqE_nat)
qed

lemma lookup_entry_ok:
  assumes "dt_inv t" "c \<in> set (t_chunks t)" "c_base c \<le> a" "a < c_cur c"
  shows "drtable_chunk_lookup_entry t a = Some (Some c)"
proof -
  have core: "dt_core t" and lock: "\<not> t_locked t" and last: "t_last t < length (t_chunks t)"
    using assms(1) by (simp_all add: dt_inv_def)
  let ?t = "t\<lparr>t_locked := t_synch t\<rparr>"
  have "List.find (\<lambda>c. c_base c \<le> a \<and> a < c_cur c) (rev (t_chunks t)) = Some c"
    by (rule find_rev_unique) (use assms(2-4) holder_unique [OF core assms(2) _ assms(3,4)] in blast)+
  then have "scan_chunks (\<lambda>c. c_base c \<le> a \<and> a < c_cur c) ?t (length (t_chunks t)) = Some (Some c)"
    using scan_chunks_eq [of ?t "length (t_chunks t)"] core by simp
  moreover have "t_chunks t ! t_last t = c" if "c_base (t_chunks t ! t_last t) \<le> a" "a < c_cur (t_chunks t ! t_last t)"
    using holder_unique [OF core assms(2) _ assms(3,4) that] last by simp
  ultimately show ?thesis
    using last lock num_chunks [OF core]
    by (auto simp: drtable_chunk_lookup_entry_def deref_eq tab_lock_eq tab_unlock_eq)
qed

lemma sum_list_take_nth:
  fixes xs :: "nat list"
  assumes "i < length xs"
  shows "sum_list (take i xs) + xs ! i \<le> sum_list xs"
proof -
  have "sum_list (take (Suc i) xs) \<le> sum_list (take (Suc i) xs) + sum_list (drop (Suc i) xs)" by simp
  also have "\<dots> = sum_list xs" by (metis append_take_drop_id sum_list_append)
  finally show ?thesis using assms by (simp add: take_Suc_conv_app_nth)
qed

lemma index_le_capacity:
  assumes "dt_core t" "c \<in> set (t_chunks t)"
  shows "c_index c + c_capacity c \<le> t_capacity t"
proof -
  obtain i where "i < length (t_chunks t)" "c = t_chunks t ! i" using assms(2) by (auto simp: in_set_conv_nth)
  then show ?thesis
    using assms(1) sum_list_take_nth [of i "map c_capacity (t_chunks t)"]
    by (simp add: dt_core_def indexed_def take_map)
qed

lemma capacity_le_size: "dt_core t \<Longrightarrow> t_capacity t \<le> t_size t"
  unfolding dt_core_def by (auto simp: chunk_ok_def intro!: sum_list_mono)

lemma entries_le_capacity: "dt_core t \<Longrightarrow> t_entries t \<le> t_capacity t"
  unfolding dt_core_def by (auto simp: chunk_ok_def intro!: sum_list_mono)

lemma index_le:
  assumes "dt_core t" "c \<in> set (t_chunks t)"
  shows "c_index c + c_capacity c \<le> t_size t"
  using index_le_capacity [OF assms] capacity_le_size [OF assms(1)] by simp

text \<open>The entries of a chunk have the indices from the chunk's own on.\<close>

lemma get_index_ok:
  assumes "dt_inv t" "c \<in> set (t_chunks t)" "i < c_entries c"
  shows "drtable_get_index t (c_base c + i * t_entry_size t) = Some (c_index c + i)"
proof -
  have core: "dt_core t" and ok: "chunk_ok (t_entry_size t) c" and sz: "0 < t_entry_size t"
    using assms(1,2) by (auto simp: dt_inv_def dt_core_def)
  have "i * t_entry_size t < c_entries c * t_entry_size t" using assms(3) sz by simp
  then have l: "drtable_chunk_lookup_entry t (c_base c + i * t_entry_size t) = Some (Some c)"
    using lookup_entry_ok [OF assms(1,2)] ok by (simp add: chunk_ok_def)
  have "c_index c + c_capacity c \<le> t_size t" using index_le [OF core assms(2)] .
  then have "c_index c + i < 2 ^ 64"
    using core ok assms(3) by (auto simp: dt_core_def chunk_ok_def)
  then show ?thesis using l sz by (simp add: drtable_get_index_def)
qed

subsection \<open>Allocation\<close>

lemma ALIGN_PAGE_bounds:
  assumes "x + PAGE_SIZE \<le> 2 ^ 32"
  shows "x \<le> ALIGN_PAGE x" "ALIGN_PAGE x < 2 ^ 32" "ALIGN_PAGE x \<le> x + 4095"
proof -
  have eq: "ALIGN_PAGE x = (x + 4095) div 4096 * 4096"
    using assms by (simp add: ALIGN_PAGE_def PAGE_SIZE_def)
  have "(x + 4095) div 4096 * 4096 + (x + 4095) mod 4096 = x + 4095" by (rule div_mult_mod_eq)
  moreover have "(x + 4095) mod 4096 \<le> 4095" using mod_less_divisor [of 4096 "x + 4095"] by simp
  ultimately show "x \<le> ALIGN_PAGE x" "ALIGN_PAGE x < 2 ^ 32" "ALIGN_PAGE x \<le> x + 4095"
    using assms unfolding eq PAGE_SIZE_def by linarith+
qed

lemma chunk_space_eq:
  assumes "chunk_ok sz c"
  shows "chunk_space c = c_capacity c - c_entries c"
proof -
  have "c_capacity c \<le> c_size c" using assms by (simp add: chunk_ok_def)
  moreover have "c_size c < 2 ^ 64" using assms by (simp add: chunk_ok_def)
  ultimately have "c_capacity c - c_entries c < 2 ^ 64" by linarith
  moreover have "c_entries c \<le> c_capacity c" using assms by (simp add: chunk_ok_def)
  then have "c_capacity c + 2 ^ 64 - c_entries c = (c_capacity c - c_entries c) + 2 ^ 64" by linarith
  ultimately show ?thesis unfolding chunk_space_def w64_def by (simp only: mod_add_self2 mod_less)
qed

lemma indexed_snoc: "indexed (cs @ [c]) \<longleftrightarrow> indexed cs \<and> c_index c = sum_list (map c_capacity cs)"
  by (auto simp: indexed_def nth_append less_Suc_eq)

lemma apart_snoc:
  "(\<forall>i j. i < j \<longrightarrow> j < length (cs @ [c]) \<longrightarrow> apart ((cs @ [c]) ! i) ((cs @ [c]) ! j)) \<longleftrightarrow>
   (\<forall>i j. i < j \<longrightarrow> j < length cs \<longrightarrow> apart (cs ! i) (cs ! j)) \<and> (\<forall>d \<in> set cs. apart d c)"
  by (auto simp: nth_append less_Suc_eq all_set_conv_all_nth)

lemma chunk_create_ok:
  assumes core: "dt_core t" and fits: "dt_fits n t" and fresh: "\<And>sz. sz < 2 ^ 32 \<Longrightarrow> fresh_region t (mem sz) sz"
  obtains t' chunk where "drtable_chunk_create mem t n = Some (length (t_chunks t), t')" "dt_core t'"
    "t_chunks t' = t_chunks t @ [chunk]" "c_entries chunk = 0" "n \<le> c_capacity chunk"
    "t_entry_size t' = t_entry_size t" "t_synch t' = t_synch t" "t_locked t' = t_locked t" "t_entries t' = t_entries t"
proof -
  let ?es = "t_entry_size t"
  define sz where "sz = ALIGN_PAGE (max (t_size t) (?es * n))"
  have f: "max (t_size t) (?es * n) + PAGE_SIZE \<le> 2 ^ 32" and room: "vec_room (t_vec t)"
    using fits by (simp_all add: dt_fits_def)
  have es: "0 < ?es" using core by (simp add: dt_core_def)
  have sz: "?es * n \<le> sz" "sz < 2 ^ 32" using ALIGN_PAGE_bounds [OF f] by (simp_all add: sz_def)
  then have cap: "n \<le> sz div ?es" "sz div ?es < 2 ^ 32"
    using es le_less_trans [OF div_le_dividend [of sz ?es] sz(2)]
    by (simp_all add: less_eq_div_iff_mult_less_eq mult.commute)
  have m: "fresh_region t (mem sz) sz" using fresh [OF sz(2)] .
  have tot: "t_size t \<le> 2 ^ 32" "t_capacity t \<le> t_size t"
    using f capacity_le_size [OF core] by (simp_all add: PAGE_SIZE_def)
  have vec: "vec_ok (t_vec t)" "vec_abs (t_vec t) = map Some [0..<length (t_chunks t)]"
    using core by (simp_all add: dt_core_def)
  obtain v where v: "drvector_append (Some (t_vec t)) (length (t_chunks t)) = Some (True, Some v)" "vec_ok v"
    "vec_abs v = vec_abs (t_vec t) @ [Some (length (t_chunks t))]"
    using drvector_append_ok [OF vec(1) room] by blast
  define chunk where "chunk = \<lparr>c_index = t_capacity t, c_entries = 0, c_capacity = sz div ?es, c_size = sz,
    c_base = mem sz, c_cur = mem sz\<rparr>"
  let ?t = "t\<lparr>t_size := t_size t + sz, t_capacity := t_capacity t + sz div ?es, t_vec := v,
    t_chunks := t_chunks t @ [chunk]\<rparr>"
  have "?es * n < 2 ^ 64" using sz by simp
  then have "drtable_chunk_create mem t n = Some (length (t_chunks t), ?t)"
    using m v(1) tot sz(2) cap(2)
    by (simp add: drtable_chunk_create_def drtable_chunk_alloc_def fresh_region_def chunk_def Let_def flip: sz_def)
  moreover have "dt_core ?t"
    using core v(2,3) drvector_append_free [OF v(1)] m tot sz(2) apart_snoc [of "t_chunks t" chunk]
    by (auto simp: dt_core_def indexed_snoc chunk_ok_def fresh_region_def apart_def chunk_def)
  ultimately show thesis using that [of ?t chunk] cap(1) by (simp add: chunk_def)
qed

text \<open>Taking entries from a chunk with space.\<close>

lemma take_entries_ok:
  assumes core: "dt_core t" and c: "c < length (t_chunks t)" "chunk = t_chunks t ! c"
    and n: "c_entries chunk + n \<le> c_capacity chunk"
  defines "t' \<equiv> t\<lparr>t_chunks := (t_chunks t)[c := chunk\<lparr>c_cur := c_cur chunk + n * t_entry_size t,
    c_entries := c_entries chunk + n\<rparr>], t_entries := t_entries t + n\<rparr>"
  shows "dt_core t'" "t_entries t' \<le> t_capacity t'"
proof -
  let ?x = "chunk\<lparr>c_cur := c_cur chunk + n * t_entry_size t, c_entries := c_entries chunk + n\<rparr>"
  let ?cs = "(t_chunks t)[c := ?x]"
  have ok: "chunk_ok (t_entry_size t) chunk" using core c by (auto simp: dt_core_def)
  then have x: "chunk_ok (t_entry_size t) ?x" using n by (simp add: chunk_ok_def algebra_simps)
  have same: "map c_capacity ?cs = map c_capacity (t_chunks t)" "map c_size ?cs = map c_size (t_chunks t)"
    "map c_index ?cs = map c_index (t_chunks t)" "map c_base ?cs = map c_base (t_chunks t)"
    using c by (simp_all add: map_upd_same)
  have "sum_list (map c_entries ?cs) = sum_list (map c_entries (t_chunks t)) + n"
    using c elem_le_sum_list [of c "map c_entries (t_chunks t)"]
    by (simp add: map_update sum_list_update)
  moreover have "indexed ?cs"
  proof -
    have "c_index (?cs ! i) = c_index (t_chunks t ! i)" if "i < length ?cs" for i
      using that same(3) by (metis length_list_update nth_map)
    then show ?thesis using core same(1) by (simp add: indexed_def dt_core_def flip: take_map)
  qed
  moreover have "apart (?cs ! i) (?cs ! j)" if "i < j" "j < length ?cs" for i j
  proof -
    have "c_base (?cs ! k) = c_base (t_chunks t ! k)" "c_size (?cs ! k) = c_size (t_chunks t ! k)" if "k < length ?cs" for k
      using that same(2,4) by (metis length_list_update nth_map)+
    then show ?thesis using core that by (simp add: dt_core_def apart_def)
  qed
  moreover have "\<forall>d \<in> set ?cs. chunk_ok (t_entry_size t) d"
    using core x set_update_subset_insert [of "t_chunks t" c ?x] by (auto simp: dt_core_def)
  ultimately show core': "dt_core t'" using core same(1,2) by (simp add: t'_def dt_core_def)
  show "t_entries t' \<le> t_capacity t'" using entries_le_capacity [OF core'] .
qed

text \<open>Steps 1 and 2 of \<^verbatim>\<open>drtable_alloc\<close>: a chunk with space for the entries, found or new.\<close>

lemma pick_chunk_ok:
  assumes core: "dt_core t" and last: "t_last t < length (t_chunks t)" and fits: "dt_fits n t"
    and fresh: "\<And>sz. sz < 2 ^ 32 \<Longrightarrow> fresh_region t (mem sz) sz"
  obtains found c t1 extra where
    "(if chunk_space (t_chunks t ! t_last t) \<ge> n then Some (Some (t_last t))
      else if t_compact t then find_space t n (unat (v_entries (t_vec t))) else Some None) = Some found"
    "(case found of Some c \<Rightarrow> Some (c, t)
      | None \<Rightarrow> do { (c, t) \<leftarrow> drtable_chunk_create mem t n; Some (c, t\<lparr>t_last := c\<rparr>) }) = Some (c, t1)"
    "dt_core t1" "c < length (t_chunks t1)" "t_last t1 < length (t_chunks t1)"
    "c_entries (t_chunks t1 ! c) + n \<le> c_capacity (t_chunks t1 ! c)" "t_chunks t1 = t_chunks t @ extra"
    "t_entry_size t1 = t_entry_size t" "t_synch t1 = t_synch t" "t_locked t1 = t_locked t" "t_entries t1 = t_entries t"
proof -
  have space: "c_entries (t_chunks t ! c) + n \<le> c_capacity (t_chunks t ! c)"
    if "c < length (t_chunks t)" "n \<le> chunk_space (t_chunks t ! c)" for c
  proof -
    have ok: "chunk_ok (t_entry_size t) (t_chunks t ! c)" using core that(1) by (simp add: dt_core_def)
    then have "c_entries (t_chunks t ! c) \<le> c_capacity (t_chunks t ! c)" by (simp add: chunk_ok_def)
    then show ?thesis using chunk_space_eq [OF ok] that(2) by simp
  qed
  obtain r where r: "find_space t n (unat (v_entries (t_vec t))) = Some r"
    "\<And>c. r = Some c \<Longrightarrow> c < length (t_chunks t) \<and> n \<le> chunk_space (t_chunks t ! c)"
    using find_space_ok [OF core, of "length (t_chunks t)" n] num_chunks [OF core] by auto
  obtain found where f: "(if chunk_space (t_chunks t ! t_last t) \<ge> n then Some (Some (t_last t))
      else if t_compact t then find_space t n (unat (v_entries (t_vec t))) else Some None) = Some found"
    "\<And>c. found = Some c \<Longrightarrow> c < length (t_chunks t) \<and> n \<le> chunk_space (t_chunks t ! c)"
    using r last by (cases "n \<le> chunk_space (t_chunks t ! t_last t)"; cases "t_compact t") auto
  show thesis
  proof (cases found)
    case (Some c)
    show thesis
      by (rule that [OF f(1), of c t "[]"]) (use Some f(2) core last space in simp_all)
  next
    case None
    obtain t' chunk where "drtable_chunk_create mem t n = Some (length (t_chunks t), t')" "dt_core t'"
      "t_chunks t' = t_chunks t @ [chunk]" "c_entries chunk = 0" "n \<le> c_capacity chunk"
      "t_entry_size t' = t_entry_size t" "t_synch t' = t_synch t" "t_locked t' = t_locked t" "t_entries t' = t_entries t"
      using chunk_create_ok [OF core fits fresh] by blast
    then show thesis
      by (intro that [OF f(1), of "length (t_chunks t)" "t'\<lparr>t_last := length (t_chunks t)\<rparr>" "[chunk]"])
        (simp_all add: None)
  qed
qed

text \<open>The chunks of one table are still in the other, with at least their entries.\<close>

definition keeps_chunks :: "drtable_t \<Rightarrow> drtable_t \<Rightarrow> bool" where
  "keeps_chunks t t' \<longleftrightarrow> t_entry_size t' = t_entry_size t \<and>
     (\<forall>d \<in> set (t_chunks t). \<exists>d' \<in> set (t_chunks t').
        c_base d' = c_base d \<and> c_index d' = c_index d \<and> c_entries d \<le> c_entries d')"

lemma keeps_chunks_update:
  assumes "t_chunks t1 = t_chunks t @ extra" "t_entry_size t' = t_entry_size t"
    and "c < length (t_chunks t1)" "t_chunks t' = (t_chunks t1)[c := x]" "c_base x = c_base (t_chunks t1 ! c)"
      "c_index x = c_index (t_chunks t1 ! c)" "c_entries (t_chunks t1 ! c) \<le> c_entries x"
  shows "keeps_chunks t t'"
  unfolding keeps_chunks_def
proof (intro conjI ballI)
  fix d assume "d \<in> set (t_chunks t)"
  then obtain i where i: "i < length (t_chunks t1)" "d = t_chunks t1 ! i"
    using assms(1) by (metis Un_iff in_set_conv_nth set_append)
  then show "\<exists>d' \<in> set (t_chunks t'). c_base d' = c_base d \<and> c_index d' = c_index d \<and> c_entries d \<le> c_entries d'"
    using assms(3-7) nth_mem [of i "t_chunks t'"]
    by (intro bexI [of _ "t_chunks t' ! i"]) (auto simp: nth_list_update)
qed (use assms(2) in simp)

lemma drtable_alloc_ok:
  assumes inv: "dt_inv t" and fits: "dt_fits n t" and fresh: "\<And>sz. sz < 2 ^ 32 \<Longrightarrow> fresh_region t (mem sz) sz"
  obtains x t' where
    "drtable_alloc mem t n = Some ((c_base x + (c_entries x - n) * t_entry_size t, c_index x + (c_entries x - n)), t')"
    "dt_inv t'" "x \<in> set (t_chunks t')" "n \<le> c_entries x" "keeps_chunks t t'" "t_entries t' = t_entries t + n"
proof -
  let ?t = "t\<lparr>t_locked := t_synch t\<rparr>"
  have t: "dt_core ?t" "\<not> t_locked t" "t_last ?t < length (t_chunks ?t)" "dt_fits n ?t"
    "\<And>sz. sz < 2 ^ 32 \<Longrightarrow> fresh_region ?t (mem sz) sz"
    using inv fits fresh by (simp_all add: dt_inv_def dt_fits_def fresh_region_def)
  obtain found c t1 extra where p:
    "(if chunk_space (t_chunks ?t ! t_last ?t) \<ge> n then Some (Some (t_last ?t))
      else if t_compact ?t then find_space ?t n (unat (v_entries (t_vec ?t))) else Some None) = Some found"
    "(case found of Some c \<Rightarrow> Some (c, ?t)
      | None \<Rightarrow> do { (c, t) \<leftarrow> drtable_chunk_create mem ?t n; Some (c, t\<lparr>t_last := c\<rparr>) }) = Some (c, t1)"
    "dt_core t1" "c < length (t_chunks t1)" "t_last t1 < length (t_chunks t1)"
    "c_entries (t_chunks t1 ! c) + n \<le> c_capacity (t_chunks t1 ! c)" "t_chunks t1 = t_chunks ?t @ extra"
    "t_entry_size t1 = t_entry_size ?t" "t_synch t1 = t_synch ?t" "t_locked t1 = t_locked ?t" "t_entries t1 = t_entries ?t"
    using pick_chunk_ok [where mem = mem, OF t(1,3,4,5)] by blast
  let ?c = "t_chunks t1 ! c"
  let ?x = "?c\<lparr>c_cur := c_cur ?c + n * t_entry_size t1, c_entries := c_entries ?c + n\<rparr>"
  let ?t' = "t1\<lparr>t_chunks := (t_chunks t1)[c := ?x], t_entries := t_entries t1 + n\<rparr>"
  note new = take_entries_ok [OF p(3,4) refl p(6)]
  have x: "?x \<in> set (t_chunks ?t')" using p(4) by (simp add: set_update_memI)
  have okc: "chunk_ok (t_entry_size t1) ?c" using p(3,4) by (simp add: dt_core_def)
  have okx: "chunk_ok (t_entry_size t1) ?x" using new(1) x by (auto simp: dt_core_def)
  have cur: "c_cur ?c + n * t_entry_size t1 \<le> c_base ?c + c_size ?c" "c_base ?c + c_size ?c < 2 ^ 64"
    using chunk_cur_le [OF okx] okc by (simp_all add: chunk_ok_def)
  have idx: "c_index ?c + c_entries ?c < 2 ^ 64" "c_entries ?c + n < 2 ^ 64" "t_entries t1 + n < 2 ^ 64"
    using index_le [OF p(3), of ?c] p(3,4,6) new(2) capacity_le_size [OF p(3)] by (auto simp: dt_core_def)
  have "drtable_alloc mem t n =
      Some ((c_cur ?c, c_index ?c + c_entries ?c), ?t'\<lparr>t_locked := False\<rparr>)"
    using t(2,3) p cur idx new(2) by (simp add: drtable_alloc_def tab_lock_eq tab_unlock_eq deref_eq Let_def)
  moreover have "c_cur ?c = c_base ?x + (c_entries ?x - n) * t_entry_size t"
    using okc p(8) by (simp add: chunk_ok_def)
  moreover have "keeps_chunks t (?t'\<lparr>t_locked := False\<rparr>)"
    by (rule keeps_chunks_update [of t1 t extra _ c ?x]) (use p in simp_all)
  ultimately show thesis
    using that [of ?x "?t'\<lparr>t_locked := False\<rparr>"] new(1) x p(5,11) by (simp add: dt_inv_def)
qed

text \<open>
  C11: \<^verbatim>\<open>drtable_alloc\<close> gives a well-formed table, counts the new entries, and afterwards \<^verbatim>\<open>drtable_get_index\<close> is
  right about every entry: the new ones have the consecutive indices from the returned one on, and the
  entries that were there keep their indices, wherever their chunk lies.
\<close>

theorem drtable_alloc_get_index:
  assumes "dt_inv t" "dt_fits n t" "\<forall>sz < 2 ^ 32. fresh_region t (mem sz) sz"
  shows "\<exists>entry idx t'. drtable_alloc mem t n = Some ((entry, idx), t') \<and> dt_inv t' \<and>
    drtable_num_entries t' = drtable_num_entries t + n \<and>
    (\<forall>i < n. drtable_get_index t' (entry + i * t_entry_size t) = Some (idx + i)) \<and>
    (\<forall>d \<in> set (t_chunks t). \<forall>i < c_entries d.
       drtable_get_index t (c_base d + i * t_entry_size t) = Some (c_index d + i) \<and>
       drtable_get_index t' (c_base d + i * t_entry_size t) = Some (c_index d + i))"
proof -
  obtain x t' where a:
    "drtable_alloc mem t n = Some ((c_base x + (c_entries x - n) * t_entry_size t, c_index x + (c_entries x - n)), t')"
    "dt_inv t'" "x \<in> set (t_chunks t')" "n \<le> c_entries x" "keeps_chunks t t'" "t_entries t' = t_entries t + n"
    using drtable_alloc_ok [of t n mem] assms by blast
  have sz: "t_entry_size t' = t_entry_size t" using a(5) by (simp add: keeps_chunks_def)
  have "drtable_get_index t' (c_base x + (c_entries x - n) * t_entry_size t + i * t_entry_size t) =
      Some (c_index x + (c_entries x - n) + i)" if "i < n" for i
  proof -
    have "c_entries x - n + i < c_entries x" using that a(4) by simp
    from get_index_ok [OF a(2,3) this] show ?thesis using sz by (simp only: add_mult_distrib add.assoc)
  qed
  moreover have "drtable_get_index t' (c_base d + i * t_entry_size t) = Some (c_index d + i)"
    if d: "d \<in> set (t_chunks t)" "i < c_entries d" for d i
  proof -
    obtain d' where "d' \<in> set (t_chunks t')" "c_base d' = c_base d" "c_index d' = c_index d" "c_entries d \<le> c_entries d'"
      using a(5) d(1) by (auto simp: keeps_chunks_def)
    then show ?thesis using get_index_ok [OF a(2), of d' i] d(2) sz by simp
  qed
  ultimately show ?thesis
    using a(1,2,6) get_index_ok [OF assms(1)] by (auto simp: drtable_num_entries_def)
qed

subsection \<open>From an index to a pointer\<close>

lemma index_mono:
  assumes "indexed cs" "i < j" "j < length cs"
  shows "c_index (cs ! i) + c_capacity (cs ! i) \<le> c_index (cs ! j)"
proof -
  have "sum_list (take i (take j (map c_capacity cs))) + take j (map c_capacity cs) ! i \<le> sum_list (take j (map c_capacity cs))"
    using assms(2,3) by (intro sum_list_take_nth) simp
  then show ?thesis using assms by (simp add: indexed_def take_map min_absorb1)
qed

lemma index_holder_unique:
  assumes core: "dt_core t" and "c \<in> set (t_chunks t)" "d \<in> set (t_chunks t)"
    and "c_index c \<le> k" "k < c_index c + c_capacity c" "c_index d \<le> k" "k < c_index d + c_capacity d"
  shows "d = c"
proof -
  have ix: "indexed (t_chunks t)" using core by (simp add: dt_core_def)
  obtain i j where i: "i < length (t_chunks t)" "c = t_chunks t ! i" and j: "j < length (t_chunks t)" "d = t_chunks t ! j"
    using assms(2,3) by (auto simp: in_set_conv_nth)
  have "\<not> i < j" "\<not> j < i"
    using index_mono [OF ix _ j(1)] index_mono [OF ix _ i(1)] i(2) j(2) assms(4-7) by fastforce+
  then show ?thesis using i(2) j(2) by simp
qed

lemma lookup_index_ok:
  assumes inv: "dt_inv t" and c: "c \<in> set (t_chunks t)" "i < c_entries c"
  shows "drtable_chunk_lookup_index t (c_index c + i) = Some (Some c)"
proof -
  let ?k = "c_index c + i"
  have core: "dt_core t" and lock: "\<not> t_locked t" and last: "t_last t < length (t_chunks t)"
    using inv by (simp_all add: dt_inv_def)
  have le: "c_entries d \<le> c_capacity d" "c_index d + c_capacity d \<le> t_capacity t"
    "c_index d + c_capacity d < 2 ^ 64" "c_index d + c_entries d < 2 ^ 64" if "d \<in> set (t_chunks t)" for d
  proof -
    show 1: "c_entries d \<le> c_capacity d" using core that by (auto simp: dt_core_def chunk_ok_def)
    show "c_index d + c_capacity d \<le> t_capacity t" using index_le_capacity [OF core that] .
    show 2: "c_index d + c_capacity d < 2 ^ 64" using index_le [OF core that] core by (simp add: dt_core_def)
    show "c_index d + c_entries d < 2 ^ 64" using 1 2 by linarith
  qed
  have k: "?k < c_index c + c_capacity c" "\<not> t_capacity t < ?k"
    using c le [OF c(1)] by simp_all
  let ?P = "\<lambda>d. c_index d \<le> ?k \<and> ?k < w64 (c_index d + c_capacity d)"
  have P: "d = c" if d: "d \<in> set (t_chunks t)" "?P d" for d
  proof -
    have "c_index d \<le> ?k" "?k < c_index d + c_capacity d"
      using d(2) unfolding w64_small [OF le(3) [OF d(1)]] by blast+
    then show ?thesis by (rule index_holder_unique [OF core c(1) d(1) le_add1 k(1)])
  qed
  have Pc: "?P c" using k(1) unfolding w64_small [OF le(3) [OF c(1)]] by simp
  have "List.find ?P (rev (t_chunks t)) = Some c" by (rule find_rev_unique [where P = ?P, OF c(1) Pc P])
  then have "scan_chunks ?P (t\<lparr>t_locked := t_synch t\<rparr>) (length (t_chunks t)) = Some (Some c)"
    using scan_chunks_eq [of "t\<lparr>t_locked := t_synch t\<rparr>" "length (t_chunks t)"] core by simp
  moreover have "t_chunks t ! t_last t = c"
    if "c_index (t_chunks t ! t_last t) \<le> ?k" "?k < w64 (c_index (t_chunks t ! t_last t) + c_entries (t_chunks t ! t_last t))"
  proof -
    have m: "t_chunks t ! t_last t \<in> set (t_chunks t)" using last by simp
    have "?k < c_index (t_chunks t ! t_last t) + c_capacity (t_chunks t ! t_last t)"
      using that(2) le(1) [OF m] unfolding w64_small [OF le(4) [OF m]] by linarith
    then show ?thesis using P [OF m] that(1) unfolding w64_small [OF le(3) [OF m]] by blast
  qed
  ultimately show ?thesis
    using k(2) last lock num_chunks [OF core]
    by (auto simp: drtable_chunk_lookup_index_def deref_eq tab_lock_eq tab_unlock_eq)
qed

text \<open>
  \<^verbatim>\<open>drtable_get_entry\<close> multiplies the whole index, not the index within the chunk: the pointer it returns for an
  allocated entry is off by the size of all the entries of the chunks before, and right in the first chunk only.
\<close>

theorem drtable_get_entry_offset:
  assumes "dt_inv t" "c \<in> set (t_chunks t)" "i < c_entries c"
    and "c_base c + (c_index c + i) * t_entry_size t < 2 ^ 64"
  shows "drtable_get_entry t (c_index c + i) = Some ((c_base c + i * t_entry_size t) + c_index c * t_entry_size t)"
proof -
  have "(c_index c + i) * t_entry_size t < 2 ^ 64" using assms(4) by simp
  then show ?thesis
    using lookup_index_ok [OF assms(1-3)] assms(4) by (simp add: drtable_get_entry_def add_mult_distrib)
qed

subsection \<open>All entries: dump and destruction\<close>

lemma chunk_loop_free:
  assumes "idx + n < 2 ^ 64" "a + n * sz < 2 ^ 64"
  shows "chunk_loop drtable_free_callback sz n idx a s = (False, s @ map (\<lambda>i. (idx + i, a + i * sz)) [0..<n])"
  using assms
proof (induction n arbitrary: idx a s)
  case (Suc n)
  have "chunk_loop drtable_free_callback sz (Suc n) idx a s =
      chunk_loop drtable_free_callback sz n (idx + 1) (a + sz) (s @ [(idx, a)])"
    using Suc.prems by (simp add: drtable_free_callback_def)
  also have "\<dots> = (False, (s @ [(idx, a)]) @ map (\<lambda>i. (idx + 1 + i, a + sz + i * sz)) [0..<n])"
    using Suc.IH [of "idx + 1" "a + sz"] Suc.prems by (simp add: add.assoc)
  also have "(s @ [(idx, a)]) @ map (\<lambda>i. (idx + 1 + i, a + sz + i * sz)) [0..<n] =
      s @ map (\<lambda>i. (idx + i, a + i * sz)) [0..<Suc n]"
    by (simp add: upt_conv_Cons map_Suc_upt [symmetric] add.assoc del: upt_Suc)
  finally show ?case .
qed simp

definition chunk_refs :: "nat \<Rightarrow> drtable_chunk_t \<Rightarrow> (nat \<times> nat) list" where
  "chunk_refs sz c = map (\<lambda>i. (c_index c + i, c_base c + i * sz)) [0..<c_entries c]"

lemma free_chunks_ok:
  assumes core: "dt_core t" and "\<forall>c \<in> set cs. c < length (t_chunks t)"
  shows "free_chunks t cs calls freed = Some
    (calls @ (if t_free_entry t then concat (map (\<lambda>c. chunk_refs (t_entry_size t) (t_chunks t ! c)) cs) else []),
     freed @ map (\<lambda>c. (c_base (t_chunks t ! c), c_size (t_chunks t ! c))) cs)"
  using assms(2)
proof (induction cs arbitrary: calls freed)
  case (Cons c cs)
  let ?c = "t_chunks t ! c"
  have m: "?c \<in> set (t_chunks t)" using Cons.prems by simp
  then have ok: "chunk_ok (t_entry_size t) ?c" using core by (simp add: dt_core_def)
  have "c_index ?c + c_entries ?c < 2 ^ 64"
    using index_le [OF core m] core ok by (simp add: dt_core_def chunk_ok_def)
  moreover have "c_base ?c + c_entries ?c * t_entry_size t < 2 ^ 64"
    using chunk_cur_le [OF ok] ok by (simp add: chunk_ok_def)
  ultimately have "drtable_chunk_free t ?c calls =
      (calls @ (if t_free_entry t then chunk_refs (t_entry_size t) ?c else []), (c_base ?c, c_size ?c))"
    by (simp add: drtable_chunk_free_def drtable_chunk_iterate_def chunk_loop_free chunk_refs_def)
  then show ?case using Cons.IH Cons.prems by (simp add: deref_eq)
qed simp

lemma map_nth_upt: "map (\<lambda>i. f (xs ! i)) [0..<length xs] = map f xs"
  by (rule nth_equalityI) simp_all

lemma read_cells_Some: "read_cells (map Some xs) = Some xs"
  by (induction xs) simp_all

text \<open>
  C12: destroying a table gives every chunk's memory back exactly once, and before that calls
  \<^verbatim>\<open>free_entry_func\<close>, where there is one, exactly once for each allocated entry, with its index and its address.
\<close>

theorem drtable_destroy_frees_all:
  assumes inv: "dt_inv t"
  shows "drtable_destroy t = Some
    (if t_free_entry t then concat (map (chunk_refs (t_entry_size t)) (t_chunks t)) else [],
     map (\<lambda>c. (c_base c, c_size c)) (t_chunks t))"
proof -
  let ?t = "t\<lparr>t_locked := t_synch t\<rparr>"
  have core: "dt_core ?t" and lock: "\<not> t_locked t" using inv by (simp_all add: dt_inv_def)
  have v: "vec_ok (t_vec t)" "vec_abs (t_vec t) = map Some [0..<length (t_chunks t)]"
    and vec: "v_free (t_vec t)" "v_freed (t_vec t) = []"
    using core by (simp_all add: dt_core_def)
  have "t_chunks t \<noteq> []" using inv by (auto simp: dt_inv_def)
  then obtain arr where arr: "v_array (t_vec t) = Some arr" "take (unat (v_entries (t_vec t))) arr = map Some [0..<length (t_chunks t)]"
    using v(2) by (auto simp: vec_abs_def split: option.splits)
  have "unat (v_entries (t_vec t)) \<le> length arr" using v(1) arr(1) by (simp add: vec_ok_def word_le_nat_alt)
  then obtain vec' where "drvector_delete (Some (t_vec t)) = Some (True, Some vec')" "v_freed vec' = [0..<length (t_chunks t)]"
    using v(1) vec arr by (auto simp: drvector_delete_def synch_lock_eq synch_unlock_eq vec_ok_def read_cells_Some)
  then show ?thesis
    using lock free_chunks_ok [OF core, of "[0..<length (t_chunks t)]" "[]" "[]"]
      map_nth_upt [of "\<lambda>c. (c_base c, c_size c)" "t_chunks t"]
      map_nth_upt [of "chunk_refs (t_entry_size t)" "t_chunks t"]
    by (simp add: drtable_destroy_def tab_lock_eq tab_unlock_eq)
qed

text \<open>The dump writes the entries of every chunk, in the order of their indices, and its check of the total holds.\<close>

lemma dump_from_ok:
  assumes core: "dt_core t" and "i + n = length (t_chunks t)"
    and "e + sum_list (map c_entries (drop i (t_chunks t))) = t_entries t"
  shows "dump_from t i n e out = Some (t_entries t,
    out @ map (\<lambda>c. (c_base c, t_entry_size t * c_entries c)) (drop i (t_chunks t)))"
  using assms(2,3)
proof (induction n arbitrary: i e out)
  case (Suc n)
  let ?c = "t_chunks t ! i"
  have i: "i < length (t_chunks t)" using Suc.prems(1) by simp
  then have d: "drop i (t_chunks t) = ?c # drop (Suc i) (t_chunks t)" by (simp add: Cons_nth_drop_Suc)
  have ok: "chunk_ok (t_entry_size t) ?c" using core i by (simp add: dt_core_def)
  then have "t_entry_size t * c_entries ?c < 2 ^ 64"
    using chunk_cur_le [OF ok] by (simp add: chunk_ok_def mult.commute)
  moreover have "e + c_entries ?c < 2 ^ 64"
    using Suc.prems(2) d core capacity_le_size [OF core] entries_le_capacity [OF core] by (simp add: dt_core_def)
  ultimately show ?case using Suc.IH [of "Suc i" "e + c_entries ?c"] Suc.prems d
    by (simp add: vec_chunk_eq [OF core i] deref_eq i add.assoc)
qed simp

lemma drtable_dump_entries_ok:
  assumes "dt_inv t"
  shows "drtable_dump_entries t =
    Some (t_entries t, map (\<lambda>c. (c_base c, t_entry_size t * c_entries c)) (t_chunks t), t)"
proof -
  have core: "dt_core (t\<lparr>t_locked := t_synch t\<rparr>)" and lock: "\<not> t_locked t"
    using assms by (simp_all add: dt_inv_def)
  have "t_entries t = sum_list (map c_entries (t_chunks t))" using core by (simp add: dt_core_def)
  then show ?thesis
    using lock num_chunks [OF core] dump_from_ok [OF core, of 0 "length (t_chunks t)" 0 "[]"]
    by (simp add: drtable_dump_entries_def tab_lock_eq tab_unlock_eq)
qed

subsection \<open>Creation\<close>

lemma drtable_create_ok:
  assumes sz: "0 < entry_size" "entry_size < PAGE_SIZE" "max 1 capacity * entry_size + 2 * PAGE_SIZE \<le> 2 ^ 32"
    and mem: "\<And>sz. sz < 2 ^ 32 \<Longrightarrow> 0 < mem sz \<and> mem sz + sz < 2 ^ 64"
  obtains t chunk where "drtable_create mem capacity entry_size compact synch free_entry = Some t" "dt_inv t"
    "t_chunks t = [chunk]" "t_entry_size t = entry_size" "c_entries chunk = 0" "capacity \<le> c_capacity chunk"
proof -
  let ?n = "max 1 capacity * entry_size"
  let ?k = "ALIGN_PAGE ?n div entry_size"
  let ?t = "\<lparr>t_compact = compact, t_locked = False, t_free_entry = free_entry, t_synch = synch,
       t_entry_size = entry_size, t_entries = 0, t_capacity = 0, t_size = 0, t_last = 0,
       t_vec = drvector_init 2 False True, t_chunks = []\<rparr>"
  have a: "?n \<le> ALIGN_PAGE ?n" "ALIGN_PAGE ?n \<le> ?n + 4095" using ALIGN_PAGE_bounds [of ?n] sz(3) by simp_all
  have "entry_size * ?k \<le> ALIGN_PAGE ?n" by simp
  then have "entry_size * ?k + PAGE_SIZE \<le> 2 ^ 32"
    using sz(3) a(2) unfolding PAGE_SIZE_def by linarith
  then have fits: "dt_fits ?k ?t"
    using sz(1,2) by (simp add: dt_fits_def vec_room_def drvector_init_def PAGE_SIZE_def)
  have core: "dt_core ?t"
    using sz(1,2) drvector_init_ok [of 2 False True]
    by (simp add: dt_core_def indexed_def drvector_init_def)
  have fr: "\<And>sz. sz < 2 ^ 32 \<Longrightarrow> fresh_region ?t (mem sz) sz" using mem by (simp add: fresh_region_def)
  obtain t' chunk where c: "drtable_chunk_create mem ?t ?k = Some (length (t_chunks ?t), t')" "dt_core t'"
    "t_chunks t' = t_chunks ?t @ [chunk]" "c_entries chunk = 0" "?k \<le> c_capacity chunk"
    "t_entry_size t' = t_entry_size ?t" "t_synch t' = t_synch ?t" "t_locked t' = t_locked ?t"
    using chunk_create_ok [OF core fits fr] by blast
  have cap: "capacity \<le> ?k"
    using sz(1) le_trans [OF mult_le_mono1 [of capacity "max 1 capacity" entry_size] a(1)]
    by (simp add: less_eq_div_iff_mult_less_eq)
  have "(if capacity > 0 then capacity else 1) = max 1 capacity" by auto
  moreover have "?n < 2 ^ 64" using sz(3) by simp
  ultimately have "drtable_create mem capacity entry_size compact synch free_entry = Some (t'\<lparr>t_last := 0\<rparr>)"
    using c(1) sz(1,2) by (simp add: drtable_create_def)
  then show thesis
    using that [of "t'\<lparr>t_last := 0\<rparr>" chunk] c(2-8) cap by (simp add: dt_inv_def)
qed

subsection \<open>Examples\<close>

text \<open>A table for 600 entries of 8 bytes takes two pages, which hold 1024 entries; the next chunk begins at that index.\<close>

definition sample_chunk :: "nat \<Rightarrow> nat \<Rightarrow> nat \<Rightarrow> drtable_chunk_t" where
  "sample_chunk index base entries = \<lparr>c_index = index, c_entries = entries, c_capacity = 1024, c_size = 8192,
     c_base = base, c_cur = base + entries * 8\<rparr>"

definition sample_drtable :: drtable_t where
  "sample_drtable = \<lparr>t_compact = False, t_locked = False, t_free_entry = True, t_synch = True, t_entry_size = 8,
     t_entries = 1000, t_capacity = 2048, t_size = 16384, t_last = 1,
     t_vec = \<lparr>v_entries = 2, v_capacity = 2, v_array = Some [Some 0, Some 1], v_synch = False, v_locked = False,
       v_free = True, v_freed = []\<rparr>,
     t_chunks = [sample_chunk 0 0x10000 900, sample_chunk 1024 0x20000 100]\<rparr>"

lemma sample_inv: "dt_inv sample_drtable"
  by (auto simp: dt_inv_def dt_core_def sample_drtable_def sample_chunk_def chunk_ok_def apart_def indexed_def
      PAGE_SIZE_def vec_ok_def vec_abs_def less_Suc_eq)

lemma sample_fits: "dt_fits 1000 sample_drtable"
  by (simp add: dt_fits_def sample_drtable_def PAGE_SIZE_def vec_room_def)

theorem drtable_alloc_get_index_witness:
  "\<exists>entry idx t'. drtable_alloc (\<lambda>_. 0x10000000000) sample_drtable 1000 = Some ((entry, idx), t') \<and>
     drtable_get_index t' (entry + 999 * 8) = Some (idx + 999) \<and> drtable_get_index t' (0x20000 + 99 * 8) = Some 1123"
proof -
  have "\<forall>sz < 2 ^ 32. fresh_region sample_drtable 0x10000000000 sz"
    by (simp add: fresh_region_def sample_drtable_def sample_chunk_def)
  from drtable_alloc_get_index [OF sample_inv sample_fits this] obtain entry idx t' where
    a: "drtable_alloc (\<lambda>_. 0x10000000000) sample_drtable 1000 = Some ((entry, idx), t')"
    "\<forall>i < 1000. drtable_get_index t' (entry + i * t_entry_size sample_drtable) = Some (idx + i)"
    "\<forall>d \<in> set (t_chunks sample_drtable). \<forall>i < c_entries d.
       drtable_get_index t' (c_base d + i * t_entry_size sample_drtable) = Some (c_index d + i)"
    by blast
  show ?thesis
    using a(1) a(2) [rule_format, of 999] a(3) [rule_format, of "sample_chunk 1024 0x20000 100" 99]
    by (simp add: sample_drtable_def sample_chunk_def)
qed

theorem drtable_get_entry_offset_witness:
  "drtable_get_entry sample_drtable 1025 = Some (0x20008 + 8192) \<and> drtable_get_index sample_drtable 0x20008 = Some 1025"
  using drtable_get_entry_offset [OF sample_inv, of "sample_chunk 1024 0x20000 100" 1]
    get_index_ok [OF sample_inv, of "sample_chunk 1024 0x20000 100" 1]
  by (simp add: sample_drtable_def sample_chunk_def)

theorem drtable_destroy_frees_all_witness:
  "\<exists>calls. drtable_destroy sample_drtable = Some (calls, [(0x10000, 8192), (0x20000, 8192)]) \<and> length calls = 1000"
  using drtable_destroy_frees_all [OF sample_inv]
  by (simp add: sample_drtable_def sample_chunk_def chunk_refs_def)

end
