(* ===== verification/Hashtable.thy ===== *)
theory Hashtable
  imports Prelude "HOL-Library.Multiset"
begin

text \<open>
  The chained hashtable of \<^verbatim>\<open>src/dynamorio/ext/drcontainers/hashtable.c\<close>. A chain is the list of its entries from
  the head on. A key is an integer or a pointer to a string, which stands for the string itself; a
  payload is a pointer, 0 for \<^verbatim>\<open>NULL\<close>. The calls of \<^verbatim>\<open>free_payload_func\<close> and \<^verbatim>\<open>free_key_func\<close> are collected in lists. A
  mutex is the boolean that it is held; locking it again blocks for ever, which is \<open>None\<close>, as are failed
  assertions and shifts by the width of the operand. Persistence is left out.
\<close>

unbundle bit_operations_syntax

subsection \<open>Keys\<close>

type_synonym cstring = "u8 list"

datatype hash_type_t = HASH_INTPTR | HASH_STRING | HASH_STRING_NOCASE | HASH_CUSTOM

datatype hkey = KInt u64 | KStr cstring

fun key_string :: "hkey \<Rightarrow> cstring" where
  "key_string (KStr s) = s" | "key_string (KInt _) = []"

fun key_int :: "hkey \<Rightarrow> u64" where
  "key_int (KInt n) = n" | "key_int (KStr _) = 0"

text \<open>\<^verbatim>\<open>'A'\<close> is 65 and \<^verbatim>\<open>'Z'\<close> is 90; a byte above 127 is a negative \<^verbatim>\<open>char\<close>.\<close>

definition lower :: "u8 \<Rightarrow> u8" where
  "lower c = (if 65 \<le> c \<and> c \<le> 90 then c + 32 else c)"

fun stri_eq :: "cstring \<Rightarrow> cstring \<Rightarrow> bool" where
  "stri_eq [] [] = True"
| "stri_eq [] (_ # _) = False"
| "stri_eq (_ # _) [] = False"
| "stri_eq (c # s1) (d # s2) = (if lower c = lower d then stri_eq s1 s2 else False)"

fun hash_string :: "nat \<Rightarrow> bool \<Rightarrow> cstring \<Rightarrow> nat \<Rightarrow> u32 \<Rightarrow> u32" where
  "hash_string max_shift nocase [] i hash = hash"
| "hash_string max_shift nocase (c # s) i hash =
     (let c = (if nocase then lower c else c);
          shift = i mod 4 * 8;
          shift = (if shift > max_shift then max_shift else shift)
      in hash_string max_shift nocase s (Suc i) (hash XOR shl (scast c) shift))"

definition ALIGN_FORWARD :: "nat \<Rightarrow> nat \<Rightarrow> nat" where
  "ALIGN_FORWARD x alignment = (x + (alignment - 1)) div alignment * alignment"

definition HASH_MASK :: "nat \<Rightarrow> u32" where
  "HASH_MASK num_bits = shr (- 1) (32 - num_bits)"

record key_ops =
  ko_type :: hash_type_t
  ko_hash :: "(hkey \<Rightarrow> u32) option"
  ko_cmp :: "(hkey \<Rightarrow> hkey \<Rightarrow> bool) option"

definition hash_key :: "key_ops \<Rightarrow> nat \<Rightarrow> hkey \<Rightarrow> u32" where
  "hash_key ops bits key =
     (let hash = (case ko_hash ops of
          Some f \<Rightarrow> f key
        | None \<Rightarrow>
            if ko_type ops = HASH_STRING \<or> ko_type ops = HASH_STRING_NOCASE
            then hash_string (ALIGN_FORWARD bits 8) (ko_type ops = HASH_STRING_NOCASE) (key_string key) 0 0
            else ucast (key_int key))
      in hash AND HASH_MASK bits)"

definition keys_equal :: "key_ops \<Rightarrow> hkey \<Rightarrow> hkey \<Rightarrow> bool" where
  "keys_equal ops key1 key2 = (case ko_cmp ops of
     Some f \<Rightarrow> f key1 key2
   | None \<Rightarrow>
       if ko_type ops = HASH_STRING then key_string key1 = key_string key2
       else if ko_type ops = HASH_STRING_NOCASE then stri_eq (key_string key1) (key_string key2)
       else key_int key1 = key_int key2)"

subsection \<open>The table\<close>

type_synonym hash_entry_t = "hkey \<times> u64"

record hashtable_t =
  ht_table :: "hash_entry_t list list"
  ht_ops :: key_ops
  ht_str_dup :: bool
  ht_locked :: bool
  ht_bits :: nat
  ht_synch :: bool
  ht_free_payload :: bool
  ht_entries :: u32
  ht_resizable :: bool
  ht_threshold :: u32
  ht_free_key :: bool
  ht_freed :: "u64 list"
  ht_keys_freed :: "hkey list"

definition HASHTABLE_SIZE :: "nat \<Rightarrow> nat" where
  "HASHTABLE_SIZE num_bits = 2 ^ num_bits"

definition hashtable_init_ex ::
  "nat \<Rightarrow> key_ops \<Rightarrow> bool \<Rightarrow> bool \<Rightarrow> bool \<Rightarrow> hashtable_t option" where
  "hashtable_init_ex num_bits ops str_dup synch free_payload = do {
     ASSERT (num_bits < 32);
     ASSERT (\<not> str_dup \<or> ko_type ops = HASH_STRING \<or> ko_type ops = HASH_STRING_NOCASE);
     ASSERT (ko_type ops \<noteq> HASH_CUSTOM \<or> (ko_hash ops \<noteq> None \<and> ko_cmp ops \<noteq> None));
     Some \<lparr>ht_table = replicate (HASHTABLE_SIZE num_bits) [], ht_ops = ops, ht_str_dup = str_dup,
       ht_locked = False, ht_bits = num_bits, ht_synch = synch, ht_free_payload = free_payload,
       ht_entries = 0, ht_resizable = True, ht_threshold = 75, ht_free_key = False, ht_freed = [],
       ht_keys_freed = []\<rparr> }"

definition hashtable_init :: "nat \<Rightarrow> hash_type_t \<Rightarrow> bool \<Rightarrow> hashtable_t option" where
  "hashtable_init num_bits hashtype str_dup =
     hashtable_init_ex num_bits \<lparr>ko_type = hashtype, ko_hash = None, ko_cmp = None\<rparr> str_dup True False"

text \<open>The fields up to the size that the caller's version of the struct has: \<^verbatim>\<open>resizable\<close> lies at offset 8,
\<^verbatim>\<open>resize_threshold\<close> at 12, \<^verbatim>\<open>free_key_func\<close> at 16.\<close>

definition hashtable_configure :: "hashtable_t \<Rightarrow> nat \<Rightarrow> bool \<Rightarrow> u32 \<Rightarrow> bool \<Rightarrow> hashtable_t" where
  "hashtable_configure t sz resizable threshold free_key =
     (let t = (if sz > 8 then t\<lparr>ht_resizable := resizable\<rparr> else t);
          t = (if sz > 12 then t\<lparr>ht_threshold := threshold\<rparr> else t)
      in if sz > 16 then t\<lparr>ht_free_key := free_key\<rparr> else t)"

definition hashtable_lock :: "hashtable_t \<Rightarrow> hashtable_t option" where
  "hashtable_lock t = (if ht_locked t then None else Some (t\<lparr>ht_locked := True\<rparr>))"

definition hashtable_unlock :: "hashtable_t \<Rightarrow> hashtable_t option" where
  "hashtable_unlock t = (if ht_locked t then Some (t\<lparr>ht_locked := False\<rparr>) else None)"

definition begin_synch :: "hashtable_t \<Rightarrow> hashtable_t option" where
  "begin_synch t = (if ht_synch t then hashtable_lock t else Some t)"

definition end_synch :: "hashtable_t \<Rightarrow> hashtable_t option" where
  "end_synch t = (if ht_synch t then hashtable_unlock t else Some t)"

text \<open>The index of a key's chain; the shift of \<^verbatim>\<open>HASH_MASK\<close> needs at least one bit.\<close>

definition chain_index :: "hashtable_t \<Rightarrow> hkey \<Rightarrow> nat option" where
  "chain_index t key = do {
     ASSERT (0 < ht_bits t);
     let hindex = unat (hash_key (ht_ops t) (ht_bits t) key);
     ASSERT (hindex < length (ht_table t));
     Some hindex }"

definition hashtable_lookup :: "hashtable_t \<Rightarrow> hkey \<Rightarrow> (u64 \<times> hashtable_t) option" where
  "hashtable_lookup t key = do {
     t \<leftarrow> begin_synch t;
     hindex \<leftarrow> chain_index t key;
     let res = (case List.find (\<lambda>e. keys_equal (ht_ops t) (fst e) key) (ht_table t ! hindex) of
       Some e \<Rightarrow> snd e | None \<Rightarrow> 0);
     t \<leftarrow> end_synch t;
     Some (res, t) }"

definition push_entry :: "key_ops \<Rightarrow> nat \<Rightarrow> hash_entry_t \<Rightarrow> hash_entry_t list list \<Rightarrow> hash_entry_t list list" where
  "push_entry ops bits e table =
     (let hindex = unat (hash_key ops bits (fst e)) in table[hindex := e # table ! hindex])"

definition hashtable_check_for_resize :: "hashtable_t \<Rightarrow> (bool \<times> hashtable_t) option" where
  "hashtable_check_for_resize t =
     (let capacity = HASHTABLE_SIZE (ht_bits t) in
      if ht_resizable t \<and> unat (ht_entries t * 100) > unat (ht_threshold t) * capacity then
        do {
          let bits = ht_bits t + 1;
          ASSERT (bits < 32);
          let new_table = fold (push_entry (ht_ops t) bits) (concat (ht_table t))
            (replicate (HASHTABLE_SIZE bits) []);
          Some (True, t\<lparr>ht_bits := bits, ht_table := new_table\<rparr>)
        }
      else Some (False, t))"

definition add_head :: "hashtable_t \<Rightarrow> nat \<Rightarrow> hash_entry_t \<Rightarrow> hashtable_t option" where
  "add_head t hindex e = do {
     (b, t) \<leftarrow> hashtable_check_for_resize (t\<lparr>ht_table := (ht_table t)[hindex := e # ht_table t ! hindex],
       ht_entries := ht_entries t + 1\<rparr>);
     Some t }"

definition hashtable_add :: "hashtable_t \<Rightarrow> hkey \<Rightarrow> u64 \<Rightarrow> (bool \<times> hashtable_t) option" where
  "hashtable_add t key payload = do {
     ASSERT (payload \<noteq> 0);
     t \<leftarrow> begin_synch t;
     hindex \<leftarrow> chain_index t key;
     if \<exists>e \<in> set (ht_table t ! hindex). keys_equal (ht_ops t) (fst e) key
     then do { t \<leftarrow> end_synch t; Some (False, t) }
     else do {
       t \<leftarrow> add_head t hindex (key, payload);
       t \<leftarrow> end_synch t;
       Some (True, t) } }"

text \<open>A chain around its first entry that satisfies \<open>P\<close>.\<close>

fun split_chain :: "('a \<Rightarrow> bool) \<Rightarrow> 'a list \<Rightarrow> ('a list \<times> 'a \<times> 'a list) option" where
  "split_chain P [] = None"
| "split_chain P (e # es) = (if P e then Some ([], e, es)
     else map_option (\<lambda>(pre, x, post). (e # pre, x, post)) (split_chain P es))"

text \<open>The two ways to let go of a key: the copy is freed with the entry, the caller's key goes to its callback.\<close>

definition free_key :: "hkey \<Rightarrow> hashtable_t \<Rightarrow> hashtable_t" where
  "free_key key t = (if \<not> ht_str_dup t \<and> ht_free_key t
     then t\<lparr>ht_keys_freed := ht_keys_freed t @ [key]\<rparr> else t)"

definition free_payload :: "u64 \<Rightarrow> hashtable_t \<Rightarrow> hashtable_t" where
  "free_payload payload t = (if ht_free_payload t then t\<lparr>ht_freed := ht_freed t @ [payload]\<rparr> else t)"

definition hashtable_add_replace :: "hashtable_t \<Rightarrow> hkey \<Rightarrow> u64 \<Rightarrow> (u64 \<times> hashtable_t) option" where
  "hashtable_add_replace t key payload = do {
     ASSERT (payload \<noteq> 0);
     t \<leftarrow> begin_synch t;
     hindex \<leftarrow> chain_index t key;
     case split_chain (\<lambda>e. keys_equal (ht_ops t) (fst e) key) (ht_table t ! hindex) of
       Some (pre, e, post) \<Rightarrow> do {
         ASSERT (snd e \<noteq> 0);
         let t = free_key (fst e) (t\<lparr>ht_table := (ht_table t)[hindex := pre @ (key, payload) # post]\<rparr>);
         t \<leftarrow> end_synch t;
         Some (snd e, t) }
     | None \<Rightarrow> do {
         t \<leftarrow> add_head t hindex (key, payload);
         t \<leftarrow> end_synch t;
         Some (0, t) } }"

definition hashtable_remove :: "hashtable_t \<Rightarrow> hkey \<Rightarrow> (bool \<times> hashtable_t) option" where
  "hashtable_remove t key = do {
     t \<leftarrow> begin_synch t;
     hindex \<leftarrow> chain_index t key;
     case split_chain (\<lambda>e. keys_equal (ht_ops t) (fst e) key) (ht_table t ! hindex) of
       Some (pre, e, post) \<Rightarrow> do {
         let t = free_payload (snd e) (free_key (fst e) (t\<lparr>ht_table := (ht_table t)[hindex := pre @ post]\<rparr>));
         t \<leftarrow> end_synch (t\<lparr>ht_entries := ht_entries t - 1\<rparr>);
         Some (True, t) }
     | None \<Rightarrow> do { t \<leftarrow> end_synch t; Some (False, t) } }"

text \<open>For a table of integer keys: the keys in \<open>[start, end)\<close>.\<close>

definition drop_entry :: "hash_entry_t \<Rightarrow> hashtable_t \<Rightarrow> hashtable_t" where
  "drop_entry e t = (let t = free_payload (snd e) (free_key (fst e) t) in t\<lparr>ht_entries := ht_entries t - 1\<rparr>)"

definition hashtable_remove_range :: "hashtable_t \<Rightarrow> u64 \<Rightarrow> u64 \<Rightarrow> (bool \<times> hashtable_t) option" where
  "hashtable_remove_range t start end = do {
     t \<leftarrow> begin_synch t;
     let hit = (\<lambda>e. start \<le> key_int (fst e) \<and> key_int (fst e) < end);
     let gone = filter hit (concat (ht_table t));
     let t = fold drop_entry gone (t\<lparr>ht_table := map (filter (\<lambda>e. \<not> hit e)) (ht_table t)\<rparr>);
     t \<leftarrow> end_synch t;
     Some (gone \<noteq> [], t) }"

text \<open>The payloads that \<^verbatim>\<open>apply_func\<close> is called with, in order.\<close>

definition hashtable_apply_to_all_payloads :: "hashtable_t \<Rightarrow> u64 list" where
  "hashtable_apply_to_all_payloads t = map snd (concat (ht_table t))"

definition hashtable_clear_internal :: "hashtable_t \<Rightarrow> hashtable_t" where
  "hashtable_clear_internal t =
     (fold (\<lambda>e t. free_payload (snd e) (free_key (fst e) t)) (concat (ht_table t)) t)
       \<lparr>ht_table := map (\<lambda>_. []) (ht_table t), ht_entries := 0\<rparr>"

definition hashtable_clear :: "hashtable_t \<Rightarrow> hashtable_t option" where
  "hashtable_clear t = do { t \<leftarrow> begin_synch t; end_synch (hashtable_clear_internal t) }"

definition hashtable_delete :: "hashtable_t \<Rightarrow> hashtable_t option" where
  "hashtable_delete t = do {
     t \<leftarrow> begin_synch t;
     end_synch ((hashtable_clear_internal t)\<lparr>ht_table := [], ht_entries := 0\<rparr>) }"

subsection \<open>Well-formed tables\<close>

text \<open>
  Two keys are the same key of the table when their canonical forms agree. The entries of a table, with their
  keys in canonical form, are the association list of the map that the table stands for.
\<close>

fun canon_key :: "hash_type_t \<Rightarrow> hkey \<Rightarrow> hkey" where
  "canon_key HASH_STRING k = KStr (key_string k)"
| "canon_key HASH_STRING_NOCASE k = KStr (map lower (key_string k))"
| "canon_key _ k = KInt (key_int k)"

definition assocs :: "(hkey \<Rightarrow> hkey) \<Rightarrow> hash_entry_t list \<Rightarrow> hash_entry_t list" where
  "assocs canon es = map (\<lambda>e. (canon (fst e), snd e)) es"

definition ht_content :: "hashtable_t \<Rightarrow> hash_entry_t list" where
  "ht_content t = concat (ht_table t)"

definition ht_map :: "(hkey \<Rightarrow> hkey) \<Rightarrow> hashtable_t \<Rightarrow> hkey \<rightharpoonup> u64" where
  "ht_map canon t = map_of (assocs canon (ht_content t))"

definition placed :: "key_ops \<Rightarrow> nat \<Rightarrow> hash_entry_t list list \<Rightarrow> bool" where
  "placed ops bits table \<longleftrightarrow> length table = 2 ^ bits \<and>
     (\<forall>i < length table. \<forall>e \<in> set (table ! i). unat (hash_key ops bits (fst e)) = i)"

definition ht_good :: "(hkey \<Rightarrow> hkey) \<Rightarrow> hashtable_t \<Rightarrow> bool" where
  "ht_good canon t \<longleftrightarrow> 0 < ht_bits t \<and> ht_bits t < 32 \<and> placed (ht_ops t) (ht_bits t) (ht_table t) \<and>
     distinct (map fst (assocs canon (ht_content t))) \<and> unat (ht_entries t) = length (ht_content t) \<and>
     (\<forall>e \<in> set (ht_content t). snd e \<noteq> 0)"

definition ht_inv :: "(hkey \<Rightarrow> hkey) \<Rightarrow> hashtable_t \<Rightarrow> bool" where
  "ht_inv canon t \<longleftrightarrow> ht_good canon t \<and> \<not> ht_locked t"

text \<open>The configuration, which no operation on entries changes.\<close>

definition same_config :: "hashtable_t \<Rightarrow> hashtable_t \<Rightarrow> bool" where
  "same_config t t' \<longleftrightarrow> ht_ops t' = ht_ops t \<and> ht_synch t' = ht_synch t \<and> ht_threshold t' = ht_threshold t"

lemma same_config_trans: "same_config t u \<Longrightarrow> same_config u v \<Longrightarrow> same_config t v"
  by (simp add: same_config_def)

lemma HASH_MASK_eq: "n \<le> 32 \<Longrightarrow> HASH_MASK n = mask n"
  by (rule bit_word_eqI) (auto simp: HASH_MASK_def shr_def bit_simps)

lemma hash_key_bound:
  assumes "n < 32"
  shows "unat (hash_key ops n key) < 2 ^ n"
proof -
  have "unat (w AND HASH_MASK n) < 2 ^ n" for w :: u32
    using assms by (simp add: HASH_MASK_eq flip: take_bit_eq_mask) (simp add: unsigned_take_bit_eq)
  then show ?thesis by (simp add: hash_key_def Let_def)
qed

lemma chain_index_eq:
  "ht_good canon t \<Longrightarrow> chain_index t key = Some (unat (hash_key (ht_ops t) (ht_bits t) key))"
  using hash_key_bound [of "ht_bits t" "ht_ops t" key]
  by (simp add: chain_index_def ht_good_def placed_def)

lemma begin_synch_eq: "\<not> ht_locked t \<Longrightarrow> begin_synch t = Some (t\<lparr>ht_locked := ht_synch t\<rparr>)"
  by (auto simp: begin_synch_def hashtable_lock_def)

lemma end_synch_eq: "ht_locked t = ht_synch t \<Longrightarrow> end_synch t = Some (t\<lparr>ht_locked := False\<rparr>)"
  by (auto simp: end_synch_def hashtable_unlock_def)

lemma ht_content_lock [simp]: "ht_content (t\<lparr>ht_locked := b\<rparr>) = ht_content t"
  by (simp add: ht_content_def)

lemma ht_map_lock [simp]: "ht_map canon (t\<lparr>ht_locked := b\<rparr>) = ht_map canon t"
  by (simp add: ht_map_def)

lemma ht_good_lock [simp]: "ht_good canon (t\<lparr>ht_locked := b\<rparr>) = ht_good canon t"
  by (simp add: ht_good_def)

lemma unlock_inv: "ht_inv canon t \<Longrightarrow> t\<lparr>ht_locked := False\<rparr> = t"
  by (simp add: ht_inv_def)

text \<open>Letting go of keys and payloads changes nothing but the lists of what was freed.\<close>

lemma free_key_fields [simp]:
  "ht_table (free_key k t) = ht_table t" "ht_ops (free_key k t) = ht_ops t" "ht_bits (free_key k t) = ht_bits t"
  "ht_entries (free_key k t) = ht_entries t" "ht_locked (free_key k t) = ht_locked t"
  "ht_synch (free_key k t) = ht_synch t" "ht_threshold (free_key k t) = ht_threshold t"
  by (simp_all add: free_key_def)

lemma free_payload_fields [simp]:
  "ht_table (free_payload p t) = ht_table t" "ht_ops (free_payload p t) = ht_ops t"
  "ht_bits (free_payload p t) = ht_bits t" "ht_entries (free_payload p t) = ht_entries t"
  "ht_locked (free_payload p t) = ht_locked t" "ht_synch (free_payload p t) = ht_synch t"
  "ht_threshold (free_payload p t) = ht_threshold t"
  by (simp_all add: free_payload_def)

lemma fold_free_fields [simp]:
  fixes es :: "hash_entry_t list"
  defines "free \<equiv> fold (\<lambda>e t. free_payload (snd e) (free_key (fst e) t)) es"
  shows "ht_ops (free t) = ht_ops t" "ht_bits (free t) = ht_bits t" "ht_locked (free t) = ht_locked t"
    "ht_synch (free t) = ht_synch t" "ht_threshold (free t) = ht_threshold t"
  unfolding free_def by (induction es arbitrary: t) simp_all

lemma nonzero_if_Suc: "unat (w :: u32) = Suc n \<Longrightarrow> w \<noteq> 0"
  by auto

subsection \<open>Lists of entries as maps\<close>

lemma assocs_simps [simp]:
  "assocs canon [] = []" "assocs canon (e # es) = (canon (fst e), snd e) # assocs canon es"
  "assocs canon (xs @ ys) = assocs canon xs @ assocs canon ys"
  by (simp_all add: assocs_def)

lemma assocs_mset:
  assumes "mset es = mset es'" "distinct (map fst (assocs canon es))"
  shows "distinct (map fst (assocs canon es'))" "map_of (assocs canon es') = map_of (assocs canon es)"
proof -
  have "mset (map fst (assocs canon es')) = mset (map fst (assocs canon es))"
    unfolding assocs_def mset_map using assms(1) by simp
  then show d: "distinct (map fst (assocs canon es'))"
    using assms(2) mset_eq_imp_distinct_iff by blast
  have "set (assocs canon es') = set (assocs canon es)"
    using mset_eq_setD [OF assms(1)] by (simp add: assocs_def)
  then show "map_of (assocs canon es') = map_of (assocs canon es)"
    using d assms(2) map_of_inject_set by blast
qed

lemma concat_update:
  "i < length table \<Longrightarrow>
   mset (concat (table[i := xs])) + mset (table ! i) = mset (concat table) + mset xs"
  by (induction table arbitrary: i) (auto split: nat.split simp: ac_simps)

lemma chain_subset: "i < length table \<Longrightarrow> e \<in> set (table ! i) \<Longrightarrow> e \<in> set (concat table)"
  using nth_mem [of i table] by (simp only: set_concat) blast

text \<open>An entry of the table lies in the chain of its key.\<close>

lemma placed_chain:
  assumes "placed ops bits table" "e \<in> set (concat table)"
  shows "e \<in> set (table ! unat (hash_key ops bits (fst e)))"
  using assms by (auto simp: placed_def in_set_conv_nth [of _ table])

lemma placed_update:
  assumes "placed ops bits table" "\<forall>e \<in> set xs. unat (hash_key ops bits (fst e)) = i"
  shows "placed ops bits (table[i := xs])"
  unfolding placed_def
proof (intro conjI allI impI ballI)
  show "length (table[i := xs]) = 2 ^ bits" using assms(1) by (simp add: placed_def)
  fix j e assume j: "j < length (table[i := xs])" and e: "e \<in> set (table[i := xs] ! j)"
  show "unat (hash_key ops bits (fst e)) = j"
  proof (cases "j = i")
    case True
    then show ?thesis using assms(2) j e by simp
  next
    case False
    then show ?thesis using assms(1) j e by (simp add: placed_def)
  qed
qed

lemma fold_push:
  assumes "bits < 32" "placed ops bits table"
  shows "placed ops bits (fold (push_entry ops bits) es table) \<and>
    mset (concat (fold (push_entry ops bits) es table)) = mset es + mset (concat table)"
  using assms(2)
proof (induction es arbitrary: table)
  case (Cons e es)
  let ?i = "unat (hash_key ops bits (fst e))"
  let ?t = "table[?i := e # table ! ?i]"
  have i: "?i < length table" using Cons.prems hash_key_bound [OF assms(1)] by (simp add: placed_def)
  have p: "placed ops bits ?t"
    using Cons.prems i by (intro placed_update) (auto simp: placed_def)
  have "mset (concat ?t) = add_mset e (mset (concat table))"
    using concat_update [OF i, of "e # table ! ?i"] by simp
  then show ?case using Cons.IH [OF p] by (simp add: push_entry_def Let_def)
qed simp

lemma placed_empty: "placed ops bits (replicate (2 ^ bits) [])"
  by (simp add: placed_def)

lemma concat_replicate_Nil [simp]: "concat (replicate n []) = []"
  by (induction n) simp_all

text \<open>A table with the entries of a well-formed one, in any order, is well-formed and has the same map.\<close>

lemma ht_goodI:
  assumes "mset (ht_content t) = mset es" "distinct (map fst (assocs canon es))"
    and "unat (ht_entries t) = length es" "\<forall>e \<in> set es. snd e \<noteq> 0"
    and "0 < ht_bits t" "ht_bits t < 32" "placed (ht_ops t) (ht_bits t) (ht_table t)"
  shows "ht_good canon t" "ht_map canon t = map_of (assocs canon es)"
proof -
  note d = assocs_mset [OF assms(1) [symmetric] assms(2)]
  have "length (ht_content t) = length es" "set (ht_content t) = set es"
    using assms(1) mset_eq_length mset_eq_setD by blast+
  then show "ht_good canon t" using assms d(1) by (simp add: ht_good_def)
  show "ht_map canon t = map_of (assocs canon es)" using d(2) by (simp add: ht_map_def)
qed

lemma check_for_resize_ok:
  assumes good: "ht_good canon t" and bits: "ht_bits t < 31"
  obtains b t' where "hashtable_check_for_resize t = Some (b, t')" "ht_good canon t'"
    "ht_map canon t' = ht_map canon t" "same_config t t'" "ht_locked t' = ht_locked t"
    "ht_entries t' = ht_entries t"
    "ht_bits t' = ht_bits t \<or> (ht_bits t' = ht_bits t + 1 \<and>
       unat (ht_threshold t) * 2 ^ ht_bits t < unat (ht_entries t * 100))"
proof (cases "ht_resizable t \<and> unat (ht_threshold t) * 2 ^ ht_bits t < unat (ht_entries t * 100)")
  case True
  define bits' tab where "bits' = ht_bits t + 1"
    and "tab = fold (push_entry (ht_ops t) bits') (ht_content t) (replicate (2 ^ bits') [])"
  let ?t = "t\<lparr>ht_bits := bits', ht_table := tab\<rparr>"
  have b: "0 < bits'" "bits' < 32" using bits by (simp_all add: bits'_def)
  have f: "placed (ht_ops t) bits' tab" "mset (concat tab) = mset (ht_content t)"
    using fold_push [OF b(2) placed_empty, of "ht_ops t" "ht_content t"] by (simp_all add: tab_def)
  have c: "mset (ht_content ?t) = mset (ht_content t)" using f(2) by (simp add: ht_content_def)
  note g = ht_goodI [OF c, of canon]
  have "ht_good canon ?t" "ht_map canon ?t = ht_map canon t"
    using good b f(1) g unfolding ht_map_def [of _ t] ht_good_def [of _ t] by simp_all
  moreover have "hashtable_check_for_resize t = Some (True, ?t)"
    using True bits
    by (simp add: hashtable_check_for_resize_def HASHTABLE_SIZE_def tab_def bits'_def ht_content_def)
  ultimately show thesis using that True by (simp add: same_config_def bits'_def)
next
  case False
  then have "hashtable_check_for_resize t = Some (False, t)"
    by (simp add: hashtable_check_for_resize_def HASHTABLE_SIZE_def)
  then show thesis by (rule that) (use good in \<open>simp_all add: same_config_def\<close>)
qed

lemma split_chain_Some:
  "split_chain P xs = Some (pre, e, post) \<Longrightarrow> xs = pre @ e # post \<and> P e"
  by (induction xs arbitrary: pre) (auto split: if_splits)

lemma split_chain_None: "split_chain P xs = None \<longleftrightarrow> (\<forall>e \<in> set xs. \<not> P e)"
  by (induction xs) auto

lemma find_split_chain: "List.find P xs = map_option (\<lambda>(pre, e, post). e) (split_chain P xs)"
  by (induction xs) (auto simp: option.map_comp comp_def split_def)

lemma bex_split_chain: "(\<exists>e \<in> set xs. P e) \<longleftrightarrow> split_chain P xs \<noteq> None"
  by (auto simp: split_chain_None)

text \<open>
  Room for \<open>n\<close> more entries: below \<open>2 ^ 28\<close> entries a table that is at least half full when it grows stays below
  \<open>2 ^ 30\<close> chains.
\<close>

definition ht_room :: "nat \<Rightarrow> hashtable_t \<Rightarrow> bool" where
  "ht_room n t \<longleftrightarrow> 50 \<le> unat (ht_threshold t) \<and> ht_bits t < 31 \<and> unat (ht_entries t) + n \<le> 2 ^ 28"

lemma ht_room_grow:
  assumes room: "ht_room (Suc n) t" and th: "ht_threshold t' = ht_threshold t"
    and e: "unat (ht_entries t') = Suc (unat (ht_entries t))"
    and bits: "ht_bits t' = ht_bits t \<or> (ht_bits t' = ht_bits t + 1 \<and>
      unat (ht_threshold t) * 2 ^ ht_bits t < unat (ht_entries t' * 100))"
  shows "ht_room n t'"
proof -
  have "ht_bits t' < 31"
  proof (cases "ht_bits t' = ht_bits t")
    case False
    have "50 * 2 ^ ht_bits t \<le> unat (ht_threshold t) * 2 ^ ht_bits t"
      using room by (intro mult_le_mono1) (simp add: ht_room_def)
    also have "\<dots> < unat (ht_entries t' * 100)" using bits False by simp
    also have "\<dots> \<le> unat (ht_entries t') * 100" by (simp add: unat_word_ariths)
    also have "\<dots> \<le> 2 ^ 28 * 100" using room e by (simp add: ht_room_def)
    finally have "(2::nat) ^ ht_bits t < 2 ^ 29" by simp
    then have "ht_bits t < 29" by (simp only: power_strict_increasing_iff)
    then show ?thesis using bits by auto
  qed (use room in \<open>simp add: ht_room_def\<close>)
  then show ?thesis using room th e by (simp add: ht_room_def)
qed

subsection \<open>Sequences of calls, on the table and on a map\<close>

datatype ht_call = Add hkey u64 | Add_Replace hkey u64 | Remove hkey | Lookup hkey | Clear

datatype ht_result = RBool bool | RPtr u64 | RVoid

definition payload_or_null :: "u64 option \<Rightarrow> u64" where
  "payload_or_null v = (case v of Some p \<Rightarrow> p | None \<Rightarrow> 0)"

fun call_payload :: "ht_call \<Rightarrow> u64 option" where
  "call_payload (Add _ p) = Some p" | "call_payload (Add_Replace _ p) = Some p" | "call_payload _ = None"

fun ht_step :: "ht_call \<Rightarrow> hashtable_t \<Rightarrow> (ht_result \<times> hashtable_t) option" where
  "ht_step (Add k p) t = map_option (\<lambda>(b, t). (RBool b, t)) (hashtable_add t k p)"
| "ht_step (Add_Replace k p) t = map_option (\<lambda>(v, t). (RPtr v, t)) (hashtable_add_replace t k p)"
| "ht_step (Remove k) t = map_option (\<lambda>(b, t). (RBool b, t)) (hashtable_remove t k)"
| "ht_step (Lookup k) t = map_option (\<lambda>(v, t). (RPtr v, t)) (hashtable_lookup t k)"
| "ht_step Clear t = map_option (\<lambda>t. (RVoid, t)) (hashtable_clear t)"

fun ht_run :: "ht_call list \<Rightarrow> hashtable_t \<Rightarrow> (ht_result list \<times> hashtable_t) option" where
  "ht_run [] t = Some ([], t)"
| "ht_run (c # cs) t = do { (r, t) \<leftarrow> ht_step c t; (rs, t) \<leftarrow> ht_run cs t; Some (r # rs, t) }"

text \<open>The same calls on a map from canonical keys to payloads: the specification.\<close>

fun map_step :: "(hkey \<Rightarrow> hkey) \<Rightarrow> ht_call \<Rightarrow> (hkey \<rightharpoonup> u64) \<Rightarrow> ht_result \<times> (hkey \<rightharpoonup> u64)" where
  "map_step canon (Add k p) m =
     (RBool (m (canon k) = None), if m (canon k) = None then m(canon k \<mapsto> p) else m)"
| "map_step canon (Add_Replace k p) m = (RPtr (payload_or_null (m (canon k))), m(canon k \<mapsto> p))"
| "map_step canon (Remove k) m = (RBool (m (canon k) \<noteq> None), m(canon k := None))"
| "map_step canon (Lookup k) m = (RPtr (payload_or_null (m (canon k))), m)"
| "map_step canon Clear m = (RVoid, Map.empty)"

fun map_run :: "(hkey \<Rightarrow> hkey) \<Rightarrow> ht_call list \<Rightarrow> (hkey \<rightharpoonup> u64) \<Rightarrow> ht_result list \<times> (hkey \<rightharpoonup> u64)" where
  "map_run canon [] m = ([], m)"
| "map_run canon (c # cs) m =
     (let (r, m) = map_step canon c m; (rs, m) = map_run canon cs m in (r # rs, m))"

subsection \<open>The operations on a map\<close>

text \<open>What the operations rely on of the hash function and the comparison: they respect a canonical form of the keys.\<close>

locale key_laws =
  fixes ops :: key_ops and canon :: "hkey \<Rightarrow> hkey"
  assumes eq_canon: "keys_equal ops a b \<longleftrightarrow> canon a = canon b"
    and hash_canon: "canon a = canon b \<Longrightarrow> hash_key ops n a = hash_key ops n b"
begin

text \<open>The chain of a key decides about the whole table.\<close>

lemma chain_None:
  assumes "ht_good canon t" "ht_ops t = ops"
  shows "split_chain (\<lambda>e. keys_equal ops (fst e) key) (ht_table t ! unat (hash_key ops (ht_bits t) key)) = None \<longleftrightarrow>
    ht_map canon t (canon key) = None"
proof -
  let ?i = "unat (hash_key ops (ht_bits t) key)"
  have p: "placed ops (ht_bits t) (ht_table t)" "?i < length (ht_table t)"
    using assms hash_key_bound [of "ht_bits t" ops key] by (auto simp: ht_good_def placed_def)
  have "e \<in> set (ht_table t ! ?i)" if "e \<in> set (ht_content t)" "canon (fst e) = canon key" for e
    using placed_chain [OF p(1), of e] that hash_canon [OF that(2), of "ht_bits t"]
    by (simp add: ht_content_def)
  moreover have "e \<in> set (ht_content t)" if "e \<in> set (ht_table t ! ?i)" for e
    using chain_subset [OF p(2) that] by (simp add: ht_content_def)
  ultimately show ?thesis
    by (force simp: split_chain_None eq_canon ht_map_def map_of_eq_None_iff assocs_def)
qed

lemma chain_Some:
  assumes "ht_good canon t" "ht_ops t = ops"
    and "split_chain (\<lambda>e. keys_equal ops (fst e) key) (ht_table t ! unat (hash_key ops (ht_bits t) key)) = Some (pre, e, post)"
  shows "ht_map canon t (canon key) = Some (snd e)" "canon (fst e) = canon key"
proof -
  have "unat (hash_key ops (ht_bits t) key) < length (ht_table t)"
    using assms hash_key_bound [of "ht_bits t" ops key] by (auto simp: ht_good_def placed_def)
  with split_chain_Some [OF assms(3)] have "e \<in> set (ht_content t)" "keys_equal ops (fst e) key"
    using chain_subset [of _ "ht_table t" e] by (simp_all add: ht_content_def)
  then have "(canon key, snd e) \<in> set (assocs canon (ht_content t))" and c: "canon (fst e) = canon key"
    by (force simp: eq_canon assocs_def)+
  then show "ht_map canon t (canon key) = Some (snd e)" "canon (fst e) = canon key"
    using assms(1) by (simp_all add: ht_map_def ht_good_def)
qed

text \<open>Exchanging the chain of a key for a list of entries of the same chain.\<close>

lemma exchange_chain:
  assumes "ht_good canon t" "ht_ops t = ops" and i: "i = unat (hash_key ops (ht_bits t) key)"
    and "\<forall>e \<in> set xs. e \<in> set (ht_table t ! i) \<or> canon (fst e) = canon key"
  shows "placed ops (ht_bits t) ((ht_table t)[i := xs])"
    "mset (concat ((ht_table t)[i := xs])) + mset (ht_table t ! i) = mset (ht_content t) + mset xs"
proof -
  have p: "placed ops (ht_bits t) (ht_table t)" "i < length (ht_table t)"
    using assms hash_key_bound [of "ht_bits t" ops key] by (auto simp: ht_good_def placed_def)
  have "unat (hash_key ops (ht_bits t) (fst e)) = i" if "e \<in> set xs" for e
  proof (cases "e \<in> set (ht_table t ! i)")
    case True
    then show ?thesis using p by (simp add: placed_def)
  next
    case False
    then have "canon (fst e) = canon key" using assms(4) that by blast
    then show ?thesis using hash_canon [of "fst e" key "ht_bits t"] i by simp
  qed
  then show "placed ops (ht_bits t) ((ht_table t)[i := xs])" using placed_update [OF p(1)] by blast
  show "mset (concat ((ht_table t)[i := xs])) + mset (ht_table t ! i) = mset (ht_content t) + mset xs"
    using concat_update [OF p(2)] by (simp add: ht_content_def)
qed

text \<open>The well-formed table without an entry, and what it says of its map.\<close>

lemma remove_entry:
  assumes "ht_good canon t" "mset (ht_content t) = add_mset e (mset es)"
  shows "distinct (map fst (assocs canon es))" "canon (fst e) \<notin> set (map fst (assocs canon es))"
    "map_of (assocs canon es) = (ht_map canon t)(canon (fst e) := None)"
    "unat (ht_entries t) = Suc (length es)" "\<forall>x \<in> set es. snd x \<noteq> 0"
proof -
  have m: "mset (ht_content t) = mset (e # es)" using assms(2) by simp
  have d: "distinct (map fst (assocs canon (e # es)))" "ht_map canon t = map_of (assocs canon (e # es))"
    using assocs_mset [OF m, of canon] assms(1) by (simp_all add: ht_good_def ht_map_def)
  then show "distinct (map fst (assocs canon es))" and n: "canon (fst e) \<notin> set (map fst (assocs canon es))"
    by simp_all
  then show "map_of (assocs canon es) = (ht_map canon t)(canon (fst e) := None)"
    using d(2) by (auto simp: fun_eq_iff map_of_eq_None_iff)
  show "unat (ht_entries t) = Suc (length es)" "\<forall>x \<in> set es. snd x \<noteq> 0"
    using assms(1) mset_eq_length [OF m] mset_eq_setD [OF m] by (auto simp: ht_good_def)
qed

lemma add_head_ok:
  assumes good: "ht_good canon t" and ops: "ht_ops t = ops" and new: "ht_map canon t (canon key) = None"
    and p: "p \<noteq> 0" and room: "ht_room (Suc n) t"
  obtains t' where "add_head t (unat (hash_key ops (ht_bits t) key)) (key, p) = Some t'"
    "ht_good canon t'" "ht_map canon t' = (ht_map canon t)(canon key \<mapsto> p)" "same_config t t'"
    "ht_locked t' = ht_locked t" "ht_room n t'"
proof -
  let ?i = "unat (hash_key ops (ht_bits t) key)"
  let ?u = "t\<lparr>ht_table := (ht_table t)[?i := (key, p) # ht_table t ! ?i], ht_entries := ht_entries t + 1\<rparr>"
  note x = exchange_chain [OF good ops refl, of "(key, p) # ht_table t ! ?i" key]
  have m: "mset (ht_content ?u) = mset ((key, p) # ht_content t)"
    using x(2) by (simp add: ht_content_def [of ?u])
  have "unat (ht_entries t) < 2 ^ 28" using room by (simp add: ht_room_def)
  then have e: "unat (ht_entries ?u) = Suc (unat (ht_entries t))"
    by (simp add: unat_word_ariths(1))
  have "canon key \<notin> set (map fst (assocs canon (ht_content t)))"
    using new by (simp add: ht_map_def map_of_eq_None_iff)
  then have u: "ht_good canon ?u" "ht_map canon ?u = (ht_map canon t)(canon key \<mapsto> p)"
    using ht_goodI [OF m, of canon] good p e x(1) ops
    unfolding ht_map_def [of _ t] ht_good_def [of _ t] by simp_all
  have b: "ht_bits ?u < 31" using room by (simp add: ht_room_def)
  obtain b t' where r: "hashtable_check_for_resize ?u = Some (b, t')" "ht_good canon t'"
    "ht_map canon t' = ht_map canon ?u" "same_config ?u t'" "ht_locked t' = ht_locked ?u"
    "ht_entries t' = ht_entries ?u"
    "ht_bits t' = ht_bits ?u \<or> (ht_bits t' = ht_bits ?u + 1 \<and>
       unat (ht_threshold ?u) * 2 ^ ht_bits ?u < unat (ht_entries ?u * 100))"
    using check_for_resize_ok [OF u(1) b] by blast
  show thesis
  proof (rule that)
    show "add_head t ?i (key, p) = Some t'" using r(1) by (simp add: add_head_def)
    show "ht_map canon t' = (ht_map canon t)(canon key \<mapsto> p)" using r(3) u(2) by simp
    show "same_config t t'" using r(4) by (simp add: same_config_def)
    show "ht_room n t'" using ht_room_grow [OF room] r(4,6,7) e by (simp add: same_config_def)
  qed (use r in simp_all)
qed

subsection \<open>What the operations return and keep\<close>

lemma lookup_ok:
  assumes inv: "ht_inv canon t" and ops: "ht_ops t = ops"
  shows "hashtable_lookup t key = Some (payload_or_null (ht_map canon t (canon key)), t)"
proof -
  let ?t = "t\<lparr>ht_locked := ht_synch t\<rparr>"
  let ?s = "split_chain (\<lambda>e. keys_equal ops (fst e) key) (ht_table t ! unat (hash_key ops (ht_bits t) key))"
  have good: "ht_good canon t" "\<not> ht_locked t" using inv by (simp_all add: ht_inv_def)
  have "payload_or_null (map_option (\<lambda>(pre, e, post). snd e) ?s) = payload_or_null (ht_map canon t (canon key))"
    using chain_None [OF good(1) ops, of key] chain_Some(1) [OF good(1) ops, of key]
    by (cases ?s) auto
  then show ?thesis
    using good ops chain_index_eq [OF good(1)] chain_index_eq [of canon ?t] unlock_inv [OF inv]
    by (cases ?s) (auto simp: hashtable_lookup_def begin_synch_eq end_synch_eq find_split_chain payload_or_null_def)
qed

lemma add_ok:
  assumes inv: "ht_inv canon t" and ops: "ht_ops t = ops" and p: "p \<noteq> 0" and room: "ht_room (Suc n) t"
  obtains t' where "hashtable_add t key p = Some (ht_map canon t (canon key) = None, t')"
    "ht_inv canon t'" "same_config t t'" "ht_room n t'"
    "ht_map canon t' = (if ht_map canon t (canon key) = None then (ht_map canon t)(canon key \<mapsto> p) else ht_map canon t)"
proof -
  let ?t = "t\<lparr>ht_locked := ht_synch t\<rparr>"
  have good: "ht_good canon t" "\<not> ht_locked t" "ht_good canon ?t" using inv by (simp_all add: ht_inv_def)
  have c: "(\<exists>e \<in> set (ht_table t ! unat (hash_key ops (ht_bits t) key)). keys_equal ops (fst e) key) \<longleftrightarrow>
      ht_map canon t (canon key) \<noteq> None"
    using chain_None [OF good(1) ops, of key] by (simp only: bex_split_chain)
  show thesis
  proof (cases "ht_map canon t (canon key)")
    case None
    obtain u where u: "add_head ?t (unat (hash_key ops (ht_bits t) key)) (key, p) = Some u"
      "ht_good canon u" "ht_map canon u = (ht_map canon t)(canon key \<mapsto> p)" "same_config ?t u"
      "ht_locked u = ht_synch t" "ht_room n u"
      using add_head_ok [OF good(3), of key p n] ops None p room by (auto simp: ht_room_def)
    show thesis
      by (rule that [of "u\<lparr>ht_locked := False\<rparr>"])
        (use u None c p good ops chain_index_eq [OF good(3)] in
          \<open>simp_all add: hashtable_add_def begin_synch_eq end_synch_eq same_config_def
             ht_inv_def ht_room_def\<close>)
  next
    case (Some v)
    show thesis
      by (rule that [of t])
        (use Some c p good ops chain_index_eq [OF good(3)] unlock_inv [OF inv] room inv in
          \<open>simp_all add: hashtable_add_def begin_synch_eq end_synch_eq same_config_def ht_room_def\<close>)
  qed
qed

lemma chain_without:
  assumes good: "ht_good canon t" and ops: "ht_ops t = ops" and i: "i = unat (hash_key ops (ht_bits t) key)"
    and s: "split_chain (\<lambda>e. keys_equal ops (fst e) key) (ht_table t ! i) = Some (pre, e, post)"
  shows "placed ops (ht_bits t) ((ht_table t)[i := pre @ post])"
    "mset (ht_content t) = add_mset e (mset (concat ((ht_table t)[i := pre @ post])))"
proof -
  have "ht_table t ! i = pre @ e # post" using split_chain_Some [OF s] by blast
  then show "placed ops (ht_bits t) ((ht_table t)[i := pre @ post])"
    "mset (ht_content t) = add_mset e (mset (concat ((ht_table t)[i := pre @ post])))"
    using exchange_chain [OF good ops i, of "pre @ post"] by auto
qed

lemma remove_ok:
  assumes inv: "ht_inv canon t" and ops: "ht_ops t = ops" and room: "ht_room n t"
  obtains t' where "hashtable_remove t key = Some (ht_map canon t (canon key) \<noteq> None, t')"
    "ht_inv canon t'" "same_config t t'" "ht_room n t'" "ht_map canon t' = (ht_map canon t)(canon key := None)"
proof -
  let ?i = "unat (hash_key ops (ht_bits t) key)"
  let ?t = "t\<lparr>ht_locked := ht_synch t\<rparr>"
  let ?s = "split_chain (\<lambda>e. keys_equal ops (fst e) key) (ht_table t ! ?i)"
  have good: "ht_good canon t" "\<not> ht_locked t" "ht_good canon ?t" using inv by (simp_all add: ht_inv_def)
  show thesis
  proof (cases ?s)
    case None
    moreover have "ht_map canon t (canon key) = None" using chain_None [OF good(1) ops] None by blast
    ultimately show thesis
      by (intro that [of t])
        (use good ops chain_index_eq [OF good(3)] unlock_inv [OF inv] room inv in
          \<open>simp_all add: hashtable_remove_def begin_synch_eq end_synch_eq same_config_def fun_upd_idem\<close>)
  next
    case (Some x)
    then obtain pre e post where s: "?s = Some (pre, e, post)" by (cases x) auto
    note c = chain_Some [OF good(1) ops s]
    note w = chain_without [OF good(1) ops refl s]
    note r = remove_entry [OF good(1) w(2)]
    let ?u = "free_payload (snd e) (free_key (fst e) (?t\<lparr>ht_table := (ht_table t)[?i := pre @ post]\<rparr>))"
    let ?v = "?u\<lparr>ht_entries := ht_entries ?u - 1, ht_locked := False\<rparr>"
    have m: "mset (ht_content ?v) = mset (concat ((ht_table t)[?i := pre @ post]))"
      by (simp add: ht_content_def)
    have e: "unat (ht_entries ?v) = length (concat ((ht_table t)[?i := pre @ post]))"
      using r(4) by (simp add: unat_minus_one [OF nonzero_if_Suc [OF r(4)]])
    have v: "ht_good canon ?v" "ht_map canon ?v = (ht_map canon t)(canon key := None)"
      using ht_goodI [OF m r(1) e r(5)] w(1) good(1) ops r(3) c(2) by (simp_all add: ht_good_def)
    show thesis
      by (rule that [of ?v])
        (use s v c(1) e r(4) good ops chain_index_eq [OF good(3)] room in
          \<open>simp_all add: hashtable_remove_def begin_synch_eq end_synch_eq same_config_def ht_inv_def ht_room_def\<close>)
  qed
qed

lemma add_replace_ok:
  assumes inv: "ht_inv canon t" and ops: "ht_ops t = ops" and p: "p \<noteq> 0" and room: "ht_room (Suc n) t"
  obtains t' where "hashtable_add_replace t key p = Some (payload_or_null (ht_map canon t (canon key)), t')"
    "ht_inv canon t'" "same_config t t'" "ht_room n t'" "ht_map canon t' = (ht_map canon t)(canon key \<mapsto> p)"
proof -
  let ?i = "unat (hash_key ops (ht_bits t) key)"
  let ?t = "t\<lparr>ht_locked := ht_synch t\<rparr>"
  let ?s = "split_chain (\<lambda>e. keys_equal ops (fst e) key) (ht_table t ! ?i)"
  have good: "ht_good canon t" "\<not> ht_locked t" "ht_good canon ?t" using inv by (simp_all add: ht_inv_def)
  show thesis
  proof (cases ?s)
    case None
    then have n: "ht_map canon t (canon key) = None" using chain_None [OF good(1) ops] by blast
    obtain u where u: "add_head ?t ?i (key, p) = Some u"
      "ht_good canon u" "ht_map canon u = (ht_map canon t)(canon key \<mapsto> p)" "same_config ?t u"
      "ht_locked u = ht_synch t" "ht_room n u"
      using add_head_ok [OF good(3), of key p n] ops n p room by (auto simp: ht_room_def)
    show thesis
      by (rule that [of "u\<lparr>ht_locked := False\<rparr>"])
        (use u n None p good ops chain_index_eq [OF good(3)] in
          \<open>simp_all add: hashtable_add_replace_def begin_synch_eq end_synch_eq same_config_def
             ht_inv_def ht_room_def payload_or_null_def\<close>)
  next
    case (Some x)
    then obtain pre e post where s: "?s = Some (pre, e, post)" by (cases x) auto
    note c = chain_Some [OF good(1) ops s]
    note w = chain_without [OF good(1) ops refl s]
    note r = remove_entry [OF good(1) w(2)]
    have xs: "ht_table t ! ?i = pre @ e # post" using split_chain_Some [OF s] by blast
    let ?tab = "(ht_table t)[?i := pre @ (key, p) # post]"
    let ?rest = "concat ((ht_table t)[?i := pre @ post])"
    let ?v = "(free_key (fst e) (?t\<lparr>ht_table := ?tab\<rparr>))\<lparr>ht_locked := False\<rparr>"
    have v0: "ht_content ?v = concat ?tab" by (simp add: ht_content_def)
    have tab: "placed ops (ht_bits t) ?tab" "mset (concat ?tab) + mset (ht_table t ! ?i) =
        mset (ht_content t) + mset (pre @ (key, p) # post)"
      using exchange_chain [OF good(1) ops refl, of "pre @ (key, p) # post" key] xs by auto
    have m: "mset (ht_content ?v) = mset ((key, p) # ?rest)"
      using tab(2) w(2) xs unfolding v0 by simp
    have nz: "snd e \<noteq> 0"
      using good(1) mset_eq_setD [of "ht_content t" "e # ?rest"] w(2) by (auto simp: ht_good_def)
    have v: "ht_good canon ?v" "ht_map canon ?v = (ht_map canon t)(canon key \<mapsto> p)"
      using ht_goodI [OF m, of canon] r p tab(1) good(1) ops c(2) by (simp_all add: ht_good_def)
    show thesis
      by (rule that [of ?v])
        (use s v c(1) nz p good ops chain_index_eq [OF good(3)] room in
          \<open>simp_all add: hashtable_add_replace_def begin_synch_eq end_synch_eq same_config_def ht_inv_def
             ht_room_def payload_or_null_def\<close>)
  qed
qed

lemma clear_ok:
  assumes inv: "ht_inv canon t" and ops: "ht_ops t = ops" and room: "ht_room n t"
  obtains t' where "hashtable_clear t = Some t'" "ht_inv canon t'" "same_config t t'" "ht_room n t'"
    "ht_map canon t' = Map.empty"
proof -
  let ?t = "t\<lparr>ht_locked := ht_synch t\<rparr>"
  let ?v = "(hashtable_clear_internal ?t)\<lparr>ht_locked := False\<rparr>"
  have good: "ht_good canon t" "\<not> ht_locked t" using inv by (simp_all add: ht_inv_def)
  have c: "concat (map (\<lambda>_. []) xs) = []" for xs :: "hash_entry_t list list" by (induction xs) simp_all
  then have m: "ht_content ?v = []" by (simp add: hashtable_clear_internal_def ht_content_def)
  show thesis
    by (rule that [of ?v])
      (use good m room in \<open>simp_all add: hashtable_clear_def begin_synch_eq end_synch_eq same_config_def
         hashtable_clear_internal_def ht_inv_def ht_good_def ht_map_def ht_room_def placed_def\<close>)
qed

text \<open>One call on the table does what the abstract map does, and a sequence of calls too.\<close>

lemma step_ok:
  assumes inv: "ht_inv canon t" and ops: "ht_ops t = ops" and room: "ht_room (Suc n) t"
    and p: "call_payload c \<noteq> Some 0"
  obtains t' where "ht_step c t = Some (fst (map_step canon c (ht_map canon t)), t')" "ht_inv canon t'"
    "ht_ops t' = ops" "ht_room n t'" "ht_map canon t' = snd (map_step canon c (ht_map canon t))"
proof -
  have room': "ht_room n t" using room by (simp add: ht_room_def)
  show thesis
  proof (cases c)
    case (Add key q)
    then obtain t' where "hashtable_add t key q = Some (ht_map canon t (canon key) = None, t')"
      "ht_inv canon t'" "same_config t t'" "ht_room n t'"
      "ht_map canon t' = (if ht_map canon t (canon key) = None then (ht_map canon t)(canon key \<mapsto> q) else ht_map canon t)"
      using add_ok [OF inv ops _ room] p by auto
    then show thesis using Add ops by (intro that [of t']) (simp_all add: same_config_def)
  next
    case (Add_Replace key q)
    then obtain t' where "hashtable_add_replace t key q = Some (payload_or_null (ht_map canon t (canon key)), t')"
      "ht_inv canon t'" "same_config t t'" "ht_room n t'" "ht_map canon t' = (ht_map canon t)(canon key \<mapsto> q)"
      using add_replace_ok [OF inv ops _ room] p by auto
    then show thesis using Add_Replace ops by (intro that [of t']) (simp_all add: same_config_def)
  next
    case (Remove key)
    obtain t' where "hashtable_remove t key = Some (ht_map canon t (canon key) \<noteq> None, t')"
      "ht_inv canon t'" "same_config t t'" "ht_room n t'" "ht_map canon t' = (ht_map canon t)(canon key := None)"
      using remove_ok [OF inv ops room'] by blast
    then show thesis using Remove ops by (intro that [of t']) (simp_all add: same_config_def)
  next
    case (Lookup key)
    then show thesis using lookup_ok [OF inv ops] inv ops room' by (intro that [of t]) simp_all
  next
    case Clear
    obtain t' where "hashtable_clear t = Some t'" "ht_inv canon t'" "same_config t t'" "ht_room n t'"
      "ht_map canon t' = Map.empty" using clear_ok [OF inv ops room'] by blast
    then show thesis using Clear ops by (intro that [of t']) (simp_all add: same_config_def)
  qed
qed

lemma run_ok:
  assumes "ht_inv canon t" "ht_ops t = ops" "ht_room (length cs) t" "\<forall>c \<in> set cs. call_payload c \<noteq> Some 0"
  shows "\<exists>t'. ht_run cs t = Some (fst (map_run canon cs (ht_map canon t)), t') \<and> ht_inv canon t' \<and>
    ht_map canon t' = snd (map_run canon cs (ht_map canon t))"
  using assms
proof (induction cs arbitrary: t)
  case (Cons c cs)
  obtain u where u: "ht_step c t = Some (fst (map_step canon c (ht_map canon t)), u)" "ht_inv canon u"
    "ht_ops u = ops" "ht_room (length cs) u" "ht_map canon u = snd (map_step canon c (ht_map canon t))"
    using step_ok [OF Cons.prems(1,2), of "length cs" c] Cons.prems(3,4) by auto
  then show ?case using Cons.IH [OF u(2-4)] Cons.prems(4) by (auto simp: split_def Let_def)
qed simp

end

subsection \<open>The key types of the library\<close>

lemma stri_eq_lower: "stri_eq a b \<longleftrightarrow> map lower a = map lower b"
  by (induction a b rule: stri_eq.induct) auto

lemma lower_lower [simp]: "lower (lower c) = lower c"
  by (auto simp: lower_def word_le_nat_alt unat_word_ariths)

lemma hash_string_nocase: "hash_string m True s i h = hash_string m False (map lower s) i h"
  by (induction s arbitrary: i h) (simp_all add: Let_def)

abbreviation std_ops :: "hash_type_t \<Rightarrow> key_ops" where
  "std_ops ty \<equiv> \<lparr>ko_type = ty, ko_hash = None, ko_cmp = None\<rparr>"

interpretation ht_intptr: key_laws "std_ops HASH_INTPTR" "canon_key HASH_INTPTR"
  by unfold_locales (simp_all add: keys_equal_def hash_key_def)

interpretation ht_string: key_laws "std_ops HASH_STRING" "canon_key HASH_STRING"
  by unfold_locales (simp_all add: keys_equal_def hash_key_def)

interpretation ht_nocase: key_laws "std_ops HASH_STRING_NOCASE" "canon_key HASH_STRING_NOCASE"
  by unfold_locales (simp_all add: keys_equal_def hash_key_def stri_eq_lower hash_string_nocase)

lemma init_ok:
  assumes "0 < num_bits" "num_bits < 31" "str_dup \<longrightarrow> ty = HASH_STRING \<or> ty = HASH_STRING_NOCASE"
    and "ty \<noteq> HASH_CUSTOM" "n \<le> 2 ^ 28"
  obtains t where "hashtable_init num_bits ty str_dup = Some t" "ht_inv canon t" "ht_ops t = std_ops ty"
    "ht_room n t" "ht_map canon t = Map.empty"
proof (rule that)
  show "hashtable_init num_bits ty str_dup = Some
    \<lparr>ht_table = replicate (2 ^ num_bits) [], ht_ops = std_ops ty, ht_str_dup = str_dup, ht_locked = False,
      ht_bits = num_bits, ht_synch = True, ht_free_payload = False, ht_entries = 0, ht_resizable = True,
      ht_threshold = 75, ht_free_key = False, ht_freed = [], ht_keys_freed = []\<rparr>"
    using assms by (simp add: hashtable_init_def hashtable_init_ex_def HASHTABLE_SIZE_def)
qed (use assms in \<open>simp_all add: ht_inv_def ht_good_def ht_content_def placed_empty ht_room_def ht_map_def\<close>)

text \<open>C9: A table of any of the library's key types refines a finite map: from \<^verbatim>\<open>hashtable_init\<close> on, a sequence of calls returns what the map returns, across every resize, and the table stays well-formed.\<close>

theorem hashtable_refines_map:
  assumes "ty \<noteq> HASH_CUSTOM" "0 < num_bits" "num_bits < 31"
    and "str_dup \<longrightarrow> ty = HASH_STRING \<or> ty = HASH_STRING_NOCASE"
    and "length cs \<le> 2 ^ 28" "\<forall>c \<in> set cs. call_payload c \<noteq> Some 0"
  shows "\<exists>t t'. hashtable_init num_bits ty str_dup = Some t \<and>
    ht_run cs t = Some (fst (map_run (canon_key ty) cs Map.empty), t') \<and> ht_inv (canon_key ty) t' \<and>
    ht_map (canon_key ty) t' = snd (map_run (canon_key ty) cs Map.empty)"
proof -
  obtain t where t: "hashtable_init num_bits ty str_dup = Some t" "ht_inv (canon_key ty) t" "ht_ops t = std_ops ty"
    "ht_room (length cs) t" "ht_map (canon_key ty) t = Map.empty"
    using init_ok assms by metis
  have "\<exists>t'. ht_run cs t = Some (fst (map_run (canon_key ty) cs (ht_map (canon_key ty) t)), t') \<and>
    ht_inv (canon_key ty) t' \<and> ht_map (canon_key ty) t' = snd (map_run (canon_key ty) cs (ht_map (canon_key ty) t))"
  proof (cases ty)
    case HASH_INTPTR
    then show ?thesis using ht_intptr.run_ok [of t cs] t(2-4) assms(6) by blast
  next
    case HASH_STRING
    then show ?thesis using ht_string.run_ok [of t cs] t(2-4) assms(6) by blast
  next
    case HASH_STRING_NOCASE
    then show ?thesis using ht_nocase.run_ok [of t cs] t(2-4) assms(6) by blast
  qed (use assms(1) in simp)
  then show ?thesis using t by auto
qed

text \<open>Two keys of a table that grows at its second entry, one of them replaced, one removed.\<close>

lemma hashtable_refines_map_witness:
  "\<exists>t t'. hashtable_init 1 HASH_STRING_NOCASE True = Some t \<and>
     ht_run [Add (KStr [97]) 7, Add (KStr [65]) 8, Add (KStr [98, 99]) 9, Remove (KStr [66, 67]), Lookup (KStr [65])] t
       = Some ([RBool True, RBool False, RBool True, RBool True, RPtr 7], t')"
  using hashtable_refines_map [of HASH_STRING_NOCASE 1 True
      "[Add (KStr [97]) 7, Add (KStr [65]) 8, Add (KStr [98, 99]) 9, Remove (KStr [66, 67]), Lookup (KStr [65])]"]
  by (auto simp: lower_def payload_or_null_def)

end
