(* ===== verification/HashPersist.thy ===== *)
theory HashPersist
  imports Hashtable Bytes
begin

text \<open>
  Persistence of the hashtable, the second half of \<^verbatim>\<open>src/dynamorio/ext/drcontainers/hashtable.c\<close>: the entries are
  written as a counted array and added to a live table when they are read back. The memory is a function from
  addresses to bytes, the mapped file a part of it. The start and the size of the persisted range, which \<^verbatim>\<open>DR\<close>
  keeps in its context, are a record, \<^verbatim>\<open>dr_fragment_persistable\<close> and \<^verbatim>\<open>process_payload\<close> are arguments, and the
  calls of the latter are collected. A key that is a string has no address in the model, so that writing
  one is \<open>None\<close>.
\<close>

subsection \<open>Flags, context, memory and file\<close>

definition DR_HASHPERS_PAYLOAD_IS_POINTER :: u32 where "DR_HASHPERS_PAYLOAD_IS_POINTER = 0x0001"
definition DR_HASHPERS_CLONE_PAYLOAD :: u32 where "DR_HASHPERS_CLONE_PAYLOAD = 0x0002"
definition DR_HASHPERS_REBASE_KEY :: u32 where "DR_HASHPERS_REBASE_KEY = 0x0004"
definition DR_HASHPERS_ONLY_IN_RANGE :: u32 where "DR_HASHPERS_ONLY_IN_RANGE = 0x0008"
definition DR_HASHPERS_ONLY_PERSISTED :: u32 where "DR_HASHPERS_ONLY_PERSISTED = 0x0010"

lemmas DR_HASHPERS_defs = DR_HASHPERS_PAYLOAD_IS_POINTER_def DR_HASHPERS_CLONE_PAYLOAD_def
  DR_HASHPERS_REBASE_KEY_def DR_HASHPERS_ONLY_IN_RANGE_def DR_HASHPERS_ONLY_PERSISTED_def

definition hp_test :: "u32 \<Rightarrow> u32 \<Rightarrow> bool" where
  "hp_test m var \<longleftrightarrow> m AND var \<noteq> 0"

record pers_cxt =
  pc_start :: u64
  pc_size :: u64

text \<open>A file: what was written and how much still fits.\<close>

record out_file =
  f_bytes :: "u8 list"
  f_room :: nat

definition hash_write_file :: "out_file \<Rightarrow> u8 list \<Rightarrow> bool \<times> out_file" where
  "hash_write_file fd bs =
     (length bs \<le> f_room fd, fd\<lparr>f_bytes := f_bytes fd @ take (f_room fd) bs, f_room := f_room fd - length bs\<rparr>)"

subsection \<open>Writing\<close>

definition key_in_range :: "hashtable_t \<Rightarrow> hash_entry_t \<Rightarrow> u64 \<Rightarrow> u64 \<Rightarrow> bool" where
  "key_in_range t he start sz =
     (if ko_type (ht_ops t) \<noteq> HASH_INTPTR \<or> sz = 0 then True
      else start \<le> key_int (fst he) \<and> key_int (fst he) \<le> start + (sz - 1))"

definition persisted :: "hashtable_t \<Rightarrow> (hkey \<Rightarrow> bool) \<Rightarrow> pers_cxt option \<Rightarrow> u32 \<Rightarrow> hash_entry_t \<Rightarrow> bool" where
  "persisted t fragment_persistable perscxt flags he =
     (let start = (case perscxt of None \<Rightarrow> 0 | Some c \<Rightarrow> pc_start c);
          sz = (case perscxt of None \<Rightarrow> 0 | Some c \<Rightarrow> pc_size c)
      in (\<not> hp_test DR_HASHPERS_ONLY_IN_RANGE flags \<or> key_in_range t he start sz) \<and>
         (\<not> hp_test DR_HASHPERS_ONLY_PERSISTED flags \<or> fragment_persistable (fst he)))"

text \<open>The size that \<^verbatim>\<open>hashtable_persist_size\<close> returns and the count it leaves in the table.\<close>

definition hashtable_persist_size ::
  "hashtable_t \<Rightarrow> (hkey \<Rightarrow> bool) \<Rightarrow> nat \<Rightarrow> pers_cxt option \<Rightarrow> u32 \<Rightarrow> nat \<times> u32" where
  "hashtable_persist_size t fragment_persistable entry_size perscxt flags =
     (let count =
        (if ko_type (ht_ops t) = HASH_INTPTR \<and>
            hp_test (DR_HASHPERS_ONLY_IN_RANGE OR DR_HASHPERS_ONLY_PERSISTED) flags
         then word_of_nat (length (filter (persisted t fragment_persistable perscxt flags) (ht_content t)))
         else ht_entries t)
      in ((4 + (if hp_test DR_HASHPERS_REBASE_KEY flags then 8 else 0) + unat count * (entry_size + 8)) mod 2 ^ 64,
          count))"

fun key_bytes :: "hkey \<Rightarrow> u8 list option" where
  "key_bytes (KInt n) = Some (le_bytes 8 (unat n))"
| "key_bytes (KStr _) = None"

definition payload_bytes :: "memory \<Rightarrow> nat \<Rightarrow> u32 \<Rightarrow> u64 \<Rightarrow> u8 list option" where
  "payload_bytes mem entry_size flags payload =
     (if hp_test DR_HASHPERS_PAYLOAD_IS_POINTER flags then Some (read_mem mem payload entry_size)
      else do { ASSERT (entry_size \<le> 8); Some (take entry_size (le_bytes 8 (unat payload))) })"

text \<open>The loop over the entries; \<open>Some (False, fd)\<close> is the early return of a failed write. The third result is \<^verbatim>\<open>count_check\<close>.\<close>

fun persist_entries ::
  "memory \<Rightarrow> nat \<Rightarrow> u32 \<Rightarrow> hash_entry_t list \<Rightarrow> out_file \<Rightarrow> u32 \<Rightarrow> (bool \<times> out_file \<times> u32) option" where
  "persist_entries mem entry_size flags [] fd n = Some (True, fd, n)"
| "persist_entries mem entry_size flags (he # hes) fd n = do {
     kb \<leftarrow> key_bytes (fst he);
     let (ok, fd) = hash_write_file fd kb;
     if \<not> ok then Some (False, fd, n + 1) else do {
       pb \<leftarrow> payload_bytes mem entry_size flags (snd he);
       let (ok, fd) = hash_write_file fd pb;
       if \<not> ok then Some (False, fd, n + 1) else persist_entries mem entry_size flags hes fd (n + 1) } }"

definition hashtable_persist ::
  "hashtable_t \<Rightarrow> u32 \<Rightarrow> memory \<Rightarrow> (hkey \<Rightarrow> bool) \<Rightarrow> nat \<Rightarrow> out_file \<Rightarrow> pers_cxt option \<Rightarrow> u32 \<Rightarrow>
     (bool \<times> out_file) option" where
  "hashtable_persist t persist_count mem fragment_persistable entry_size fd perscxt flags =
     (if hp_test DR_HASHPERS_REBASE_KEY flags \<and> perscxt = None then Some (False, fd) else
      let start = (case perscxt of None \<Rightarrow> 0 | Some c \<Rightarrow> pc_start c);
          (ok, fd) = hash_write_file fd (le_bytes 4 (unat persist_count))
      in if \<not> ok then Some (False, fd) else
      let (ok, fd) = (if hp_test DR_HASHPERS_REBASE_KEY flags
                      then hash_write_file fd (le_bytes 8 (unat start)) else (True, fd))
      in if \<not> ok then Some (False, fd) else do {
        (ok, fd, count_check) \<leftarrow> persist_entries mem entry_size flags
          (filter (persisted t fragment_persistable perscxt flags) (ht_content t)) fd 0;
        if \<not> ok then Some (False, fd) else do {
          ASSERT (persist_count = count_check);
          Some (True, fd) } })"

subsection \<open>Reading back\<close>

text \<open>
  The state of the loop: the cursor into the mapping, the memory, how many blocks were allocated, the table,
  and the calls of \<^verbatim>\<open>process_payload\<close>. \<open>alloc i\<close> is the address of the \<open>i\<close>-th block of \<^verbatim>\<open>hash_alloc\<close>.
\<close>

record res_state =
  r_map :: u64
  r_mem :: memory
  r_allocs :: nat
  r_table :: hashtable_t
  r_calls :: "(u64 \<times> u64 \<times> u64) list"

definition resurrect_entry ::
  "(nat \<Rightarrow> u64) \<Rightarrow> nat \<Rightarrow> u32 \<Rightarrow> u64 \<Rightarrow> (u64 \<Rightarrow> u64 \<Rightarrow> u64 \<Rightarrow> bool) option \<Rightarrow> res_state \<Rightarrow> (bool \<times> res_state) option" where
  "resurrect_entry alloc entry_size flags shift_amt process_payload s =
     (let key = word_of_nat (from_le (read_mem (r_mem s) (r_map s) 8)) :: u64;
          inmap = r_map s + 8;
          s = s\<lparr>r_map := inmap + word_of_nat entry_size\<rparr>
      in do {
        (toadd, s) \<leftarrow>
          (if hp_test DR_HASHPERS_PAYLOAD_IS_POINTER flags then
             (if hp_test DR_HASHPERS_CLONE_PAYLOAD flags then
                let inheap = alloc (r_allocs s) in
                Some (inheap, s\<lparr>r_mem := write_mem (r_mem s) inheap (read_mem (r_mem s) inmap entry_size),
                                r_allocs := r_allocs s + 1\<rparr>)
              else Some (inmap, s))
           else do { ASSERT (entry_size \<le> 8); Some (word_of_nat (from_le (read_mem (r_mem s) inmap entry_size)), s) });
        let key = (if hp_test DR_HASHPERS_REBASE_KEY flags then key + shift_amt else key);
        case process_payload of
          Some f \<Rightarrow> Some (f key toadd shift_amt, s\<lparr>r_calls := r_calls s @ [(key, toadd, shift_amt)]\<rparr>)
        | None \<Rightarrow> do { (b, t) \<leftarrow> hashtable_add (r_table s) (KInt key) toadd; Some (b, s\<lparr>r_table := t\<rparr>) } })"

fun resurrect_entries ::
  "(nat \<Rightarrow> u64) \<Rightarrow> nat \<Rightarrow> u32 \<Rightarrow> u64 \<Rightarrow> (u64 \<Rightarrow> u64 \<Rightarrow> u64 \<Rightarrow> bool) option \<Rightarrow> nat \<Rightarrow> res_state \<Rightarrow> (bool \<times> res_state) option" where
  "resurrect_entries alloc entry_size flags shift_amt process_payload 0 s = Some (True, s)"
| "resurrect_entries alloc entry_size flags shift_amt process_payload (Suc n) s = do {
     (ok, s) \<leftarrow> resurrect_entry alloc entry_size flags shift_amt process_payload s;
     if \<not> ok then Some (False, s) else resurrect_entries alloc entry_size flags shift_amt process_payload n s }"

definition hashtable_resurrect ::
  "(nat \<Rightarrow> u64) \<Rightarrow> nat \<Rightarrow> pers_cxt option \<Rightarrow> u32 \<Rightarrow> (u64 \<Rightarrow> u64 \<Rightarrow> u64 \<Rightarrow> bool) option \<Rightarrow> res_state \<Rightarrow> (bool \<times> res_state) option" where
  "hashtable_resurrect alloc entry_size perscxt flags process_payload s =
     (let count = from_le (read_mem (r_mem s) (r_map s) 4);
          s = s\<lparr>r_map := r_map s + 4\<rparr>
      in if hp_test DR_HASHPERS_REBASE_KEY flags then
           (case perscxt of
              None \<Rightarrow> Some (False, s)
            | Some c \<Rightarrow>
                let stored_start = word_of_nat (from_le (read_mem (r_mem s) (r_map s) 8)) in
                resurrect_entries alloc entry_size flags (pc_start c - stored_start) process_payload count
                  (s\<lparr>r_map := r_map s + 8\<rparr>))
         else resurrect_entries alloc entry_size flags 0 process_payload count s)"

subsection \<open>What is written\<close>

declare canon_key.simps [simp del]

lemma canon_int [simp]: "canon_key HASH_INTPTR (KInt k) = KInt k"
  by (simp add: canon_key.simps)

definition int_key :: "hash_entry_t \<Rightarrow> bool" where
  "int_key e = (case fst e of KInt _ \<Rightarrow> True | KStr _ \<Rightarrow> False)"

text \<open>The bytes of an entry, for a payload that is written at all.\<close>

definition entry_image :: "memory \<Rightarrow> nat \<Rightarrow> u32 \<Rightarrow> hash_entry_t \<Rightarrow> u8 list" where
  "entry_image mem entry_size flags e =
     le_bytes 8 (unat (key_int (fst e))) @
     (if hp_test DR_HASHPERS_PAYLOAD_IS_POINTER flags then read_mem mem (snd e) entry_size
      else take entry_size (le_bytes 8 (unat (snd e))))"

definition header_image :: "u32 \<Rightarrow> u32 \<Rightarrow> u64 \<Rightarrow> u8 list" where
  "header_image flags cnt start =
     le_bytes 4 (unat cnt) @ (if hp_test DR_HASHPERS_REBASE_KEY flags then le_bytes 8 (unat start) else [])"

abbreviation size_ok :: "nat \<Rightarrow> u32 \<Rightarrow> bool" where
  "size_ok entry_size flags \<equiv> hp_test DR_HASHPERS_PAYLOAD_IS_POINTER flags \<or> entry_size \<le> 8"

lemma int_keyE: "int_key e \<Longrightarrow> \<exists>k. e = (KInt k, snd e)"
  by (cases e; cases "fst e") (auto simp: int_key_def)

lemma length_entry_image: "size_ok entry_size flags \<Longrightarrow> length (entry_image mem entry_size flags e) = entry_size + 8"
  by (auto simp: entry_image_def)

lemma length_entry_images:
  "size_ok entry_size flags \<Longrightarrow>
   length (concat (map (entry_image mem entry_size flags) es)) = length es * (entry_size + 8)"
  by (induction es) (simp_all add: length_entry_image)

lemma persist_entries_ok:
  assumes "\<forall>e \<in> set es. int_key e" "size_ok entry_size flags" "length es * (entry_size + 8) \<le> f_room fd"
  shows "\<exists>fd'. persist_entries mem entry_size flags es fd n = Some (True, fd', n + word_of_nat (length es)) \<and>
    f_bytes fd' = f_bytes fd @ concat (map (entry_image mem entry_size flags) es)"
  using assms
proof (induction es arbitrary: fd n)
  case (Cons e es)
  obtain k p where e: "e = (KInt k, p)" using int_keyE [of e] Cons.prems(1) by auto
  let ?img = "entry_image mem entry_size flags e"
  let ?fd = "fd\<lparr>f_bytes := f_bytes fd @ ?img, f_room := f_room fd - (entry_size + 8)\<rparr>"
  have room: "entry_size + 8 \<le> f_room fd" "length es * (entry_size + 8) \<le> f_room ?fd"
    using Cons.prems(3) by simp_all
  have "persist_entries mem entry_size flags (e # es) fd n = persist_entries mem entry_size flags es ?fd (n + 1)"
    using room(1) Cons.prems(2)
    by (auto simp: e hash_write_file_def payload_bytes_def entry_image_def Let_def ASSERT_def add.commute)
  then show ?case using Cons.IH [of ?fd "n + 1"] Cons.prems room(2) by (auto simp: ac_simps)
qed simp

lemma hash_write_file_fits:
  "length bs \<le> f_room fd \<Longrightarrow>
   hash_write_file fd bs = (True, fd\<lparr>f_bytes := f_bytes fd @ bs, f_room := f_room fd - length bs\<rparr>)"
  by (simp add: hash_write_file_def)

abbreviation cxt_start :: "pers_cxt option \<Rightarrow> u64" where
  "cxt_start perscxt \<equiv> (case perscxt of None \<Rightarrow> 0 | Some c \<Rightarrow> pc_start c)"

abbreviation chosen :: "hashtable_t \<Rightarrow> (hkey \<Rightarrow> bool) \<Rightarrow> pers_cxt option \<Rightarrow> u32 \<Rightarrow> hash_entry_t list" where
  "chosen t fp perscxt flags \<equiv> filter (persisted t fp perscxt flags) (ht_content t)"

lemma persist_writes:
  assumes "\<forall>e \<in> set (ht_content t). int_key e" "size_ok entry_size flags"
    and "cnt = word_of_nat (length (chosen t fp perscxt flags))"
    and "hp_test DR_HASHPERS_REBASE_KEY flags \<longrightarrow> perscxt \<noteq> None"
    and "length (header_image flags cnt (cxt_start perscxt)) +
      length (chosen t fp perscxt flags) * (entry_size + 8) \<le> f_room fd"
  shows "\<exists>fd'. hashtable_persist t cnt mem fp entry_size fd perscxt flags = Some (True, fd') \<and>
    f_bytes fd' = f_bytes fd @ header_image flags cnt (cxt_start perscxt) @
      concat (map (entry_image mem entry_size flags) (chosen t fp perscxt flags))"
proof -
  let ?h = "header_image flags cnt (cxt_start perscxt)"
  let ?fd = "fd\<lparr>f_bytes := f_bytes fd @ ?h, f_room := f_room fd - length ?h\<rparr>"
  let ?es = "chosen t fp perscxt flags"
  have keys: "\<forall>e \<in> set ?es. int_key e" and room: "length ?es * (entry_size + 8) \<le> f_room ?fd"
    using assms(1,5) by simp_all
  obtain fd' where fd': "persist_entries mem entry_size flags ?es ?fd 0 = Some (True, fd', cnt)"
    "f_bytes fd' = f_bytes ?fd @ concat (map (entry_image mem entry_size flags) ?es)"
    using persist_entries_ok [OF keys assms(2) room, of mem 0] assms(3) by auto
  have "hashtable_persist t cnt mem fp entry_size fd perscxt flags = Some (True, fd')"
  proof (cases "hp_test DR_HASHPERS_REBASE_KEY flags")
    case True
    then show ?thesis using assms(4,5) fd'(1)
      by (auto simp: hashtable_persist_def hash_write_file_fits header_image_def Let_def)
  next
    case False
    then show ?thesis using assms(5) fd'(1)
      by (simp add: hashtable_persist_def hash_write_file_fits header_image_def Let_def)
  qed
  then show ?thesis using fd'(2) by simp
qed

text \<open>The count is that of the entries that are written: for a table of integer keys with any flags, and for any table without a selection.\<close>

lemma persist_count_exact:
  assumes "ht_good canon t"
    and "ko_type (ht_ops t) = HASH_INTPTR \<or> \<not> hp_test DR_HASHPERS_ONLY_PERSISTED flags"
  shows "snd (hashtable_persist_size t fp entry_size perscxt flags) = word_of_nat (length (chosen t fp perscxt flags))"
    "length (chosen t fp perscxt flags) < 2 ^ 32"
proof -
  have len: "length (ht_content t) = unat (ht_entries t)" using assms(1) by (simp add: ht_good_def)
  then show "length (chosen t fp perscxt flags) < 2 ^ 32"
    using length_filter_le [of "persisted t fp perscxt flags" "ht_content t"] unat_less_exp [of "ht_entries t"]
    by simp
  have flags: "hp_test (DR_HASHPERS_ONLY_IN_RANGE OR DR_HASHPERS_ONLY_PERSISTED) flags \<longleftrightarrow>
      hp_test DR_HASHPERS_ONLY_IN_RANGE flags \<or> hp_test DR_HASHPERS_ONLY_PERSISTED flags"
    by (auto simp: hp_test_def bit.conj_disj_distrib2 or_eq_0_iff)
  have all: "chosen t fp perscxt flags = ht_content t"
    if "\<not> (ko_type (ht_ops t) = HASH_INTPTR \<and> hp_test (DR_HASHPERS_ONLY_IN_RANGE OR DR_HASHPERS_ONLY_PERSISTED) flags)"
    using that assms(2) unfolding flags
    by (intro filter_True) (auto simp: persisted_def key_in_range_def Let_def)
  show "snd (hashtable_persist_size t fp entry_size perscxt flags) = word_of_nat (length (chosen t fp perscxt flags))"
    using all len by (auto simp: hashtable_persist_size_def Let_def)
qed

subsection \<open>What is read back\<close>

lemma from_le_take: "v < 256 ^ n \<Longrightarrow> n \<le> m \<Longrightarrow> from_le (take n (le_bytes m v)) = v"
proof (induction n arbitrary: m v)
  case (Suc n)
  then obtain m' where "m = Suc m'" by (cases m) auto
  moreover have "v div 256 < 256 ^ n" using Suc.prems(1) by (simp add: less_mult_imp_div_less mult.commute)
  ultimately show ?case using Suc by simp
qed simp

abbreviation rebased :: "u64 \<Rightarrow> hash_entry_t list \<Rightarrow> hash_entry_t list" where
  "rebased sh es \<equiv> map (\<lambda>e. (KInt (key_int (fst e) + sh), snd e)) es"

lemma resurrect_entry_ok:
  assumes img: "read_mem (r_mem s) (r_map s) (entry_size + 8) = entry_image mem entry_size flags e"
    and flags: "\<not> hp_test DR_HASHPERS_PAYLOAD_IS_POINTER flags" "entry_size \<le> 8"
    and p: "snd e \<noteq> 0" "unat (snd e) < 256 ^ entry_size"
    and sh: "\<not> hp_test DR_HASHPERS_REBASE_KEY flags \<longrightarrow> sh = 0"
    and t: "ht_inv (canon_key HASH_INTPTR) (r_table s)" "ht_ops (r_table s) = std_ops HASH_INTPTR"
      "ht_room (Suc n) (r_table s)" "ht_map (canon_key HASH_INTPTR) (r_table s) (KInt (key_int (fst e) + sh)) = None"
  obtains t' where "resurrect_entry alloc entry_size flags sh None s =
      Some (True, s\<lparr>r_map := r_map s + word_of_nat (entry_size + 8), r_table := t'\<rparr>)"
    "ht_inv (canon_key HASH_INTPTR) t'" "ht_ops t' = std_ops HASH_INTPTR" "ht_room n t'"
    "ht_map (canon_key HASH_INTPTR) t' =
       (ht_map (canon_key HASH_INTPTR) (r_table s))(KInt (key_int (fst e) + sh) \<mapsto> snd e)"
proof -
  let ?k = "key_int (fst e) + sh"
  have m: "read_mem (r_mem s) (r_map s) 8 = le_bytes 8 (unat (key_int (fst e)))"
    "read_mem (r_mem s) (r_map s + 8) entry_size = take entry_size (le_bytes 8 (unat (snd e)))"
    using img flags read_mem_add [of "r_mem s" "r_map s" 8 entry_size]
    by (simp_all add: entry_image_def add.commute)
  obtain t' where t': "hashtable_add (r_table s) (KInt ?k) (snd e) = Some (True, t')"
    "ht_inv (canon_key HASH_INTPTR) t'" "same_config (r_table s) t'" "ht_room n t'"
    "ht_map (canon_key HASH_INTPTR) t' = (ht_map (canon_key HASH_INTPTR) (r_table s))(KInt ?k \<mapsto> snd e)"
    using ht_intptr.add_ok [OF t(1,2) p(1) t(3), of "KInt ?k"] t(4) by auto
  have "resurrect_entry alloc entry_size flags sh None s =
      Some (True, s\<lparr>r_map := r_map s + word_of_nat (entry_size + 8), r_table := t'\<rparr>)"
    using m flags from_le_take [OF p(2) flags(2)] t'(1) sh
    by (auto simp: resurrect_entry_def Let_def ASSERT_def ac_simps)
  then show thesis using that t' t(2) by (simp add: same_config_def)
qed

lemma resurrect_entries_ok:
  assumes "read_mem (r_mem s) (r_map s) (length (concat (map (entry_image mem entry_size flags) es))) =
      concat (map (entry_image mem entry_size flags) es)"
    and "\<not> hp_test DR_HASHPERS_PAYLOAD_IS_POINTER flags" "entry_size \<le> 8"
    and "\<forall>e \<in> set es. snd e \<noteq> 0 \<and> unat (snd e) < 256 ^ entry_size"
    and "\<not> hp_test DR_HASHPERS_REBASE_KEY flags \<longrightarrow> sh = 0"
    and "ht_inv (canon_key HASH_INTPTR) (r_table s)" "ht_ops (r_table s) = std_ops HASH_INTPTR"
    and "ht_room (length es) (r_table s)" "distinct (map fst (rebased sh es))"
    and "\<forall>e \<in> set es. ht_map (canon_key HASH_INTPTR) (r_table s) (KInt (key_int (fst e) + sh)) = None"
  shows "\<exists>s'. resurrect_entries alloc entry_size flags sh None (length es) s = Some (True, s') \<and>
    ht_inv (canon_key HASH_INTPTR) (r_table s') \<and>
    ht_map (canon_key HASH_INTPTR) (r_table s') =
      ht_map (canon_key HASH_INTPTR) (r_table s) ++ map_of (rebased sh es)"
  using assms
proof (induction es arbitrary: s)
  case (Cons e es)
  note img = read_mem_append [of "r_mem s" "r_map s" "entry_image mem entry_size flags e"
      "concat (map (entry_image mem entry_size flags) es)"]
  have len: "length (entry_image mem entry_size flags e) = entry_size + 8"
    using length_entry_image Cons.prems(3) by blast
  have i: "read_mem (r_mem s) (r_map s) (entry_size + 8) = entry_image mem entry_size flags e"
    using img(1) Cons.prems(1) len by simp
  have e: "snd e \<noteq> 0" "unat (snd e) < 256 ^ entry_size" "ht_room (Suc (length es)) (r_table s)"
    "ht_map (canon_key HASH_INTPTR) (r_table s) (KInt (key_int (fst e) + sh)) = None"
    using Cons.prems by simp_all
  obtain t' where t': "resurrect_entry alloc entry_size flags sh None s =
      Some (True, s\<lparr>r_map := r_map s + word_of_nat (entry_size + 8), r_table := t'\<rparr>)"
    "ht_inv (canon_key HASH_INTPTR) t'" "ht_ops t' = std_ops HASH_INTPTR" "ht_room (length es) t'"
    "ht_map (canon_key HASH_INTPTR) t' =
       (ht_map (canon_key HASH_INTPTR) (r_table s))(KInt (key_int (fst e) + sh) \<mapsto> snd e)"
    using resurrect_entry_ok [OF i Cons.prems(2,3) e(1,2) Cons.prems(5-7) e(3,4)] by blast
  let ?s = "s\<lparr>r_map := r_map s + word_of_nat (entry_size + 8), r_table := t'\<rparr>"
  have new: "KInt (key_int (fst e) + sh) \<notin> fst ` set (rebased sh es)"
    using Cons.prems(9) by (simp add: image_image)
  obtain s' where s': "resurrect_entries alloc entry_size flags sh None (length es) ?s = Some (True, s')"
    "ht_inv (canon_key HASH_INTPTR) (r_table s')"
    "ht_map (canon_key HASH_INTPTR) (r_table s') = ht_map (canon_key HASH_INTPTR) (r_table ?s) ++ map_of (rebased sh es)"
  proof -
    have "\<exists>s'. resurrect_entries alloc entry_size flags sh None (length es) ?s = Some (True, s') \<and>
      ht_inv (canon_key HASH_INTPTR) (r_table s') \<and>
      ht_map (canon_key HASH_INTPTR) (r_table s') = ht_map (canon_key HASH_INTPTR) (r_table ?s) ++ map_of (rebased sh es)"
    proof (rule Cons.IH)
      show "read_mem (r_mem ?s) (r_map ?s) (length (concat (map (entry_image mem entry_size flags) es))) =
          concat (map (entry_image mem entry_size flags) es)"
        using img(2) Cons.prems(1) len by simp
      show "\<forall>x \<in> set es. ht_map (canon_key HASH_INTPTR) (r_table ?s) (KInt (key_int (fst x) + sh)) = None"
      proof
        fix x assume x: "x \<in> set es"
        then have "KInt (key_int (fst x) + sh) \<noteq> KInt (key_int (fst e) + sh)"
          using new by (auto simp: image_image image_iff)
        then show "ht_map (canon_key HASH_INTPTR) (r_table ?s) (KInt (key_int (fst x) + sh)) = None"
          using Cons.prems(10) x t'(5) by simp
      qed
    qed (use Cons.prems t' in simp_all)
    then show thesis using that by blast
  qed
  have "ht_map (canon_key HASH_INTPTR) t' ++ map_of (rebased sh es) =
      ht_map (canon_key HASH_INTPTR) (r_table s) ++ map_of (rebased sh (e # es))"
    using new t'(5) by (simp add: map_add_upd_left dom_map_of_conv_image_fst)
  then have "ht_map (canon_key HASH_INTPTR) (r_table s') =
      ht_map (canon_key HASH_INTPTR) (r_table s) ++ map_of (rebased sh (e # es))"
    using s'(3) by simp
  moreover have "resurrect_entries alloc entry_size flags sh None (length (e # es)) s = Some (True, s')"
    using s'(1) t'(1) by simp
  ultimately show ?case using s'(2) by blast
qed simp

subsection \<open>The round trip\<close>

lemma resurrect_header:
  assumes "read_mem mem a (length (header_image flags cnt start)) = header_image flags cnt start"
    and "n = unat cnt" "sh = (if hp_test DR_HASHPERS_REBASE_KEY flags then pc_start c' - start else 0)"
  shows "hashtable_resurrect alloc entry_size (Some c') flags f
      \<lparr>r_map = a, r_mem = mem, r_allocs = i, r_table = u, r_calls = cs\<rparr> =
    resurrect_entries alloc entry_size flags sh f n
      \<lparr>r_map = a + word_of_nat (length (header_image flags cnt start)), r_mem = mem, r_allocs = i, r_table = u,
        r_calls = cs\<rparr>"
proof (cases "hp_test DR_HASHPERS_REBASE_KEY flags")
  case True
  then have "read_mem mem a 4 = le_bytes 4 (unat cnt)" "read_mem mem (a + 4) 8 = le_bytes 8 (unat start)"
    using assms(1) read_mem_append [of mem a "le_bytes 4 (unat cnt)" "le_bytes 8 (unat start)"]
    by (simp_all add: header_image_def)
  then show ?thesis using True assms(2,3)
    by (simp add: hashtable_resurrect_def header_image_def ac_simps)
next
  case False
  then show ?thesis using assms by (simp add: hashtable_resurrect_def header_image_def)
qed

lemma persisted_key: "persisted t fp c flags e = persisted t fp c flags (fst e, 0)"
  by (simp add: persisted_def key_in_range_def)

lemma distinct_map_filter: "distinct (map f xs) \<Longrightarrow> distinct (map f (filter P xs))"
  by (induction xs) auto

text \<open>A selection by key commutes with the lookup.\<close>

lemma map_of_filter_key:
  assumes "\<And>e. e \<in> set es \<Longrightarrow> P e = Q (fst e)"
  shows "map_of (filter P es) k = (if Q k then map_of es k else None)"
  using assms by (induction es) (auto split: if_splits)

lemma map_of_rebased:
  assumes "\<forall>e \<in> set es. int_key e"
  shows "map_of (rebased sh es) (KInt (k + sh)) = map_of es (KInt k)"
  using assms by (induction es) (auto simp: int_key_def split: hkey.splits)

lemma assocs_int:
  assumes "\<forall>e \<in> set es. int_key e"
  shows "assocs (canon_key HASH_INTPTR) es = es"
  using assms by (induction es) (auto simp: int_key_def split: hkey.splits)

lemma distinct_rebased:
  assumes "\<forall>e \<in> set es. int_key e" "distinct (map fst es)"
  shows "distinct (map fst (rebased sh es))"
  using assms
proof (induction es)
  case (Cons e es)
  have "\<forall>x \<in> set es. key_int (fst x) \<noteq> key_int (fst e)"
  proof
    fix x assume that: "x \<in> set es"
    have "fst x \<noteq> fst e" using Cons.prems(2) that by (auto simp: image_iff)
    then show "key_int (fst x) \<noteq> key_int (fst e)"
      by (cases "fst x"; cases "fst e"; use Cons.prems(1) that in \<open>auto simp: int_key_def\<close>)
  qed
  then show ?case using Cons by (auto simp: image_image image_iff)
qed simp

text \<open>
  C10: What \<^verbatim>\<open>hashtable_persist\<close> writes is as long as \<^verbatim>\<open>hashtable_persist_size\<close> announced, and reading it back with
  \<^verbatim>\<open>hashtable_resurrect\<close> from a mapping of the file gives an empty table of integer keys exactly the selected entries
  of the persisted one, every key moved by the distance between the two ranges when keys are rebased.
\<close>

theorem persist_resurrect:
  assumes t: "ht_inv (canon_key HASH_INTPTR) t" "ht_ops t = std_ops HASH_INTPTR"
      "\<forall>e \<in> set (ht_content t). int_key e \<and> unat (snd e) < 256 ^ entry_size"
    and flags: "\<not> hp_test DR_HASHPERS_PAYLOAD_IS_POINTER flags" "entry_size \<le> 8"
    and sz: "hashtable_persist_size t fp entry_size (Some c) flags = (n, cnt)"
    and out: "f_bytes fd = []" "n \<le> f_room fd"
    and u: "ht_inv (canon_key HASH_INTPTR) u" "ht_ops u = std_ops HASH_INTPTR"
      "ht_room (unat cnt) u" "ht_map (canon_key HASH_INTPTR) u = Map.empty"
  shows "\<exists>fd'. hashtable_persist t cnt mem fp entry_size fd (Some c) flags = Some (True, fd') \<and>
    length (f_bytes fd') = n \<and>
    (\<forall>mem' a. read_mem mem' a n = f_bytes fd' \<longrightarrow>
      (\<exists>s'. hashtable_resurrect alloc entry_size (Some c') flags None
          \<lparr>r_map = a, r_mem = mem', r_allocs = 0, r_table = u, r_calls = []\<rparr> = Some (True, s') \<and>
        ht_inv (canon_key HASH_INTPTR) (r_table s') \<and>
        (\<forall>k. ht_map (canon_key HASH_INTPTR) (r_table s')
            (KInt (k + (if hp_test DR_HASHPERS_REBASE_KEY flags then pc_start c' - pc_start c else 0))) =
          (if persisted t fp (Some c) flags (KInt k, 0)
           then ht_map (canon_key HASH_INTPTR) t (KInt k) else None))))"
proof -
  let ?es = "chosen t fp (Some c) flags"
  let ?img = "concat (map (entry_image mem entry_size flags) ?es)"
  let ?h = "header_image flags cnt (pc_start c)"
  define sh where "sh = (if hp_test DR_HASHPERS_REBASE_KEY flags then pc_start c' - pc_start c else 0)"
  have good: "ht_good (canon_key HASH_INTPTR) t" using t(1) by (simp add: ht_inv_def)
  have cnt: "cnt = word_of_nat (length ?es)" "length ?es < 2 ^ 32"
    using persist_count_exact [OF good, where flags = flags and fp = fp and perscxt = "Some c"] t(2) sz
    by (simp_all, metis snd_conv)
  then have len: "unat cnt = length ?es" by (simp add: unat_of_nat take_bit_nat_eq_self_iff)
  have img: "length ?img = length ?es * (entry_size + 8)" using length_entry_images flags(2) by blast
  have "length ?es * (entry_size + 8) \<le> 2 ^ 32 * 16" using cnt(2) flags(2) by (intro mult_le_mono) simp_all
  then have n: "n = length ?h + length ?es * (entry_size + 8)"
    using sz len by (auto simp: hashtable_persist_size_def header_image_def Let_def)
  obtain fd' where fd': "hashtable_persist t cnt mem fp entry_size fd (Some c) flags = Some (True, fd')"
    "f_bytes fd' = ?h @ ?img"
    using persist_writes [of t flags entry_size cnt fp "Some c" fd mem] t(3) flags(2) cnt(1) out n by auto
  have "\<exists>s'. hashtable_resurrect alloc entry_size (Some c') flags None
          \<lparr>r_map = a, r_mem = mem', r_allocs = 0, r_table = u, r_calls = []\<rparr> = Some (True, s') \<and>
        ht_inv (canon_key HASH_INTPTR) (r_table s') \<and>
        (\<forall>k. ht_map (canon_key HASH_INTPTR) (r_table s') (KInt (k + sh)) =
          (if persisted t fp (Some c) flags (KInt k, 0)
           then ht_map (canon_key HASH_INTPTR) t (KInt k) else None))"
    if m: "read_mem mem' a n = f_bytes fd'" for mem' a
  proof -
    have r: "read_mem mem' a (length ?h) = ?h"
      "read_mem mem' (a + word_of_nat (length ?h)) (length ?img) = ?img"
      using read_mem_append [of mem' a ?h ?img] m fd'(2) n img by simp_all
    let ?s = "\<lparr>r_map = a + word_of_nat (length ?h), r_mem = mem', r_allocs = 0, r_table = u, r_calls = []\<rparr>"
    have hdr: "hashtable_resurrect alloc entry_size (Some c') flags None
          \<lparr>r_map = a, r_mem = mem', r_allocs = 0, r_table = u, r_calls = []\<rparr> =
        resurrect_entries alloc entry_size flags sh None (length ?es) ?s"
      by (rule resurrect_header [OF r(1)]) (simp_all add: len sh_def)
    note keys = distinct_rebased [of ?es sh] assocs_int [of "ht_content t"]
    have d: "distinct (map fst (rebased sh ?es))"
      using keys good t(3) by (simp add: ht_good_def distinct_map_filter)
    have nz: "\<forall>e \<in> set ?es. snd e \<noteq> 0 \<and> unat (snd e) < 256 ^ entry_size"
      using good t(3) by (simp add: ht_good_def)
    obtain s' where s': "resurrect_entries alloc entry_size flags sh None (length ?es) ?s = Some (True, s')"
      "ht_inv (canon_key HASH_INTPTR) (r_table s')"
      "ht_map (canon_key HASH_INTPTR) (r_table s') = ht_map (canon_key HASH_INTPTR) u ++ map_of (rebased sh ?es)"
      using resurrect_entries_ok [of ?s mem entry_size flags ?es sh alloc] r(2) flags nz u d len
      by (auto simp: sh_def)
    have "ht_map (canon_key HASH_INTPTR) (r_table s') (KInt (k + sh)) =
          (if persisted t fp (Some c) flags (KInt k, 0)
           then ht_map (canon_key HASH_INTPTR) t (KInt k) else None)" for k
      using s'(3) u(4) map_of_rebased [of ?es sh k] keys(2) t(3)
        map_of_filter_key [where es = "ht_content t" and P = "persisted t fp (Some c) flags"
          and Q = "\<lambda>k. persisted t fp (Some c) flags (k, 0)" and k = "KInt k", OF persisted_key]
      by (simp add: ht_map_def)
    then show ?thesis using hdr s'(1,2) by auto
  qed
  then show ?thesis using fd' n img unfolding sh_def by auto
qed

text \<open>A table with one chain of two, holding a key of the range at \<open>0x1000\<close>, and an empty one to read it back into.\<close>

definition sample_int_table :: "hash_entry_t list list \<Rightarrow> u32 \<Rightarrow> hashtable_t" where
  "sample_int_table table entries =
     \<lparr>ht_table = table, ht_ops = std_ops HASH_INTPTR, ht_str_dup = False, ht_locked = False, ht_bits = 1,
      ht_synch = True, ht_free_payload = False, ht_entries = entries, ht_resizable = True, ht_threshold = 75,
      ht_free_key = False, ht_freed = [], ht_keys_freed = []\<rparr>"

lemma sample_int_hash: "unat (hash_key (std_ops HASH_INTPTR) 1 (KInt 0x1001)) = 1"
  by code_simp

lemma sample_placed:
  "placed (std_ops HASH_INTPTR) (Suc 0) [[], [(KInt 0x1001, 7)]]" "placed (std_ops HASH_INTPTR) (Suc 0) [[], []]"
  using sample_int_hash by (auto simp: placed_def less_Suc_eq)

theorem persist_resurrect_witness:
  "\<exists>fd'. hashtable_persist (sample_int_table [[], [(KInt 0x1001, 7)]] 1) 1 (\<lambda>_. 0) (\<lambda>_. True) 4
      \<lparr>f_bytes = [], f_room = 100\<rparr> (Some \<lparr>pc_start = 0x1000, pc_size = 0x100\<rparr>) 0xc = Some (True, fd') \<and>
    length (f_bytes fd') = 24 \<and>
    (\<forall>mem' a. read_mem mem' a 24 = f_bytes fd' \<longrightarrow>
      (\<exists>s'. hashtable_resurrect (\<lambda>_. 0) 4 (Some \<lparr>pc_start = 0x2000, pc_size = 0x100\<rparr>) 0xc None
          \<lparr>r_map = a, r_mem = mem', r_allocs = 0, r_table = sample_int_table [[], []] 0, r_calls = []\<rparr> = Some (True, s') \<and>
        ht_map (canon_key HASH_INTPTR) (r_table s') (KInt 0x2001) = Some 7))"
proof -
  let ?c = "\<lparr>pc_start = 0x1000, pc_size = 0x100\<rparr>" and ?c' = "\<lparr>pc_start = 0x2000, pc_size = 0x100\<rparr>"
  let ?t = "sample_int_table [[], [(KInt 0x1001, 7)]] 1" and ?u = "sample_int_table [[], []] 0"
  have t: "ht_inv (canon_key HASH_INTPTR) ?t"
    using sample_placed(1) by (simp add: ht_inv_def ht_good_def ht_content_def sample_int_table_def)
  have u: "ht_inv (canon_key HASH_INTPTR) ?u" "ht_map (canon_key HASH_INTPTR) ?u = Map.empty" "ht_room (unat (1::u32)) ?u"
    using sample_placed(2)
    by (simp_all add: ht_inv_def ht_good_def ht_content_def sample_int_table_def ht_map_def ht_room_def)
  have f: "hp_test DR_HASHPERS_REBASE_KEY 0xc" "\<not> hp_test DR_HASHPERS_PAYLOAD_IS_POINTER 0xc"
    "hp_test (DR_HASHPERS_ONLY_IN_RANGE OR DR_HASHPERS_ONLY_PERSISTED) 0xc" "\<not> hp_test DR_HASHPERS_ONLY_PERSISTED 0xc"
    by (simp_all add: hp_test_def DR_HASHPERS_defs)
  have p: "persisted ?t (\<lambda>_. True) (Some ?c) 0xc (KInt 0x1001, q)" for q
    by (simp add: persisted_def key_in_range_def sample_int_table_def)
  have sz: "hashtable_persist_size ?t (\<lambda>_. True) 4 (Some ?c) 0xc = (24, 1)"
    using p by (simp add: hashtable_persist_size_def f sample_int_table_def [of _ 1] ht_content_def)
  have o: "ht_ops ?t = std_ops HASH_INTPTR" "ht_ops ?u = std_ops HASH_INTPTR"
    "\<forall>e \<in> set (ht_content ?t). int_key e \<and> unat (snd e) < 256 ^ 4"
    "f_bytes \<lparr>f_bytes = [], f_room = 100\<rparr> = []" "24 \<le> f_room \<lparr>f_bytes = [], f_room = 100\<rparr>" "(4::nat) \<le> 8"
    by (simp_all add: sample_int_table_def ht_content_def int_key_def)
  have m: "ht_map (canon_key HASH_INTPTR) ?t (KInt 0x1001) = Some 7"
    by (simp add: ht_map_def ht_content_def sample_int_table_def)
  have k: "(0x1001 :: u64) + (0x2000 - 0x1000) = 0x2001" by simp
  from persist_resurrect [OF t o(1,3) f(2) o(6) sz o(4,5) u(1) o(2) u(3,2), of "\<lambda>_. 0" "\<lambda>_. 0" ?c']
  show ?thesis
    by (elim ex_forward conj_forward all_forward imp_forward) (use f(1) p [of 0] m k in \<open>auto dest: spec [of _ "0x1001"]\<close>)
qed

subsection \<open>A selection that the count does not know of\<close>

text \<open>
  The documentation says that \<^verbatim>\<open>DR_HASHPERS_ONLY_PERSISTED\<close> applies to integer keys only; the count keeps to it,
  the loop that writes does not.
\<close>

theorem persist_selects_custom_keys:
  assumes "ht_good canon t" "ko_type (ht_ops t) \<noteq> HASH_INTPTR" "\<forall>e \<in> set (ht_content t). int_key e"
    and "hp_test DR_HASHPERS_ONLY_PERSISTED flags" "size_ok entry_size flags"
    and "e \<in> set (ht_content t)" "\<not> fp (fst e)" "\<not> hp_test DR_HASHPERS_REBASE_KEY flags"
    and "4 + length (ht_content t) * (entry_size + 8) \<le> f_room fd"
  shows "hashtable_persist t (snd (hashtable_persist_size t fp entry_size c flags)) mem fp entry_size fd c flags = None"
proof -
  let ?es = "chosen t fp c flags"
  have "\<not> persisted t fp c flags e" using assms(4,7) by (simp add: persisted_def)
  then have less: "length ?es < length (ht_content t)" using assms(6) by (metis length_filter_less)
  have len: "length (ht_content t) = unat (ht_entries t)" using assms(1) by (simp add: ht_good_def)
  have cnt: "snd (hashtable_persist_size t fp entry_size c flags) = ht_entries t"
    using assms(2) by (simp add: hashtable_persist_size_def Let_def)
  have ne: "ht_entries t \<noteq> word_of_nat (length ?es)"
  proof
    assume "ht_entries t = word_of_nat (length ?es)"
    then have "unat (ht_entries t) \<le> length ?es" by (simp add: unat_of_nat take_bit_eq_mod)
    then show False using less len by simp
  qed
  let ?fd = "fd\<lparr>f_bytes := f_bytes fd @ le_bytes 4 (unat (ht_entries t)), f_room := f_room fd - 4\<rparr>"
  have "length ?es * (entry_size + 8) \<le> length (ht_content t) * (entry_size + 8)"
    using less by (intro mult_le_mono1) simp
  then have "length ?es * (entry_size + 8) \<le> f_room fd - 4" using assms(9) by linarith
  then have room: "length ?es * (entry_size + 8) \<le> f_room ?fd" by simp
  have "\<forall>e \<in> set ?es. int_key e" using assms(3) by simp
  from persist_entries_ok [OF this assms(5) room, of mem 0]
  show ?thesis using assms(8,9) ne unfolding cnt
    by (auto simp: hashtable_persist_def hash_write_file_fits)
qed

end
