(* ===== verification/VmVector.thy ===== *)
theory VmVector
  imports Prelude
begin

text \<open>
  The vector of address ranges of \<^verbatim>\<open>src/dynamorio/core/vmareas.c\<close> (\<^verbatim>\<open>vm_area_vector_t\<close>): the areas, their lookup by
  binary search, insertion with merging and splitting, and removal. The array is the list of its first
  \<^verbatim>\<open>length\<close> elements next to its capacity. An area is the half-open interval from \<open>a_start\<close> to \<open>a_end\<close>; the index -1
  of \<^verbatim>\<open>overlap_start\<close> and \<^verbatim>\<open>overlap_end\<close> is \<open>None\<close>.

  The calls of \<^verbatim>\<open>free_payload_func\<close> and of \<^verbatim>\<open>vm_make_writable\<close> are collected in lists. The other callbacks are
  functions on payloads, which are pointers. \<open>None\<close> is a failed assertion of the debug build. The comments of the debug
  build are left out, as are the two uses that put other data into the payload, the vector of
  executable areas with its coarse units and the vectors with fragment lists: for the latter the two
  operations are \<open>None\<close>.
\<close>

subsection \<open>Areas and vectors\<close>

record vm_area =
  a_start :: u64
  a_end :: u64
  vm_flags :: u32
  frag_flags :: u32
  client :: u64

text \<open>The lock, as the thread that calls sees it.\<close>

datatype rwlock = Unlocked | Readers nat | Writer

record vm_area_vector =
  vv_buf :: "vm_area list"
  vv_size :: nat
  vv_flags :: u32
  vv_lock :: rwlock
  free_payload_func :: bool
  split_payload_func :: "(u64 \<Rightarrow> u64) option"
  should_merge_func :: "(bool \<Rightarrow> u64 \<Rightarrow> u64 \<Rightarrow> bool) option"
  merge_payload_func :: "(u64 \<Rightarrow> u64 \<Rightarrow> u64) option"
  vv_freed :: "u64 list"
  vv_made_writable :: "(u64 \<times> u64) list"

definition TEST :: "u32 \<Rightarrow> u32 \<Rightarrow> bool" where
  "TEST m var \<longleftrightarrow> m AND var \<noteq> 0"

definition VECTOR_SHARED :: u32 where "VECTOR_SHARED = 0x1"
definition VECTOR_FRAGMENT_LIST :: u32 where "VECTOR_FRAGMENT_LIST = 0x2"
definition VECTOR_NEVER_MERGE_ADJACENT :: u32 where "VECTOR_NEVER_MERGE_ADJACENT = 0x4"
definition VECTOR_NEVER_OVERLAP :: u32 where "VECTOR_NEVER_OVERLAP = 0x8"
definition VECTOR_NO_LOCK :: u32 where "VECTOR_NO_LOCK = 0x10"

definition VM_WRITABLE :: u32 where "VM_WRITABLE = 0x1"
definition VM_UNMOD_IMAGE :: u32 where "VM_UNMOD_IMAGE = 0x2"
definition VM_WAS_FUTURE :: u32 where "VM_WAS_FUTURE = 0x8"
definition VM_ONCE_ONLY :: u32 where "VM_ONCE_ONLY = 0x20"
definition VM_MADE_READONLY :: u32 where "VM_MADE_READONLY = VM_WRITABLE"
definition VM_PATTERN_REVERIFY :: u32 where "VM_PATTERN_REVERIFY = 0x100"
definition VM_ADD_TO_SHARED_DATA :: u32 where "VM_ADD_TO_SHARED_DATA = 0x1000"

definition FRAG_SELFMOD_SANDBOXED :: u32 where "FRAG_SELFMOD_SANDBOXED = 0x8000"
definition FRAG_DYNGEN :: u32 where "FRAG_DYNGEN = 0x100000"
definition FRAG_COARSE_GRAIN :: u32 where "FRAG_COARSE_GRAIN = 0x10000000"

text \<open>The options, with their defaults on x86.\<close>

definition vmarea_initial_size :: nat where "vmarea_initial_size = 100"
definition vmarea_increment_size :: nat where "vmarea_increment_size = 100"
definition hw_cache_consistency :: bool where "hw_cache_consistency = True"

lemmas vm_consts = VECTOR_SHARED_def VECTOR_FRAGMENT_LIST_def VECTOR_NEVER_MERGE_ADJACENT_def
  VECTOR_NEVER_OVERLAP_def VECTOR_NO_LOCK_def VM_WRITABLE_def VM_UNMOD_IMAGE_def VM_WAS_FUTURE_def
  VM_ONCE_ONLY_def VM_MADE_READONLY_def VM_PATTERN_REVERIFY_def VM_ADD_TO_SHARED_DATA_def
  FRAG_SELFMOD_SANDBOXED_def FRAG_DYNGEN_def FRAG_COARSE_GRAIN_def TEST_def hw_cache_consistency_def
  vmarea_initial_size_def vmarea_increment_size_def

definition DR_MADE_READONLY :: "u32 \<Rightarrow> bool" where
  "DR_MADE_READONLY flags \<longleftrightarrow> hw_cache_consistency \<and> TEST VM_MADE_READONLY flags"

definition vm_area_vector_check_size :: "vm_area_vector \<Rightarrow> vm_area_vector" where
  "vm_area_vector_check_size v =
     (if vv_size v = length (vv_buf v)
      then if length (vv_buf v) = 0 then v\<lparr>vv_size := vmarea_initial_size\<rparr>
           else v\<lparr>vv_size := vmarea_increment_size + length (vv_buf v)\<rparr>
      else v)"

subsection \<open>Adding an area\<close>

definition overlaps :: "u64 \<Rightarrow> u64 \<Rightarrow> vm_area \<Rightarrow> bool" where
  "overlaps start fin b \<longleftrightarrow> start < a_end b \<and> fin > a_start b"

text \<open>The first test of the loop: overlap, or adjacency of the same type.\<close>

definition joins :: "vm_area_vector \<Rightarrow> u64 \<Rightarrow> u64 \<Rightarrow> u32 \<Rightarrow> u32 \<Rightarrow> u64 \<Rightarrow> vm_area \<Rightarrow> bool" where
  "joins v start fin vmf frf data b \<longleftrightarrow>
     overlaps start fin b \<or>
     (start \<le> a_end b \<and> fin \<ge> a_start b \<and> vmf = vm_flags b \<and> frf = frag_flags b \<and>
      \<not> TEST FRAG_COARSE_GRAIN (frag_flags b) \<and>
      \<not> TEST VECTOR_NEVER_MERGE_ADJACENT (vv_flags v) \<and>
      (case should_merge_func v of None \<Rightarrow> True | Some f \<Rightarrow> f True data (client b)))"

definition drop_flags :: "u32 \<Rightarrow> vm_area \<Rightarrow> vm_area" where
  "drop_flags vmf b =
     (let b = (if TEST VM_WAS_FUTURE (vm_flags b) \<and> \<not> TEST VM_WAS_FUTURE vmf
               then b\<lparr>vm_flags := vm_flags b AND NOT VM_WAS_FUTURE\<rparr> else b)
      in if TEST VM_ONCE_ONLY (vm_flags b) \<and> \<not> TEST VM_ONCE_ONLY vmf
         then b\<lparr>vm_flags := vm_flags b AND NOT VM_ONCE_ONLY\<rparr> else b)"

definition flagignore :: u32 where
  "flagignore = VM_UNMOD_IMAGE OR VM_WAS_FUTURE OR VM_ONCE_ONLY OR VM_WRITABLE OR VM_PATTERN_REVERIFY"

text \<open>The assertions about the flags of an old area and of the new one.\<close>

definition flags_compatible :: "u32 \<Rightarrow> u32 \<Rightarrow> vm_area \<Rightarrow> bool" where
  "flags_compatible vmf frf b \<longleftrightarrow>
     (TEST VM_UNMOD_IMAGE (vm_flags b) \<or> \<not> TEST VM_UNMOD_IMAGE vmf) \<and>
     (TEST VM_WRITABLE (vm_flags b) \<or> \<not> TEST VM_WRITABLE vmf \<or> \<not> hw_cache_consistency) \<and>
     vm_flags b AND NOT flagignore = vmf AND NOT flagignore \<and>
     (TEST FRAG_SELFMOD_SANDBOXED (frag_flags b) \<or> \<not> TEST FRAG_SELFMOD_SANDBOXED frf) \<and>
     frag_flags b AND NOT (FRAG_SELFMOD_SANDBOXED OR FRAG_DYNGEN) =
       frf AND NOT (FRAG_SELFMOD_SANDBOXED OR FRAG_DYNGEN) \<and>
     (TEST FRAG_DYNGEN frf \<or> \<not> TEST FRAG_DYNGEN (frag_flags b)) \<and>
     (TEST FRAG_COARSE_GRAIN frf \<or> \<not> TEST FRAG_COARSE_GRAIN (frag_flags b))"

definition must_split :: "vm_area_vector \<Rightarrow> u32 \<Rightarrow> u32 \<Rightarrow> u64 \<Rightarrow> vm_area \<Rightarrow> bool" where
  "must_split v vmf frf data b \<longleftrightarrow>
     (vmf \<noteq> vm_flags b \<or> frf \<noteq> frag_flags b) \<and>
     (case should_merge_func v of None \<Rightarrow> True | Some f \<Rightarrow> \<not> f False data (client b))"

text \<open>What the loop leaves: the areas with the flags it dropped, the index, the bounds still to be
added, \<^verbatim>\<open>overlap_start\<close>, \<^verbatim>\<open>overlap_end\<close>, and the bounds of the recursive call that precedes a \<^verbatim>\<open>break\<close>.\<close>

record add_scan_result =
  r_areas :: "vm_area list"
  r_i :: nat
  r_start :: u64
  r_end :: u64
  r_ostart :: "nat option"
  r_oend :: "nat option"
  r_rest :: "(u64 \<times> u64) option"

definition cons_area :: "vm_area \<Rightarrow> add_scan_result \<Rightarrow> add_scan_result" where
  "cons_area b r = r\<lparr>r_areas := b # r_areas r\<rparr>"

fun add_scan :: "vm_area_vector \<Rightarrow> u32 \<Rightarrow> u32 \<Rightarrow> u64 \<Rightarrow> nat \<Rightarrow> vm_area list \<Rightarrow> u64 \<Rightarrow> u64 \<Rightarrow> nat option \<Rightarrow>
    add_scan_result option" where
  "add_scan v vmf frf data i [] start fin ostart =
     Some \<lparr>r_areas = [], r_i = i, r_start = start, r_end = fin, r_ostart = ostart, r_oend = None, r_rest = None\<rparr>"
| "add_scan v vmf frf data i (b # bs) start fin ostart =
     (if joins v start fin vmf frf data b then do {
        ASSERT (\<not> overlaps start fin b \<or> \<not> TEST VECTOR_NEVER_OVERLAP (vv_flags v));
        let ostart = (if ostart = None then Some i else ostart);
        let b = drop_flags vmf b;
        ASSERT (flags_compatible vmf frf b);
        if must_split v vmf frf data b then
          if start < a_start b then
            Some \<lparr>r_areas = b # bs, r_i = i, r_start = start, r_end = a_start b,
              r_ostart = (if ostart = Some i then None else ostart), r_oend = Some i,
              r_rest = (if fin > a_end b then Some (a_end b, fin) else None)\<rparr>
          else if fin > a_end b then do {
            ASSERT (case ostart of None \<Rightarrow> True | Some k \<Rightarrow> k \<le> i);
            ASSERT (fin > a_end b);
            r \<leftarrow> add_scan v vmf frf data (Suc i) bs (a_end b) fin None;
            Some (cons_area b r) }
          else do {
            ASSERT (fin > start);
            r \<leftarrow> add_scan v vmf frf data (Suc i) bs start fin ostart;
            Some (cons_area b r) }
        else do {
          r \<leftarrow> add_scan v vmf frf data (Suc i) bs start fin ostart;
          Some (cons_area b r) } }
      else if ostart \<noteq> None then
        Some \<lparr>r_areas = b # bs, r_i = i, r_start = start, r_end = fin, r_ostart = ostart, r_oend = Some i,
          r_rest = None\<rparr>
      else if fin \<le> a_start b then
        Some \<lparr>r_areas = b # bs, r_i = i, r_start = start, r_end = fin, r_ostart = ostart, r_oend = None,
          r_rest = None\<rparr>
      else do {
        r \<leftarrow> add_scan v vmf frf data (Suc i) bs start fin ostart;
        Some (cons_area b r) })"

definition call_free_payload :: "vm_area_vector \<Rightarrow> u64 \<Rightarrow> vm_area_vector" where
  "call_free_payload v p = (if free_payload_func v then v\<lparr>vv_freed := vv_freed v @ [p]\<rparr> else v)"

text \<open>A new area in front of index \<open>i\<close>.\<close>

definition insert_area :: "vm_area_vector \<Rightarrow> nat \<Rightarrow> vm_area \<Rightarrow> vm_area_vector option" where
  "insert_area v i new_area = do {
     let v = vm_area_vector_check_size v;
     ASSERT (length (vv_buf v) < vv_size v \<and> i \<le> length (vv_buf v));
     ASSERT (i = 0 \<or> a_end (vv_buf v ! (i - 1)) \<le> a_start new_area);
     ASSERT (i = length (vv_buf v) \<or> a_end new_area \<le> a_start (vv_buf v ! i));
     Some (v\<lparr>vv_buf := take i (vv_buf v) @ new_area # drop i (vv_buf v)\<rparr>) }"

text \<open>The areas from \<open>k + 1\<close> on are given up in favour of area \<open>k\<close>.\<close>

fun merge_payloads :: "vm_area list \<Rightarrow> u64 \<Rightarrow> vm_area_vector \<Rightarrow> u64 \<times> vm_area_vector" where
  "merge_payloads [] p v = (p, v)"
| "merge_payloads (b # bs) p v = (case merge_payload_func v of
       Some f \<Rightarrow> merge_payloads bs (f p (client b)) v
     | None \<Rightarrow> merge_payloads bs p (call_free_payload v (client b)))"

definition merge_area :: "vm_area_vector \<Rightarrow> nat \<Rightarrow> nat \<Rightarrow> u64 \<Rightarrow> u64 \<Rightarrow> u64 \<Rightarrow> vm_area_vector" where
  "merge_area v k oend start fin data =
     (let b = vv_buf v ! k;
          last_end = a_end (vv_buf v ! (oend - 1));
          b = (if start < a_start b then b\<lparr>a_start := start\<rparr> else b);
          b = b\<lparr>a_end := (if fin > last_end then fin else last_end)\<rparr>;
          v' = (case merge_payload_func v of Some f \<Rightarrow> v | None \<Rightarrow> call_free_payload v (client b));
          b = (case merge_payload_func v of Some f \<Rightarrow> b\<lparr>client := f data (client b)\<rparr> | None \<Rightarrow> b);
          (p, v') = merge_payloads (drop (Suc k) (take oend (vv_buf v))) (client b) v'
      in v'\<lparr>vv_buf := take k (vv_buf v) @ b\<lparr>client := p\<rparr> # drop oend (vv_buf v)\<rparr>)"

definition finish_add :: "vm_area_vector \<Rightarrow> add_scan_result \<Rightarrow> u32 \<Rightarrow> u32 \<Rightarrow> u64 \<Rightarrow> vm_area_vector option" where
  "finish_add v r vmf frf data = (case r_ostart r of
     None \<Rightarrow> insert_area v (r_i r)
       \<lparr>a_start = r_start r, a_end = r_end r, vm_flags = vmf, frag_flags = frf, client = data\<rparr>
   | Some k \<Rightarrow>
       Some (merge_area v k (case r_oend r of None \<Rightarrow> length (vv_buf v) | Some j \<Rightarrow> j) (r_start r) (r_end r) data))"

text \<open>The recursive call adds what lies behind the area that stops the loop.\<close>

function add_vm_area :: "vm_area_vector \<Rightarrow> u64 \<Rightarrow> u64 \<Rightarrow> u32 \<Rightarrow> u32 \<Rightarrow> u64 \<Rightarrow> vm_area_vector option" where
  "add_vm_area v start fin vmf frf data =
     (if start < fin \<and> \<not> TEST VECTOR_FRAGMENT_LIST (vv_flags v)
      then case add_scan v vmf frf data 0 (vv_buf v) start fin None of
          None \<Rightarrow> None
        | Some r \<Rightarrow>
            (case r_rest r of
               None \<Rightarrow> finish_add (v\<lparr>vv_buf := r_areas r\<rparr>) r vmf frf data
             | Some (s, e) \<Rightarrow>
                 (case add_vm_area (v\<lparr>vv_buf := r_areas r\<rparr>) s e vmf frf
                    (case split_payload_func v of None \<Rightarrow> data | Some f \<Rightarrow> f data) of
                    None \<Rightarrow> None
                  | Some v' \<Rightarrow> finish_add v' r vmf frf data))
      else None)"
  by pat_completeness auto

text \<open>The call ends: it leaves the area that stopped the loop behind its start.\<close>

lemma drop_flags_bounds [simp]:
  "a_start (drop_flags vmf b) = a_start b" "a_end (drop_flags vmf b) = a_end b"
  "frag_flags (drop_flags vmf b) = frag_flags b" "client (drop_flags vmf b) = client b"
  by (simp_all add: drop_flags_def Let_def)

lemma drop_flags_same [simp]: "drop_flags (vm_flags b) b = b"
  by (simp add: drop_flags_def Let_def)

lemma must_split_overlaps:
  "joins v start fin vmf frf data b \<Longrightarrow> must_split v vmf frf data (drop_flags vmf b) \<Longrightarrow> overlaps start fin b"
  by (auto simp: joins_def must_split_def)

abbreviation area_bounds :: "vm_area list \<Rightarrow> (u64 \<times> u64) list" where
  "area_bounds \<equiv> map (\<lambda>b. (a_start b, a_end b))"

lemma cons_area_simps [simp]:
  "r_areas (cons_area b r) = b # r_areas r" "r_i (cons_area b r) = r_i r" "r_start (cons_area b r) = r_start r"
  "r_end (cons_area b r) = r_end r" "r_ostart (cons_area b r) = r_ostart r" "r_oend (cons_area b r) = r_oend r"
  "r_rest (cons_area b r) = r_rest r"
  by (simp_all add: cons_area_def)

lemma add_scan_bounds:
  "add_scan v vmf frf data i bs start fin os = Some r \<Longrightarrow> area_bounds (r_areas r) = area_bounds bs"
proof (induction bs arbitrary: i start fin os r)
  case (Cons b bs)
  from Cons.prems show ?case
    by (auto simp: Let_def split: if_splits bind_splits dest!: Cons.IH)
qed auto

lemma add_scan_rest:
  "add_scan v vmf frf data i bs start fin os = Some r \<Longrightarrow> r_rest r = Some (s, e) \<Longrightarrow>
     \<exists>b \<in> set bs. s = a_end b \<and> start < a_end b"
proof (induction bs arbitrary: i start fin os r)
  case (Cons b bs)
  note over = must_split_overlaps [of v start fin vmf frf data b, unfolded overlaps_def]
  from Cons.prems over show ?case
    by (auto simp: Let_def split: if_splits bind_splits dest!: Cons.IH intro: less_trans)
qed auto

definition ends_behind :: "u64 \<Rightarrow> u64 list \<Rightarrow> nat" where
  "ends_behind start es = length (filter (\<lambda>e. start < e) es)"

lemma ends_behind_less: "e \<in> set es \<Longrightarrow> start < e \<Longrightarrow> ends_behind e es < ends_behind start es"
proof (induction es)
  case (Cons x es)
  have "ends_behind e es \<le> ends_behind start es" for es
    using Cons.prems(2) by (induction es) (auto simp: ends_behind_def)
  with Cons show ?case by (auto simp: ends_behind_def le_imp_less_Suc)
qed simp

termination add_vm_area
proof (relation "measure (\<lambda>(v, start, _). ends_behind start (map a_end (vv_buf v)))", goal_cases)
  case (2 v start fin vmf frf data r se s e)
  have "map a_end (r_areas r) = map snd (area_bounds (r_areas r))" by simp
  also have "\<dots> = map a_end (vv_buf v)" using add_scan_bounds 2 by (simp add: comp_def)
  finally show ?case
    using add_scan_rest [of v vmf frf data 0 "vv_buf v" start fin None r s e] 2
    by (auto intro!: ends_behind_less)
qed simp

declare add_vm_area.simps [simp del]

subsection \<open>Removing a range\<close>

text \<open>The first area that overlaps the range, and the first one behind that does not.\<close>

fun remove_scan :: "nat \<Rightarrow> vm_area list \<Rightarrow> u64 \<Rightarrow> u64 \<Rightarrow> nat option \<Rightarrow> nat option \<times> nat option" where
  "remove_scan i [] start fin ostart = (ostart, None)"
| "remove_scan i (b # bs) start fin ostart =
     (if overlaps start fin b then remove_scan (Suc i) bs start fin (if ostart = None then Some i else ostart)
      else if ostart \<noteq> None then (ostart, Some i)
      else if fin \<le> a_start b then (ostart, None)
      else remove_scan (Suc i) bs start fin ostart)"

definition vm_make_writable :: "vm_area_vector \<Rightarrow> u64 \<Rightarrow> u64 \<Rightarrow> vm_area_vector" where
  "vm_make_writable v pc sz = v\<lparr>vv_made_writable := vv_made_writable v @ [(pc, sz)]\<rparr>"

definition restore_area :: "bool \<Rightarrow> vm_area \<Rightarrow> u64 \<Rightarrow> u64 \<Rightarrow> vm_area_vector \<Rightarrow> vm_area_vector" where
  "restore_area restore_prot b pc sz v =
     (if restore_prot \<and> DR_MADE_READONLY (vm_flags b) then vm_make_writable v pc sz else v)"

text \<open>The end of the first area is cut off; if its tail stays, that becomes a new area.\<close>

definition cut_first :: "bool \<Rightarrow> vm_area_vector \<Rightarrow> u64 \<Rightarrow> u64 \<Rightarrow> nat \<Rightarrow> nat \<Rightarrow>
    vm_area option \<times> nat \<times> vm_area_vector" where
  "cut_first restore_prot v start fin os oe =
     (let b = vv_buf v ! os
      in if start > a_start b
         then (if os = oe - 1 \<and> fin < a_end b then Some (b\<lparr>a_start := fin\<rparr>) else None, Suc os,
               (restore_area restore_prot b start (fin - start) v)\<lparr>vv_buf := (vv_buf v)[os := b\<lparr>a_end := start\<rparr>]\<rparr>)
         else (None, os, v))"

definition cut_last :: "bool \<Rightarrow> vm_area_vector \<Rightarrow> u64 \<Rightarrow> nat \<Rightarrow> nat \<times> vm_area_vector" where
  "cut_last restore_prot v fin oe =
     (let b = vv_buf v ! (oe - 1)
      in if fin < a_end b
         then (oe - 1, (restore_area restore_prot b (a_start b) (fin - a_start b) v)
                 \<lparr>vv_buf := (vv_buf v)[oe - 1 := b\<lparr>a_start := fin\<rparr>]\<rparr>)
         else (oe, v))"

definition delete_areas :: "bool \<Rightarrow> vm_area_vector \<Rightarrow> nat \<Rightarrow> nat \<Rightarrow> vm_area_vector" where
  "delete_areas restore_prot v os oe =
     (if os < oe then
        (fold (\<lambda>b v. call_free_payload (restore_area restore_prot b (a_start b) (a_end b - a_start b) v) (client b))
           (drop os (take oe (vv_buf v))) v)
        \<lparr>vv_buf := take os (vv_buf v) @ drop oe (vv_buf v)\<rparr>
      else v)"

definition add_split_area :: "vm_area_vector \<Rightarrow> vm_area option \<Rightarrow> vm_area_vector option" where
  "add_split_area v new_area = (case new_area of
     None \<Rightarrow> Some v
   | Some b \<Rightarrow> add_vm_area v (a_start b) (a_end b) (vm_flags b AND NOT VM_ADD_TO_SHARED_DATA)
       (frag_flags b AND NOT FRAG_COARSE_GRAIN)
       (case split_payload_func v of None \<Rightarrow> client b | Some f \<Rightarrow> f (client b)))"

definition remove_vm_area :: "vm_area_vector \<Rightarrow> u64 \<Rightarrow> u64 \<Rightarrow> bool \<Rightarrow> (bool \<times> vm_area_vector) option" where
  "remove_vm_area v start fin restore_prot =
     (if TEST VECTOR_FRAGMENT_LIST (vv_flags v) then None
      else case remove_scan 0 (vv_buf v) start fin None of
        (None, _) \<Rightarrow> Some (False, v)
      | (Some os, oend) \<Rightarrow> do {
          let oe = (case oend of None \<Rightarrow> length (vv_buf v) | Some j \<Rightarrow> j);
          let (new_area, os, v) = cut_first restore_prot v start fin os oe;
          let (oe, v) = cut_last restore_prot v fin oe;
          let v = delete_areas restore_prot v os oe;
          v \<leftarrow> add_split_area v new_area;
          Some (True, v) })"

subsection \<open>Lookup\<close>

text \<open>The loop that steps back to the first area that ends behind the start.\<close>

fun first_match :: "vm_area list \<Rightarrow> u64 \<Rightarrow> nat \<Rightarrow> nat" where
  "first_match bs start 0 = 0"
| "first_match bs start (Suc i) = (if a_end (bs ! i) > start then first_match bs start i else Suc i)"

text \<open>The result is whether an area was found and its index; if none was found, the last value of
\<^verbatim>\<open>max\<close> and of \<^verbatim>\<open>min\<close>.\<close>

function search_loop :: "vm_area list \<Rightarrow> u64 \<Rightarrow> u64 \<Rightarrow> bool \<Rightarrow> int \<Rightarrow> int \<Rightarrow> bool \<times> int \<times> int" where
  "search_loop bs start fin first lo hi =
     (if hi \<ge> lo then
        let i = (lo + hi) div 2; b = bs ! nat i
        in if fin \<noteq> 0 \<and> fin \<le> a_start b then search_loop bs start fin first lo (i - 1)
           else if start \<ge> a_end b \<or> start = fin then search_loop bs start fin first (i + 1) hi
           else (True, if first then int (first_match bs start (nat i)) else i, lo)
      else (False, hi, lo))"
  by pat_completeness auto
termination by (relation "measure (\<lambda>(_, _, _, _, lo, hi). nat (hi - lo + 1))") auto

declare search_loop.simps [simp del]

text \<open>The flag \<open>want_index\<close> says that \<^verbatim>\<open>index\<close> is not \<^verbatim>\<open>NULL\<close>.\<close>

definition binary_search :: "vm_area_vector \<Rightarrow> u64 \<Rightarrow> u64 \<Rightarrow> bool \<Rightarrow> bool \<Rightarrow> (bool \<times> int) option" where
  "binary_search v start fin want_index first = do {
     ASSERT (start \<noteq> 0 \<or> fin \<noteq> 0);
     ASSERT (start \<le> fin \<or> fin = 0);
     let (found, i, lo) = search_loop (vv_buf v) start fin first 0 (int (length (vv_buf v)) - 1);
     if found then Some (True, i)
     else do {
       ASSERT (\<not> want_index \<or>
         (i < 0 \<or> a_end (vv_buf v ! nat i) \<le> start \<or> start = fin) \<and>
         (lo > int (length (vv_buf v)) - 1 \<or> a_start (vv_buf v ! nat lo) \<ge> fin));
       Some (False, i) } }"

text \<open>The area found is given by its index.\<close>

definition lookup_addr :: "vm_area_vector \<Rightarrow> u64 \<Rightarrow> nat option option" where
  "lookup_addr v addr = do {
     (found, i) \<leftarrow> binary_search v addr (addr + 1) False False;
     Some (if found then Some (nat i) else None) }"

definition vm_area_overlap :: "vm_area_vector \<Rightarrow> u64 \<Rightarrow> u64 \<Rightarrow> bool option" where
  "vm_area_overlap v start fin = do {
     (found, i) \<leftarrow> binary_search v start fin False False;
     Some found }"

end
