(* ===== verification/VmVectorInv.thy ===== *)
theory VmVectorInv
  imports VmVector
begin

text \<open>
  What insertion, removal and lookup in a vector of areas do to the addresses that it covers. The
  areas stay sorted and disjoint; adding a range covers it, removing one uncovers it, and the binary search
  finds the area that contains an address.
\<close>

subsection \<open>The invariant\<close>

text \<open>The fields that no operation on the areas changes.\<close>

definition same_setup :: "vm_area_vector \<Rightarrow> vm_area_vector \<Rightarrow> bool" where
  "same_setup v v' \<longleftrightarrow> vv_flags v' = vv_flags v \<and> vv_lock v' = vv_lock v \<and>
     free_payload_func v' = free_payload_func v \<and> split_payload_func v' = split_payload_func v \<and>
     should_merge_func v' = should_merge_func v \<and> merge_payload_func v' = merge_payload_func v"

lemma same_setup_trans: "same_setup u v \<Longrightarrow> same_setup v w \<Longrightarrow> same_setup u w"
  by (simp add: same_setup_def)

lemma same_setup_refl [simp]: "same_setup v v"
  by (simp add: same_setup_def)

definition addrs :: "vm_area \<Rightarrow> u64 set" where
  "addrs b = {a_start b..<a_end b}"

definition cover :: "vm_area list \<Rightarrow> u64 set" where
  "cover bs = (\<Union>b \<in> set bs. addrs b)"

text \<open>The addresses with the payload of their area.\<close>

definition points :: "vm_area list \<Rightarrow> (u64 \<times> u64) set" where
  "points bs = (\<Union>b \<in> set bs. addrs b \<times> {client b})"

definition areas_wf :: "vm_area list \<Rightarrow> bool" where
  "areas_wf bs \<longleftrightarrow> (\<forall>b \<in> set bs. a_start b < a_end b) \<and> sorted_wrt (\<lambda>a b. a_end a \<le> a_start b) bs"

lemma cover_simps [simp]: "cover [] = {}" "cover (b # bs) = addrs b \<union> cover bs"
  "cover (as @ bs) = cover as \<union> cover bs"
  by (auto simp: cover_def)

lemma points_simps [simp]: "points [] = {}" "points (b # bs) = addrs b \<times> {client b} \<union> points bs"
  "points (as @ bs) = points as \<union> points bs"
  by (auto simp: points_def)

lemma cover_points: "cover bs = fst ` points bs"
  by (force simp: cover_def points_def)

lemma areas_wf_Nil [simp]: "areas_wf []"
  by (simp add: areas_wf_def)

lemma areas_wf_Cons: "areas_wf (b # bs) \<longleftrightarrow> a_start b < a_end b \<and> (\<forall>c \<in> set bs. a_end b \<le> a_start c) \<and> areas_wf bs"
  by (auto simp: areas_wf_def)

lemma areas_wf_append: "areas_wf (as @ bs) \<longleftrightarrow>
    areas_wf as \<and> areas_wf bs \<and> (\<forall>a \<in> set as. \<forall>b \<in> set bs. a_end a \<le> a_start b)"
  by (auto simp: areas_wf_def sorted_wrt_append)

lemma areas_wf_bounds: "area_bounds as = area_bounds bs \<Longrightarrow> areas_wf as = areas_wf bs"
proof -
  have "areas_wf cs \<longleftrightarrow> (\<forall>(s, e) \<in> set (area_bounds cs). s < e) \<and>
      sorted_wrt (\<lambda>(_, e) (s, _). e \<le> s) (area_bounds cs)" for cs
    by (auto simp: areas_wf_def sorted_wrt_map)
  note eq = this
  show "area_bounds as = area_bounds bs \<Longrightarrow> areas_wf as = areas_wf bs" by (simp only: eq)
qed

lemma cover_bounds: "area_bounds as = area_bounds bs \<Longrightarrow> cover as = cover bs"
proof -
  assume *: "area_bounds as = area_bounds bs"
  have eq: "cover cs = (\<Union>(s, e) \<in> set (area_bounds cs). {s..<e})" for cs
    by (auto simp: cover_def addrs_def)
  show ?thesis by (simp only: eq *)
qed

text \<open>The part of the range that is still to be added, after the scan.\<close>

definition rest_addrs :: "add_scan_result \<Rightarrow> u64 set" where
  "rest_addrs r = (case r_rest r of None \<Rightarrow> {} | Some (s, e) \<Rightarrow> {s..<e})"

lemma rest_addrs_cons [simp]: "rest_addrs (cons_area b r) = rest_addrs r"
  by (simp add: rest_addrs_def)

text \<open>One round of the scan.\<close>

lemma add_scan_ConsE:
  assumes "add_scan v vmf frf data i (b # bs) start fin os = Some r"
  obtains
    (split) "overlaps start fin b" "must_split v vmf frf data (drop_flags vmf b)" "start < a_start b"
      "r = \<lparr>r_areas = drop_flags vmf b # bs, r_i = i, r_start = start, r_end = a_start b,
         r_ostart = (if os = None \<or> os = Some i then None else os), r_oend = Some i,
         r_rest = (if fin > a_end b then Some (a_end b, fin) else None)\<rparr>"
  | (shift) x where "overlaps start fin b" "a_start b \<le> start" "a_end b < fin"
      "add_scan v vmf frf data (Suc i) bs (a_end b) fin None = Some x" "r = cons_area (drop_flags vmf b) x"
  | (join) x where "joins v start fin vmf frf data b"
      "add_scan v vmf frf data (Suc i) bs start fin (if os = None then Some i else os) = Some x"
      "r = cons_area (drop_flags vmf b) x"
  | (stop) "\<not> joins v start fin vmf frf data b" "os \<noteq> None"
      "r = \<lparr>r_areas = b # bs, r_i = i, r_start = start, r_end = fin, r_ostart = os, r_oend = Some i, r_rest = None\<rparr>"
  | (before) "\<not> joins v start fin vmf frf data b" "os = None" "fin \<le> a_start b"
      "r = \<lparr>r_areas = b # bs, r_i = i, r_start = start, r_end = fin, r_ostart = os, r_oend = None, r_rest = None\<rparr>"
  | (skip) x where "\<not> joins v start fin vmf frf data b" "os = None" "a_start b < fin"
      "add_scan v vmf frf data (Suc i) bs start fin os = Some x" "r = cons_area b x"
proof (cases "joins v start fin vmf frf data b")
  case False
  with assms that(4-6) show thesis by (auto split: if_splits bind_splits simp: not_le)
next
  case True
  show thesis
  proof (cases "must_split v vmf frf data (drop_flags vmf b)")
    case must: True
    note over = must_split_overlaps [OF True must]
    show thesis
    proof (cases "start < a_start b")
      case before: True
      show thesis by (rule split [OF over must before])
        (use assms True must before in \<open>auto simp: Let_def split: if_splits\<close>)
    next
      case False
      show thesis
      proof (cases "a_end b < fin")
        case fin: True
        with assms True must False obtain x where "add_scan v vmf frf data (Suc i) bs (a_end b) fin None = Some x"
          "r = cons_area (drop_flags vmf b) x" by (auto simp: Let_def split: if_splits bind_splits)
        with shift over False fin show thesis by (simp add: not_less)
      next
        case fin: False
        with assms True must False obtain x where
          "add_scan v vmf frf data (Suc i) bs start fin (if os = None then Some i else os) = Some x"
          "r = cons_area (drop_flags vmf b) x" by (auto simp: Let_def split: if_splits bind_splits)
        with join True show thesis by simp
      qed
    qed
  next
    case False
    with assms True obtain x where
      "add_scan v vmf frf data (Suc i) bs start fin (if os = None then Some i else os) = Some x"
      "r = cons_area (drop_flags vmf b) x" by (auto simp: Let_def split: if_splits bind_splits)
    with join True show thesis by simp
  qed
qed

lemma add_scan_cover:
  "add_scan v vmf frf data i bs start fin os = Some r \<Longrightarrow> areas_wf bs \<Longrightarrow>
     {start..<fin} \<union> cover bs = {r_start r..<r_end r} \<union> rest_addrs r \<union> cover bs"
proof (induction bs arbitrary: i start fin os r)
  case Nil
  then show ?case by (auto simp: rest_addrs_def)
next
  case (Cons b bs)
  have wf: "areas_wf bs" "a_start b < a_end b" using Cons.prems by (simp_all add: areas_wf_Cons)
  from Cons.prems(1) show ?case
  proof (cases rule: add_scan_ConsE)
    case split
    have rest: "rest_addrs r = (if fin > a_end b then {a_end b..<fin} else {})"
      and bounds: "r_start r = start" "r_end r = a_start b" using split by (simp_all add: rest_addrs_def)
    have "{start..<fin} \<union> addrs b = {start..<a_start b} \<union> rest_addrs r \<union> addrs b"
      using split(1,3) wf(2) by (auto simp: addrs_def rest overlaps_def)
    then show ?thesis unfolding bounds cover_simps by blast
  next
    case (shift x)
    have "{start..<fin} \<union> addrs b = {a_end b..<fin} \<union> addrs b"
      using shift by (auto simp: addrs_def overlaps_def)
    moreover note Cons.IH [OF shift(4) wf(1)]
    ultimately show ?thesis unfolding shift(5) cons_area_simps rest_addrs_cons cover_simps by blast
  next
    case (join x)
    show ?thesis using Cons.IH [OF join(2) wf(1)] unfolding join(3) cons_area_simps rest_addrs_cons cover_simps by blast
  next
    case (skip x)
    show ?thesis using Cons.IH [OF skip(4) wf(1)] unfolding skip(5) cons_area_simps rest_addrs_cons cover_simps by blast
  qed (simp_all add: rest_addrs_def)
qed

text \<open>Where the new area goes: the areas before it end before it, those behind it start behind it, and those
that are merged touch it.\<close>

definition oend_of :: "vm_area list \<Rightarrow> add_scan_result \<Rightarrow> nat" where
  "oend_of bs r = (case r_oend r of None \<Rightarrow> length bs | Some j \<Rightarrow> j)"

definition place_ok :: "vm_area list \<Rightarrow> add_scan_result \<Rightarrow> bool" where
  "place_ok bs r \<longleftrightarrow> r_start r < r_end r \<and> (case r_ostart r of
     None \<Rightarrow> r_i r \<le> length bs \<and> (\<forall>b \<in> set (take (r_i r) bs). a_end b \<le> r_start r) \<and>
       (\<forall>b \<in> set (drop (r_i r) bs). r_end r \<le> a_start b)
   | Some k \<Rightarrow> k < oend_of bs r \<and> oend_of bs r \<le> length bs \<and>
       (\<forall>b \<in> set (take k bs). a_end b \<le> r_start r) \<and>
       (\<forall>b \<in> set (drop k (take (oend_of bs r) bs)). r_start r \<le> a_end b \<and> a_start b \<le> r_end r) \<and>
       (\<forall>b \<in> set (drop (oend_of bs r) bs). r_end r \<le> a_start b))"

lemma place_ok_cons [simp]: "place_ok bs (cons_area b r) = place_ok bs r"
  by (cases "r_ostart r") (simp_all add: place_ok_def oend_of_def)

definition scan_inv :: "vm_area list \<Rightarrow> u64 \<Rightarrow> u64 \<Rightarrow> nat option \<Rightarrow> bool" where
  "scan_inv pre start fin os \<longleftrightarrow> start < fin \<and> (case os of
     None \<Rightarrow> (\<forall>b \<in> set pre. a_end b \<le> start)
   | Some k \<Rightarrow> k < length pre \<and> (\<forall>b \<in> set (take k pre). a_end b \<le> start) \<and>
       (\<forall>b \<in> set (drop k pre). start \<le> a_end b \<and> a_start b \<le> fin))"

lemma joins_touch: "joins v start fin vmf frf data b \<Longrightarrow> start \<le> a_end b \<and> a_start b \<le> fin"
  by (auto simp: joins_def overlaps_def)

lemma not_joins: "\<not> joins v start fin vmf frf data b \<Longrightarrow> a_end b \<le> start \<or> fin \<le> a_start b"
  by (auto simp: joins_def overlaps_def)

lemma scan_inv_snoc:
  assumes "scan_inv pre start fin os" "start \<le> a_end c" "a_start c \<le> fin"
  shows "scan_inv (pre @ [c]) start fin (if os = None then Some (length pre) else os)"
  using assms by (auto simp: scan_inv_def split: option.splits)

lemma scan_inv_stop:
  assumes "scan_inv pre start fin (Some k)" "areas_wf (pre @ b # bs)"
    "\<not> joins v start fin vmf frf data b"
  shows "fin \<le> a_start b"
proof -
  have "pre ! k \<in> set (drop k pre)" "pre ! k \<in> set pre"
    using assms(1) by (auto simp: scan_inv_def Cons_nth_drop_Suc [symmetric])
  with assms(1,2) have "start \<le> a_end (pre ! k)" "a_end (pre ! k) \<le> a_start b" "a_start b < a_end b"
    by (auto simp: scan_inv_def areas_wf_append areas_wf_Cons)
  with not_joins [OF assms(3)] show ?thesis by auto
qed

lemma add_scan_place:
  "add_scan v vmf frf data (length pre) bs start fin os = Some r \<Longrightarrow> areas_wf (pre @ bs) \<Longrightarrow>
     scan_inv pre start fin os \<Longrightarrow> place_ok (pre @ r_areas r) r"
proof (induction bs arbitrary: pre start fin os r)
  case Nil
  then show ?case by (auto simp: scan_inv_def place_ok_def oend_of_def split: option.splits)
next
  case (Cons b bs)
  have wf: "a_start b < a_end b" "\<forall>c \<in> set pre. a_end c \<le> a_start b" "\<forall>c \<in> set bs. a_end b \<le> a_start c"
    using Cons.prems(2) by (auto simp: areas_wf_Cons areas_wf_append)
  have pre: "\<forall>c \<in> set pre. a_start c \<le> a_start b"
  proof
    fix c assume "c \<in> set pre"
    then have "a_start c < a_end c" "a_end c \<le> a_start b"
      using Cons.prems(2) by (auto simp: areas_wf_def sorted_wrt_append)
    then show "a_start c \<le> a_start b" by simp
  qed
  have IH: "place_ok (pre @ r_areas (cons_area c x)) (cons_area c x)"
    if "a_start c = a_start b" "a_end c = a_end b" "add_scan v vmf frf data (Suc (length pre)) bs s f os = Some x"
      "scan_inv (pre @ [c]) s f os" for c s f os x
  proof -
    have "areas_wf ((pre @ [c]) @ bs)" using Cons.prems(2) that by (auto simp: areas_wf_Cons areas_wf_append)
    from Cons.IH [OF _ this that(4)] that(3) have "place_ok (pre @ c # r_areas x) x" by simp
    then show ?thesis by simp
  qed
  from Cons.prems(1) show ?case
  proof (cases rule: add_scan_ConsE)
    case split
    with Cons.prems(3) wf pre show ?thesis
      by (auto simp: place_ok_def oend_of_def scan_inv_def split: option.splits dest: in_set_dropD)
  next
    case (shift x)
    show ?thesis unfolding shift(5)
      by (rule IH [OF _ _ shift(4)]) (use shift wf in \<open>auto simp: scan_inv_def\<close>)
  next
    case (join x)
    show ?thesis unfolding join(3)
      by (rule IH [OF _ _ join(2)])
        (use joins_touch [OF join(1)] scan_inv_snoc [OF Cons.prems(3), of "drop_flags vmf b"] in simp_all)
  next
    case stop
    then obtain k where "os = Some k" by auto
    with scan_inv_stop [OF _ Cons.prems(2) stop(1), of k] Cons.prems(3) have "fin \<le> a_start b" by simp
    moreover from this wf(1,3) have "\<forall>c \<in> set bs. fin \<le> a_start c" by (meson less_imp_le order.trans)
    ultimately show ?thesis using Cons.prems(3) stop \<open>os = Some k\<close>
      by (auto simp: place_ok_def oend_of_def scan_inv_def)
  next
    case before
    with Cons.prems(3) wf show ?thesis by (auto simp: place_ok_def oend_of_def scan_inv_def)
  next
    case (skip x)
    show ?thesis unfolding skip(5)
      by (rule IH [OF _ _ skip(4)])
        (use not_joins [OF skip(1)] skip Cons.prems(3) in \<open>auto simp: scan_inv_def\<close>)
  qed
qed

text \<open>The area that stops the loop keeps its place: it is of another type, so that the recursive call does
not touch it.\<close>

definition rest_ok :: "vm_area list \<Rightarrow> u64 \<Rightarrow> u32 \<Rightarrow> u32 \<Rightarrow> add_scan_result \<Rightarrow> bool" where
  "rest_ok bs start vmf frf r \<longleftrightarrow> (case r_rest r of None \<Rightarrow> True | Some (s, e) \<Rightarrow>
     start < s \<and> s < e \<and> r_i r < length bs \<and> r_oend r = Some (r_i r) \<and> s = a_end (bs ! r_i r) \<and>
     (\<forall>b \<in> set (take (Suc (r_i r)) bs). a_end b \<le> s) \<and>
     \<not> (vmf = vm_flags (bs ! r_i r) \<and> frf = frag_flags (bs ! r_i r)))"

lemma rest_ok_cons [simp]: "rest_ok bs start vmf frf (cons_area b r) = rest_ok bs start vmf frf r"
  by (cases "r_rest r") (auto simp: rest_ok_def)

lemma rest_ok_mono: "rest_ok bs s vmf frf r \<Longrightarrow> start \<le> s \<Longrightarrow> rest_ok bs start vmf frf r"
  by (auto simp: rest_ok_def split: option.splits)

lemma add_scan_rest_ok:
  "add_scan v vmf frf data (length pre) bs start fin os = Some r \<Longrightarrow> areas_wf (pre @ bs) \<Longrightarrow>
     rest_ok (pre @ r_areas r) start vmf frf r"
proof (induction bs arbitrary: pre start fin os r)
  case Nil
  then show ?case by (auto simp: rest_ok_def)
next
  case (Cons b bs)
  have wf: "a_start b < a_end b" "\<forall>c \<in> set pre. a_end c \<le> a_start b" "\<forall>c \<in> set bs. a_end b \<le> a_start c"
    using Cons.prems(2) by (auto simp: areas_wf_Cons areas_wf_append)
  have IH: "rest_ok (pre @ r_areas (cons_area c x)) st vmf frf (cons_area c x)"
    if "a_start c = a_start b" "a_end c = a_end b"
      "add_scan v vmf frf data (Suc (length pre)) bs st f os = Some x" for c st f os x
  proof -
    have "areas_wf ((pre @ [c]) @ bs)" using Cons.prems(2) that by (auto simp: areas_wf_Cons areas_wf_append)
    from Cons.IH [OF _ this] that(3) show ?thesis by simp
  qed
  from Cons.prems(1) show ?case
  proof (cases rule: add_scan_ConsE)
    case split
    with wf show ?thesis by (fastforce simp: rest_ok_def must_split_def overlaps_def)
  next
    case (shift x)
    have "start \<le> a_end b" using shift(1) by (auto simp: overlaps_def)
    with IH [of "drop_flags vmf b", OF _ _ shift(4)] show ?thesis unfolding shift(5) by (simp add: rest_ok_mono)
  next
    case (join x)
    with IH [OF _ _ join(2)] show ?thesis by simp
  next
    case (skip x)
    with IH [OF _ _ skip(4)] show ?thesis by simp
  qed (simp_all add: rest_ok_def)
qed

subsection \<open>Insertion and merging\<close>

lemma area_bounds_nth: "area_bounds as = area_bounds bs \<Longrightarrow> length as = length bs"
  by (drule arg_cong [where f = length]) simp

lemma check_size_frame [simp]:
  "vv_buf (vm_area_vector_check_size v) = vv_buf v" "vv_flags (vm_area_vector_check_size v) = vv_flags v"
  "should_merge_func (vm_area_vector_check_size v) = should_merge_func v"
  by (simp_all add: vm_area_vector_check_size_def)

lemma insert_area_buf:
  "insert_area v i b = Some v' \<Longrightarrow> vv_buf v' = take i (vv_buf v) @ b # drop i (vv_buf v)"
  by (auto simp: insert_area_def Let_def split: if_splits)

lemma merge_payloads_frame [simp]:
  "vv_buf (snd (merge_payloads bs p v)) = vv_buf v" "vv_flags (snd (merge_payloads bs p v)) = vv_flags v"
  "vv_size (snd (merge_payloads bs p v)) = vv_size v" "vv_lock (snd (merge_payloads bs p v)) = vv_lock v"
  "free_payload_func (snd (merge_payloads bs p v)) = free_payload_func v"
  "split_payload_func (snd (merge_payloads bs p v)) = split_payload_func v"
  "should_merge_func (snd (merge_payloads bs p v)) = should_merge_func v"
  "merge_payload_func (snd (merge_payloads bs p v)) = merge_payload_func v"
  by (induction bs arbitrary: p v) (simp_all add: call_free_payload_def split: option.split)

lemma merge_area_buf:
  "\<exists>b. vv_buf (merge_area v k oe start fin data) = take k (vv_buf v) @ b # drop oe (vv_buf v) \<and>
     a_start b = min start (a_start (vv_buf v ! k)) \<and> a_end b = max fin (a_end (vv_buf v ! (oe - 1)))"
  by (auto simp: merge_area_def Let_def min_def max_def split: option.splits prod.splits)

lemma areas_wf_split: "areas_wf bs \<Longrightarrow> areas_wf (take n bs) \<and> areas_wf (drop n bs) \<and>
    (\<forall>a \<in> set (take n bs). \<forall>b \<in> set (drop n bs). a_end a \<le> a_start b)"
  using areas_wf_append [of "take n bs" "drop n bs"] by simp

lemma areas_wf_drop: "areas_wf bs \<Longrightarrow> areas_wf (drop n bs)"
  by (metis append_take_drop_id areas_wf_append)

lemma areas_wf_take: "areas_wf bs \<Longrightarrow> areas_wf (take n bs)"
  by (metis append_take_drop_id areas_wf_append)

lemma areas_wf_hd_last:
  "areas_wf bs \<Longrightarrow> c \<in> set bs \<Longrightarrow> a_start (hd bs) \<le> a_start c \<and> a_end c \<le> a_end (last bs)"
proof (induction bs)
  case (Cons b bs)
  show ?case
  proof (cases "c = b \<or> bs = []")
    case True
    have "a_end b \<le> a_end (last bs)" if "bs \<noteq> []"
    proof -
      have "a_end b \<le> a_start (last bs)" "a_start (last bs) < a_end (last bs)"
        using Cons.prems(1) last_in_set [OF that] by (auto simp: areas_wf_def)
      then show ?thesis by simp
    qed
    with True Cons.prems(2) show ?thesis by auto
  next
    case False
    with Cons.prems have "a_start b < a_end b" "a_end b \<le> a_start c" by (auto simp: areas_wf_Cons)
    with False Cons show ?thesis by (auto simp: areas_wf_Cons)
  qed
qed simp

lemma merge_cover:
  assumes wf: "areas_wf bs" "bs \<noteq> []" and touch: "\<forall>b \<in> set bs. s \<le> a_end b \<and> a_start b \<le> e" "s < e"
  shows "{min s (a_start (hd bs))..<max e (a_end (last bs))} = {s..<e} \<union> cover bs"
proof
  have in_set: "hd bs \<in> set bs" "last bs \<in> set bs" using wf(2) by simp_all
  show "{min s (a_start (hd bs))..<max e (a_end (last bs))} \<subseteq> {s..<e} \<union> cover bs"
  proof
    fix x assume "x \<in> {min s (a_start (hd bs))..<max e (a_end (last bs))}"
    then have "s \<le> x \<or> a_start (hd bs) \<le> x" "x < e \<or> x < a_end (last bs)"
      by (simp_all add: min_le_iff_disj less_max_iff_disj)
    then consider "s \<le> x" "x < e" | "a_start (hd bs) \<le> x" "x < s" | "e \<le> x" "x < a_end (last bs)"
      by (meson not_le)
    then show "x \<in> {s..<e} \<union> cover bs"
    proof cases
      case 2
      with touch(1) in_set(1) have "x \<in> addrs (hd bs)" by (auto simp: addrs_def)
      with in_set(1) show ?thesis by (auto simp: cover_def)
    next
      case 3
      with touch(1) in_set(2) have "x \<in> addrs (last bs)" by (auto simp: addrs_def)
      with in_set(2) show ?thesis by (auto simp: cover_def)
    qed simp
  qed
  show "{s..<e} \<union> cover bs \<subseteq> {min s (a_start (hd bs))..<max e (a_end (last bs))}"
  proof
    fix x assume "x \<in> {s..<e} \<union> cover bs"
    then show "x \<in> {min s (a_start (hd bs))..<max e (a_end (last bs))}"
    proof
      assume "x \<in> cover bs"
      then obtain c where "c \<in> set bs" "a_start c \<le> x" "x < a_end c" by (auto simp: cover_def addrs_def)
      with areas_wf_hd_last [OF wf(1)] show ?thesis by (auto simp: min_le_iff_disj less_max_iff_disj intro: order.trans less_le_trans)
    qed (auto simp: min_le_iff_disj less_max_iff_disj)
  qed
qed

lemma finish_add_correct:
  assumes "finish_add v r vmf frf data = Some v'" "place_ok (vv_buf v) r" "areas_wf (vv_buf v)"
  shows "areas_wf (vv_buf v') \<and> cover (vv_buf v') = {r_start r..<r_end r} \<union> cover (vv_buf v)"
proof (cases "r_ostart r")
  case None
  let ?bs = "vv_buf v" and ?b = "\<lparr>a_start = r_start r, a_end = r_end r, vm_flags = vmf, frag_flags = frf, client = data\<rparr>"
  have buf: "vv_buf v' = take (r_i r) ?bs @ ?b # drop (r_i r) ?bs"
    using assms(1) None by (simp add: finish_add_def insert_area_buf)
  from areas_wf_split [OF assms(3), of "r_i r"] assms(2) None buf have "areas_wf (vv_buf v')"
    by (simp add: place_ok_def areas_wf_append areas_wf_Cons)
  moreover have "cover ?bs = cover (take (r_i r) ?bs @ drop (r_i r) ?bs)" by simp
  then have "cover (vv_buf v') = {r_start r..<r_end r} \<union> cover ?bs"
    unfolding buf cover_simps by (auto simp: addrs_def)
  ultimately show ?thesis by simp
next
  case (Some k)
  let ?bs = "vv_buf v" and ?oe = "oend_of (vv_buf v) r"
  have k: "k < ?oe" "?oe \<le> length ?bs" and before: "\<forall>b \<in> set (take k ?bs). a_end b \<le> r_start r"
    and behind: "\<forall>b \<in> set (drop ?oe ?bs). r_end r \<le> a_start b" and fin: "r_start r < r_end r"
    and touch: "\<forall>b \<in> set (drop k (take ?oe ?bs)). r_start r \<le> a_end b \<and> a_start b \<le> r_end r"
    using assms(2) Some by (auto simp: place_ok_def)
  obtain b where buf: "vv_buf v' = take k ?bs @ b # drop ?oe ?bs"
    and b: "a_start b = min (r_start r) (a_start (?bs ! k))" "a_end b = max (r_end r) (a_end (?bs ! (?oe - 1)))"
    using assms(1) Some merge_area_buf [of v k ?oe "r_start r" "r_end r" data]
    by (auto simp: finish_add_def oend_of_def)
  let ?M = "drop k (take ?oe ?bs)"
  have bs: "?bs = take k ?bs @ ?M @ drop ?oe ?bs"
    using k by (metis append_assoc append_take_drop_id min.absorb1 less_imp_le take_take)
  have M: "?M \<noteq> []" "hd ?M = ?bs ! k" "last ?M = ?bs ! (?oe - 1)"
    using k by (auto simp: hd_drop_conv_nth last_conv_nth)
  have wf: "areas_wf (take k ?bs @ ?M @ drop ?oe ?bs)" using assms(3) bs by simp
  then have wfM: "areas_wf ?M" by (simp add: areas_wf_append)
  have addrs: "addrs b = {r_start r..<r_end r} \<union> cover ?M"
    using merge_cover [OF wfM M(1) touch fin] b M(2,3) by (simp add: addrs_def)
  have "?bs ! k \<in> set ?M" "?bs ! (?oe - 1) \<in> set ?M" using M by (metis hd_in_set, metis last_in_set)
  with wf before behind have "\<forall>a \<in> set (take k ?bs). a_end a \<le> a_start b"
      "\<forall>c \<in> set (drop ?oe ?bs). a_end b \<le> a_start c"
    by (auto simp: b areas_wf_append)
  moreover have "a_start b < a_end b" using fin b by (auto simp: min_less_iff_disj less_max_iff_disj)
  moreover have "\<forall>a \<in> set (take k ?bs). \<forall>c \<in> set (drop ?oe ?bs). a_end a \<le> a_start c"
    using wf by (auto simp: areas_wf_append)
  ultimately have "areas_wf (vv_buf v')"
    unfolding buf using wf by (simp add: areas_wf_append areas_wf_Cons)
  moreover have "cover ?bs = cover (take k ?bs) \<union> cover ?M \<union> cover (drop ?oe ?bs)"
    using arg_cong [OF bs, of cover] by (simp only: cover_simps Un_assoc)
  then have "cover (vv_buf v') = {r_start r..<r_end r} \<union> cover ?bs"
    unfolding buf cover_simps addrs by auto
  ultimately show ?thesis by simp
qed


text \<open>What lies in front of the new area and does not touch it stays as it is.\<close>

definition untouched :: "vm_area_vector \<Rightarrow> u64 \<Rightarrow> u64 \<Rightarrow> u32 \<Rightarrow> u32 \<Rightarrow> u64 \<Rightarrow> nat \<Rightarrow> bool" where
  "untouched v start fin vmf frf data n \<longleftrightarrow> n \<le> length (vv_buf v) \<and>
     (\<forall>b \<in> set (take n (vv_buf v)). a_end b \<le> start \<and> (a_end b = start \<longrightarrow> \<not> (vmf = vm_flags b \<and> frf = frag_flags b)))"

lemma not_joins_behind:
  "a_end b \<le> start \<Longrightarrow> (a_end b = start \<longrightarrow> \<not> (vmf = vm_flags b \<and> frf = frag_flags b)) \<Longrightarrow>
     \<not> joins v start fin vmf frf data b"
  by (auto simp: joins_def overlaps_def)

lemma add_scan_skips:
  "add_scan v vmf frf data i (as @ bs) start fin None = Some r \<Longrightarrow>
     \<forall>b \<in> set as. a_start b < fin \<and> \<not> joins v start fin vmf frf data b \<Longrightarrow>
     \<exists>x. add_scan v vmf frf data (i + length as) bs start fin None = Some x \<and> r = x\<lparr>r_areas := as @ r_areas x\<rparr>"
proof (induction as arbitrary: i r)
  case (Cons b as)
  from Cons.prems(2) have "\<not> joins v start fin vmf frf data b" "\<not> fin \<le> a_start b" by auto
  with Cons.prems(1) obtain x where "add_scan v vmf frf data (Suc i) (as @ bs) start fin None = Some x"
    "r = cons_area b x" by (auto split: bind_splits)
  with Cons.IH [of "Suc i" x] Cons.prems(2) show ?case by (auto simp: cons_area_def)
qed simp

lemma add_scan_index:
  "add_scan v vmf frf data i bs start fin os = Some r \<Longrightarrow> \<forall>k. os = Some k \<longrightarrow> n \<le> k \<Longrightarrow> n \<le> i \<Longrightarrow>
     n \<le> r_i r \<and> (\<forall>k. r_ostart r = Some k \<longrightarrow> n \<le> k)"
proof (induction bs arbitrary: i start fin os r)
  case Nil
  then show ?case by auto
next
  case (Cons b bs)
  from Cons.prems(1) show ?case
  proof (cases rule: add_scan_ConsE)
    case (shift x)
    with Cons.IH [OF shift(4)] Cons.prems(3) show ?thesis by simp
  next
    case (join x)
    with Cons.IH [OF join(2)] Cons.prems(2,3) show ?thesis by (cases os) simp_all
  next
    case (skip x)
    with Cons.IH [OF skip(4)] Cons.prems(2,3) show ?thesis by simp
  qed (use Cons.prems(2,3) in simp_all)
qed

lemma finish_add_prefix:
  assumes "finish_add v r vmf frf data = Some v'" "n \<le> r_i r" "\<forall>k. r_ostart r = Some k \<longrightarrow> n \<le> k"
    "n \<le> length (vv_buf v)" "place_ok (vv_buf v) r"
  shows "take n (vv_buf v') = take n (vv_buf v) \<and> n \<le> length (vv_buf v')"
proof (cases "r_ostart r")
  case None
  with assms show ?thesis
    by (auto simp: finish_add_def insert_area_buf place_ok_def min_def)
next
  case (Some k)
  obtain b where "vv_buf v' = take k (vv_buf v) @ b # drop (oend_of (vv_buf v) r) (vv_buf v)"
    using assms(1) Some merge_area_buf [of v k "oend_of (vv_buf v) r" "r_start r" "r_end r" data]
    by (auto simp: finish_add_def oend_of_def)
  with assms Some show ?thesis by (auto simp: place_ok_def min_def)
qed


lemma rest_untouched:
  assumes rest: "rest_ok bs start vmf frf r" and se: "r_rest r = Some (s, e)" and wf: "areas_wf bs"
    and v: "vv_buf v = bs"
  shows "untouched v s e vmf frf d (Suc (r_i r))"
proof -
  let ?i = "r_i r"
  have i: "?i < length bs" "s = a_end (bs ! ?i)" "\<not> (vmf = vm_flags (bs ! ?i) \<and> frf = frag_flags (bs ! ?i))"
    and le: "\<forall>b \<in> set (take (Suc ?i) bs). a_end b \<le> s"
    using rest se by (auto simp: rest_ok_def)
  have "a_end b < s" if "b \<in> set (take ?i bs)" for b
  proof -
    have "bs ! ?i \<in> set (drop ?i bs)" using i(1) by (metis Cons_nth_drop_Suc list.set_intros(1))
    with areas_wf_split [OF wf, of ?i] that have "a_end b \<le> a_start (bs ! ?i)" by simp
    moreover have "a_start (bs ! ?i) < s" using wf i by (auto simp: areas_wf_def)
    ultimately show ?thesis by simp
  qed
  then have "a_end b = s \<longrightarrow> b = bs ! ?i" if "b \<in> set (take (Suc ?i) bs)" for b
    using that i(1) by (auto simp: take_Suc_conv_app_nth)
  with i le v show ?thesis by (fastforce simp: untouched_def)
qed

lemma place_ok_prefix:
  assumes place: "place_ok bs r" and prefix: "take (Suc (r_i r)) cs = take (Suc (r_i r)) bs"
    and len: "Suc (r_i r) \<le> length cs" and i: "r_i r < length bs" "r_oend r = Some (r_i r)" and wf: "areas_wf cs"
  shows "place_ok cs r"
proof -
  let ?i = "r_i r"
  have take: "take n cs = take n bs" if "n \<le> Suc ?i" for n
    using arg_cong [OF prefix, of "take n"] that by (simp add: min_def split: if_splits)
  have nth: "cs ! ?i = bs ! ?i" using prefix by (metis lessI nth_take)
  have "r_end r \<le> a_start (bs ! ?i)"
    using place i by (auto simp: place_ok_def oend_of_def Cons_nth_drop_Suc [symmetric] split: option.splits)
  moreover have "drop ?i cs = cs ! ?i # drop (Suc ?i) cs" using len by (simp add: Cons_nth_drop_Suc)
  moreover from this areas_wf_drop [OF wf, of ?i] have "\<forall>c \<in> set (drop ?i cs). a_start (cs ! ?i) \<le> a_start c"
    by (auto simp: areas_wf_Cons intro: order.trans less_imp_le)
  ultimately have "\<forall>c \<in> set (drop ?i cs). r_end r \<le> a_start c"
    unfolding nth by (meson order.trans)
  with place len i(2) show ?thesis
    by (auto simp: place_ok_def oend_of_def take split: option.splits)
qed

lemma add_vm_area_buf:
  assumes add: "add_vm_area v start fin vmf frf data = Some v'" and wf: "areas_wf (vv_buf v)"
  shows "areas_wf (vv_buf v') \<and> cover (vv_buf v') = {start..<fin} \<union> cover (vv_buf v) \<and>
    (\<forall>n. untouched v start fin vmf frf data n \<longrightarrow> take n (vv_buf v') = take n (vv_buf v) \<and> n \<le> length (vv_buf v'))"
  using add wf
proof (induction v start fin vmf frf data arbitrary: v' rule: add_vm_area.induct)
  case (1 v start fin vmf frf data)
  from 1(2) obtain r where ok: "start < fin" "\<not> TEST VECTOR_FRAGMENT_LIST (vv_flags v)"
    and scan: "add_scan v vmf frf data 0 (vv_buf v) start fin None = Some r"
    by (subst (asm) add_vm_area.simps) (auto split: if_splits option.splits)
  let ?w = "v\<lparr>vv_buf := r_areas r\<rparr>"
  have bounds: "area_bounds (r_areas r) = area_bounds (vv_buf v)" by (rule add_scan_bounds [OF scan])
  have wf: "areas_wf (r_areas r)" using 1(3) areas_wf_bounds [OF bounds] by simp
  have cover: "{start..<fin} \<union> cover (vv_buf v) = {r_start r..<r_end r} \<union> rest_addrs r \<union> cover (r_areas r)"
    using add_scan_cover [OF scan 1(3)] cover_bounds [OF bounds] by simp
  have place: "place_ok (r_areas r) r"
    using add_scan_place [of v vmf frf data "[]", OF _ _ _] scan 1(3) ok(1) by (simp add: scan_inv_def)
  have rest: "rest_ok (r_areas r) start vmf frf r"
    using add_scan_rest_ok [of v vmf frf data "[]"] scan 1(3) by simp
  have keep: "take n (r_areas r) = take n (vv_buf v) \<and> n \<le> r_i r \<and> (\<forall>k. r_ostart r = Some k \<longrightarrow> n \<le> k)"
    if "untouched v start fin vmf frf data n" for n
  proof -
    let ?as = "take n (vv_buf v)"
    have "\<forall>b \<in> set ?as. a_start b < fin \<and> \<not> joins v start fin vmf frf data b"
    proof
      fix b assume b: "b \<in> set ?as"
      then have "a_end b \<le> start \<and> (a_end b = start \<longrightarrow> \<not> (vmf = vm_flags b \<and> frf = frag_flags b))"
        using that by (simp add: untouched_def)
      moreover have "a_start b < a_end b" using 1(3) b by (auto simp: areas_wf_def dest: in_set_takeD)
      ultimately show "a_start b < fin \<and> \<not> joins v start fin vmf frf data b"
        using ok(1) not_joins_behind by auto
    qed
    from add_scan_skips [of v vmf frf data 0 ?as "drop n (vv_buf v)", OF _ this] scan
    obtain x where x: "add_scan v vmf frf data (length ?as) (drop n (vv_buf v)) start fin None = Some x"
      "r = x\<lparr>r_areas := ?as @ r_areas x\<rparr>" by auto
    have n: "n \<le> length (vv_buf v)" using that by (simp add: untouched_def)
    then have "length ?as = n" by simp
    with add_scan_index [OF x(1), of n] x(2) n show ?thesis by simp
  qed
  show ?case
  proof (cases "r_rest r")
    case None
    with 1(2) scan ok have fin: "finish_add ?w r vmf frf data = Some v'"
      by (subst (asm) add_vm_area.simps) simp
    have "take n (vv_buf v') = take n (vv_buf v) \<and> n \<le> length (vv_buf v')"
      if "untouched v start fin vmf frf data n" for n
      using finish_add_prefix [OF fin] keep [OF that] place that area_bounds_nth [OF bounds]
      by (simp add: untouched_def)
    with finish_add_correct [OF fin] wf place cover None show ?thesis by (simp add: rest_addrs_def)
  next
    case (Some se)
    obtain s e where se: "r_rest r = Some (s, e)" using Some by (cases se) auto
    let ?d = "case split_payload_func v of None \<Rightarrow> data | Some f \<Rightarrow> f data"
    obtain w where w: "add_vm_area ?w s e vmf frf ?d = Some w" and fin: "finish_add w r vmf frf data = Some v'"
      using 1(2) scan ok se by (subst (asm) add_vm_area.simps) (auto split: option.splits)
    have IH: "areas_wf (vv_buf w)" "cover (vv_buf w) = {s..<e} \<union> cover (r_areas r)"
      "untouched ?w s e vmf frf ?d n \<Longrightarrow> take n (vv_buf w) = take n (r_areas r) \<and> n \<le> length (vv_buf w)" for n
      using 1(1) [of r "(s, e)" s e w] scan ok se w wf by simp_all
    let ?i = "r_i r"
    have i: "?i < length (r_areas r)" "r_oend r = Some ?i" using rest se by (auto simp: rest_ok_def)
    have "untouched ?w s e vmf frf ?d (Suc ?i)" by (rule rest_untouched [OF rest se wf]) simp
    from IH(3) [OF this] have prefix: "take (Suc ?i) (vv_buf w) = take (Suc ?i) (r_areas r)" and
      len: "Suc ?i \<le> length (vv_buf w)" by simp_all
    have place': "place_ok (vv_buf w) r" by (rule place_ok_prefix [OF place prefix len i IH(1)])
    have "take n (vv_buf v') = take n (vv_buf v) \<and> n \<le> length (vv_buf v')"
      if "untouched v start fin vmf frf data n" for n
    proof -
      have "take n (vv_buf w) = take n (take (Suc ?i) (vv_buf w))" using keep [OF that] by (simp add: min_def)
      also have "\<dots> = take n (vv_buf v)" using keep [OF that] prefix by (simp add: min_def)
      finally show ?thesis using finish_add_prefix [OF fin _ _ _ place'] keep [OF that] len by simp
    qed
    with finish_add_correct [OF fin place' IH(1)] IH(2) cover se show ?thesis by (auto simp: rest_addrs_def)
  qed
qed
subsection \<open>Removal\<close>

definition oe_index :: "nat \<Rightarrow> nat option \<Rightarrow> nat" where
  "oe_index n oe = (case oe of None \<Rightarrow> n | Some j \<Rightarrow> j)"

lemma remove_scan_some:
  "remove_scan i bs start fin (Some k) = (os, oe) \<Longrightarrow> areas_wf bs \<Longrightarrow> \<forall>b \<in> set bs. start < a_end b \<Longrightarrow>
     os = Some k \<and> (\<exists>M R. bs = M @ R \<and> oe_index (i + length bs) oe = i + length M \<and>
       (\<forall>b \<in> set M. overlaps start fin b) \<and> (\<forall>b \<in> set R. fin \<le> a_start b))"
proof (induction bs arbitrary: i)
  case (Cons b bs)
  show ?case
  proof (cases "overlaps start fin b")
    case True
    with Cons.prems have "remove_scan (Suc i) bs start fin (Some k) = (os, oe)" "areas_wf bs"
        "\<forall>b \<in> set bs. start < a_end b"
      by (simp_all add: areas_wf_Cons)
    from Cons.IH [OF this] obtain M R where "os = Some k" "bs = M @ R" "oe_index (Suc i + length bs) oe = Suc i + length M"
      "\<forall>b \<in> set M. overlaps start fin b" "\<forall>b \<in> set R. fin \<le> a_start b" by blast
    with True show ?thesis by (intro conjI exI [of _ "b # M"] exI [of _ R]) auto
  next
    case False
    with Cons.prems have "fin \<le> a_start b" "\<forall>c \<in> set bs. a_start b \<le> a_start c" "os = Some k" "oe = Some i"
      by (auto simp: overlaps_def areas_wf_Cons intro: order.trans less_imp_le)
    then show ?thesis by (intro conjI exI [of _ "[]"] exI [of _ "b # bs"]) (auto simp: oe_index_def)
  qed
qed (auto simp: oe_index_def)

lemma remove_scan_none:
  "remove_scan i bs start fin None = (os, oe) \<Longrightarrow> areas_wf bs \<Longrightarrow> start < fin \<Longrightarrow>
     (os = None \<and> (\<forall>b \<in> set bs. \<not> overlaps start fin b)) \<or>
     (\<exists>L M R. bs = L @ M @ R \<and> M \<noteq> [] \<and> os = Some (i + length L) \<and>
        oe_index (i + length bs) oe = i + length L + length M \<and>
        (\<forall>b \<in> set L. a_end b \<le> start) \<and> (\<forall>b \<in> set M. overlaps start fin b) \<and> (\<forall>b \<in> set R. fin \<le> a_start b))"
proof (induction bs arbitrary: i)
  case (Cons b bs)
  have wf: "areas_wf bs" "\<forall>c \<in> set bs. a_end b \<le> a_start c" "a_start b < a_end b"
    "\<forall>c \<in> set bs. a_start c < a_end c"
    using Cons.prems(2) by (auto simp: areas_wf_Cons areas_wf_def)
  consider "overlaps start fin b" | "\<not> overlaps start fin b" "fin \<le> a_start b" | "a_end b \<le> start" "\<not> fin \<le> a_start b" "\<not> overlaps start fin b"
    unfolding overlaps_def using not_le by blast
  then show ?case
  proof cases
    case 1
    then have "\<forall>c \<in> set bs. start < a_end c" using wf by (meson overlaps_def less_le_trans less_trans)
    from remove_scan_some [OF _ wf(1) this, of "Suc i" fin i os oe] 1 Cons.prems(1) obtain M R where
      "os = Some i" "bs = M @ R" "oe_index (Suc i + length bs) oe = Suc i + length M"
      "\<forall>b \<in> set M. overlaps start fin b" "\<forall>b \<in> set R. fin \<le> a_start b" by auto
    with 1 show ?thesis by (intro disjI2 exI [of _ "[]"] exI [of _ "b # M"] exI [of _ R]) auto
  next
    case 2
    then have "\<forall>c \<in> set bs. \<not> overlaps start fin c" using wf by (auto simp: overlaps_def dest!: bspec)
    with 2 Cons.prems(1) show ?thesis by simp
  next
    case 3
    with Cons.prems(1) have "remove_scan (Suc i) bs start fin None = (os, oe)" by simp
    from Cons.IH [OF this wf(1) Cons.prems(3)] show ?thesis
    proof
      assume "\<exists>L M R. bs = L @ M @ R \<and> M \<noteq> [] \<and> os = Some (Suc i + length L) \<and>
        oe_index (Suc i + length bs) oe = Suc i + length L + length M \<and>
        (\<forall>b \<in> set L. a_end b \<le> start) \<and> (\<forall>b \<in> set M. overlaps start fin b) \<and> (\<forall>b \<in> set R. fin \<le> a_start b)"
      then obtain L M R where "bs = L @ M @ R \<and> M \<noteq> [] \<and> os = Some (Suc i + length L) \<and>
        oe_index (Suc i + length bs) oe = Suc i + length L + length M \<and>
        (\<forall>b \<in> set L. a_end b \<le> start) \<and> (\<forall>b \<in> set M. overlaps start fin b) \<and> (\<forall>b \<in> set R. fin \<le> a_start b)"
        by blast
      with 3(1) show ?thesis by (intro disjI2 exI [of _ "b # L"] exI [of _ M] exI [of _ R]) auto
    qed (use 3 in auto)
  qed
qed simp

lemma addrs_meets:
  assumes "a_start b < a_end b" "start < fin"
  shows "addrs b \<inter> {start..<fin} \<noteq> {} \<longleftrightarrow> overlaps start fin b"
proof
  assume "overlaps start fin b"
  with assms have "max (a_start b) start \<in> addrs b \<inter> {start..<fin}" by (auto simp: addrs_def overlaps_def max_def)
  then show "addrs b \<inter> {start..<fin} \<noteq> {}" by blast
qed (auto simp: addrs_def overlaps_def)

lemma no_overlaps:
  assumes "areas_wf bs" "start < fin"
  shows "(\<forall>b \<in> set bs. \<not> overlaps start fin b) \<longleftrightarrow> cover bs \<inter> {start..<fin} = {}"
  using assms addrs_meets [OF _ assms(2)] by (fastforce simp: areas_wf_def cover_def)

text \<open>The areas after the two cuts and the deletion, before a split-off tail is added.\<close>

definition cut_middle :: "u64 \<Rightarrow> u64 \<Rightarrow> vm_area list \<Rightarrow> vm_area list" where
  "cut_middle start fin M =
     (if start > a_start (hd M) then [(hd M)\<lparr>a_end := start\<rparr>] else []) @
     (if fin < a_end (last M) \<and> \<not> (start > a_start (hd M) \<and> length M = 1) then [(last M)\<lparr>a_start := fin\<rparr>] else [])"

definition split_tail :: "u64 \<Rightarrow> u64 \<Rightarrow> vm_area list \<Rightarrow> vm_area option" where
  "split_tail start fin M =
     (if start > a_start (hd M) \<and> length M = 1 \<and> fin < a_end (hd M) then Some ((hd M)\<lparr>a_start := fin\<rparr>) else None)"

lemma restore_area_frame [simp]:
  "vv_buf (restore_area p b pc sz v) = vv_buf v" "vv_flags (restore_area p b pc sz v) = vv_flags v"
  "should_merge_func (restore_area p b pc sz v) = should_merge_func v"
  "split_payload_func (restore_area p b pc sz v) = split_payload_func v"
  "vv_size (restore_area p b pc sz v) = vv_size v" "vv_lock (restore_area p b pc sz v) = vv_lock v"
  "free_payload_func (restore_area p b pc sz v) = free_payload_func v"
  "merge_payload_func (restore_area p b pc sz v) = merge_payload_func v"
  by (simp_all add: restore_area_def vm_make_writable_def)

lemma call_free_payload_frame [simp]:
  "vv_buf (call_free_payload v p) = vv_buf v" "vv_flags (call_free_payload v p) = vv_flags v"
  "should_merge_func (call_free_payload v p) = should_merge_func v"
  "split_payload_func (call_free_payload v p) = split_payload_func v"
  "vv_size (call_free_payload v p) = vv_size v" "vv_lock (call_free_payload v p) = vv_lock v"
  "free_payload_func (call_free_payload v p) = free_payload_func v"
  "merge_payload_func (call_free_payload v p) = merge_payload_func v"
  by (simp_all add: call_free_payload_def)

lemma fold_frame:
  assumes "\<And>b v. f (g b v) = f v" shows "f (fold g bs v) = f v"
  using assms by (induction bs arbitrary: v) auto

lemma delete_areas_frame [simp]:
  "vv_buf (delete_areas p v os oe) = (if os < oe then take os (vv_buf v) @ drop oe (vv_buf v) else vv_buf v)"
  "vv_flags (delete_areas p v os oe) = vv_flags v"
  "should_merge_func (delete_areas p v os oe) = should_merge_func v"
  "split_payload_func (delete_areas p v os oe) = split_payload_func v"
  "vv_size (delete_areas p v os oe) = vv_size v" "vv_lock (delete_areas p v os oe) = vv_lock v"
  "free_payload_func (delete_areas p v os oe) = free_payload_func v"
  "merge_payload_func (delete_areas p v os oe) = merge_payload_func v"
  by (simp_all add: delete_areas_def fold_frame)

lemma cut_eq:
  assumes buf: "vv_buf v = L @ M @ R" "M \<noteq> []" and fin: "start < fin"
    and c1: "cut_first p v start fin (length L) (length L + length M) = (t, os, v1)"
    and c2: "cut_last p v1 fin (length L + length M) = (oe, v2)"
  shows "vv_buf (delete_areas p v2 os oe) = L @ cut_middle start fin M @ R \<and> t = split_tail start fin M \<and>
    same_setup v v2 \<and> vv_size v2 = vv_size v"
proof (cases "length M = 1")
  case True
  then obtain b where "M = [b]" by (cases M) auto
  with assms show ?thesis
    by (auto simp: cut_first_def cut_last_def cut_middle_def split_tail_def same_setup_def Let_def nth_append list_update_append
        split: if_splits)
next
  case False
  with buf(2) obtain b N c where "M = b # N @ [c]" by (metis length_Cons list.size(3) One_nat_def neq_Nil_conv rev_exhaust)
  with assms show ?thesis
    by (auto simp: cut_first_def cut_last_def cut_middle_def split_tail_def same_setup_def Let_def nth_append list_update_append
        split: if_splits)
qed

lemma cut_middle_bounds:
  assumes wf: "areas_wf M" "M \<noteq> []" and over: "\<forall>b \<in> set M. overlaps start fin b" "start < fin"
  shows "areas_wf (cut_middle start fin M)"
    "\<forall>c \<in> set (cut_middle start fin M). a_start (hd M) \<le> a_start c \<and> a_end c \<le> a_end (last M)"
    "points (cut_middle start fin M) \<union> (case split_tail start fin M of None \<Rightarrow> {} | Some c \<Rightarrow> addrs c \<times> {client c}) =
       points M - {start..<fin} \<times> UNIV"
proof -
  have hd: "overlaps start fin (hd M)" "overlaps start fin (last M)" using over(1) wf(2) by simp_all
  have len: "length M = 1 \<Longrightarrow> hd M = last M" by (cases M) auto
  have hl: "a_start (hd M) < a_end (hd M)" "a_start (last M) < a_end (last M)"
    using wf by (simp_all add: areas_wf_def)
  have order: "a_end (hd M) \<le> a_start (last M)" if "length M \<noteq> 1"
    using wf that by (cases M) (auto simp: areas_wf_Cons)
  show "areas_wf (cut_middle start fin M)"
    using hl hd over(2) by (auto simp: cut_middle_def areas_wf_Cons overlaps_def)
  show "\<forall>c \<in> set (cut_middle start fin M). a_start (hd M) \<le> a_start c \<and> a_end c \<le> a_end (last M)"
    using hl hd over(2) order len by (auto simp: cut_middle_def overlaps_def)
  show "points (cut_middle start fin M) \<union> (case split_tail start fin M of None \<Rightarrow> {} | Some c \<Rightarrow> addrs c \<times> {client c}) =
       points M - {start..<fin} \<times> UNIV"
  proof (cases "length M = 1")
    case True
    then obtain b where M: "M = [b]" by (cases M) auto
    show ?thesis using hl hd over(2) unfolding M
      by (auto simp: cut_middle_def split_tail_def addrs_def overlaps_def)
  next
    case False
    with wf(2) obtain b N c where M: "M = b # N @ [c]" by (metis length_Cons list.size(3) One_nat_def neq_Nil_conv rev_exhaust)
    have N: "\<forall>d \<in> set N. a_end b \<le> a_start d \<and> a_end d \<le> a_start c"
      using wf(1) unfolding M by (auto simp: areas_wf_Cons areas_wf_append)
    have "points N \<subseteq> {start..<fin} \<times> UNIV"
    proof
      fix p assume "p \<in> points N"
      then obtain d where "d \<in> set N" "a_start d \<le> fst p" "fst p < a_end d" by (auto simp: points_def addrs_def)
      moreover from this N have "a_end b \<le> fst p" "fst p < a_start c" by (auto intro: order.trans less_le_trans)
      moreover have "start < a_end b" "a_start c < fin" using hd unfolding M by (auto simp: overlaps_def)
      ultimately have "fst p \<in> {start..<fin}" unfolding atLeastLessThan_iff by (intro conjI; order)
      then show "p \<in> {start..<fin} \<times> UNIV" by (cases p) simp
    qed
    moreover have "a_end b \<le> a_start c" "start < a_end b" "a_start c < fin"
      using order [OF False] hd unfolding M by (auto simp: overlaps_def)
    moreover have "points M = addrs b \<times> {client b} \<union> points N \<union> addrs c \<times> {client c}" unfolding M by auto
    ultimately show ?thesis unfolding \<open>points M = _\<close> using hl over(2) unfolding M
      by (auto simp: cut_middle_def split_tail_def addrs_def)
  qed
qed

text \<open>Removal up to the addition of the split-off tail.\<close>

lemma remove_vm_area_cases:
  assumes wf: "areas_wf (vv_buf v)" and fin: "start < fin" and nf: "\<not> TEST VECTOR_FRAGMENT_LIST (vv_flags v)"
  obtains (none) "cover (vv_buf v) \<inter> {start..<fin} = {}" "remove_vm_area v start fin p = Some (False, v)"
  | (some) w t where "cover (vv_buf v) \<inter> {start..<fin} \<noteq> {}"
      "remove_vm_area v start fin p = map_option (Pair True) (add_split_area w t)"
      "same_setup v w" "vv_size w = vv_size v" "areas_wf (vv_buf w)"
      "points (vv_buf w) \<union> (case t of None \<Rightarrow> {} | Some c \<Rightarrow> addrs c \<times> {client c}) = points (vv_buf v) - {start..<fin} \<times> UNIV"
      "\<forall>b \<in> set (vv_buf w). \<exists>a \<in> set (vv_buf v). vm_flags b = vm_flags a \<and> frag_flags b = frag_flags a"
      "length (vv_buf w) \<le> length (vv_buf v)"
      "\<And>c. t = Some c \<Longrightarrow> a_start c < a_end c \<and> cover (vv_buf w) \<inter> addrs c = {} \<and>
         (\<exists>a \<in> set (vv_buf v). vm_flags c = vm_flags a \<and> frag_flags c = frag_flags a)"
proof -
  obtain os oe where scan: "remove_scan 0 (vv_buf v) start fin None = (os, oe)" by fastforce
  show thesis
  proof (cases "cover (vv_buf v) \<inter> {start..<fin} = {}")
    case True
    then have "\<forall>b \<in> set (vv_buf v). \<not> overlaps start fin b" using no_overlaps [OF wf fin] by simp
    with remove_scan_none [OF scan wf fin] have "os = None" by fastforce
    with True scan nf none show thesis by (simp add: remove_vm_area_def)
  next
    case False
    then have "\<not> (\<forall>b \<in> set (vv_buf v). \<not> overlaps start fin b)" using no_overlaps [OF wf fin] by simp
    with remove_scan_none [OF scan wf fin] obtain L M R where
      LMR: "vv_buf v = L @ M @ R \<and> M \<noteq> [] \<and> os = Some (0 + length L) \<and>
        oe_index (0 + length (vv_buf v)) oe = 0 + length L + length M \<and>
        (\<forall>b \<in> set L. a_end b \<le> start) \<and> (\<forall>b \<in> set M. overlaps start fin b) \<and> (\<forall>b \<in> set R. fin \<le> a_start b)"
      by blast
    then have buf: "vv_buf v = L @ M @ R" "M \<noteq> []" and os: "os = Some (length L)"
      and oe: "oe_index (length (vv_buf v)) oe = length L + length M"
      and L: "\<forall>b \<in> set L. a_end b \<le> start" and M: "\<forall>b \<in> set M. overlaps start fin b"
      and R: "\<forall>b \<in> set R. fin \<le> a_start b" by auto
    obtain t os' v1 where c1: "cut_first p v start fin (length L) (length L + length M) = (t, os', v1)"
      by (metis prod_cases3)
    obtain oe' v2 where c2: "cut_last p v1 fin (length L + length M) = (oe', v2)" by fastforce
    let ?w = "delete_areas p v2 os' oe'"
    have w: "vv_buf ?w = L @ cut_middle start fin M @ R" and t: "t = split_tail start fin M"
      and config: "same_setup v ?w" "vv_size ?w = vv_size v"
      using cut_eq [OF buf fin c1 c2] by (auto simp: same_setup_def)
    have rem: "remove_vm_area v start fin p = map_option (Pair True) (add_split_area ?w t)"
      using scan os oe c1 c2 nf by (auto simp: remove_vm_area_def oe_index_def Let_def split: option.splits bind_splits)
    have wf': "areas_wf L" "areas_wf M" "areas_wf R" "\<forall>a \<in> set L. \<forall>b \<in> set M. a_end a \<le> a_start b"
      "\<forall>a \<in> set M. \<forall>b \<in> set R. a_end a \<le> a_start b" "\<forall>a \<in> set L. \<forall>b \<in> set R. a_end a \<le> a_start b"
      using wf by (auto simp: buf areas_wf_append)
    note mid = cut_middle_bounds [OF wf'(2) buf(2) M fin]
    have in_M: "hd M \<in> set M" "last M \<in> set M" using buf(2) by simp_all
    have "\<forall>a \<in> set L. \<forall>c \<in> set (cut_middle start fin M). a_end a \<le> a_start c"
      "\<forall>c \<in> set (cut_middle start fin M). \<forall>b \<in> set R. a_end c \<le> a_start b"
      using wf'(4,5) mid(2) in_M order.trans by blast+
    then have wfw: "areas_wf (vv_buf ?w)"
      unfolding w using wf' mid(1) by (auto simp: areas_wf_append)
    have "points L \<inter> {start..<fin} \<times> UNIV = {}" "points R \<inter> {start..<fin} \<times> UNIV = {}"
      using L R by (fastforce simp: points_def addrs_def)+
    with mid(3) have pts: "points (vv_buf ?w) \<union> (case t of None \<Rightarrow> {} | Some c \<Rightarrow> addrs c \<times> {client c}) =
        points (vv_buf v) - {start..<fin} \<times> UNIV"
      unfolding w t buf by auto
    have flags: "\<forall>b \<in> set (vv_buf ?w). \<exists>a \<in> set (vv_buf v). vm_flags b = vm_flags a \<and> frag_flags b = frag_flags a"
      unfolding w buf using in_M by (auto simp: cut_middle_def)
    have "length M = 1 \<or> 2 \<le> length M" using buf(2) by (cases M) (auto simp: Suc_le_eq)
    then have len: "length (cut_middle start fin M) \<le> length M" by (auto simp: cut_middle_def)
    have tail: "a_start c < a_end c \<and> cover (vv_buf ?w) \<inter> addrs c = {} \<and>
      (\<exists>a \<in> set (vv_buf v). vm_flags c = vm_flags a \<and> frag_flags c = frag_flags a)"
      if "t = Some c" for c
    proof -
      have tail: "split_tail start fin M = Some c" using that t by simp
      then have one: "length M = 1 \<and> a_start (hd M) < start \<and> fin < a_end (hd M)" "c = (hd M)\<lparr>a_start := fin\<rparr>"
        by (simp_all add: split_tail_def split: if_split_asm)
      then obtain b where b: "M = [b]" "a_start b < start" "fin < a_end b" "c = b\<lparr>a_start := fin\<rparr>"
        by (auto simp: length_Suc_conv)
      then have "cut_middle start fin M = [b\<lparr>a_end := start\<rparr>]" by (simp add: cut_middle_def)
      moreover have "cover L \<inter> addrs b = {}" "cover R \<inter> addrs b = {}"
        using wf'(4,5) b(1) by (fastforce simp: cover_def addrs_def)+
      moreover have "addrs c \<subseteq> addrs b" using b fin by (auto simp: addrs_def)
      moreover have "addrs (b\<lparr>a_end := start\<rparr>) \<inter> addrs c = {}" using b fin by (auto simp: addrs_def)
      ultimately show ?thesis unfolding w buf using b fin by auto
    qed
    have lenw: "length (vv_buf ?w) \<le> length (vv_buf v)" unfolding w buf using len by simp
    show thesis by (rule some [OF False rem config wfw pts flags lenw tail])
  qed
qed

lemma remove_vm_area_buf:
  assumes rem: "remove_vm_area v start fin p = Some (found, v')" and wf: "areas_wf (vv_buf v)" and fin: "start < fin"
  shows "areas_wf (vv_buf v') \<and> cover (vv_buf v') = cover (vv_buf v) - {start..<fin} \<and>
    (found \<longleftrightarrow> cover (vv_buf v) \<inter> {start..<fin} \<noteq> {})"
proof -
  have nf: "\<not> TEST VECTOR_FRAGMENT_LIST (vv_flags v)" using rem by (auto simp: remove_vm_area_def)
  from wf fin nf show ?thesis
  proof (cases rule: remove_vm_area_cases [where p = p])
    case none
    with rem wf show ?thesis by auto
  next
    case (some w t)
    have "cover (vv_buf v) - {start..<fin} = fst ` (points (vv_buf v) - {start..<fin} \<times> UNIV)"
      by (force simp: cover_points)
    also have "\<dots> = cover (vv_buf w) \<union> (case t of None \<Rightarrow> {} | Some c \<Rightarrow> addrs c)"
      unfolding some(6) [symmetric] by (auto simp: cover_points image_Un split: option.splits)
    finally have cover: "cover (vv_buf v) - {start..<fin} = cover (vv_buf w) \<union> (case t of None \<Rightarrow> {} | Some c \<Rightarrow> addrs c)" .
    have add: "add_split_area w t = Some v'" "found" using rem some(2) by auto
    show ?thesis
    proof (cases t)
      case None
      with add some cover show ?thesis by (simp add: add_split_area_def)
    next
      case (Some c)
      with add have a: "add_vm_area w (a_start c) (a_end c) (vm_flags c AND NOT VM_ADD_TO_SHARED_DATA)
         (frag_flags c AND NOT FRAG_COARSE_GRAIN)
         (case split_payload_func w of None \<Rightarrow> client c | Some f \<Rightarrow> f (client c)) = Some v'"
        by (simp add: add_split_area_def)
      from add_vm_area_buf [OF a some(5)] add(2) some(1) cover Some show ?thesis by (auto simp: addrs_def)
    qed
  qed
qed

end
