(* ===== verification/VmVectorSearch.thy ===== *)
theory VmVectorSearch
  imports VmVectorInv
begin

text \<open>
  The binary search in a vector of areas: it ends with an area that meets the range, the first one on request, or
  with the index of the last area in front of it. The lookup of an address is a search in the sorted,
  disjoint areas and finds the only one that contains it.
\<close>

subsection \<open>Lookup\<close>

text \<open>The upper bound of a search: the end 0 stands for the top of the address space.\<close>

definition below_end :: "u64 \<Rightarrow> u64 \<Rightarrow> bool" where
  "below_end fin x \<longleftrightarrow> fin = 0 \<or> x < fin"

definition hits :: "u64 \<Rightarrow> u64 \<Rightarrow> vm_area \<Rightarrow> bool" where
  "hits start fin b \<longleftrightarrow> start < a_end b \<and> below_end fin (a_start b) \<and> start \<noteq> fin"

lemma first_match_le: "first_match bs start i \<le> i"
  by (induction i) auto

lemma first_match_spec:
  "areas_wf bs \<Longrightarrow> i < length bs \<Longrightarrow> start < a_end (bs ! i) \<Longrightarrow>
     start < a_end (bs ! first_match bs start i) \<and> (\<forall>j < first_match bs start i. a_end (bs ! j) \<le> start)"
proof (induction i)
  case (Suc i)
  show ?case
  proof (cases "a_end (bs ! i) > start")
    case False
    have "a_end (bs ! j) \<le> start" if "j < Suc i" for j
    proof (cases "j = i")
      case False
      with that Suc.prems(1,2) have "a_end (bs ! j) \<le> a_start (bs ! i)" "a_start (bs ! i) < a_end (bs ! i)"
        by (auto simp: areas_wf_def sorted_wrt_iff_nth_less)
      with \<open>\<not> a_end (bs ! i) > start\<close> show ?thesis by simp
    qed (use False in simp)
    with Suc.prems False show ?thesis by simp
  qed (use Suc in auto)
qed simp

text \<open>The loop keeps: what lies below \<open>lo\<close> ends before the range or the range is empty, what lies above \<open>hi\<close> starts
behind it.\<close>

definition search_inv :: "vm_area list \<Rightarrow> u64 \<Rightarrow> u64 \<Rightarrow> int \<Rightarrow> int \<Rightarrow> bool" where
  "search_inv bs start fin lo hi \<longleftrightarrow> 0 \<le> lo \<and> lo \<le> hi + 1 \<and> hi < int (length bs) \<and>
     (\<forall>j. int j < lo \<longrightarrow> a_end (bs ! j) \<le> start \<or> start = fin) \<and>
     (\<forall>j < length bs. hi < int j \<longrightarrow> fin \<noteq> 0 \<and> fin \<le> a_start (bs ! j))"

lemma search_loop_spec:
  "search_loop bs start fin first lo hi = (found, i, lo') \<Longrightarrow> areas_wf bs \<Longrightarrow> search_inv bs start fin lo hi \<Longrightarrow>
     (if found then 0 \<le> i \<and> i < int (length bs) \<and> hits start fin (bs ! nat i) \<and>
        (first \<longrightarrow> (\<forall>j < nat i. \<not> hits start fin (bs ! j)))
      else search_inv bs start fin lo' i \<and> lo' = i + 1)"
proof (induction bs start fin first lo hi rule: search_loop.induct)
  case (1 bs start fin first lo hi)
  show ?case
  proof (cases "lo \<le> hi")
    case True
    let ?m = "(lo + hi) div 2"
    have m: "lo \<le> ?m" "?m \<le> hi" "0 \<le> ?m" "?m < int (length bs)" using True 1(5) by (auto simp: search_inv_def)
    have nth: "a_start (bs ! j) < a_end (bs ! j)" if "j < length bs" for j
      using 1(4) that by (simp add: areas_wf_def)
    have sorted: "a_end (bs ! i) \<le> a_start (bs ! j)" if "i < j" "j < length bs" for i j
      using 1(4) that by (auto simp: areas_wf_def sorted_wrt_iff_nth_less)
    consider (up) "fin \<noteq> 0" "fin \<le> a_start (bs ! nat ?m)"
      | (down) "\<not> (fin \<noteq> 0 \<and> fin \<le> a_start (bs ! nat ?m))" "start \<ge> a_end (bs ! nat ?m) \<or> start = fin"
      | (hit) "\<not> (fin \<noteq> 0 \<and> fin \<le> a_start (bs ! nat ?m))" "start < a_end (bs ! nat ?m)" "start \<noteq> fin"
      by fastforce
    then show ?thesis
    proof cases
      case up
      have "fin \<le> a_start (bs ! j)" if "j < length bs" "?m - 1 < int j" for j
      proof (cases "j = nat ?m")
        case False
        with that m have "a_end (bs ! nat ?m) \<le> a_start (bs ! j)" by (intro sorted) auto
        moreover have "a_start (bs ! nat ?m) < a_end (bs ! nat ?m)" using m by (intro nth) auto
        ultimately show ?thesis using up(2) by order
      qed (use up in simp)
      with up 1(5) m have "search_inv bs start fin lo (?m - 1)" by (auto simp: search_inv_def)
      moreover have "search_loop bs start fin first lo hi = search_loop bs start fin first lo (?m - 1)"
        using up True by (simp add: search_loop.simps [of bs start fin first lo hi] Let_def)
      ultimately show ?thesis using 1(1) [OF True refl refl] up 1(3,4) by simp
    next
      case down
      have "a_end (bs ! j) \<le> start \<or> start = fin" if "int j < ?m + 1" for j
      proof (cases "j = nat ?m")
        case False
        with that m have "a_end (bs ! j) \<le> a_start (bs ! nat ?m)" by (intro sorted) auto
        moreover have "a_start (bs ! nat ?m) < a_end (bs ! nat ?m)" using m by (intro nth) auto
        ultimately show ?thesis using down(2) by (meson order.trans less_imp_le)
      qed (use down in simp)
      with 1(5) m have "search_inv bs start fin (?m + 1) hi" by (auto simp: search_inv_def)
      moreover have "search_loop bs start fin first lo hi = search_loop bs start fin first (?m + 1) hi"
        using down True by (auto simp: search_loop.simps [of bs start fin first lo hi] Let_def)
      ultimately show ?thesis using 1(2) [OF True refl refl] down 1(3,4) by simp
    next
      case hit
      have "search_loop bs start fin first lo hi = (True, if first then int (first_match bs start (nat ?m)) else ?m, lo)"
        using hit True by (auto simp: search_loop.simps [of bs start fin first lo hi] Let_def not_le)
      with 1(3) have res: "found" "i = (if first then int (first_match bs start (nat ?m)) else ?m)"
        by simp_all
      have m': "nat ?m < length bs" using m by simp
      show ?thesis
      proof (cases first)
        case True
        let ?k = "first_match bs start (nat ?m)"
        have k: "?k \<le> nat ?m" "start < a_end (bs ! ?k)" "\<forall>j < ?k. a_end (bs ! j) \<le> start"
          using first_match_spec [OF 1(4) m' hit(2)] first_match_le by auto
        have "a_start (bs ! ?k) \<le> a_start (bs ! nat ?m)"
        proof (cases "?k = nat ?m")
          case False
          with k(1) m' have "a_end (bs ! ?k) \<le> a_start (bs ! nat ?m)" "a_start (bs ! ?k) < a_end (bs ! ?k)"
            by (auto intro: sorted nth)
          then show ?thesis by simp
        qed simp
        with hit k m' res True show ?thesis by (auto simp: hits_def below_end_def not_le [symmetric])
      next
        case False
        with hit m res show ?thesis by (auto simp: hits_def below_end_def)
      qed
    qed
  next
    case False
    with 1(3) have "\<not> found" "i = hi" "lo' = lo" by (simp_all add: search_loop.simps [of bs start fin first lo hi])
    with 1(5) False show ?thesis by (auto simp: search_inv_def)
  qed
qed

text \<open>The area that contains an address.\<close>

definition area_at :: "vm_area list \<Rightarrow> u64 \<Rightarrow> vm_area option" where
  "area_at bs x = find (\<lambda>b. x \<in> addrs b) bs"

lemma area_at_None: "area_at bs x = None \<longleftrightarrow> x \<notin> cover bs"
  by (auto simp: area_at_def find_None_iff cover_def)

lemma area_at_eq: "areas_wf bs \<Longrightarrow> b \<in> set bs \<Longrightarrow> x \<in> addrs b \<Longrightarrow> area_at bs x = Some b"
proof (induction bs)
  case (Cons c bs)
  show ?case
  proof (cases "x \<in> addrs c")
    case True
    have "b = c"
    proof (rule ccontr)
      assume "b \<noteq> c"
      with Cons.prems have "a_end c \<le> a_start b" by (auto simp: areas_wf_Cons)
      with True Cons.prems(3) show False by (auto simp: addrs_def)
    qed
    with True show ?thesis by (simp add: area_at_def)
  next
    case False
    with Cons show ?thesis by (auto simp: areas_wf_Cons area_at_def)
  qed
qed simp

lemma area_at_Some: "areas_wf bs \<Longrightarrow> area_at bs x = Some b \<longleftrightarrow> b \<in> set bs \<and> x \<in> addrs b"
  using area_at_eq by (auto simp: area_at_def find_Some_iff)

lemma binary_search_spec:
  assumes wf: "areas_wf (vv_buf v)" and range: "start \<noteq> 0 \<or> fin \<noteq> 0" "start \<le> fin \<or> fin = 0"
  shows "\<exists>found i. binary_search v start fin want_index first = Some (found, i) \<and>
    (if found then 0 \<le> i \<and> i < int (length (vv_buf v)) \<and> hits start fin (vv_buf v ! nat i) \<and>
       (first \<longrightarrow> (\<forall>j < nat i. \<not> hits start fin (vv_buf v ! j)))
     else search_inv (vv_buf v) start fin (i + 1) i)"
proof -
  let ?bs = "vv_buf v"
  obtain found i lo where s: "search_loop ?bs start fin first 0 (int (length ?bs) - 1) = (found, i, lo)"
    by (metis prod_cases3)
  have init: "search_inv ?bs start fin 0 (int (length ?bs) - 1)" by (auto simp: search_inv_def)
  note spec = search_loop_spec [OF s wf init]
  show ?thesis
  proof (cases found)
    case False
    have *: "search_inv ?bs start fin lo i \<and> lo = i + 1" by (rule spec [unfolded if_not_P [OF False]])
    then have lo: "lo = i + 1" by (rule conjunct2)
    have inv: "search_inv ?bs start fin (i + 1) i" using conjunct1 [OF *] by (simp only: lo)
    have "i < 0 \<or> a_end (?bs ! nat i) \<le> start \<or> start = fin"
      using inv by (cases "i < 0") (auto simp: search_inv_def)
    moreover have "lo > int (length ?bs) - 1 \<or> a_start (?bs ! nat lo) \<ge> fin"
    proof (cases "lo > int (length ?bs) - 1")
      case False
      then have "nat lo < length ?bs" "i < int (nat lo)" using lo inv by (auto simp: search_inv_def)
      with inv show ?thesis by (auto simp: search_inv_def)
    qed simp
    ultimately show ?thesis using s inv lo False range by (auto simp: binary_search_def)
  qed (use s range spec in \<open>auto simp: binary_search_def\<close>)
qed

lemma search_inv_misses:
  assumes "search_inv bs start fin (i + 1) i" "start \<noteq> fin" "b \<in> set bs"
  shows "\<not> hits start fin b"
proof -
  obtain j where j: "j < length bs" "b = bs ! j" using assms(3) by (metis in_set_conv_nth)
  show ?thesis
  proof (cases "int j < i + 1")
    case True
    with assms j show ?thesis by (auto simp: search_inv_def hits_def)
  next
    case False
    with assms j show ?thesis by (auto simp: search_inv_def hits_def below_end_def)
  qed
qed

lemma hits_point: "hits x (x + 1) b \<longleftrightarrow> x \<in> addrs b"
proof -
  have "below_end (x + 1) y \<longleftrightarrow> y \<le> x" for y
  proof (cases "x + 1 = 0")
    case True
    then have "x = - 1" by (metis add.commute add_eq_0_iff)
    then show ?thesis using True by (simp add: below_end_def)
  next
    case False
    then show ?thesis by (simp add: below_end_def less_inc_iff)
  qed
  then show ?thesis by (auto simp: hits_def addrs_def)
qed

lemma lookup_addr_spec:
  assumes wf: "areas_wf (vv_buf v)"
  shows "\<exists>r. lookup_addr v x = Some r \<and> area_at (vv_buf v) x = map_option ((!) (vv_buf v)) r \<and>
    (\<forall>i. r = Some i \<longrightarrow> i < length (vv_buf v))"
proof -
  have ne: "x \<noteq> 0 \<or> x + 1 \<noteq> 0" "x \<noteq> x + 1" by auto
  have le: "x \<le> x + 1 \<or> x + 1 = 0" using less_inc_iff [of x x] by auto
  from binary_search_spec [OF wf ne(1) le, of False False] obtain found i where
    s: "binary_search v x (x + 1) False False = Some (found, i)"
    and spec: "if found then 0 \<le> i \<and> i < int (length (vv_buf v)) \<and> hits x (x + 1) (vv_buf v ! nat i)
       else search_inv (vv_buf v) x (x + 1) (i + 1) i" by (auto split: if_splits)
  show ?thesis
  proof (cases found)
    case True
    with spec have i: "nat i < length (vv_buf v)" and "x \<in> addrs (vv_buf v ! nat i)"
      by (simp_all add: hits_point nat_less_iff)
    then have "area_at (vv_buf v) x = Some (vv_buf v ! nat i)" by (intro area_at_eq [OF wf]) simp_all
    with s True i show ?thesis by (simp add: lookup_addr_def)
  next
    case False
    with spec search_inv_misses [OF _ ne(2)] have "x \<notin> cover (vv_buf v)"
      by (auto simp: cover_def hits_point [symmetric])
    then have "area_at (vv_buf v) x = None" by (simp add: area_at_None)
    with s False show ?thesis by (simp add: lookup_addr_def)
  qed
qed

lemma vm_area_overlap_eq:
  assumes "areas_wf (vv_buf v)" "start < fin"
  shows "vm_area_overlap v start fin = Some (cover (vv_buf v) \<inter> {start..<fin} \<noteq> {})"
proof -
  have fin: "fin \<noteq> 0" using assms(2) by auto
  have hits: "hits start fin b \<longleftrightarrow> addrs b \<inter> {start..<fin} \<noteq> {}" if "a_start b < a_end b" for b
  proof
    assume "hits start fin b"
    with that fin assms(2) have "max (a_start b) start \<in> addrs b \<inter> {start..<fin}"
      by (auto simp: addrs_def hits_def below_end_def max_def)
    then show "addrs b \<inter> {start..<fin} \<noteq> {}" by blast
  qed (use fin assms(2) in \<open>auto simp: hits_def addrs_def below_end_def\<close>)
  have range: "start \<noteq> 0 \<or> fin \<noteq> 0" "start \<le> fin \<or> fin = 0" using fin assms(2) by auto
  from binary_search_spec [OF assms(1) range, of False False] obtain found i where
    s: "binary_search v start fin False False = Some (found, i)"
    and spec: "if found then 0 \<le> i \<and> i < int (length (vv_buf v)) \<and> hits start fin (vv_buf v ! nat i)
       else search_inv (vv_buf v) start fin (i + 1) i" by (auto split: if_splits)
  have "found \<longleftrightarrow> (\<exists>b \<in> set (vv_buf v). hits start fin b)"
  proof (cases found)
    case True
    with spec have "vv_buf v ! nat i \<in> set (vv_buf v)" by (simp add: nat_less_iff)
    with True spec show ?thesis by auto
  next
    case False
    with spec search_inv_misses assms(2) show ?thesis by fastforce
  qed
  also have "\<dots> \<longleftrightarrow> cover (vv_buf v) \<inter> {start..<fin} \<noteq> {}"
    using hits assms(1) by (fastforce simp: areas_wf_def cover_def)
  finally show ?thesis using s by (simp add: vm_area_overlap_def)
qed

end
