(* ===== verification/VmVectorOps.thy ===== *)
theory VmVectorOps
  imports VmVectorSearch
begin

text \<open>
  The exported routines of the vector of address ranges (\<^verbatim>\<open>vmvector_*\<close> in \<^verbatim>\<open>src/dynamorio/core/vmareas.c\<close> and \<^verbatim>\<open>vmareas.h\<close>)
  with their locks, and the iterator. A write lock on a vector that is locked for reading blocks for
  ever, which is \<open>None\<close>. An \<^verbatim>\<open>OUT\<close> argument that is not written is \<open>None\<close>.
\<close>

subsection \<open>Locks\<close>

definition SHOULD_LOCK_VECTOR :: "vm_area_vector \<Rightarrow> bool" where
  "SHOULD_LOCK_VECTOR v \<longleftrightarrow>
     TEST VECTOR_SHARED (vv_flags v) \<and> \<not> TEST VECTOR_NO_LOCK (vv_flags v) \<and> vv_lock v \<noteq> Writer"

definition d_r_read_lock :: "vm_area_vector \<Rightarrow> vm_area_vector option" where
  "d_r_read_lock v = (case vv_lock v of
     Unlocked \<Rightarrow> Some (v\<lparr>vv_lock := Readers 1\<rparr>)
   | Readers n \<Rightarrow> Some (v\<lparr>vv_lock := Readers (Suc n)\<rparr>)
   | Writer \<Rightarrow> None)"

definition d_r_read_unlock :: "vm_area_vector \<Rightarrow> vm_area_vector option" where
  "d_r_read_unlock v = (case vv_lock v of
     Readers n \<Rightarrow> Some (v\<lparr>vv_lock := (if n \<le> 1 then Unlocked else Readers (n - 1))\<rparr>)
   | _ \<Rightarrow> None)"

definition d_r_write_lock :: "vm_area_vector \<Rightarrow> vm_area_vector option" where
  "d_r_write_lock v = (case vv_lock v of Unlocked \<Rightarrow> Some (v\<lparr>vv_lock := Writer\<rparr>) | _ \<Rightarrow> None)"

definition d_r_write_unlock :: "vm_area_vector \<Rightarrow> vm_area_vector option" where
  "d_r_write_unlock v = (case vv_lock v of Writer \<Rightarrow> Some (v\<lparr>vv_lock := Unlocked\<rparr>) | _ \<Rightarrow> None)"

text \<open>\<^verbatim>\<open>LOCK_VECTOR\<close> and \<^verbatim>\<open>UNLOCK_VECTOR\<close> around a body.\<close>

definition with_lock :: "(vm_area_vector \<Rightarrow> vm_area_vector option) \<Rightarrow> (vm_area_vector \<Rightarrow> vm_area_vector option) \<Rightarrow>
    vm_area_vector \<Rightarrow> (vm_area_vector \<Rightarrow> ('r \<times> vm_area_vector) option) \<Rightarrow> ('r \<times> vm_area_vector) option" where
  "with_lock lock unlock v body = do {
     let release_lock = SHOULD_LOCK_VECTOR v;
     v \<leftarrow> (if release_lock then lock v else Some v);
     (r, v) \<leftarrow> body v;
     v \<leftarrow> (if release_lock then do {
             ASSERT (TEST VECTOR_SHARED (vv_flags v));
             ASSERT (\<not> TEST VECTOR_NO_LOCK (vv_flags v));
             unlock v }
           else Some v);
     Some (r, v) }"

abbreviation read_locked ::
  "vm_area_vector \<Rightarrow> (vm_area_vector \<Rightarrow> ('r \<times> vm_area_vector) option) \<Rightarrow> ('r \<times> vm_area_vector) option" where
  "read_locked \<equiv> with_lock d_r_read_lock d_r_read_unlock"

abbreviation write_locked ::
  "vm_area_vector \<Rightarrow> (vm_area_vector \<Rightarrow> ('r \<times> vm_area_vector) option) \<Rightarrow> ('r \<times> vm_area_vector) option" where
  "write_locked \<equiv> with_lock d_r_write_lock d_r_write_unlock"

subsection \<open>The routines\<close>

definition vmvector_init_vector :: "u32 \<Rightarrow> vm_area_vector" where
  "vmvector_init_vector flags =
     \<lparr>vv_buf = [], vv_size = 0, vv_flags = flags, vv_lock = Unlocked, free_payload_func = False,
      split_payload_func = None, should_merge_func = None, merge_payload_func = None, vv_freed = [],
      vv_made_writable = []\<rparr>"

definition vmvector_set_callbacks :: "vm_area_vector \<Rightarrow> bool \<Rightarrow> (u64 \<Rightarrow> u64) option \<Rightarrow>
    (bool \<Rightarrow> u64 \<Rightarrow> u64 \<Rightarrow> bool) option \<Rightarrow> (u64 \<Rightarrow> u64 \<Rightarrow> u64) option \<Rightarrow> (unit \<times> vm_area_vector) option" where
  "vmvector_set_callbacks v free_func split_func should_merge merge_func = read_locked v (\<lambda>v.
     Some ((), v\<lparr>free_payload_func := free_func, split_payload_func := split_func,
       should_merge_func := should_merge, merge_payload_func := merge_func\<rparr>))"

definition vmvector_empty :: "vm_area_vector \<Rightarrow> bool" where
  "vmvector_empty v \<longleftrightarrow> length (vv_buf v) = 0"

definition vmvector_add :: "vm_area_vector \<Rightarrow> u64 \<Rightarrow> u64 \<Rightarrow> u64 \<Rightarrow> (unit \<times> vm_area_vector) option" where
  "vmvector_add v start fin data = write_locked v (\<lambda>v. do {
     v \<leftarrow> add_vm_area v start fin 0 0 data;
     Some ((), v) })"

text \<open>The payload of an area is replaced.\<close>

definition set_client :: "vm_area_vector \<Rightarrow> nat \<Rightarrow> u64 \<Rightarrow> vm_area_vector" where
  "set_client v i data = v\<lparr>vv_buf := (vv_buf v)[i := (vv_buf v ! i)\<lparr>client := data\<rparr>]\<rparr>"

definition vmvector_add_replace :: "vm_area_vector \<Rightarrow> u64 \<Rightarrow> u64 \<Rightarrow> u64 \<Rightarrow> (u64 \<times> vm_area_vector) option" where
  "vmvector_add_replace v start fin data = write_locked v (\<lambda>v. do {
     area \<leftarrow> lookup_addr v start;
     case area of
       Some i \<Rightarrow>
         if start = a_start (vv_buf v ! i) \<and> fin = a_end (vv_buf v ! i)
         then Some (client (vv_buf v ! i), set_client v i data)
         else do { v \<leftarrow> add_vm_area v start fin 0 0 data; Some (0, v) }
     | None \<Rightarrow> do { v \<leftarrow> add_vm_area v start fin 0 0 data; Some (0, v) } })"

definition vmvector_remove :: "vm_area_vector \<Rightarrow> u64 \<Rightarrow> u64 \<Rightarrow> (bool \<times> vm_area_vector) option" where
  "vmvector_remove v start fin = write_locked v (\<lambda>v. remove_vm_area v start fin False)"

definition vmvector_remove_containing_area ::
    "vm_area_vector \<Rightarrow> u64 \<Rightarrow> ((u64 \<times> u64) option \<times> vm_area_vector) option" where
  "vmvector_remove_containing_area v pc = write_locked v (\<lambda>v. do {
     area \<leftarrow> lookup_addr v pc;
     case area of
       None \<Rightarrow> Some (None, v)
     | Some i \<Rightarrow> do {
         let a = vv_buf v ! i;
         (_, v) \<leftarrow> remove_vm_area v (a_start a) (a_end a) False;
         Some (Some (a_start a, a_end a), v) } })"

definition vmvector_overlap :: "vm_area_vector \<Rightarrow> u64 \<Rightarrow> u64 \<Rightarrow> (bool \<times> vm_area_vector) option" where
  "vmvector_overlap v start fin =
     (if vmvector_empty v then Some (False, v)
      else read_locked v (\<lambda>v. do { overlap \<leftarrow> vm_area_overlap v start fin; Some (overlap, v) }))"

definition vmvector_lookup_data ::
    "vm_area_vector \<Rightarrow> u64 \<Rightarrow> ((u64 \<times> u64 \<times> u64) option \<times> vm_area_vector) option" where
  "vmvector_lookup_data v pc = read_locked v (\<lambda>v. do {
     area \<leftarrow> lookup_addr v pc;
     Some (map_option (\<lambda>i. (a_start (vv_buf v ! i), a_end (vv_buf v ! i), client (vv_buf v ! i))) area, v) })"

definition vmvector_lookup :: "vm_area_vector \<Rightarrow> u64 \<Rightarrow> (u64 \<times> vm_area_vector) option" where
  "vmvector_lookup v pc = do {
     (r, v) \<leftarrow> vmvector_lookup_data v pc;
     Some (case r of None \<Rightarrow> 0 | Some (_, _, data) \<Rightarrow> data, v) }"

text \<open>The bounds of the previous and of the next area; \<^verbatim>\<open>POINTER_MAX\<close> is the word of ones.\<close>

definition vmvector_lookup_prev_next ::
    "vm_area_vector \<Rightarrow> u64 \<Rightarrow> (((u64 \<times> u64) \<times> (u64 \<times> u64)) option \<times> vm_area_vector) option" where
  "vmvector_lookup_prev_next v pc = read_locked v (\<lambda>v. do {
     (found, index) \<leftarrow> binary_search v pc (pc + 1) True False;
     Some (if found then None
           else Some
             (if index = - 1 then (0, 0)
              else (a_start (vv_buf v ! nat index), a_end (vv_buf v ! nat index)),
              if index \<ge> int (length (vv_buf v)) - 1 then (- 1, - 1)
              else (a_start (vv_buf v ! nat (index + 1)), a_end (vv_buf v ! nat (index + 1)))), v) })"

definition vmvector_modify_data :: "vm_area_vector \<Rightarrow> u64 \<Rightarrow> u64 \<Rightarrow> u64 \<Rightarrow> (bool \<times> vm_area_vector) option" where
  "vmvector_modify_data v start fin data = write_locked v (\<lambda>v. do {
     area \<leftarrow> lookup_addr v start;
     Some (case area of
         None \<Rightarrow> (False, v)
       | Some i \<Rightarrow> (True, if start = a_start (vv_buf v ! i) \<and> fin = a_end (vv_buf v ! i)
           then set_client v i data else v)) })"

text \<open>The array is \<^verbatim>\<open>NULL\<close> when the capacity is 0.\<close>

definition vmvector_reset_vector :: "vm_area_vector \<Rightarrow> vm_area_vector option" where
  "vmvector_reset_vector v =
     (if vv_size v \<noteq> 0
      then Some ((fold (\<lambda>b v. call_free_payload v (client b)) (vv_buf v) v)\<lparr>vv_size := 0, vv_buf := []\<rparr>)
      else do { ASSERT (vv_size v = 0 \<and> length (vv_buf v) = 0); Some v })"

subsection \<open>The iterator\<close>

text \<open>The iterator refers to the vector, which is passed along; \<open>it_index\<close> is the index of the last area.\<close>

record vmvector_iterator =
  it_vector :: bool
  it_index :: int

definition vmvector_iterator_start :: "vm_area_vector \<Rightarrow> (vm_area_vector \<times> vmvector_iterator) option" where
  "vmvector_iterator_start v = do {
     v \<leftarrow> (if SHOULD_LOCK_VECTOR v then d_r_read_lock v else Some v);
     Some (v, \<lparr>it_vector = True, it_index = - 1\<rparr>) }"

definition vmvector_iterator_hasnext :: "vm_area_vector \<Rightarrow> vmvector_iterator \<Rightarrow> bool" where
  "vmvector_iterator_hasnext v vmvi \<longleftrightarrow> it_index vmvi + 1 < int (length (vv_buf v))"

definition vmvector_iterator_startover :: "vmvector_iterator \<Rightarrow> vmvector_iterator" where
  "vmvector_iterator_startover vmvi = vmvi\<lparr>it_index := - 1\<rparr>"

definition vmvector_iterator_peek ::
    "vm_area_vector \<Rightarrow> vmvector_iterator \<Rightarrow> (u64 \<times> u64 \<times> u64) option" where
  "vmvector_iterator_peek v vmvi = do {
     let idx = it_index vmvi + 1;
     ASSERT (vmvector_iterator_hasnext v vmvi);
     ASSERT (idx < int (length (vv_buf v)));
     let b = vv_buf v ! nat idx;
     Some (a_start b, a_end b, client b) }"

definition vmvector_iterator_next ::
    "vm_area_vector \<Rightarrow> vmvector_iterator \<Rightarrow> ((u64 \<times> u64 \<times> u64) \<times> vmvector_iterator) option" where
  "vmvector_iterator_next v vmvi = do {
     res \<leftarrow> vmvector_iterator_peek v vmvi;
     Some (res, vmvi\<lparr>it_index := it_index vmvi + 1\<rparr>) }"

text \<open>The lock is released only when the caller should lock: a reader that holds it does.\<close>

definition vmvector_iterator_stop :: "vm_area_vector \<Rightarrow> vmvector_iterator \<Rightarrow> (vm_area_vector \<times> vmvector_iterator) option" where
  "vmvector_iterator_stop v vmvi = do {
     v \<leftarrow> (if SHOULD_LOCK_VECTOR v then d_r_read_unlock v else Some v);
     Some (v, \<lparr>it_vector = False, it_index = - 1\<rparr>) }"

end
