(* ===== verification/VmVectorProps.thy ===== *)
theory VmVectorProps
  imports VmVectorOps
begin

text \<open>
  The contract of the exported routines of the vector of address ranges. The addresses covered behave as a set under
  adding, removing and overlap tests, for every vector that the routines build. A vector that neither
  merges adjacent areas nor lets areas overlap is a map from addresses to payloads: the routines refine the
  operations on a partial function, which the locale \<open>range_map\<close> states and the last section instantiates.
\<close>

subsection \<open>Vectors of the exported interface\<close>

text \<open>Through the exported routines all areas have the flags 0.\<close>

definition plain_areas :: "vm_area list \<Rightarrow> bool" where
  "plain_areas bs \<longleftrightarrow> (\<forall>b \<in> set bs. vm_flags b = 0 \<and> frag_flags b = 0)"

definition vector_ok :: "vm_area_vector \<Rightarrow> bool" where
  "vector_ok v \<longleftrightarrow> areas_wf (vv_buf v) \<and> plain_areas (vv_buf v) \<and> length (vv_buf v) \<le> vv_size v \<and>
     \<not> TEST VECTOR_FRAGMENT_LIST (vv_flags v)"

lemma plain_areas_append [simp]: "plain_areas (as @ bs) \<longleftrightarrow> plain_areas as \<and> plain_areas bs"
  "plain_areas (b # bs) \<longleftrightarrow> vm_flags b = 0 \<and> frag_flags b = 0 \<and> plain_areas bs" "plain_areas []"
  by (auto simp: plain_areas_def)

lemma plain_areas_take_drop: "plain_areas bs \<Longrightarrow> plain_areas (take n bs) \<and> plain_areas (drop n bs)"
  by (auto simp: plain_areas_def dest: in_set_takeD in_set_dropD)

lemma TEST_0 [simp]: "\<not> TEST m 0"
  by (simp add: TEST_def)

lemma drop_flags_plain: "vm_flags b = 0 \<Longrightarrow> drop_flags 0 b = b"
  by (simp add: drop_flags_def Let_def)

lemma add_scan_plain:
  "plain_areas bs \<Longrightarrow> \<not> TEST VECTOR_NEVER_OVERLAP (vv_flags v) \<or> (\<forall>b \<in> set bs. \<not> overlaps start fin b) \<Longrightarrow>
     \<exists>r. add_scan v 0 0 data i bs start fin os = Some r \<and> r_areas r = bs \<and> r_rest r = None \<and>
       ((\<forall>b \<in> set bs. \<not> joins v start fin 0 0 data b) \<and> os = None \<longrightarrow> r_ostart r = None \<and> r_start r = start \<and> r_end r = fin)"
proof (induction bs arbitrary: i os)
  case (Cons b bs)
  have plain: "vm_flags b = 0" "frag_flags b = 0" "plain_areas bs" using Cons.prems(1) by simp_all
  have "flags_compatible 0 0 b" "\<not> must_split v 0 0 data b"
    using plain by (simp_all add: flags_compatible_def must_split_def)
  moreover note Cons.IH [OF plain(3), of "Suc i" "if os = None then Some i else os"] Cons.IH [OF plain(3), of "Suc i" os]
  ultimately show ?case using Cons.prems(2) drop_flags_plain [OF plain(1)]
    by (auto simp: Let_def cons_area_def)
qed auto

lemma insert_area_total:
  assumes "length (vv_buf v) \<le> vv_size v" "i \<le> length (vv_buf v)"
    "\<forall>b \<in> set (take i (vv_buf v)). a_end b \<le> a_start c" "\<forall>b \<in> set (drop i (vv_buf v)). a_end c \<le> a_start b"
  shows "\<exists>v'. insert_area v i c = Some v' \<and> vv_buf v' = take i (vv_buf v) @ c # drop i (vv_buf v) \<and>
    length (vv_buf v') \<le> vv_size v' \<and> same_setup v v' \<and> vv_freed v' = vv_freed v"
proof -
  have size: "length (vv_buf v) < vv_size (vm_area_vector_check_size v)"
    using assms(1) by (auto simp: vm_area_vector_check_size_def vmarea_initial_size_def vmarea_increment_size_def)
  have "vv_buf v ! (i - 1) \<in> set (take i (vv_buf v))" if "0 < i"
    using that assms(2) by (auto simp: in_set_conv_nth intro!: exI [of _ "i - 1"])
  moreover have "vv_buf v ! i \<in> set (drop i (vv_buf v))" if "i < length (vv_buf v)"
    using that by (metis Cons_nth_drop_Suc list.set_intros(1))
  ultimately have "i = 0 \<or> a_end (vv_buf v ! (i - 1)) \<le> a_start c" "i = length (vv_buf v) \<or> a_end c \<le> a_start (vv_buf v ! i)"
    using assms(2-4) by (auto simp: le_less)
  with size assms(2) show ?thesis
    by (auto simp: insert_area_def Let_def vm_area_vector_check_size_def same_setup_def)
qed

lemma merge_area_config: "same_setup v (merge_area v k oe start fin data)"
  by (auto simp: merge_area_def Let_def same_setup_def case_prod_unfold split: option.split)

lemma merge_area_plain:
  "\<exists>b. vv_buf (merge_area v k oe start fin data) = take k (vv_buf v) @ b # drop oe (vv_buf v) \<and>
     vm_flags b = vm_flags (vv_buf v ! k) \<and> frag_flags b = frag_flags (vv_buf v ! k)"
  by (auto simp: merge_area_def Let_def case_prod_unfold split: option.split)

lemma merge_area_size: "vv_size (merge_area v k oe start fin data) = vv_size v"
  by (auto simp: merge_area_def Let_def case_prod_unfold split: option.split)

lemma finish_add_plain:
  assumes "place_ok (vv_buf v) r" "plain_areas (vv_buf v)" "length (vv_buf v) \<le> vv_size v"
  shows "\<exists>v'. finish_add v r 0 0 data = Some v' \<and> plain_areas (vv_buf v') \<and> length (vv_buf v') \<le> vv_size v' \<and>
    same_setup v v'"
proof (cases "r_ostart r")
  case None
  let ?c = "\<lparr>a_start = r_start r, a_end = r_end r, vm_flags = 0, frag_flags = 0, client = data\<rparr>"
  from insert_area_total [of v "r_i r" ?c] assms None obtain v' where
    "insert_area v (r_i r) ?c = Some v'" "vv_buf v' = take (r_i r) (vv_buf v) @ ?c # drop (r_i r) (vv_buf v)"
    "length (vv_buf v') \<le> vv_size v'" "same_setup v v'" by (auto simp: place_ok_def)
  with None plain_areas_take_drop [OF assms(2)] show ?thesis by (simp add: finish_add_def)
next
  case (Some k)
  let ?oe = "oend_of (vv_buf v) r" let ?w = "merge_area v k ?oe (r_start r) (r_end r) data"
  have k: "k < ?oe" "?oe \<le> length (vv_buf v)" using assms(1) Some by (auto simp: place_ok_def)
  obtain b where "vv_buf ?w = take k (vv_buf v) @ b # drop ?oe (vv_buf v)"
    "vm_flags b = vm_flags (vv_buf v ! k)" "frag_flags b = frag_flags (vv_buf v ! k)"
    using merge_area_plain [of v k ?oe "r_start r" "r_end r" data] by blast
  with k assms(2,3) plain_areas_take_drop [OF assms(2)] have "plain_areas (vv_buf ?w)" "length (vv_buf ?w) \<le> vv_size ?w"
    by (auto simp: plain_areas_def merge_area_size)
  moreover have "finish_add v r 0 0 data = Some ?w" using Some by (simp add: finish_add_def oend_of_def)
  ultimately show ?thesis using merge_area_config by blast
qed

lemma add_vm_area_plain:
  assumes ok: "vector_ok v" and fin: "start < fin"
    and over: "\<not> TEST VECTOR_NEVER_OVERLAP (vv_flags v) \<or> cover (vv_buf v) \<inter> {start..<fin} = {}"
  shows "\<exists>v'. add_vm_area v start fin 0 0 data = Some v' \<and> vector_ok v' \<and> same_setup v v' \<and>
    cover (vv_buf v') = {start..<fin} \<union> cover (vv_buf v)"
proof -
  have wf: "areas_wf (vv_buf v)" "plain_areas (vv_buf v)" "length (vv_buf v) \<le> vv_size v"
    "\<not> TEST VECTOR_FRAGMENT_LIST (vv_flags v)" using ok by (simp_all add: vector_ok_def)
  have "\<not> TEST VECTOR_NEVER_OVERLAP (vv_flags v) \<or> (\<forall>b \<in> set (vv_buf v). \<not> overlaps start fin b)"
    using over no_overlaps [OF wf(1) fin] by simp
  from add_scan_plain [OF wf(2) this, of data 0 None] obtain r where
    scan: "add_scan v 0 0 data 0 (vv_buf v) start fin None = Some r" "r_areas r = vv_buf v" "r_rest r = None" by auto
  have place: "place_ok (vv_buf v) r"
    using add_scan_place [of v 0 0 data "[]" "vv_buf v" start fin None r] scan wf(1) fin by (simp add: scan_inv_def)
  from finish_add_plain [OF place wf(2,3)] obtain v' where
    fin': "finish_add v r 0 0 data = Some v'" "plain_areas (vv_buf v')" "length (vv_buf v') \<le> vv_size v'" "same_setup v v'"
    by auto
  have add: "add_vm_area v start fin 0 0 data = Some v'"
    using scan fin' wf(4) fin by (simp add: add_vm_area.simps)
  from add_vm_area_buf [OF add wf(1)] fin' wf(4) add show ?thesis by (simp add: vector_ok_def same_setup_def)
qed
subsection \<open>Removal keeps the vector plain\<close>

lemma plain_areas_origin:
  "plain_areas as \<Longrightarrow> \<forall>b \<in> set bs. \<exists>a \<in> set as. vm_flags b = vm_flags a \<and> frag_flags b = frag_flags a \<Longrightarrow> plain_areas bs"
  unfolding plain_areas_def by metis

lemma add_split_area_plain:
  assumes ok: "vector_ok w" and tail: "\<And>c. t = Some c \<Longrightarrow> a_start c < a_end c \<and> cover (vv_buf w) \<inter> addrs c = {} \<and>
    vm_flags c = 0 \<and> frag_flags c = 0"
  shows "\<exists>v'. add_split_area w t = Some v' \<and> vector_ok v' \<and> same_setup w v'"
proof (cases t)
  case None
  with ok show ?thesis by (simp add: add_split_area_def)
next
  case (Some c)
  let ?d = "case split_payload_func w of None \<Rightarrow> client c | Some f \<Rightarrow> f (client c)"
  from add_vm_area_plain [OF ok, of "a_start c" "a_end c" ?d] tail [OF Some] Some show ?thesis
    by (auto simp: add_split_area_def addrs_def)
qed

lemma remove_vm_area_plain:
  assumes ok: "vector_ok v" and fin: "start < fin"
  shows "\<exists>found v'. remove_vm_area v start fin p = Some (found, v') \<and> vector_ok v' \<and> same_setup v v'"
proof -
  have wf: "areas_wf (vv_buf v)" "\<not> TEST VECTOR_FRAGMENT_LIST (vv_flags v)" using ok by (simp_all add: vector_ok_def)
  from wf(1) fin wf(2) show ?thesis
  proof (cases rule: remove_vm_area_cases [where p = p])
    case none
    with ok show ?thesis by auto
  next
    case (some w t)
    have plain: "plain_areas (vv_buf v)" using ok by (simp add: vector_ok_def)
    have w: "vector_ok w" using some ok plain_areas_origin [OF plain some(7)]
      by (auto simp: vector_ok_def same_setup_def)
    have "\<exists>v'. add_split_area w t = Some v' \<and> vector_ok v' \<and> same_setup w v'"
      using some(9) plain by (intro add_split_area_plain [OF w]) (auto simp: plain_areas_def)
    with some(2,3) show ?thesis by (auto intro: same_setup_trans)
  qed
qed

subsection \<open>Locked calls\<close>

text \<open>The state in which a call that writes gets its lock, and the vector with that lock.\<close>

definition may_write :: "vm_area_vector \<Rightarrow> bool" where
  "may_write v \<longleftrightarrow> \<not> SHOULD_LOCK_VECTOR v \<or> vv_lock v = Unlocked"

definition writer_view :: "vm_area_vector \<Rightarrow> vm_area_vector" where
  "writer_view v = (if SHOULD_LOCK_VECTOR v then v\<lparr>vv_lock := Writer\<rparr> else v)"

lemma writer_view_frame [simp]:
  "vv_buf (writer_view v) = vv_buf v" "vv_size (writer_view v) = vv_size v" "vv_flags (writer_view v) = vv_flags v"
  "free_payload_func (writer_view v) = free_payload_func v" "split_payload_func (writer_view v) = split_payload_func v"
  "should_merge_func (writer_view v) = should_merge_func v" "merge_payload_func (writer_view v) = merge_payload_func v"
  by (simp_all add: writer_view_def)

lemma vector_ok_writer [simp]: "vector_ok (writer_view v) = vector_ok v"
  by (simp add: vector_ok_def)

lemma lock_frame [simp]: "vv_buf (w\<lparr>vv_lock := l\<rparr>) = vv_buf w" "vector_ok (w\<lparr>vv_lock := l\<rparr>) = vector_ok w"
  by (simp_all add: vector_ok_def)

lemma write_locked_None: "may_write v \<Longrightarrow> body (writer_view v) = None \<Longrightarrow> write_locked v body = None"
  by (cases "SHOULD_LOCK_VECTOR v") (auto simp: with_lock_def may_write_def writer_view_def d_r_write_lock_def Let_def)

lemma SHOULD_LOCK_flags:
  "SHOULD_LOCK_VECTOR v \<Longrightarrow> TEST VECTOR_SHARED (vv_flags v) \<and> \<not> TEST VECTOR_NO_LOCK (vv_flags v) \<and> vv_lock v \<noteq> Writer"
  by (simp add: SHOULD_LOCK_VECTOR_def)

lemma write_locked_eq:
  assumes "may_write v" "body (writer_view v) = Some (r, w)" "same_setup (writer_view v) w"
  shows "write_locked v body = Some (r, w\<lparr>vv_lock := vv_lock v\<rparr>)"
proof (cases "SHOULD_LOCK_VECTOR v")
  case True
  with assms SHOULD_LOCK_flags [OF True] show ?thesis
    by (auto simp: with_lock_def may_write_def writer_view_def d_r_write_lock_def d_r_write_unlock_def same_setup_def Let_def)
next
  case False
  with assms show ?thesis by (auto simp: with_lock_def writer_view_def same_setup_def Let_def)
qed

lemma read_locked_eq:
  assumes "SHOULD_LOCK_VECTOR v \<Longrightarrow> vv_lock v \<noteq> Readers 0" and body: "\<And>l. body (v\<lparr>vv_lock := l\<rparr>) = Some (r, v\<lparr>vv_lock := l\<rparr>)"
  shows "read_locked v body = Some (r, v)"
proof (cases "SHOULD_LOCK_VECTOR v")
  case True
  have v: "v\<lparr>vv_lock := vv_lock v\<rparr> = v" by simp
  from True assms SHOULD_LOCK_flags [OF True] v show ?thesis
    by (cases "vv_lock v") (auto simp: with_lock_def d_r_read_lock_def d_r_read_unlock_def Let_def)
next
  case False
  have "body v = Some (r, v)" using body [of "vv_lock v"] by simp
  with False show ?thesis by (auto simp: with_lock_def Let_def)
qed

lemma same_setup_lock: "same_setup (writer_view v) w \<Longrightarrow> same_setup v (w\<lparr>vv_lock := vv_lock v\<rparr>)"
  by (auto simp: same_setup_def writer_view_def)

lemma may_write_config: "same_setup v w \<Longrightarrow> may_write w = may_write v"
  by (auto simp: same_setup_def may_write_def SHOULD_LOCK_VECTOR_def)

subsection \<open>The covered addresses\<close>

lemma vmvector_add_cover:
  assumes ok: "vector_ok v" "may_write v" and fin: "start < fin"
    and over: "\<not> TEST VECTOR_NEVER_OVERLAP (vv_flags v) \<or> cover (vv_buf v) \<inter> {start..<fin} = {}"
  shows "\<exists>v'. vmvector_add v start fin data = Some ((), v') \<and> vector_ok v' \<and> same_setup v v' \<and>
    cover (vv_buf v') = {start..<fin} \<union> cover (vv_buf v)"
proof -
  have "vector_ok (writer_view v)" using ok(1) by simp
  from add_vm_area_plain [OF this fin, of data] over obtain w where
    w: "add_vm_area (writer_view v) start fin 0 0 data = Some w" "vector_ok w" "same_setup (writer_view v) w"
    "cover (vv_buf w) = {start..<fin} \<union> cover (vv_buf v)" by auto
  have "vmvector_add v start fin data = Some ((), w\<lparr>vv_lock := vv_lock v\<rparr>)"
    unfolding vmvector_add_def by (rule write_locked_eq [OF ok(2) _ w(3)]) (simp add: w(1))
  with w same_setup_lock [OF w(3)] show ?thesis by simp
qed

lemma vmvector_remove_eq:
  assumes "may_write v" "remove_vm_area (writer_view v) start fin False = Some (found, w)"
    "same_setup (writer_view v) w"
  shows "vmvector_remove v start fin = Some (found, w\<lparr>vv_lock := vv_lock v\<rparr>)"
  unfolding vmvector_remove_def by (rule write_locked_eq [OF assms(1) _ assms(3)]) (simp add: assms(2))

lemma vmvector_remove_cover:
  assumes ok: "vector_ok v" "may_write v" and fin: "start < fin"
  shows "\<exists>v'. vmvector_remove v start fin = Some (cover (vv_buf v) \<inter> {start..<fin} \<noteq> {}, v') \<and> vector_ok v' \<and>
    same_setup v v' \<and> cover (vv_buf v') = cover (vv_buf v) - {start..<fin}"
proof -
  have ok': "vector_ok (writer_view v)" "areas_wf (vv_buf (writer_view v))" using ok(1) by (simp_all add: vector_ok_def)
  from remove_vm_area_plain [OF ok'(1) fin, of False] obtain found w where
    w: "remove_vm_area (writer_view v) start fin False = Some (found, w)" "vector_ok w" "same_setup (writer_view v) w"
    by blast
  from remove_vm_area_buf [OF w(1) ok'(2) fin] vmvector_remove_eq [OF ok(2) w(1,3)] w(2) same_setup_lock [OF w(3)]
  show ?thesis by simp
qed

lemma vmvector_overlap_cover:
  assumes "vector_ok v" "start < fin" "SHOULD_LOCK_VECTOR v \<Longrightarrow> vv_lock v \<noteq> Readers 0"
  shows "vmvector_overlap v start fin = Some (cover (vv_buf v) \<inter> {start..<fin} \<noteq> {}, v)"
proof (cases "vmvector_empty v")
  case False
  have "vm_area_overlap (v\<lparr>vv_lock := l\<rparr>) start fin = Some (cover (vv_buf v) \<inter> {start..<fin} \<noteq> {})" for l
    using vm_area_overlap_eq [of "v\<lparr>vv_lock := l\<rparr>" start fin] assms by (simp add: vector_ok_def)
  then show ?thesis
    using False read_locked_eq [OF assms(3), of "\<lambda>v. do { overlap \<leftarrow> vm_area_overlap v start fin; Some (overlap, v) }"]
    by (simp add: vmvector_overlap_def)
qed (simp add: vmvector_overlap_def vmvector_empty_def)

text \<open>A run of additions and removals, and the same run on the set of addresses.\<close>

datatype range_op = Range_add u64 u64 u64 | Range_remove u64 u64

fun range_op_ok :: "range_op \<Rightarrow> bool" where
  "range_op_ok (Range_add start fin data) \<longleftrightarrow> start < fin"
| "range_op_ok (Range_remove start fin) \<longleftrightarrow> start < fin"

fun run_range_ops :: "vm_area_vector \<Rightarrow> range_op list \<Rightarrow> vm_area_vector option" where
  "run_range_ops v [] = Some v"
| "run_range_ops v (Range_add start fin data # ops) = do {
     (_, v) \<leftarrow> vmvector_add v start fin data;
     run_range_ops v ops }"
| "run_range_ops v (Range_remove start fin # ops) = do {
     (_, v) \<leftarrow> vmvector_remove v start fin;
     run_range_ops v ops }"

fun set_range_ops :: "u64 set \<Rightarrow> range_op list \<Rightarrow> u64 set" where
  "set_range_ops A [] = A"
| "set_range_ops A (Range_add start fin data # ops) = set_range_ops (A \<union> {start..<fin}) ops"
| "set_range_ops A (Range_remove start fin # ops) = set_range_ops (A - {start..<fin}) ops"

lemma run_range_ops_cover:
  "vector_ok v \<Longrightarrow> may_write v \<Longrightarrow> \<not> TEST VECTOR_NEVER_OVERLAP (vv_flags v) \<Longrightarrow> \<forall>r \<in> set ops. range_op_ok r \<Longrightarrow>
     \<exists>v'. run_range_ops v ops = Some v' \<and> vector_ok v' \<and> same_setup v v' \<and>
       cover (vv_buf v') = set_range_ops (cover (vv_buf v)) ops"
proof (induction ops arbitrary: v)
  case (Cons r ops)
  have step: "\<exists>w. run_range_ops v (r # ops) = run_range_ops w ops \<and> vector_ok w \<and> same_setup v w \<and>
      set_range_ops (cover (vv_buf v)) (r # ops) = set_range_ops (cover (vv_buf w)) ops"
  proof (cases r)
    case (Range_add s e d)
    with vmvector_add_cover [of v s e d] Cons.prems show ?thesis by (auto simp: Un_commute)
  next
    case (Range_remove s e)
    with vmvector_remove_cover [of v s e] Cons.prems show ?thesis by auto
  qed
  then obtain w where w: "run_range_ops v (r # ops) = run_range_ops w ops" "vector_ok w" "same_setup v w"
    "set_range_ops (cover (vv_buf v)) (r # ops) = set_range_ops (cover (vv_buf w)) ops" by blast
  from w(3) Cons.prems have "may_write w" "\<not> TEST VECTOR_NEVER_OVERLAP (vv_flags w)"
    by (simp_all add: may_write_config) (simp add: same_setup_def)
  from Cons.IH [OF w(2) this] Cons.prems(4) w show ?case by (auto intro: same_setup_trans)
qed simp

lemma init_vector_ok: "\<not> TEST VECTOR_FRAGMENT_LIST flags \<Longrightarrow> vector_ok (vmvector_init_vector flags)"
  "may_write (vmvector_init_vector flags)" "cover (vv_buf (vmvector_init_vector flags)) = {}"
  by (simp_all add: vector_ok_def vmvector_init_vector_def may_write_def)

text \<open>C16: A vector of address ranges is a set of addresses. From a new vector that is not a list of fragments and lets
  areas overlap, any sequence of additions and removals of non-empty ranges succeeds, with every lock
  released; afterwards an overlap test says whether the union and difference of these ranges meets the
  range asked for, and the areas are sorted, disjoint and within the capacity of the array.\<close>

theorem vmvector_is_set:
  assumes "\<not> TEST VECTOR_FRAGMENT_LIST flags" "\<not> TEST VECTOR_NEVER_OVERLAP flags"
    and "\<forall>r \<in> set ops. range_op_ok r" "start < fin"
  shows "\<exists>v. run_range_ops (vmvector_init_vector flags) ops = Some v \<and> vv_lock v = Unlocked \<and>
    areas_wf (vv_buf v) \<and> length (vv_buf v) \<le> vv_size v \<and>
    vmvector_overlap v start fin = Some (set_range_ops {} ops \<inter> {start..<fin} \<noteq> {}, v)"
proof -
  note init = init_vector_ok(1) [OF assms(1)] init_vector_ok(2) [of flags] init_vector_ok(3) [of flags]
  have flags: "vv_flags (vmvector_init_vector flags) = flags" "vv_lock (vmvector_init_vector flags) = Unlocked"
    by (simp_all add: vmvector_init_vector_def)
  from run_range_ops_cover [OF init(1,2) _ assms(3)] obtain v where
    v: "run_range_ops (vmvector_init_vector flags) ops = Some v" "vector_ok v" "same_setup (vmvector_init_vector flags) v"
    "cover (vv_buf v) = set_range_ops {} ops" using assms(2) flags init(3) by auto
  moreover have "vv_lock v = Unlocked" using v(3) flags by (simp add: same_setup_def)
  ultimately show ?thesis using vmvector_overlap_cover [OF v(2) assms(4)] by (auto simp: vector_ok_def)
qed

theorem vmvector_is_set_witness:
  "\<exists>v. run_range_ops (vmvector_init_vector VECTOR_SHARED) [Range_add 10 20 1, Range_add 15 40 2, Range_remove 12 30] = Some v \<and>
    vv_lock v = Unlocked \<and> areas_wf (vv_buf v) \<and> length (vv_buf v) \<le> vv_size v \<and>
    vmvector_overlap v 12 30 =
      Some (set_range_ops {} [Range_add 10 20 1, Range_add 15 40 2, Range_remove 12 30] \<inter> {12..<30} \<noteq> {}, v)"
  by (rule vmvector_is_set) (simp_all add: vm_consts)

subsection \<open>Vectors as maps\<close>

text \<open>The interface of a map from the elements of a linear order to payloads that is changed range by range: a
  range is entered where nothing is, and removed as a whole.\<close>

definition fill :: "('a::linorder \<Rightarrow> 'd option) \<Rightarrow> 'a \<Rightarrow> 'a \<Rightarrow> 'd option \<Rightarrow> ('a \<Rightarrow> 'd option)" where
  "fill m a b d = (\<lambda>x. if a \<le> x \<and> x < b then d else m x)"

lemma fill_fill [simp]: "fill (fill m a b c) a b d = fill m a b d"
  by (auto simp: fill_def)

lemma fill_free: "dom m \<inter> {a..<b} = {} \<Longrightarrow> fill m a b None = m"
proof (rule ext)
  fix x assume "dom m \<inter> {a..<b} = {}"
  then show "fill m a b None x = m x" by (cases "m x") (auto simp: fill_def)
qed

lemma fill_apply: "fill m a b d x = (if a \<le> x \<and> x < b then d else m x)"
  by (simp add: fill_def)

locale range_map =
  fixes ok :: "'s \<Rightarrow> bool" and view :: "'s \<Rightarrow> 'a::linorder \<Rightarrow> 'd option"
    and add :: "'s \<Rightarrow> 'a \<Rightarrow> 'a \<Rightarrow> 'd \<Rightarrow> (unit \<times> 's) option"
    and remove :: "'s \<Rightarrow> 'a \<Rightarrow> 'a \<Rightarrow> (bool \<times> 's) option"
    and get :: "'s \<Rightarrow> 'a \<Rightarrow> ('d option \<times> 's) option"
  assumes add_free: "ok s \<Longrightarrow> a < b \<Longrightarrow> dom (view s) \<inter> {a..<b} = {} \<Longrightarrow>
      \<exists>s'. add s a b d = Some ((), s') \<and> ok s' \<and> view s' = fill (view s) a b (Some d)"
    and add_taken: "ok s \<Longrightarrow> a < b \<Longrightarrow> dom (view s) \<inter> {a..<b} \<noteq> {} \<Longrightarrow> add s a b d = None"
    and remove_view: "ok s \<Longrightarrow> a < b \<Longrightarrow> \<exists>s'. remove s a b = Some (dom (view s) \<inter> {a..<b} \<noteq> {}, s') \<and> ok s' \<and>
      view s' = fill (view s) a b None"
    and get_view: "ok s \<Longrightarrow> get s x = Some (view s x, s)"
begin

lemma add_someD:
  assumes "ok s" "a < b" "add s a b d = Some ((), s')"
  shows "dom (view s) \<inter> {a..<b} = {} \<and> ok s' \<and> view s' = fill (view s) a b (Some d)"
proof -
  have free: "dom (view s) \<inter> {a..<b} = {}" using add_taken [OF assms(1,2)] assms(3) by fastforce
  with add_free [OF assms(1,2) free, of d] assms(3) show ?thesis by auto
qed

lemma get_after_add:
  "ok s \<Longrightarrow> a < b \<Longrightarrow> add s a b d = Some ((), s') \<Longrightarrow>
     get s' x = Some (if a \<le> x \<and> x < b then Some d else view s x, s')"
  using add_someD [of s a b d s'] get_view [of s' x] by (simp add: fill_apply)

lemma add_after_remove:
  assumes "ok s" "a < b"
  shows "\<exists>s' s''. remove s a b = Some (dom (view s) \<inter> {a..<b} \<noteq> {}, s') \<and> add s' a b d = Some ((), s'') \<and> ok s'' \<and>
    view s'' = fill (view s) a b (Some d)"
proof -
  obtain s' where s': "remove s a b = Some (dom (view s) \<inter> {a..<b} \<noteq> {}, s')" "ok s'" "view s' = fill (view s) a b None"
    using remove_view [OF assms] by blast
  then have "dom (view s') \<inter> {a..<b} = {}" by (auto simp: fill_def dom_def)
  from add_free [OF s'(2) assms(2) this, of d] s' show ?thesis by auto
qed

lemma remove_undoes_add:
  assumes "ok s" "a < b" "add s a b d = Some ((), s')"
  shows "\<exists>s''. remove s' a b = Some (True, s'') \<and> ok s'' \<and> view s'' = view s"
proof -
  note added = add_someD [OF assms]
  have "a \<in> dom (view s') \<inter> {a..<b}" using assms(2) added by (auto simp: fill_apply)
  then have found: "dom (view s') \<inter> {a..<b} \<noteq> {}" by blast
  have "fill (view s') a b None = view s" using added by (simp add: fill_free)
  with remove_view [of s' a b] added assms(2) found show ?thesis by auto
qed

end

definition vv_map :: "vm_area_vector \<Rightarrow> u64 \<Rightarrow> u64 option" where
  "vv_map v x = map_option client (area_at (vv_buf v) x)"

definition map_vector :: "vm_area_vector \<Rightarrow> bool" where
  "map_vector v \<longleftrightarrow> vector_ok v \<and> may_write v \<and> TEST VECTOR_NEVER_MERGE_ADJACENT (vv_flags v) \<and>
     TEST VECTOR_NEVER_OVERLAP (vv_flags v) \<and> split_payload_func v = None"

definition vv_get :: "vm_area_vector \<Rightarrow> u64 \<Rightarrow> (u64 option \<times> vm_area_vector) option" where
  "vv_get v x = do { (r, v) \<leftarrow> vmvector_lookup_data v x; Some (map_option (\<lambda>(_, _, data). data) r, v) }"

lemma vv_map_points: "areas_wf (vv_buf v) \<Longrightarrow> vv_map v x = Some d \<longleftrightarrow> (x, d) \<in> points (vv_buf v)"
  by (auto simp: vv_map_def area_at_Some points_def)

lemma dom_vv_map: "dom (vv_map v) = cover (vv_buf v)"
  using area_at_None [of "vv_buf v"] by (auto simp: vv_map_def dom_def)

lemma vv_map_eqI:
  assumes "areas_wf (vv_buf v)" "\<And>x d. m x = Some d \<longleftrightarrow> (x, d) \<in> points (vv_buf v)"
  shows "vv_map v = m"
proof
  fix x show "vv_map v x = m x"
    using vv_map_points [OF assms(1), of x] assms(2) [of x] by (cases "vv_map v x"; cases "m x") auto
qed

lemma joins_map: "TEST VECTOR_NEVER_MERGE_ADJACENT (vv_flags v) \<Longrightarrow> joins v start fin vmf frf data b = overlaps start fin b"
  by (auto simp: joins_def)

lemma add_scan_taken:
  "areas_wf bs \<Longrightarrow> TEST VECTOR_NEVER_OVERLAP (vv_flags v) \<Longrightarrow> TEST VECTOR_NEVER_MERGE_ADJACENT (vv_flags v) \<Longrightarrow>
     start < fin \<Longrightarrow> \<exists>b \<in> set bs. overlaps start fin b \<Longrightarrow> add_scan v vmf frf data i bs start fin None = None"
proof (induction bs arbitrary: i)
  case (Cons b bs)
  show ?case
  proof (cases "overlaps start fin b")
    case False
    then obtain c where c: "c \<in> set bs" "overlaps start fin c" using Cons.prems(5) by auto
    have "a_start b < a_start c"
      using c Cons.prems(1) by (fastforce simp: areas_wf_Cons intro: less_le_trans)
    then have "\<not> fin \<le> a_start b" using c(2) by (auto simp: overlaps_def)
    with False Cons c show ?thesis by (auto simp: joins_map areas_wf_Cons)
  qed (use Cons.prems in \<open>simp add: joins_map\<close>)
qed simp

lemma add_vm_area_taken:
  assumes "areas_wf (vv_buf v)" "TEST VECTOR_NEVER_OVERLAP (vv_flags v)" "TEST VECTOR_NEVER_MERGE_ADJACENT (vv_flags v)"
    "start < fin" "cover (vv_buf v) \<inter> {start..<fin} \<noteq> {}"
  shows "add_vm_area v start fin vmf frf data = None"
  using add_scan_taken [OF assms(1-4)] no_overlaps [OF assms(1,4)] assms(5) by (simp add: add_vm_area.simps)

lemma add_vm_area_points:
  assumes ok: "vector_ok v" and fin: "start < fin" and free: "cover (vv_buf v) \<inter> {start..<fin} = {}"
    and nm: "TEST VECTOR_NEVER_MERGE_ADJACENT (vv_flags v)" and add: "add_vm_area v start fin 0 0 data = Some v'"
  shows "points (vv_buf v') = {start..<fin} \<times> {data} \<union> points (vv_buf v)"
proof -
  have wf: "areas_wf (vv_buf v)" "plain_areas (vv_buf v)" using ok by (simp_all add: vector_ok_def)
  have no: "\<forall>b \<in> set (vv_buf v). \<not> overlaps start fin b" using free no_overlaps [OF wf(1) fin] by simp
  with add_scan_plain [OF wf(2), of v start fin data 0 None] nm obtain r where
    scan: "add_scan v 0 0 data 0 (vv_buf v) start fin None = Some r" "r_areas r = vv_buf v" "r_rest r = None"
    and r: "r_ostart r = None" "r_start r = start" "r_end r = fin" by (auto simp: joins_map)
  from add scan r have
    "insert_area v (r_i r) \<lparr>a_start = start, a_end = fin, vm_flags = 0, frag_flags = 0, client = data\<rparr> = Some v'"
    by (simp add: add_vm_area.simps finish_add_def split: if_splits)
  then have "points (vv_buf v') = {start..<fin} \<times> {data} \<union> (points (take (r_i r) (vv_buf v)) \<union> points (drop (r_i r) (vv_buf v)))"
    by (auto simp: addrs_def dest!: insert_area_buf)
  also have "points (take (r_i r) (vv_buf v)) \<union> points (drop (r_i r) (vv_buf v)) = points (vv_buf v)"
    by (simp flip: points_simps(3))
  finally show ?thesis .
qed

lemma remove_vm_area_points:
  assumes ok: "vector_ok v" and fin: "start < fin" and nm: "TEST VECTOR_NEVER_MERGE_ADJACENT (vv_flags v)"
    and split: "split_payload_func v = None" and rem: "remove_vm_area v start fin p = Some (found, v')"
  shows "points (vv_buf v') = points (vv_buf v) - {start..<fin} \<times> UNIV"
proof -
  have wf: "areas_wf (vv_buf v)" "\<not> TEST VECTOR_FRAGMENT_LIST (vv_flags v)" using ok by (simp_all add: vector_ok_def)
  from wf(1) fin wf(2) show ?thesis
  proof (cases rule: remove_vm_area_cases [where p = p])
    case none
    then have "points (vv_buf v) \<inter> {start..<fin} \<times> UNIV = {}" by (force simp: cover_points)
    with none rem show ?thesis by auto
  next
    case (some w t)
    have plain: "plain_areas (vv_buf v)" using ok by (simp add: vector_ok_def)
    have w: "vector_ok w" "TEST VECTOR_NEVER_MERGE_ADJACENT (vv_flags w)" "split_payload_func w = None"
      using some ok plain_areas_origin [OF plain some(7)] nm split by (auto simp: vector_ok_def same_setup_def)
    have add: "add_split_area w t = Some v'" using rem some(2) by auto
    show ?thesis
    proof (cases t)
      case None
      with add some(6) show ?thesis by (simp add: add_split_area_def)
    next
      case (Some c)
      with some(9) [OF Some] plain have c: "a_start c < a_end c" "cover (vv_buf w) \<inter> {a_start c..<a_end c} = {}"
        "vm_flags c = 0" "frag_flags c = 0" by (auto simp: plain_areas_def addrs_def)
      with add Some w have "add_vm_area w (a_start c) (a_end c) 0 0 (client c) = Some v'" by (simp add: add_split_area_def)
      from add_vm_area_points [OF w(1) c(1,2) w(2) this] some(6) Some show ?thesis by (auto simp: addrs_def)
    qed
  qed
qed

lemma map_vector_config:
  "map_vector v \<Longrightarrow> vector_ok w \<Longrightarrow> same_setup v w \<Longrightarrow> map_vector w"
  using may_write_config [of v w] by (auto simp: map_vector_def same_setup_def)

lemma vmvector_add_map:
  assumes v: "map_vector v" and fin: "start < fin" and free: "dom (vv_map v) \<inter> {start..<fin} = {}"
  shows "\<exists>v'. vmvector_add v start fin data = Some ((), v') \<and> map_vector v' \<and>
    vv_map v' = fill (vv_map v) start fin (Some data)"
proof -
  have ok: "vector_ok (writer_view v)" and wf: "areas_wf (vv_buf v)" using v by (simp_all add: map_vector_def vector_ok_def)
  have free': "cover (vv_buf (writer_view v)) \<inter> {start..<fin} = {}" using free by (simp add: dom_vv_map)
  from add_vm_area_plain [OF ok fin, of data] free' obtain w where
    w: "add_vm_area (writer_view v) start fin 0 0 data = Some w" "vector_ok w" "same_setup (writer_view v) w" by auto
  from add_vm_area_points [OF ok fin free' _ w(1)] v have
    pts: "points (vv_buf w) = {start..<fin} \<times> {data} \<union> points (vv_buf v)" by (simp add: map_vector_def)
  let ?w = "w\<lparr>vv_lock := vv_lock v\<rparr>"
  have "vmvector_add v start fin data = Some ((), ?w)"
    using v w unfolding vmvector_add_def by (intro write_locked_eq) (simp_all add: map_vector_def)
  moreover have "map_vector ?w" using map_vector_config [OF v _ same_setup_lock [OF w(3)]] w(2) by simp
  moreover have "vv_map ?w = fill (vv_map v) start fin (Some data)"
  proof (rule vv_map_eqI)
    fix x d show "(fill (vv_map v) start fin (Some data) x = Some d) = ((x, d) \<in> points (vv_buf ?w))"
      using vv_map_points [OF wf, of x d] free by (auto simp: fill_apply pts dom_def)
  qed (use w(2) in \<open>simp add: vector_ok_def\<close>)
  ultimately show ?thesis by blast
qed

lemma vmvector_add_map_taken:
  assumes "map_vector v" "start < fin" "dom (vv_map v) \<inter> {start..<fin} \<noteq> {}"
  shows "vmvector_add v start fin data = None"
  unfolding vmvector_add_def using assms
  by (intro write_locked_None) (simp_all add: add_vm_area_taken map_vector_def vector_ok_def dom_vv_map)

lemma vmvector_remove_map:
  assumes v: "map_vector v" and fin: "start < fin"
  shows "\<exists>v'. vmvector_remove v start fin = Some (dom (vv_map v) \<inter> {start..<fin} \<noteq> {}, v') \<and> map_vector v' \<and>
    vv_map v' = fill (vv_map v) start fin None"
proof -
  let ?u = "writer_view v"
  have ok: "vector_ok ?u" and wf: "areas_wf (vv_buf v)" "areas_wf (vv_buf ?u)" and may: "may_write v"
    using v by (simp_all add: map_vector_def vector_ok_def)
  from remove_vm_area_plain [OF ok fin, of False] obtain found w where
    w: "remove_vm_area ?u start fin False = Some (found, w)" "vector_ok w" "same_setup ?u w" by blast
  have pts: "points (vv_buf w) = points (vv_buf v) - {start..<fin} \<times> UNIV"
    using remove_vm_area_points [OF ok fin _ _ w(1)] v by (simp add: map_vector_def)
  let ?w = "w\<lparr>vv_lock := vv_lock v\<rparr>"
  have "found = (dom (vv_map v) \<inter> {start..<fin} \<noteq> {})"
    using remove_vm_area_buf [OF w(1) wf(2) fin] by (simp add: dom_vv_map)
  moreover have "map_vector ?w" using map_vector_config [OF v _ same_setup_lock [OF w(3)]] w(2) by simp
  moreover have "vv_map ?w = fill (vv_map v) start fin None"
  proof (rule vv_map_eqI)
    fix x d show "(fill (vv_map v) start fin None x = Some d) = ((x, d) \<in> points (vv_buf ?w))"
      using vv_map_points [OF wf(1), of x d] by (auto simp: fill_apply pts)
  qed (use w(2) in \<open>simp add: vector_ok_def\<close>)
  ultimately show ?thesis using vmvector_remove_eq [OF may w(1,3)] by auto
qed

lemma vmvector_lookup_data_eq:
  assumes "areas_wf (vv_buf v)" "SHOULD_LOCK_VECTOR v \<Longrightarrow> vv_lock v \<noteq> Readers 0"
  shows "vmvector_lookup_data v x = Some (map_option (\<lambda>b. (a_start b, a_end b, client b)) (area_at (vv_buf v) x), v)"
  unfolding vmvector_lookup_data_def
proof (rule read_locked_eq [OF assms(2)])
  fix l
  let ?v = "v\<lparr>vv_lock := l\<rparr>"
  obtain r where "lookup_addr ?v x = Some r" "area_at (vv_buf v) x = map_option ((!) (vv_buf v)) r"
    using lookup_addr_spec [of ?v x] assms(1) by auto
  then show "do { area \<leftarrow> lookup_addr ?v x;
      Some (map_option (\<lambda>i. (a_start (vv_buf ?v ! i), a_end (vv_buf ?v ! i), client (vv_buf ?v ! i))) area, ?v) } =
    Some (map_option (\<lambda>b. (a_start b, a_end b, client b)) (area_at (vv_buf v) x), ?v)"
    by (simp add: option.map_comp comp_def)
qed

lemma vv_get_map: "map_vector v \<Longrightarrow> vv_get v x = Some (vv_map v x, v)"
  by (subst vv_get_def, subst vmvector_lookup_data_eq)
    (auto simp: map_vector_def vector_ok_def may_write_def vv_map_def option.map_comp comp_def)

interpretation vvm: range_map map_vector vv_map vmvector_add vmvector_remove vv_get
  by unfold_locales (use vmvector_add_map vmvector_add_map_taken vmvector_remove_map vv_get_map in blast)+

text \<open>C17: A vector that neither merges adjacent areas nor lets areas overlap is a partial function from addresses to
  payloads. Adding a range where nothing is enters its payload for the whole range and otherwise fails the
  assertion of the debug build; removing a range removes it from the function, tails of areas included,
  and reports whether anything was there; the binary search returns the value of the function; and a
  range that was added can be taken back.\<close>

theorem vmvector_is_map:
  assumes "map_vector v" "start < fin"
  shows "if dom (vv_map v) \<inter> {start..<fin} = {}
    then \<exists>v' w. vmvector_add v start fin data = Some ((), v') \<and> map_vector v' \<and>
      vv_map v' = fill (vv_map v) start fin (Some data) \<and>
      vv_get v' x = Some (if start \<le> x \<and> x < fin then Some data else vv_map v x, v') \<and>
      vmvector_remove v' start fin = Some (True, w) \<and> vv_map w = vv_map v
    else vmvector_add v start fin data = None \<and>
      (\<exists>v' w. vmvector_remove v start fin = Some (True, v') \<and> map_vector v' \<and>
         vv_map v' = fill (vv_map v) start fin None \<and> vmvector_add v' start fin data = Some ((), w) \<and>
         vv_map w = fill (vv_map v) start fin (Some data))"
proof (cases "dom (vv_map v) \<inter> {start..<fin} = {}")
  case True
  from vvm.add_free [OF assms True, of data] obtain v' where
    v': "vmvector_add v start fin data = Some ((), v')" "map_vector v'" "vv_map v' = fill (vv_map v) start fin (Some data)"
    by blast
  from True v' vvm.get_after_add [OF assms v'(1), of x] vvm.remove_undoes_add [OF assms v'(1)] show ?thesis by auto
next
  case False
  from vvm.remove_view [OF assms] False vvm.add_after_remove [OF assms, of data] vvm.add_taken [OF assms False]
  show ?thesis by auto
qed

definition example_map_vector :: vm_area_vector where
  "example_map_vector = (vmvector_init_vector (VECTOR_NEVER_MERGE_ADJACENT OR VECTOR_NEVER_OVERLAP OR VECTOR_SHARED))
     \<lparr>vv_buf := [\<lparr>a_start = 10, a_end = 40, vm_flags = 0, frag_flags = 0, client = 7\<rparr>], vv_size := 100\<rparr>"

lemma example_map_vector_ok: "map_vector example_map_vector"
proof -
  have "TEST VECTOR_NEVER_MERGE_ADJACENT (vv_flags example_map_vector)" "TEST VECTOR_NEVER_OVERLAP (vv_flags example_map_vector)"
    "\<not> TEST VECTOR_FRAGMENT_LIST (vv_flags example_map_vector)"
    by (simp_all add: example_map_vector_def vmvector_init_vector_def vm_consts)
  then show ?thesis
    by (simp add: map_vector_def vector_ok_def may_write_def)
      (simp add: example_map_vector_def vmvector_init_vector_def areas_wf_def plain_areas_def)
qed

theorem vmvector_is_map_witness:
  "vmvector_add example_map_vector 20 50 9 = None \<and>
   (\<exists>v' w. vmvector_remove example_map_vector 20 50 = Some (True, v') \<and> map_vector v' \<and>
      vv_map v' = fill (vv_map example_map_vector) 20 50 None \<and> vmvector_add v' 20 50 9 = Some ((), w) \<and>
      vv_map w = fill (vv_map example_map_vector) 20 50 (Some 9))"
proof -
  have less: "(20 :: u64) < 50" by simp
  have "20 \<in> dom (vv_map example_map_vector)"
    unfolding dom_vv_map by (simp add: example_map_vector_def addrs_def)
  moreover have "(20 :: u64) \<in> {20..<50}" by (simp only: atLeastLessThan_iff) simp
  ultimately have "dom (vv_map example_map_vector) \<inter> {20..<50} \<noteq> {}" by blast
  from vmvector_is_map [OF example_map_vector_ok less, of 9 0, unfolded if_not_P [OF this]] show ?thesis .
qed

subsection \<open>Neighbours of an address\<close>

definition prev_bounds :: "vm_area list \<Rightarrow> u64 \<Rightarrow> u64 \<times> u64" where
  "prev_bounds bs x = (case filter (\<lambda>b. a_end b \<le> x) bs of [] \<Rightarrow> (0, 0) | fs \<Rightarrow> (a_start (last fs), a_end (last fs)))"

definition next_bounds :: "vm_area list \<Rightarrow> u64 \<Rightarrow> u64 \<times> u64" where
  "next_bounds bs x = (case filter (\<lambda>b. x < a_start b) bs of [] \<Rightarrow> (- 1, - 1) | b # _ \<Rightarrow> (a_start b, a_end b))"

lemma filter_take: "\<forall>x \<in> set (take n xs). P x \<Longrightarrow> \<forall>x \<in> set (drop n xs). \<not> P x \<Longrightarrow> filter P xs = take n xs"
  by (subst append_take_drop_id [of n xs, symmetric], subst filter_append) simp

lemma filter_drop: "\<forall>x \<in> set (take n xs). \<not> P x \<Longrightarrow> \<forall>x \<in> set (drop n xs). P x \<Longrightarrow> filter P xs = drop n xs"
  by (subst append_take_drop_id [of n xs, symmetric], subst filter_append) simp

lemma neighbours_search:
  assumes wf: "areas_wf bs" and s: "search_inv bs x (x + 1) (i + 1) i"
  shows "prev_bounds bs x = (if i = - 1 then (0, 0) else (a_start (bs ! nat i), a_end (bs ! nat i)))"
    "next_bounds bs x = (if i \<ge> int (length bs) - 1 then (- 1, - 1)
       else (a_start (bs ! nat (i + 1)), a_end (bs ! nat (i + 1))))"
proof -
  let ?n = "nat (i + 1)"
  have i: "- 1 \<le> i" "i < int (length bs)" using s by (auto simp: search_inv_def)
  have ends: "\<forall>b \<in> set (take ?n bs). a_end b \<le> x"
    using s i by (auto simp: search_inv_def in_set_conv_nth)
  have starts: "\<forall>b \<in> set (drop ?n bs). x < a_start b"
  proof
    fix b assume "b \<in> set (drop ?n bs)"
    then obtain j where "j < length (drop ?n bs)" "drop ?n bs ! j = b" by (metis in_set_conv_nth)
    then have j: "?n + j < length bs" "b = bs ! (?n + j)" by auto
    moreover have "i < int (?n + j)" using i by simp
    ultimately have "x + 1 \<noteq> 0 \<and> x + 1 \<le> a_start b" using s unfolding search_inv_def by blast
    then show "x < a_start b" using less_inc_iff [of x x] by (auto elim: less_le_trans [rotated])
  qed
  have less: "\<forall>b \<in> set bs. a_start b < a_end b" using wf by (simp add: areas_wf_def)
  have "\<forall>b \<in> set (drop ?n bs). \<not> a_end b \<le> x" using starts less by (meson in_set_dropD less_trans not_le)
  then have "filter (\<lambda>b. a_end b \<le> x) bs = take ?n bs" using ends by (intro filter_take)
  moreover have "take ?n bs \<noteq> [] \<Longrightarrow> last (take ?n bs) = bs ! nat i"
    using i by (subst last_conv_nth) (auto simp: min_def nat_diff_distrib' intro!: arg_cong [where f = "(!) bs"])
  ultimately show "prev_bounds bs x = (if i = - 1 then (0, 0) else (a_start (bs ! nat i), a_end (bs ! nat i)))"
    using i by (cases "take ?n bs") (auto simp: prev_bounds_def)
  have "\<forall>b \<in> set (take ?n bs). \<not> x < a_start b" using ends less by (meson in_set_takeD less_le_trans less_asym)
  then have "filter (\<lambda>b. x < a_start b) bs = drop ?n bs" using starts by (intro filter_drop)
  then show "next_bounds bs x = (if i \<ge> int (length bs) - 1 then (- 1, - 1)
       else (a_start (bs ! ?n), a_end (bs ! ?n)))"
    using i by (cases "drop ?n bs") (auto simp: next_bounds_def hd_drop_conv_nth dest: arg_cong [where f = hd])
qed

text \<open>C18: Looking up the neighbours of an address fails when an area contains it; otherwise the binary
  search ends next to the last area that ends at or in front of the address and the first one that starts
  behind it, as a scan of the whole vector finds them. Without such an area the bounds are 0 for the
  previous and the largest address for the next one. The vector and its lock are as before.\<close>

theorem vmvector_lookup_prev_next_neighbours:
  assumes "vector_ok v" "may_write v"
  shows "vmvector_lookup_prev_next v x = Some
    (if x \<in> cover (vv_buf v) then None else Some (prev_bounds (vv_buf v) x, next_bounds (vv_buf v) x), v)"
  unfolding vmvector_lookup_prev_next_def
proof (rule read_locked_eq)
  fix l
  let ?v = "v\<lparr>vv_lock := l\<rparr>" and ?bs = "vv_buf v"
  have wf: "areas_wf ?bs" "areas_wf (vv_buf ?v)" using assms(1) by (simp_all add: vector_ok_def)
  have ne: "x \<noteq> 0 \<or> x + 1 \<noteq> 0" "x \<noteq> x + 1" by auto
  have le: "x \<le> x + 1 \<or> x + 1 = 0" using less_inc_iff [of x x] by auto
  from binary_search_spec [OF wf(2) ne(1) le, of True False] obtain found i where
    s: "binary_search ?v x (x + 1) True False = Some (found, i)"
    and spec: "if found then 0 \<le> i \<and> i < int (length ?bs) \<and> hits x (x + 1) (?bs ! nat i)
       else search_inv ?bs x (x + 1) (i + 1) i" by (auto split: if_splits)
  have found: "found \<longleftrightarrow> x \<in> cover ?bs"
  proof (cases found)
    case True
    with spec have "?bs ! nat i \<in> set ?bs" by (simp add: nat_less_iff)
    with True spec show ?thesis by (auto simp: cover_def hits_point)
  next
    case False
    with spec search_inv_misses [OF _ ne(2)] show ?thesis by (auto simp: cover_def hits_point [symmetric])
  qed
  show "do { (found, index) \<leftarrow> binary_search ?v x (x + 1) True False;
     Some (if found then None
           else Some
             (if index = - 1 then (0, 0) else (a_start (vv_buf ?v ! nat index), a_end (vv_buf ?v ! nat index)),
              if index \<ge> int (length (vv_buf ?v)) - 1 then (- 1, - 1)
              else (a_start (vv_buf ?v ! nat (index + 1)), a_end (vv_buf ?v ! nat (index + 1)))), ?v) } =
    Some (if x \<in> cover ?bs then None else Some (prev_bounds ?bs x, next_bounds ?bs x), ?v)"
  proof (cases found)
    case False
    with spec have "search_inv ?bs x (x + 1) (i + 1) i" by simp
    note neighbours_search [OF wf(1) this]
    with s False found show ?thesis by simp
  qed (use s found in simp)
qed (use assms(2) in \<open>auto simp: may_write_def\<close>)

theorem vmvector_lookup_prev_next_neighbours_witness:
  "vmvector_lookup_prev_next example_map_vector 50 = Some (Some ((10, 40), (- 1, - 1)), example_map_vector)"
proof -
  note ok = example_map_vector_ok [unfolded map_vector_def]
  show ?thesis
    using vmvector_lookup_prev_next_neighbours [of example_map_vector 50] ok
    by (simp add: cover_def addrs_def prev_bounds_def next_bounds_def example_map_vector_def)
qed

subsection \<open>Payloads and flags of merged areas\<close>

text \<open>An area of a type next to an area of another type is grown over it when a range inside the second one
  is added with the type of the first: the range is meant to stay part of the area that contains it, but
  the index of the adjacent area is not reset. A region of self-modifying code loses the flag that has
  its code sandboxed.\<close>

theorem add_inside_takes_over_neighbour:
  assumes "a < b" "b < m" "m \<le> c" and v: "vv_flags v = 0" "should_merge_func v = None"
    and buf: "vv_buf v = [\<lparr>a_start = a, a_end = b, vm_flags = 0, frag_flags = 0, client = p\<rparr>,
      \<lparr>a_start = b, a_end = c, vm_flags = 0, frag_flags = FRAG_SELFMOD_SANDBOXED, client = q\<rparr>]"
  shows "\<exists>v'. add_vm_area v b m 0 0 d = Some v' \<and> area_at (vv_buf v) b \<noteq> None \<and>
    map (\<lambda>x. (a_start x, a_end x, vm_flags x, frag_flags x)) (vv_buf v') = [(a, c, 0, 0)]"
proof -
  have le: "a \<le> b" "a \<le> m" "a < m" "b < c" "b \<le> m" "b \<le> c" "a < c" "\<not> b < a" "\<not> c < m" using assms(1-3) by auto
  show ?thesis
    using assms le
    by (simp add: add_vm_area.simps joins_def overlaps_def flags_compatible_def must_split_def
      drop_flags_def cons_area_def finish_add_def merge_area_def vm_consts Let_def area_at_def addrs_def not_le
      split: option.splits prod.splits)
qed

definition selfmod_vector :: vm_area_vector where
  "selfmod_vector = (vmvector_init_vector 0)\<lparr>vv_size := 100,
     vv_buf := [\<lparr>a_start = 0, a_end = 10, vm_flags = 0, frag_flags = 0, client = 0\<rparr>,
       \<lparr>a_start = 10, a_end = 20, vm_flags = 0, frag_flags = FRAG_SELFMOD_SANDBOXED, client = 0\<rparr>]\<rparr>"

theorem add_inside_takes_over_neighbour_witness:
  "\<exists>v'. add_vm_area selfmod_vector 10 15 0 0 0 = Some v' \<and> area_at (vv_buf selfmod_vector) 10 \<noteq> None \<and>
    map (\<lambda>x. (a_start x, a_end x, vm_flags x, frag_flags x)) (vv_buf v') = [(0, 20, 0, 0)]"
  by (rule add_inside_takes_over_neighbour [where a = 0 and c = 20 and p = 0 and q = 0])
    (simp_all add: selfmod_vector_def vmvector_init_vector_def)

text \<open>A vector that frees its payloads and has no function to merge them frees the payload of an area to which
  an adjacent range is added, and keeps that payload as the one of the grown area: lookups go on to
  return it, the payload of the new range is lost, and emptying the vector frees the old one again.\<close>

theorem add_adjacent_frees_kept_payload:
  assumes "a < b" "b < c" and v: "vv_flags v = 0" "should_merge_func v = None" "merge_payload_func v = None"
      "free_payload_func v" "vv_size v = Suc n"
    and buf: "vv_buf v = [\<lparr>a_start = a, a_end = b, vm_flags = 0, frag_flags = 0, client = p\<rparr>]"
  shows "\<exists>v' w. vmvector_add v b c d = Some ((), v') \<and> vv_map v' a = Some p \<and> vv_map v' b = Some p \<and>
    vv_freed v' = vv_freed v @ [p] \<and> vmvector_reset_vector v' = Some w \<and> vv_freed w = vv_freed v @ [p, p]"
proof -
  have le: "a \<le> b" "a \<le> c" "a < c" "b \<le> c" "\<not> b < a" using assms(1,2) by auto
  show ?thesis
    using assms le
    by (simp add: vmvector_add_def with_lock_def SHOULD_LOCK_VECTOR_def add_vm_area.simps joins_def overlaps_def
      flags_compatible_def must_split_def drop_flags_def cons_area_def finish_add_def merge_area_def vm_consts Let_def
      vv_map_def area_at_def addrs_def not_le vmvector_reset_vector_def call_free_payload_def split: option.splits prod.splits)
qed

definition payload_vector :: vm_area_vector where
  "payload_vector = (vmvector_init_vector 0)\<lparr>vv_size := 100, free_payload_func := True,
     vv_buf := [\<lparr>a_start = 10, a_end = 20, vm_flags = 0, frag_flags = 0, client = 7\<rparr>]\<rparr>"

theorem add_adjacent_frees_kept_payload_witness:
  "\<exists>v' w. vmvector_add payload_vector 20 30 8 = Some ((), v') \<and> vv_map v' 10 = Some 7 \<and> vv_map v' 20 = Some 7 \<and>
    vv_freed v' = [] @ [7] \<and> vmvector_reset_vector v' = Some w \<and> vv_freed w = [] @ [7, 7]"
  using add_adjacent_frees_kept_payload [of 10 20 30 payload_vector 99 7 8]
  by (simp add: payload_vector_def vmvector_init_vector_def)

end
