(* ===== verification/GenHash.thy ===== *)
theory GenHash
  imports Prelude
begin

text \<open>
  DynamoRIO's open-addressing hashtable: the template \<^verbatim>\<open>src/dynamorio/core/hashtablex.h\<close> with its two instances for
  64-bit and for string keys in \<^verbatim>\<open>hashtable.c\<close>, and the hash functions of \<^verbatim>\<open>utils.c\<close>. Collisions are resolved by linear
  probing; removal closes the hole by moving entries back, so that there are no deletion markers.

  A pointer to an entry is the entry itself; \<open>Empty\<close> is \<^verbatim>\<open>NULL\<close> and \<open>Sentinel\<close> the pointer 1 in the last slot.
  The macros of an instance are the record \<open>tag_ops\<close>. The instances have no invalid entries
  and no lookup table, and leave the factors for grooming and the bound on the size at 0, so that these parts of the
  template are left out, as are statistics and locks. \<open>None\<close> is a failed assertion or an endless loop;
  the studies of the debug build are part of the model. Payloads that are freed are collected.
\<close>

subsection \<open>Tables\<close>

datatype 'k slot = Empty | Sentinel | Entry 'k u64

record ('h, 'k) tag_ops =
  hash_val :: "'h \<Rightarrow> nat \<Rightarrow> 'k \<Rightarrow> u64"
  tags_are_equal :: "u32 \<Rightarrow> 'k \<Rightarrow> 'k \<Rightarrow> bool"

record ('h, 'k) htab =
  hash_mask :: u64
  slots :: "'k slot list"
  hash_bits :: nat
  hash_func :: 'h
  hash_mask_offset :: nat
  h_capacity :: u32
  h_entries :: u32
  load_factor_percent :: u32
  h_resize_threshold :: u32
  table_flags :: u32
  h_free_payload :: bool
  h_freed :: "u64 list"

definition HASHTABLE_SHARED :: u32 where "HASHTABLE_SHARED = 0x1"
definition HASHTABLE_READ_ONLY :: u32 where "HASHTABLE_READ_ONLY = 0x40"
definition STRHASH_CASE_INSENSITIVE :: u32 where "STRHASH_CASE_INSENSITIVE = 0x10000"

definition TESTFLAG :: "u32 \<Rightarrow> u32 \<Rightarrow> bool" where
  "TESTFLAG m flags \<longleftrightarrow> m AND flags \<noteq> 0"

fun ENTRY_TAG :: "'k slot \<Rightarrow> 'k option" where
  "ENTRY_TAG (Entry k p) = Some k"
| "ENTRY_TAG _ = None"

fun ENTRY_IS_REAL :: "'k slot \<Rightarrow> bool" where
  "ENTRY_IS_REAL (Entry k p) = True"
| "ENTRY_IS_REAL _ = False"

definition HASHTABLE_POW :: "nat \<Rightarrow> u32" where
  "HASHTABLE_POW bits = push_bit bits 1"

definition BITS_MASK :: "nat \<Rightarrow> u64" where
  "BITS_MASK bits = drop_bit (64 - bits) (- 1)"

definition HASH_FUNC :: "('h, 'k) tag_ops \<Rightarrow> 'k \<Rightarrow> ('h, 'k) htab \<Rightarrow> nat" where
  "HASH_FUNC ops k t = unat (ucast
     (drop_bit (hash_mask_offset t) (hash_val ops (hash_func t) (hash_bits t) k AND hash_mask t)) :: u32)"

definition HASH_INDEX_WRAPAROUND :: "nat \<Rightarrow> ('h, 'k) htab \<Rightarrow> nat" where
  "HASH_INDEX_WRAPAROUND i t = unat (word_of_nat i AND ucast (drop_bit (hash_mask_offset t) (hash_mask t)) :: u32)"

subsection \<open>Initialisation\<close>

definition load_threshold :: "u32 \<Rightarrow> u32 \<Rightarrow> u32" where
  "load_threshold capacity load = capacity * load div 100"

definition hashtable_init_internal :: "nat \<Rightarrow> u32 \<Rightarrow> 'h \<Rightarrow> nat \<Rightarrow> ('h, 'k) htab \<Rightarrow> ('h, 'k) htab option" where
  "hashtable_init_internal bits load func offset t = do {
     ASSERT (0 < bits \<and> bits < 32);
     ASSERT (0 < load \<and> load < 100);
     let capacity = HASHTABLE_POW bits + 1;
     Some (t\<lparr>hash_bits := bits, hash_func := func, hash_mask_offset := offset,
       hash_mask := push_bit offset (BITS_MASK bits), h_capacity := capacity, h_entries := 0,
       load_factor_percent := load, h_resize_threshold := load_threshold capacity load,
       slots := (replicate (unat capacity) Empty)[unat (capacity - 1) := Sentinel]\<rparr>) }"

definition hashtable_resize :: "('h, 'k) htab \<Rightarrow> ('h, 'k) htab option" where
  "hashtable_resize t = hashtable_init_internal (hash_bits t) (load_factor_percent t) (hash_func t) (hash_mask_offset t) t"

subsection \<open>Lookup\<close>

partial_function (option) lookup_from :: "('h, 'k) tag_ops \<Rightarrow> ('h, 'k) htab \<Rightarrow> 'k \<Rightarrow> nat \<Rightarrow> 'k slot option" where
  "lookup_from ops t k i = do {
     ASSERT (i < length (slots t));
     if slots t ! i = Empty then Some Empty
     else do {
       ftag \<leftarrow> ENTRY_TAG (slots t ! i);
       if tags_are_equal ops (table_flags t) ftag k then Some (slots t ! i)
       else lookup_from ops t k (HASH_INDEX_WRAPAROUND (i + 1) t) } }"

definition hashtable_lookup_entry :: "('h, 'k) tag_ops \<Rightarrow> 'k \<Rightarrow> ('h, 'k) htab \<Rightarrow> 'k slot option" where
  "hashtable_lookup_entry ops k t = lookup_from ops t k (HASH_FUNC ops k t)"

partial_function (option) removal_from ::
    "('h, 'k) tag_ops \<Rightarrow> ('h, 'k) htab \<Rightarrow> 'k \<Rightarrow> nat \<Rightarrow> nat option option" where
  "removal_from ops t k i = do {
     ASSERT (i < length (slots t));
     if slots t ! i = Empty then Some None
     else do {
       ftag \<leftarrow> ENTRY_TAG (slots t ! i);
       if tags_are_equal ops (table_flags t) k ftag then Some (Some i)
       else removal_from ops t k (HASH_INDEX_WRAPAROUND (i + 1) t) } }"

definition lookup_for_removal :: "('h, 'k) tag_ops \<Rightarrow> 'k slot \<Rightarrow> ('h, 'k) htab \<Rightarrow> nat option option" where
  "lookup_for_removal ops fr t = do {
     k \<leftarrow> ENTRY_TAG fr;
     removal_from ops t k (HASH_FUNC ops k t) }"

subsection \<open>The study\<close>

text \<open>The assertions of the debug build: every entry is found at its own index, and the number of entries is
the one that is counted. The result is the number of entries from an index on.\<close>

fun study_from :: "('h, 'k) tag_ops \<Rightarrow> ('h, 'k) htab \<Rightarrow> nat \<Rightarrow> 'k slot list \<Rightarrow> u32 option" where
  "study_from ops t i [] = Some 0"
| "study_from ops t i (Empty # es) = study_from ops t (Suc i) es"
| "study_from ops t i (Sentinel # es) = do {
     ASSERT (Suc i = unat (h_capacity t));
     study_from ops t (Suc i) es }"
| "study_from ops t i (Entry k p # es) = do {
     found \<leftarrow> lookup_for_removal ops (Entry k p) t;
     ASSERT (found = Some i);
     num \<leftarrow> study_from ops t (Suc i) es;
     Some (1 + num) }"

definition hashtable_study :: "('h, 'k) tag_ops \<Rightarrow> ('h, 'k) htab \<Rightarrow> u32 \<Rightarrow> unit option" where
  "hashtable_study ops t inc = do {
     num \<leftarrow> study_from ops t 0 (slots t);
     ASSERT (h_entries t = num + inc) }"

subsection \<open>Adding an entry\<close>

partial_function (option) find_slot :: "('h, 'k) htab \<Rightarrow> nat \<Rightarrow> nat option" where
  "find_slot t i = do {
     ASSERT (i < length (slots t));
     if slots t ! i = Empty then Some i else find_slot t (HASH_INDEX_WRAPAROUND (i + 1) t) }"

text \<open>The loop that doubles the size until the entries are below the threshold.\<close>

function grow_bits :: "u32 \<Rightarrow> u32 \<Rightarrow> nat \<Rightarrow> nat option" where
  "grow_bits entries load bits =
     (if bits < 32 then
        if entries > load_threshold (HASHTABLE_POW bits + 1) load then grow_bits entries load (bits + 1)
        else Some bits
      else None)"
  by pat_completeness auto
termination by (relation "measure (\<lambda>(_, _, bits). 32 - bits)") auto

declare grow_bits.simps [simp del]

text \<open>\<^verbatim>\<open>_add\<close> and \<^verbatim>\<open>_check_size\<close> call each other; a call is a constructor, the third one the loop over the slots of the
old table. The result of a size check is whether the table kept its size, that of an addition whether it was resized.\<close>

datatype 'k hash_call = Add "'k slot" | Check_size u32 u32 | Rehash "'k slot list"

partial_function (option) table_call ::
    "('h, 'k) tag_ops \<Rightarrow> 'k hash_call \<Rightarrow> ('h, 'k) htab \<Rightarrow> (bool \<times> ('h, 'k) htab) option" where
  "table_call ops c t = (case c of
     Add e \<Rightarrow> do {
       ASSERT (\<not> TESTFLAG HASHTABLE_READ_ONLY (table_flags t));
       tag \<leftarrow> ENTRY_TAG e;
       found \<leftarrow> hashtable_lookup_entry ops tag t;
       ASSERT (\<not> ENTRY_IS_REAL found);
       (kept, t) \<leftarrow> table_call ops (Check_size 1 0) t;
       hindex \<leftarrow> find_slot t (HASH_FUNC ops tag t);
       Some (\<not> kept, t\<lparr>slots := (slots t)[hindex := e]\<rparr>) }
   | Check_size add_now add_later \<Rightarrow> do {
       ASSERT (\<not> TESTFLAG HASHTABLE_READ_ONLY (table_flags t));
       let entries = h_entries t + (add_now + add_later);
       let t = t\<lparr>h_entries := entries\<rparr>;
       if entries > h_resize_threshold t then do {
         let old_table = slots t;
         let old_entries = entries - add_later;
         hashtable_study ops t (add_now + add_later);
         ASSERT (h_resize_threshold t = load_threshold (HASHTABLE_POW (hash_bits t) + 1) (load_factor_percent t));
         bits \<leftarrow> grow_bits entries (load_factor_percent t) (hash_bits t);
         ASSERT (hash_bits t < bits);
         t \<leftarrow> hashtable_resize (t\<lparr>hash_bits := bits\<rparr>);
         (_, t) \<leftarrow> table_call ops (Rehash old_table) (t\<lparr>h_entries := 0\<rparr>);
         let t = t\<lparr>h_entries := h_entries t + add_now\<rparr>;
         ASSERT (h_entries t = old_entries);
         hashtable_study ops t add_now;
         Some (False, t) }
       else Some (True, t\<lparr>h_entries := entries - add_later\<rparr>) }
   | Rehash es \<Rightarrow> (case es of
       [] \<Rightarrow> Some (True, t)
     | e # es \<Rightarrow> do {
         (_, t) \<leftarrow> (if ENTRY_IS_REAL e then table_call ops (Add e) t else Some (True, t));
         table_call ops (Rehash es) t }))"

definition hashtable_add_entry :: "('h, 'k) tag_ops \<Rightarrow> 'k slot \<Rightarrow> ('h, 'k) htab \<Rightarrow> (bool \<times> ('h, 'k) htab) option" where
  "hashtable_add_entry ops e t = table_call ops (Add e) t"

definition hashtable_check_size :: "('h, 'k) tag_ops \<Rightarrow> ('h, 'k) htab \<Rightarrow> u32 \<Rightarrow> u32 \<Rightarrow> (bool \<times> ('h, 'k) htab) option" where
  "hashtable_check_size ops t add_now add_later = table_call ops (Check_size add_now add_later) t"

subsection \<open>Removing an entry\<close>

text \<open>An entry would be lost behind the hole if its preferred index is not behind it.\<close>

definition lost_behind :: "nat \<Rightarrow> nat \<Rightarrow> nat \<Rightarrow> bool" where
  "lost_behind preferred hole hindex \<longleftrightarrow>
     (preferred \<le> hole \<and> hole < hindex) \<or> (hindex < preferred \<and> preferred \<le> hole) \<or> (hole < hindex \<and> hindex < preferred)"

partial_function (option) close_hole ::
    "('h, 'k) tag_ops \<Rightarrow> ('h, 'k) htab \<Rightarrow> nat \<Rightarrow> nat \<Rightarrow> bool \<Rightarrow> (bool \<times> ('h, 'k) htab) option" where
  "close_hole ops t hole i wrapped = do {
     let hindex = HASH_INDEX_WRAPAROUND (i + 1) t;
     ASSERT (hindex < length (slots t));
     if slots t ! hindex = Empty then Some (wrapped, t)
     else do {
       ftag \<leftarrow> ENTRY_TAG (slots t ! hindex);
       let preferred = HASH_FUNC ops ftag t;
       if lost_behind preferred hole hindex
       then close_hole ops (t\<lparr>slots := (slots t)[hole := slots t ! hindex, hindex := Empty]\<rparr>) hindex hindex
              (wrapped \<or> hindex < hole)
       else close_hole ops t hole hindex wrapped } }"

definition remove_helper_open_address ::
    "('h, 'k) tag_ops \<Rightarrow> ('h, 'k) htab \<Rightarrow> nat \<Rightarrow> (bool \<times> ('h, 'k) htab) option" where
  "remove_helper_open_address ops t hindex =
     close_hole ops (t\<lparr>slots := (slots t)[hindex := Empty]\<rparr>) hindex hindex False"

definition hashtable_remove_helper :: "('h, 'k) tag_ops \<Rightarrow> ('h, 'k) htab \<Rightarrow> nat \<Rightarrow> (bool \<times> ('h, 'k) htab) option" where
  "hashtable_remove_helper ops t hindex = do {
     (wrapped, t) \<leftarrow> remove_helper_open_address ops t hindex;
     Some (wrapped, t\<lparr>h_entries := h_entries t - 1\<rparr>) }"

definition hashtable_remove_entry :: "('h, 'k) tag_ops \<Rightarrow> 'k slot \<Rightarrow> ('h, 'k) htab \<Rightarrow> (bool \<times> ('h, 'k) htab) option" where
  "hashtable_remove_entry ops fr t = do {
     ASSERT (\<not> TESTFLAG HASHTABLE_READ_ONLY (table_flags t));
     pg \<leftarrow> lookup_for_removal ops fr t;
     case pg of
       Some hindex \<Rightarrow> do {
         (_, t) \<leftarrow> hashtable_remove_helper ops t hindex;
         Some (True, t) }
     | None \<Rightarrow> Some (False, t) }"

definition hashtable_replace ::
    "('h, 'k) tag_ops \<Rightarrow> 'k slot \<Rightarrow> 'k slot \<Rightarrow> ('h, 'k) htab \<Rightarrow> (bool \<times> ('h, 'k) htab) option" where
  "hashtable_replace ops old_e new_e t = do {
     pg \<leftarrow> lookup_for_removal ops old_e t;
     ASSERT (\<not> TESTFLAG HASHTABLE_READ_ONLY (table_flags t));
     case pg of
       Some hindex \<Rightarrow> do {
         ASSERT (ENTRY_TAG old_e = ENTRY_TAG new_e);
         Some (True, t\<lparr>slots := (slots t)[hindex := new_e]\<rparr>) }
     | None \<Rightarrow> Some (False, t) }"

subsection \<open>Freeing\<close>

fun hashtable_free_entry :: "'k slot \<Rightarrow> ('h, 'k) htab \<Rightarrow> ('h, 'k) htab" where
  "hashtable_free_entry (Entry k p) t = (if h_free_payload t then t\<lparr>h_freed := h_freed t @ [p]\<rparr> else t)"
| "hashtable_free_entry _ t = t"

text \<open>Clearing also overwrites the sentinel.\<close>

definition hashtable_clear_entries :: "('h, 'k) htab \<Rightarrow> ('h, 'k) htab option" where
  "hashtable_clear_entries t = do {
     ASSERT (\<not> TESTFLAG HASHTABLE_READ_ONLY (table_flags t));
     Some ((fold hashtable_free_entry (slots t) t)
       \<lparr>slots := replicate (length (slots t)) Empty, h_entries := 0\<rparr>) }"

text \<open>The loop over the indices from the last one down; it starts over when a chain was pulled across the end.\<close>

partial_function (option) range_remove_from ::
    "('h, u64) tag_ops \<Rightarrow> u64 \<Rightarrow> u64 \<Rightarrow> (u64 slot \<Rightarrow> bool) option \<Rightarrow> ('h, u64) htab \<Rightarrow> int \<Rightarrow> u32 \<Rightarrow>
     (u32 \<times> ('h, u64) htab) option" where
  "range_remove_from ops tag_start tag_end filt t i removed =
     (if 0 \<le> i then do {
        let e = slots t ! nat i;
        hit \<leftarrow> (if e = Empty then Some False
               else do {
                 tag \<leftarrow> ENTRY_TAG e;
                 Some (tag_start \<le> tag \<and> tag < tag_end \<and> (case filt of None \<Rightarrow> True | Some f \<Rightarrow> f e)) });
        if hit then do {
          (wrapped, t) \<leftarrow> hashtable_remove_helper ops t (nat i);
          range_remove_from ops tag_start tag_end filt (hashtable_free_entry e t)
            (if wrapped then int (unat (h_capacity t)) - 2 else i) (removed + 1) }
        else range_remove_from ops tag_start tag_end filt t (i - 1) removed }
      else Some (removed, t))"

definition hashtable_range_remove :: "('h, u64) tag_ops \<Rightarrow> u64 \<Rightarrow> u64 \<Rightarrow> (u64 slot \<Rightarrow> bool) option \<Rightarrow> ('h, u64) htab \<Rightarrow>
    (u32 \<times> ('h, u64) htab) option" where
  "hashtable_range_remove ops tag_start tag_end filt t = do {
     ASSERT (\<not> TESTFLAG HASHTABLE_READ_ONLY (table_flags t));
     hashtable_study ops t 0;
     (removed, t') \<leftarrow> range_remove_from ops tag_start tag_end filt t (int (unat (h_capacity t)) - 2) 0;
     ASSERT (h_entries t' + removed = h_entries t);
     Some (removed, t') }"

subsection \<open>Tables with 64-bit keys\<close>

text \<open>The hash functions of tags that are implemented on a 64-bit machine.\<close>

datatype int_hash = HASH_FUNCTION_NONE | HASH_FUNCTION_MULTIPLY_PHI

definition HASH_PHI :: u64 where "HASH_PHI = 11400714819323198485"

fun hash_value :: "int_hash \<Rightarrow> nat \<Rightarrow> u64 \<Rightarrow> u64" where
  "hash_value HASH_FUNCTION_NONE bits val = val"
| "hash_value HASH_FUNCTION_MULTIPLY_PHI bits val = shr (val * HASH_PHI) (64 - bits)"

type_synonym generic_table = "(int_hash, u64) htab"

definition generic_ops :: "(int_hash, u64) tag_ops" where
  "generic_ops = \<lparr>hash_val = hash_value, tags_are_equal = (\<lambda>_. (=))\<rparr>"

text \<open>A table of the global context must be shared.\<close>

definition htab_init :: "bool \<Rightarrow> nat \<Rightarrow> u32 \<Rightarrow> 'h \<Rightarrow> nat \<Rightarrow> u32 \<Rightarrow> bool \<Rightarrow> ('h, 'k) htab option" where
  "htab_init global bits load func offset flags free_func = do {
     ASSERT (global \<longrightarrow> TESTFLAG HASHTABLE_SHARED flags);
     hashtable_init_internal bits load func offset
       \<lparr>hash_mask = 0, slots = [], hash_bits = 0, hash_func = func, hash_mask_offset = 0, h_capacity = 0, h_entries = 0,
         load_factor_percent = 0, h_resize_threshold = 0, table_flags = flags, h_free_payload = free_func, h_freed = []\<rparr> }"

text \<open>The option \<^verbatim>\<open>alt_hash_func\<close> selects the hash function.\<close>

definition generic_hash_create :: "int_hash \<Rightarrow> bool \<Rightarrow> nat \<Rightarrow> u32 \<Rightarrow> u32 \<Rightarrow> bool \<Rightarrow> generic_table option" where
  "generic_hash_create alt_hash_func global bits load flags free_func = htab_init global bits load alt_hash_func 0 flags free_func"

definition generic_hash_clear :: "generic_table \<Rightarrow> generic_table option" where
  "generic_hash_clear t = hashtable_clear_entries t"

text \<open>Destroying a table frees its entries; the payloads freed are the result.\<close>

definition generic_hash_destroy :: "generic_table \<Rightarrow> u64 list" where
  "generic_hash_destroy t = h_freed (fold hashtable_free_entry (slots t) t)"

fun slot_payload :: "'k slot \<Rightarrow> u64" where
  "slot_payload (Entry k p) = p"
| "slot_payload _ = 0"

definition generic_hash_lookup :: "generic_table \<Rightarrow> u64 \<Rightarrow> u64 option" where
  "generic_hash_lookup t key = do {
     e \<leftarrow> hashtable_lookup_entry generic_ops key t;
     Some (slot_payload e) }"

definition generic_hash_add :: "generic_table \<Rightarrow> u64 \<Rightarrow> u64 \<Rightarrow> generic_table option" where
  "generic_hash_add t key payload = do {
     (_, t) \<leftarrow> hashtable_add_entry generic_ops (Entry key payload) t;
     Some t }"

definition remove_key :: "('h, 'k) tag_ops \<Rightarrow> ('h, 'k) htab \<Rightarrow> 'k \<Rightarrow> (bool \<times> ('h, 'k) htab) option" where
  "remove_key ops t key = do {
     e \<leftarrow> hashtable_lookup_entry ops key t;
     if e \<noteq> Empty then do {
       (removed, t) \<leftarrow> hashtable_remove_entry ops e t;
       Some (if removed then (True, hashtable_free_entry e t) else (False, t)) }
     else Some (False, t) }"

definition generic_hash_remove :: "generic_table \<Rightarrow> u64 \<Rightarrow> (bool \<times> generic_table) option" where
  "generic_hash_remove t key = remove_key generic_ops t key"

definition generic_hash_range_remove :: "generic_table \<Rightarrow> u64 \<Rightarrow> u64 \<Rightarrow> (u32 \<times> generic_table) option" where
  "generic_hash_range_remove t start fin = hashtable_range_remove generic_ops start fin None t"

text \<open>The next entry from an index on with the index behind it; \<open>None\<close> inside is the result -1.\<close>

fun next_real :: "'k slot list \<Rightarrow> nat \<Rightarrow> (nat \<times> 'k \<times> u64) option" where
  "next_real [] i = None"
| "next_real (Entry k p # es) i = Some (Suc i, k, p)"
| "next_real (_ # es) i = next_real es (Suc i)"

definition generic_hash_iterate_next :: "generic_table \<Rightarrow> nat \<Rightarrow> (nat \<times> u64 \<times> u64) option" where
  "generic_hash_iterate_next t iter = next_real (drop iter (slots t)) iter"

definition generic_hash_iterate_remove :: "generic_table \<Rightarrow> nat \<Rightarrow> u64 \<Rightarrow> (nat \<times> generic_table) option" where
  "generic_hash_iterate_remove t iter key = do {
     e \<leftarrow> hashtable_lookup_entry generic_ops key t;
     rm \<leftarrow> lookup_for_removal generic_ops e t;
     case rm of
       Some hindex \<Rightarrow> do {
         (wrapped, t) \<leftarrow> hashtable_remove_helper generic_ops t hindex;
         Some (if wrapped then iter else iter - 1, hashtable_free_entry e t) }
     | None \<Rightarrow> Some (iter, t) }"

subsection \<open>Tables with string keys\<close>

text \<open>A key is the bytes of a string up to its terminator. A character is a signed byte.\<close>

datatype str_hash = HASH_FUNCTION_STRING | HASH_FUNCTION_STRING_NOCASE

definition ascii_lower :: "u8 \<Rightarrow> u8" where
  "ascii_lower c = (if 65 \<le> c \<and> c \<le> 90 then c + 32 else c)"

fun hash_chars :: "str_hash \<Rightarrow> nat \<Rightarrow> nat \<Rightarrow> u8 list \<Rightarrow> u64 \<Rightarrow> u64" where
  "hash_chars func max_shift i [] hash = hash"
| "hash_chars func max_shift i (c # cs) hash =
     (let c = (if func = HASH_FUNCTION_STRING_NOCASE then ascii_lower c else c);
          shift = (i mod 4) * 8
      in hash_chars func max_shift (Suc i) cs (hash XOR scast (shl (scast c :: u32) (min shift max_shift))))"

definition string_hash_value :: "str_hash \<Rightarrow> nat \<Rightarrow> u8 list \<Rightarrow> u64" where
  "string_hash_value func bits s = hash_chars func ((bits + 7) div 8 * 8) 0 s 0"

definition strhash_key_cmp :: "u32 \<Rightarrow> u8 list \<Rightarrow> u8 list \<Rightarrow> bool" where
  "strhash_key_cmp flags s1 s2 \<longleftrightarrow>
     (if TESTFLAG STRHASH_CASE_INSENSITIVE flags then map ascii_lower s1 = map ascii_lower s2 else s1 = s2)"

type_synonym strhash_table = "(str_hash, u8 list) htab"

definition strhash_ops :: "(str_hash, u8 list) tag_ops" where
  "strhash_ops = \<lparr>hash_val = string_hash_value, tags_are_equal = strhash_key_cmp\<rparr>"

definition strhash_func :: "u32 \<Rightarrow> str_hash" where
  "strhash_func flags =
     (if TESTFLAG STRHASH_CASE_INSENSITIVE flags then HASH_FUNCTION_STRING_NOCASE else HASH_FUNCTION_STRING)"

definition strhash_hash_create :: "nat \<Rightarrow> u32 \<Rightarrow> u32 \<Rightarrow> bool \<Rightarrow> strhash_table option" where
  "strhash_hash_create bits load flags free_func = htab_init True bits load (strhash_func flags) 0 flags free_func"

definition strhash_hash_clear :: "strhash_table \<Rightarrow> strhash_table option" where
  "strhash_hash_clear t = hashtable_clear_entries t"

definition strhash_hash_destroy :: "strhash_table \<Rightarrow> u64 list" where
  "strhash_hash_destroy t = h_freed (fold hashtable_free_entry (slots t) t)"

definition strhash_hash_lookup :: "strhash_table \<Rightarrow> u8 list \<Rightarrow> u64 option" where
  "strhash_hash_lookup t key = do {
     e \<leftarrow> hashtable_lookup_entry strhash_ops key t;
     Some (slot_payload e) }"

definition strhash_hash_add :: "strhash_table \<Rightarrow> u8 list \<Rightarrow> u64 \<Rightarrow> strhash_table option" where
  "strhash_hash_add t key payload = do {
     (_, t) \<leftarrow> hashtable_add_entry strhash_ops (Entry key payload) t;
     Some t }"

definition strhash_hash_remove :: "strhash_table \<Rightarrow> u8 list \<Rightarrow> (bool \<times> strhash_table) option" where
  "strhash_hash_remove t key = remove_key strhash_ops t key"

declare lookup_from.simps [code] removal_from.simps [code] find_slot.simps [code] table_call.simps [code]
  close_hole.simps [code] range_remove_from.simps [code]

end
