(* ===== verification/GenHashProbe.thy ===== *)
theory GenHashProbe
  imports GenHash "HOL-Library.Multiset"
begin

text \<open>
  Linear probing in a ring of indices. The invariant of a table is that no slot on the way from the preferred index
  of an entry to its own is empty; lookup, insertion into the first empty slot and the removal that
  closes the hole are shown to find what is there and to keep the invariant, whatever the hash function is.
\<close>

subsection \<open>The ring of indices\<close>

text \<open>The distance from one index to another, going up and around, and the index at a distance.\<close>

definition cdist :: "nat \<Rightarrow> nat \<Rightarrow> nat \<Rightarrow> nat" where
  "cdist N a i = (if a \<le> i then i - a else i + N - a)"

definition cpos :: "nat \<Rightarrow> nat \<Rightarrow> nat \<Rightarrow> nat" where
  "cpos N a j = (if a + j < N then a + j else a + j - N)"

lemmas ring_defs = cdist_def cpos_def

lemma cpos_less: "a < N \<Longrightarrow> j < N \<Longrightarrow> cpos N a j < N"
  by (auto simp: cpos_def)

lemma cdist_less: "a < N \<Longrightarrow> i < N \<Longrightarrow> cdist N a i < N"
  by (auto simp: cdist_def)

lemma cpos_cdist [simp]: "a < N \<Longrightarrow> i < N \<Longrightarrow> cpos N a (cdist N a i) = i"
  by (auto simp: ring_defs)

lemma cdist_cpos [simp]: "a < N \<Longrightarrow> j < N \<Longrightarrow> cdist N a (cpos N a j) = j"
  by (auto simp: ring_defs)

lemma cpos_0 [simp]: "a < N \<Longrightarrow> cpos N a 0 = a"
  by (simp add: cpos_def)

lemma cdist_self [simp]: "cdist N a a = 0"
  by (simp add: cdist_def)

lemma cdist_0_iff: "a < N \<Longrightarrow> i < N \<Longrightarrow> cdist N a i = 0 \<longleftrightarrow> a = i"
  by (auto simp: cdist_def)

text \<open>An index on the way splits the distance.\<close>

lemma cdist_split: "a < N \<Longrightarrow> i < N \<Longrightarrow> j \<le> cdist N a i \<Longrightarrow> cdist N (cpos N a j) i = cdist N a i - j"
  by (auto simp: ring_defs split: if_splits)

lemma cpos_cpos: "a < N \<Longrightarrow> j + m < N \<Longrightarrow> cpos N (cpos N a j) m = cpos N a (j + m)"
  by (auto simp: ring_defs)

lemma lost_behind_cdist:
  assumes "preferred < N" "hole < N" "i < N" "hole \<noteq> i"
  shows "lost_behind preferred hole i \<longleftrightarrow> cdist N hole i \<le> cdist N preferred i"
  using assms by (auto simp: lost_behind_def cdist_def)

subsection \<open>The shape of a table\<close>

definition table_shape :: "('h, 'k) htab \<Rightarrow> bool" where
  "table_shape t \<longleftrightarrow> 0 < hash_bits t \<and> hash_bits t \<le> 25 \<and> hash_mask_offset t + 25 \<le> 64 \<and>
     hash_mask t = push_bit (hash_mask_offset t) (BITS_MASK (hash_bits t)) \<and>
     length (slots t) = Suc (2 ^ hash_bits t) \<and> (\<forall>i < 2 ^ hash_bits t. slots t ! i \<noteq> Sentinel) \<and>
     \<not> ENTRY_IS_REAL (slots t ! (2 ^ hash_bits t))"

abbreviation ring :: "('h, 'k) htab \<Rightarrow> nat" where
  "ring t \<equiv> 2 ^ hash_bits t"

lemma BITS_MASK_eq: "n \<le> 64 \<Longrightarrow> BITS_MASK n = mask n"
  by (rule bit_word_eqI) (auto simp: BITS_MASK_def bit_simps)

lemma HASH_FUNC_less:
  assumes "table_shape t" shows "HASH_FUNC ops k t < ring t"
proof -
  let ?h = "hash_val ops (hash_func t) (hash_bits t) k" and ?o = "hash_mask_offset t" and ?n = "hash_bits t"
  have n: "?n \<le> 25" "?o + 25 \<le> 64" "hash_mask t = push_bit ?o (mask ?n)"
    using assms by (auto simp: table_shape_def BITS_MASK_eq)
  have "drop_bit ?o (?h AND push_bit ?o (mask ?n)) = take_bit ?n (drop_bit ?o ?h)"
    using n by (intro bit_word_eqI) (auto simp: bit_simps)
  then have "HASH_FUNC ops k t = unat (ucast (take_bit ?n (drop_bit ?o ?h)) :: u32)"
    by (simp add: HASH_FUNC_def n(3))
  also have "\<dots> \<le> unat (take_bit ?n (drop_bit ?o ?h))" by (simp add: unsigned_ucast_eq take_bit_nat_less_eq_self)
  also have "\<dots> < 2 ^ ?n" by (simp add: unsigned_take_bit_eq)
  finally show ?thesis .
qed

lemma HASH_INDEX_WRAPAROUND_eq:
  assumes "table_shape t" "i < ring t"
  shows "HASH_INDEX_WRAPAROUND (i + 1) t = cpos (ring t) i 1"
proof -
  let ?o = "hash_mask_offset t" and ?n = "hash_bits t"
  have n: "?n \<le> 25" "?o + 25 \<le> 64" "hash_mask t = push_bit ?o (mask ?n)"
    using assms by (auto simp: table_shape_def BITS_MASK_eq)
  have "drop_bit ?o (push_bit ?o (mask ?n)) = (mask ?n :: u64)"
    using n by (intro bit_word_eqI) (auto simp: bit_simps)
  then have m: "ucast (drop_bit ?o (hash_mask t)) = (mask ?n :: u32)"
    using n by (intro bit_word_eqI) (auto simp: bit_simps)
  have "(2 :: nat) ^ ?n \<le> 2 ^ 25" using n(1) by (intro power_increasing) auto
  with assms(2) have i: "i + 1 < 2 ^ 32" by simp
  have "HASH_INDEX_WRAPAROUND (i + 1) t = unat (take_bit ?n (word_of_nat (i + 1) :: u32))"
    unfolding HASH_INDEX_WRAPAROUND_def m by (simp only: take_bit_eq_mask)
  also have "\<dots> = take_bit ?n (unat (word_of_nat (i + 1) :: u32))" by (rule unsigned_take_bit_eq)
  also have "unat (word_of_nat (i + 1) :: u32) = i + 1" using i by (simp add: unsigned_of_nat take_bit_nat_eq_self del: of_nat_add of_nat_Suc)
  also have "take_bit ?n (i + 1) = (i + 1) mod 2 ^ ?n" by (rule take_bit_eq_mod)
  also have "\<dots> = cpos (ring t) i 1" using assms(2) by (auto simp: cpos_def mod_if)
  finally show ?thesis .
qed

lemma slots_less: "table_shape t \<Longrightarrow> i < ring t \<Longrightarrow> i < length (slots t)"
  by (simp add: table_shape_def)

text \<open>A slot of the ring is empty or holds an entry.\<close>

lemma slot_cases:
  assumes "table_shape t" "i < ring t"
  obtains "slots t ! i = Empty" | k p where "slots t ! i = Entry k p"
  using assms by (cases "slots t ! i") (auto simp: table_shape_def)

subsection \<open>Probing\<close>

lemma lookup_from_stop:
  assumes t: "table_shape t" "a < ring t" and m: "m < ring t" "j \<le> m"
    and pass: "\<And>i. j \<le> i \<Longrightarrow> i < m \<Longrightarrow>
      \<exists>k' p. slots t ! cpos (ring t) a i = Entry k' p \<and> \<not> tags_are_equal ops (table_flags t) k' k"
    and stop: "slots t ! cpos (ring t) a m = Empty \<or>
      (\<exists>k' p. slots t ! cpos (ring t) a m = Entry k' p \<and> tags_are_equal ops (table_flags t) k' k)"
  shows "lookup_from ops t k (cpos (ring t) a j) = Some (slots t ! cpos (ring t) a m)"
  using m(2) pass
proof (induction j rule: inc_induct)
  case base
  have "cpos (ring t) a m < length (slots t)" using t m by (intro slots_less cpos_less)
  with stop show ?case by (subst lookup_from.simps) auto
next
  case (step j)
  from step.prems [of j] step.hyps obtain k' p where
    e: "slots t ! cpos (ring t) a j = Entry k' p" "\<not> tags_are_equal ops (table_flags t) k' k" by auto
  have j: "cpos (ring t) a j < ring t" using t m step.hyps by (intro cpos_less) auto
  have succ: "HASH_INDEX_WRAPAROUND (cpos (ring t) a j + 1) t = cpos (ring t) a (Suc j)"
    using HASH_INDEX_WRAPAROUND_eq [OF t(1) j] cpos_cpos [of a "ring t" j 1] t(2) m step.hyps by auto
  have "lookup_from ops t k (cpos (ring t) a (Suc j)) = Some (slots t ! cpos (ring t) a m)"
    using step.prems by (intro step.IH) auto
  with e succ slots_less [OF t(1) j] show ?case by (subst lookup_from.simps) simp
qed

lemma removal_from_stop:
  assumes t: "table_shape t" "a < ring t" and m: "m < ring t" "j \<le> m"
    and pass: "\<And>i. j \<le> i \<Longrightarrow> i < m \<Longrightarrow>
      \<exists>k' p. slots t ! cpos (ring t) a i = Entry k' p \<and> \<not> tags_are_equal ops (table_flags t) k k'"
    and stop: "slots t ! cpos (ring t) a m = Empty \<or>
      (\<exists>k' p. slots t ! cpos (ring t) a m = Entry k' p \<and> tags_are_equal ops (table_flags t) k k')"
  shows "removal_from ops t k (cpos (ring t) a j) =
    Some (if slots t ! cpos (ring t) a m = Empty then None else Some (cpos (ring t) a m))"
  using m(2) pass
proof (induction j rule: inc_induct)
  case base
  have "cpos (ring t) a m < length (slots t)" using t m by (intro slots_less cpos_less)
  with stop show ?case by (subst removal_from.simps) auto
next
  case (step j)
  from step.prems [of j] step.hyps obtain k' p where
    e: "slots t ! cpos (ring t) a j = Entry k' p" "\<not> tags_are_equal ops (table_flags t) k k'" by auto
  have j: "cpos (ring t) a j < ring t" using t m step.hyps by (intro cpos_less) auto
  have succ: "HASH_INDEX_WRAPAROUND (cpos (ring t) a j + 1) t = cpos (ring t) a (Suc j)"
    using HASH_INDEX_WRAPAROUND_eq [OF t(1) j] cpos_cpos [of a "ring t" j 1] t(2) m step.hyps by auto
  have "removal_from ops t k (cpos (ring t) a (Suc j)) =
    Some (if slots t ! cpos (ring t) a m = Empty then None else Some (cpos (ring t) a m))"
    using step.prems by (intro step.IH) auto
  with e succ slots_less [OF t(1) j] show ?case by (subst removal_from.simps) simp
qed

lemma find_slot_stop:
  assumes t: "table_shape t" "a < ring t" and m: "m < ring t" "j \<le> m"
    and pass: "\<And>i. j \<le> i \<Longrightarrow> i < m \<Longrightarrow> slots t ! cpos (ring t) a i \<noteq> Empty"
    and stop: "slots t ! cpos (ring t) a m = Empty"
  shows "find_slot t (cpos (ring t) a j) = Some (cpos (ring t) a m)"
  using m(2) pass
proof (induction j rule: inc_induct)
  case base
  have "cpos (ring t) a m < length (slots t)" using t m by (intro slots_less cpos_less)
  with stop show ?case by (subst find_slot.simps) auto
next
  case (step j)
  from step.prems [of j] step.hyps have e: "slots t ! cpos (ring t) a j \<noteq> Empty" by auto
  have j: "cpos (ring t) a j < ring t" using t m step.hyps by (intro cpos_less) auto
  have succ: "HASH_INDEX_WRAPAROUND (cpos (ring t) a j + 1) t = cpos (ring t) a (Suc j)"
    using HASH_INDEX_WRAPAROUND_eq [OF t(1) j] cpos_cpos [of a "ring t" j 1] t(2) m step.hyps by auto
  have "find_slot t (cpos (ring t) a (Suc j)) = Some (cpos (ring t) a m)"
    using step.prems by (intro step.IH) auto
  with e succ slots_less [OF t(1) j] show ?case by (subst find_slot.simps) simp
qed

subsection \<open>The invariant\<close>

definition reachable :: "('h, 'k) tag_ops \<Rightarrow> ('h, 'k) htab \<Rightarrow> bool" where
  "reachable ops t \<longleftrightarrow> (\<forall>i < ring t. \<forall>k p. slots t ! i = Entry k p \<longrightarrow>
     (\<forall>j < cdist (ring t) (HASH_FUNC ops k t) i. slots t ! cpos (ring t) (HASH_FUNC ops k t) j \<noteq> Empty))"

definition unique_tags :: "('h, 'k) tag_ops \<Rightarrow> ('h, 'k) htab \<Rightarrow> bool" where
  "unique_tags ops t \<longleftrightarrow> (\<forall>i < ring t. \<forall>j < ring t. \<forall>k p k' p'. slots t ! i = Entry k p \<longrightarrow> slots t ! j = Entry k' p' \<longrightarrow>
     tags_are_equal ops (table_flags t) k k' \<longrightarrow> i = j)"

definition probe_ok :: "('h, 'k) tag_ops \<Rightarrow> ('h, 'k) htab \<Rightarrow> bool" where
  "probe_ok ops t \<longleftrightarrow> table_shape t \<and> reachable ops t \<and> unique_tags ops t \<and> (\<exists>i < ring t. slots t ! i = Empty)"

text \<open>No entry has a tag equal to the given one.\<close>

definition tag_absent :: "('h, 'k) tag_ops \<Rightarrow> 'k \<Rightarrow> ('h, 'k) htab \<Rightarrow> bool" where
  "tag_absent ops k t \<longleftrightarrow> (\<forall>k' p. Entry k' p \<in> set (slots t) \<longrightarrow> \<not> tags_are_equal ops (table_flags t) k' k)"

lemma entry_index:
  assumes "table_shape t" "Entry k p \<in> set (slots t)"
  obtains i where "i < ring t" "slots t ! i = Entry k p"
proof -
  obtain i where i: "i < length (slots t)" "slots t ! i = Entry k p" using assms(2) by (auto simp: in_set_conv_nth)
  with assms(1) have "i < ring t" by (auto simp: table_shape_def less_Suc_eq)
  with i that show thesis by blast
qed

lemma first_empty:
  assumes "probe_ok ops t" "a < ring t"
  obtains m where "m < ring t" "slots t ! cpos (ring t) a m = Empty" "\<And>j. j < m \<Longrightarrow> slots t ! cpos (ring t) a j \<noteq> Empty"
proof -
  let ?P = "\<lambda>j. slots t ! cpos (ring t) a j = Empty"
  obtain i where i: "i < ring t" "slots t ! i = Empty" using assms(1) by (auto simp: probe_ok_def)
  with assms(2) have "?P (cdist (ring t) a i)" by simp
  then have "?P (Least ?P)" "Least ?P \<le> cdist (ring t) a i" by (auto intro: LeastI Least_le)
  moreover from this have "Least ?P < ring t" using cdist_less [OF assms(2) i(1)] by simp
  ultimately show thesis using that [of "Least ?P"] not_less_Least by blast
qed

text \<open>The law of an instance of the template: equality of tags is an equivalence that the hash function respects.\<close>

locale tag_instance =
  fixes ops :: "('h, 'k) tag_ops" and func :: 'h and flags :: u32
  assumes tag_refl: "tags_are_equal ops flags a a"
    and tag_sym: "tags_are_equal ops flags a b \<Longrightarrow> tags_are_equal ops flags b a"
    and tag_trans: "tags_are_equal ops flags a b \<Longrightarrow> tags_are_equal ops flags b c \<Longrightarrow> tags_are_equal ops flags a c"
    and tag_hash: "tags_are_equal ops flags a b \<Longrightarrow> hash_val ops func n a = hash_val ops func n b"
begin

lemma lookup_hit:
  assumes ok: "probe_ok ops t" and t: "hash_func t = func" "table_flags t = flags"
    and i: "i < ring t" "slots t ! i = Entry k' p" "tags_are_equal ops flags k' k"
  shows "hashtable_lookup_entry ops k t = Some (Entry k' p)"
    "lookup_for_removal ops (Entry k q) t = Some (Some i)"
proof -
  let ?N = "ring t" and ?a = "HASH_FUNC ops k t" and ?m = "cdist (ring t) (HASH_FUNC ops k t) i"
  have shape: "table_shape t" using ok by (simp add: probe_ok_def)
  have a: "?a < ?N" using HASH_FUNC_less [OF shape] .
  have home: "HASH_FUNC ops k' t = ?a" using tag_hash [OF i(3)] t by (simp add: HASH_FUNC_def)
  have pass: "\<exists>k2 q. slots t ! cpos ?N ?a j = Entry k2 q \<and> \<not> tags_are_equal ops (table_flags t) k2 k \<and>
    \<not> tags_are_equal ops (table_flags t) k k2" if j: "j < ?m" for j
  proof -
    have less: "cpos ?N ?a j < ?N" using a j cdist_less [OF a i(1)] by (intro cpos_less) auto
    have "slots t ! cpos ?N ?a j \<noteq> Empty" using ok i j home by (auto simp: probe_ok_def reachable_def)
    then obtain k2 q where e: "slots t ! cpos ?N ?a j = Entry k2 q" using slot_cases [OF shape less] by metis
    moreover have "\<not> tags_are_equal ops flags k2 k"
    proof
      assume "tags_are_equal ops flags k2 k"
      with i(3) tag_trans tag_sym have "tags_are_equal ops flags k2 k'" by blast
      with ok e i less t have "cpos ?N ?a j = i" by (auto simp: probe_ok_def unique_tags_def)
      with j cdist_cpos [OF a, of j] cdist_less [OF a i(1)] show False by auto
    qed
    ultimately show ?thesis using tag_sym t(2) by blast
  qed
  have m: "?m < ?N" "0 \<le> ?m" using cdist_less [OF a i(1)] by auto
  have i': "cpos ?N ?a ?m = i" "cpos ?N ?a 0 = ?a" using a i(1) by simp_all
  have "lookup_from ops t k (cpos ?N ?a 0) = Some (slots t ! cpos ?N ?a ?m)"
    by (rule lookup_from_stop [OF shape a m]) (use pass in blast, use i i' t in auto)
  with i i' show "hashtable_lookup_entry ops k t = Some (Entry k' p)" by (simp add: hashtable_lookup_entry_def)
  have "removal_from ops t k (cpos ?N ?a 0) = Some (if slots t ! cpos ?N ?a ?m = Empty then None else Some (cpos ?N ?a ?m))"
    by (rule removal_from_stop [OF shape a m]) (use pass in blast, use i i' t tag_sym [OF i(3)] in auto)
  with i i' show "lookup_for_removal ops (Entry k q) t = Some (Some i)" by (simp add: lookup_for_removal_def)
qed

lemma lookup_miss:
  assumes ok: "probe_ok ops t" and t: "table_flags t = flags" and absent: "tag_absent ops k t"
  shows "hashtable_lookup_entry ops k t = Some Empty" "lookup_for_removal ops (Entry k q) t = Some None"
proof -
  let ?N = "ring t" and ?a = "HASH_FUNC ops k t"
  have shape: "table_shape t" using ok by (simp add: probe_ok_def)
  have a: "?a < ?N" using HASH_FUNC_less [OF shape] .
  obtain m where m: "m < ?N" "slots t ! cpos ?N ?a m = Empty" "\<And>j. j < m \<Longrightarrow> slots t ! cpos ?N ?a j \<noteq> Empty"
    using first_empty [OF ok a] by blast
  have pass: "\<exists>k2 q. slots t ! cpos ?N ?a j = Entry k2 q \<and> \<not> tags_are_equal ops (table_flags t) k2 k \<and>
    \<not> tags_are_equal ops (table_flags t) k k2" if j: "j < m" for j
  proof -
    have less: "cpos ?N ?a j < ?N" using a j m(1) by (intro cpos_less) auto
    obtain k2 q where e: "slots t ! cpos ?N ?a j = Entry k2 q" using slot_cases [OF shape less] m(3) [OF j] by metis
    then have "Entry k2 q \<in> set (slots t)" using slots_less [OF shape less] by (metis nth_mem)
    with absent t tag_sym e show ?thesis unfolding tag_absent_def by blast
  qed
  have "lookup_from ops t k (cpos ?N ?a 0) = Some (slots t ! cpos ?N ?a m)"
    by (rule lookup_from_stop [OF shape a m(1)]) (use pass m(2) in blast)+
  with m a show "hashtable_lookup_entry ops k t = Some Empty" by (simp add: hashtable_lookup_entry_def)
  have "removal_from ops t k (cpos ?N ?a 0) = Some (if slots t ! cpos ?N ?a m = Empty then None else Some (cpos ?N ?a m))"
    by (rule removal_from_stop [OF shape a m(1)]) (use pass m(2) in blast)+
  with m a show "lookup_for_removal ops (Entry k q) t = Some None" by (simp add: lookup_for_removal_def)
qed

end

subsection \<open>Filling the first empty slot\<close>

lemma find_slot_first:
  assumes ok: "probe_ok ops t" and a: "a < ring t"
  obtains i where "find_slot t a = Some i" "i < ring t" "slots t ! i = Empty"
    "\<And>j. j < cdist (ring t) a i \<Longrightarrow> slots t ! cpos (ring t) a j \<noteq> Empty"
proof -
  have shape: "table_shape t" using ok by (simp add: probe_ok_def)
  obtain m where m: "m < ring t" "slots t ! cpos (ring t) a m = Empty" "\<And>j. j < m \<Longrightarrow> slots t ! cpos (ring t) a j \<noteq> Empty"
    using first_empty [OF ok a] by blast
  from find_slot_stop [OF shape a m(1), of 0] m(2,3) a have "find_slot t a = Some (cpos (ring t) a m)" by simp
  with m a cpos_less [OF a m(1)] show thesis by (intro that [of "cpos (ring t) a m"]) auto
qed

lemma HASH_FUNC_slots [simp]: "HASH_FUNC ops k (t\<lparr>slots := xs\<rparr>) = HASH_FUNC ops k t"
  by (simp add: HASH_FUNC_def)

lemma table_shape_update:
  assumes "table_shape t" "i < ring t" "e \<noteq> Sentinel"
  shows "table_shape (t\<lparr>slots := (slots t)[i := e]\<rparr>)"
  using assms by (auto simp: table_shape_def nth_list_update)

lemma fill_first_empty:
  assumes ok: "probe_ok ops t" and i: "i < ring t" "slots t ! i = Empty"
    and path: "\<And>j. j < cdist (ring t) (HASH_FUNC ops k t) i \<Longrightarrow> slots t ! cpos (ring t) (HASH_FUNC ops k t) j \<noteq> Empty"
    and absent: "\<And>k' p. Entry k' p \<in> set (slots t) \<Longrightarrow>
      \<not> tags_are_equal ops (table_flags t) k' k \<and> \<not> tags_are_equal ops (table_flags t) k k'"
    and room: "j < ring t" "j \<noteq> i" "slots t ! j = Empty"
  shows "probe_ok ops (t\<lparr>slots := (slots t)[i := Entry k p]\<rparr>)"
proof -
  let ?u = "t\<lparr>slots := (slots t)[i := Entry k p]\<rparr>"
  have shape: "table_shape t" and reach: "reachable ops t" and uniq: "unique_tags ops t"
    using ok by (simp_all add: probe_ok_def)
  have len: "length (slots t) = Suc (ring t)" using shape by (simp add: table_shape_def)
  have nth: "slots ?u ! x = (if x = i then Entry k p else slots t ! x)" for x
    using i len by (simp add: nth_list_update)
  have "reachable ops ?u"
    unfolding reachable_def
  proof (intro allI impI)
    fix x k' p' j
    assume x: "x < ring ?u" "slots ?u ! x = Entry k' p'" "j < cdist (ring ?u) (HASH_FUNC ops k' ?u) x"
    show "slots ?u ! cpos (ring ?u) (HASH_FUNC ops k' ?u) j \<noteq> Empty"
    proof (cases "x = i")
      case True
      with x nth path [of j] show ?thesis by auto
    next
      case False
      with x nth have "slots t ! x = Entry k' p'" by simp
      with reach x have "slots t ! cpos (ring t) (HASH_FUNC ops k' t) j \<noteq> Empty" by (auto simp: reachable_def)
      with nth [of "cpos (ring t) (HASH_FUNC ops k' t) j"] show ?thesis by simp
    qed
  qed
  moreover have "unique_tags ops ?u"
    unfolding unique_tags_def
  proof (intro allI impI)
    fix x y k1 p1 k2 p2
    assume *: "x < ring ?u" "y < ring ?u" "slots ?u ! x = Entry k1 p1" "slots ?u ! y = Entry k2 p2"
      "tags_are_equal ops (table_flags ?u) k1 k2"
    have mem: "slots t ! z \<in> set (slots t)" if "z < ring t" for z using slots_less [OF shape that] by simp
    show "x = y"
      using * nth mem [of x] mem [of y] absent uniq unfolding unique_tags_def
      by (cases "x = i"; cases "y = i") auto
  qed
  moreover have "slots ?u ! j = Empty" using room nth by simp
  ultimately show ?thesis using table_shape_update [OF shape i(1), of "Entry k p"] room(1) by (auto simp: probe_ok_def)
qed

subsection \<open>Closing a hole\<close>

text \<open>While a hole is closed, its slot is empty, the next \<open>d\<close> slots hold entries whose way does not lead
through it, and no other slot on the way to an entry is empty.\<close>

definition hole_inv :: "('h, 'k) tag_ops \<Rightarrow> ('h, 'k) htab \<Rightarrow> nat \<Rightarrow> nat \<Rightarrow> bool" where
  "hole_inv ops t hole d \<longleftrightarrow> table_shape t \<and> unique_tags ops t \<and> hole < ring t \<and> d < ring t \<and> slots t ! hole = Empty \<and>
     (\<forall>j. 0 < j \<and> j \<le> d \<longrightarrow> (\<exists>k p. slots t ! cpos (ring t) hole j = Entry k p \<and>
        cdist (ring t) (HASH_FUNC ops k t) (cpos (ring t) hole j) < j)) \<and>
     (\<forall>i < ring t. \<forall>k p. slots t ! i = Entry k p \<longrightarrow> (\<forall>j < cdist (ring t) (HASH_FUNC ops k t) i.
        cpos (ring t) (HASH_FUNC ops k t) j \<noteq> hole \<longrightarrow> slots t ! cpos (ring t) (HASH_FUNC ops k t) j \<noteq> Empty))"

lemma hole_inv_way:
  "hole_inv ops t hole d \<Longrightarrow> i < ring t \<Longrightarrow> slots t ! i = Entry k p \<Longrightarrow> j < cdist (ring t) (HASH_FUNC ops k t) i \<Longrightarrow>
     cpos (ring t) (HASH_FUNC ops k t) j \<noteq> hole \<Longrightarrow> slots t ! cpos (ring t) (HASH_FUNC ops k t) j \<noteq> Empty"
  by (auto simp: hole_inv_def)

lemma hole_inv_done:
  assumes inv: "hole_inv ops t hole d" and d: "Suc d < ring t" "slots t ! cpos (ring t) hole (Suc d) = Empty"
  shows "reachable ops t"
  unfolding reachable_def
proof (intro allI impI)
  fix x k p j
  let ?N = "ring t" and ?h = "HASH_FUNC ops k t"
  assume x: "x < ?N" "slots t ! x = Entry k p" "j < cdist ?N ?h x"
  have shape: "table_shape t" and hole: "hole < ?N" using inv by (auto simp: hole_inv_def)
  have h: "?h < ?N" using HASH_FUNC_less [OF shape] .
  show "slots t ! cpos ?N ?h j \<noteq> Empty"
  proof (cases "cpos ?N ?h j = hole")
    case True
    define m where "m = cdist ?N hole x"
    have m: "m = cdist ?N ?h x - j" "m < ?N" "cpos ?N hole m = x"
      using cdist_split [OF h x(1)] x True cdist_less [OF hole x(1)] hole by (auto simp: m_def)
    consider "m \<le> d" | "m = Suc d" | "Suc d < m" by linarith
    then show ?thesis
    proof cases
      case 1
      have "0 < m" using m(1) x(3) by simp
      with 1 inv have "\<exists>k p. slots t ! cpos ?N hole m = Entry k p \<and> cdist ?N (HASH_FUNC ops k t) (cpos ?N hole m) < m"
        unfolding hole_inv_def by blast
      with m x have "cdist ?N ?h x < m" by auto
      with m(1) show ?thesis by linarith
    next
      case 2
      with m d x show ?thesis by simp
    next
      case 3
      have j: "j + Suc d < cdist ?N ?h x" using 3 m(1) by linarith
      have "cdist ?N ?h x < ?N" using cdist_less [OF h x(1)] .
      with j have pos: "cpos ?N ?h (j + Suc d) = cpos ?N hole (Suc d)" using cpos_cpos [OF h, of j "Suc d"] True by simp
      have "cpos ?N hole (Suc d) \<noteq> hole" using cdist_cpos [OF hole d(1)] by (metis cdist_self Zero_not_Suc)
      with hole_inv_way [OF inv x(1,2) j] pos d(2) show ?thesis by simp
    qed
  qed (use hole_inv_way [OF inv x] in blast)
qed

lemma hole_inv_pass:
  assumes inv: "hole_inv ops t hole d" and d: "Suc d < ring t" "slots t ! cpos (ring t) hole (Suc d) = Entry k p"
    and keep: "\<not> lost_behind (HASH_FUNC ops k t) hole (cpos (ring t) hole (Suc d))"
  shows "hole_inv ops t hole (Suc d)"
proof -
  let ?N = "ring t"
  have shape: "table_shape t" and hole: "hole < ?N" using inv by (auto simp: hole_inv_def)
  have i: "cpos ?N hole (Suc d) < ?N" using cpos_less [OF hole d(1)] .
  have ne: "hole \<noteq> cpos ?N hole (Suc d)" using cdist_cpos [OF hole d(1)] by (metis cdist_self Zero_not_Suc)
  have "cdist ?N (HASH_FUNC ops k t) (cpos ?N hole (Suc d)) < Suc d"
    using keep lost_behind_cdist [OF HASH_FUNC_less [OF shape] hole i ne] cdist_cpos [OF hole d(1)] by simp
  with inv d show ?thesis by (auto simp: hole_inv_def le_Suc_eq)
qed

lemma hole_inv_move:
  assumes inv: "hole_inv ops t hole d" and d: "Suc d < ring t" "i = cpos (ring t) hole (Suc d)" "slots t ! i = Entry k p"
    and lost: "lost_behind (HASH_FUNC ops k t) hole i"
  shows "hole_inv ops (t\<lparr>slots := (slots t)[hole := Entry k p, i := Empty]\<rparr>) i 0"
proof -
  let ?N = "ring t" and ?u = "t\<lparr>slots := (slots t)[hole := Entry k p, i := Empty]\<rparr>" and ?h = "HASH_FUNC ops k t"
  have shape: "table_shape t" and hole: "hole < ?N" "slots t ! hole = Empty" and uniq: "unique_tags ops t"
    using inv by (auto simp: hole_inv_def)
  have len: "length (slots t) = Suc ?N" using shape by (simp add: table_shape_def)
  have i: "i < ?N" using cpos_less [OF hole(1) d(1)] d(2) by simp
  have ne: "hole \<noteq> i" using d(3) hole(2) by auto
  have h: "?h < ?N" using HASH_FUNC_less [OF shape] .
  have nth: "slots ?u ! x = (if x = i then Empty else if x = hole then Entry k p else slots t ! x)" for x
    using i hole len ne by (simp add: nth_list_update)
  have dist: "cdist ?N hole i \<le> cdist ?N ?h i" using lost lost_behind_cdist [OF h hole(1) i ne] by simp
  have shape': "table_shape ?u"
    using table_shape_update [OF table_shape_update [OF shape hole(1), of "Entry k p"], of i Empty] i by simp
  have closer: "cdist ?N ?h hole = cdist ?N ?h i - cdist ?N hole i" "cdist ?N hole i \<noteq> 0"
    using dist h hole(1) i ne by (auto simp: cdist_def split: if_splits)
  have way: "slots ?u ! cpos ?N (HASH_FUNC ops k2 t) j \<noteq> Empty"
    if x: "x < ?N" "slots ?u ! x = Entry k2 q" "j < cdist ?N (HASH_FUNC ops k2 t) x" "cpos ?N (HASH_FUNC ops k2 t) j \<noteq> i" for x k2 q j
  proof (cases "cpos ?N (HASH_FUNC ops k2 t) j = hole")
    case True
    then show ?thesis using nth [of hole] ne by simp
  next
    case False
    have "slots t ! cpos ?N (HASH_FUNC ops k2 t) j \<noteq> Empty"
    proof (cases "x = hole")
      case True
      with x(2) nth [of hole] ne have "k2 = k" by simp
      with x(3) True closer hole_inv_way [OF inv i d(3), of j] False show ?thesis by simp
    next
      case False
      with x(2) nth [of x] have "slots t ! x = Entry k2 q" by (simp split: if_splits)
      with hole_inv_way [OF inv x(1) _ x(3)] \<open>cpos ?N (HASH_FUNC ops k2 t) j \<noteq> hole\<close> show ?thesis by blast
    qed
    with nth [of "cpos ?N (HASH_FUNC ops k2 t) j"] x(4) False show ?thesis by simp
  qed
  have "unique_tags ops ?u"
    unfolding unique_tags_def
  proof (intro allI impI)
    fix x y k1 p1 k2 p2
    assume *: "x < ring ?u" "y < ring ?u" "slots ?u ! x = Entry k1 p1" "slots ?u ! y = Entry k2 p2"
      "tags_are_equal ops (table_flags ?u) k1 k2"
    define f where "f x = (if x = hole then i else x)" for x
    have "slots t ! f x = Entry k1 p1" "slots t ! f y = Entry k2 p2" "x \<noteq> i" "y \<noteq> i"
      using * nth [of x] nth [of y] d(3) by (auto simp: f_def split: if_splits)
    moreover have "f x < ?N" "f y < ?N" using * i by (auto simp: f_def)
    ultimately have "f x = f y" using uniq * unfolding unique_tags_def by simp
    with \<open>x \<noteq> i\<close> \<open>y \<noteq> i\<close> show "x = y" by (auto simp: f_def split: if_splits)
  qed
  moreover have "slots ?u ! i = Empty" using nth [of i] by simp
  ultimately show ?thesis
    unfolding hole_inv_def using shape' i way by auto
qed

text \<open>The slots below an index are unchanged and the others come from slots at or above it.\<close>

definition upward :: "nat \<Rightarrow> nat \<Rightarrow> 'k slot list \<Rightarrow> 'k slot list \<Rightarrow> bool" where
  "upward s n xs ys \<longleftrightarrow> (\<forall>x < s. ys ! x = xs ! x) \<and> (\<forall>x. s \<le> x \<and> x < n \<longrightarrow> (\<exists>y. s \<le> y \<and> y < n \<and> ys ! x = xs ! y))"

lemma upward_refl [simp]: "upward s n xs xs"
  by (auto simp: upward_def)

lemma upward_trans: "upward s n xs ys \<Longrightarrow> upward s n ys zs \<Longrightarrow> upward s n xs zs"
  unfolding upward_def by metis

lemma upward_swap:
  "s \<le> a \<Longrightarrow> s \<le> b \<Longrightarrow> a < n \<Longrightarrow> b < n \<Longrightarrow> n \<le> length xs \<Longrightarrow> upward s n xs (xs[a := xs ! b, b := xs ! a])"
  unfolding upward_def by (auto simp: nth_list_update intro: less_le_trans)

text \<open>Closing the hole at \<open>hole\<close> pulled an entry from the start of the table to a slot at or behind the hole; \<open>e\<close> is an
empty slot that the loop does not pass.\<close>

definition pulled_across :: "nat \<Rightarrow> nat \<Rightarrow> nat \<Rightarrow> 'k slot list \<Rightarrow> 'k slot list \<Rightarrow> bool" where
  "pulled_across N hole e xs ys \<longleftrightarrow> (\<exists>x y k p. y < hole \<and> hole \<le> x \<and> x < N \<and> cdist N hole y < cdist N hole e \<and>
     xs ! y = Entry k p \<and> ys ! x = Entry k p)"

lemma pulled_across_later:
  assumes "pulled_across N i e us ys" "hole < i" "i < N" "e < N" "cdist N hole i < cdist N hole e"
    and "\<And>y. y \<noteq> hole \<Longrightarrow> y \<noteq> i \<Longrightarrow> us ! y = xs ! y"
  shows "pulled_across N hole e xs ys"
proof -
  obtain x y k p where *: "y < i" "i \<le> x" "x < N" "cdist N i y < cdist N i e" "us ! y = Entry k p" "ys ! x = Entry k p"
    using assms(1) by (auto simp: pulled_across_def)
  then have "y < hole" "cdist N hole y < cdist N hole e" using assms(2-5) by (auto simp: cdist_def split: if_splits)
  then show ?thesis using * assms(2,6) unfolding pulled_across_def by (intro exI [of _ x] exI [of _ y]) auto
qed

lemma close_hole_correct:
  assumes "hole_inv ops t hole d" "e < ring t" "slots t ! e = Empty" "d < cdist (ring t) hole e"
  shows "\<exists>w xs. close_hole ops t hole (cpos (ring t) hole d) wrapped = Some (w, t\<lparr>slots := xs\<rparr>) \<and>
    probe_ok ops (t\<lparr>slots := xs\<rparr>) \<and> mset xs = mset (slots t) \<and> (wrapped \<longrightarrow> w) \<and>
    (\<not> w \<longrightarrow> (\<forall>s \<le> hole. upward s (ring t) (slots t) xs)) \<and>
    (w \<and> \<not> wrapped \<longrightarrow> pulled_across (ring t) hole e (slots t) xs) \<and>
    (\<forall>x < ring t. cdist (ring t) hole e \<le> cdist (ring t) hole x \<longrightarrow> xs ! x = slots t ! x)"
  using assms
proof (induction "cdist (ring t) (cpos (ring t) hole d) e" arbitrary: t hole d wrapped rule: less_induct)
  case (less t hole d wrapped)
  note inv = less.prems(1) and e = less.prems(2,3)
  let ?N = "ring t"
  have shape: "table_shape t" and hole: "hole < ?N" "slots t ! hole = Empty" and uniq: "unique_tags ops t"
    using inv by (auto simp: hole_inv_def)
  have len: "length (slots t) = Suc ?N" using shape by (simp add: table_shape_def)
  have de: "cdist ?N hole e < ?N" using cdist_less [OF hole(1) e(1)] .
  have d: "Suc d < ?N" "d < ?N" using less.prems(4) de by linarith+
  let ?p = "cpos ?N hole d" and ?i = "cpos ?N hole (Suc d)"
  have p: "?p < ?N" and i: "?i < ?N" using cpos_less [OF hole(1)] d by auto
  have succ: "HASH_INDEX_WRAPAROUND (Suc ?p) t = ?i"
    using HASH_INDEX_WRAPAROUND_eq [OF shape p] cpos_cpos [OF hole(1), of d 1] d by simp
  have dist_p: "cdist ?N ?p e = cdist ?N hole e - d" using cdist_split [OF hole(1) e(1)] less.prems(4) by simp
  have dist_i: "cdist ?N ?i e = cdist ?N hole e - Suc d" using cdist_split [OF hole(1) e(1)] less.prems(4) by simp
  have unfold: "close_hole ops t hole ?p wrapped = (if slots t ! ?i = Empty then Some (wrapped, t) else do {
       ftag \<leftarrow> ENTRY_TAG (slots t ! ?i);
       if lost_behind (HASH_FUNC ops ftag t) hole ?i
       then close_hole ops (t\<lparr>slots := (slots t)[hole := slots t ! ?i, ?i := Empty]\<rparr>) ?i ?i (wrapped \<or> ?i < hole)
       else close_hole ops t hole ?i wrapped })"
    using slots_less [OF shape i] by (subst close_hole.simps) (simp add: Let_def succ)
  show ?case
  proof (cases "slots t ! ?i = Empty")
    case True
    with hole_inv_done [OF inv d(1)] shape uniq hole have "probe_ok ops t" by (auto simp: probe_ok_def)
    with True unfold show ?thesis by (intro exI [of _ wrapped] exI [of _ "slots t"]) simp
  next
    case False
    then obtain k p where entry: "slots t ! ?i = Entry k p" using slot_cases [OF shape i] by metis
    have far: "Suc d < cdist ?N hole e"
      using less.prems(4) False e cpos_cdist [OF hole(1) e(1)] by (metis Suc_lessI)
    show ?thesis
    proof (cases "lost_behind (HASH_FUNC ops k t) hole ?i")
      case False
      have "cdist ?N ?i e < cdist ?N ?p e" using dist_p dist_i far by linarith
      from less.hyps [OF this hole_inv_pass [OF inv d(1) entry False] e far, of wrapped] unfold entry False
      show ?thesis by simp
    next
      case True
      define u where "u = t\<lparr>slots := (slots t)[hole := Entry k p, ?i := Empty]\<rparr>"
      have ring: "ring u = ?N" by (simp add: u_def)
      have swap: "slots u = (slots t)[hole := slots t ! ?i, ?i := slots t ! hole]" using entry hole by (simp add: u_def)
      have "e \<noteq> hole" using less.prems(4) by auto
      with e len hole i have e2: "slots u ! e = Empty" by (auto simp: nth_list_update u_def)
      have inv': "hole_inv ops u ?i 0" unfolding u_def by (rule hole_inv_move [OF inv d(1) refl entry True])
      have lt: "cdist (ring u) (cpos (ring u) ?i 0) e < cdist ?N ?p e" "0 < cdist (ring u) ?i e"
        using dist_p dist_i far i by (simp_all add: ring)
      have "\<exists>w xs. close_hole ops u ?i (cpos (ring u) ?i 0) (wrapped \<or> ?i < hole) = Some (w, u\<lparr>slots := xs\<rparr>) \<and>
        probe_ok ops (u\<lparr>slots := xs\<rparr>) \<and> mset xs = mset (slots u) \<and> (wrapped \<or> ?i < hole \<longrightarrow> w) \<and>
        (\<not> w \<longrightarrow> (\<forall>s \<le> ?i. upward s (ring u) (slots u) xs)) \<and>
        (w \<and> \<not> (wrapped \<or> ?i < hole) \<longrightarrow> pulled_across (ring u) ?i e (slots u) xs) \<and>
        (\<forall>x < ring u. cdist (ring u) ?i e \<le> cdist (ring u) ?i x \<longrightarrow> xs ! x = slots u ! x)"
        by (rule less.hyps [OF lt(1) inv' _ e2 lt(2)]) (simp add: ring e)
      then obtain w xs where rec: "close_hole ops u ?i ?i (wrapped \<or> ?i < hole) = Some (w, t\<lparr>slots := xs\<rparr>)"
        "probe_ok ops (t\<lparr>slots := xs\<rparr>)" "mset xs = mset (slots u)" "wrapped \<or> ?i < hole \<longrightarrow> w"
        "\<not> w \<longrightarrow> (\<forall>s \<le> ?i. upward s ?N (slots u) xs)"
        "w \<and> \<not> (wrapped \<or> ?i < hole) \<longrightarrow> pulled_across ?N ?i e (slots u) xs"
        "\<And>x. x < ?N \<Longrightarrow> cdist ?N ?i e \<le> cdist ?N ?i x \<Longrightarrow> xs ! x = slots u ! x"
        using i by (auto simp: ring) (auto simp: u_def)
      have "close_hole ops t hole ?p wrapped = Some (w, t\<lparr>slots := xs\<rparr>)" using unfold entry True rec(1) by (simp add: u_def)
      moreover have "mset xs = mset (slots t)"
        unfolding rec(3) swap using hole(1) i len by (intro mset_swap) auto
      moreover have "upward s ?N (slots t) xs" if "\<not> w" "s \<le> hole" for s
      proof -
        have "hole \<le> ?i" using rec(4) that(1) by auto
        then have "upward s ?N (slots t) (slots u)"
          unfolding swap using hole(1) i len that(2) by (intro upward_swap) auto
        with rec(5) that \<open>hole \<le> ?i\<close> show ?thesis by (auto intro: upward_trans)
      qed
      moreover have di: "cdist ?N hole ?i = Suc d" using cdist_cpos [OF hole(1) d(1)] .
      have nth_u: "slots u ! x = slots t ! x" if "x \<noteq> hole" "x \<noteq> ?i" for x using that by (simp add: u_def)
      have later: "cdist ?N ?i e \<le> cdist ?N ?i x" if "x < ?N" "cdist ?N hole e \<le> cdist ?N hole x \<or> x = hole" for x
        using that di far hole(1) i e(1) by (auto simp: cdist_def split: if_splits)
      have "pulled_across ?N hole e (slots t) xs" if "w" "\<not> wrapped"
      proof (cases "?i < hole")
        case True
        have "xs ! hole = slots u ! hole" using rec(7) later [of hole] hole(1) by simp
        also have "\<dots> = Entry k p" using True len hole(1) by (simp add: u_def)
        finally show ?thesis
          using True hole(1) entry di far unfolding pulled_across_def by (intro exI [of _ hole] exI [of _ ?i]) simp
      next
        case False
        moreover have "?i \<noteq> hole" using entry hole(2) by auto
        ultimately show ?thesis
          using rec(6) that pulled_across_later [OF _ _ i e(1) _ nth_u] di far by auto
      qed
      moreover have "xs ! x = slots t ! x" if "x < ?N" "cdist ?N hole e \<le> cdist ?N hole x" for x
      proof -
        have "x \<noteq> hole" "x \<noteq> ?i" using that(2) far di by auto
        then show ?thesis using rec(7) [OF that(1) later] that nth_u by simp
      qed
      ultimately show ?thesis using rec(2,4) by auto
    qed
  qed
qed

end
