(* ===== verification/GenHashOps.thy ===== *)
theory GenHashOps
  imports GenHashProbe
begin

text \<open>
  The operations of the open-addressing hashtable on whole tables: an addition, with the resizing and rehashing it may
  cause, adds one entry, a removal removes one, the studies of the debug build pass, and the removal of
  a range removes the entries of that range. A table is seen as the multiset of its entries.
\<close>

subsection \<open>Entries\<close>

definition table_content :: "('h, 'k) htab \<Rightarrow> 'k slot multiset" where
  "table_content t = filter_mset ENTRY_IS_REAL (mset (slots t))"

lemma content_slots [simp]: "table_content (t\<lparr>slots := xs\<rparr>) = filter_mset ENTRY_IS_REAL (mset xs)"
  by (simp add: table_content_def)

lemma content_size: "size (table_content t) = length (filter ENTRY_IS_REAL (slots t))"
  by (metis table_content_def mset_filter size_mset)

lemma ENTRY_IS_REAL_iff: "ENTRY_IS_REAL e \<longleftrightarrow> (\<exists>k p. e = Entry k p)"
  by (cases e) auto

lemma Entry_in_content [simp]: "Entry k p \<in># table_content t \<longleftrightarrow> Entry k p \<in> set (slots t)"
  by (simp add: table_content_def)

lemma filter_update:
  assumes "i < length xs"
  shows "filter_mset P (mset (xs[i := e])) + (if P (xs ! i) then {#xs ! i#} else {#}) =
    filter_mset P (mset xs) + (if P e then {#e#} else {#})"
proof -
  have "mset (xs[i := e]) + {#xs ! i#} = mset xs + {#e#}"
    using assms by (simp add: mset_update)
  from arg_cong [OF this, of "filter_mset P"] show ?thesis by (simp split: if_splits)
qed

text \<open>A table with fewer entries than slots has an empty slot.\<close>

lemma empty_slot:
  assumes shape: "table_shape t" and count: "size (table_content t) < ring t"
  obtains i where "i < ring t" "slots t ! i = Empty"
proof (rule ccontr)
  assume *: "\<not> thesis"
  have real: "ENTRY_IS_REAL (slots t ! i)" if "i < ring t" for i
    using slot_cases [OF shape that] that * \<open>\<And>i. i < ring t \<Longrightarrow> slots t ! i = Empty \<Longrightarrow> thesis\<close> by (metis ENTRY_IS_REAL.simps(1))
  have len: "ring t \<le> length (slots t)" using shape by (simp add: table_shape_def)
  have "filter ENTRY_IS_REAL (take (ring t) (slots t)) = take (ring t) (slots t)"
    using real len by (auto simp: filter_id_conv in_set_conv_nth)
  then have "ring t \<le> length (filter ENTRY_IS_REAL (take (ring t) (slots t) @ drop (ring t) (slots t)))"
    unfolding filter_append using len by simp
  with count show False by (simp add: content_size)
qed

subsection \<open>The invariant of a table\<close>

definition small_load :: "nat \<Rightarrow> u32 \<Rightarrow> bool" where
  "small_load bits load \<longleftrightarrow> 0 < load \<and> load < 100 \<and> (2 ^ bits + 1) * unat load < 100 * 2 ^ bits"

definition max_entries :: "nat \<Rightarrow> u32 \<Rightarrow> nat" where
  "max_entries bits load = (2 ^ bits + 1) * unat load div 100"

definition sizes_ok :: "('h, 'k) htab \<Rightarrow> bool" where
  "sizes_ok t \<longleftrightarrow> small_load (hash_bits t) (load_factor_percent t) \<and> h_capacity t = HASHTABLE_POW (hash_bits t) + 1 \<and>
     h_resize_threshold t = load_threshold (h_capacity t) (load_factor_percent t) \<and>
     \<not> TESTFLAG HASHTABLE_READ_ONLY (table_flags t)"

definition htab_ok :: "('h, 'k) tag_ops \<Rightarrow> ('h, 'k) htab \<Rightarrow> bool" where
  "htab_ok ops t \<longleftrightarrow> probe_ok ops t \<and> sizes_ok t \<and>
     size (table_content t) \<le> max_entries (hash_bits t) (load_factor_percent t) \<and> h_entries t = word_of_nat (size (table_content t))"

lemma small_load_mono:
  assumes "b \<le> c" "small_load b load" shows "small_load c load"
  using assms
proof (induction c rule: dec_induct)
  case (step c)
  then have "(2 ^ c + 1) * unat load < 100 * 2 ^ c" by (simp add: small_load_def)
  moreover have "(2 ^ Suc c + 1) * unat load \<le> 2 * ((2 ^ c + 1) * unat load)" by (simp add: algebra_simps)
  ultimately have "(2 ^ Suc c + 1) * unat load < 100 * 2 ^ Suc c" by (simp add: mult.assoc)
  with step show ?case by (simp add: small_load_def)
qed simp

lemma max_entries_less: "small_load b load \<Longrightarrow> max_entries b load < 2 ^ b"
  by (simp add: small_load_def max_entries_def less_mult_imp_div_less mult.commute)

lemma unat_HASHTABLE_POW: "b \<le> 25 \<Longrightarrow> unat (HASHTABLE_POW b + 1) = 2 ^ b + 1"
proof -
  assume b: "b \<le> 25"
  have "(2 :: nat) ^ b \<le> 2 ^ 25" using b by (intro power_increasing) auto
  moreover have "HASHTABLE_POW b + 1 = word_of_nat (2 ^ b + 1)" by (simp add: HASHTABLE_POW_def push_bit_eq_mult)
  ultimately show ?thesis by (simp only:) (simp add: unsigned_of_nat take_bit_nat_eq_self del: of_nat_add of_nat_Suc)
qed

lemma unat_load_threshold:
  assumes "b \<le> 25" "load < 100"
  shows "unat (load_threshold (HASHTABLE_POW b + 1) load) = max_entries b load"
proof -
  have l: "unat load < 100" using assms(2) by (simp add: word_less_nat_alt)
  have "(2 :: nat) ^ b + 1 \<le> 2 ^ 25 + 1" using power_increasing [OF assms(1), of "2 :: nat"] by simp
  then have "(2 ^ b + 1) * unat load \<le> (2 ^ 25 + 1) * 99" using l by (intro mult_le_mono) auto
  then have "unat ((HASHTABLE_POW b + 1) * load) = (2 ^ b + 1) * unat load"
    using unat_HASHTABLE_POW [OF assms(1)] by (simp add: unat_word_ariths)
  then show ?thesis by (simp add: load_threshold_def max_entries_def unat_div_distrib)
qed

lemma max_entries_bound: "b \<le> 25 \<Longrightarrow> small_load b load \<Longrightarrow> max_entries b load < 2 ^ 25"
  using max_entries_less [of b load] power_increasing [of b 25 "2 :: nat"] by simp

lemma probe_okI:
  assumes "table_shape t" "reachable ops t" "unique_tags ops t" "sizes_ok t"
    "size (table_content t) \<le> max_entries (hash_bits t) (load_factor_percent t)"
  shows "probe_ok ops t"
proof -
  have "size (table_content t) < ring t"
    using assms(4,5) max_entries_less [of "hash_bits t" "load_factor_percent t"] by (simp add: sizes_ok_def)
  with assms empty_slot [of t] show ?thesis unfolding probe_ok_def by metis
qed

text \<open>Neither the counter nor the freed payloads bear on the entries.\<close>

lemma HASH_FUNC_fields [simp]: "HASH_FUNC ops k (t\<lparr>h_entries := n\<rparr>) = HASH_FUNC ops k t"
  "HASH_FUNC ops k (t\<lparr>h_freed := fs\<rparr>) = HASH_FUNC ops k t"
  by (simp_all add: HASH_FUNC_def)

lemma probe_ok_fields [simp]: "probe_ok ops (t\<lparr>h_entries := n\<rparr>) = probe_ok ops t"
  "probe_ok ops (t\<lparr>h_freed := fs\<rparr>) = probe_ok ops t"
  by (simp_all add: probe_ok_def table_shape_def reachable_def unique_tags_def)

lemma probe_ok_counter: "probe_ok ops (t\<lparr>h_entries := n, slots := xs\<rparr>) = probe_ok ops (t\<lparr>slots := xs\<rparr>)"
  by (simp add: probe_ok_def table_shape_def reachable_def unique_tags_def HASH_FUNC_def)

lemma content_fields [simp]: "table_content (t\<lparr>h_entries := n\<rparr>) = table_content t" "table_content (t\<lparr>h_freed := fs\<rparr>) = table_content t"
  by (simp_all add: table_content_def)

lemma sizes_ok_fields [simp]: "sizes_ok (t\<lparr>h_entries := n\<rparr>) = sizes_ok t" "sizes_ok (t\<lparr>h_freed := fs\<rparr>) = sizes_ok t"
  "sizes_ok (t\<lparr>slots := xs\<rparr>) = sizes_ok t"
  by (simp_all add: sizes_ok_def)

lemma htab_ok_freed [simp]: "htab_ok ops (t\<lparr>h_freed := fs\<rparr>) = htab_ok ops t"
  by (simp add: htab_ok_def)

lemma tag_absent_fields [simp]: "tag_absent ops k (t\<lparr>h_entries := n\<rparr>) = tag_absent ops k t"
  by (simp add: tag_absent_def)

lemma tag_absent_content:
  "tag_absent ops k t \<longleftrightarrow> (\<forall>k' p. Entry k' p \<in># table_content t \<longrightarrow> \<not> tags_are_equal ops (table_flags t) k' k)"
  by (simp add: tag_absent_def)

text \<open>What an operation leaves alone.\<close>

definition same_table :: "('h, 'k) htab \<Rightarrow> ('h, 'k) htab \<Rightarrow> bool" where
  "same_table t u \<longleftrightarrow> hash_func u = hash_func t \<and> table_flags u = table_flags t \<and>
     load_factor_percent u = load_factor_percent t \<and> h_free_payload u = h_free_payload t \<and> h_freed u = h_freed t"

subsection \<open>Closing the hole of a removed entry\<close>

lemma remove_open_address:
  assumes ok: "probe_ok ops t" and i: "i < ring t" "slots t ! i = Entry k p"
  shows "\<exists>w xs. remove_helper_open_address ops t i = Some (w, t\<lparr>slots := xs\<rparr>) \<and> probe_ok ops (t\<lparr>slots := xs\<rparr>) \<and>
    mset xs = mset ((slots t)[i := Empty]) \<and> (\<not> w \<longrightarrow> upward i (ring t) ((slots t)[i := Empty]) xs) \<and>
    (w \<longrightarrow> (\<exists>e. pulled_across (ring t) i e ((slots t)[i := Empty]) xs))"
proof -
  let ?u = "t\<lparr>slots := (slots t)[i := Empty]\<rparr>"
  have shape: "table_shape t" and reach: "reachable ops t" and uniq: "unique_tags ops t" using ok by (auto simp: probe_ok_def)
  have len: "length (slots t) = Suc (ring t)" using shape by (simp add: table_shape_def)
  have nth: "slots ?u ! x = (if x = i then Empty else slots t ! x)" for x using i len by (simp add: nth_list_update)
  have "unique_tags ops ?u"
    using uniq nth unfolding unique_tags_def by (auto split: if_splits)
  moreover have "\<forall>x < ring ?u. \<forall>k p. slots ?u ! x = Entry k p \<longrightarrow> (\<forall>j < cdist (ring ?u) (HASH_FUNC ops k ?u) x.
      cpos (ring ?u) (HASH_FUNC ops k ?u) j \<noteq> i \<longrightarrow> slots ?u ! cpos (ring ?u) (HASH_FUNC ops k ?u) j \<noteq> Empty)"
    using reach nth unfolding reachable_def by (auto split: if_splits)
  ultimately have inv: "hole_inv ops ?u i 0"
    using table_shape_update [OF shape i(1), of Empty] i(1) nth [of i] unfolding hole_inv_def by auto
  obtain e where e: "e < ring t" "slots t ! e = Empty" using ok by (auto simp: probe_ok_def)
  with i have ne: "e \<noteq> i" by auto
  then have "slots ?u ! e = Empty" "0 < cdist (ring ?u) i e" using e i nth [of e] cdist_0_iff [OF i(1) e(1)] by auto
  from close_hole_correct [OF inv _ this, of False] e i(1) show ?thesis
    by (fastforce simp: remove_helper_open_address_def)
qed

subsection \<open>One call\<close>

lemma table_call_Add:
  "table_call ops (Add (Entry k p)) t = do {
     ASSERT (\<not> TESTFLAG HASHTABLE_READ_ONLY (table_flags t));
     found \<leftarrow> hashtable_lookup_entry ops k t;
     ASSERT (\<not> ENTRY_IS_REAL found);
     (kept, t) \<leftarrow> table_call ops (Check_size 1 0) t;
     hindex \<leftarrow> find_slot t (HASH_FUNC ops k t);
     Some (\<not> kept, t\<lparr>slots := (slots t)[hindex := Entry k p]\<rparr>) }"
  by (subst table_call.simps) simp

lemma table_call_Check:
  "table_call ops (Check_size add_now add_later) t = do {
     ASSERT (\<not> TESTFLAG HASHTABLE_READ_ONLY (table_flags t));
     let entries = h_entries t + (add_now + add_later);
     let t = t\<lparr>h_entries := entries\<rparr>;
     if entries > h_resize_threshold t then do {
       let old_table = slots t;
       let old_entries = entries - add_later;
       hashtable_study ops t (add_now + add_later);
       ASSERT (h_resize_threshold t = load_threshold (HASHTABLE_POW (hash_bits t) + 1) (load_factor_percent t));
       bits \<leftarrow> grow_bits entries (load_factor_percent t) (hash_bits t);
       ASSERT (hash_bits t < bits);
       t \<leftarrow> hashtable_resize (t\<lparr>hash_bits := bits\<rparr>);
       (_, t) \<leftarrow> table_call ops (Rehash old_table) (t\<lparr>h_entries := 0\<rparr>);
       let t = t\<lparr>h_entries := h_entries t + add_now\<rparr>;
       ASSERT (h_entries t = old_entries);
       hashtable_study ops t add_now;
       Some (False, t) }
     else Some (True, t\<lparr>h_entries := entries - add_later\<rparr>) }"
  by (subst table_call.simps) (simp only: hash_call.case)

lemma table_call_Rehash:
  "table_call ops (Rehash []) t = Some (True, t)"
  "table_call ops (Rehash (e # es)) t = do {
     (_, t) \<leftarrow> (if ENTRY_IS_REAL e then table_call ops (Add e) t else Some (True, t));
     table_call ops (Rehash es) t }"
  by (subst table_call.simps, simp)+

context tag_instance begin

lemma study_from_correct:
  assumes ok: "probe_ok ops t" and t: "hash_func t = func" "table_flags t = flags" and cap: "unat (h_capacity t) = Suc (ring t)"
    and n: "n \<le> length (slots t)"
  shows "study_from ops t n (drop n (slots t)) = Some (word_of_nat (length (filter ENTRY_IS_REAL (drop n (slots t)))))"
  using n
proof (induction n rule: inc_induct)
  case (step n)
  have shape: "table_shape t" using ok by (simp add: probe_ok_def)
  have drop: "drop n (slots t) = slots t ! n # drop (Suc n) (slots t)" using step.hyps by (simp add: Cons_nth_drop_Suc)
  show ?case
  proof (cases "slots t ! n")
    case Sentinel
    with shape step.hyps have "n = ring t" by (auto simp: table_shape_def less_Suc_eq)
    with Sentinel drop step.IH cap show ?thesis by simp
  next
    case (Entry k p)
    with shape step.hyps have n: "n < ring t" by (auto simp: table_shape_def less_Suc_eq)
    have "lookup_for_removal ops (Entry k p) t = Some (Some n)" using lookup_hit(2) [OF ok t n Entry tag_refl] .
    with Entry drop step.IH show ?thesis by simp
  qed (use drop step.IH in simp)
qed simp

lemma study_correct:
  assumes "probe_ok ops t" "hash_func t = func" "table_flags t = flags" "sizes_ok t"
    "h_entries t = word_of_nat (size (table_content t)) + inc"
  shows "hashtable_study ops t inc = Some ()"
proof -
  have "unat (h_capacity t) = Suc (ring t)"
    using assms(1,4) unat_HASHTABLE_POW [of "hash_bits t"] by (simp add: probe_ok_def table_shape_def sizes_ok_def)
  from study_from_correct [OF assms(1-3) this, of 0] assms(5) show ?thesis
    by (simp add: hashtable_study_def content_size ASSERT_def)
qed

lemma insert_slot:
  assumes ok: "probe_ok ops t" and t: "hash_func t = func" "table_flags t = flags" and absent: "tag_absent ops k t"
    and room: "size (table_content t) + 1 < ring t"
  shows "\<exists>i. find_slot t (HASH_FUNC ops k t) = Some i \<and> probe_ok ops (t\<lparr>slots := (slots t)[i := Entry k p]\<rparr>) \<and>
    table_content (t\<lparr>slots := (slots t)[i := Entry k p]\<rparr>) = add_mset (Entry k p) (table_content t)"
proof -
  have shape: "table_shape t" using ok by (simp add: probe_ok_def)
  from find_slot_first [OF ok HASH_FUNC_less [OF shape], of ops k] obtain i where
    i: "find_slot t (HASH_FUNC ops k t) = Some i" "i < ring t" "slots t ! i = Empty"
    "\<And>j. j < cdist (ring t) (HASH_FUNC ops k t) i \<Longrightarrow> slots t ! cpos (ring t) (HASH_FUNC ops k t) j \<noteq> Empty" by metis
  let ?u = "t\<lparr>slots := (slots t)[i := Entry k p]\<rparr>"
  have len: "i < length (slots t)" using slots_less [OF shape i(2)] .
  have table_content: "table_content ?u = add_mset (Entry k p) (table_content t)"
    using filter_update [OF len, of ENTRY_IS_REAL "Entry k p"] i(3) by (simp add: table_content_def)
  have "table_shape ?u" using table_shape_update [OF shape i(2)] by simp
  then obtain j where j: "j < ring ?u" "slots ?u ! j = Empty" using empty_slot [of ?u] room table_content by auto
  then have "j \<noteq> i" using len by auto
  with j have "probe_ok ops ?u"
    using absent t tag_sym unfolding tag_absent_def
    by (intro fill_first_empty [OF ok i(2-4), where j = j]) auto
  with i(1) table_content show ?thesis by blast
qed

lemma add_in_place:
  assumes ok: "htab_ok ops t" and t: "hash_func t = func" "table_flags t = flags" and absent: "tag_absent ops k t"
    and room: "size (table_content t) < max_entries (hash_bits t) (load_factor_percent t)"
  shows "\<exists>xs. table_call ops (Add (Entry k p)) t = Some (False, t\<lparr>h_entries := h_entries t + 1, slots := xs\<rparr>) \<and>
    htab_ok ops (t\<lparr>h_entries := h_entries t + 1, slots := xs\<rparr>) \<and>
    filter_mset ENTRY_IS_REAL (mset xs) = add_mset (Entry k p) (table_content t)"
proof -
  let ?u = "t\<lparr>h_entries := h_entries t + 1\<rparr>"
  have probe: "probe_ok ops t" and sizes: "sizes_ok t" and n: "h_entries t = word_of_nat (size (table_content t))"
    using ok by (auto simp: htab_ok_def)
  have b: "hash_bits t \<le> 25" "small_load (hash_bits t) (load_factor_percent t)"
    using probe sizes by (auto simp: probe_ok_def table_shape_def sizes_ok_def)
  have less: "max_entries (hash_bits t) (load_factor_percent t) < ring t" "max_entries (hash_bits t) (load_factor_percent t) < 2 ^ 25"
    using max_entries_less [OF b(2)] max_entries_bound [OF b] by auto
  have thr: "unat (h_resize_threshold t) = max_entries (hash_bits t) (load_factor_percent t)"
    using sizes b unat_load_threshold [of "hash_bits t" "load_factor_percent t"] by (simp add: sizes_ok_def small_load_def)
  have "h_entries t + 1 = word_of_nat (Suc (size (table_content t)))" by (simp add: n)
  also have "unat \<dots> = Suc (size (table_content t))"
    using room less(2) by (simp add: unsigned_of_nat take_bit_nat_eq_self del: of_nat_Suc)
  finally have "h_entries t + (1 + 0) \<le> h_resize_threshold t" using room thr by (simp add: word_le_nat_alt)
  with sizes have check: "table_call ops (Check_size 1 0) t = Some (True, ?u)"
    by (simp add: table_call_Check sizes_ok_def Let_def not_less [symmetric])
  have u: "probe_ok ops ?u" "hash_func ?u = func" "table_flags ?u = flags" "tag_absent ops k ?u" "size (table_content ?u) + 1 < ring ?u"
    using probe t absent room less by simp_all
  from insert_slot [OF u, of p] obtain i where i: "find_slot ?u (HASH_FUNC ops k ?u) = Some i"
    "probe_ok ops (?u\<lparr>slots := (slots ?u)[i := Entry k p]\<rparr>)"
    "table_content (?u\<lparr>slots := (slots ?u)[i := Entry k p]\<rparr>) = add_mset (Entry k p) (table_content ?u)" by blast
  have call: "table_call ops (Add (Entry k p)) t = Some (False, ?u\<lparr>slots := (slots t)[i := Entry k p]\<rparr>)"
    using check i(1) lookup_miss(1) [OF probe t(2) absent] sizes by (simp add: table_call_Add sizes_ok_def)
  have "htab_ok ops (?u\<lparr>slots := (slots t)[i := Entry k p]\<rparr>)"
    using i sizes room n unfolding htab_ok_def by simp
  with call i(3) show ?thesis by (intro exI [of _ "(slots t)[i := Entry k p]"]) simp
qed

end

subsection \<open>Rehashing and resizing\<close>

definition tags_apart :: "('h, 'k) tag_ops \<Rightarrow> u32 \<Rightarrow> 'k slot \<Rightarrow> 'k slot \<Rightarrow> bool" where
  "tags_apart ops flags e e' \<longleftrightarrow> (\<forall>k p k' p'. e = Entry k p \<longrightarrow> e' = Entry k' p' \<longrightarrow> \<not> tags_are_equal ops flags k k')"

lemma unique_tags_apart:
  assumes "table_shape t" "unique_tags ops t"
  shows "sorted_wrt (tags_apart ops (table_flags t)) (slots t)"
  unfolding sorted_wrt_iff_nth_less
proof (intro allI impI)
  fix i j assume *: "i < j" "j < length (slots t)"
  show "tags_apart ops (table_flags t) (slots t ! i) (slots t ! j)"
  proof (cases "j = ring t")
    case True
    with assms(1) show ?thesis by (auto simp: tags_apart_def table_shape_def)
  next
    case False
    with * assms(1) have "i < ring t" "j < ring t" by (auto simp: table_shape_def)
    with assms(2) * show ?thesis unfolding tags_apart_def unique_tags_def by blast
  qed
qed

lemma init_internal_correct:
  assumes b: "0 < b" "b \<le> 25" "offset + 25 \<le> 64" "small_load b load" and flags: "\<not> TESTFLAG HASHTABLE_READ_ONLY (table_flags t)"
  shows "\<exists>v. hashtable_init_internal b load func offset t = Some v \<and> htab_ok ops v \<and> table_content v = {#} \<and> h_entries v = 0 \<and>
    hash_bits v = b \<and> load_factor_percent v = load \<and> hash_func v = func \<and> table_flags v = table_flags t \<and>
    h_free_payload v = h_free_payload t \<and> h_freed v = h_freed t"
proof -
  let ?v = "t\<lparr>hash_bits := b, hash_func := func, hash_mask_offset := offset,
       hash_mask := push_bit offset (BITS_MASK b), h_capacity := HASHTABLE_POW b + 1, h_entries := 0,
       load_factor_percent := load, h_resize_threshold := load_threshold (HASHTABLE_POW b + 1) load,
       slots := (replicate (Suc (2 ^ b)) Empty)[2 ^ b := Sentinel]\<rparr>"
  have cap: "unat (HASHTABLE_POW b + 1) = Suc (2 ^ b)" using unat_HASHTABLE_POW [OF b(2)] by simp
  have "unat (word_of_nat (2 ^ b) :: u32) = 2 ^ b"
    using b(2) by (simp add: unsigned_of_nat take_bit_nat_eq_self del: of_nat_power)
  then have "unat (HASHTABLE_POW b) = 2 ^ b" by (simp add: HASHTABLE_POW_def push_bit_eq_mult)
  then have init: "hashtable_init_internal b load func offset t = Some ?v"
    using b cap by (simp add: hashtable_init_internal_def small_load_def Let_def)
  have nth: "slots ?v ! i = (if i = 2 ^ b then Sentinel else Empty)" if "i < Suc (2 ^ b)" for i
    using that by (simp add: nth_list_update del: replicate_Suc)
  have slots: "slots ?v = replicate (2 ^ b) Empty @ [Sentinel]"
    by (rule nth_equalityI) (auto simp: nth_append nth_list_update less_Suc_eq simp del: replicate_Suc)
  then have table_content: "table_content ?v = {#}" by (simp add: table_content_def)
  have shape: "table_shape ?v" using b nth by (auto simp: table_shape_def simp del: replicate_Suc)
  have sizes: "sizes_ok ?v" using b(4) flags by (simp add: sizes_ok_def)
  have "reachable ops ?v" "unique_tags ops ?v"
    using nth by (auto simp: reachable_def unique_tags_def less_Suc_eq simp del: replicate_Suc)
  then have "probe_ok ops ?v" by (rule probe_okI [OF shape _ _ sizes]) (unfold table_content, simp)
  then have "htab_ok ops ?v" using sizes unfolding htab_ok_def table_content by simp
  with init table_content show ?thesis by (intro exI [of _ ?v]) simp
qed

lemma grow_bits_correct:
  assumes n: "n \<le> max_entries 25 load" "small_load 25 load" and b: "b \<le> 25"
  shows "\<exists>c. grow_bits (word_of_nat n) load b = Some c \<and> b \<le> c \<and> c \<le> 25 \<and> n \<le> max_entries c load"
proof -
  have "n < 2 ^ 25" using max_entries_bound [OF _ n(2)] n(1) by simp
  then have unat_n: "unat (word_of_nat n :: u32) = n" by (simp add: unsigned_of_nat take_bit_nat_eq_self)
  have load: "load < 100" using n(2) by (simp add: small_load_def)
  from b show ?thesis
  proof (induction b rule: inc_induct)
    case base
    have "\<not> word_of_nat n > load_threshold (HASHTABLE_POW 25 + 1) load"
      using n(1) unat_n unat_load_threshold [OF _ load, of 25] by (simp add: word_less_nat_alt)
    with n(1) show ?case by (subst grow_bits.simps) simp
  next
    case (step b)
    have thr: "word_of_nat n > load_threshold (HASHTABLE_POW b + 1) load \<longleftrightarrow> max_entries b load < n"
      using unat_n unat_load_threshold [OF _ load, of b] step.hyps by (simp add: word_less_nat_alt)
    show ?case
    proof (cases "max_entries b load < n")
      case True
      with thr step.IH step.hyps show ?thesis by (subst grow_bits.simps) auto
    next
      case False
      with thr step.hyps show ?thesis by (subst grow_bits.simps) auto
    qed
  qed
qed

context tag_instance begin

lemma rehash_correct:
  assumes "htab_ok ops t" "hash_func t = func" "table_flags t = flags"
    "sorted_wrt (tags_apart ops flags) (filter ENTRY_IS_REAL es)" "\<And>k p. Entry k p \<in> set es \<Longrightarrow> tag_absent ops k t"
    "size (table_content t) + length (filter ENTRY_IS_REAL es) \<le> max_entries (hash_bits t) (load_factor_percent t)"
  shows "\<exists>xs n. table_call ops (Rehash es) t = Some (True, t\<lparr>h_entries := n, slots := xs\<rparr>) \<and>
    htab_ok ops (t\<lparr>h_entries := n, slots := xs\<rparr>) \<and>
    filter_mset ENTRY_IS_REAL (mset xs) = table_content t + mset (filter ENTRY_IS_REAL es)"
  using assms
proof (induction es arbitrary: t)
  case Nil
  have "t\<lparr>h_entries := h_entries t, slots := slots t\<rparr> = t" by simp
  with Nil show ?case
    by (intro exI [of _ "slots t"] exI [of _ "h_entries t"]) (simp add: table_call_Rehash table_content_def)
next
  case (Cons e es)
  show ?case
  proof (cases "ENTRY_IS_REAL e")
    case False
    with Cons.IH [of t] Cons.prems show ?thesis by (auto simp: table_call_Rehash)
  next
    case True
    then obtain k p where e: "e = Entry k p" by (auto simp: ENTRY_IS_REAL_iff)
    have absent: "tag_absent ops k t" using Cons.prems(5) [of k p] e by simp
    have room: "size (table_content t) < max_entries (hash_bits t) (load_factor_percent t)" using Cons.prems(6) e by simp
    from add_in_place [OF Cons.prems(1-3) absent room, of p] obtain xs where
      add: "table_call ops (Add (Entry k p)) t = Some (False, t\<lparr>h_entries := h_entries t + 1, slots := xs\<rparr>)"
      and ok: "htab_ok ops (t\<lparr>h_entries := h_entries t + 1, slots := xs\<rparr>)"
      and table_content: "filter_mset ENTRY_IS_REAL (mset xs) = add_mset (Entry k p) (table_content t)" by blast
    define u where "u = t\<lparr>h_entries := h_entries t + 1, slots := xs\<rparr>"
    have u: "htab_ok ops u" "hash_func u = func" "table_flags u = flags" "table_content u = add_mset (Entry k p) (table_content t)"
      "hash_bits u = hash_bits t" "load_factor_percent u = load_factor_percent t"
      using ok table_content Cons.prems by (simp_all add: u_def)
    have "tag_absent ops k2 u" if "Entry k2 p2 \<in> set es" for k2 p2
    proof -
      have "tags_apart ops flags e (Entry k2 p2)" using Cons.prems(4) True that by auto
      then have "\<not> tags_are_equal ops flags k k2" by (simp add: e tags_apart_def)
      moreover have "tag_absent ops k2 t" using Cons.prems(5) [of k2 p2] that by simp
      ultimately show ?thesis using u Cons.prems(3) by (auto simp: tag_absent_content)
    qed
    moreover have "sorted_wrt (tags_apart ops flags) (filter ENTRY_IS_REAL es)" using Cons.prems(4) True by simp
    moreover have "size (table_content u) + length (filter ENTRY_IS_REAL es) \<le> max_entries (hash_bits u) (load_factor_percent u)"
      using Cons.prems(6) True u by simp
    ultimately obtain ys n where
      "table_call ops (Rehash es) u = Some (True, u\<lparr>h_entries := n, slots := ys\<rparr>)" "htab_ok ops (u\<lparr>h_entries := n, slots := ys\<rparr>)"
      "filter_mset ENTRY_IS_REAL (mset ys) = table_content u + mset (filter ENTRY_IS_REAL es)"
      using Cons.IH [OF u(1-3)] by blast
    with add u(4) e show ?thesis
      by (intro exI [of _ ys] exI [of _ n]) (simp add: table_call_Rehash u_def)
  qed
qed

lemma check_size_correct:
  assumes ok: "htab_ok ops t" and t: "hash_func t = func" "table_flags t = flags"
    and room: "size (table_content t) + unat add_now + unat add_later \<le> max_entries 25 (load_factor_percent t)"
  shows "\<exists>kept u. table_call ops (Check_size add_now add_later) t = Some (kept, u) \<and> probe_ok ops u \<and> sizes_ok u \<and>
    table_content u = table_content t \<and> h_entries u = h_entries t + add_now \<and> same_table t u \<and>
    size (table_content t) + unat add_now + unat add_later \<le> max_entries (hash_bits u) (load_factor_percent u)"
proof -
  let ?n = "size (table_content t) + unat add_now + unat add_later" and ?load = "load_factor_percent t"
  let ?u = "t\<lparr>h_entries := h_entries t + (add_now + add_later)\<rparr>"
  have probe: "probe_ok ops t" and sizes: "sizes_ok t" and entries: "h_entries t = word_of_nat (size (table_content t))"
    using ok by (auto simp: htab_ok_def)
  have b: "0 < hash_bits t" "hash_bits t \<le> 25" "hash_mask_offset t + 25 \<le> 64" "small_load (hash_bits t) ?load"
    and ro: "\<not> TESTFLAG HASHTABLE_READ_ONLY (table_flags t)"
    using probe sizes by (auto simp: probe_ok_def table_shape_def sizes_ok_def)
  have b25: "small_load 25 ?load" using small_load_mono [OF b(2,4)] .
  have "?n < 2 ^ 25" using room max_entries_bound [OF _ b25] by simp
  moreover have sum: "h_entries t + (add_now + add_later) = word_of_nat ?n" by (simp add: entries add.assoc)
  ultimately have n: "unat (h_entries t + (add_now + add_later)) = ?n"
    by (simp only: sum) (simp add: unsigned_of_nat take_bit_nat_eq_self del: of_nat_add)
  have thr: "unat (h_resize_threshold t) = max_entries (hash_bits t) ?load"
    "h_resize_threshold t = load_threshold (HASHTABLE_POW (hash_bits t) + 1) ?load"
    using sizes b unat_load_threshold [of "hash_bits t" ?load] by (simp_all add: sizes_ok_def small_load_def)
  show ?thesis
  proof (cases "?n \<le> max_entries (hash_bits t) ?load")
    case True
    then have "\<not> h_entries t + (add_now + add_later) > h_resize_threshold t" using n thr(1) by (simp add: word_less_nat_alt)
    then have "table_call ops (Check_size add_now add_later) t = Some (True, t\<lparr>h_entries := h_entries t + add_now\<rparr>)"
      using ro by (simp add: table_call_Check Let_def)
    then show ?thesis
      using True probe sizes by (intro exI [of _ True] exI [of _ "t\<lparr>h_entries := h_entries t + add_now\<rparr>"]) (simp add: same_table_def)
  next
    case False
    then have grow: "h_entries t + (add_now + add_later) > h_resize_threshold t" using n thr(1) by (simp add: word_less_nat_alt)
    have study: "hashtable_study ops ?u (add_now + add_later) = Some ()"
      using probe t sizes entries by (intro study_correct) simp_all
    obtain c where c: "grow_bits (h_entries t + (add_now + add_later)) ?load (hash_bits t) = Some c" "hash_bits t \<le> c" "c \<le> 25"
      "?n \<le> max_entries c ?load" using grow_bits_correct [OF room b25 b(2)] sum by auto
    then have bits: "hash_bits t < c" using False by (cases "hash_bits t = c") auto
    have c': "0 < c" "small_load c ?load" using bits small_load_mono [OF c(2) b(4)] by simp_all
    have ro': "\<not> TESTFLAG HASHTABLE_READ_ONLY (table_flags (?u\<lparr>hash_bits := c\<rparr>))" using ro by simp
    from init_internal_correct [OF c'(1) c(3) b(3) c'(2) ro', of "hash_func t" ops] obtain v where
      v: "hashtable_resize (?u\<lparr>hash_bits := c\<rparr>) = Some v" "htab_ok ops v" "table_content v = {#}" "h_entries v = 0"
      "hash_bits v = c" "load_factor_percent v = ?load" "hash_func v = func" "table_flags v = flags"
      "h_free_payload v = h_free_payload t" "h_freed v = h_freed t"
      using t by (auto simp: hashtable_resize_def)
    have v0: "v\<lparr>h_entries := 0\<rparr> = v" using v(4) by (cases v) simp
    have shape: "table_shape t" "unique_tags ops t" using probe by (auto simp: probe_ok_def)
    have sorted: "sorted_wrt (tags_apart ops flags) (filter ENTRY_IS_REAL (slots t))"
      using unique_tags_apart [OF shape] t(2) by (auto intro: sorted_wrt_filter)
    have absent: "tag_absent ops k v" for k using v(3) by (simp add: tag_absent_content)
    have len: "length (filter ENTRY_IS_REAL (slots t)) = size (table_content t)" by (simp add: content_size)
    have "size (table_content v) + length (filter ENTRY_IS_REAL (slots t)) \<le> max_entries (hash_bits v) (load_factor_percent v)"
      using c(4) v by (simp add: len)
    from rehash_correct [OF v(2,7,8) sorted absent this] obtain xs m where
      re: "table_call ops (Rehash (slots t)) v = Some (True, v\<lparr>h_entries := m, slots := xs\<rparr>)"
      "htab_ok ops (v\<lparr>h_entries := m, slots := xs\<rparr>)" "filter_mset ENTRY_IS_REAL (mset xs) = mset (filter ENTRY_IS_REAL (slots t))"
      using v(3) by auto
    have table_content: "filter_mset ENTRY_IS_REAL (mset xs) = table_content t" using re(3) by (simp add: table_content_def)
    then have m: "m = h_entries t" using re(2) entries by (simp add: htab_ok_def)
    let ?w = "v\<lparr>slots := xs, h_entries := h_entries t + add_now\<rparr>"
    have w: "probe_ok ops ?w" "sizes_ok ?w" "table_content ?w = table_content t"
      using re(2) table_content by (auto simp: htab_ok_def probe_ok_counter [where t = v])
    have study': "hashtable_study ops ?w add_now = Some ()"
      using w v entries by (intro study_correct) simp_all
    have "table_call ops (Check_size add_now add_later) t = Some (False, ?w)"
      using grow ro study thr(2) c(1) bits v(1) re(1) study' by (simp add: table_call_Check Let_def v0 m)
    then show ?thesis using w v t c(4) by (intro exI [of _ False] exI [of _ ?w]) (simp add: same_table_def)
  qed
qed

lemma add_entry_correct:
  assumes ok: "htab_ok ops t" and t: "hash_func t = func" "table_flags t = flags" and absent: "tag_absent ops k t"
    and room: "size (table_content t) < max_entries 25 (load_factor_percent t)"
  shows "\<exists>r u. hashtable_add_entry ops (Entry k p) t = Some (r, u) \<and> htab_ok ops u \<and>
    table_content u = add_mset (Entry k p) (table_content t) \<and> same_table t u"
proof -
  have probe: "probe_ok ops t" and sizes: "sizes_ok t" and entries: "h_entries t = word_of_nat (size (table_content t))"
    using ok by (auto simp: htab_ok_def)
  have "size (table_content t) + unat (1 :: u32) + unat (0 :: u32) \<le> max_entries 25 (load_factor_percent t)" using room by simp
  from check_size_correct [OF ok t this] obtain kept u where
    check: "table_call ops (Check_size 1 0) t = Some (kept, u)" and u: "probe_ok ops u" "sizes_ok u" "table_content u = table_content t"
    "h_entries u = h_entries t + 1" "same_table t u" and max: "size (table_content t) + 1 \<le> max_entries (hash_bits u) (load_factor_percent u)"
    by auto
  have u': "hash_func u = func" "table_flags u = flags" "tag_absent ops k u"
    using u t absent by (auto simp: same_table_def tag_absent_content)
  have "size (table_content u) + 1 < ring u"
    using u(2,3) max max_entries_less [of "hash_bits u" "load_factor_percent u"] by (simp add: sizes_ok_def)
  from insert_slot [OF u(1) u' this, of p] obtain i where i: "find_slot u (HASH_FUNC ops k u) = Some i"
    "probe_ok ops (u\<lparr>slots := (slots u)[i := Entry k p]\<rparr>)"
    "table_content (u\<lparr>slots := (slots u)[i := Entry k p]\<rparr>) = add_mset (Entry k p) (table_content u)" by blast
  have "hashtable_add_entry ops (Entry k p) t = Some (\<not> kept, u\<lparr>slots := (slots u)[i := Entry k p]\<rparr>)"
    using check i(1) lookup_miss(1) [OF probe t(2) absent] sizes
    by (simp add: hashtable_add_entry_def table_call_Add sizes_ok_def)
  moreover have "htab_ok ops (u\<lparr>slots := (slots u)[i := Entry k p]\<rparr>)"
    using i u entries max unfolding htab_ok_def by simp
  ultimately show ?thesis using i(3) u(3,5) by (auto simp: same_table_def)
qed

end

end
