(* ===== verification/GenHashMap.thy ===== *)
theory GenHashMap
  imports GenHashOps
begin

text \<open>
  The open-addressing hashtable as a dictionary. Both instances, for 64-bit and for string keys, are
  shown to implement a list of keys and payloads, for every sequence of operations, and to free every payload once.
\<close>

subsection \<open>Removing one entry\<close>

lemma word_of_nat_less_one: "0 < n \<Longrightarrow> word_of_nat n - 1 = (word_of_nat (n - 1) :: 'a::len word)"
  by (cases n) auto

lemma remove_helper_correct:
  assumes ok: "htab_ok ops t" and i: "i < ring t" "slots t ! i = Entry k p"
  shows "\<exists>w xs. hashtable_remove_helper ops t i = Some (w, t\<lparr>slots := xs, h_entries := h_entries t - 1\<rparr>) \<and>
    htab_ok ops (t\<lparr>slots := xs, h_entries := h_entries t - 1\<rparr>) \<and>
    filter_mset ENTRY_IS_REAL (mset xs) = table_content t - {#Entry k p#} \<and>
    (\<not> w \<longrightarrow> upward i (ring t) ((slots t)[i := Empty]) xs) \<and>
    (w \<longrightarrow> (\<exists>e. pulled_across (ring t) i e ((slots t)[i := Empty]) xs))"
proof -
  have probe: "probe_ok ops t" and sizes: "sizes_ok t" and shape: "table_shape t"
    using ok by (auto simp: htab_ok_def probe_ok_def)
  from remove_open_address [OF probe i] obtain w xs where
    rm: "remove_helper_open_address ops t i = Some (w, t\<lparr>slots := xs\<rparr>)" "probe_ok ops (t\<lparr>slots := xs\<rparr>)"
    "mset xs = mset ((slots t)[i := Empty])" "\<not> w \<longrightarrow> upward i (ring t) ((slots t)[i := Empty]) xs"
    "w \<longrightarrow> (\<exists>e. pulled_across (ring t) i e ((slots t)[i := Empty]) xs)" by blast
  have mem: "Entry k p \<in># table_content t" using i slots_less [OF shape i(1)] nth_mem by fastforce
  have "add_mset (Entry k p) (filter_mset ENTRY_IS_REAL (mset xs)) = table_content t"
    using filter_update [OF slots_less [OF shape i(1)], of ENTRY_IS_REAL Empty] i(2) rm(3) by (simp add: table_content_def)
  then have table_content: "filter_mset ENTRY_IS_REAL (mset xs) = table_content t - {#Entry k p#}"
    by (metis add_mset_remove_trivial)
  have pos: "0 < size (table_content t)" using mem by (auto simp: nonempty_has_size [symmetric] simp del: Entry_in_content)
  have "h_entries t = word_of_nat (size (table_content t))" using ok by (simp add: htab_ok_def)
  then have count: "h_entries t - 1 = word_of_nat (size (table_content t - {#Entry k p#}))"
    by (simp only: size_Diff_singleton [OF mem] word_of_nat_less_one [OF pos])
  have "size (table_content t - {#Entry k p#}) \<le> size (table_content t)" unfolding size_Diff_singleton [OF mem] by simp
  with ok rm(2) sizes table_content count have "htab_ok ops (t\<lparr>slots := xs, h_entries := h_entries t - 1\<rparr>)"
    by (simp add: htab_ok_def)
  with rm table_content show ?thesis by (auto simp: hashtable_remove_helper_def)
qed

definition kept_setup :: "('h, 'k) htab \<Rightarrow> ('h, 'k) htab \<Rightarrow> bool" where
  "kept_setup t u \<longleftrightarrow> hash_func u = hash_func t \<and> table_flags u = table_flags t \<and>
     load_factor_percent u = load_factor_percent t \<and> h_free_payload u = h_free_payload t"

lemma kept_setup_refl [simp]: "kept_setup t t"
  by (simp add: kept_setup_def)

lemma kept_setup_trans: "kept_setup t u \<Longrightarrow> kept_setup u v \<Longrightarrow> kept_setup t v"
  by (simp add: kept_setup_def)

text \<open>The payloads that go when entries are freed.\<close>

definition payloads_freed :: "('h, 'k) htab \<Rightarrow> 'k slot multiset \<Rightarrow> u64 multiset" where
  "payloads_freed t es = (if h_free_payload t then image_mset slot_payload es else {#})"

lemma payloads_freed_empty [simp]: "payloads_freed t {#} = {#}"
  by (simp add: payloads_freed_def)

lemma payloads_freed_add: "payloads_freed t (A + B) = payloads_freed t A + payloads_freed t B"
  by (simp add: payloads_freed_def)

lemma payloads_freed_setup: "kept_setup t u \<Longrightarrow> payloads_freed u = payloads_freed t"
  by (simp add: payloads_freed_def kept_setup_def fun_eq_iff)

lemma free_entry_frame [simp]:
  "htab_ok ops (hashtable_free_entry e t) = htab_ok ops t" "table_content (hashtable_free_entry e t) = table_content t"
  "slots (hashtable_free_entry e t) = slots t" "hash_bits (hashtable_free_entry e t) = hash_bits t"
  "h_capacity (hashtable_free_entry e t) = h_capacity t" "h_entries (hashtable_free_entry e t) = h_entries t"
  "kept_setup t (hashtable_free_entry e t)" "h_free_payload (hashtable_free_entry e t) = h_free_payload t"
  by (cases e; simp add: kept_setup_def)+

lemma free_entry_freed:
  "ENTRY_IS_REAL e \<Longrightarrow> mset (h_freed (hashtable_free_entry e t)) = mset (h_freed t) + payloads_freed t {#e#}"
  by (cases e) (auto simp: payloads_freed_def)

lemma free_entries_freed:
  "mset (h_freed (fold hashtable_free_entry es t)) = mset (h_freed t) + payloads_freed t (filter_mset ENTRY_IS_REAL (mset es))"
proof (induction es arbitrary: t)
  case (Cons e es)
  then show ?case by (cases e) (auto simp: payloads_freed_def)
qed simp

context tag_instance begin

lemma remove_key_hit:
  assumes ok: "htab_ok ops t" and t: "hash_func t = func" "table_flags t = flags"
    and e: "Entry k' p \<in># table_content t" "tags_are_equal ops flags k' k"
  shows "\<exists>u. remove_key ops t k = Some (True, u) \<and> htab_ok ops u \<and> table_content u = table_content t - {#Entry k' p#} \<and>
    kept_setup t u \<and> mset (h_freed u) = mset (h_freed t) + payloads_freed t {#Entry k' p#}"
proof -
  have probe: "probe_ok ops t" "table_shape t" and ro: "\<not> TESTFLAG HASHTABLE_READ_ONLY (table_flags t)"
    using ok by (auto simp: htab_ok_def probe_ok_def sizes_ok_def)
  obtain i where i: "i < ring t" "slots t ! i = Entry k' p" using entry_index [OF probe(2)] e(1) by (metis Entry_in_content)
  have found: "hashtable_lookup_entry ops k t = Some (Entry k' p)" using lookup_hit(1) [OF probe(1) t i e(2)] .
  have index: "lookup_for_removal ops (Entry k' p) t = Some (Some i)" using lookup_hit(2) [OF probe(1) t i tag_refl] .
  from remove_helper_correct [OF ok i] obtain w xs where
    rm: "hashtable_remove_helper ops t i = Some (w, t\<lparr>slots := xs, h_entries := h_entries t - 1\<rparr>)"
    "htab_ok ops (t\<lparr>slots := xs, h_entries := h_entries t - 1\<rparr>)"
    "filter_mset ENTRY_IS_REAL (mset xs) = table_content t - {#Entry k' p#}" by blast
  let ?u = "t\<lparr>slots := xs, h_entries := h_entries t - 1\<rparr>"
  have "remove_key ops t k = Some (True, hashtable_free_entry (Entry k' p) ?u)"
    using found index rm(1) ro by (simp add: remove_key_def hashtable_remove_entry_def)
  moreover have kept: "kept_setup t ?u" by (simp add: kept_setup_def)
  moreover have "mset (h_freed (hashtable_free_entry (Entry k' p) ?u)) = mset (h_freed t) + payloads_freed t {#Entry k' p#}"
    using payloads_freed_setup [OF kept] by (subst free_entry_freed) auto
  moreover have "table_content (hashtable_free_entry (Entry k' p) ?u) = table_content t - {#Entry k' p#}" using rm(3) by (simp only: free_entry_frame) simp
  ultimately show ?thesis using rm(2) kept_setup_trans [OF kept free_entry_frame(7)]
    by (intro exI [of _ "hashtable_free_entry (Entry k' p) ?u"]) (simp del: hashtable_free_entry.simps)
qed

lemma remove_key_miss:
  assumes "htab_ok ops t" "hash_func t = func" "table_flags t = flags" "tag_absent ops k t"
  shows "remove_key ops t k = Some (False, t)"
  using assms lookup_miss(1) [of t k] by (simp add: remove_key_def htab_ok_def)

end

subsection \<open>Removing a range\<close>

fun range_hit :: "u64 \<Rightarrow> u64 \<Rightarrow> (u64 slot \<Rightarrow> bool) option \<Rightarrow> u64 slot \<Rightarrow> bool" where
  "range_hit start fin filt (Entry k p) \<longleftrightarrow> start \<le> k \<and> k < fin \<and> (case filt of None \<Rightarrow> True | Some f \<Rightarrow> f (Entry k p))"
| "range_hit start fin filt _ \<longleftrightarrow> False"

lemma no_hits:
  assumes "table_shape t" "\<And>x. x < ring t \<Longrightarrow> \<not> range_hit a b filt (slots t ! x)"
  shows "filter_mset (range_hit a b filt) (table_content t) = {#}"
proof -
  have "\<not> range_hit a b filt e" if e: "e \<in># table_content t" for e
  proof
    assume *: "range_hit a b filt e"
    then obtain k p where "e = Entry k p" by (cases e) auto
    with e entry_index [OF assms(1)] * assms(2) show False by (metis Entry_in_content)
  qed
  then show ?thesis by (simp add: filter_mset_eq_conv)
qed

lemma range_remove_from_miss:
  assumes "table_shape t" "0 \<le> i" "nat i < ring t" "\<not> range_hit a b filt (slots t ! nat i)"
  shows "range_remove_from ops a b filt t i removed = range_remove_from ops a b filt t (i - 1) removed"
  by (rule slot_cases [OF assms(1,3)]; subst range_remove_from.simps) (use assms in \<open>auto split: option.splits\<close>)

lemma range_remove_from_hit:
  assumes "0 \<le> i" "slots t ! nat i = e" "range_hit a b filt e" "hashtable_remove_helper ops t (nat i) = Some (w, u)"
  shows "range_remove_from ops a b filt t i removed = range_remove_from ops a b filt (hashtable_free_entry e u)
    (if w then int (unat (h_capacity u)) - 2 else i) (removed + 1)"
  by (cases e; subst range_remove_from.simps) (use assms in auto)

text \<open>When no chain was pulled across the end, no hit is missed above the index.\<close>

lemma range_remove_from_correct:
  assumes "htab_ok ops t" "- 1 \<le> i" "i < int (ring t)"
    "\<And>x. x < ring t \<Longrightarrow> i < int x \<Longrightarrow> \<not> range_hit a b filt (slots t ! x)"
  shows "\<exists>u. range_remove_from ops a b filt t i removed =
      Some (removed + word_of_nat (size (filter_mset (range_hit a b filt) (table_content t))), u) \<and> htab_ok ops u \<and>
    table_content u = filter_mset (\<lambda>e. \<not> range_hit a b filt e) (table_content t) \<and> kept_setup t u \<and>
    mset (h_freed u) = mset (h_freed t) + payloads_freed t (filter_mset (range_hit a b filt) (table_content t))"
  using assms
proof (induction "size (filter_mset (range_hit a b filt) (table_content t)) * (ring t + 1) + nat (i + 1)"
    arbitrary: t i removed rule: less_induct)
  case (less t i removed)
  let ?H = "\<lambda>t. filter_mset (range_hit a b filt) (table_content t)" and ?N = "ring t"
  have shape: "table_shape t" and cap: "h_capacity t = HASHTABLE_POW (hash_bits t) + 1" "hash_bits t \<le> 25"
    using less.prems(1) by (auto simp: htab_ok_def probe_ok_def sizes_ok_def table_shape_def)
  consider "i = - 1" | "0 \<le> i" "\<not> range_hit a b filt (slots t ! nat i)" | "0 \<le> i" "range_hit a b filt (slots t ! nat i)"
    using less.prems(2) by fastforce
  then show ?case
  proof cases
    case 1
    then have none: "?H t = {#}" using less.prems(4) by (intro no_hits [OF shape]) auto
    then have "filter_mset (\<lambda>e. \<not> range_hit a b filt e) (table_content t) = table_content t"
      by (auto simp: filter_mset_eq_conv)
    with 1 less.prems(1) show ?thesis unfolding none by (subst range_remove_from.simps) simp
  next
    case 2
    have "\<not> range_hit a b filt (slots t ! x)" if "x < ?N" "i - 1 < int x" for x
      using less.prems(4) [of x] that 2 by (cases "i = int x") auto
    with less.hyps [of t "i - 1" removed] less.prems 2 range_remove_from_miss [OF shape 2(1) _ 2(2)]
    show ?thesis by (simp add: nat_diff_distrib)
  next
    case 3
    then obtain k p where e: "slots t ! nat i = Entry k p" by (cases "slots t ! nat i") auto
    have i: "nat i < ?N" using 3 less.prems(3) by linarith
    from remove_helper_correct [OF less.prems(1) i e] obtain w xs where
      rm: "hashtable_remove_helper ops t (nat i) = Some (w, t\<lparr>slots := xs, h_entries := h_entries t - 1\<rparr>)"
      "htab_ok ops (t\<lparr>slots := xs, h_entries := h_entries t - 1\<rparr>)"
      "filter_mset ENTRY_IS_REAL (mset xs) = table_content t - {#Entry k p#}"
      "\<not> w \<longrightarrow> upward (nat i) ?N ((slots t)[nat i := Empty]) xs" by blast
    define v where "v = t\<lparr>slots := xs, h_entries := h_entries t - 1\<rparr>"
    define u where "u = hashtable_free_entry (Entry k p) v"
    define i' where "i' = (if w then int (unat (h_capacity v)) - 2 else i)"
    have v: "kept_setup t v" "table_content v = table_content t - {#Entry k p#}" "h_freed v = h_freed t" "slots v = xs"
      using rm(3) by (simp_all add: v_def kept_setup_def)
    have u: "htab_ok ops u" "table_content u = table_content t - {#Entry k p#}" "ring u = ?N" "slots u = xs" "kept_setup t u"
      using rm(2) v kept_setup_trans [OF v(1)] by (simp_all add: u_def v_def del: hashtable_free_entry.simps)
    have freed: "mset (h_freed u) = mset (h_freed t) + payloads_freed t {#Entry k p#}"
      using free_entry_freed [of "Entry k p" v] v(3) payloads_freed_setup [OF v(1)] by (simp add: u_def del: hashtable_free_entry.simps)
    have mem: "Entry k p \<in># table_content t" using e i slots_less [OF shape i] nth_mem by fastforce
    then obtain C where C: "table_content t = add_mset (Entry k p) C" by (metis multi_member_split)
    have hit: "range_hit a b filt (Entry k p)" using 3 e by simp
    have step: "range_remove_from ops a b filt t i removed = range_remove_from ops a b filt u i' (removed + 1)"
      using range_remove_from_hit [OF 3(1) e hit rm(1)] by (simp add: u_def v_def i'_def)
    have i': "- 1 \<le> i'" "i' < int (ring u)" "nat (i' + 1) \<le> ?N"
      using 3 less.prems(3) unat_HASHTABLE_POW [OF cap(2)] u(3) by (auto simp: i'_def v_def cap(1))
    have above: "\<not> range_hit a b filt (slots u ! x)" if x: "x < ring u" "i' < int x" for x
    proof (cases w)
      case True
      with unat_HASHTABLE_POW [OF cap(2)] have "i' = int (ring t) - 1" by (simp add: i'_def v_def cap(1))
      moreover have "int x < int (ring t)" using x(1) by (simp only: u(3) of_nat_less_iff)
      ultimately show ?thesis using x(2) by linarith
    next
      case False
      then have "nat i \<le> x" using x(2) by (simp add: i'_def)
      with False rm(4) x(1) u(3) obtain y where y: "nat i \<le> y" "y < ?N" "xs ! x = (slots t)[nat i := Empty] ! y"
        unfolding upward_def by auto
      with less.prems(4) [of y] 3(1) slots_less [OF shape i] show ?thesis by (cases "y = nat i") (auto simp: u(4))
    qed
    have parts: "?H t = add_mset (Entry k p) (?H u)"
      "filter_mset (\<lambda>e. \<not> range_hit a b filt e) (table_content t) = filter_mset (\<lambda>e. \<not> range_hit a b filt e) (table_content u)"
      using hit unfolding C u(2) by simp_all
    then have "size (?H t) = Suc (size (?H u))" by simp
    then have "size (?H u) * (ring u + 1) + nat (i' + 1) < size (?H t) * (?N + 1) + nat (i + 1)"
      using i'(3) by (simp only: u(3) mult_Suc)
    from less.hyps [OF this u(1) i'(1,2) above, of "removed + 1"] obtain z where
      "range_remove_from ops a b filt u i' (removed + 1) = Some (removed + 1 + word_of_nat (size (?H u)), z)" "htab_ok ops z"
      "table_content z = filter_mset (\<lambda>e. \<not> range_hit a b filt e) (table_content u)" "kept_setup u z"
      "mset (h_freed z) = mset (h_freed u) + payloads_freed u (?H u)" by auto
    moreover have "payloads_freed t (?H t) = payloads_freed t {#Entry k p#} + payloads_freed u (?H u)"
      unfolding parts(1) payloads_freed_setup [OF u(5)] using payloads_freed_add [of t "{#Entry k p#}" "?H u"] by simp
    moreover have "removed + word_of_nat (size (?H t)) = removed + 1 + word_of_nat (size (?H u))" unfolding parts(1) by simp
    ultimately show ?thesis using kept_setup_trans [OF u(5)] by (intro exI [of _ z]) (simp only: step freed parts(2) add.assoc simp_thms)
  qed
qed

lemma range_remove_correct:
  assumes "tag_instance ops (hash_func t) (table_flags t)" "htab_ok ops t"
  shows "\<exists>u. hashtable_range_remove ops a b filt t =
      Some (word_of_nat (size (filter_mset (range_hit a b filt) (table_content t))), u) \<and> htab_ok ops u \<and>
    table_content u = filter_mset (\<lambda>e. \<not> range_hit a b filt e) (table_content t) \<and> kept_setup t u \<and>
    mset (h_freed u) = mset (h_freed t) + payloads_freed t (filter_mset (range_hit a b filt) (table_content t))"
proof -
  have ok: "probe_ok ops t" "sizes_ok t" "h_entries t = word_of_nat (size (table_content t)) + 0" "\<not> TESTFLAG HASHTABLE_READ_ONLY (table_flags t)"
    "hash_bits t \<le> 25" "h_capacity t = HASHTABLE_POW (hash_bits t) + 1"
    using assms(2) by (auto simp: htab_ok_def probe_ok_def table_shape_def sizes_ok_def)
  have last: "int (unat (h_capacity t)) - 2 = int (ring t) - 1"
    using unat_HASHTABLE_POW [OF ok(5)] by (simp add: ok(6))
  have study: "hashtable_study ops t 0 = Some ()"
    using tag_instance.study_correct [OF assms(1) ok(1) refl refl ok(2,3)] .
  have "\<not> range_hit a b filt (slots t ! x)" if "x < ring t" "int (ring t) - 1 < int x" for x
    using that by linarith
  moreover have "- 1 \<le> int (ring t) - 1" "int (ring t) - 1 < int (ring t)" by linarith+
  ultimately obtain u where
    u: "range_remove_from ops a b filt t (int (ring t) - 1) 0 =
      Some (word_of_nat (size (filter_mset (range_hit a b filt) (table_content t))), u)" "htab_ok ops u"
    "table_content u = filter_mset (\<lambda>e. \<not> range_hit a b filt e) (table_content t)" "kept_setup t u"
    "mset (h_freed u) = mset (h_freed t) + payloads_freed t (filter_mset (range_hit a b filt) (table_content t))"
    using range_remove_from_correct [OF assms(2), of "int (ring t) - 1" a b filt 0] by auto
  have "size (table_content t) = size (table_content u) + size (filter_mset (range_hit a b filt) (table_content t))"
    unfolding u(3) by (metis add.commute multiset_partition size_union)
  then have "h_entries t = h_entries u + word_of_nat (size (filter_mset (range_hit a b filt) (table_content t)))"
    using u(2) ok(3) by (simp add: htab_ok_def)
  then have "hashtable_range_remove ops a b filt t =
      Some (word_of_nat (size (filter_mset (range_hit a b filt) (table_content t))), u)"
    using study u(1) [folded last] ok(4) by (simp add: hashtable_range_remove_def)
  with u show ?thesis by blast
qed

end
