(* ===== verification/GenHashProps.thy ===== *)
theory GenHashProps
  imports GenHashMap
begin

text \<open>
  The two instances of the open-addressing hashtable against a list of keys and payloads: for every sequence of
  commands the list allows, the table gives the same answers, its entries are those of the list, and when it is
  destroyed every payload it was given has been freed once.
\<close>

subsection \<open>The dictionary\<close>

datatype 'k table_cmd = Put 'k u64 | Drop 'k | Get 'k | Drop_all

datatype table_out = Done | Payload u64 | Removed nat

text \<open>The state of the specification: the entries, and the payloads handed over so far.\<close>

type_synonym 'k dict = "('k \<times> u64) list \<times> u64 list"

definition dict_find :: "('k \<Rightarrow> 'k \<Rightarrow> bool) \<Rightarrow> 'k \<Rightarrow> ('k \<times> u64) list \<Rightarrow> ('k \<times> u64) option" where
  "dict_find eq k m = List.find (\<lambda>e. eq (fst e) k) m"

text \<open>A key is put only when it is new and there is room.\<close>

fun dict_step :: "('k \<Rightarrow> 'k \<Rightarrow> bool) \<Rightarrow> nat \<Rightarrow> 'k table_cmd \<Rightarrow> 'k dict \<Rightarrow> (table_out \<times> 'k dict) option" where
  "dict_step eq limit (Put k p) (m, given) =
     (if dict_find eq k m = None \<and> length m < limit then Some (Done, (k, p) # m, p # given) else None)"
| "dict_step eq limit (Drop k) (m, given) = (case dict_find eq k m of
     None \<Rightarrow> Some (Removed 0, m, given)
   | Some e \<Rightarrow> Some (Removed 1, remove1 e m, given))"
| "dict_step eq limit (Get k) (m, given) =
     Some (Payload (case dict_find eq k m of None \<Rightarrow> 0 | Some e \<Rightarrow> snd e), m, given)"
| "dict_step eq limit Drop_all (m, given) = Some (Done, [], given)"

fun table_step :: "('h, 'k) tag_ops \<Rightarrow> 'k table_cmd \<Rightarrow> ('h, 'k) htab \<Rightarrow> (table_out \<times> ('h, 'k) htab) option" where
  "table_step ops (Put k p) t = do { (_, t) \<leftarrow> hashtable_add_entry ops (Entry k p) t; Some (Done, t) }"
| "table_step ops (Drop k) t = do { (removed, t) \<leftarrow> remove_key ops t k; Some (Removed (of_bool removed), t) }"
| "table_step ops (Get k) t = do { e \<leftarrow> hashtable_lookup_entry ops k t; Some (Payload (slot_payload e), t) }"
| "table_step ops Drop_all t = do { t \<leftarrow> hashtable_clear_entries t; Some (Done, t) }"

fun run_cmds :: "('c \<Rightarrow> 's \<Rightarrow> ('o \<times> 's) option) \<Rightarrow> 'c list \<Rightarrow> 's \<Rightarrow> ('o list \<times> 's) option" where
  "run_cmds step [] s = Some ([], s)"
| "run_cmds step (c # cs) s = do {
     (out, s) \<leftarrow> step c s;
     (outs, s) \<leftarrow> run_cmds step cs s;
     Some (out # outs, s) }"

text \<open>What it takes for one kind of state to stand for another through every command.\<close>

locale command_refinement =
  fixes impl :: "'c \<Rightarrow> 's \<Rightarrow> ('o \<times> 's) option" and spec :: "'c \<Rightarrow> 'a \<Rightarrow> ('o \<times> 'a) option" and view :: "'s \<Rightarrow> 'a \<Rightarrow> bool"
  assumes step: "view s a \<Longrightarrow> spec c a = Some (out, a') \<Longrightarrow> \<exists>s'. impl c s = Some (out, s') \<and> view s' a'"
begin

lemma run:
  "view s a \<Longrightarrow> run_cmds spec cs a = Some (outs, a') \<Longrightarrow> \<exists>s'. run_cmds impl cs s = Some (outs, s') \<and> view s' a'"
proof (induction cs arbitrary: s a outs)
  case (Cons c cs)
  from Cons.prems(2) obtain out b outs' where
    b: "spec c a = Some (out, b)" "run_cmds spec cs b = Some (outs', a')" "outs = out # outs'"
    by (auto split: Option.bind_splits)
  from step [OF Cons.prems(1) b(1)] obtain s1 where "impl c s = Some (out, s1)" "view s1 b" by blast
  with Cons.IH [of s1 b outs'] b show ?case by fastforce
qed simp

end

subsection \<open>One command\<close>

definition dict_entries :: "('k \<times> u64) list \<Rightarrow> 'k slot multiset" where
  "dict_entries m = mset (map (\<lambda>(k, p). Entry k p) m)"

definition dict_view :: "('h, 'k) tag_ops \<Rightarrow> 'h \<Rightarrow> u32 \<Rightarrow> u32 \<Rightarrow> bool \<Rightarrow> ('h, 'k) htab \<Rightarrow> 'k dict \<Rightarrow> bool" where
  "dict_view ops func flags load free t d \<longleftrightarrow> htab_ok ops t \<and> hash_func t = func \<and> table_flags t = flags \<and>
     load_factor_percent t = load \<and> h_free_payload t = free \<and> table_content t = dict_entries (fst d) \<and>
     mset (h_freed t) + payloads_freed t (table_content t) = (if free then mset (snd d) else {#})"

lemma Entry_in_dict [simp]: "Entry k p \<in># dict_entries m \<longleftrightarrow> (k, p) \<in> set m"
  by (auto simp: dict_entries_def)

lemma size_dict [simp]: "size (dict_entries m) = length m"
  by (simp add: dict_entries_def)

lemma dict_find_Some: "dict_find eq k m = Some (k', p) \<Longrightarrow> (k', p) \<in> set m \<and> eq k' k"
  unfolding dict_find_def find_Some_iff by (metis fst_conv nth_mem)

lemma dict_find_None: "dict_find eq k m = None \<longleftrightarrow> (\<forall>(k', p) \<in> set m. \<not> eq k' k)"
  by (auto simp: dict_find_def find_None_iff)

lemma dict_remove1: "(k, p) \<in> set m \<Longrightarrow> dict_entries (remove1 (k, p) m) = dict_entries m - {#Entry k p#}"
  by (simp add: dict_entries_def image_mset_Diff)

lemma dict_view_update:
  assumes "dict_view ops func flags load free t (m, given)" "htab_ok ops u" "table_content u = dict_entries m'" "kept_setup t u"
    "mset (h_freed u) + payloads_freed t (table_content u) =
       mset (h_freed t) + payloads_freed t (table_content t) + (if free then mset given' - mset given else {#})"
    "mset given \<subseteq># mset given'"
  shows "dict_view ops func flags load free u (m', given')"
  using assms payloads_freed_setup [OF assms(4)] by (auto simp: dict_view_def kept_setup_def split: if_splits)

lemma clear_correct:
  assumes "htab_ok ops t"
  shows "\<exists>u. hashtable_clear_entries t = Some u \<and> htab_ok ops u \<and> table_content u = {#} \<and> kept_setup t u \<and>
    mset (h_freed u) = mset (h_freed t) + payloads_freed t (table_content t)"
proof -
  let ?f = "fold hashtable_free_entry (slots t) t"
  let ?u = "?f\<lparr>slots := replicate (length (slots t)) Empty, h_entries := 0\<rparr>"
  have frame: "hash_bits (fold hashtable_free_entry es s) = hash_bits s \<and> hash_mask (fold hashtable_free_entry es s) = hash_mask s \<and>
    hash_mask_offset (fold hashtable_free_entry es s) = hash_mask_offset s \<and> sizes_ok (fold hashtable_free_entry es s) = sizes_ok s \<and>
    kept_setup s (fold hashtable_free_entry es s)" for es and s :: "('h, 'k) htab"
  proof (induction es arbitrary: s)
    case (Cons e es)
    then show ?case using kept_setup_trans [OF free_entry_frame(7)] by (cases e) (auto simp: kept_setup_def)
  qed simp
  have t: "table_shape t" "sizes_ok t" "\<not> TESTFLAG HASHTABLE_READ_ONLY (table_flags t)"
    using assms by (auto simp: htab_ok_def probe_ok_def sizes_ok_def)
  have shape: "table_shape ?u" using t(1) frame [of "slots t" t] by (simp add: table_shape_def del: replicate_Suc)
  have empty: "slots ?u ! i = Empty" if "i < ring ?u" for i
    using that t(1) frame [of "slots t" t] by (simp add: table_shape_def del: replicate_Suc)
  have table_content: "table_content ?u = {#}" by simp
  have sizes: "sizes_ok ?u" using t(2) frame [of "slots t" t] by simp
  have "reachable ops ?u" "unique_tags ops ?u" using empty by (auto simp: reachable_def unique_tags_def)
  then have "probe_ok ops ?u" by (rule probe_okI [OF shape _ _ sizes]) (unfold table_content, simp)
  then have "htab_ok ops ?u" using sizes unfolding htab_ok_def table_content by simp
  moreover have "hashtable_clear_entries t = Some ?u" using t(3) by (simp add: hashtable_clear_entries_def)
  moreover have "kept_setup t ?u" using frame [of "slots t" t] by (simp add: kept_setup_def)
  moreover have "mset (h_freed ?u) = mset (h_freed t) + payloads_freed t (table_content t)"
    using free_entries_freed [of "slots t" t] by (simp add: table_content_def)
  ultimately show ?thesis using table_content by blast
qed

context tag_instance begin

lemma step_refines:
  assumes view: "dict_view ops func flags load free t (m, given)"
    and spec: "dict_step (tags_are_equal ops flags) (max_entries 25 load) c (m, given) = Some (out, d)"
  shows "\<exists>u. table_step ops c t = Some (out, u) \<and> dict_view ops func flags load free u d"
proof -
  have t: "htab_ok ops t" "hash_func t = func" "table_flags t = flags" "load_factor_percent t = load"
    "table_content t = dict_entries m" "h_free_payload t = free"
    using view by (simp_all add: dict_view_def)
  have probe: "probe_ok ops t" "table_shape t" using t(1) by (auto simp: htab_ok_def probe_ok_def)
  have absent: "tag_absent ops k t" if "dict_find (tags_are_equal ops flags) k m = None" for k
    using that by (auto simp: tag_absent_content t dict_find_None)
  show ?thesis
  proof (cases c)
    case (Put k p)
    with spec have c: "dict_find (tags_are_equal ops flags) k m = None" "length m < max_entries 25 load"
      "out = Done" "d = ((k, p) # m, p # given)" by (auto split: if_splits)
    have "size (table_content t) < max_entries 25 (load_factor_percent t)" using c(2) by (simp add: t)
    from add_entry_correct [OF t(1-3) absent [OF c(1)] this, of p] obtain r u where
      u: "hashtable_add_entry ops (Entry k p) t = Some (r, u)" "htab_ok ops u" "table_content u = add_mset (Entry k p) (table_content t)"
      "same_table t u" by blast
    have "dict_view ops func flags load free u ((k, p) # m, p # given)"
      by (rule dict_view_update [OF view u(2)])
        (use u t in \<open>auto simp: same_table_def kept_setup_def dict_entries_def payloads_freed_def\<close>)
    with u(1) Put c show ?thesis by simp
  next
    case (Drop k)
    show ?thesis
    proof (cases "dict_find (tags_are_equal ops flags) k m")
      case None
      with Drop spec view remove_key_miss [OF t(1-3) absent [OF None]] show ?thesis by auto
    next
      case (Some e)
      obtain k' p where e: "e = (k', p)" by force
      have c: "(k', p) \<in> set m" "tags_are_equal ops flags k' k" using dict_find_Some [OF Some [unfolded e]] by auto
      then have mem: "Entry k' p \<in># table_content t" by (simp only: t Entry_in_dict)
      from remove_key_hit [OF t(1-3) mem c(2)] obtain u where
        u: "remove_key ops t k = Some (True, u)" "htab_ok ops u" "table_content u = table_content t - {#Entry k' p#}" "kept_setup t u"
        "mset (h_freed u) = mset (h_freed t) + payloads_freed t {#Entry k' p#}" by blast
      have "payloads_freed t (table_content t) = payloads_freed t {#Entry k' p#} + payloads_freed t (table_content u)"
        using payloads_freed_add [of t "{#Entry k' p#}" "table_content u"] mem u(3) by (simp del: Entry_in_content)
      then have "dict_view ops func flags load free u (remove1 (k', p) m, given)"
        by (intro dict_view_update [OF view u(2) _ u(4)]) (simp_all add: u(3,5) t dict_remove1 [OF c(1)] add.assoc)
      with u(1) Drop spec Some e show ?thesis by auto
    qed
  next
    case (Get k)
    show ?thesis
    proof (cases "dict_find (tags_are_equal ops flags) k m")
      case None
      with Get spec view lookup_miss(1) [OF probe(1) t(3) absent [OF None]] show ?thesis by auto
    next
      case (Some e)
      obtain k' p where e: "e = (k', p)" by force
      have c: "(k', p) \<in> set m" "tags_are_equal ops flags k' k" using dict_find_Some [OF Some [unfolded e]] by auto
      then have "Entry k' p \<in># table_content t" by (simp only: t Entry_in_dict)
      then obtain i where i: "i < ring t" "slots t ! i = Entry k' p"
        using entry_index [OF probe(2)] by (metis Entry_in_content)
      from lookup_hit(1) [OF probe(1) t(2,3) i c(2)] Get spec view Some e show ?thesis by auto
    qed
  next
    case Drop_all
    from clear_correct [OF t(1)] obtain u where
      u: "hashtable_clear_entries t = Some u" "htab_ok ops u" "table_content u = {#}" "kept_setup t u"
      "mset (h_freed u) = mset (h_freed t) + payloads_freed t (table_content t)" by blast
    have "dict_view ops func flags load free u ([], given)"
      by (rule dict_view_update [OF view u(2) _ u(4)]) (simp_all add: u(3,5) dict_entries_def)
    with u(1) Drop_all spec show ?thesis by simp
  qed
qed

end

lemma create_correct:
  assumes "0 < bits" "bits \<le> 25" "small_load bits load" "\<not> TESTFLAG HASHTABLE_READ_ONLY flags"
    "global \<longrightarrow> TESTFLAG HASHTABLE_SHARED flags"
  shows "\<exists>t. htab_init global bits load func 0 flags free = Some t \<and> dict_view ops func flags load free t ([], [])"
proof -
  let ?t = "\<lparr>hash_mask = 0, slots = [], hash_bits = 0, hash_func = func, hash_mask_offset = 0, h_capacity = 0, h_entries = 0,
       load_factor_percent = 0, h_resize_threshold = 0, table_flags = flags, h_free_payload = free, h_freed = []\<rparr>"
  have "\<not> TESTFLAG HASHTABLE_READ_ONLY (table_flags ?t)" using assms(4) by simp
  from init_internal_correct [OF assms(1,2) _ assms(3) this, of 0 func ops] assms(5) show ?thesis
    by (auto simp: htab_init_def dict_view_def dict_entries_def)
qed

subsection \<open>Tables with 64-bit keys\<close>

interpretation generic: tag_instance generic_ops func flags for func flags
  by unfold_locales (auto simp: generic_ops_def)

datatype generic_cmd = Basic "u64 table_cmd" | Drop_range u64 u64

fun generic_step :: "generic_cmd \<Rightarrow> generic_table \<Rightarrow> (table_out \<times> generic_table) option" where
  "generic_step (Basic (Put k p)) t = do { t \<leftarrow> generic_hash_add t k p; Some (Done, t) }"
| "generic_step (Basic (Drop k)) t = do { (removed, t) \<leftarrow> generic_hash_remove t k; Some (Removed (of_bool removed), t) }"
| "generic_step (Basic (Get k)) t = do { p \<leftarrow> generic_hash_lookup t k; Some (Payload p, t) }"
| "generic_step (Basic Drop_all) t = do { t \<leftarrow> generic_hash_clear t; Some (Done, t) }"
| "generic_step (Drop_range start fin) t = do {
     (n, t) \<leftarrow> generic_hash_range_remove t start fin;
     Some (Removed (unat n), t) }"

definition dict_in_range :: "u64 \<Rightarrow> u64 \<Rightarrow> u64 \<times> u64 \<Rightarrow> bool" where
  "dict_in_range start fin e \<longleftrightarrow> start \<le> fst e \<and> fst e < fin"

fun generic_dict_step :: "nat \<Rightarrow> generic_cmd \<Rightarrow> u64 dict \<Rightarrow> (table_out \<times> u64 dict) option" where
  "generic_dict_step limit (Basic c) d = dict_step (=) limit c d"
| "generic_dict_step limit (Drop_range start fin) (m, given) =
     Some (Removed (length (filter (dict_in_range start fin) m)), filter (\<lambda>e. \<not> dict_in_range start fin e) m, given)"

lemma generic_step_Basic: "generic_step (Basic c) t = table_step generic_ops c t"
  by (cases c) (simp_all add: generic_hash_add_def generic_hash_remove_def generic_hash_lookup_def generic_hash_clear_def
    Let_def case_prod_unfold)

lemma range_hit_dict:
  "filter_mset (range_hit a b None) (dict_entries m) = dict_entries (filter (dict_in_range a b) m)"
  "filter_mset (\<lambda>e. \<not> range_hit a b None e) (dict_entries m) = dict_entries (filter (\<lambda>e. \<not> dict_in_range a b e) m)"
  by (induction m) (auto simp: dict_entries_def dict_in_range_def)

lemma generic_range_refines:
  assumes view: "dict_view generic_ops func flags load free t (m, given)"
  shows "\<exists>u. generic_step (Drop_range a b) t = Some (Removed (length (filter (dict_in_range a b) m)), u) \<and>
    dict_view generic_ops func flags load free u (filter (\<lambda>e. \<not> dict_in_range a b e) m, given)"
proof -
  let ?hit = "filter (dict_in_range a b) m" and ?rest = "filter (\<lambda>e. \<not> dict_in_range a b e) m"
  have t: "htab_ok generic_ops t" "table_content t = dict_entries m" "table_shape t" "sizes_ok t"
    using view by (auto simp: dict_view_def htab_ok_def probe_ok_def)
  from range_remove_correct [OF generic.tag_instance_axioms t(1), of a b None] obtain u where
    u: "hashtable_range_remove generic_ops a b None t = Some (word_of_nat (length ?hit), u)" "htab_ok generic_ops u"
    "table_content u = dict_entries ?rest" "kept_setup t u" "mset (h_freed u) = mset (h_freed t) + payloads_freed t (dict_entries ?hit)"
    unfolding t(2) range_hit_dict size_dict by blast
  have "hash_bits t \<le> 25" "small_load (hash_bits t) (load_factor_percent t)" using t(3,4) by (auto simp: table_shape_def sizes_ok_def)
  then have "length m < 2 ^ 25" using max_entries_bound t(1,2) by (fastforce simp: htab_ok_def)
  then have "length ?hit < 2 ^ 32" by (intro le_less_trans [OF length_filter_le]) simp
  then have "unat (word_of_nat (length ?hit) :: u32) = length ?hit" by (simp add: unsigned_of_nat take_bit_nat_eq_self)
  moreover have "dict_entries m = dict_entries ?hit + dict_entries ?rest"
    unfolding range_hit_dict [symmetric] by (rule multiset_partition)
  then have "payloads_freed t (table_content t) = payloads_freed t (dict_entries ?hit) + payloads_freed t (table_content u)"
    by (simp only: t(2) u(3) payloads_freed_add)
  then have "dict_view generic_ops func flags load free u (?rest, given)"
    by (intro dict_view_update [OF view u(2,3,4)]) (simp_all add: u(5) add.assoc)
  ultimately show ?thesis using u(1) by (simp add: generic_hash_range_remove_def)
qed

interpretation generic_refinement: command_refinement generic_step "generic_dict_step (max_entries 25 load)"
  "dict_view generic_ops func flags load free" for func flags load free
proof
  fix s a c out a'
  assume *: "dict_view generic_ops func flags load free s a" "generic_dict_step (max_entries 25 load) c a = Some (out, a')"
  obtain m given where a: "a = (m, given)" by force
  show "\<exists>s'. generic_step c s = Some (out, s') \<and> dict_view generic_ops func flags load free s' a'"
  proof (cases c)
    case (Basic d)
    with * a generic.step_refines [of func flags load free s m given d out a'] show ?thesis
      by (simp only: generic_step_Basic) (simp add: generic_ops_def)
  next
    case (Drop_range x y)
    with * a generic_range_refines [of func flags load free s m given x y] show ?thesis by auto
  qed
qed

lemma destroy_frees:
  assumes "dict_view ops func flags load free t (m, given)"
  shows "mset (h_freed (fold hashtable_free_entry (slots t) t)) = (if free then mset given else {#})"
  using assms free_entries_freed [of "slots t" t] by (auto simp: dict_view_def table_content_def split: if_splits)

text \<open>C19: A table with 64-bit keys is a dictionary. Whatever commands (adding a new key while there is room, removing,
looking up, removing a range, clearing) a list of keys and payloads allows, the table runs them without
a failed assertion and gives the same answers, through every resizing; its entries are those of the list, and with a function that
frees payloads, destroying it leaves every payload it was given freed exactly once.\<close>

theorem generic_table_is_dictionary:
  assumes "0 < bits" "bits \<le> 25" "small_load bits load" "\<not> TESTFLAG HASHTABLE_READ_ONLY flags"
    "global \<longrightarrow> TESTFLAG HASHTABLE_SHARED flags"
    "run_cmds (generic_dict_step (max_entries 25 load)) cmds ([], []) = Some (outs, m, given)"
  shows "\<exists>t u. generic_hash_create func global bits load flags free = Some t \<and> run_cmds generic_step cmds t = Some (outs, u) \<and>
    htab_ok generic_ops u \<and> table_content u = mset (map (\<lambda>(k, p). Entry k p) m) \<and>
    mset (generic_hash_destroy u) = (if free then mset given else {#})"
proof -
  from create_correct [OF assms(1-5), where func = func and free = free and ops = generic_ops] obtain t where
    t: "generic_hash_create func global bits load flags free = Some t" "dict_view generic_ops func flags load free t ([], [])"
    unfolding generic_hash_create_def by blast
  from generic_refinement.run [OF t(2) assms(6)] obtain u where
    u: "run_cmds generic_step cmds t = Some (outs, u)" "dict_view generic_ops func flags load free u (m, given)" by blast
  from t(1) u destroy_frees [OF u(2)] show ?thesis
    by (intro exI [of _ t] exI [of _ u]) (simp add: dict_view_def dict_entries_def generic_hash_destroy_def)
qed

theorem generic_table_is_dictionary_witness:
  "\<exists>t u. generic_hash_create HASH_FUNCTION_MULTIPLY_PHI False 2 50 0 True = Some t \<and>
    run_cmds generic_step [Basic (Put 1 10), Basic (Put 5 11), Basic (Put 9 12), Basic (Drop 5), Basic (Get 9), Drop_range 0 2] t =
      Some ([Done, Done, Done, Removed 1, Payload 12, Removed 1], u) \<and>
    htab_ok generic_ops u \<and> table_content u = mset (map (\<lambda>(k, p). Entry k p) [(9, 12)]) \<and>
    mset (generic_hash_destroy u) = (if True then mset [12, 11, 10] else {#})"
  by (rule generic_table_is_dictionary)
    (simp_all add: small_load_def TESTFLAG_def HASHTABLE_READ_ONLY_def max_entries_def dict_find_def dict_in_range_def)

subsection \<open>Tables with string keys\<close>

lemma ascii_lower_lower [simp]: "ascii_lower (ascii_lower c) = ascii_lower c"
proof (cases "65 \<le> c \<and> c \<le> 90")
  case True
  then have "unat (c + 32) = unat c + 32" by (simp add: unat_word_ariths word_le_nat_alt)
  then have "\<not> c + 32 \<le> 90" using True by (simp add: word_le_nat_alt)
  with True show ?thesis by (simp add: ascii_lower_def)
qed (auto simp: ascii_lower_def)

lemma hash_chars_lower:
  "hash_chars HASH_FUNCTION_STRING_NOCASE m i s h = hash_chars HASH_FUNCTION_STRING m i (map ascii_lower s) h"
  by (induction s arbitrary: i h) (simp_all add: Let_def)

interpretation strings: tag_instance strhash_ops "strhash_func flags" flags for flags
  by unfold_locales
    (auto simp: strhash_ops_def strhash_key_cmp_def strhash_func_def string_hash_value_def hash_chars_lower split: if_splits)

fun strhash_step :: "u8 list table_cmd \<Rightarrow> strhash_table \<Rightarrow> (table_out \<times> strhash_table) option" where
  "strhash_step (Put k p) t = do { t \<leftarrow> strhash_hash_add t k p; Some (Done, t) }"
| "strhash_step (Drop k) t = do { (removed, t) \<leftarrow> strhash_hash_remove t k; Some (Removed (of_bool removed), t) }"
| "strhash_step (Get k) t = do { p \<leftarrow> strhash_hash_lookup t k; Some (Payload p, t) }"
| "strhash_step Drop_all t = do { t \<leftarrow> strhash_hash_clear t; Some (Done, t) }"

lemma strhash_step_eq: "strhash_step c t = table_step strhash_ops c t"
  by (cases c) (simp_all add: strhash_hash_add_def strhash_hash_remove_def strhash_hash_lookup_def strhash_hash_clear_def
    Let_def case_prod_unfold)

interpretation strhash_refinement: command_refinement strhash_step "dict_step (strhash_key_cmp flags) (max_entries 25 load)"
  "dict_view strhash_ops (strhash_func flags) flags load free" for flags load free
proof
  fix s a c out a'
  assume *: "dict_view strhash_ops (strhash_func flags) flags load free s a"
    "dict_step (strhash_key_cmp flags) (max_entries 25 load) c a = Some (out, a')"
  obtain m given where a: "a = (m, given)" by force
  have "tags_are_equal strhash_ops = strhash_key_cmp" by (simp add: strhash_ops_def)
  with * a strings.step_refines [of flags load free s m given c out a'] show
    "\<exists>s'. strhash_step c s = Some (out, s') \<and> dict_view strhash_ops (strhash_func flags) flags load free s' a'"
    by (simp only: strhash_step_eq)
qed

text \<open>C20: A table with string keys is a dictionary for the comparison its flags select: with
\<^verbatim>\<open>STRHASH_CASE_INSENSITIVE\<close>, keys that differ only in the case of letters are one key, otherwise keys are equal
when their bytes are. The answers, the entries and the freed payloads are those of the dictionary.\<close>

theorem strhash_table_is_dictionary:
  assumes "0 < bits" "bits \<le> 25" "small_load bits load" "\<not> TESTFLAG HASHTABLE_READ_ONLY flags" "TESTFLAG HASHTABLE_SHARED flags"
    "run_cmds (dict_step (strhash_key_cmp flags) (max_entries 25 load)) cmds ([], []) = Some (outs, m, given)"
  shows "\<exists>t u. strhash_hash_create bits load flags free = Some t \<and> run_cmds strhash_step cmds t = Some (outs, u) \<and>
    htab_ok strhash_ops u \<and> table_content u = mset (map (\<lambda>(k, p). Entry k p) m) \<and>
    mset (strhash_hash_destroy u) = (if free then mset given else {#})"
proof -
  from create_correct [OF assms(1-4) impI [OF assms(5)], where global = True and func = "strhash_func flags" and free = free and ops = strhash_ops] obtain t where
    t: "strhash_hash_create bits load flags free = Some t" "dict_view strhash_ops (strhash_func flags) flags load free t ([], [])"
    unfolding strhash_hash_create_def by blast
  from strhash_refinement.run [OF t(2) assms(6)] obtain u where
    u: "run_cmds strhash_step cmds t = Some (outs, u)" "dict_view strhash_ops (strhash_func flags) flags load free u (m, given)" by blast
  from t(1) u destroy_frees [OF u(2)] show ?thesis
    by (intro exI [of _ t] exI [of _ u]) (simp add: dict_view_def dict_entries_def strhash_hash_destroy_def)
qed

theorem strhash_table_is_dictionary_witness:
  "\<exists>t u. strhash_hash_create 2 50 0x10001 True = Some t \<and>
    run_cmds strhash_step [Put [65, 98] 1, Put [66] 2, Get [97, 66], Drop [65, 66], Get [97, 98], Put [67] 3] t =
      Some ([Done, Done, Payload 1, Removed 1, Payload 0, Done], u) \<and>
    htab_ok strhash_ops u \<and> table_content u = mset (map (\<lambda>(k, p). Entry k p) [([67], 3), ([66], 2)]) \<and>
    mset (strhash_hash_destroy u) = (if True then mset [3, 2, 1] else {#})"
  by (rule strhash_table_is_dictionary)
    (simp_all add: small_load_def TESTFLAG_def HASHTABLE_READ_ONLY_def HASHTABLE_SHARED_def max_entries_def dict_find_def strhash_key_cmp_def
      STRHASH_CASE_INSENSITIVE_def ascii_lower_def)

subsection \<open>A table without an empty slot\<close>

text \<open>The assertions on the load factor admit small tables that fill up; there a missing key is searched for ever.\<close>

lemma lookup_from_full:
  assumes "lookup_from ops t k i = Some e" "table_shape t" "\<And>x. x < ring t \<Longrightarrow> slots t ! x \<noteq> Empty" "tag_absent ops k t" "i < ring t"
  shows False
proof -
  have "table_shape t \<longrightarrow> (\<forall>x < ring t. slots t ! x \<noteq> Empty) \<longrightarrow> tag_absent ops k t \<longrightarrow> i < ring t \<longrightarrow> False"
  proof (rule lookup_from.raw_induct [OF _ assms(1)], intro impI)
    fix lookup ops t k i e
    assume IH: "\<And>ops t k i e. lookup ops t k i = Some e \<Longrightarrow>
        table_shape t \<longrightarrow> (\<forall>x < ring t. slots t ! x \<noteq> Empty) \<longrightarrow> tag_absent ops k t \<longrightarrow> i < ring t \<longrightarrow> False"
      and body: "(do {
         ASSERT (i < length (slots t));
         if slots t ! i = Empty then Some Empty
         else do {
           ftag \<leftarrow> ENTRY_TAG (slots t ! i);
           if tags_are_equal ops (table_flags t) ftag k then Some (slots t ! i)
           else lookup ops t k (HASH_INDEX_WRAPAROUND (i + 1) t) } }) = Some e"
      and t: "table_shape t" "\<forall>x < ring t. slots t ! x \<noteq> Empty" "tag_absent ops k t" "i < ring t"
    obtain k' p where e: "slots t ! i = Entry k' p" using t slot_cases [OF t(1,4)] by metis
    then have "Entry k' p \<in> set (slots t)" using slots_less [OF t(1,4)] nth_mem by metis
    with t(3) have "\<not> tags_are_equal ops (table_flags t) k' k" by (auto simp: tag_absent_def)
    with body e slots_less [OF t(1,4)] have "lookup ops t k (HASH_INDEX_WRAPAROUND (i + 1) t) = Some e" by simp
    moreover have "HASH_INDEX_WRAPAROUND (i + 1) t < ring t"
      using HASH_INDEX_WRAPAROUND_eq [OF t(1,4)] t(4) by (auto simp: cpos_def)
    ultimately show False using IH t by blast
  qed
  with assms show False by blast
qed

text \<open>C39: When every slot of the ring holds an entry, a lookup of a key that is not in the table does not return: there is no
empty slot to stop at, and the load factors that are accepted (any from 1 to 99) let a small table become full.\<close>

theorem full_table_lookup_never_returns:
  assumes "table_shape t" "\<And>i. i < 2 ^ hash_bits t \<Longrightarrow> slots t ! i \<noteq> Empty" "tag_absent generic_ops k t"
  shows "generic_hash_lookup t k = None"
proof -
  have "hashtable_lookup_entry generic_ops k t = None"
    using lookup_from_full [OF _ assms HASH_FUNC_less [OF assms(1)]]
    by (cases "hashtable_lookup_entry generic_ops k t") (auto simp: hashtable_lookup_entry_def)
  then show ?thesis by (simp add: generic_hash_lookup_def)
qed

definition full_table :: "(table_out list \<times> generic_table) option" where
  "full_table = do {
     t \<leftarrow> generic_hash_create HASH_FUNCTION_NONE False 2 80 0 False;
     run_cmds generic_step [Basic (Put 4 1), Basic (Put 5 2), Basic (Put 6 3), Basic (Put 7 4)] t }"

theorem full_table_lookup_never_returns_witness:
  "\<exists>t. full_table = Some ([Done, Done, Done, Done], t) \<and> generic_hash_lookup t 8 = None"
proof -
  let ?t = "(\<lparr>hash_mask = 3, slots = [Entry 4 1, Entry 5 2, Entry 6 3, Entry 7 4, Sentinel], hash_bits = 2,
    hash_func = HASH_FUNCTION_NONE, hash_mask_offset = 0, h_capacity = 5, h_entries = 4, load_factor_percent = 80,
    h_resize_threshold = 4, table_flags = 0, h_free_payload = False, h_freed = []\<rparr> :: generic_table)"
  have "full_table = Some ([Done, Done, Done, Done], ?t)" by code_simp
  moreover have "generic_hash_lookup ?t 8 = None"
  proof (rule full_table_lookup_never_returns)
    show "table_shape ?t" by code_simp
    show "tag_absent generic_ops 8 ?t" by (auto simp: tag_absent_def generic_ops_def)
    fix i :: nat assume "i < 2 ^ hash_bits ?t"
    then have "i = 0 \<or> i = 1 \<or> i = 2 \<or> i = 3" by auto
    then show "slots ?t ! i \<noteq> Empty" by (elim disjE) simp_all
  qed
  ultimately show ?thesis by blast
qed

subsection \<open>Removing during an iteration\<close>

text \<open>The entries an iteration has still to visit at an index.\<close>

definition entries_from :: "nat \<Rightarrow> ('h, 'k) htab \<Rightarrow> 'k slot multiset" where
  "entries_from iter t = filter_mset ENTRY_IS_REAL (mset (drop iter (slots t)))"

lemma next_real_Some:
  "next_real es i = Some (iter, k, p) \<Longrightarrow> \<exists>n < length es. iter = Suc (i + n) \<and> es ! n = Entry k p"
proof (induction es arbitrary: i)
  case (Cons e es)
  then show ?case by (cases e) fastforce+
qed simp

lemma iterate_next_Some:
  assumes "generic_hash_iterate_next t start = Some (iter, k, p)"
  shows "iter = Suc (iter - 1) \<and> start < iter \<and> iter - 1 < length (slots t) \<and> slots t ! (iter - 1) = Entry k p"
proof -
  obtain n where n: "n < length (slots t) - start" "iter = Suc (start + n)" "drop start (slots t) ! n = Entry k p"
    using next_real_Some assms by (fastforce simp: generic_hash_iterate_next_def)
  then show ?thesis by auto
qed

lemma content_split: "table_content t = filter_mset ENTRY_IS_REAL (mset (take i (slots t))) + entries_from i t"
  unfolding table_content_def entries_from_def by (metis append_take_drop_id filter_union_mset mset_append)

text \<open>When no slot in front of the removed one has changed, the entries behind it are those that were not visited yet.\<close>

lemma entries_left:
  assumes "i < length (slots t)" "slots t ! i = Entry k p" "length (slots u) = length (slots t)" "take i (slots u) = take i (slots t)"
    and "table_content u = table_content t - {#Entry k p#}"
  shows "entries_from i u = entries_from (Suc i) t"
proof -
  have "entries_from i t = add_mset (Entry k p) (entries_from (Suc i) t)"
    using assms(1,2) by (simp add: entries_from_def Cons_nth_drop_Suc [symmetric])
  with content_split [of t i] content_split [of u i] assms(4,5) show ?thesis by simp
qed

text \<open>C40: Removing the entry that an iteration has just reached keeps the table well formed and removes exactly this entry.
Either the result is the index of the removed entry, nothing in front of it has changed, and the entries from there on are those
that the iteration had still to visit; or it is the index behind it, and then an entry from the start of the table, which the
iteration had passed, has been pulled across the end of the table to the slot of the removed entry or behind it.\<close>

theorem iterate_remove_keeps_place:
  assumes ok: "htab_ok generic_ops t" and reached: "generic_hash_iterate_next t start = Some (iter, key, payload)"
  shows "\<exists>iter' u. generic_hash_iterate_remove t iter key = Some (iter', u) \<and> htab_ok generic_ops u \<and>
    table_content u = table_content t - {#Entry key payload#} \<and>
    (iter' = iter - 1 \<and> take iter' (slots u) = take iter' (slots t) \<and> entries_from iter' u = entries_from iter t \<or>
     iter' = iter \<and> (\<exists>x y k p. y < iter - 1 \<and> iter - 1 \<le> x \<and> x < length (slots t) \<and>
       slots t ! y = Entry k p \<and> slots u ! x = Entry k p))"
proof -
  let ?i = "iter - 1"
  have probe: "probe_ok generic_ops t" "table_shape t" using ok by (auto simp: htab_ok_def probe_ok_def)
  have len: "length (slots t) = Suc (ring t)" and sentinel: "\<not> ENTRY_IS_REAL (slots t ! ring t)"
    using probe(2) by (auto simp: table_shape_def)
  have at: "iter = Suc ?i" "?i < length (slots t)" "slots t ! ?i = Entry key payload"
    using iterate_next_Some [OF reached] by auto
  then have i: "?i < ring t" using len sentinel by (cases "?i = ring t") auto
  have found: "hashtable_lookup_entry generic_ops key t = Some (Entry key payload)"
    "lookup_for_removal generic_ops (Entry key payload) t = Some (Some ?i)"
    using generic.lookup_hit [OF probe(1) refl refl i at(3) generic.tag_refl] by blast+
  obtain w xs where rm: "hashtable_remove_helper generic_ops t ?i = Some (w, t\<lparr>slots := xs, h_entries := h_entries t - 1\<rparr>)"
    "htab_ok generic_ops (t\<lparr>slots := xs, h_entries := h_entries t - 1\<rparr>)"
    "filter_mset ENTRY_IS_REAL (mset xs) = table_content t - {#Entry key payload#}"
    "\<not> w \<longrightarrow> upward ?i (ring t) ((slots t)[?i := Empty]) xs"
    "w \<longrightarrow> (\<exists>e. pulled_across (ring t) ?i e ((slots t)[?i := Empty]) xs)"
    using remove_helper_correct [OF ok i at(3)] by blast
  define u where "u = hashtable_free_entry (Entry key payload) (t\<lparr>slots := xs, h_entries := h_entries t - 1\<rparr>)"
  have u: "htab_ok generic_ops u" "slots u = xs" "table_content u = table_content t - {#Entry key payload#}"
    using rm(2,3) by (simp_all add: u_def table_content_def)
  have len_u: "length xs = length (slots t)"
    using rm(2) len by (simp add: htab_ok_def probe_ok_def table_shape_def)
  have "generic_hash_iterate_remove t iter key = Some (if w then iter else ?i, u)"
    using found rm(1) by (simp add: generic_hash_iterate_remove_def u_def)
  moreover have "\<exists>x y k p. y < ?i \<and> ?i \<le> x \<and> x < length (slots t) \<and> slots t ! y = Entry k p \<and> slots u ! x = Entry k p" if w
    using rm(5) that len by (fastforce simp: pulled_across_def u(2))
  moreover have "take ?i (slots u) = take ?i (slots t) \<and> entries_from ?i u = entries_from iter t" if "\<not> w"
  proof -
    have "take ?i (slots u) = take ?i (slots t)"
      using rm(4) that len_u by (intro nth_equalityI) (auto simp: upward_def u(2))
    then show ?thesis using entries_left [OF at(2,3), of u] at(1) u len_u by simp
  qed
  ultimately show ?thesis using u by (intro exI [of _ "if w then iter else ?i"] exI [of _ u]) auto
qed

text \<open>The keys 6, 14 and 22 in one chain around the end of a table of eight slots.\<close>

definition wrapped_chain :: "(table_out list \<times> generic_table) option" where
  "wrapped_chain = do {
     t \<leftarrow> generic_hash_create HASH_FUNCTION_NONE False 3 50 0 False;
     run_cmds generic_step [Basic (Put 6 1), Basic (Put 14 2), Basic (Put 22 3)] t }"

abbreviation (input) wrapped_table :: generic_table where
  "wrapped_table \<equiv> \<lparr>hash_mask = 7, slots = [Entry 22 3, Empty, Empty, Empty, Empty, Empty, Entry 6 1, Entry 14 2, Sentinel],
     hash_bits = 3, hash_func = HASH_FUNCTION_NONE, hash_mask_offset = 0, h_capacity = 9, h_entries = 3, load_factor_percent = 50,
     h_resize_threshold = 4, table_flags = 0, h_free_payload = False, h_freed = []\<rparr>"

lemma wrapped_chain_eq: "wrapped_chain = Some ([Done, Done, Done], wrapped_table)"
  by code_simp

lemma wrapped_table_ok: "htab_ok generic_ops wrapped_table"
proof -
  have "small_load 3 50" "\<not> TESTFLAG HASHTABLE_READ_ONLY 0" by (simp_all add: small_load_def TESTFLAG_def)
  then obtain t where t: "generic_hash_create HASH_FUNCTION_NONE False 3 50 0 False = Some t"
      "dict_view generic_ops HASH_FUNCTION_NONE 0 50 False t ([], [])"
    using create_correct [of 3 50 0 False HASH_FUNCTION_NONE False generic_ops] unfolding generic_hash_create_def by auto
  have "run_cmds (generic_dict_step (max_entries 25 50)) [Basic (Put 6 1), Basic (Put 14 2), Basic (Put 22 3)] ([], []) =
      Some ([Done, Done, Done], [(22, 3), (14, 2), (6, 1)], [3, 2, 1])"
    by (simp add: dict_find_def max_entries_def)
  from generic_refinement.run [OF t(2) this] t(1) wrapped_chain_eq show ?thesis
    by (auto simp: wrapped_chain_def dict_view_def)
qed

theorem iterate_remove_keeps_place_witness:
  "\<exists>iter u. generic_hash_iterate_remove wrapped_table 8 14 = Some (iter, u) \<and> htab_ok generic_ops u"
proof -
  have "generic_hash_iterate_next wrapped_table 7 = Some (8, 14, 2)" by (simp add: generic_hash_iterate_next_def)
  from iterate_remove_keeps_place [OF wrapped_table_ok this] show ?thesis by blast
qed

text \<open>An entry that was pulled across the end may be skipped or visited twice. The iteration visits 22 and then 6. Removing 6
moves 14 into its slot and 22 behind it, and the iteration goes on at 22: 22 is visited twice and 14 never.\<close>

lemma iterate_remove_skips_entry:
  "generic_hash_iterate_next wrapped_table 0 = Some (1, 22, 3)" "generic_hash_iterate_next wrapped_table 1 = Some (7, 6, 1)"
  "map_option (\<lambda>(iter, u). (iter, slots u, generic_hash_iterate_next u iter)) (generic_hash_iterate_remove wrapped_table 7 6) =
     Some (7, [Empty, Empty, Empty, Empty, Empty, Empty, Entry 14 2, Entry 22 3, Sentinel], Some (8, 22, 3))"
  by code_simp+

end
