(* ===== verification/RvTypes.thy ===== *)
theory RvTypes
  imports RvSample
begin

text \<open>
  The types of the RISC-V operands. Every operand field of \<^verbatim>\<open>riscv64_fld_t\<close> stands for an operand of one kind, a general
  purpose, floating point or vector register, an immediate, a memory reference, a branch target or an address; the
  decoders of the dispatch table \<^verbatim>\<open>opnd_decoders\<close> are shown to produce operands of that kind only.
\<close>

datatype opnd_ty = General | Floating | Vector | Immediate | Memory | Target | Address

text \<open>The number of a register is that of the first register of its bank plus at most 31. A memory reference has a
general purpose register as its base and no index.\<close>

definition in_bank :: "nat \<Rightarrow> nat \<Rightarrow> bool" where
  "in_bank first r \<longleftrightarrow> first \<le> r \<and> r < first + 32"

fun has_type :: "opnd_ty \<Rightarrow> opnd_t \<Rightarrow> bool" where
  "has_type General (REG_kind sz fl r psz) \<longleftrightarrow> in_bank (unat (DR_REG_X0 :: u16)) (unat r)"
| "has_type Floating (REG_kind sz fl r psz) \<longleftrightarrow> in_bank (unat (DR_REG_F0 :: u16)) (unat r)"
| "has_type Vector (REG_kind sz fl r psz) \<longleftrightarrow> in_bank (unat (DR_REG_VR0 :: u16)) (unat r)"
| "has_type Immediate (IMMED_INTEGER_kind sz fl i) \<longleftrightarrow> True"
| "has_type Memory (BASE_DISP_kind sz fl disp base index) \<longleftrightarrow>
     in_bank (unat (DR_REG_X0 :: u16)) (unat base) \<and> index = 0"
| "has_type Target (PC_kind pc) \<longleftrightarrow> True"
| "has_type Address (REL_ADDR_kind sz a) \<longleftrightarrow> True"
| "has_type _ _ \<longleftrightarrow> False"

text \<open>The types of the fields, in the order of \<^verbatim>\<open>riscv64_fld_t\<close>. The first one stands for no operand.\<close>

definition opnd_types :: "opnd_ty list" where
  "opnd_types =
    [Immediate, General, Floating, General, Floating, Memory, General, Floating, Floating, Immediate,
     Immediate, Immediate, Immediate, Immediate, Immediate, Immediate, Immediate, Immediate, Immediate,
     Immediate, Target, Immediate, Address, Target, General, Floating, General, General,
     Floating, General, Floating, General, General, Floating, General, Immediate,
     Immediate, Immediate, Memory, Memory, Immediate, Memory, Memory, Immediate, Memory, Memory, Memory,
     Memory, Immediate, Target, Target, Memory, Memory, General, General, General, General, General,
     General, Immediate, General, General, Memory, Immediate, Immediate, Immediate,
     Immediate, Immediate, Immediate, Vector, Vector, Vector, Vector]"

definition typed_contract :: "fld_place \<Rightarrow> opnd_ty \<Rightarrow> opnd_dec_func_t \<Rightarrow> bool" where
  "typed_contract place ty dec \<longleftrightarrow>
     (\<forall>inst sz pc orig_pc idx out b out'. dec inst sz pc orig_pc idx out = Some (b, out') \<longrightarrow>
        (\<exists>opnd. slot_set out (place_slot place idx) opnd = Some out' \<and> has_type ty opnd))"

lemma GET_FIELD_less: "2 ^ (high - low + 1) \<le> n \<Longrightarrow> unat (GET_FIELD v high low) < n"
  using unat_GET_FIELD_less [of v high low] by simp

lemma unat_register:
  assumes "high - low \<le> 4" "numeral b < (100::nat)"
  shows "unat (ucast (numeral b + GET_FIELD v high low) :: u16) = numeral b + unat (GET_FIELD v high low)"
    and "unat (ucast (ucast (numeral b + GET_FIELD v high low) :: u16) :: u8) = numeral b + unat (GET_FIELD v high low)"
proof -
  have less: "numeral b + unat (GET_FIELD v high low) < (132 :: nat)" using unat_reg_field [OF assms(1), of v] assms(2) by linarith
  have u16: "(ucast (numeral b + GET_FIELD v high low) :: u16) = of_nat (numeral b + unat (GET_FIELD v high low))"
    using reg_number_of_nat(1) [OF unat_reg_field [OF assms(1), of v] assms(2)] by simp
  show "unat (ucast (numeral b + GET_FIELD v high low) :: u16) = numeral b + unat (GET_FIELD v high low)"
    unfolding u16 using less by (simp add: unsigned_of_nat take_bit_nat_eq_self del: of_nat_add)
  have "(ucast (of_nat (numeral b + unat (GET_FIELD v high low)) :: u16) :: u8) = of_nat (numeral b + unat (GET_FIELD v high low))"
    using less by (simp add: unsigned_of_nat take_bit_nat_eq_self del: of_nat_add)
  then show "unat (ucast (ucast (numeral b + GET_FIELD v high low) :: u16) :: u8) = numeral b + unat (GET_FIELD v high low)"
    unfolding u16 using less by (simp add: unsigned_of_nat take_bit_nat_eq_self del: of_nat_add)
qed

lemmas typed_simps = typed_contract_def bind_eq_Some_conv Let_def codec_prims in_bank_def unat_register GET_FIELD_less
  opnd_create_pc_def instr_set_target_src0

lemma typed_general:
  "typed_contract AtDst General decode_rd_opnd" "typed_contract AtSrc General decode_rs1_opnd"
  "typed_contract AtSrc General decode_rs2_opnd" "typed_contract AtDst General decode_crd_opnd"
  "typed_contract AtSrc General decode_crs1_opnd" "typed_contract AtSrc General decode_crs2_opnd"
  "typed_contract AtDst General decode_crd__opnd" "typed_contract AtSrc General decode_crs1__opnd"
  "typed_contract AtSrc General decode_crs2__opnd" "typed_contract AtDst General decode_crd___opnd"
  "typed_contract AtSrc General decode_irs1_sp_opnd" "typed_contract AtSrc General decode_irs1_zero_opnd"
  "typed_contract AtSrc General decode_irs2_zero_opnd" "typed_contract AtDst General decode_ird_zero_opnd"
  "typed_contract AtDst General decode_ird_ra_opnd" "typed_contract AtDst General decode_ird_sp_opnd"
  "typed_contract AtSrc General decode_icrs1_opnd" "typed_contract AtSrc General decode_icrs1___opnd"
  by - (auto simp: codec_defs typed_simps dest!: create_Some intro!: exI)

lemma typed_floating:
  "typed_contract AtDst Floating decode_rdfp_opnd" "typed_contract AtSrc Floating decode_rs1fp_opnd"
  "typed_contract AtSrc Floating decode_rs2fp_opnd" "typed_contract AtSrc Floating decode_rs3fp_opnd"
  "typed_contract AtDst Floating decode_crdfp_opnd" "typed_contract AtSrc Floating decode_crs2fp_opnd"
  "typed_contract AtDst Floating decode_crd_fp_opnd" "typed_contract AtSrc Floating decode_crs2_fp_opnd"
  by - (auto simp: codec_defs typed_simps dest!: create_Some intro!: exI)

lemma typed_memory:
  "typed_contract AtSrc Memory decode_base_opnd" "typed_contract AtSrc Memory decode_clwsp_imm_opnd"
  "typed_contract AtSrc Memory decode_cldsp_imm_opnd" "typed_contract AtDst Memory decode_cswsp_imm_opnd"
  "typed_contract AtDst Memory decode_csdsp_imm_opnd" "typed_contract AtSrc Memory decode_clw_imm_opnd"
  "typed_contract AtSrc Memory decode_cld_imm_opnd" "typed_contract AtDst Memory decode_csw_imm_opnd"
  "typed_contract AtDst Memory decode_csd_imm_opnd" "typed_contract AtSrc Memory decode_v_l_rs1_disp_opnd"
  "typed_contract AtDst Memory decode_v_s_rs1_disp_opnd"
  by - (auto simp: codec_defs typed_simps dest!: create_Some intro!: exI)

lemma typed_immediate:
  "typed_contract AtSrc Immediate decode_fm_opnd" "typed_contract AtSrc Immediate decode_pred_opnd"
  "typed_contract AtSrc Immediate decode_succ_opnd" "typed_contract AtSrc Immediate decode_aqrl_opnd"
  "typed_contract AtSrc Immediate decode_csr_opnd" "typed_contract AtSrc Immediate decode_rm_opnd"
  "typed_contract AtSrc Immediate decode_shamt_opnd" "typed_contract AtSrc Immediate decode_shamt5_opnd"
  "typed_contract AtSrc Immediate decode_shamt6_opnd" "typed_contract AtSrc Immediate decode_i_imm_opnd"
  "typed_contract AtSrc Immediate decode_s_imm_opnd" "typed_contract AtSrc Immediate decode_u_imm_opnd"
  "typed_contract AtSrc Immediate decode_cshamt_opnd" "typed_contract AtSrc Immediate decode_csr_imm_opnd"
  "typed_contract AtSrc Immediate decode_caddi16sp_imm_opnd" "typed_contract AtSrc Immediate decode_clui_imm_opnd"
  "typed_contract AtSrc Immediate decode_ciw_imm_opnd" "typed_contract AtSrc Immediate decode_cimm5_opnd"
  "typed_contract AtSrc Immediate decode_iimm_0_opnd" "typed_contract AtSrc Immediate decode_zimm_opnd"
  "typed_contract AtSrc Immediate decode_zimm10_opnd" "typed_contract AtSrc Immediate decode_zimm11_opnd"
  "typed_contract AtSrc Immediate decode_vm_opnd" "typed_contract AtSrc Immediate decode_nf_opnd"
  "typed_contract AtSrc Immediate decode_simm5_opnd"
  by - (auto simp: codec_defs typed_simps dest!: create_Some intro!: exI)

lemma typed_target:
  "typed_contract AtTarget Target decode_b_imm_opnd" "typed_contract AtTarget Target decode_j_imm_opnd"
  "typed_contract AtTarget Target decode_cb_imm_opnd" "typed_contract AtTarget Target decode_cj_imm_opnd"
  by - (auto simp: codec_defs typed_simps dest!: create_Some intro!: exI)

lemma typed_address:
  "typed_contract AtSrc Address decode_u_immpc_opnd"
  by - (auto simp: codec_defs typed_simps dest!: create_Some intro!: exI)

lemma typed_vector:
  "typed_contract AtDst Vector decode_vd_opnd" "typed_contract AtSrc Vector decode_vs1_opnd"
  "typed_contract AtSrc Vector decode_vs2_opnd" "typed_contract AtSrc Vector decode_vs3_opnd"
  by - (auto simp: codec_defs typed_simps dest!: create_Some intro!: exI)

lemma all_typed_contracts:
  assumes "f < RISCV64_FLD_CNT"
  shows "typed_contract (fs_place (opnd_specs ! f)) (opnd_types ! f) (opnd_decoders ! f)"
proof -
  have "typed_contract AtSrc Immediate decode_none_opnd" by (simp add: typed_contract_def decode_none_opnd_def)
  then have "list_all (\<lambda>(spec, ty, dec). typed_contract (fs_place spec) ty dec) (zip opnd_specs (zip opnd_types opnd_decoders))"
    by (simp add: opnd_specs_def opnd_types_def opnd_decoders_def plain_def j_imm_spec_def v_l_spec_def v_s_spec_def typed_general typed_floating typed_memory typed_immediate typed_target typed_address typed_vector)
  moreover have "length opnd_types = RISCV64_FLD_CNT" by (simp add: opnd_types_def)
  ultimately show ?thesis using assms by (simp add: list_all_length table_lengths)
qed

subsection \<open>Whole instructions\<close>

lemma decode_opnds_typed:
  assumes "decode_opnds opnd_decoders inst pc orig_pc slots i = Some (ok, i')" "distinct (map (slot_of opnd_specs) slots)"
  shows "(\<forall>s \<in> set slots. \<exists>opnd. slot_get i' (slot_of opnd_specs s) = Some opnd \<and> has_type (opnd_types ! fst s) opnd) \<and>
    (\<forall>t w. t \<notin> slot_of opnd_specs ` set slots \<longrightarrow> slot_get i t = Some w \<longrightarrow> slot_get i' t = Some w)"
  using assms
proof (induction slots arbitrary: i)
  case (Cons s slots)
  obtain f sz idx where s: "s = (f, sz, idx)" by (cases s)
  obtain ok0 i0 where f: "f < RISCV64_FLD_CNT" and dec: "(opnd_decoders ! f) inst sz pc orig_pc idx i = Some (ok0, i0)"
    and rest: "(if ok0 then decode_opnds opnd_decoders inst pc orig_pc slots i0 else Some (False, i0)) = Some (ok, i')"
    using Cons.prems(1) unfolding s by (auto simp: bind_eq_Some_conv split: if_splits)
  obtain opnd where st: "slot_set i (slot_of opnd_specs s) opnd = Some i0" and ty: "has_type (opnd_types ! f) opnd"
    using all_typed_contracts [OF f] dec unfolding typed_contract_def slot_of_def s by fastforce
  have ok0 using all_field_contracts [OF f] dec unfolding field_contract_def by blast
  with rest Cons.IH [of i0] Cons.prems(2) have IH:
    "\<forall>s \<in> set slots. \<exists>opnd. slot_get i' (slot_of opnd_specs s) = Some opnd \<and> has_type (opnd_types ! fst s) opnd"
    "\<And>t w. t \<notin> slot_of opnd_specs ` set slots \<Longrightarrow> slot_get i0 t = Some w \<Longrightarrow> slot_get i' t = Some w" by auto
  have "slot_get i' (slot_of opnd_specs s) = Some opnd"
    using Cons.prems(2) slot_set_Some(1) [OF st] by (intro IH(2)) auto
  moreover have "slot_get i' t = Some w" if "t \<notin> slot_of opnd_specs ` set (s # slots)" "slot_get i t = Some w" for t w
    using that slot_set_Some(2) [OF st, of t w] by (intro IH(2)) auto
  ultimately show ?case using IH(1) ty s by auto
qed simp

text \<open>C34: Decoded instructions are well typed. In an instruction that the decoder returns, every operand that the table
entry names is of the type of its field: the registers are of the bank of the field, memory references have a general purpose
base register and no index, and targets, addresses and immediates are what they are meant to be.\<close>

theorem decoded_instr_typed:
  assumes "decode_common T rd DR_ISA_RV64 mem pc orig_pc instr = Some (Some next_pc, instr')"
    "decode_fetch T mem pc = Some (inst, Some k)" "entry_wf T k" "entry_slots (instr_infos T ! k) = Some slots"
  shows "list_all (\<lambda>s. \<exists>opnd. slot_get instr' (slot_of opnd_specs s) = Some opnd \<and> has_type (opnd_types ! fst s) opnd) slots"
proof -
  have wf: "ii_type (instr_infos T ! k) = k" "k \<noteq> OP_INVALID" "distinct (map (slot_of opnd_specs) slots)"
    using assms(3,4) by (auto simp: entry_wf_def)
  obtain i0 i1 where "decode_opnds opnd_decoders inst pc orig_pc slots i0 = Some (True, i1)"
    "\<And>s. slot_get instr' s = slot_get i1 s"
    using decode_common_slots [OF assms(1,2) wf(1,2)] assms(4) by (metis option.inject)
  with decode_opnds_typed wf(3) show ?thesis by (simp add: list_all_iff)
qed

theorem decoded_instr_typed_witness:
  "\<exists>instr. decode_common sample_tables no_regdeps DR_ISA_RV64 (bytes4 0x93 0x82 0xf2 0xff) 0x1000
     0x1000 instr_init = Some (Some 0x1004, instr) \<and>
     (\<exists>opnd. slot_get instr (DST 0) = Some opnd \<and> has_type General opnd)"
proof -
  obtain instr where d: "decode_common sample_tables no_regdeps DR_ISA_RV64
      (bytes4 0x93 0x82 0xf2 0xff) 0x1000 0x1000 instr_init = Some (Some 0x1004, instr)"
    using decode_addi by blast
  obtain slots where slots: "entry_slots addi_info = Some slots" "\<exists>sz. slots ! 0 = (1, sz, 0) \<and> slots \<noteq> []"
    "distinct (map (slot_of opnd_specs) slots)"
    by (simp add: codec_eval slot_of_def plain_def)
  have "entry_wf sample_tables 6" using slots(1,3) by (simp add: entry_wf_def codec_eval) 
  then have "list_all (\<lambda>s. \<exists>opnd. slot_get instr (slot_of opnd_specs s) = Some opnd \<and> has_type (opnd_types ! fst s) opnd) slots"
    by (rule decoded_instr_typed [OF d fetch_addi]) (simp add: sample_tables_sel sample_infos_nth slots(1))
  then have "\<exists>opnd. slot_get instr (slot_of opnd_specs (slots ! 0)) = Some opnd \<and> has_type (opnd_types ! fst (slots ! 0)) opnd"
    using slots(2) by (auto simp: list_all_length)
  then have "\<exists>opnd. slot_get instr (DST 0) = Some opnd \<and> has_type General opnd"
    using slots(2) by (auto simp: slot_of_def specs_nth plain_def opnd_types_def)
  with d show ?thesis by blast
qed

end
