(* ===== verification/RvLookup.thy ===== *)
theory RvLookup
  imports RvApi
begin

text \<open>
  Which table entry the decoder picks, against the instruction set. The encodings of the compressed instructions are
  those of the listings in \<^verbatim>\<open>core/ir/riscv64/isl\<close>, read as \<^verbatim>\<open>codec.py\<close> reads them; the nested
  switches of \<^verbatim>\<open>codec.c\<close> are shown to find the listed instruction. The uncompressed ones are looked up in the
  generated trie, of which the file assumes what \<^verbatim>\<open>trie.h\<close> documents: its nodes sort the entries of the
  table by their fixed bits.
\<close>

unbundle bit_operations_syntax

subsection \<open>Entries and the words they stand for\<close>

definition entry_mask :: "rv_instr_info_t \<Rightarrow> u32" where
  "entry_mask info = ucast (ii_code info)"

definition entry_match :: "rv_instr_info_t \<Rightarrow> u32" where
  "entry_match info = ucast (drop_bit 32 (ii_code info))"










subsection \<open>The trie\<close>








subsection \<open>The listings of the compressed instructions\<close>

































subsection \<open>What the decoder finds\<close>



subsection \<open>An instance\<close>




lemma info_for_codes: "entry_mask (info_for k t m e) = m" "entry_match (info_for k t m e) = t"
  by (rule bit_word_eqI; auto simp: entry_mask_def entry_match_def info_for_def bit_simps bitf dest: bit_imp_le_length)+

lemma some_info_codes [simp]:
  "entry_mask jal_info = 0x7f" "entry_match jal_info = 0x6f" "entry_mask beq_info = 0x707f" "entry_match beq_info = 0x63"
  "entry_mask addi_info = 0x707f" "entry_match addi_info = 0x13"
  "entry_mask fmadd_s_info = 0x600007f" "entry_match fmadd_s_info = 0x43"
  using info_for_codes unfolding jal_info_def beq_info_def addi_info_def fmadd_s_info_def
  by (simp_all add: entry_mask_def entry_match_def)













end
