(* ===== verification/CString.thy ===== *)
theory CString
  imports Bytes
begin

text \<open>
  DynamoRIO's own string routines (\<^verbatim>\<open>src/dynamorio/core/string.c\<close>) and the number parser of \<^verbatim>\<open>io.c\<close>, over a memory of bytes.
  A \<^verbatim>\<open>char\<close> is signed, as on x86; an \<^verbatim>\<open>int\<close> is a 32-bit word. Loops over strings look for a terminator and may not end: \<open>None\<close>
  is a loop that does not. \<^verbatim>\<open>memcpy\<close> is assembly code and an argument of \<^verbatim>\<open>memmove\<close>.
\<close>

definition char_int :: "u8 \<Rightarrow> u32" where
  "char_int c = scast c"

subsection \<open>Length and search\<close>

partial_function (option) strlen_from :: "memory \<Rightarrow> u64 \<Rightarrow> u64 option" where
  "strlen_from m cur = (if m cur \<noteq> 0 then strlen_from m (cur + 1) else Some cur)"

definition d_r_strlen :: "memory \<Rightarrow> u64 \<Rightarrow> u64 option" where
  "d_r_strlen m str = do { cur \<leftarrow> strlen_from m str; Some (cur - str) }"

text \<open>A \<^verbatim>\<open>wchar_t\<close> has 32 bits.\<close>

definition read_wchar :: "memory \<Rightarrow> u64 \<Rightarrow> u32" where
  "read_wchar m p = word_of_nat (from_le (read_mem m p 4))"

partial_function (option) wcslen_from :: "memory \<Rightarrow> u64 \<Rightarrow> u64 option" where
  "wcslen_from m cur = (if read_wchar m cur \<noteq> 0 then wcslen_from m (cur + 4) else Some cur)"

definition d_r_wcslen :: "memory \<Rightarrow> u64 \<Rightarrow> u64 option" where
  "d_r_wcslen m str = do { cur \<leftarrow> wcslen_from m str; Some ((cur - str) div 4) }"

partial_function (option) d_r_strchr :: "memory \<Rightarrow> u64 \<Rightarrow> u32 \<Rightarrow> u64 option" where
  "d_r_strchr m str c =
     (if char_int (m str) = c then Some str
      else if m str = 0 then Some 0
      else d_r_strchr m (str + 1) c)"

partial_function (option) strrchr_from :: "memory \<Rightarrow> u64 \<Rightarrow> u32 \<Rightarrow> u64 \<Rightarrow> u64 option" where
  "strrchr_from m str c ret =
     (let ret = (if char_int (m str) = c then str else ret)
      in if m str = 0 then Some ret else strrchr_from m (str + 1) c ret)"

definition d_r_strrchr :: "memory \<Rightarrow> u64 \<Rightarrow> u32 \<Rightarrow> u64 option" where
  "d_r_strrchr m str c = strrchr_from m str c 0"

subsection \<open>Copying\<close>

lemma counter_decreases: "i < n \<Longrightarrow> unat (n - (i + 1)) < unat (n - i)" for i n :: u64
proof -
  assume "i < n"
  then have ne: "n - i \<noteq> 0" by auto
  have "unat (n - (i + 1)) = unat (n - i) - 1" using unat_minus_one [OF ne] by (simp only: diff_diff_add)
  moreover have "0 < unat (n - i)" using ne unat_gt_0 by blast
  ultimately show ?thesis by linarith
qed

text \<open>The loop that copies up to a terminator gives the index it stopped at. \<open>dst\<close> is where index 0 goes.\<close>

function copy_chars :: "u64 \<Rightarrow> u64 \<Rightarrow> u64 \<Rightarrow> u64 \<Rightarrow> memory \<Rightarrow> u64 \<times> memory" where
  "copy_chars dst src n i m =
     (if i < n \<and> m (src + i) \<noteq> 0 then copy_chars dst src n (i + 1) (m(dst + i := m (src + i))) else (i, m))"
  by pat_completeness auto

termination
  by (relation "measure (\<lambda>(dst, src, n, i, m). unat (n - i))") (auto simp only: in_measure split intro: counter_decreases)

declare copy_chars.simps [simp del]

function pad_nulls :: "u64 \<Rightarrow> u64 \<Rightarrow> u64 \<Rightarrow> memory \<Rightarrow> memory" where
  "pad_nulls dst n i m = (if i < n then pad_nulls dst n (i + 1) (m(dst + i := 0)) else m)"
  by pat_completeness auto

termination
  by (relation "measure (\<lambda>(dst, n, i, m). unat (n - i))") (auto simp only: in_measure split intro: counter_decreases)

declare pad_nulls.simps [simp del]

definition d_r_strncpy :: "u64 \<Rightarrow> u64 \<Rightarrow> u64 \<Rightarrow> memory \<Rightarrow> memory" where
  "d_r_strncpy dst src n m = (let (i, m) = copy_chars dst src n 0 m in pad_nulls dst n i m)"

definition d_r_strncat :: "u64 \<Rightarrow> u64 \<Rightarrow> u64 \<Rightarrow> memory \<Rightarrow> memory option" where
  "d_r_strncat dest src n m = do {
     dest_len \<leftarrow> d_r_strlen m dest;
     let (i, m) = copy_chars (dest + dest_len) src n 0 m;
     Some (m(dest + dest_len + i := 0)) }"

text \<open>The index of the loop is signed.\<close>

function copy_down :: "u64 \<Rightarrow> u64 \<Rightarrow> u64 \<Rightarrow> memory \<Rightarrow> memory" where
  "copy_down dst src i m =
     (if 0 <=s i then copy_down dst src (i - 1) (m(dst + i := m (src + i))) else m)"
  by pat_completeness auto

termination
proof (relation "measure (\<lambda>(dst, src, i, m). nat (sint i + 1))")
  fix dst src i :: u64 and m :: memory
  assume "0 <=s i"
  then have "0 \<le> sint i" by (simp add: word_sle_eq)
  moreover from this have "sint (i - 1) = sint i - 1"
  proof -
    have "sint i < 2 ^ 63" using sint_lt [of i] by simp
    then have "signed_take_bit 63 (sint i - 1) = sint i - 1"
      using \<open>0 \<le> sint i\<close> by (intro signed_take_bit_int_eq_self) auto
    then show ?thesis by (simp add: signed_minus_1 sint_word_ariths(2))
  qed
  ultimately show "((dst, src, i - 1, m(dst + i := m (src + i))), dst, src, i, m) \<in> measure (\<lambda>(dst, src, i, m). nat (sint i + 1))"
    by simp
qed simp

declare copy_down.simps [simp del]

definition d_r_memmove :: "(u64 \<Rightarrow> u64 \<Rightarrow> u64 \<Rightarrow> memory \<Rightarrow> memory) \<Rightarrow> u64 \<Rightarrow> u64 \<Rightarrow> u64 \<Rightarrow> memory \<Rightarrow> memory" where
  "d_r_memmove memcpy dst src n m = (if dst < src then memcpy dst src n m else copy_down dst src (n - 1) m)"

subsection \<open>Comparison\<close>

partial_function (option) strcmp_from :: "memory \<Rightarrow> u64 \<Rightarrow> u64 \<Rightarrow> u64 \<Rightarrow> int option" where
  "strcmp_from m left right i =
     (if m (left + i) \<noteq> 0 \<or> m (right + i) \<noteq> 0 then
        if m (left + i) <s m (right + i) then Some (- 1)
        else if m (right + i) <s m (left + i) then Some 1
        else strcmp_from m left right (i + 1)
      else Some 0)"

definition d_r_strcmp :: "memory \<Rightarrow> u64 \<Rightarrow> u64 \<Rightarrow> int option" where
  "d_r_strcmp m left right = strcmp_from m left right 0"

partial_function (option) strncmp_from :: "memory \<Rightarrow> u64 \<Rightarrow> u64 \<Rightarrow> u64 \<Rightarrow> u64 \<Rightarrow> int option" where
  "strncmp_from m left right n i =
     (if i < n \<and> (m (left + i) \<noteq> 0 \<or> m (right + i) \<noteq> 0) then
        if m (left + i) <s m (right + i) then Some (- 1)
        else if m (right + i) <s m (left + i) then Some 1
        else strncmp_from m left right n (i + 1)
      else Some 0)"

definition d_r_strncmp :: "memory \<Rightarrow> u64 \<Rightarrow> u64 \<Rightarrow> u64 \<Rightarrow> int option" where
  "d_r_strncmp m left right n = strncmp_from m left right n 0"

partial_function (option) memcmp_from :: "memory \<Rightarrow> u64 \<Rightarrow> u64 \<Rightarrow> u64 \<Rightarrow> u64 \<Rightarrow> int option" where
  "memcmp_from m left right n i =
     (if i < n then
        if m (left + i) < m (right + i) then Some (- 1)
        else if m (right + i) < m (left + i) then Some 1
        else memcmp_from m left right n (i + 1)
      else Some 0)"

definition d_r_memcmp :: "memory \<Rightarrow> u64 \<Rightarrow> u64 \<Rightarrow> u64 \<Rightarrow> int option" where
  "d_r_memcmp m left right n = memcmp_from m left right n 0"

partial_function (option) strstr_from :: "memory \<Rightarrow> u64 \<Rightarrow> u64 \<Rightarrow> u64 \<Rightarrow> u64 option" where
  "strstr_from m cur needle needle_len =
     (if m cur \<noteq> 0 then do {
        r \<leftarrow> d_r_strncmp m cur needle needle_len;
        if r = 0 then Some cur else strstr_from m (cur + 1) needle needle_len }
      else Some 0)"

definition d_r_strstr :: "memory \<Rightarrow> u64 \<Rightarrow> u64 \<Rightarrow> u64 option" where
  "d_r_strstr m haystack needle = do {
     needle_len \<leftarrow> d_r_strlen m needle;
     strstr_from m haystack needle needle_len }"

definition d_r_tolower :: "u32 \<Rightarrow> u32" where
  "d_r_tolower c = (if 65 <=s c \<and> c <=s 90 then c - (65 - 97) else c)"

partial_function (option) strcasecmp_from :: "memory \<Rightarrow> u64 \<Rightarrow> u64 \<Rightarrow> u64 \<Rightarrow> int option" where
  "strcasecmp_from m left right i =
     (if m (left + i) \<noteq> 0 \<or> m (right + i) \<noteq> 0 then
        let l = d_r_tolower (char_int (m (left + i))); r = d_r_tolower (char_int (m (right + i)))
        in if l <s r then Some (- 1)
           else if r <s l then Some 1
           else strcasecmp_from m left right (i + 1)
      else Some 0)"

definition d_r_strcasecmp :: "memory \<Rightarrow> u64 \<Rightarrow> u64 \<Rightarrow> int option" where
  "d_r_strcasecmp m left right = strcasecmp_from m left right 0"

subsection \<open>Parsing numbers\<close>

text \<open>The digit of a character; \<open>None\<close> breaks the loop.\<close>

definition parse_digit :: "u8 \<Rightarrow> u32 option" where
  "parse_digit c =
     (let d = char_int c
      in if 48 \<le> d \<and> d \<le> 57 then Some (d - 48)
         else if 97 \<le> d \<and> d \<le> 122 then Some (d - 97 + 10)
         else if 65 \<le> d \<and> d \<le> 90 then Some (d - 65 + 10)
         else None)"

partial_function (option) parse_digits :: "memory \<Rightarrow> u64 \<Rightarrow> u32 \<Rightarrow> u32 \<Rightarrow> u32 \<Rightarrow> u64 \<Rightarrow> (u32 \<times> u64) option" where
  "parse_digits m sp base width i res =
     (if width = 0 \<or> i < width then
        case parse_digit (m (sp + ucast i)) of
          None \<Rightarrow> Some (i, res)
        | Some d \<Rightarrow> if base \<le> d then Some (i, res)
            else parse_digits m sp base width (i + 1) (res * ucast base + ucast d)
      else Some (i, res))"

text \<open>The result is the returned pointer and what was stored at \<^verbatim>\<open>res_out\<close>, if anything was.\<close>

definition d_r_parse_int :: "memory \<Rightarrow> u64 \<Rightarrow> u32 \<Rightarrow> u32 \<Rightarrow> bool \<Rightarrow> (u64 \<times> u64 option) option" where
  "d_r_parse_int m sp base width is_signed =
     (if base > 36 \<or> base = 1 then Some (0, Some (- 1))
      else
        let negative = (is_signed \<and> m sp = 45);
            sp = (if negative then sp + 1 else sp);
            sp = (if \<not> negative \<and> m sp = 43 then sp + 1 else sp);
            hex = ((base = 0 \<or> base = 16) \<and> m sp = 48 \<and> m (sp + 1) = 120);
            sp = (if hex then sp + 2 else sp);
            base = (if hex \<and> base = 0 then 16 else base);
            oct = (base = 0 \<and> m sp = 48);
            sp = (if oct then sp + 1 else sp);
            base = (if oct then 8 else base);
            base = (if base = 0 then 10 else base)
        in do {
          (i, res) \<leftarrow> parse_digits m sp base width 0 0;
          Some (if i = 0 then (0, None) else (sp + ucast i, Some (if negative then - res else res))) })"

text \<open>The value and the end pointer; the caller may not ask for the latter.\<close>

definition d_r_strtoul :: "memory \<Rightarrow> u64 \<Rightarrow> u32 \<Rightarrow> (u64 \<times> u64) option" where
  "d_r_strtoul m str base = do {
     (parse_end, num) \<leftarrow> d_r_parse_int m str base 0 True;
     if parse_end = 0 then Some (- 1, parse_end)
     else do { num \<leftarrow> num; Some (num, parse_end) } }"

declare strlen_from.simps [code] wcslen_from.simps [code] d_r_strchr.simps [code] strrchr_from.simps [code] strcmp_from.simps [code]
  strncmp_from.simps [code] memcmp_from.simps [code] strstr_from.simps [code] strcasecmp_from.simps [code]
  parse_digits.simps [code]

end
