(* ===== verification/CPrintf.thy ===== *)
theory CPrintf
  imports CString
begin

text \<open>
  DynamoRIO's own \<^verbatim>\<open>snprintf\<close> (\<^verbatim>\<open>src/dynamorio/core/iox.h\<close>, the narrow version on 64-bit Linux), over a memory of bytes. The
  variable arguments are the list of their 64-bit values; an \<^verbatim>\<open>int\<close> is the low half of one. \<open>None\<close> is a failed assertion
  (the format ends inside a conversion, a conversion is unknown, a precision is larger than the local buffer), a read of
  address 0, or a loop that does not end. The conversions of \<^verbatim>\<open>double\<close> values are not modelled, nor is a null
  wide string, for which the code prints what the conversion before has left: they give \<open>None\<close> as well.
\<close>

type_synonym va_list = "u64 list"

definition va_arg :: "va_list \<Rightarrow> (u64 \<times> va_list) option" where
  "va_arg ap = (case ap of [] \<Rightarrow> None | a # ap \<Rightarrow> Some (a, ap))"

definition int_arg :: "u64 \<Rightarrow> u32" where
  "int_arg a = ucast a"

subsection \<open>Numbers\<close>

definition base_letters :: "u8 list" where
  "base_letters = [48, 49, 50, 51, 52, 53, 54, 55, 56, 57, 97, 98, 99, 100, 101, 102]"

definition base_letters_cap :: "u8 list" where
  "base_letters_cap = [48, 49, 50, 51, 52, 53, 54, 55, 56, 57, 65, 66, 67, 68, 69, 70]"

text \<open>The buffer is filled from its end, one digit for each of \<open>cnt\<close> places.\<close>

fun digit_loop :: "nat \<Rightarrow> u64 \<Rightarrow> u32 \<Rightarrow> bool \<Rightarrow> u8 list" where
  "digit_loop 0 num base caps = []"
| "digit_loop (Suc cnt) num base caps =
     digit_loop cnt (num div scast base) base caps @
     [(if caps then base_letters_cap else base_letters) ! unat (num mod scast base)]"

fun skip_zeros :: "u8 list \<Rightarrow> u32 \<Rightarrow> u32 \<Rightarrow> u8 list" where
  "skip_zeros [] num_end decimal = []"
| "skip_zeros (c # cs) num_end decimal =
     (if c \<noteq> 0 \<and> c = 48 \<and> 0 <s num_end - decimal then skip_zeros cs num_end (decimal + 1) else c # cs)"

definition uint64_to_str :: "u64 \<Rightarrow> u32 \<Rightarrow> u32 \<Rightarrow> bool \<Rightarrow> u8 list option" where
  "uint64_to_str num base decimal caps = do {
     let num_end = (if decimal <s 43 then 43 else decimal);
     ASSERT (decimal <s 64 - 1);
     Some (skip_zeros (digit_loop (unat num_end) num base caps) num_end decimal) }"

definition ulong_to_str :: "u64 \<Rightarrow> u32 \<Rightarrow> u32 \<Rightarrow> bool \<Rightarrow> u8 list option" where
  "ulong_to_str num base decimal caps = do {
     let num_end = (if decimal <s 22 then 22 else decimal);
     ASSERT (decimal <s 64 - 1);
     Some (skip_zeros (digit_loop (unat num_end) num base caps) num_end decimal) }"

subsection \<open>The parts of a conversion specification\<close>

record printf_spec =
  fill_count :: u32
  filler :: u8
  decimal :: u32
  minus_flag :: bool
  plus_flag :: bool
  pound_flag :: bool
  space_flag :: bool
  h_type :: bool
  l_type :: bool
  ll_type :: bool

definition init_spec :: printf_spec where
  "init_spec = \<lparr>fill_count = 0, filler = 32, decimal = - 1, minus_flag = False, plus_flag = False, pound_flag = False,
     space_flag = False, h_type = False, l_type = False, ll_type = False\<rparr>"

definition one_flag :: "u8 \<Rightarrow> printf_spec \<Rightarrow> printf_spec" where
  "one_flag ch p =
     (let p = (if ch = 48 then p\<lparr>filler := 48\<rparr> else p);
          p = (if ch = 45 then p\<lparr>minus_flag := True\<rparr> else p);
          p = (if ch = 43 then p\<lparr>plus_flag := True\<rparr> else p);
          p = (if ch = 35 then p\<lparr>pound_flag := True\<rparr> else p)
      in if ch = 32 then p\<lparr>space_flag := True\<rparr> else p)"

partial_function (option) collect_flags :: "memory \<Rightarrow> u64 \<Rightarrow> printf_spec \<Rightarrow> (u64 \<times> printf_spec) option" where
  "collect_flags m c p =
     (if m c = 48 \<or> m c = 45 \<or> m c = 35 \<or> m c = 43 \<or> m c = 32 then
        if m (c + 1) = 0 then None else collect_flags m (c + 1) (one_flag (m c) p)
      else Some (c, p))"

definition get_flags :: "memory \<Rightarrow> u64 \<Rightarrow> (u64 \<times> printf_spec) option" where
  "get_flags m c = do {
     (c, p) \<leftarrow> collect_flags m c init_spec;
     let p = (if minus_flag p then p\<lparr>filler := 32\<rparr> else p);
     let p = (if plus_flag p then p\<lparr>space_flag := False\<rparr> else p);
     Some (c, p) }"

text \<open>The loop over the digits of a width or of a precision.\<close>

partial_function (option) scan_number :: "memory \<Rightarrow> u64 \<Rightarrow> u32 \<Rightarrow> (u64 \<times> u32) option" where
  "scan_number m c num =
     (if 48 <=s m c \<and> m c <=s 57 then
        if m (c + 1) = 0 then None else scan_number m (c + 1) (num * 10 + (char_int (m c) - 48))
      else Some (c, num))"

definition get_width :: "memory \<Rightarrow> u64 \<Rightarrow> va_list \<Rightarrow> printf_spec \<Rightarrow> (u64 \<times> va_list \<times> printf_spec) option" where
  "get_width m c ap p =
     (if m c = 42 then do {
        (a, ap) \<leftarrow> va_arg ap;
        let fill = int_arg a;
        let p = (if fill <s 0 then p\<lparr>minus_flag := True, fill_count := - fill\<rparr> else p\<lparr>fill_count := fill\<rparr>);
        ASSERT (m (c + 1) \<noteq> 0);
        Some (c + 1, ap, p) }
      else do {
        (c, fill) \<leftarrow> scan_number m c 0;
        Some (c, ap, p\<lparr>fill_count := fill\<rparr>) })"

definition get_precision :: "memory \<Rightarrow> u64 \<Rightarrow> va_list \<Rightarrow> printf_spec \<Rightarrow> (u64 \<times> va_list \<times> printf_spec) option" where
  "get_precision m c ap p =
     (if m c = 46 then do {
        let c = c + 1;
        ASSERT (m c \<noteq> 0);
        if m c = 42 then do {
          (a, ap) \<leftarrow> va_arg ap;
          ASSERT (m (c + 1) \<noteq> 0);
          Some (c + 1, ap, p\<lparr>decimal := int_arg a\<rparr>) }
        else do {
          (c, num) \<leftarrow> scan_number m c 0;
          Some (c, ap, p\<lparr>decimal := num\<rparr>) } }
      else Some (c, ap, p))"

definition get_size :: "memory \<Rightarrow> u64 \<Rightarrow> printf_spec \<Rightarrow> (u64 \<times> printf_spec) option" where
  "get_size m c p =
     (if m c = 108 \<or> m c = 76 \<or> m c = 104 \<or> m c = 122 then do {
        let p = (if m c = 76 then p\<lparr>ll_type := True\<rparr> else p);
        let p = (if m c = 104 then p\<lparr>h_type := True\<rparr> else p);
        let p = (if m c = 122 then p\<lparr>l_type := True\<rparr> else p);
        ASSERT (m (c + 1) \<noteq> 0);
        if m c = 108 then
          if m (c + 1) = 108 then do { ASSERT (m (c + 2) \<noteq> 0); Some (c + 2, p\<lparr>ll_type := True\<rparr>) }
          else Some (c + 1, p\<lparr>l_type := True\<rparr>)
        else Some (c + 1, p) }
      else if m c = 73 then
        if m (c + 1) = 54 \<and> m (c + 2) = 52 then do { ASSERT (m (c + 3) \<noteq> 0); Some (c + 3, p\<lparr>ll_type := True\<rparr>) }
        else if m (c + 1) = 51 \<and> m (c + 2) = 50 then do { ASSERT (m (c + 3) \<noteq> 0); Some (c + 3, p\<lparr>l_type := True\<rparr>) }
        else None
      else Some (c, p))"

text \<open>Everything between the percent sign and the letter of the conversion.\<close>

definition get_spec :: "memory \<Rightarrow> u64 \<Rightarrow> va_list \<Rightarrow> (u64 \<times> va_list \<times> printf_spec) option" where
  "get_spec m c ap = do {
     ASSERT (m c \<noteq> 0);
     (c, p) \<leftarrow> get_flags m c;
     (c, ap, p) \<leftarrow> get_width m c ap p;
     (c, ap, p) \<leftarrow> get_precision m c ap p;
     (c, p) \<leftarrow> get_size m c p;
     Some (c, ap, p) }"

subsection \<open>The conversions\<close>

text \<open>The string that is printed: a local buffer or a pointer of the caller.\<close>

datatype str_ptr = Local "u8 list" | In_mem u64

definition default_decimal :: "printf_spec \<Rightarrow> printf_spec" where
  "default_decimal p = (if decimal p = - 1 then p\<lparr>decimal := 1\<rparr> else p\<lparr>filler := 32\<rparr>)"

definition convert_signed :: "printf_spec \<Rightarrow> va_list \<Rightarrow> (str_ptr \<times> u8 list \<times> printf_spec \<times> va_list) option" where
  "convert_signed p ap = do {
     let p = default_decimal p;
     (a, ap) \<leftarrow> va_arg ap;
     let val = (if ll_type p \<or> l_type p then a else scast (int_arg a));
     let negative = (val <s 0);
     let abval = (if negative then - val else val);
     let prefixbuf = (if negative then [45] else if plus_flag p then [43] else if space_flag p then [32] else []);
     str \<leftarrow> (if ll_type p then uint64_to_str abval 10 (decimal p) False else ulong_to_str abval 10 (decimal p) False);
     Some (Local str, prefixbuf, p, ap) }"

definition convert_unsigned :: "u8 \<Rightarrow> printf_spec \<Rightarrow> va_list \<Rightarrow> (str_ptr \<times> u8 list \<times> printf_spec \<times> va_list) option" where
  "convert_unsigned ch p ap = do {
     let p = (if ch = 117 then default_decimal p else p);
     if ch = 117 \<and> ll_type p then do {
       (a, ap) \<leftarrow> va_arg ap;
       str \<leftarrow> uint64_to_str a 10 (decimal p) False;
       Some (Local str, [], p, ap) }
     else do {
       let p = default_decimal p;
       let p = (if ch = 112 then p\<lparr>decimal := 16\<rparr> else p);
       let prefixbuf = (if pound_flag p \<and> ch \<noteq> 117 \<or> ch = 112 then
           48 # (if ch = 120 \<or> ch = 112 then [120] else if ch = 88 then [88] else []) else []);
       let base = (if ch = 120 \<or> ch = 88 \<or> ch = 112 then 16 else if ch = 111 then 8 else 10);
       let caps = (ch = 88);
       (a, ap) \<leftarrow> va_arg ap;
       str \<leftarrow> (if ch = 112 then uint64_to_str a base (decimal p) caps
         else if l_type p then ulong_to_str a base (decimal p) caps
         else if h_type p then ulong_to_str (ucast (int_arg a)) base (decimal p) caps
         else if ll_type p then uint64_to_str a base (decimal p) caps
         else ulong_to_str (ucast (int_arg a)) base (decimal p) caps);
       Some (Local str, prefixbuf, p, ap) } }"

text \<open>\<^verbatim>\<open>CHECK_TRUNCATE_TYPE_int\<close>\<close>

definition fits_int :: "u64 \<Rightarrow> bool" where
  "fits_int w \<longleftrightarrow> w <=s 0x7fffffff \<and> - 0x80000000 <=s w"

text \<open>The number of characters so far, stored where an argument points to.\<close>

definition store_count :: "memory \<Rightarrow> u64 \<Rightarrow> printf_spec \<Rightarrow> va_list \<Rightarrow> (memory \<times> va_list) option" where
  "store_count m written p ap = do {
     ASSERT (fits_int written);
     (a, ap) \<leftarrow> va_arg ap;
     Some (write_mem m a (le_bytes (if l_type p then 8 else if h_type p then 2 else 4) (unat (ucast written :: u32))), ap) }"

text \<open>The dispatch gives the string, the wide string or 0, the prefix, the specification, the memory and the arguments.\<close>

definition convert :: "memory \<Rightarrow> u8 \<Rightarrow> printf_spec \<Rightarrow> va_list \<Rightarrow> u64 \<Rightarrow>
    (str_ptr \<times> u64 \<times> u8 list \<times> printf_spec \<times> memory \<times> va_list) option" where
  "convert m ch p ap written =
     (if ch = 37 then Some (Local [37], 0, [], p, m, ap)
      else if ch = 100 \<or> ch = 105 then do {
        (str, prefixbuf, p, ap) \<leftarrow> convert_signed p ap;
        Some (str, 0, prefixbuf, p, m, ap) }
      else if ch = 117 \<or> ch = 120 \<or> ch = 88 \<or> ch = 111 \<or> ch = 112 then do {
        (str, prefixbuf, p, ap) \<leftarrow> convert_unsigned ch p ap;
        Some (str, 0, prefixbuf, p, m, ap) }
      else if ch = 99 then do {
        (a, ap) \<leftarrow> va_arg ap;
        Some (Local [ucast (int_arg a)], 0, [], p, m, ap) }
      else if ch = 115 \<and> \<not> l_type p then do {
        (a, ap) \<leftarrow> va_arg ap;
        Some (In_mem a, 0, [], p, m, ap) }
      else if ch = 115 \<or> ch = 83 then do {
        (a, ap) \<leftarrow> va_arg ap;
        ASSERT (a \<noteq> 0);
        Some (In_mem 0, a, [], p\<lparr>l_type := True\<rparr>, m, ap) }
      else if ch = 110 then do {
        (m, ap) \<leftarrow> store_count m written p ap;
        Some (Local [], 0, [], p, m, ap) }
      else None)"

subsection \<open>Output\<close>

fun str_char :: "memory \<Rightarrow> str_ptr \<Rightarrow> u8" where
  "str_char m (Local bs) = (case bs of [] \<Rightarrow> 0 | b # _ \<Rightarrow> b)"
| "str_char m (In_mem a) = m a"

fun str_next :: "str_ptr \<Rightarrow> str_ptr" where
  "str_next (Local bs) = Local (tl bs)"
| "str_next (In_mem a) = In_mem (a + 1)"

fun str_length :: "memory \<Rightarrow> str_ptr \<Rightarrow> u64 option" where
  "str_length m (Local bs) = Some (of_nat (length (takeWhile (\<lambda>b. b \<noteq> 0) bs)))"
| "str_length m (In_mem a) = (if a = 0 then None else d_r_strlen m a)"

text \<open>The number of fill characters.\<close>

definition rest_fill :: "memory \<Rightarrow> printf_spec \<Rightarrow> u8 list \<Rightarrow> str_ptr \<Rightarrow> u64 \<Rightarrow> u32 option" where
  "rest_fill m p prefixbuf str wstr =
     (if 0 <s fill_count p then do {
        let plen = of_nat (length prefixbuf);
        len \<leftarrow> (if wstr \<noteq> 0 then d_r_wcslen m wstr else str_length m str);
        ASSERT (len + plen \<le> 0xffffffff);
        Some (fill_count p - ucast (len + plen)) }
      else Some (fill_count p))"

text \<open>A memory alone has reached \<^verbatim>\<open>max\<close> characters; otherwise it comes with the place of the next one.\<close>

type_synonym out = "memory + memory \<times> u64"

definition unless_full :: "out \<Rightarrow> (memory \<Rightarrow> u64 \<Rightarrow> out) \<Rightarrow> out" where
  "unless_full st f = (case st of Inl m \<Rightarrow> Inl m | Inr (m, s) \<Rightarrow> f m s)"

fun emit_chars :: "u64 \<Rightarrow> u64 \<Rightarrow> u8 list \<Rightarrow> memory \<Rightarrow> u64 \<Rightarrow> out" where
  "emit_chars start mx [] m s = Inr (m, s)"
| "emit_chars start mx (ch # chs) m s =
     (if mx \<le> s - start then Inl m else emit_chars start mx chs (m(s := ch)) (s + 1))"

partial_function (option) emit_str :: "u64 \<Rightarrow> u64 \<Rightarrow> u64 \<Rightarrow> str_ptr \<Rightarrow> u32 \<Rightarrow> memory \<Rightarrow> u64 \<Rightarrow> out option" where
  "emit_str start mx c str prec m s =
     (if str_char m str = 0 then Some (Inr (m, s))
      else if mx \<le> s - start then Some (Inl m)
      else if m c = 115 \<and> prec = 0 then Some (Inr (m, s))
      else emit_str start mx c (str_next str) (prec - 1) (m(s := str_char m str)) (s + 1))"

partial_function (option) emit_wstr :: "u64 \<Rightarrow> u64 \<Rightarrow> u64 \<Rightarrow> u64 \<Rightarrow> u32 \<Rightarrow> memory \<Rightarrow> u64 \<Rightarrow> out option" where
  "emit_wstr start mx c wstr prec m s =
     (let wc = read_wchar m wstr
      in if wc = 0 then Some (Inr (m, s))
         else if mx \<le> s - start then Some (Inl m)
         else if (m c = 115 \<or> m c = 83) \<and> prec = 0 then Some (Inr (m, s))
         else if (ucast wc :: u16) \<le> 255 then emit_wstr start mx c (wstr + 4) (prec - 1) (m(s := ucast wc)) (s + 1)
         else None)"

text \<open>The text of a null pointer.\<close>

definition null_text :: str_ptr where
  "null_text = Local [60, 78, 85, 76, 76, 62]"

definition emit_arg :: "u64 \<Rightarrow> u64 \<Rightarrow> u64 \<Rightarrow> str_ptr \<Rightarrow> u64 \<Rightarrow> printf_spec \<Rightarrow> memory \<Rightarrow> u64 \<Rightarrow> out option" where
  "emit_arg start mx c str wstr p m s =
     (if wstr \<noteq> 0 then emit_wstr start mx c wstr (decimal p) m s
      else emit_str start mx c (if str = In_mem 0 then null_text else str) (decimal p) m s)"

text \<open>Prefix, fill characters and string, in the order the flags ask for. A zero as the filler comes behind the prefix.\<close>

definition emit_lead :: "u64 \<Rightarrow> u64 \<Rightarrow> u8 list \<Rightarrow> u32 \<Rightarrow> printf_spec \<Rightarrow> memory \<Rightarrow> u64 \<Rightarrow> out" where
  "emit_lead start mx prefixbuf fill p m s =
     unless_full (emit_chars start mx (if filler p = 48 then prefixbuf else []) m s) (\<lambda>m s.
     unless_full (emit_chars start mx (if 0 <s fill \<and> \<not> minus_flag p then replicate (unat fill) (filler p) else []) m s) (\<lambda>m s.
     emit_chars start mx (if filler p \<noteq> 48 then prefixbuf else []) m s))"

definition emit_field :: "u64 \<Rightarrow> u64 \<Rightarrow> u64 \<Rightarrow> u8 list \<Rightarrow> u32 \<Rightarrow> str_ptr \<Rightarrow> u64 \<Rightarrow> printf_spec \<Rightarrow> memory \<Rightarrow> u64 \<Rightarrow> out option" where
  "emit_field start mx c prefixbuf fill str wstr p m s =
     (case emit_lead start mx prefixbuf fill p m s of Inl m \<Rightarrow> Some (Inl m)
      | Inr (m, s) \<Rightarrow> do {
          st \<leftarrow> emit_arg start mx c str wstr p m s;
          Some (unless_full st (emit_chars start mx (if 0 <s fill \<and> minus_flag p then replicate (unat fill) (filler p) else []))) })"

text \<open>Characters of the format up to a percent sign.\<close>

partial_function (option) scan_literal :: "memory \<Rightarrow> u64 \<Rightarrow> u64 option" where
  "scan_literal m c = (if m c \<noteq> 0 \<and> m c \<noteq> 37 then scan_literal m (c + 1) else Some c)"

partial_function (option) copy_literal :: "u64 \<Rightarrow> u64 \<Rightarrow> u64 \<Rightarrow> u64 \<Rightarrow> memory \<Rightarrow> u64 \<Rightarrow> out option" where
  "copy_literal start mx cstart c m s =
     (if cstart < c then
        if mx \<le> s - start then Some (Inl m)
        else copy_literal start mx (cstart + 1) c (m(s := m cstart)) (s + 1)
      else Some (Inr (m, s)))"

subsection \<open>The loop over the format\<close>

text \<open>One conversion, from the percent sign on: the place behind it, the arguments left and the output.\<close>

definition one_conversion :: "u64 \<Rightarrow> u64 \<Rightarrow> u64 \<Rightarrow> va_list \<Rightarrow> memory \<Rightarrow> u64 \<Rightarrow> (u64 \<times> va_list \<times> out) option" where
  "one_conversion start mx c ap m s = do {
     (c, ap, p) \<leftarrow> get_spec m (c + 1) ap;
     (str, wstr, prefixbuf, p, m, ap) \<leftarrow> convert m (m c) p ap (s - start);
     fill \<leftarrow> rest_fill m p prefixbuf str wstr;
     st \<leftarrow> emit_field start mx c prefixbuf fill str wstr p m s;
     Some (c + 1, ap, st) }"

definition finish_output :: "u64 \<Rightarrow> u64 \<Rightarrow> memory \<Rightarrow> u64 \<Rightarrow> (u32 \<times> memory) option" where
  "finish_output start mx m s = do {
     ASSERT (fits_int (s - start));
     Some (ucast (s - start), if mx = 0 \<or> s - start < mx then m(s := 0) else m) }"

partial_function (option) vsnprintf_loop :: "u64 \<Rightarrow> u64 \<Rightarrow> u64 \<Rightarrow> va_list \<Rightarrow> memory \<Rightarrow> u64 \<Rightarrow> (u32 \<times> memory) option" where
  "vsnprintf_loop start mx c ap m s =
     (if m c = 0 then finish_output start mx m s
      else if m c = 37 then do {
        (c, ap, st) \<leftarrow> one_conversion start mx c ap m s;
        (case st of Inl m \<Rightarrow> Some (- 1, m) | Inr (m, s) \<Rightarrow> vsnprintf_loop start mx c ap m s) }
      else do {
        c' \<leftarrow> scan_literal m c;
        st \<leftarrow> copy_literal start mx c c' m s;
        (case st of Inl m \<Rightarrow> Some (- 1, m) | Inr (m, s) \<Rightarrow> vsnprintf_loop start mx c' ap m s) })"

definition d_r_vsnprintf :: "u64 \<Rightarrow> u64 \<Rightarrow> u64 \<Rightarrow> va_list \<Rightarrow> memory \<Rightarrow> (u32 \<times> memory) option" where
  "d_r_vsnprintf s mx fmt ap m =
     (if fmt = 0 then Some (0, m)
      else if mx = 0 then Some (- 1, m)
      else vsnprintf_loop s mx fmt ap m s)"

definition d_r_snprintf :: "u64 \<Rightarrow> u64 \<Rightarrow> u64 \<Rightarrow> va_list \<Rightarrow> memory \<Rightarrow> (u32 \<times> memory) option" where
  "d_r_snprintf s mx fmt ap m = do { ASSERT (s \<noteq> 0); d_r_vsnprintf s mx fmt ap m }"

declare collect_flags.simps [code] scan_number.simps [code] emit_str.simps [code] emit_wstr.simps [code]
  scan_literal.simps [code] copy_literal.simps [code] vsnprintf_loop.simps [code]

end
