(* ===== verification/CScanf.thy ===== *)
theory CScanf
  imports CPrintf
begin

text \<open>
  DynamoRIO's own \<^verbatim>\<open>sscanf\<close> (\<^verbatim>\<open>src/dynamorio/core/io.c\<close>), over a memory of bytes. The variable arguments are the addresses the
  results are stored at. \<open>None\<close> is a failed assertion (a modifier or conversion that is not supported, a missing argument)
  or a loop that does not end.
\<close>

datatype specifier_t = SPEC_INT | SPEC_CHAR | SPEC_STRING | SPEC_CHARSET

datatype int_sz_t = SZ_SHORT | SZ_INT | SZ_LONG | SZ_LONGLONG

abbreviation SZ_PTR :: int_sz_t where
  "SZ_PTR \<equiv> SZ_LONG"

definition our_isspace :: "u8 \<Rightarrow> bool" where
  "our_isspace c \<longleftrightarrow> c = 32 \<or> c = 12 \<or> c = 10 \<or> c = 13 \<or> c = 9 \<or> c = 11"

subsection \<open>Character sets\<close>

partial_function (option) charset_loop :: "memory \<Rightarrow> u64 \<Rightarrow> u64 \<Rightarrow> u8 \<Rightarrow> bool option" where
  "charset_loop m charset_proper fp c =
     (if m fp \<noteq> 93 \<or> fp = charset_proper then
        if c = m fp then Some True
        else if m (fp + 1) = 45 \<and> m (fp + 2) \<noteq> 93 then
          if m fp <=s c \<and> c <=s m (fp + 2) then Some True
          else charset_loop m charset_proper (fp + 3) c
        else charset_loop m charset_proper (fp + 1) c
      else Some False)"

definition in_charset_helper :: "memory \<Rightarrow> u64 \<Rightarrow> u8 \<Rightarrow> bool option" where
  "in_charset_helper m charset_proper c = charset_loop m charset_proper charset_proper c"

definition in_charset :: "memory \<Rightarrow> u64 \<Rightarrow> u8 \<Rightarrow> bool option" where
  "in_charset m charset c =
     (if m charset = 94 then map_option Not (in_charset_helper m (charset + 1) c)
      else in_charset_helper m charset c)"

subsection \<open>Conversion specifications\<close>

record scanf_spec =
  sc_spec :: specifier_t
  int_size :: int_sz_t
  sc_base :: u32
  is_signed :: bool
  is_ignored :: bool
  sc_width :: u32
  sc_charset :: u64

definition init_scanf_spec :: scanf_spec where
  "init_scanf_spec = \<lparr>sc_spec = SPEC_INT, int_size = SZ_INT, sc_base = 10, is_signed = False, is_ignored = False, sc_width = 0, sc_charset = 0\<rparr>"

partial_function (option) find_bracket :: "memory \<Rightarrow> u64 \<Rightarrow> u64 option" where
  "find_bracket m fp = (if m fp \<noteq> 93 \<and> m fp \<noteq> 0 then find_bracket m (fp + 1) else Some fp)"

text \<open>The place behind the opening bracket is kept; the format goes on at the closing bracket itself.\<close>

definition charset_end :: "memory \<Rightarrow> u64 \<Rightarrow> u64 option" where
  "charset_end m fp = do {
     let fp = (if m fp = 94 then fp + 1 else fp);
     let fp = (if m fp = 93 then fp + 1 else fp);
     fp \<leftarrow> find_bracket m fp;
     ASSERT (m fp = 93);
     Some fp }"

partial_function (option) get_scanf_spec :: "memory \<Rightarrow> u64 \<Rightarrow> scanf_spec \<Rightarrow> (u64 \<times> scanf_spec) option" where
  "get_scanf_spec m fp s =
     (let c = m fp; fp = fp + 1
      in if c = 108 then
           if int_size s = SZ_INT then get_scanf_spec m fp (s\<lparr>int_size := SZ_LONG\<rparr>)
           else if int_size s = SZ_LONG then get_scanf_spec m fp (s\<lparr>int_size := SZ_LONGLONG\<rparr>)
           else None
         else if c = 104 then if int_size s = SZ_INT then get_scanf_spec m fp (s\<lparr>int_size := SZ_SHORT\<rparr>) else None
         else if c = 122 then if int_size s = SZ_INT then get_scanf_spec m fp (s\<lparr>int_size := SZ_LONG\<rparr>) else None
         else if c = 42 then get_scanf_spec m fp (s\<lparr>is_ignored := True\<rparr>)
         else if 48 \<le> c \<and> c \<le> 57 then get_scanf_spec m fp (s\<lparr>sc_width := sc_width s * 10 + char_int c - 48\<rparr>)
         else if c = 73 then
           if m fp = 51 \<and> m (fp + 1) = 50 then get_scanf_spec m fp (s\<lparr>int_size := SZ_INT\<rparr>)
           else if m fp = 54 \<and> m (fp + 1) = 52 then get_scanf_spec m fp (s\<lparr>int_size := SZ_LONGLONG\<rparr>)
           else None
         else if c = 117 then Some (fp, s\<lparr>sc_spec := SPEC_INT, is_signed := False\<rparr>)
         else if c = 100 then Some (fp, s\<lparr>sc_spec := SPEC_INT, is_signed := True\<rparr>)
         else if c = 120 then Some (fp, s\<lparr>sc_spec := SPEC_INT, is_signed := False, sc_base := 16\<rparr>)
         else if c = 112 then Some (fp, s\<lparr>int_size := SZ_PTR, sc_spec := SPEC_INT, is_signed := False, sc_base := 16\<rparr>)
         else if c = 99 then Some (fp, s\<lparr>sc_spec := SPEC_CHAR\<rparr>)
         else if c = 115 then Some (fp, s\<lparr>sc_spec := SPEC_STRING\<rparr>)
         else if c = 91 then do {
           fp' \<leftarrow> charset_end m fp;
           Some (fp', s\<lparr>sc_spec := SPEC_CHARSET, sc_charset := fp\<rparr>) }
         else None)"

subsection \<open>Values\<close>

partial_function (option) skip_spaces :: "memory \<Rightarrow> u64 \<Rightarrow> u64 option" where
  "skip_spaces m sp = (if our_isspace (m sp) then skip_spaces m (sp + 1) else Some sp)"

text \<open>The characters of a string conversion; those of a set are looked up in the format. A width of 0 is none.\<close>

definition token_char :: "scanf_spec \<Rightarrow> memory \<Rightarrow> u8 \<Rightarrow> bool option" where
  "token_char s m c = (if sc_spec s = SPEC_STRING then Some (\<not> our_isspace c) else in_charset m (sc_charset s) c)"

partial_function (option) skip_token :: "scanf_spec \<Rightarrow> memory \<Rightarrow> u64 \<Rightarrow> u64 option" where
  "skip_token s m sp =
     (if m sp = 0 then Some sp
      else do {
        ok \<leftarrow> token_char s m (m sp);
        if ok then skip_token s m (sp + 1) else Some sp })"

partial_function (option) copy_token :: "scanf_spec \<Rightarrow> u64 \<Rightarrow> u32 \<Rightarrow> memory \<Rightarrow> u64 \<Rightarrow> (memory \<times> u64) option" where
  "copy_token s str_out i m sp =
     (if (sc_width s > 0 \<longrightarrow> i < sc_width s) \<and> m sp \<noteq> 0 then do {
        ok \<leftarrow> token_char s m (m sp);
        if ok then copy_token s (str_out + 1) (i + 1) (m(str_out := m sp)) (sp + 1)
        else Some (m(str_out := 0), sp) }
      else Some (m(str_out := 0), sp))"

fun int_bytes :: "int_sz_t \<Rightarrow> nat" where
  "int_bytes SZ_SHORT = 2"
| "int_bytes SZ_INT = 4"
| "int_bytes SZ_LONG = 8"
| "int_bytes SZ_LONGLONG = 8"

text \<open>The conversion of one value: \<open>None\<close> inside the result is a number without digits.\<close>

definition scan_value :: "scanf_spec \<Rightarrow> memory \<Rightarrow> u64 \<Rightarrow> va_list \<Rightarrow> (memory \<times> u64 \<times> va_list) option option" where
  "scan_value s m sp ap =
     (case sc_spec s of
        SPEC_CHAR \<Rightarrow>
          if is_ignored s then Some (Some (m, sp + 1, ap))
          else do { (a, ap) \<leftarrow> va_arg ap; Some (Some (m(a := m sp), sp + 1, ap)) }
      | SPEC_INT \<Rightarrow> do {
          sp \<leftarrow> skip_spaces m sp;
          (sp, res) \<leftarrow> d_r_parse_int m sp (sc_base s) (sc_width s) (is_signed s);
          if sp = 0 then Some None
          else if is_ignored s then Some (Some (m, sp, ap))
          else do {
            (a, ap) \<leftarrow> va_arg ap;
            res \<leftarrow> res;
            Some (Some (write_mem m a (le_bytes (int_bytes (int_size s)) (unat res)), sp, ap)) } }
      | _ \<Rightarrow>
          if is_ignored s then do { sp \<leftarrow> skip_token s m sp; Some (Some (m, sp, ap)) }
          else do {
            (a, ap) \<leftarrow> va_arg ap;
            (m, sp) \<leftarrow> copy_token s a 0 m sp;
            Some (Some (m, sp, ap)) })"

subsection \<open>The loop over the format\<close>

partial_function (option) vsscanf_loop :: "memory \<Rightarrow> u64 \<Rightarrow> u64 \<Rightarrow> va_list \<Rightarrow> u32 \<Rightarrow> (u32 \<times> memory) option" where
  "vsscanf_loop m sp fp ap num_parsed =
     (if m fp \<noteq> 0 \<and> m sp \<noteq> 0 then
        if our_isspace (m fp) then do {
          sp \<leftarrow> skip_spaces m sp;
          vsscanf_loop m sp (fp + 1) ap num_parsed }
        else if m fp \<noteq> 37 then
          if m fp \<noteq> m sp then Some (num_parsed, m)
          else vsscanf_loop m (sp + 1) (fp + 1) ap num_parsed
        else do {
          (fp, s) \<leftarrow> get_scanf_spec m (fp + 1) init_scanf_spec;
          scanned \<leftarrow> scan_value s m sp ap;
          (case scanned of
             None \<Rightarrow> Some (num_parsed, m)
           | Some (m, sp, ap) \<Rightarrow> vsscanf_loop m sp fp ap (if is_ignored s then num_parsed else num_parsed + 1)) }
      else Some (num_parsed, m))"

definition d_r_vsscanf :: "memory \<Rightarrow> u64 \<Rightarrow> u64 \<Rightarrow> va_list \<Rightarrow> (u32 \<times> memory) option" where
  "d_r_vsscanf m str fmt ap = vsscanf_loop m str fmt ap 0"

definition d_r_sscanf :: "memory \<Rightarrow> u64 \<Rightarrow> u64 \<Rightarrow> va_list \<Rightarrow> (u32 \<times> memory) option" where
  "d_r_sscanf m str fmt ap = d_r_vsscanf m str fmt ap"

declare charset_loop.simps [code] find_bracket.simps [code] get_scanf_spec.simps [code] skip_spaces.simps [code]
  skip_token.simps [code] copy_token.simps [code] vsscanf_loop.simps [code]

end
