(* ===== verification/CStringProps.thy ===== *)
theory CStringProps
  imports CString GenHash "HOL-Library.Sublist"
begin

text \<open>
  The string routines against functions on lists: the string at an address is the list of its bytes up to the terminator.
  Length, search, copying, comparison and the parser of numbers are shown to be what the C standard says of them, and the
  comparison of keys of the string hashtable to be the code's own.
\<close>

subsection \<open>Strings in memory\<close>

fun string_at :: "memory \<Rightarrow> u64 \<Rightarrow> u8 list \<Rightarrow> bool" where
  "string_at m p [] \<longleftrightarrow> m p = 0"
| "string_at m p (c # s) \<longleftrightarrow> c \<noteq> 0 \<and> m p = c \<and> string_at m (p + 1) s"

lemma cstring_append: "string_at m p (s @ s') \<longleftrightarrow> (\<forall>i < length s. m (p + of_nat i) = s ! i \<and> s ! i \<noteq> 0) \<and> string_at m (p + of_nat (length s)) s'"
proof (induction s arbitrary: p)
  case (Cons c s)
  have "(\<forall>i < Suc (length s). m (p + of_nat i) = (c # s) ! i \<and> (c # s) ! i \<noteq> 0) \<longleftrightarrow>
      m p = c \<and> c \<noteq> 0 \<and> (\<forall>i < length s. m (p + 1 + of_nat i) = s ! i \<and> s ! i \<noteq> 0)"
    by (simp only: All_less_Suc2) (auto simp: add.assoc)
  with Cons show ?case by (auto simp: add.assoc)
qed simp

lemma cstring_nth: "string_at m p s \<Longrightarrow> i < length s \<Longrightarrow> m (p + of_nat i) = s ! i \<and> s ! i \<noteq> 0"
  using cstring_append [of m p s "[]"] by simp

lemma cstring_end: "string_at m p s \<Longrightarrow> m (p + of_nat (length s)) = 0"
  using cstring_append [of m p s "[]"] by simp

lemma cstring_drop: "string_at m p s \<Longrightarrow> i \<le> length s \<Longrightarrow> string_at m (p + of_nat i) (drop i s)"
  using cstring_append [of m p "take i s" "drop i s"] by simp

lemma cstring_cong: "string_at m p s \<Longrightarrow> (\<And>i. i \<le> length s \<Longrightarrow> m' (p + of_nat i) = m (p + of_nat i)) \<Longrightarrow> string_at m' p s"
proof (induction s arbitrary: p)
  case (Cons c s)
  have "m' p = m p" using Cons.prems(2) [of 0] by simp
  moreover have "m' (p + 1 + of_nat i) = m (p + 1 + of_nat i)" if "i \<le> length s" for i
    using Cons.prems(2) [of "Suc i"] that by (simp add: add.assoc)
  ultimately show ?case using Cons by simp
qed (use cstring_end in fastforce)

lemma strlen_from_correct: "string_at m p s \<Longrightarrow> strlen_from m p = Some (p + of_nat (length s))"
proof (induction s arbitrary: p)
  case Nil
  then show ?case by (subst strlen_from.simps) simp
next
  case (Cons c s)
  then show ?case by (subst strlen_from.simps) (simp add: add.assoc)
qed

lemma strlen_correct: "string_at m p s \<Longrightarrow> d_r_strlen m p = Some (of_nat (length s))"
  by (simp add: d_r_strlen_def strlen_from_correct)

subsection \<open>Searching for a character\<close>

lemma sint_char_int [simp]: "sint (char_int c) = sint c"
proof -
  have "- (2 ^ 31) \<le> sint c" "sint c < 2 ^ 31" using sint_ge [of c] sint_lt [of c] by auto
  then have "signed_take_bit 31 (sint c) = sint c" by (intro signed_take_bit_int_eq_self) auto
  then show ?thesis by (simp add: char_int_def signed_scast_eq)
qed

lemma char_int_eq [simp]: "char_int a = char_int b \<longleftrightarrow> a = b"
  by (metis sint_char_int signed_word_eqI)

lemma strchr_found:
  "string_at m p (s @ c # s') \<Longrightarrow> c \<notin> set s \<Longrightarrow> d_r_strchr m p (char_int c) = Some (p + of_nat (length s))"
proof (induction s arbitrary: p)
  case Nil
  then show ?case by (subst d_r_strchr.simps) simp
next
  case (Cons a s)
  then show ?case by (subst d_r_strchr.simps) (auto simp: add.assoc)
qed

lemma strchr_missing:
  "string_at m p s \<Longrightarrow> c \<noteq> 0 \<Longrightarrow> c \<notin> set s \<Longrightarrow> d_r_strchr m p (char_int c) = Some 0"
proof (induction s arbitrary: p)
  case Nil
  then show ?case by (subst d_r_strchr.simps) auto
next
  case (Cons a s)
  then show ?case by (subst d_r_strchr.simps) auto
qed

lemma strrchr_from_missing:
  "string_at m p s \<Longrightarrow> c \<noteq> 0 \<Longrightarrow> c \<notin> set s \<Longrightarrow> strrchr_from m p (char_int c) ret = Some ret"
proof (induction s arbitrary: p)
  case Nil
  then show ?case by (subst strrchr_from.simps) auto
next
  case (Cons a s)
  then show ?case by (subst strrchr_from.simps) (auto simp: Let_def)
qed

lemma strrchr_from_found:
  "string_at m p (s @ c # s') \<Longrightarrow> c \<notin> set s' \<Longrightarrow> strrchr_from m p (char_int c) ret = Some (p + of_nat (length s))"
proof (induction s arbitrary: p ret)
  case Nil
  then show ?case by (subst strrchr_from.simps) (auto simp: Let_def intro: strrchr_from_missing)
next
  case (Cons a s)
  then show ?case by (subst strrchr_from.simps) (auto simp: Let_def add.assoc)
qed

subsection \<open>Comparison\<close>

text \<open>The order of strings for a reading of characters; the terminator is the character 0.\<close>

fun cmp_chars :: "(u8 \<Rightarrow> int) \<Rightarrow> u8 list \<Rightarrow> u8 list \<Rightarrow> int" where
  "cmp_chars key [] [] = 0"
| "cmp_chars key (a # s) [] = (if key a < key 0 then - 1 else if key 0 < key a then 1 else cmp_chars key s [])"
| "cmp_chars key [] (b # s') = (if key 0 < key b then - 1 else if key b < key 0 then 1 else cmp_chars key [] s')"
| "cmp_chars key (a # s) (b # s') = (if key a < key b then - 1 else if key b < key a then 1 else cmp_chars key s s')"

lemma strcmp_step:
  "m (left + of_nat i) = a \<Longrightarrow> m (right + of_nat i) = b \<Longrightarrow> a \<noteq> 0 \<or> b \<noteq> 0 \<Longrightarrow>
   strcmp_from m left right (of_nat i) =
     (if sint a < sint b then Some (- 1) else if sint b < sint a then Some 1 else strcmp_from m left right (of_nat (Suc i)))"
  by (subst strcmp_from.simps) (simp add: word_sless_alt add.commute)

lemma strcasecmp_step:
  "m (left + of_nat i) = a \<Longrightarrow> m (right + of_nat i) = b \<Longrightarrow> a \<noteq> 0 \<or> b \<noteq> 0 \<Longrightarrow>
   strcasecmp_from m left right (of_nat i) =
     (let l = sint (d_r_tolower (char_int a)); r = sint (d_r_tolower (char_int b))
      in if l < r then Some (- 1) else if r < l then Some 1 else strcasecmp_from m left right (of_nat (Suc i)))"
  by (subst strcasecmp_from.simps) (simp add: word_sless_alt Let_def add.commute)

text \<open>A loop over two strings that compares one pair of characters and goes on is the comparison of lists.\<close>

lemma cmp_loop:
  assumes step: "\<And>i a b. m (left + of_nat i) = a \<Longrightarrow> m (right + of_nat i) = b \<Longrightarrow> a \<noteq> 0 \<or> b \<noteq> 0 \<Longrightarrow>
      f (of_nat i) = (if key a < key b then Some (- 1) else if key b < key a then Some 1 else f (of_nat (Suc i)))"
    and stop: "\<And>i. m (left + of_nat i) = 0 \<Longrightarrow> m (right + of_nat i) = 0 \<Longrightarrow> f (of_nat i) = Some 0"
    and zero: "\<And>a. a \<noteq> 0 \<Longrightarrow> key a \<noteq> key 0"
  shows "string_at m (left + of_nat i) s \<Longrightarrow> string_at m (right + of_nat i) s' \<Longrightarrow> f (of_nat i :: u64) = Some (cmp_chars key s s')"
proof (induction s s' arbitrary: i rule: list_induct2')
  case 1
  then show ?case using stop [of i] by simp
next
  case (2 a s)
  then show ?case using step [of i a 0] zero [of a] by auto
next
  case (3 b s')
  then show ?case using step [of i 0 b] zero [of b] by auto
next
  case (4 a s b s')
  then have "string_at m (left + of_nat (Suc i)) s" "string_at m (right + of_nat (Suc i)) s'" by (simp_all add: ac_simps)
  with 4 have "f (of_nat (Suc i)) = Some (cmp_chars key s s')" by blast
  with 4 step [of i a b] show ?case by (simp del: of_nat_Suc)
qed

lemma cmp_chars_0: "(\<And>a. a \<noteq> 0 \<Longrightarrow> key a \<noteq> key 0) \<Longrightarrow> 0 \<notin> set s \<Longrightarrow> 0 \<notin> set s' \<Longrightarrow>
    cmp_chars key s s' = 0 \<longleftrightarrow> map key s = map key s'"
proof (induction s s' rule: list_induct2')
  case (2 a s)
  then show ?case by (metis cmp_chars.simps(2) linorder_neqE list.set_intros(1) list.simps(8,9) list.distinct(1) zero_neq_neg_one zero_neq_one)
next
  case (3 b s')
  then show ?case by (metis cmp_chars.simps(3) linorder_neqE list.set_intros(1) list.simps(8,9) list.distinct(1) zero_neq_neg_one zero_neq_one)
qed auto

definition lower_key :: "u8 \<Rightarrow> int" where
  "lower_key c = sint (d_r_tolower (char_int c))"

lemma all_chars: "list_all P (map word_of_nat [0..<256]) \<Longrightarrow> P c" for c :: u8
proof -
  assume *: "list_all P (map word_of_nat [0..<256])"
  have "unat c \<in> set [0..<256]" using unat_less_exp [of c] by simp
  with * have "P (word_of_nat (unat c))" unfolding list_all_iff set_map by blast
  then show "P c" by simp
qed

lemma tolower_char: "d_r_tolower (char_int c) = char_int (ascii_lower c)"
  by (rule all_chars) code_simp

lemma sint_eq_0 [simp]: "sint c = 0 \<longleftrightarrow> c = 0" for c :: u8
  by (metis signed_0 signed_word_eqI)

lemma strcmp_correct:
  assumes "string_at m left s" "string_at m right s'"
  shows "d_r_strcmp m left right = Some (cmp_chars sint s s')"
proof -
  have "strcmp_from m left right (of_nat 0) = Some (cmp_chars sint s s')"
  proof (rule cmp_loop [where f = "strcmp_from m left right"])
    fix i a b
    assume "m (left + of_nat i) = a" "m (right + of_nat i) = b" "a \<noteq> 0 \<or> b \<noteq> 0"
    then show "strcmp_from m left right (of_nat i) =
      (if sint a < sint b then Some (- 1) else if sint b < sint a then Some 1 else strcmp_from m left right (of_nat (Suc i)))"
      by (rule strcmp_step)
  next
    fix i assume "m (left + of_nat i) = 0" "m (right + of_nat i) = 0"
    then show "strcmp_from m left right (of_nat i) = Some 0" by (subst strcmp_from.simps) simp
  qed (use assms in auto)
  then show ?thesis by (simp add: d_r_strcmp_def)
qed

lemma lower_key_0: "a \<noteq> 0 \<Longrightarrow> lower_key a \<noteq> lower_key 0"
proof -
  assume a: "a \<noteq> 0"
  have "ascii_lower a = 0 \<longrightarrow> a = 0" by (rule all_chars [of _ a]) code_simp
  moreover have "ascii_lower 0 = 0" by (simp add: ascii_lower_def)
  ultimately show ?thesis using a by (simp add: lower_key_def tolower_char)
qed

lemma strcasecmp_correct:
  assumes "string_at m left s" "string_at m right s'"
  shows "d_r_strcasecmp m left right = Some (cmp_chars lower_key s s')"
proof -
  have "strcasecmp_from m left right (of_nat 0) = Some (cmp_chars lower_key s s')"
  proof (rule cmp_loop [where f = "strcasecmp_from m left right"])
    fix i a b
    assume "m (left + of_nat i) = a" "m (right + of_nat i) = b" "a \<noteq> 0 \<or> b \<noteq> 0"
    from strcasecmp_step [of m left i a right b, OF this] show "strcasecmp_from m left right (of_nat i) =
      (if lower_key a < lower_key b then Some (- 1) else if lower_key b < lower_key a then Some 1
       else strcasecmp_from m left right (of_nat (Suc i)))"
      by (simp only: lower_key_def Let_def)
  next
    fix i assume "m (left + of_nat i) = 0" "m (right + of_nat i) = 0"
    then show "strcasecmp_from m left right (of_nat i) = Some 0" by (subst strcasecmp_from.simps) simp
  qed (use assms lower_key_0 in auto)
  then show ?thesis by (simp add: d_r_strcasecmp_def)
qed

lemma cstring_no_0: "string_at m p s \<Longrightarrow> 0 \<notin> set s"
  by (induction s arbitrary: p) auto

text \<open>C27: The keys of a string hashtable are compared as the code compares them: for strings in memory, two keys are equal exactly
when \<^verbatim>\<open>strcmp\<close>, or \<^verbatim>\<open>strcasecmp\<close> for a table that ignores case, returns 0; both end on all strings.\<close>

theorem strhash_keys_compared:
  assumes "string_at m left s" "string_at m right s'"
  shows "\<exists>r. (if TESTFLAG STRHASH_CASE_INSENSITIVE flags then d_r_strcasecmp m left right else d_r_strcmp m left right) = Some r \<and>
    (r = 0 \<longleftrightarrow> strhash_key_cmp flags s s')"
proof -
  have no_0: "0 \<notin> set s" "0 \<notin> set s'" using assms cstring_no_0 by blast+
  have "cmp_chars sint s s' = 0 \<longleftrightarrow> map sint s = map sint s'" by (rule cmp_chars_0 [OF _ no_0]) simp
  moreover have "inj (sint :: u8 \<Rightarrow> int)" by (intro injI signed_word_eqI)
  ultimately have 1: "cmp_chars sint s s' = 0 \<longleftrightarrow> s = s'" by (simp add: inj_map_eq_map)
  have "cmp_chars lower_key s s' = 0 \<longleftrightarrow> map lower_key s = map lower_key s'" by (rule cmp_chars_0 [where key = lower_key, OF lower_key_0 no_0])
  also have "map lower_key = map sint \<circ> map ascii_lower" by (simp add: fun_eq_iff lower_key_def tolower_char)
  finally have 2: "cmp_chars lower_key s s' = 0 \<longleftrightarrow> map ascii_lower s = map ascii_lower s'"
    by (simp only: o_apply inj_map_eq_map [OF \<open>inj sint\<close>])
  show ?thesis using strcmp_correct [OF assms] strcasecmp_correct [OF assms] 1 2 by (simp add: strhash_key_cmp_def)
qed

subsection \<open>Searching for a string\<close>

text \<open>A bounded comparison with a string that is not longer than the bound tells whether it is a prefix.\<close>

lemma strncmp_step:
  assumes "Suc i \<le> n" "n < 2 ^ 64"
  shows "m (left + of_nat i) = a \<Longrightarrow> m (right + of_nat i) = b \<Longrightarrow>
   strncmp_from m left right (of_nat n) (of_nat i) =
     (if a = 0 \<and> b = 0 then Some 0 else if sint a < sint b then Some (- 1) else if sint b < sint a then Some 1
      else strncmp_from m left right (of_nat n) (of_nat (Suc i)))"
proof -
  have "(of_nat i :: u64) < of_nat n"
    using assms by (simp add: word_less_nat_alt unsigned_of_nat take_bit_nat_eq_self)
  then show "m (left + of_nat i) = a \<Longrightarrow> m (right + of_nat i) = b \<Longrightarrow> ?thesis"
    by (subst strncmp_from.simps) (simp add: word_sless_alt add.commute)
qed

lemma strncmp_prefix:
  "string_at m (left + of_nat i) s \<Longrightarrow> string_at m (right + of_nat i) s' \<Longrightarrow> i + length s' = n \<Longrightarrow> n < 2 ^ 64 \<Longrightarrow>
   \<exists>r. strncmp_from m left right (of_nat n) (of_nat i) = Some r \<and> (r = 0 \<longleftrightarrow> prefix s' s)"
proof (induction s s' arbitrary: i rule: list_induct2')
  case 1
  then show ?case by (subst strncmp_from.simps) simp
next
  case (2 a s)
  then show ?case by (subst strncmp_from.simps) simp
next
  case (3 b s')
  have *: "Suc i \<le> n" "m (left + of_nat i) = 0" "m (right + of_nat i) = b" "b \<noteq> 0" using 3 by simp_all
  have "strncmp_from m left right (of_nat n) (of_nat i) = Some (if 0 < sint b then - 1 else 1)"
    unfolding strncmp_step [OF *(1) 3(4) *(2,3)] using *(4) sint_eq_0 [of b] by (auto simp del: sint_eq_0)
  then show ?case by simp
next
  case (4 a s b s')
  have *: "Suc i \<le> n" "m (left + of_nat i) = a" "m (right + of_nat i) = b" "a \<noteq> 0" using "4.prems" by simp_all
  have "string_at m (left + of_nat (Suc i)) s" "string_at m (right + of_nat (Suc i)) s'" "Suc i + length s' = n"
    using "4.prems" by (simp_all add: ac_simps)
  from "4.IH" [OF this "4.prems"(4)] obtain r where
    r: "strncmp_from m left right (of_nat n) (of_nat (Suc i)) = Some r" "r = 0 \<longleftrightarrow> prefix s' s" by blast
  have "sint a = sint b \<longleftrightarrow> a = b" by (metis signed_word_eqI)
  then show ?case unfolding strncmp_step [OF *(1) "4.prems"(4) *(2,3)] r(1) using r(2) *(4) by auto
qed

lemma strstr_from_correct:
  assumes "string_at m needle n" "length n < 2 ^ 64"
  shows "string_at m p h \<Longrightarrow>
    strstr_from m p needle (of_nat (length n)) = Some (case List.find (\<lambda>i. prefix n (drop i h)) [0..<length h] of
      None \<Rightarrow> 0 | Some i \<Rightarrow> p + of_nat i)"
proof (induction h arbitrary: p)
  case Nil
  then show ?case by (subst strstr_from.simps) simp
next
  case (Cons c h)
  obtain r where r: "strncmp_from m p needle (of_nat (length n)) (of_nat 0) = Some r" "r = 0 \<longleftrightarrow> prefix n (c # h)"
    using strncmp_prefix [of m p 0 "c # h" needle n "length n"] assms Cons.prems by auto
  have upt: "[0..<Suc (length h)] = 0 # map Suc [0..<length h]" by (simp add: map_Suc_upt upt_conv_Cons del: upt_Suc)
  have "List.find (\<lambda>i. prefix n (drop i (c # h))) (map Suc xs) = map_option Suc (List.find (\<lambda>i. prefix n (drop i h)) xs)" for xs
    by (induction xs) auto
  then have find: "List.find (\<lambda>i. prefix n (drop i (c # h))) [0..<Suc (length h)] =
      (if prefix n (c # h) then Some 0 else map_option Suc (List.find (\<lambda>i. prefix n (drop i h)) [0..<length h]))"
    unfolding upt by simp
  have "c \<noteq> 0" "m p = c" "string_at m (p + 1) h" using Cons.prems by simp_all
  with Cons.IH [of "p + 1"] r show ?case
    by (subst strstr_from.simps)
      (auto simp: find d_r_strncmp_def add.assoc simp del: upt_Suc split: option.split)
qed

text \<open>\<^verbatim>\<open>strstr\<close> finds the first place where a string occurs inside another one that is not empty: the result points to the first
index from which the rest of the text starts with the string, and is \<^verbatim>\<open>NULL\<close> when there is none. (In an empty text it does not
find the empty string either.)\<close>

theorem strstr_first_occurrence:
  assumes "string_at m haystack h" "string_at m needle n" "length n < 2 ^ 64"
  shows "d_r_strstr m haystack needle = Some (case List.find (\<lambda>i. prefix n (drop i h)) [0..<length h] of
    None \<Rightarrow> 0 | Some i \<Rightarrow> haystack + of_nat i)"
  using strstr_from_correct [OF assms(2,3,1)] strlen_correct [OF assms(2)] by (simp add: d_r_strstr_def)

subsection \<open>Copying memory\<close>

text \<open>The memory with bytes stored at an address, and with one region copied to another one.\<close>

definition stored :: "u64 \<Rightarrow> u8 list \<Rightarrow> memory \<Rightarrow> memory" where
  "stored p bs m = (\<lambda>a. if unat (a - p) < length bs then bs ! unat (a - p) else m a)"

definition bytes_copied :: "u64 \<Rightarrow> u64 \<Rightarrow> nat \<Rightarrow> memory \<Rightarrow> memory" where
  "bytes_copied dst src n m = (\<lambda>a. if unat (a - dst) < n then m (src + (a - dst)) else m a)"

lemma stored_Nil [simp]: "stored p [] m = m"
  by (simp add: stored_def)

lemma unat_minus_Suc: "x \<noteq> 0 \<Longrightarrow> unat x = Suc (unat (x - 1))" for x :: u64
  using unat_minus_one [of x] unat_gt_0 [of x] by simp

lemma stored_Cons:
  assumes "length bs < 2 ^ 64"
  shows "stored (p + 1) bs (m(p := c)) = stored p (c # bs) m"
proof
  fix a
  show "stored (p + 1) bs (m(p := c)) a = stored p (c # bs) m a"
  proof (cases "a = p")
    case True
    have "a - (p + 1) = - 1" using True by simp
    then have "unat (a - (p + 1)) = 2 ^ 64 - 1" by (simp only:) (simp add: unsigned_minus_1_eq_mask mask_eq_exp_minus_1)
    with True assms show ?thesis by (simp add: stored_def)
  next
    case False
    then have "unat (a - p) = Suc (unat (a - (p + 1)))" using unat_minus_Suc [of "a - p"] by (simp add: diff_diff_add)
    with False show ?thesis by (simp add: stored_def)
  qed
qed

lemma stored_append:
  "length bs + length cs < 2 ^ 64 \<Longrightarrow> stored (p + of_nat (length bs)) cs (stored p bs m) = stored p (bs @ cs) m"
proof (induction bs arbitrary: p m)
  case (Cons b bs)
  then have "stored (p + 1 + of_nat (length bs)) cs (stored (p + 1) bs (m(p := b))) = stored (p + 1) (bs @ cs) (m(p := b))" by simp
  with Cons.prems show ?case by (simp add: stored_Cons add.assoc)
qed simp

lemma sle_0_of_nat: "n < 2 ^ 63 \<Longrightarrow> 0 <=s (of_nat n :: u64)"
proof -
  assume n: "n < 2 ^ 63"
  then have "sint (of_nat n :: u64) = int n"
    by (simp add: signed_of_nat signed_take_bit_int_eq_self)
  then show ?thesis by (simp add: word_sle_eq)
qed

lemma copied_Suc:
  assumes "src \<le> dst" "unat dst + Suc k \<le> 2 ^ 64"
  shows "bytes_copied dst src k (m(dst + of_nat k := m (src + of_nat k))) = bytes_copied dst src (Suc k) m"
proof
  fix a
  define j where "j = unat (a - dst)"
  have a: "a = dst + of_nat j" by (simp add: j_def)
  have k: "unat (of_nat k :: u64) = k" using assms(2) by (simp add: unsigned_of_nat take_bit_nat_eq_self)
  show "bytes_copied dst src k (m(dst + of_nat k := m (src + of_nat k))) a = bytes_copied dst src (Suc k) m a"
  proof (cases "j < k")
    case True
    have less: "unat src \<le> unat dst" using assms(1) by (simp add: word_le_nat_alt)
    have "unat (src + of_nat j) = unat src + j" "unat (dst + of_nat k) = unat dst + k"
      using True less assms(2) k by (simp_all add: unat_word_ariths unsigned_of_nat take_bit_nat_eq_self)
    then have "src + of_nat j \<noteq> dst + of_nat k" using True less by auto
    with True show ?thesis by (simp add: bytes_copied_def j_def)
  next
    case False
    show ?thesis
    proof (cases "j = k")
      case True
      with a have "a = dst + of_nat k" by simp
      with False True show ?thesis by (simp add: bytes_copied_def j_def)
    next
      case ne: False
      with False have "a \<noteq> dst + of_nat k" using k by (auto simp: j_def)
      with False ne show ?thesis by (simp add: bytes_copied_def j_def)
    qed
  qed
qed

lemma copy_down_correct:
  assumes "src \<le> dst"
  shows "n < 2 ^ 63 \<Longrightarrow> unat dst + n \<le> 2 ^ 64 \<Longrightarrow> copy_down dst src (of_nat n - 1) m = bytes_copied dst src n m"
proof (induction n arbitrary: m)
  case 0
  then show ?case by (subst copy_down.simps) (simp add: bytes_copied_def)
next
  case (Suc n)
  then have "copy_down dst src (of_nat n - 1) (m(dst + of_nat n := m (src + of_nat n))) =
      bytes_copied dst src (Suc n) m" using copied_Suc [OF assms] by simp
  with sle_0_of_nat [of n] Suc.prems show ?case by (subst copy_down.simps) simp
qed

text \<open>\<^verbatim>\<open>memmove\<close> copies a region to another one, overlapping or not: afterwards every byte of the destination is what the byte
of the source was before, and no other byte has changed. It relies on \<^verbatim>\<open>memcpy\<close> to do so when the destination is below the source.\<close>

theorem memmove_copies:
  assumes memcpy: "\<And>dst src n m. dst < src \<Longrightarrow> memcpy dst src n m = bytes_copied dst src (unat n) m"
    and "unat n < 2 ^ 63" "unat dst + unat n \<le> 2 ^ 64"
  shows "d_r_memmove memcpy dst src n m = bytes_copied dst src (unat n) m"
  using copy_down_correct [of src dst "unat n" m] assms by (auto simp: d_r_memmove_def not_less)

theorem memmove_copies_witness:
  "d_r_memmove (\<lambda>dst src n. bytes_copied dst src (unat n)) 0x1002 0x1000 4 (\<lambda>a. ucast a) 0x1005 = 3"
proof -
  have "d_r_memmove (\<lambda>dst src n. bytes_copied dst src (unat n)) 0x1002 0x1000 4 (\<lambda>a. ucast a) = bytes_copied 0x1002 0x1000 (unat (4 :: u64)) (\<lambda>a. ucast a)"
    by (rule memmove_copies) simp_all
  then show ?thesis by (simp add: bytes_copied_def)
qed

subsection \<open>Copying strings\<close>

text \<open>No byte of the string at \<open>p\<close>, with its terminator, is in the region of \<open>n\<close> bytes at \<open>dst\<close>.\<close>

definition clear_of :: "u64 \<Rightarrow> u8 list \<Rightarrow> u64 \<Rightarrow> nat \<Rightarrow> bool" where
  "clear_of p s dst n \<longleftrightarrow> (\<forall>i \<le> length s. n \<le> unat (p + of_nat i - dst))"

lemma clear_of_Cons: "clear_of p (c # s) dst n \<Longrightarrow> clear_of (p + 1) s dst n"
  unfolding clear_of_def
proof (intro allI impI)
  fix i assume *: "\<forall>i \<le> length (c # s). n \<le> unat (p + of_nat i - dst)" "i \<le> length s"
  have "n \<le> unat (p + of_nat (Suc i) - dst)" by (rule *(1) [rule_format]) (use *(2) in simp)
  then show "n \<le> unat (p + 1 + of_nat i - dst)" by (simp add: add.assoc)
qed

lemma cstring_clear:
  assumes "string_at m p s" "clear_of p s dst n" "i < n" "n < 2 ^ 64"
  shows "string_at (m(dst + of_nat i := c)) p s"
proof (rule cstring_cong [OF assms(1)])
  fix j assume "j \<le> length s"
  with assms(2) have "n \<le> unat (p + of_nat j - dst)" by (simp add: clear_of_def)
  moreover have "unat (of_nat i :: u64) = i" using assms(3,4) by (simp add: unsigned_of_nat take_bit_nat_eq_self)
  ultimately have "p + of_nat j \<noteq> dst + of_nat i" using assms(3) by auto
  then show "(m(dst + of_nat i := c)) (p + of_nat j) = m (p + of_nat j)" by simp
qed

lemma of_nat_less_64: "i < n \<Longrightarrow> n < 2 ^ 64 \<Longrightarrow> (of_nat i :: u64) < of_nat n"
  by (simp add: word_less_nat_alt unsigned_of_nat take_bit_nat_eq_self)

lemma copy_chars_correct:
  assumes "n < 2 ^ 64"
  shows "string_at m (src + of_nat i) s \<Longrightarrow> i \<le> n \<Longrightarrow> clear_of (src + of_nat i) s dst n \<Longrightarrow>
    copy_chars dst src (of_nat n) (of_nat i) m =
      (of_nat (i + length (take (n - i) s)), stored (dst + of_nat i) (take (n - i) s) m)"
proof (induction s arbitrary: i m)
  case Nil
  then show ?case by (subst copy_chars.simps) simp
next
  case (Cons c s)
  show ?case
  proof (cases "i < n")
    case False
    with Cons.prems have "i = n" by simp
    then show ?thesis by (subst copy_chars.simps) simp
  next
    case True
    let ?m = "m(dst + of_nat i := c)"
    have "clear_of (src + of_nat (Suc i)) s dst n" using clear_of_Cons [OF Cons.prems(3)] by (simp add: ac_simps)
    moreover have "string_at m (src + of_nat (Suc i)) s" using Cons.prems(1) by (simp add: ac_simps)
    ultimately have "copy_chars dst src (of_nat n) (of_nat (Suc i)) ?m =
        (of_nat (Suc i + length (take (n - Suc i) s)), stored (dst + of_nat (Suc i)) (take (n - Suc i) s) ?m)"
      using True cstring_clear [of m "src + of_nat (Suc i)" s dst n i c] assms by (intro Cons.IH) (auto simp del: fun_upd_apply)
    moreover have "stored (dst + of_nat (Suc i)) (take (n - Suc i) s) ?m = stored (dst + of_nat i) (c # take (n - Suc i) s) m"
      using stored_Cons [of "take (n - Suc i) s" "dst + of_nat i" m c] assms by (simp add: ac_simps del: fun_upd_apply)
    moreover have "n - i = Suc (n - Suc i)" using True by simp
    then have "take (n - i) (c # s) = c # take (n - Suc i) s" by (simp only: take_Suc_Cons)
    moreover have "m (src + of_nat i) = c" "c \<noteq> 0" using Cons.prems(1) by simp_all
    ultimately show ?thesis using of_nat_less_64 [OF True assms]
      by (subst copy_chars.simps) (simp add: ac_simps del: fun_upd_apply)
  qed
qed

lemma pad_nulls_correct:
  assumes "n < 2 ^ 64"
  shows "i \<le> n \<Longrightarrow> pad_nulls dst (of_nat n) (of_nat i) m = stored (dst + of_nat i) (replicate (n - i) 0) m"
proof (induction i arbitrary: m rule: inc_induct)
  case base
  then show ?case by (subst pad_nulls.simps) simp
next
  case (step i)
  then have "pad_nulls dst (of_nat n) (of_nat (Suc i)) (m(dst + of_nat i := 0)) =
      stored (dst + of_nat i) (0 # replicate (n - Suc i) 0) m"
    using stored_Cons [of "replicate (n - Suc i) 0" "dst + of_nat i" m 0] assms by (simp add: ac_simps del: fun_upd_apply)
  moreover have "0 # replicate (n - Suc i) 0 = replicate (n - i) (0 :: u8)"
    using step.hyps by (simp add: Suc_diff_Suc flip: replicate_Suc)
  ultimately show ?case using of_nat_less_64 [OF step.hyps(2) assms] by (subst pad_nulls.simps) (simp add: ac_simps del: fun_upd_apply)
qed

lemma strncpy_correct:
  assumes "string_at m src s" "clear_of src s dst (unat n)"
  shows "d_r_strncpy dst src n m = stored dst (take (unat n) s @ replicate (unat n - length s) 0) m"
proof -
  let ?n = "unat n" and ?t = "take (unat n) s"
  have n: "?n < 2 ^ 64" using unat_less_exp [of n] by simp
  have "copy_chars dst src n 0 m = (of_nat (length ?t), stored dst ?t m)"
    using copy_chars_correct [OF n, of m src 0 s dst] assms by simp
  moreover have "pad_nulls dst n (of_nat (length ?t)) (stored dst ?t m) =
      stored (dst + of_nat (length ?t)) (replicate (?n - length ?t) 0) (stored dst ?t m)"
    using pad_nulls_correct [OF n, of "length ?t" dst] by simp
  moreover have "?n - length ?t = ?n - length s" by simp
  ultimately show ?thesis
    using stored_append [of ?t "replicate (?n - length s) 0" dst m] n by (simp add: d_r_strncpy_def)
qed

lemma cstring_stored_self:
  assumes "0 \<notin> set bs" "length bs < 2 ^ 64 - 1"
  shows "string_at (stored p (bs @ [0]) m) p bs"
proof -
  have at: "stored p (bs @ [0]) m (p + of_nat j) = (bs @ [0]) ! j" if "j \<le> length bs" for j
  proof -
    have "unat (of_nat j :: u64) = j" using that assms(2) by (simp add: unsigned_of_nat take_bit_nat_eq_self)
    moreover have "j < length (bs @ [0])" using that by (simp add: less_Suc_eq_le)
    ultimately show ?thesis by (simp only: stored_def add_diff_cancel_left' if_True)
  qed
  then have "(\<forall>i < length bs. stored p (bs @ [0]) m (p + of_nat i) = bs ! i \<and> bs ! i \<noteq> 0) \<and>
      string_at (stored p (bs @ [0]) m) (p + of_nat (length bs)) []"
    using assms(1) by (auto simp: nth_append) (metis nth_mem)
  then show ?thesis using cstring_append [of "stored p (bs @ [0]) m" p bs "[]"] by simp
qed

text \<open>\<^verbatim>\<open>strncat\<close> appends to a string in memory at most the given number of characters of another one: when the source is clear of the
region that is written, the result is a string, made of the old one and of the first characters of the source, and only the bytes
behind the old string, with the new terminator, change.\<close>

theorem strncat_appends:
  assumes "string_at m dest d" "string_at m src s" "clear_of src s (dest + of_nat (length d)) (Suc (unat n))"
    "length d + unat n + 1 < 2 ^ 64"
  shows "\<exists>m'. d_r_strncat dest src n m = Some m' \<and> string_at m' dest (d @ take (unat n) s) \<and>
    m' = stored (dest + of_nat (length d)) (take (unat n) s @ [0]) m"
proof -
  let ?n = "unat n" and ?t = "take (unat n) s" and ?e = "dest + of_nat (length d) :: u64"
  have n: "?n < 2 ^ 64" using assms(4) by simp
  have len: "length ?t \<le> ?n" by simp
  have "clear_of src s ?e ?n" using assms(3) by (auto simp: clear_of_def)
  then have copy: "copy_chars ?e src n 0 m = (of_nat (length ?t), stored ?e ?t m)"
    using copy_chars_correct [OF n, of m src 0 s ?e] assms(2) by simp
  let ?m = "stored ?e (?t @ [0]) m"
  have "(stored ?e ?t m)(?e + of_nat (length ?t) := 0) = stored (?e + of_nat (length ?t)) [0] (stored ?e ?t m)"
    using stored_Cons [of "[]" "?e + of_nat (length ?t)" "stored ?e ?t m" 0] by simp
  also have "\<dots> = ?m" using stored_append [of ?t "[0]" ?e m] len assms(4) by simp
  finally have "d_r_strncat dest src n m = Some ?m"
    using copy strlen_correct [OF assms(1)] by (simp add: d_r_strncat_def Let_def)
  moreover have "string_at ?m dest (d @ ?t)"
    unfolding cstring_append
  proof (intro conjI allI impI)
    fix i assume i: "i < length d"
    have "of_nat (2 ^ 64 - (length d - i)) = (of_nat (2 ^ 64) - of_nat (length d - i) :: u64)"
      using assms(4) by (intro of_nat_diff) simp
    also have "\<dots> = dest + of_nat i - ?e" using i by (simp add: of_nat_diff)
    finally have "unat (dest + of_nat i - ?e) = unat (of_nat (2 ^ 64 - (length d - i)) :: u64)" by simp
    also have "\<dots> = 2 ^ 64 - (length d - i)"
      using i take_bit_nat_eq_self [of "2 ^ 64 - (length d - i)" 64] by (simp add: unsigned_of_nat)
    finally have "unat (dest + of_nat i - ?e) = 2 ^ 64 - (length d - i)" .
    then have "\<not> unat (dest + of_nat i - ?e) < length (?t @ [0])" using i len assms(4) by simp
    then show "?m (dest + of_nat i) = d ! i" "d ! i \<noteq> 0"
      using cstring_nth [OF assms(1) i] by (simp_all add: stored_def)
  next
    have "0 \<notin> set ?t" using cstring_no_0 [OF assms(2)] by (meson in_set_takeD)
    then show "string_at ?m ?e ?t" using len assms(4) by (intro cstring_stored_self) simp_all
  qed
  ultimately show ?thesis by blast
qed

subsection \<open>Parsing numbers\<close>

definition digit_char :: "nat \<Rightarrow> u8" where
  "digit_char d = (if d < 10 then of_nat (48 + d) else of_nat (87 + d))"

text \<open>The digits of a number, the most significant one first.\<close>

fun digits_of :: "nat \<Rightarrow> nat \<Rightarrow> nat list" where
  "digits_of b n = (if b < 2 \<or> n < b then [n] else digits_of b (n div b) @ [n mod b])"

declare digits_of.simps [simp del]

lemma digits_of_less: "2 \<le> b \<Longrightarrow> d \<in> set (digits_of b n) \<Longrightarrow> d < b"
proof (induction b n rule: digits_of.induct)
  case (1 b n)
  then show ?case by (subst (asm) (2) digits_of.simps) (auto split: if_splits)
qed

lemma digits_of_nonempty [simp]: "digits_of b n \<noteq> []"
  by (subst digits_of.simps) simp

lemma digits_of_hd: "0 < n \<Longrightarrow> hd (digits_of b n) \<noteq> 0"
proof (induction b n rule: digits_of.induct)
  case (1 b n)
  then show ?case by (subst digits_of.simps) (auto simp: div_greater_zero_iff not_less)
qed

lemma digits_of_value: "2 \<le> b \<Longrightarrow> foldl (\<lambda>r d. r * of_nat b + of_nat d) 0 (digits_of b n) = (of_nat n :: 'a::comm_semiring_1)"
proof (induction b n rule: digits_of.induct)
  case (1 b n)
  show ?case
  proof (cases "n < b")
    case True
    with 1(2) show ?thesis by (subst digits_of.simps) simp
  next
    case False
    have "of_nat (n div b) * of_nat b + of_nat (n mod b) = (of_nat (n div b * b + n mod b) :: 'a)" by (simp only: of_nat_add of_nat_mult)
    with False 1 show ?thesis by (subst digits_of.simps) simp
  qed
qed

lemma digit_chars:
  assumes "d < 36"
  shows "parse_digit (digit_char d) = Some (of_nat d)" "digit_char d \<noteq> 0" "digit_char d \<noteq> 43" "digit_char d \<noteq> 45"
    "d < 16 \<Longrightarrow> digit_char d \<noteq> 120" "digit_char d = 48 \<longleftrightarrow> d = 0"
proof -
  have "list_all (\<lambda>d. parse_digit (digit_char d) = Some (of_nat d) \<and> digit_char d \<noteq> 0 \<and> digit_char d \<noteq> 43 \<and>
      digit_char d \<noteq> 45 \<and> (d < 16 \<longrightarrow> digit_char d \<noteq> 120) \<and> (digit_char d = 48 \<longleftrightarrow> d = 0)) [0..<36]" by code_simp
  with assms show "parse_digit (digit_char d) = Some (of_nat d)" "digit_char d \<noteq> 0" "digit_char d \<noteq> 43" "digit_char d \<noteq> 45"
    "d < 16 \<Longrightarrow> digit_char d \<noteq> 120" "digit_char d = 48 \<longleftrightarrow> d = 0"
    by (simp_all only: list_all_iff atLeastLessThan_iff set_upt) auto
qed

text \<open>The text behind a number does not go on with a digit of its base.\<close>

definition number_ends :: "u32 \<Rightarrow> u8 list \<Rightarrow> bool" where
  "number_ends base rest \<longleftrightarrow> (case rest of [] \<Rightarrow> True | c # _ \<Rightarrow> (case parse_digit c of None \<Rightarrow> True | Some d \<Rightarrow> base \<le> d))"

lemma parse_digits_correct:
  assumes "base \<le> 36" "number_ends base rest"
  shows "string_at m (sp + of_nat i) (map digit_char ds @ rest) \<Longrightarrow> \<forall>d \<in> set ds. d < unat base \<Longrightarrow> i + length ds < 2 ^ 32 \<Longrightarrow>
    parse_digits m sp base 0 (of_nat i) res =
      Some (of_nat (i + length ds), foldl (\<lambda>r d. r * of_nat (unat base) + of_nat d) res ds)"
proof (induction ds arbitrary: i res)
  case Nil
  have i: "ucast (of_nat i :: u32) = (of_nat i :: u64)" using Nil.prems(3) by (simp add: unsigned_of_nat take_bit_nat_eq_self)
  have "parse_digit 0 = None" by code_simp
  then have "case parse_digit (m (sp + of_nat i)) of None \<Rightarrow> True | Some d \<Rightarrow> base \<le> d"
    using assms(2) Nil.prems(1) by (cases rest) (auto simp: number_ends_def)
  then show ?case by (subst parse_digits.simps) (auto simp: i split: option.split)
next
  case (Cons d ds)
  have i: "ucast (of_nat i :: u32) = (of_nat i :: u64)" using Cons.prems(3) by (simp add: unsigned_of_nat take_bit_nat_eq_self)
  have d: "d < unat base" "unat base \<le> 36" using Cons.prems(2) assms(1) by (simp_all add: word_le_nat_alt)
  then have "parse_digit (m (sp + of_nat i)) = Some (of_nat d)" using Cons.prems(1) digit_chars(1) [of d] by simp
  moreover have "unat (of_nat d :: u32) = d" using d by (simp add: unsigned_of_nat take_bit_nat_eq_self)
  then have "\<not> base \<le> of_nat d" "ucast (of_nat d :: u32) = (of_nat d :: u64)"
    using d(1) by (simp_all add: word_le_nat_alt unsigned_of_nat take_bit_nat_eq_self)
  moreover have "parse_digits m sp base 0 (of_nat (Suc i)) r =
      Some (of_nat (Suc i + length ds), foldl (\<lambda>r d. r * of_nat (unat base) + of_nat d) r ds)" for r
    using Cons.prems by (intro Cons.IH) (simp_all add: ac_simps)
  ultimately show ?case by (subst parse_digits.simps) (simp add: i ac_simps)
qed

text \<open>What the digits come to, once the sign and the prefix are read.\<close>

definition number_at :: "memory \<Rightarrow> u64 \<Rightarrow> u32 \<Rightarrow> bool \<Rightarrow> (u64 \<times> u64 option) option" where
  "number_at m sp base negative = do {
     (i, res) \<leftarrow> parse_digits m sp base 0 0 0;
     Some (if i = 0 then (0, None) else (sp + ucast i, Some (if negative then - res else res))) }"

lemma number_at_correct:
  assumes "2 \<le> base" "base \<le> 36" "number_ends base rest" "length (digits_of (unat base) n) < 2 ^ 32"
    "string_at m sp (map digit_char (digits_of (unat base) n) @ rest)"
  shows "number_at m sp base negative =
    Some (sp + of_nat (length (digits_of (unat base) n)), Some (if negative then - of_nat n else of_nat n))"
proof -
  let ?ds = "digits_of (unat base) n"
  have b: "2 \<le> unat base" using assms(1) by (simp add: word_le_nat_alt)
  have "parse_digits m sp base 0 (of_nat 0) 0 = Some (of_nat (0 + length ?ds), foldl (\<lambda>r d. r * of_nat (unat base) + of_nat d) 0 ?ds)"
    using assms digits_of_less [OF b] by (intro parse_digits_correct) auto
  then have "parse_digits m sp base 0 0 0 = Some (of_nat (length ?ds), of_nat n)"
    unfolding digits_of_value [OF b] by simp
  note parsed = this
  have "unat (of_nat (length ?ds) :: u32) = length ?ds" using assms(4) by (simp add: unsigned_of_nat take_bit_nat_eq_self)
  note len = this
  have "0 < length ?ds" by simp
  then have "(of_nat (length ?ds) :: u32) \<noteq> 0" using len by (metis less_irrefl unsigned_0)
  moreover have "ucast (of_nat (length ?ds) :: u32) = (of_nat (length ?ds) :: u64)" by (metis len of_nat_unat)
  ultimately show ?thesis using parsed by (simp add: number_at_def)
qed

lemma parse_int_prefixes:
  assumes "\<not> base > 36" "base \<noteq> 1" "m str = 45 \<longleftrightarrow> neg" "p = (if neg then str + 1 else str)" "m p \<noteq> 43 \<or> neg"
  shows "\<not> ((base = 0 \<or> base = 16) \<and> m p = 48 \<and> m (p + 1) = 120) \<Longrightarrow> \<not> (base = 0 \<and> m p = 48) \<Longrightarrow>
      d_r_parse_int m str base 0 True = number_at m p (if base = 0 then 10 else base) neg"
    "(base = 0 \<or> base = 16) \<Longrightarrow> m p = 48 \<Longrightarrow> m (p + 1) = 120 \<Longrightarrow> d_r_parse_int m str base 0 True = number_at m (p + 2) 16 neg"
    "base = 0 \<Longrightarrow> m p = 48 \<Longrightarrow> m (p + 1) \<noteq> 120 \<Longrightarrow> d_r_parse_int m str base 0 True = number_at m (p + 1) 8 neg"
  using assms by (auto simp: d_r_parse_int_def number_at_def Let_def cong: if_cong)

definition number_prefix :: "u32 \<Rightarrow> u32 \<Rightarrow> u8 list" where
  "number_prefix base_arg base =
     (if base_arg \<noteq> 0 then [] else if base = 16 then [48, 120] else if base = 8 then [48] else [])"

definition number_text :: "bool \<Rightarrow> u32 \<Rightarrow> u32 \<Rightarrow> nat \<Rightarrow> u8 list" where
  "number_text negative base_arg base n =
     (if negative then [45] else []) @ number_prefix base_arg base @ map digit_char (digits_of (unat base) n)"

text \<open>The base is given, and the digits are not taken for a prefix, or it is 0 and the prefix of the text tells it.\<close>

definition base_known :: "u32 \<Rightarrow> u32 \<Rightarrow> nat \<Rightarrow> u8 list \<Rightarrow> bool" where
  "base_known base_arg base n rest \<longleftrightarrow>
     base_arg = base \<and> (base = 16 \<longrightarrow> n = 0 \<longrightarrow> rest = [] \<or> hd rest \<noteq> 120) \<or>
     base_arg = 0 \<and> (base = 16 \<or> base = 8 \<or> base = 10 \<and> 0 < n)"

lemma parse_int_number:
  assumes base: "2 \<le> base" "base \<le> 36" "base_known base_arg base n rest" and rest: "number_ends base rest"
    and len: "length (digits_of (unat base) n) < 2 ^ 32" and written: "string_at m str (number_text neg base_arg base n @ rest)"
  shows "d_r_parse_int m str base_arg 0 True =
    Some (str + of_nat (length (number_text neg base_arg base n)), Some (if neg then - of_nat n else of_nat n))"
proof -
  let ?ds = "digits_of (unat base) n"
  define p where "p = (if neg then str + 1 else str)"
  obtain d ds where ds: "?ds = d # ds" by (cases ?ds) auto
  have b: "2 \<le> unat base" "unat base \<le> 36" using base(1,2) by (simp_all add: word_le_nat_alt)
  have d: "d < unat base" using digits_of_less [OF b(1), of d n] ds by simp
  then have d36: "d < 36" using b(2) by simp
  have p: "string_at m p (number_prefix base_arg base @ map digit_char ?ds @ rest)"
    using written by (auto simp: p_def number_text_def)
  have first: "m p = 48 \<or> m p = digit_char d" using p ds by (auto simp: number_prefix_def split: if_splits)
  then have sign: "m p \<noteq> 45" "m p \<noteq> 43" using digit_chars(3,4) [OF d36] by auto
  have neg: "m str = 45 \<longleftrightarrow> neg" using sign written by (auto simp: p_def number_text_def split: if_splits)
  have arg: "\<not> base_arg > 36" "base_arg \<noteq> 1"
    using base by (auto simp: base_known_def word_less_nat_alt word_le_nat_alt)
  note pre = parse_int_prefixes [OF arg neg p_def disjI1 [OF sign(2)]]
  have len_text: "str + of_nat (length (number_text neg base_arg base n)) =
      p + of_nat (length (number_prefix base_arg base)) + of_nat (length ?ds)"
    by (simp add: number_text_def p_def)
  consider "base_arg = base" | "base_arg = 0" "base = 16" | "base_arg = 0" "base = 8" | "base_arg = 0" "base = 10" "0 < n"
    using base(3) by (auto simp: base_known_def)
  then show ?thesis
  proof cases
    case 1
    then have np: "number_prefix base_arg base = []" "base_arg \<noteq> 0" using base(1) by (auto simp: number_prefix_def)
    have "\<not> (base_arg = 16 \<and> m p = 48 \<and> m (p + 1) = 120)"
    proof
      assume *: "base_arg = 16 \<and> m p = 48 \<and> m (p + 1) = 120"
      then have "d = 0" using p ds np digit_chars(6) [OF d36] by simp
      then have "n = 0" using digits_of_hd [of n "unat base"] ds by (cases "n = 0") auto
      then have "?ds = [0]" using * 1 by (subst digits_of.simps) simp
      then have "string_at m (p + 1) rest" "rest = [] \<or> hd rest \<noteq> 120" using p np base(3) 1 * \<open>n = 0\<close> by (auto simp: base_known_def)
      with * show False by (cases rest) auto
    qed
    with pre(1) np 1 number_at_correct [OF base(1,2) rest len, of m p neg] p len_text show ?thesis by simp
  next
    case 2
    then have np: "number_prefix base_arg base = [48, 120]" by (simp add: number_prefix_def)
    with p have "m p = 48" "m (p + 1) = 120" "string_at m (p + 2) (map digit_char ?ds @ rest)" by (simp_all add: add.assoc)
    with pre(2) np 2 number_at_correct [OF base(1,2) rest len, of m "p + 2" neg] len_text show ?thesis by simp
  next
    case 3
    then have np: "number_prefix base_arg base = [48]" by (simp add: number_prefix_def)
    with p ds have *: "m p = 48" "m (p + 1) = digit_char d" "string_at m (p + 1) (map digit_char ?ds @ rest)" by simp_all
    have "d < 16" using d 3 by simp
    then have "m (p + 1) \<noteq> 120" using * digit_chars(5) [OF d36] by simp
    with pre(3) np 3 * number_at_correct [OF base(1,2) rest len, of m "p + 1" neg] len_text show ?thesis by simp
  next
    case 4
    then have np: "number_prefix base_arg base = []" by (simp add: number_prefix_def)
    have "d \<noteq> 0" using digits_of_hd [OF 4(3), of "unat base"] ds by simp
    then have "m p \<noteq> 48" using p np ds digit_chars(6) [OF d36] by simp
    with pre(1) np 4 number_at_correct [OF base(1,2) rest len, of m p neg] p len_text show ?thesis by simp
  qed
qed

text \<open>C26: \<^verbatim>\<open>strtoul\<close> reads back what is written in any base from 2 to 36: for the text of a number with or without a sign, in the given
base or, for the base 0, with the prefix of C for hexadecimal and octal numbers, it returns the number modulo 2^64 and a
pointer to the text behind it.\<close>

theorem strtoul_reads_number:
  assumes "2 \<le> base" "base \<le> 36" "base_known base_arg base n rest" "number_ends base rest"
    "length (digits_of (unat base) n) < 2 ^ 32" "string_at m str (number_text neg base_arg base n @ rest)"
    "str + of_nat (length (number_text neg base_arg base n)) \<noteq> 0"
  shows "d_r_strtoul m str base_arg =
    Some (if neg then - of_nat n else of_nat n, str + of_nat (length (number_text neg base_arg base n)))"
  using parse_int_number [OF assms(1-6)] assms(7) by (simp add: d_r_strtoul_def)

subsection \<open>The routines on concrete strings\<close>

lemma strhash_keys_compared_witness:
  "\<exists>r. d_r_strcasecmp (stored 0x1000 [97, 98, 0, 65, 66, 0] (\<lambda>_. 1)) 0x1000 0x1003 = Some r \<and> r = 0"
  using strhash_keys_compared [of "stored 0x1000 [97, 98, 0, 65, 66, 0] (\<lambda>_. 1)" "0x1000" "[97, 98]" "0x1003" "[65, 66]" STRHASH_CASE_INSENSITIVE]
  by (simp add: stored_def TESTFLAG_def STRHASH_CASE_INSENSITIVE_def strhash_key_cmp_def ascii_lower_def)

lemma strstr_first_occurrence_witness:
  "d_r_strstr (stored 0x1000 [97, 98, 98, 98, 0] (\<lambda>_. 1)) 0x1000 0x1002 = Some 0x1001"
  using strstr_first_occurrence [of "stored 0x1000 [97, 98, 98, 98, 0] (\<lambda>_. 1)" "0x1000" "[97, 98, 98, 98]" "0x1002" "[98, 98]"]
  by (simp add: stored_def)

lemma strncat_appends_witness:
  "\<exists>m'. d_r_strncat 0x1000 0x2000 2 (stored 0x1000 [97, 0] (stored 0x2000 [98, 99, 100, 0] (\<lambda>_. 1))) = Some m' \<and>
    string_at m' 0x1000 [97, 98, 99]"
proof -
  let ?m = "stored 0x1000 [97, 0] (stored 0x2000 [98, 99, 100, 0] (\<lambda>_. 1))"
  have "string_at ?m 0x1000 [97]" "string_at ?m 0x2000 [98, 99, 100]" by (simp_all add: stored_def)
  moreover have "list_all (\<lambda>i. 3 \<le> unat (0x2000 + of_nat i - 0x1001 :: u64)) [0..<4]" by code_simp
  then have "clear_of 0x2000 [98, 99, 100] (0x1000 + of_nat (length [97 :: u8])) (Suc (unat (2 :: u64)))"
    by (auto simp: clear_of_def list_all_iff)
  ultimately show ?thesis
    using strncat_appends [of ?m "0x1000" "[97]" "0x2000" "[98, 99, 100]" 2] by auto
qed

lemma strtoul_reads_number_witness:
  "d_r_strtoul (stored 0x1000 [45, 48, 120, 50, 97, 32, 0] (\<lambda>_. 1)) 0x1000 0 = Some (- 42, 0x1005)"
proof -
  have digits: "digits_of 16 42 = [2, 10]" by (simp add: digits_of.simps)
  show ?thesis
    using strtoul_reads_number [of 16 0 42 "[32]" "stored 0x1000 [45, 48, 120, 50, 97, 32, 0] (\<lambda>_. 1)" "0x1000" True]
    by (simp add: stored_def digits base_known_def number_ends_def number_text_def number_prefix_def digit_char_def parse_digit_def char_int_def)
qed

text \<open>In an empty text \<^verbatim>\<open>strstr\<close> does not find the empty string, and with the base 0 \<^verbatim>\<open>strtoul\<close> takes the only digit of "0" for the
prefix of an octal number and fails, with a null end pointer.\<close>

lemma strstr_empty_in_empty: "m haystack = 0 \<Longrightarrow> m needle = 0 \<Longrightarrow> d_r_strstr m haystack needle = Some 0"
  using strstr_from_correct [of m needle "[]" haystack "[]"] strlen_correct [of m needle "[]"] by (simp add: d_r_strstr_def)

lemma strtoul_zero_fails: "string_at m str [48] \<Longrightarrow> d_r_strtoul m str 0 = Some (- 1, 0)"
proof -
  assume zero: "string_at m str [48]"
  have "parse_digits m (str + 1) 8 0 0 0 = Some (0, 0)"
    using zero by (subst parse_digits.simps) (simp add: parse_digit_def char_int_def)
  with zero show ?thesis by (simp add: d_r_strtoul_def d_r_parse_int_def Let_def)
qed

end
