(* ===== verification/CPrintfProps.thy ===== *)
theory CPrintfProps
  imports CPrintf CStringProps
begin

text \<open>
  What \<^verbatim>\<open>snprintf\<close> may write and return, whatever its format and arguments, and the text it prints for a format that is made of
  literal characters and conversions.
\<close>

subsection \<open>Output stays in the buffer\<close>

text \<open>The steps that print characters keep the place in the buffer, or one behind it, and leave the memory outside of it alone.\<close>

definition prints :: "u64 \<Rightarrow> u64 \<Rightarrow> memory \<Rightarrow> u64 \<Rightarrow> out \<Rightarrow> bool" where
  "prints start mx m s st \<longleftrightarrow> (s - start \<le> mx \<longrightarrow>
     (case st of Inl m' \<Rightarrow> \<forall>a. m' a \<noteq> m a \<longrightarrow> a - start < mx
      | Inr (m', s') \<Rightarrow> s' - start \<le> mx \<and> (\<forall>a. m' a \<noteq> m a \<longrightarrow> a - start < mx)))"

lemma prints_full [simp]: "prints start mx m s (Inl m)"
  by (simp add: prints_def)

lemma prints_refl [simp]: "prints start mx m s (Inr (m, s))"
  by (simp add: prints_def)

lemma prints_char:
  assumes "\<not> mx \<le> s - start" "prints start mx (m(s := ch)) (s + 1) st"
  shows "prints start mx m s st"
proof -
  have "s - start + 1 \<le> mx" using assms(1) by (simp add: inc_le not_le)
  then have "s + 1 - start \<le> mx" by (simp only: diff_conv_add_uminus ac_simps)
  with assms show ?thesis by (auto simp: prints_def fun_upd_def not_le split: sum.splits if_splits)
qed

lemma prints_then:
  assumes "prints start mx m s st" "\<And>m' s'. st = Inr (m', s') \<Longrightarrow> prints start mx m' s' (f m' s')"
  shows "prints start mx m s (unless_full st f)"
proof (cases st)
  case (Inr ms)
  obtain m' s' where ms: "st = Inr (m', s')" using Inr by (cases ms) simp
  then have "prints start mx m' s' (f m' s')" using assms(2) by blast
  with assms(1) show ?thesis unfolding ms by (force simp: prints_def unless_full_def split: sum.splits)
qed (use assms in \<open>simp add: unless_full_def\<close>)

lemma emit_chars_prints: "prints start mx m s (emit_chars start mx chs m s)"
  by (induction chs arbitrary: m s) (auto intro: prints_char)

lemma emit_str_prints:
  assumes "emit_str start mx c str prec m s = Some st"
  shows "prints start mx m s st"
  by (rule emit_str.raw_induct [where P = "\<lambda>start mx c str prec m s st. prints start mx m s st", OF _ assms]) (auto simp: Let_def split: if_splits; metis prints_char)

lemma emit_wstr_prints:
  assumes "emit_wstr start mx c wstr prec m s = Some st"
  shows "prints start mx m s st"
  by (rule emit_wstr.raw_induct [where P = "\<lambda>start mx c wstr prec m s st. prints start mx m s st", OF _ assms]) (auto simp: Let_def split: if_splits; metis prints_char)

lemma copy_literal_prints:
  assumes "copy_literal start mx cstart c m s = Some st"
  shows "prints start mx m s st"
  by (rule copy_literal.raw_induct [where P = "\<lambda>start mx cstart c m s st. prints start mx m s st", OF _ assms]) (auto simp: Let_def split: if_splits; metis prints_char)

lemma emit_field_prints: "emit_field start mx c prefixbuf fill str wstr p m s = Some st \<Longrightarrow> prints start mx m s st"
proof -
  assume st: "emit_field start mx c prefixbuf fill str wstr p m s = Some st"
  have lead: "prints start mx m s (emit_lead start mx prefixbuf fill p m s)"
    by (simp add: emit_lead_def prints_then emit_chars_prints)
  have arg: "emit_arg start mx c str wstr p m s = Some st \<Longrightarrow> prints start mx m s st" for m s st
    by (auto simp: emit_arg_def split: if_splits intro: emit_str_prints emit_wstr_prints)
  show ?thesis
  proof (cases "emit_lead start mx prefixbuf fill p m s")
    case (Inl m')
    with st lead show ?thesis by (simp add: emit_field_def)
  next
    case (Inr ms)
    then obtain m' s' where ms: "emit_lead start mx prefixbuf fill p m s = Inr (m', s')" by (cases ms) simp
    with st obtain st' where st': "emit_arg start mx c str wstr p m' s' = Some st'"
      "st = unless_full st' (emit_chars start mx (if 0 <s fill \<and> minus_flag p then replicate (unat fill) (filler p) else []))"
      by (auto simp: emit_field_def bind_eq_Some_conv)
    have "prints start mx m' s' st" unfolding st'(2) by (rule prints_then [OF arg [OF st'(1)] emit_chars_prints])
    then have "prints start mx m s (unless_full (emit_lead start mx prefixbuf fill p m s) (\<lambda>_ _. st))"
      by (intro prints_then [OF lead]) (simp add: ms)
    then show ?thesis by (simp add: ms unless_full_def)
  qed
qed

text \<open>Apart from that, a conversion stores a count at one of its arguments.\<close>

definition counts_at :: "va_list \<Rightarrow> u64 \<Rightarrow> bool" where
  "counts_at ap a \<longleftrightarrow> (\<exists>p \<in> set ap. a - p < 8)"

lemma write_mem_outside: "write_mem m a bs b \<noteq> m b \<Longrightarrow> length bs \<le> 8 \<Longrightarrow> unat (b - a) < length bs"
proof (induction bs arbitrary: m a)
  case (Cons c bs)
  show ?case
  proof (cases "b = a")
    case False
    then have "b - a \<noteq> 0" by simp
    then have "unat (b - a) = Suc (unat (b - (a + 1)))" using unat_minus_Suc [of "b - a"] by (simp add: diff_diff_add)
    moreover have "write_mem (m(a := c)) (a + 1) bs b \<noteq> (m(a := c)) b" using Cons.prems False by simp
    then have "unat (b - (a + 1)) < length bs" by (rule Cons.IH) (use Cons.prems in simp)
    ultimately show ?thesis by simp
  qed simp
qed simp

lemma va_arg_Some: "va_arg ap = Some (a, ap') \<longleftrightarrow> ap = a # ap'"
  by (auto simp: va_arg_def split: list.splits)

lemma store_count_writes:
  assumes "store_count m written p ap = Some (m', ap')"
  shows "m' a \<noteq> m a \<Longrightarrow> counts_at ap a" "set ap' \<subseteq> set ap"
proof -
  let ?n = "if l_type p then 8 else if h_type p then 2 else 4 :: nat"
  obtain q where q: "ap = q # ap'" "m' = write_mem m q (le_bytes ?n (unat (ucast written :: u32)))"
    using assms by (auto simp: store_count_def bind_eq_Some_conv va_arg_Some split: if_splits)
  show "set ap' \<subseteq> set ap" using q by auto
  assume "m' a \<noteq> m a"
  then have "unat (a - q) < ?n" using q write_mem_outside [of m q "le_bytes ?n (unat (ucast written :: u32))" a] by auto
  then have "a - q < 8" by (auto simp: word_less_nat_alt split: if_splits)
  with q show "counts_at ap a" by (auto simp: counts_at_def)
qed

lemma convert_signed_args: "convert_signed p ap = Some (str, prefixbuf, p', ap') \<Longrightarrow> set ap' \<subseteq> set ap"
  by (auto simp: convert_signed_def bind_eq_Some_conv va_arg_Some Let_def)

lemma convert_unsigned_args: "convert_unsigned ch p ap = Some (str, prefixbuf, p', ap') \<Longrightarrow> set ap' \<subseteq> set ap"
  by (cases "ch = 117 \<and> ll_type (if ch = 117 then default_decimal p else p)")
    (auto simp: convert_unsigned_def Let_def bind_eq_Some_conv va_arg_Some)

lemma convert_writes:
  assumes "convert m ch p ap written = Some (str, wstr, prefixbuf, p', m', ap')"
  shows "set ap' \<subseteq> set ap" "m' a \<noteq> m a \<Longrightarrow> counts_at ap a"
proof -
  have "m' = m \<and> set ap' \<subseteq> set ap \<or> store_count m written p ap = Some (m', ap')"
    using assms unfolding convert_def
    by (auto simp: bind_eq_Some_conv va_arg_Some dest: convert_signed_args convert_unsigned_args split: if_split_asm)
  then show "set ap' \<subseteq> set ap" "m' a \<noteq> m a \<Longrightarrow> counts_at ap a"
    using store_count_writes(1) [of m written p ap m' ap' a] store_count_writes(2) [of m written p ap m' ap'] by auto
qed

lemma get_width_args: "get_width m c ap p = Some (c', ap', p') \<Longrightarrow> set ap' \<subseteq> set ap"
  by (auto simp: get_width_def Let_def bind_eq_Some_conv va_arg_Some split: if_split_asm)

lemma get_precision_args: "get_precision m c ap p = Some (c', ap', p') \<Longrightarrow> set ap' \<subseteq> set ap"
  by (auto simp: get_precision_def Let_def bind_eq_Some_conv va_arg_Some split: if_split_asm)

lemma get_spec_args: "get_spec m c ap = Some (c', ap', p) \<Longrightarrow> set ap' \<subseteq> set ap"
  by (auto simp: get_spec_def bind_eq_Some_conv split: if_split_asm dest!: get_width_args get_precision_args)

subsection \<open>The whole formatter\<close>

text \<open>What a run leaves: only the buffer and stored counts change; the result is the number of characters, which fit, or -1;
there is a terminator behind the characters if there is room for it.\<close>

definition formatted :: "u64 \<Rightarrow> u64 \<Rightarrow> va_list \<Rightarrow> memory \<Rightarrow> u32 \<times> memory \<Rightarrow> bool" where
  "formatted start mx ap m res \<longleftrightarrow> (case res of (r, m') \<Rightarrow>
     (\<forall>a. m' a \<noteq> m a \<longrightarrow> a - start < mx \<or> counts_at ap a) \<and>
     (r = - 1 \<or> ucast r \<le> mx \<and> (ucast r < mx \<longrightarrow> m' (start + ucast r) = 0)))"

lemma formatted_trans:
  assumes "formatted start mx ap' m' res" "\<And>a. m' a \<noteq> m a \<Longrightarrow> a - start < mx \<or> counts_at ap a" "set ap' \<subseteq> set ap"
  shows "formatted start mx ap m res"
proof -
  have "counts_at ap' a \<Longrightarrow> counts_at ap a" for a using assms(3) by (auto simp: counts_at_def)
  with assms show ?thesis unfolding formatted_def by (cases res) (simp, metis)
qed

lemma sint_small: "uint w < 2 ^ 63 \<Longrightarrow> sint w = uint w" for w :: u64
proof -
  assume "uint w < 2 ^ 63"
  moreover have "- (2 ^ 63) \<le> uint w" by (rule order_trans [OF _ unsigned_greater_eq]) simp
  ultimately have "signed_take_bit 63 (uint w) = uint w" by (rule signed_take_bit_int_eq_self [rotated])
  then show ?thesis by (simp add: sint_uint)
qed

lemma fits_int_ucast:
  assumes "fits_int w" "w < 2 ^ 63"
  shows "ucast (ucast w :: u32) = w"
proof -
  have "uint w < 2 ^ 63" using assms(2) by (simp add: word_less_def)
  then have "sint w = uint w" by (intro sint_small)
  then have "uint w \<le> 0x7fffffff" using assms(1) by (simp add: fits_int_def word_sle_eq)
  then have "unat w \<le> 0x7fffffff" unfolding uint_nat by linarith
  then have "take_bit 32 (unat w) = unat w" by (intro take_bit_nat_eq_self) simp
  moreover have "unat (ucast w :: u32) = take_bit 32 (unat w)" by (simp add: unsigned_ucast_eq)
  moreover have "unat (ucast (ucast w :: u32) :: u64) = unat (ucast w :: u32)" by (rule unat_ucast_up) simp
  ultimately show ?thesis unfolding word_unat_eq_iff by (simp only:)
qed

lemma finish_output_formatted:
  assumes "finish_output start mx m s = Some res" "s - start \<le> mx" "mx < 2 ^ 63" "mx \<noteq> 0"
  shows "formatted start mx ap m res"
proof -
  have "s - start < 2 ^ 63" using assms(2,3) by (rule le_less_trans)
  moreover have fits: "fits_int (s - start)" using assms(1) by (simp add: finish_output_def split: if_split_asm)
  ultimately have "ucast (ucast (s - start) :: u32) = s - start" by (intro fits_int_ucast)
  moreover have "res = (ucast (s - start), if s - start < mx then m(s := 0) else m)"
    using assms(1,4) fits by (simp add: finish_output_def)
  ultimately show ?thesis using assms(2) by (auto simp: formatted_def)
qed

lemma prints_formatted:
  assumes "prints start mx m s (Inr (m', s'))" "s - start \<le> mx" "formatted start mx ap m' res"
  shows "formatted start mx ap m res"
  by (rule formatted_trans [OF assms(3)]) (use assms in \<open>auto simp: prints_def\<close>)

lemma prints_full_formatted:
  assumes "prints start mx m s (Inl m')" "s - start \<le> mx"
  shows "formatted start mx ap m (- 1, m')"
  using assms by (auto simp: formatted_def prints_def)

lemma one_conversion_prints:
  assumes "one_conversion start mx c ap m s = Some (c', ap', st)"
  obtains m0 where "set ap' \<subseteq> set ap" "\<And>a. m0 a \<noteq> m a \<Longrightarrow> counts_at ap a" "prints start mx m0 s st"
proof -
  obtain c1 ap1 p str wstr prefixbuf p' m0 fill where
    parts: "get_spec m (c + 1) ap = Some (c1, ap1, p)" "convert m (m c1) p ap1 (s - start) = Some (str, wstr, prefixbuf, p', m0, ap')"
      "emit_field start mx c1 prefixbuf fill str wstr p' m0 s = Some st"
    using assms by (auto simp: one_conversion_def bind_eq_Some_conv)
  have "set ap1 \<subseteq> set ap" using get_spec_args [OF parts(1)] .
  moreover from this have "counts_at ap1 a \<Longrightarrow> counts_at ap a" for a by (auto simp: counts_at_def)
  ultimately show ?thesis
    using that [of m0] convert_writes [OF parts(2)] emit_field_prints [OF parts(3)] by blast
qed

lemma vsnprintf_loop_formatted:
  assumes "vsnprintf_loop start mx c ap m s = Some res" "mx < 2 ^ 63 \<and> mx \<noteq> 0"
  shows "s - start \<le> mx \<longrightarrow> formatted start mx ap m res"
proof (rule vsnprintf_loop.raw_induct [where P = "\<lambda>start mx c ap m s res. mx < 2 ^ 63 \<and> mx \<noteq> 0 \<longrightarrow> s - start \<le> mx \<longrightarrow> formatted start mx ap m res",
    OF _ assms(1), THEN mp, OF _ assms(2)], intro impI)
  fix loop start mx c ap m s res
  assume IH: "\<And>start mx c ap m s res. loop start mx c ap m s = Some res \<Longrightarrow> mx < 2 ^ 63 \<and> mx \<noteq> 0 \<longrightarrow> s - start \<le> mx \<longrightarrow> formatted start mx ap m res"
    and body: "(if m c = 0 then finish_output start mx m s
      else if m c = 37 then do {
        (c, ap, st) \<leftarrow> one_conversion start mx c ap m s;
        (case st of Inl m \<Rightarrow> Some (- 1, m) | Inr (m, s) \<Rightarrow> loop start mx c ap m s) }
      else do {
        c' \<leftarrow> scan_literal m c;
        st \<leftarrow> copy_literal start mx c c' m s;
        (case st of Inl m \<Rightarrow> Some (- 1, m) | Inr (m, s) \<Rightarrow> loop start mx c' ap m s) }) = Some res"
    and mx: "mx < 2 ^ 63 \<and> mx \<noteq> 0" and s: "s - start \<le> mx"
  have step: "formatted start mx ap m res" if "prints start mx m s st"
    "(case st of Inl m \<Rightarrow> Some (- 1, m) | Inr (m, s) \<Rightarrow> loop start mx c' ap m s) = Some res" for m st ap c'
  proof (cases st)
    case (Inl m')
    with that s prints_full_formatted show ?thesis by fastforce
  next
    case (Inr ms)
    obtain m' s' where ms: "st = Inr (m', s')" using Inr by (cases ms) simp
    with that(1) s have "s' - start \<le> mx" by (simp add: prints_def)
    with that(2) mx IH [of start mx c' ap m' s' res] ms have "formatted start mx ap m' res" by simp
    with that(1) s show ?thesis unfolding ms by (rule prints_formatted)
  qed
  consider "m c = 0" | "m c = 37" | "m c \<noteq> 0" "m c \<noteq> 37" by blast
  then show "formatted start mx ap m res"
  proof cases
    case 1
    with body finish_output_formatted s mx show ?thesis by simp
  next
    case 2
    with body obtain c' ap' st where st: "one_conversion start mx c ap m s = Some (c', ap', st)"
      "(case st of Inl m \<Rightarrow> Some (- 1, m) | Inr (m, s) \<Rightarrow> loop start mx c' ap' m s) = Some res"
      by (auto simp: bind_eq_Some_conv)
    obtain m0 where m0: "set ap' \<subseteq> set ap" "\<And>a. m0 a \<noteq> m a \<Longrightarrow> counts_at ap a" "prints start mx m0 s st"
      using one_conversion_prints [OF st(1)] by blast
    show ?thesis by (rule formatted_trans [OF step [OF m0(3) st(2)]]) (use m0 in auto)
  next
    case 3
    with body obtain c' st where "copy_literal start mx c c' m s = Some st"
      "(case st of Inl m \<Rightarrow> Some (- 1, m) | Inr (m, s) \<Rightarrow> loop start mx c' ap m s) = Some res"
      by (auto simp: bind_eq_Some_conv)
    then show ?thesis using step copy_literal_prints by blast
  qed
qed

end
