(* ===== verification/CPrintfText.thy ===== *)
theory CPrintfText
  imports CPrintfProps
begin

text \<open>
  The text \<^verbatim>\<open>snprintf\<close> prints. A format is a list of conversions, each behind a literal text; its text is defined from the
  digits of numbers and the strings in memory, with padding, sign and prefix, and the formatter is shown to print its first
  characters, as many as the buffer holds.
\<close>

subsection \<open>Numbers\<close>

definition digit_text :: "bool \<Rightarrow> nat \<Rightarrow> u8" where
  "digit_text caps d = (if caps \<and> 10 \<le> d then of_nat (55 + d) else digit_char d)"

text \<open>The digits of a number, none for 0, and its text with at least the given number of digits.\<close>

definition digits0 :: "nat \<Rightarrow> nat \<Rightarrow> nat list" where
  "digits0 b n = (if n = 0 then [] else digits_of b n)"

definition num_text :: "nat \<Rightarrow> nat \<Rightarrow> bool \<Rightarrow> nat \<Rightarrow> u8 list" where
  "num_text b prec caps n = replicate (prec - length (digits0 b n)) 48 @ map (digit_text caps) (digits0 b n)"

lemma digits0_0 [simp]: "digits0 b 0 = []"
  by (simp add: digits0_def)

lemma digits0_step: "2 \<le> b \<Longrightarrow> 0 < n \<Longrightarrow> digits0 b n = digits0 b (n div b) @ [n mod b]"
  by (cases "n < b") (auto simp: digits0_def digits_of.simps [of b n] div_greater_zero_iff)

lemma digits0_length: "2 \<le> b \<Longrightarrow> n < b ^ k \<Longrightarrow> length (digits0 b n) \<le> k"
proof (induction k arbitrary: n)
  case (Suc k)
  then have "n div b < b ^ k" by (simp add: div_less_iff_less_mult mult.commute)
  with Suc show ?case by (cases "n = 0") (simp_all add: digits0_step)
qed simp

lemma letters: "d < 16 \<Longrightarrow> (if caps then base_letters_cap else base_letters) ! d = digit_text caps d"
proof -
  assume "d < 16"
  moreover have "list_all (\<lambda>d. base_letters_cap ! d = digit_text True d \<and> base_letters ! d = digit_text False d) [0..<16]"
    by code_simp
  ultimately show ?thesis by (simp add: list_all_iff)
qed

lemma digit_loop_text:
  assumes "base = 8 \<or> base = 10 \<or> base = 16"
  shows "length (digits0 (unat base) (unat num)) \<le> cnt \<Longrightarrow>
    digit_loop cnt num base caps = replicate (cnt - length (digits0 (unat base) (unat num))) 48 @ map (digit_text caps) (digits0 (unat base) (unat num))"
proof (induction cnt arbitrary: num)
  case (Suc cnt)
  have base: "2 \<le> unat base" "unat base \<le> 16" "unat (scast base :: u64) = unat base" using assms by auto
  have letter: "(if caps then base_letters_cap else base_letters) ! unat (num mod scast base) = digit_text caps (unat num mod unat base)"
  proof -
    have "unat num mod unat base < unat base" using base(1) by (intro mod_less_divisor) simp
    then have "unat num mod unat base < 16" using base(2) by (rule less_le_trans)
    with base(3) show ?thesis by (simp add: unat_mod letters)
  qed
  show ?case
  proof (cases "num = 0")
    case True
    with Suc.IH [of 0] letter show ?thesis by (simp add: replicate_append_same digit_text_def digit_char_def)
  next
    case False
    then have "0 < unat num" by (simp add: unat_gt_0)
    note step = digits0_step [OF base(1) this]
    then have "length (digits0 (unat base) (unat (num div scast base))) \<le> cnt" using Suc.prems base(3) by (simp add: unat_div)
    from Suc.IH [OF this] letter step base(3) show ?thesis by (simp add: unat_div)
  qed
qed simp

lemma skip_zeros_replicate:
  assumes "rest = [] \<or> hd rest \<noteq> 48" "n < 2 ^ 31"
  shows "k \<le> n \<Longrightarrow> d \<le> n \<Longrightarrow> skip_zeros (replicate k 48 @ rest) (of_nat n) (of_nat d) = replicate (k - (n - d)) 48 @ rest"
proof (induction k arbitrary: d)
  case 0
  then show ?case using assms(1) by (cases rest) auto
next
  case (Suc k)
  have "sint (of_nat (n - d) :: u32) = int (n - d)" using assms(2) by (simp add: signed_of_nat signed_take_bit_int_eq_self)
  moreover have "(of_nat n - of_nat d :: u32) = of_nat (n - d)" using Suc.prems by (simp add: of_nat_diff)
  ultimately have "0 <s (of_nat n - of_nat d :: u32) \<longleftrightarrow> d < n" by (simp add: word_sless_alt)
  moreover have "(48 :: u8) \<noteq> 0" by code_simp
  ultimately show ?case using Suc.IH [of "Suc d"] Suc.prems by (cases "d < n") (simp_all add: Suc_diff_Suc add.commute)
qed

lemma digits0_hd:
  assumes "2 \<le> b" "b \<le> 16" "digits0 b n \<noteq> []"
  shows "hd (map (digit_text caps) (digits0 b n)) \<noteq> 48"
proof -
  have "0 < n" using assms(3) by (cases "n = 0") simp_all
  then have "hd (digits0 b n) \<noteq> 0" using digits_of_hd by (simp add: digits0_def)
  moreover have "hd (digits0 b n) < 16"
    using assms digits_of_less [of b "hd (digits0 b n)" n] by (simp add: digits0_def split: if_splits)
  ultimately have "digit_text caps (hd (digits0 b n)) \<noteq> 48"
  proof -
    have "list_all (\<lambda>d. d \<noteq> 0 \<longrightarrow> digit_text True d \<noteq> 48 \<and> digit_text False d \<noteq> 48) [0..<16]" by code_simp
    with \<open>hd (digits0 b n) < 16\<close> \<open>hd (digits0 b n) \<noteq> 0\<close> show ?thesis by (cases caps) (simp_all add: list_all_iff)
  qed
  with assms(3) show ?thesis by (simp add: hd_map)
qed

text \<open>Both converters give the text of a number, as far as the precision fits the buffer; 22 digits are enough for 64 bits.\<close>

lemma to_str_text:
  assumes base: "base = 8 \<or> base = 10 \<or> base = 16" and e: "22 \<le> e" "prec \<le> e" "e < 2 ^ 31"
  shows "skip_zeros (digit_loop e num base caps) (of_nat e) (of_nat prec) = num_text (unat base) prec caps (unat num)"
proof -
  let ?ds = "digits0 (unat base) (unat num)"
  have b: "2 \<le> unat base" "unat base \<le> 16" "8 \<le> unat base" using base by auto
  have "unat num < 2 ^ 64" using unsigned_less [of num] by simp
  then have "unat num < 8 ^ 22" by (rule less_le_trans) simp
  also have "\<dots> \<le> unat base ^ 22" using b(3) by (rule power_mono) simp
  finally have len: "length ?ds \<le> e" using digits0_length [OF b(1)] e(1) by (meson order_trans)
  then have "skip_zeros (digit_loop e num base caps) (of_nat e) (of_nat prec) =
      replicate (e - length ?ds - (e - prec)) 48 @ map (digit_text caps) ?ds"
    unfolding digit_loop_text [OF base len] using e digits0_hd [OF b(1,2)] by (intro skip_zeros_replicate) auto
  moreover have "e - length ?ds - (e - prec) = prec - length ?ds" using e len by linarith
  ultimately show ?thesis by (simp add: num_text_def)
qed

lemma sless_of_nat: "a < 2 ^ 31 \<Longrightarrow> b < 2 ^ 31 \<Longrightarrow> (of_nat a :: u32) <s of_nat b \<longleftrightarrow> a < b"
  by (simp add: word_sless_alt signed_of_nat signed_take_bit_int_eq_self)

lemma uint64_to_str_text:
  assumes "base = 8 \<or> base = 10 \<or> base = 16" "prec < 63"
  shows "uint64_to_str num base (of_nat prec) caps = Some (num_text (unat base) prec caps (unat num))"
  using assms(2) to_str_text [OF assms(1), of 43 prec num caps] to_str_text [OF assms(1), of prec prec num caps]
    sless_of_nat [of prec 43] sless_of_nat [of prec 63]
  by (cases "prec < 43") (simp_all add: uint64_to_str_def Let_def unsigned_of_nat take_bit_nat_eq_self)

lemma ulong_to_str_text:
  assumes "base = 8 \<or> base = 10 \<or> base = 16" "prec < 63"
  shows "ulong_to_str num base (of_nat prec) caps = Some (num_text (unat base) prec caps (unat num))"
  using assms(2) to_str_text [OF assms(1), of 22 prec num caps] to_str_text [OF assms(1), of prec prec num caps]
    sless_of_nat [of prec 22] sless_of_nat [of prec 63]
  by (cases "prec < 22") (simp_all add: ulong_to_str_def Let_def unsigned_of_nat take_bit_nat_eq_self)

subsection \<open>Conversion specifications\<close>

record conv =
  cv_flags :: "u8 list"
  cv_width :: nat
  cv_prec :: "nat option"
  cv_size :: "u8 list"
  cv_letter :: u8

definition dec_bytes :: "nat \<Rightarrow> u8 list" where
  "dec_bytes n = map digit_char (digits_of 10 n)"

definition prec_bytes :: "nat option \<Rightarrow> u8 list" where
  "prec_bytes prec = (case prec of None \<Rightarrow> [] | Some n \<Rightarrow> 46 # dec_bytes n)"

text \<open>The bytes between the percent sign and the letter.\<close>

definition spec_bytes :: "conv \<Rightarrow> u8 list" where
  "spec_bytes cv = cv_flags cv @ (if cv_width cv = 0 then [] else dec_bytes (cv_width cv)) @ prec_bytes (cv_prec cv) @ cv_size cv"

definition flag_letters :: "u8 list" where
  "flag_letters = [48, 45, 35, 43, 32]"

definition conv_letters :: "u8 list" where
  "conv_letters = [37, 99, 100, 105, 111, 112, 115, 117, 120, 88]"

definition valid_conv :: "conv \<Rightarrow> bool" where
  "valid_conv cv \<longleftrightarrow> set (cv_flags cv) \<subseteq> set flag_letters \<and> cv_width cv < 2 ^ 31 \<and> (\<forall>n. cv_prec cv = Some n \<longrightarrow> n < 63) \<and>
     cv_size cv \<in> {[], [104], [108], [108, 108]} \<and> cv_letter cv \<in> set conv_letters \<and> (cv_letter cv = 115 \<longrightarrow> cv_size cv = [])"

text \<open>What the formatter makes of a specification.\<close>

definition spec_of :: "conv \<Rightarrow> printf_spec" where
  "spec_of cv = \<lparr>fill_count = of_nat (cv_width cv), filler = (if 48 \<in> set (cv_flags cv) \<and> 45 \<notin> set (cv_flags cv) then 48 else 32),
     decimal = (case cv_prec cv of None \<Rightarrow> - 1 | Some n \<Rightarrow> of_nat n), minus_flag = 45 \<in> set (cv_flags cv),
     plus_flag = 43 \<in> set (cv_flags cv), pound_flag = 35 \<in> set (cv_flags cv),
     space_flag = 32 \<in> set (cv_flags cv) \<and> 43 \<notin> set (cv_flags cv),
     h_type = (cv_size cv = [104]), l_type = (cv_size cv = [108]), ll_type = (cv_size cv = [108, 108])\<rparr>"

lemma fold_one_flag: "fold one_flag fs p = p\<lparr>filler := (if 48 \<in> set fs then 48 else filler p), minus_flag := minus_flag p \<or> 45 \<in> set fs,
    plus_flag := plus_flag p \<or> 43 \<in> set fs, pound_flag := pound_flag p \<or> 35 \<in> set fs, space_flag := space_flag p \<or> 32 \<in> set fs\<rparr>"
  by (induction fs arbitrary: p) (auto simp: one_flag_def Let_def)

lemma collect_flags_correct:
  assumes "ch \<notin> set flag_letters"
  shows "set fs \<subseteq> set flag_letters \<Longrightarrow> string_at m c (fs @ ch # rest) \<Longrightarrow> collect_flags m c p = Some (c + of_nat (length fs), fold one_flag fs p)"
proof (induction fs arbitrary: c p)
  case Nil
  then show ?case using assms by (subst collect_flags.simps) (auto simp: flag_letters_def)
next
  case (Cons f fs)
  then have "m (c + 1) \<noteq> 0" by (cases fs) auto
  with Cons show ?case by (subst collect_flags.simps) (auto simp: flag_letters_def add.assoc)
qed

definition digit_byte :: "u8 \<Rightarrow> bool" where
  "digit_byte ch \<longleftrightarrow> 48 <=s ch \<and> ch <=s 57"

lemma digit_char_byte: "d < 10 \<Longrightarrow> digit_byte (digit_char d) \<and> char_int (digit_char d) - 48 = of_nat d \<and> digit_char d \<noteq> 0 \<and> digit_char d \<noteq> 42"
proof -
  have "list_all (\<lambda>d. digit_byte (digit_char d) \<and> char_int (digit_char d) - 48 = of_nat d \<and> digit_char d \<noteq> 0 \<and> digit_char d \<noteq> 42) [0..<10]" by code_simp
  then show "d < 10 \<Longrightarrow> ?thesis" by (simp add: list_all_iff)
qed

lemma scan_number_correct:
  assumes "\<not> digit_byte ch"
  shows "\<forall>d \<in> set ds. d < 10 \<Longrightarrow> string_at m c (map digit_char ds @ ch # rest) \<Longrightarrow>
    scan_number m c num = Some (c + of_nat (length ds), foldl (\<lambda>r d. r * of_nat 10 + of_nat d) num ds)"
proof (induction ds arbitrary: c num)
  case Nil
  then show ?case using assms by (subst scan_number.simps) (auto simp: digit_byte_def)
next
  case (Cons d ds)
  then have "m (c + 1) \<noteq> 0" by (cases ds) auto
  moreover have "digit_byte (m c)" "char_int (m c) - 48 = of_nat d" using Cons.prems digit_char_byte by auto
  ultimately show ?case using Cons by (subst scan_number.simps) (auto simp: digit_byte_def add.assoc)
qed

lemma scan_dec_bytes:
  assumes "\<not> digit_byte ch" "string_at m c (dec_bytes n @ ch # rest)"
  shows "scan_number m c 0 = Some (c + of_nat (length (dec_bytes n)), of_nat n)"
proof -
  have "\<forall>d \<in> set (digits_of 10 n). d < 10" using digits_of_less [of 10] by simp
  from scan_number_correct [OF assms(1) this] assms(2) digits_of_value [of 10 n, where 'a = u32] show ?thesis
    by (simp add: dec_bytes_def)
qed

lemma dec_bytes_cases:
  obtains d ds where "dec_bytes n = digit_char d # ds" "d < 10" "0 < n \<Longrightarrow> d \<noteq> 0"
proof -
  obtain d ds where ds: "digits_of 10 n = d # ds" by (cases "digits_of 10 n") auto
  then show ?thesis using that [of d "map digit_char ds"] digits_of_less [of 10 d n] digits_of_hd [of n 10] by (simp add: dec_bytes_def)
qed

text \<open>The byte behind the flags and the width, and the one behind the precision.\<close>

lemma conv_letters_not: "ch \<in> set conv_letters \<or> ch = 46 \<or> ch = 104 \<or> ch = 108 \<Longrightarrow> ch \<notin> set flag_letters \<and> \<not> digit_byte ch \<and> ch \<noteq> 42 \<and> ch \<noteq> 0"
proof -
  have "list_all (\<lambda>ch. ch \<notin> set flag_letters \<and> \<not> digit_byte ch \<and> ch \<noteq> 42 \<and> ch \<noteq> 0) (46 # 104 # 108 # conv_letters)" by code_simp
  then show "ch \<in> set conv_letters \<or> ch = 46 \<or> ch = 104 \<or> ch = 108 \<Longrightarrow> ?thesis" by (auto simp: list_all_iff)
qed

lemma after_precision:
  assumes "valid_conv cv"
  obtains ch more where "cv_size cv @ cv_letter cv # rest = ch # more" "\<not> digit_byte ch" "ch \<noteq> 46" "ch \<notin> set flag_letters" "ch \<noteq> 42"
proof -
  have "46 \<notin> set conv_letters" by (simp add: conv_letters_def)
  moreover have "cv_letter cv \<in> set conv_letters" "cv_size cv \<in> {[], [104], [108], [108, 108]}" using assms by (simp_all add: valid_conv_def)
  moreover from this obtain ch more where ch: "cv_size cv @ cv_letter cv # rest = ch # more" "ch = cv_letter cv \<or> ch = 104 \<or> ch = 108" by auto
  ultimately have "ch \<in> set conv_letters \<or> ch = 46 \<or> ch = 104 \<or> ch = 108" "ch \<noteq> 46" by auto
  with conv_letters_not [of ch] ch(1) that show ?thesis by blast
qed

lemma after_width:
  assumes "valid_conv cv"
  obtains ch more where "prec_bytes (cv_prec cv) @ cv_size cv @ cv_letter cv # rest = ch # more" "\<not> digit_byte ch" "ch \<notin> set flag_letters" "ch \<noteq> 42"
proof (cases "cv_prec cv")
  case None
  with after_precision [OF assms, of rest] that show ?thesis by (auto simp: prec_bytes_def)
next
  case (Some n)
  with conv_letters_not [of 46] that show ?thesis by (auto simp: prec_bytes_def)
qed

lemma get_width_correct:
  assumes "valid_conv cv" "string_at m c ((if cv_width cv = 0 then [] else dec_bytes (cv_width cv)) @ prec_bytes (cv_prec cv) @ cv_size cv @ cv_letter cv # rest)"
  shows "get_width m c ap p = Some (c + of_nat (length (if cv_width cv = 0 then [] else dec_bytes (cv_width cv))), ap, p\<lparr>fill_count := of_nat (cv_width cv)\<rparr>)"
proof -
  obtain ch more where ch: "prec_bytes (cv_prec cv) @ cv_size cv @ cv_letter cv # rest = ch # more" "\<not> digit_byte ch" "ch \<noteq> 42"
    using after_width [OF assms(1)] .
  show ?thesis
  proof (cases "cv_width cv = 0")
    case True
    then have "m c = ch" using assms(2) ch by simp
    moreover have "scan_number m c 0 = Some (c, 0)" using scan_number_correct [OF ch(2), of "[]" m c more 0] True assms(2) ch(1) by simp
    ultimately show ?thesis using True ch by (simp add: get_width_def)
  next
    case False
    obtain d ds where ds: "dec_bytes (cv_width cv) = digit_char d # ds" "d < 10" by (rule dec_bytes_cases)
    with False assms(2) digit_char_byte [OF ds(2)] have "m c \<noteq> 42" by simp
    moreover have "scan_number m c 0 = Some (c + of_nat (length (dec_bytes (cv_width cv))), of_nat (cv_width cv))"
      using scan_dec_bytes [OF ch(2)] False assms(2) ch(1) by simp
    ultimately show ?thesis using False by (simp add: get_width_def)
  qed
qed

lemma get_precision_correct:
  assumes "valid_conv cv" "string_at m c (prec_bytes (cv_prec cv) @ cv_size cv @ cv_letter cv # rest)"
  shows "get_precision m c ap p = Some (c + of_nat (length (prec_bytes (cv_prec cv))), ap,
    p\<lparr>decimal := (case cv_prec cv of None \<Rightarrow> decimal p | Some n \<Rightarrow> of_nat n)\<rparr>)"
proof -
  obtain ch more where ch: "cv_size cv @ cv_letter cv # rest = ch # more" "\<not> digit_byte ch" "ch \<noteq> 46"
    using after_precision [OF assms(1)] .
  show ?thesis
  proof (cases "cv_prec cv")
    case None
    with assms(2) ch show ?thesis by (simp add: get_precision_def prec_bytes_def)
  next
    case (Some n)
    obtain d ds where ds: "dec_bytes n = digit_char d # ds" "d < 10" by (rule dec_bytes_cases)
    have "string_at m (c + 1) (dec_bytes n @ ch # more)" "m c = 46" using Some assms(2) ch(1) by (simp_all add: prec_bytes_def)
    moreover from this have "m (c + 1) \<noteq> 42" "m (c + 1) \<noteq> 0" using ds digit_char_byte [OF ds(2)] by auto
    moreover have "scan_number m (c + 1) 0 = Some (c + 1 + of_nat (length (dec_bytes n)), of_nat n)"
      by (rule scan_dec_bytes [OF ch(2)]) fact
    ultimately show ?thesis using Some by (simp add: get_precision_def prec_bytes_def Let_def add.assoc)
  qed
qed

lemma get_size_correct:
  assumes "valid_conv cv" "string_at m c (cv_size cv @ cv_letter cv # rest)" "\<not> h_type p" "\<not> l_type p" "\<not> ll_type p"
  shows "get_size m c p = Some (c + of_nat (length (cv_size cv)),
    p\<lparr>h_type := (cv_size cv = [104]), l_type := (cv_size cv = [108]), ll_type := (cv_size cv = [108, 108])\<rparr>)"
proof -
  have letter: "cv_letter cv \<notin> {108, 76, 104, 122, 73, 0}" using assms(1) by (auto simp: valid_conv_def conv_letters_def)
  have "cv_size cv \<in> {[], [104], [108], [108, 108]}" using assms(1) by (simp add: valid_conv_def)
  then consider "cv_size cv = []" | "cv_size cv = [104]" | "cv_size cv = [108]" | "cv_size cv = [108, 108]" by blast
  then show ?thesis using assms(2-5) letter by cases (simp_all add: get_size_def Let_def add.assoc)
qed

lemma get_spec_correct:
  assumes "valid_conv cv" "string_at m c (spec_bytes cv @ cv_letter cv # rest)"
  shows "get_spec m c ap = Some (c + of_nat (length (spec_bytes cv)), ap, spec_of cv)"
proof -
  let ?w = "if cv_width cv = 0 then [] else dec_bytes (cv_width cv)"
  obtain ch more where ch: "?w @ prec_bytes (cv_prec cv) @ cv_size cv @ cv_letter cv # rest = ch # more" "ch \<notin> set flag_letters"
  proof (cases "cv_width cv = 0")
    case True
    with after_width [OF assms(1), of rest] that show ?thesis by auto
  next
    case False
    obtain d ds where ds: "dec_bytes (cv_width cv) = digit_char d # ds" "d < 10" "d \<noteq> 0" using dec_bytes_cases [of "cv_width cv"] False by auto
    have "list_all (\<lambda>d. d = 0 \<or> digit_char d \<notin> set flag_letters) [0..<10]" by code_simp
    with ds(2,3) have "digit_char d \<notin> set flag_letters" unfolding list_all_iff by (metis atLeastLessThan_iff set_upt zero_le)
    with ds False that show ?thesis by auto
  qed
  have flags: "set (cv_flags cv) \<subseteq> set flag_letters" using assms(1) by (simp add: valid_conv_def)
  let ?c1 = "c + of_nat (length (cv_flags cv))" let ?c2 = "?c1 + of_nat (length ?w)"
  let ?c3 = "?c2 + of_nat (length (prec_bytes (cv_prec cv)))"
  have str: "string_at m c (cv_flags cv @ ch # more)" using assms(2) ch(1) by (simp add: spec_bytes_def)
  have str1: "string_at m ?c1 (?w @ prec_bytes (cv_prec cv) @ cv_size cv @ cv_letter cv # rest)"
    using assms(2) unfolding spec_bytes_def append_assoc by (subst (asm) cstring_append) blast
  then have str2: "string_at m ?c2 (prec_bytes (cv_prec cv) @ cv_size cv @ cv_letter cv # rest)" by (subst (asm) cstring_append) blast
  then have str3: "string_at m ?c3 (cv_size cv @ cv_letter cv # rest)" by (subst (asm) cstring_append) blast
  have "m c \<noteq> 0" using str by (cases "cv_flags cv") auto
  then show ?thesis
    using collect_flags_correct [OF ch(2) flags str] get_width_correct [OF assms(1) str1] get_precision_correct [OF assms(1) str2]
      get_size_correct [OF assms(1) str3]
    by (auto simp: get_spec_def get_flags_def fold_one_flag init_spec_def spec_of_def spec_bytes_def Let_def ac_simps split: option.split)
qed

end
