(* ===== verification/CPrintfRender.thy ===== *)
theory CPrintfRender
  imports CPrintfText
begin

text \<open>
  Each output step of the formatter appends its characters to the buffer and stops when the buffer is full, and each conversion
  prints the text of its specification and its argument, which is defined here.
\<close>

subsection \<open>Output steps\<close>

text \<open>The characters \<open>outp\<close> have been sent to a buffer over the memory \<open>m0\<close>.\<close>

definition place :: "u64 \<Rightarrow> u8 list \<Rightarrow> u64" where
  "place start outp = start + of_nat (length outp)"

definition printed :: "u64 \<Rightarrow> u64 \<Rightarrow> memory \<Rightarrow> u8 list \<Rightarrow> out \<Rightarrow> bool" where
  "printed start mx m0 outp st \<longleftrightarrow> (case st of
     Inl m \<Rightarrow> unat mx \<le> length outp \<and> m = stored start (take (unat mx) outp) m0
   | Inr (m, s) \<Rightarrow> length outp \<le> unat mx \<and> m = stored start outp m0 \<and> s = place start outp)"

lemma printed_refl [intro!]: "length outp \<le> unat mx \<Longrightarrow> printed start mx m0 outp (Inr (stored start outp m0, place start outp))"
  by (simp add: printed_def)

lemma printed_full: "length outp = unat mx \<Longrightarrow> printed start mx m0 (outp @ rest) (Inl (stored start outp m0))"
  by (simp add: printed_def)

lemma printed_then:
  assumes "printed start mx m0 outp st"
    "length outp \<le> unat mx \<Longrightarrow> printed start mx m0 (outp @ rest) (f (stored start outp m0) (place start outp))"
  shows "printed start mx m0 (outp @ rest) (unless_full st f)"
proof (cases st)
  case (Inl m)
  with assms(1) show ?thesis by (simp add: printed_def unless_full_def)
next
  case (Inr ms)
  with assms(1) have "st = Inr (stored start outp m0, place start outp)" "length outp \<le> unat mx" by (auto simp: printed_def)
  with assms(2) show ?thesis by (simp add: unless_full_def)
qed

lemma unat_64: "unat w < 2 ^ 64" for w :: u64
proof -
  have "unat w < 2 ^ LENGTH(64)" by (rule unsigned_less)
  then show ?thesis by simp
qed

lemma room:
  assumes "length outp \<le> unat mx"
  shows "mx \<le> place start outp - start \<longleftrightarrow> length outp = unat mx"
proof -
  have "length outp < 2 ^ 64" using assms unat_64 [of mx] by (rule le_less_trans)
  then have "unat (of_nat (length outp) :: u64) = length outp" by (simp add: unsigned_of_nat take_bit_nat_eq_self)
  with assms show ?thesis by (auto simp: place_def word_le_nat_alt)
qed

lemma store_char:
  fixes mx :: u64
  assumes "length outp < unat mx"
  shows "(stored start outp m0)(place start outp := ch) = stored start (outp @ [ch]) m0"
    "place start outp + 1 = place start (outp @ [ch])"
proof -
  have "length outp + length [ch] < 2 ^ 64" using assms unat_64 [of mx] by simp
  from stored_append [OF this, of start m0] stored_Cons [of "[]" "start + of_nat (length outp)" "stored start outp m0" ch]
  show "(stored start outp m0)(place start outp := ch) = stored start (outp @ [ch]) m0" by (simp add: place_def)
qed (simp add: place_def)

lemma emit_chars_text: "length outp \<le> unat mx \<Longrightarrow>
  printed start mx m0 (outp @ chs) (emit_chars start mx chs (stored start outp m0) (place start outp))"
proof (induction chs arbitrary: outp)
  case (Cons ch chs)
  show ?case
  proof (cases "length outp = unat mx")
    case True
    then show ?thesis using room [of outp mx start] by (simp add: printed_full)
  next
    case False
    with Cons.prems have "length outp < unat mx" by simp
    with store_char [OF this] Cons.IH [of "outp @ [ch]"] room [OF Cons.prems, of start] show ?thesis by (simp del: fun_upd_apply)
  qed
qed auto

subsection \<open>Strings\<close>

fun str_is :: "memory \<Rightarrow> str_ptr \<Rightarrow> u8 list \<Rightarrow> bool" where
  "str_is m str [] \<longleftrightarrow> str_char m str = 0"
| "str_is m str (b # bs) \<longleftrightarrow> b \<noteq> 0 \<and> str_char m str = b \<and> str_is m (str_next str) bs"

lemma str_is_Local: "0 \<notin> set bs \<Longrightarrow> str_is m (Local bs) bs"
  by (induction bs) auto

lemma str_is_In_mem [simp]: "str_is m (In_mem a) bs \<longleftrightarrow> string_at m a bs"
  by (induction bs arbitrary: a) auto

text \<open>The output does not change a string.\<close>

definition stable :: "u64 \<Rightarrow> u64 \<Rightarrow> memory \<Rightarrow> str_ptr \<Rightarrow> u8 list \<Rightarrow> bool" where
  "stable start mx m0 str bs \<longleftrightarrow> (\<forall>outp. length outp \<le> unat mx \<longrightarrow> str_is (stored start outp m0) str bs)"

lemma stored_outside: "unat mx \<le> unat (a - start) \<Longrightarrow> length outp \<le> unat mx \<Longrightarrow> stored start outp m0 a = m0 a"
  by (simp add: stored_def)

lemma cstring_stored: "string_at m0 p s \<Longrightarrow> clear_of p s start (unat mx) \<Longrightarrow> length outp \<le> unat mx \<Longrightarrow> string_at (stored start outp m0) p s"
  by (erule cstring_cong, rule stored_outside) (simp_all add: clear_of_def)

lemma stable_In_mem: "string_at m0 a bs \<Longrightarrow> clear_of a bs start (unat mx) \<Longrightarrow> stable start mx m0 (In_mem a) bs"
  by (simp add: stable_def cstring_stored)

lemma stable_Local: "0 \<notin> set bs \<Longrightarrow> stable start mx m0 (Local bs) bs"
  by (simp add: stable_def str_is_Local)

lemma emit_str_text:
  assumes "unat mx \<le> unat (c - start)"
  shows "stable start mx m0 str bs \<Longrightarrow> length outp \<le> unat mx \<Longrightarrow>
    \<exists>st. emit_str start mx c str prec (stored start outp m0) (place start outp) = Some st \<and>
      printed start mx m0 (outp @ (if m0 c = 115 then take (unat prec) bs else bs)) st"
proof (induction bs arbitrary: str prec outp)
  case Nil
  then have "str_char (stored start outp m0) str = 0" by (simp add: stable_def)
  with Nil.prems show ?case by (subst emit_str.simps) auto
next
  case (Cons b bs)
  have b: "b \<noteq> 0" "str_char (stored start outp m0) str = b" and next_stable: "stable start mx m0 (str_next str) bs"
    using Cons.prems by (simp_all add: stable_def)
  have c: "stored start outp m0 c = m0 c" using assms Cons.prems(2) by (rule stored_outside)
  show ?case
  proof (cases "length outp = unat mx \<or> m0 c = 115 \<and> prec = 0")
    case True
    with b c room [OF Cons.prems(2), of start] Cons.prems(2) show ?thesis
      by (subst emit_str.simps) (auto simp: printed_full)
  next
    case False
    with Cons.prems(2) have less: "length outp < unat mx" by simp
    then obtain st where "emit_str start mx c (str_next str) (prec - 1) (stored start (outp @ [b]) m0) (place start (outp @ [b])) = Some st"
      "printed start mx m0 ((outp @ [b]) @ (if m0 c = 115 then take (unat (prec - 1)) bs else bs)) st"
      using Cons.IH [OF next_stable, of "outp @ [b]" "prec - 1"] by auto
    moreover have "m0 c = 115 \<Longrightarrow> unat prec = Suc (unat (prec - 1))" using False unat_minus_one [of prec] unat_gt_0 [of prec] by auto
    ultimately show ?thesis using False b c less room [OF Cons.prems(2), of start] store_char [OF less]
      by (subst emit_str.simps) (auto simp del: fun_upd_apply)
  qed
qed

lemma copy_literal_text:
  "string_at m0 c (lit @ rest) \<Longrightarrow> clear_of c lit start (unat mx) \<Longrightarrow> unat c + length lit < 2 ^ 64 \<Longrightarrow> length outp \<le> unat mx \<Longrightarrow>
    \<exists>st. copy_literal start mx c (c + of_nat (length lit)) (stored start outp m0) (place start outp) = Some st \<and>
      printed start mx m0 (outp @ lit) st"
proof (induction lit arbitrary: c outp)
  case Nil
  then show ?case by (subst copy_literal.simps) auto
next
  case (Cons b lit)
  have "unat (of_nat (length (b # lit)) :: u64) = length (b # lit)" using Cons.prems(3) by (simp add: unsigned_of_nat take_bit_nat_eq_self del: of_nat_Suc)
  then have "unat (c + of_nat (length (b # lit))) = unat c + length (b # lit)"
    using Cons.prems(3) unat_add_lem [of c "of_nat (length (b # lit))"] by simp
  then have lt: "c < c + of_nat (length (b # lit))" by (simp add: word_less_nat_alt del: of_nat_Suc)
  have "unat mx \<le> unat (c + of_nat 0 - start)" using Cons.prems(2) unfolding clear_of_def by blast
  then have b: "stored start outp m0 c = b" using stored_outside [of mx c start outp m0] Cons.prems(1,4) by simp
  show ?case
  proof (cases "length outp = unat mx")
    case True
    then show ?thesis using lt room [of outp mx start] by (subst copy_literal.simps) (auto simp: printed_full simp del: of_nat_Suc)
  next
    case False
    with Cons.prems(4) have less: "length outp < unat mx" by simp
    have "unat (c + 1) + length lit < 2 ^ 64"
    proof -
      have "unat (c + 1) \<le> unat c + 1" by (simp add: unat_word_ariths)
      with Cons.prems(3) show ?thesis by simp
    qed
    with Cons.IH [of "c + 1" "outp @ [b]"] clear_of_Cons [OF Cons.prems(2)] Cons.prems(1) less obtain st where
      "copy_literal start mx (c + 1) (c + 1 + of_nat (length lit)) (stored start (outp @ [b]) m0) (place start (outp @ [b])) = Some st"
      "printed start mx m0 ((outp @ [b]) @ lit) st" by auto
    then show ?thesis using False lt b room [OF Cons.prems(4), of start] store_char [OF less]
      by (subst copy_literal.simps) (auto simp: add.assoc simp del: fun_upd_apply)
  qed
qed

lemma scan_literal_text: "string_at m c (lit @ rest) \<Longrightarrow> 37 \<notin> set lit \<Longrightarrow> rest = [] \<or> hd rest = 37 \<Longrightarrow> scan_literal m c = Some (c + of_nat (length lit))"
proof (induction lit arbitrary: c)
  case Nil
  then show ?case by (cases rest) (subst scan_literal.simps, auto)+
next
  case (Cons b lit)
  then show ?case by (subst scan_literal.simps) (auto simp: add.assoc)
qed

subsection \<open>The text of a conversion\<close>

text \<open>The value of an argument: 64 bits with \<^verbatim>\<open>l\<close> or \<^verbatim>\<open>ll\<close>, else 32 bits, with \<^verbatim>\<open>h\<close> too.\<close>

definition long_arg :: "conv \<Rightarrow> bool" where
  "long_arg cv \<longleftrightarrow> cv_size cv = [108] \<or> cv_size cv = [108, 108]"

definition signed_val :: "conv \<Rightarrow> u64 \<Rightarrow> int" where
  "signed_val cv a = (if long_arg cv then sint a else sint (int_arg a))"

definition unsigned_val :: "conv \<Rightarrow> u64 \<Rightarrow> nat" where
  "unsigned_val cv a = (if long_arg cv then unat a else unat (int_arg a))"

definition digits_min :: "conv \<Rightarrow> nat" where
  "digits_min cv = (case cv_prec cv of None \<Rightarrow> 1 | Some n \<Rightarrow> n)"

definition conv_prefix :: "conv \<Rightarrow> u64 \<Rightarrow> u8 list" where
  "conv_prefix cv a =
     (if cv_letter cv = 100 \<or> cv_letter cv = 105 then
        if signed_val cv a < 0 then [45]
        else if 43 \<in> set (cv_flags cv) then [43]
        else if 32 \<in> set (cv_flags cv) then [32] else []
      else if cv_letter cv = 112 then [48, 120]
      else if cv_letter cv = 120 then if 35 \<in> set (cv_flags cv) then [48, 120] else []
      else if cv_letter cv = 88 then if 35 \<in> set (cv_flags cv) then [48, 88] else []
      else if cv_letter cv = 111 then if 35 \<in> set (cv_flags cv) then [48] else []
      else [])"

definition conv_body :: "(u64 \<Rightarrow> u8 list) \<Rightarrow> conv \<Rightarrow> u64 \<Rightarrow> u8 list" where
  "conv_body strs cv a =
     (if cv_letter cv = 100 \<or> cv_letter cv = 105 then num_text 10 (digits_min cv) False (nat \<bar>signed_val cv a\<bar>)
      else if cv_letter cv = 117 then num_text 10 (digits_min cv) False (unsigned_val cv a)
      else if cv_letter cv = 120 then num_text 16 (digits_min cv) False (unsigned_val cv a)
      else if cv_letter cv = 88 then num_text 16 (digits_min cv) True (unsigned_val cv a)
      else if cv_letter cv = 111 then num_text 8 (digits_min cv) False (unsigned_val cv a)
      else if cv_letter cv = 112 then num_text 16 16 False (unat a)
      else if cv_letter cv = 99 then (if ucast (int_arg a) = (0 :: u8) then [] else [ucast (int_arg a)])
      else if cv_letter cv = 37 then [37]
      else strs a)"

text \<open>A precision cuts a string, but not the length that the padding goes by.\<close>

definition conv_shown :: "(u64 \<Rightarrow> u8 list) \<Rightarrow> conv \<Rightarrow> u64 \<Rightarrow> u8 list" where
  "conv_shown strs cv a =
     (case cv_prec cv of None \<Rightarrow> conv_body strs cv a
      | Some n \<Rightarrow> if cv_letter cv = 115 then take n (conv_body strs cv a) else conv_body strs cv a)"

text \<open>Zeros fill the field when the flag asks for them and there is neither a minus flag nor, for a number, a precision; but
\<^verbatim>\<open>%u\<close> is never filled with zeros unless its size is \<^verbatim>\<open>ll\<close>.\<close>

definition conv_filler :: "conv \<Rightarrow> u8" where
  "conv_filler cv =
     (if 48 \<in> set (cv_flags cv) \<and> 45 \<notin> set (cv_flags cv) \<and> (cv_letter cv \<in> {100, 105, 111, 112, 117, 120, 88} \<longrightarrow> cv_prec cv = None) \<and>
        (cv_letter cv = 117 \<longrightarrow> cv_size cv = [108, 108]) then 48 else 32)"

definition conv_text :: "(u64 \<Rightarrow> u8 list) \<Rightarrow> conv \<Rightarrow> u64 \<Rightarrow> u8 list" where
  "conv_text strs cv a =
     (let pad = replicate (cv_width cv - (length (conv_body strs cv a) + length (conv_prefix cv a))) (conv_filler cv)
      in if 45 \<in> set (cv_flags cv) then conv_prefix cv a @ conv_shown strs cv a @ pad
         else if conv_filler cv = 48 then conv_prefix cv a @ pad @ conv_shown strs cv a
         else pad @ conv_prefix cv a @ conv_shown strs cv a)"

subsection \<open>The conversions print it\<close>

lemma num_text_no_0:
  assumes "2 \<le> b" "b \<le> 16"
  shows "0 \<notin> set (num_text b prec caps n)"
proof -
  have "\<forall>d \<in> set (digits0 b n). d < 16"
    using assms digits_of_less [OF assms(1), of _ n] by (auto simp: digits0_def intro: less_le_trans)
  moreover have "list_all (\<lambda>d. digit_text True d \<noteq> 0 \<and> digit_text False d \<noteq> 0) [0..<16]" by code_simp
  ultimately have "digit_text caps d \<noteq> 0" if "d \<in> set (digits0 b n)" for d
    using that by (cases caps) (auto simp: list_all_iff)
  moreover have "(0 :: u8) \<noteq> 48" by code_simp
  ultimately show ?thesis by (auto simp: num_text_def)
qed

lemma num_text_length:
  assumes "8 \<le> b" "prec < 63" "n < 2 ^ 64"
  shows "length (num_text b prec caps n) < 63"
proof -
  have "n < 8 ^ 22" using assms(3) by (rule less_le_trans) simp
  also have "\<dots> \<le> b ^ 22" using assms(1) by (rule power_mono) simp
  finally have "length (digits0 b n) \<le> 22" using digits0_length [of b n 22] assms(1) by simp
  then show ?thesis using assms(2) by (simp add: num_text_def)
qed

lemma abs_word: "unat (if v <s 0 then - v else v) = nat \<bar>sint v\<bar>" for v :: u64
proof -
  have "- (2 ^ 63) \<le> sint v" "sint v < 2 ^ 63" using sint_ge [of v] sint_lt [of v] by auto
  then have "take_bit 64 \<bar>sint v\<bar> = \<bar>sint v\<bar>" by (intro take_bit_int_eq_self) auto
  then have "uint (word_of_int \<bar>sint v\<bar> :: u64) = \<bar>sint v\<bar>" by (simp add: unsigned_of_int)
  moreover have "(if v <s 0 then - v else v) = word_of_int \<bar>sint v\<bar>" by (auto simp: word_sless_alt abs_if)
  ultimately show ?thesis by (simp add: unat_eq_nat_uint)
qed

lemma sint_int_arg: "sint (scast (int_arg a) :: u64) = sint (int_arg a)"
proof -
  have "- (2 ^ 31) \<le> sint (int_arg a)" "sint (int_arg a) < 2 ^ 31" using sint_ge [of "int_arg a"] sint_lt [of "int_arg a"] by auto
  then have "signed_take_bit 63 (sint (int_arg a)) = sint (int_arg a)" by (intro signed_take_bit_int_eq_self) auto
  then show ?thesis by (simp add: signed_scast_eq)
qed

text \<open>What a conversion with an argument leaves for the output.\<close>

definition ready :: "(u64 \<Rightarrow> u8 list) \<Rightarrow> conv \<Rightarrow> u64 \<Rightarrow> str_ptr \<Rightarrow> printf_spec \<Rightarrow> bool" where
  "ready strs cv a str p \<longleftrightarrow> filler p = conv_filler cv \<and> minus_flag p = (45 \<in> set (cv_flags cv)) \<and> fill_count p = of_nat (cv_width cv) \<and>
     (if cv_letter cv = 115 then str = In_mem a \<and> decimal p = (case cv_prec cv of None \<Rightarrow> - 1 | Some n \<Rightarrow> of_nat n)
      else \<exists>bs. str = Local bs \<and> takeWhile (\<lambda>b. b \<noteq> 0) bs = conv_body strs cv a)"

lemma takeWhile_all [simp]: "0 \<notin> set bs \<Longrightarrow> takeWhile (\<lambda>b. b \<noteq> 0) bs = bs" for bs :: "u8 list"
  by (auto simp: takeWhile_eq_all_conv)

lemma valid_prec: "valid_conv cv \<Longrightarrow> digits_min cv < 63"
  by (auto simp: valid_conv_def digits_min_def split: option.split)

lemma prec_not_default: "n < 63 \<Longrightarrow> (of_nat n :: u32) \<noteq> - 1"
proof
  assume "n < 63" "(of_nat n :: u32) = - 1"
  then have "sint (of_nat n :: u32) = - 1" by simp
  with \<open>n < 63\<close> show False by (simp add: signed_of_nat signed_take_bit_int_eq_self)
qed

lemma default_decimal_spec:
  assumes "valid_conv cv"
  shows "decimal (default_decimal (spec_of cv)) = of_nat (digits_min cv)"
    "filler (default_decimal (spec_of cv)) = (if cv_prec cv = None then filler (spec_of cv) else 32)"
    "filler (default_decimal (default_decimal (spec_of cv))) = 32" "decimal (default_decimal (default_decimal (spec_of cv))) = of_nat (digits_min cv)"
  using assms prec_not_default
  by (auto simp: valid_conv_def default_decimal_def spec_of_def digits_min_def split: option.splits)

lemma default_decimal_same [simp]: "minus_flag (default_decimal p) = minus_flag p" "fill_count (default_decimal p) = fill_count p"
    "plus_flag (default_decimal p) = plus_flag p" "space_flag (default_decimal p) = space_flag p" "pound_flag (default_decimal p) = pound_flag p"
    "l_type (default_decimal p) = l_type p" "ll_type (default_decimal p) = ll_type p" "h_type (default_decimal p) = h_type p"
  by (simp_all add: default_decimal_def)

lemma ready_number:
  assumes "cv_letter cv \<noteq> 115" "filler p = conv_filler cv" "minus_flag p = minus_flag (spec_of cv)" "fill_count p = fill_count (spec_of cv)"
    "conv_body strs cv a = num_text b prec caps n" "2 \<le> b" "b \<le> 16"
  shows "ready strs cv a (Local (num_text b prec caps n)) p"
  using assms num_text_no_0 [OF assms(6,7)] by (simp add: ready_def spec_of_def)

lemma convert_signed_text:
  assumes "valid_conv cv" "cv_letter cv = 100 \<or> cv_letter cv = 105"
  shows "\<exists>str p. convert_signed (spec_of cv) (a # ap) = Some (str, conv_prefix cv a, p, ap) \<and> ready strs cv a str p"
proof -
  let ?v = "if long_arg cv then a else scast (int_arg a)"
  let ?abs = "if ?v <s 0 then - ?v else ?v"
  have "unat ?abs = nat \<bar>signed_val cv a\<bar>" unfolding abs_word by (simp add: signed_val_def sint_int_arg)
  then have str: "uint64_to_str ?abs 10 (of_nat (digits_min cv)) False = Some (num_text 10 (digits_min cv) False (nat \<bar>signed_val cv a\<bar>))"
    "ulong_to_str ?abs 10 (of_nat (digits_min cv)) False = Some (num_text 10 (digits_min cv) False (nat \<bar>signed_val cv a\<bar>))"
    using uint64_to_str_text [of 10 "digits_min cv" ?abs False] ulong_to_str_text [of 10 "digits_min cv" ?abs False] valid_prec [OF assms(1)] by simp_all
  have neg: "?v <s 0 \<longleftrightarrow> signed_val cv a < 0" by (simp add: word_sless_alt signed_val_def sint_int_arg)
  have long: "ll_type (spec_of cv) \<or> l_type (spec_of cv) \<longleftrightarrow> long_arg cv" by (auto simp: spec_of_def long_arg_def)
  have "convert_signed (spec_of cv) (a # ap) =
    Some (Local (num_text 10 (digits_min cv) False (nat \<bar>signed_val cv a\<bar>)), conv_prefix cv a, default_decimal (spec_of cv), ap)"
  proof -
    have conv: "(if ll_type (spec_of cv) then uint64_to_str ?abs 10 (of_nat (digits_min cv)) False
        else ulong_to_str ?abs 10 (of_nat (digits_min cv)) False) = Some (num_text 10 (digits_min cv) False (nat \<bar>signed_val cv a\<bar>))"
      by (simp only: str if_cancel)
    have "(if signed_val cv a < 0 then [45] else if plus_flag (spec_of cv) then [43] else if space_flag (spec_of cv) then [32] else []) = conv_prefix cv a"
      using assms(2) by (auto simp: conv_prefix_def spec_of_def)
    then show ?thesis
      unfolding convert_signed_def va_arg_def Let_def list.case default_decimal_same default_decimal_spec(1) [OF assms(1)] long
        prod.case neg Option.bind.bind_lunit by (simp only: conv [unfolded neg] Option.bind.bind_lunit)
  qed
  moreover have "ready strs cv a (Local (num_text 10 (digits_min cv) False (nat \<bar>signed_val cv a\<bar>))) (default_decimal (spec_of cv))"
  proof (rule ready_number)
    show "filler (default_decimal (spec_of cv)) = conv_filler cv"
      using assms(2) by (auto simp: default_decimal_spec(2) [OF assms(1)] conv_filler_def) (auto simp: spec_of_def)
  qed (use assms(2) in \<open>auto simp: conv_body_def\<close>)
  ultimately show ?thesis by blast
qed

lemma unsigned_str:
  assumes "valid_conv cv" "base = 8 \<or> base = 10 \<or> base = 16"
  shows "(if l_type (spec_of cv) then ulong_to_str a base (of_nat (digits_min cv)) caps
     else if h_type (spec_of cv) then ulong_to_str (ucast (int_arg a)) base (of_nat (digits_min cv)) caps
     else if ll_type (spec_of cv) then uint64_to_str a base (of_nat (digits_min cv)) caps
     else ulong_to_str (ucast (int_arg a)) base (of_nat (digits_min cv)) caps) =
    Some (num_text (unat base) (digits_min cv) caps (unsigned_val cv a))"
proof -
  have "unat (ucast (int_arg a) :: u64) = unat (int_arg a)" by (rule unat_ucast_up) simp
  then show ?thesis using assms
    by (simp add: ulong_to_str_text uint64_to_str_text valid_prec unsigned_val_def long_arg_def) (simp add: spec_of_def)
qed

lemma spec_of_ll: "ll_type (spec_of cv) \<longleftrightarrow> cv_size cv = [108, 108]" "pound_flag (spec_of cv) \<longleftrightarrow> 35 \<in> set (cv_flags cv)"
  by (simp_all add: spec_of_def)

lemma convert_unsigned_text:
  assumes valid: "valid_conv cv" and letter: "cv_letter cv \<in> {111, 112, 117, 120, 88}"
  shows "\<exists>str p. convert_unsigned (cv_letter cv) (spec_of cv) (a # ap) = Some (str, conv_prefix cv a, p, ap) \<and> ready strs cv a str p"
proof -
  let ?s = "spec_of cv" let ?d = "default_decimal (spec_of cv)"
  note spec = default_decimal_spec [OF valid] default_decimal_same
  have filler: "cv_letter cv \<noteq> 117 \<Longrightarrow> filler ?d = conv_filler cv" "cv_letter cv = 117 \<Longrightarrow> cv_size cv = [108, 108] \<Longrightarrow> filler ?d = conv_filler cv"
    "cv_letter cv = 117 \<Longrightarrow> cv_size cv \<noteq> [108, 108] \<Longrightarrow> conv_filler cv = 32"
    using letter by (auto simp: spec conv_filler_def) (auto simp: spec_of_def)
  consider (ull) "cv_letter cv = 117" "cv_size cv = [108, 108]" | (u) "cv_letter cv = 117" "cv_size cv \<noteq> [108, 108]"
    | (p) "cv_letter cv = 112" | (x) "cv_letter cv = 120" | (X) "cv_letter cv = 88" | (oct) "cv_letter cv = 111" using letter by auto
  then show ?thesis
  proof cases
    case ull
    have "convert_unsigned 117 ?s (a # ap) = Some (Local (num_text 10 (digits_min cv) False (unat a)), [], ?d, ap)"
      using ull uint64_to_str_text [of 10 "digits_min cv" a False] valid_prec [OF valid]
      by (simp add: convert_unsigned_def va_arg_def Let_def spec spec_of_ll split del: if_split cong del: if_weak_cong)
    moreover have "ready strs cv a (Local (num_text 10 (digits_min cv) False (unat a))) ?d"
      using ull filler by (intro ready_number) (simp_all add: conv_body_def unsigned_val_def long_arg_def spec)
    ultimately show ?thesis using ull by (simp add: conv_prefix_def)
  next
    case u
    have "convert_unsigned 117 ?s (a # ap) = Some (Local (num_text 10 (digits_min cv) False (unsigned_val cv a)), [], default_decimal ?d, ap)"
      using u unsigned_str [OF valid, of 10 a False] by (simp add: convert_unsigned_def va_arg_def Let_def spec spec_of_ll split del: if_split cong del: if_weak_cong)
    moreover have "ready strs cv a (Local (num_text 10 (digits_min cv) False (unsigned_val cv a))) (default_decimal ?d)"
      using u filler by (intro ready_number) (simp_all add: conv_body_def spec)
    ultimately show ?thesis using u by (simp add: conv_prefix_def)
  next
    case p
    have "convert_unsigned 112 ?s (a # ap) = Some (Local (num_text 16 16 False (unat a)), [48, 120], ?d\<lparr>decimal := 16\<rparr>, ap)"
      using uint64_to_str_text [of 16 16 a False] by (simp add: convert_unsigned_def va_arg_def Let_def)
    moreover have "ready strs cv a (Local (num_text 16 16 False (unat a))) (?d\<lparr>decimal := 16\<rparr>)"
      using p filler by (intro ready_number) (simp_all add: conv_body_def spec)
    ultimately show ?thesis using p by (simp add: conv_prefix_def)
  next
    case x
    have "convert_unsigned 120 ?s (a # ap) = Some (Local (num_text 16 (digits_min cv) False (unsigned_val cv a)), conv_prefix cv a, ?d, ap)"
      using x unsigned_str [OF valid, of 16 a False] by (simp add: convert_unsigned_def va_arg_def Let_def spec spec_of_ll conv_prefix_def split del: if_split cong del: if_weak_cong)
    moreover have "ready strs cv a (Local (num_text 16 (digits_min cv) False (unsigned_val cv a))) ?d"
      using x filler by (intro ready_number) (simp_all add: conv_body_def spec)
    ultimately show ?thesis using x by simp
  next
    case X
    have "convert_unsigned 88 ?s (a # ap) = Some (Local (num_text 16 (digits_min cv) True (unsigned_val cv a)), conv_prefix cv a, ?d, ap)"
      using X unsigned_str [OF valid, of 16 a True] by (simp add: convert_unsigned_def va_arg_def Let_def spec spec_of_ll conv_prefix_def split del: if_split cong del: if_weak_cong)
    moreover have "ready strs cv a (Local (num_text 16 (digits_min cv) True (unsigned_val cv a))) ?d"
      using X filler by (intro ready_number) (simp_all add: conv_body_def spec)
    ultimately show ?thesis using X by simp
  next
    case oct
    have "convert_unsigned 111 ?s (a # ap) = Some (Local (num_text 8 (digits_min cv) False (unsigned_val cv a)), conv_prefix cv a, ?d, ap)"
      using oct unsigned_str [OF valid, of 8 a False] by (simp add: convert_unsigned_def va_arg_def Let_def spec spec_of_ll conv_prefix_def split del: if_split cong del: if_weak_cong)
    moreover have "ready strs cv a (Local (num_text 8 (digits_min cv) False (unsigned_val cv a))) ?d"
      using oct filler by (intro ready_number) (simp_all add: conv_body_def spec)
    ultimately show ?thesis using oct by simp
  qed
qed

text \<open>The whole dispatch. A percent sign takes no argument.\<close>

definition args_behind :: "conv \<Rightarrow> va_list \<Rightarrow> va_list" where
  "args_behind cv ap = (if cv_letter cv = 37 then ap else tl ap)"

lemma convert_text:
  assumes valid: "valid_conv cv" and args: "cv_letter cv \<noteq> 37 \<Longrightarrow> ap \<noteq> []"
  shows "\<exists>str p. convert m (cv_letter cv) (spec_of cv) ap written = Some (str, 0, conv_prefix cv (hd ap), p, m, args_behind cv ap) \<and> ready strs cv (hd ap) str p"
proof -
  have numeric: "cv_letter cv \<notin> {100, 105, 111, 112, 117, 120, 88} \<Longrightarrow> filler (spec_of cv) = conv_filler cv"
    by (auto simp: spec_of_def conv_filler_def)
  have "cv_letter cv \<in> set conv_letters" using valid by (simp add: valid_conv_def)
  then consider (pct) "cv_letter cv = 37" | (d) "cv_letter cv = 100 \<or> cv_letter cv = 105" | (u) "cv_letter cv \<in> {111, 112, 117, 120, 88}"
    | (c) "cv_letter cv = 99" | (str) "cv_letter cv = 115" by (auto simp: conv_letters_def)
  then show ?thesis
  proof cases
    case pct
    with numeric have "ready strs cv (hd ap) (Local [37]) (spec_of cv)" by (simp add: ready_def conv_body_def) (simp add: spec_of_def)
    with pct show ?thesis by (simp add: convert_def conv_prefix_def args_behind_def)
  next
    case d
    with args obtain a ap' where ap: "ap = a # ap'" by (cases ap) auto
    with d convert_signed_text [OF valid d, of a ap' strs] show ?thesis by (auto simp: convert_def args_behind_def)
  next
    case u
    with args obtain a ap' where ap: "ap = a # ap'" by (cases ap) auto
    with u convert_unsigned_text [OF valid u, of a ap' strs] show ?thesis by (auto simp: convert_def args_behind_def)
  next
    case c
    with args obtain a ap' where ap: "ap = a # ap'" by (cases ap) auto
    from c numeric have "ready strs cv a (Local [ucast (int_arg a)]) (spec_of cv)" by (simp add: ready_def conv_body_def) (simp add: spec_of_def)
    with c ap show ?thesis by (auto simp: convert_def conv_prefix_def va_arg_def args_behind_def)
  next
    case str
    with args obtain a ap' where ap: "ap = a # ap'" by (cases ap) auto
    from str numeric have "ready strs cv a (In_mem a) (spec_of cv)" by (simp add: ready_def) (simp add: spec_of_def)
    moreover have "\<not> l_type (spec_of cv)" using valid str by (simp add: valid_conv_def spec_of_def)
    ultimately show ?thesis using str ap by (auto simp: convert_def conv_prefix_def va_arg_def args_behind_def)
  qed
qed

subsection \<open>A field\<close>

text \<open>A string argument: it is not null, not longer than an \<^verbatim>\<open>int\<close> can count, and away from the buffer.\<close>

definition string_ok :: "u64 \<Rightarrow> u64 \<Rightarrow> memory \<Rightarrow> (u64 \<Rightarrow> u8 list) \<Rightarrow> u64 \<Rightarrow> bool" where
  "string_ok start mx m strs a \<longleftrightarrow> a \<noteq> 0 \<and> string_at m a (strs a) \<and> clear_of a (strs a) start (unat mx) \<and> length (strs a) < 2 ^ 30"

definition arg_ok :: "u64 \<Rightarrow> u64 \<Rightarrow> memory \<Rightarrow> (u64 \<Rightarrow> u8 list) \<Rightarrow> conv \<Rightarrow> u64 \<Rightarrow> bool" where
  "arg_ok start mx m strs cv a \<longleftrightarrow> (cv_letter cv = 115 \<longrightarrow> string_ok start mx m strs a)"

lemma body_length:
  assumes "valid_conv cv" "arg_ok start mx m strs cv a"
  shows "length (conv_body strs cv a) + length (conv_prefix cv a) < 2 ^ 31"
proof -
  have "- (2 ^ 63) \<le> signed_val cv a" "signed_val cv a < 2 ^ 63"
    using sint_ge [of a] sint_lt [of a] sint_ge [of "int_arg a"] sint_lt [of "int_arg a"] by (auto simp: signed_val_def)
  then have num: "nat \<bar>signed_val cv a\<bar> < 2 ^ 64" by (auto simp: nat_less_iff)
  have "unat (int_arg a) < 2 ^ LENGTH(32)" by (rule unsigned_less)
  then have "unsigned_val cv a < 2 ^ 64" using unat_64 [of a] by (auto simp: unsigned_val_def)
  with num num_text_length [of 10 "digits_min cv" "nat \<bar>signed_val cv a\<bar>" False] num_text_length [of 10 "digits_min cv" "unsigned_val cv a" False]
    num_text_length [of 16 "digits_min cv" "unsigned_val cv a"] num_text_length [of 8 "digits_min cv" "unsigned_val cv a" False]
    num_text_length [of 16 16 "unat a" False] unat_64 [of a] valid_prec [OF assms(1)]
  have "length (conv_body strs cv a) < 63 \<or> cv_letter cv = 115 \<and> conv_body strs cv a = strs a"
    using assms(1) by (auto simp: conv_body_def valid_conv_def conv_letters_def split: if_split)
  moreover have "length (conv_prefix cv a) \<le> 2" by (simp add: conv_prefix_def)
  ultimately show ?thesis using assms(2) by (auto simp: arg_ok_def string_ok_def)
qed

lemma rest_fill_text:
  assumes "fill_count p = of_nat w" "w < 2 ^ 31" "str_length m str = Some (of_nat len)" "len + length pre < 2 ^ 31"
  shows "\<exists>fill. rest_fill m p pre str 0 = Some fill \<and>
    (\<forall>ch :: u8. (if 0 <s fill then replicate (unat fill) ch else []) = replicate (w - (len + length pre)) ch)"
proof (cases "w = 0")
  case True
  with assms(1) show ?thesis by (simp add: rest_fill_def)
next
  case False
  have "0 <s fill_count p" using sless_of_nat [of 0 w] assms(1,2) False by simp
  moreover have sum: "of_nat len + of_nat (length pre) = (of_nat (len + length pre) :: u64)" by simp
  have "unat (of_nat (len + length pre) :: u64) = len + length pre" using assms(4) by (simp add: unsigned_of_nat take_bit_nat_eq_self del: of_nat_add)
  then have le: "(of_nat len + of_nat (length pre) :: u64) \<le> 0xffffffff" and cast: "ucast (of_nat len + of_nat (length pre) :: u64) = (of_nat (len + length pre) :: u32)"
    unfolding sum using assms(4) by (simp_all add: word_le_nat_alt word_unat_eq_iff unsigned_ucast_eq unsigned_of_nat take_bit_nat_eq_self del: of_nat_add)
  ultimately have fill: "rest_fill m p pre str 0 = Some (of_nat w - of_nat (len + length pre))"
    using assms(1,3) by (simp add: rest_fill_def Let_def del: of_nat_add)
  let ?f = "of_nat w - of_nat (len + length pre) :: u32"
  have "?f = word_of_int (int w - int (len + length pre))" by simp
  then have "sint ?f = signed_take_bit 31 (int w - int (len + length pre))" by (simp only: signed_of_int) simp
  also have "\<dots> = int w - int (len + length pre)" using assms(2,4) by (intro signed_take_bit_int_eq_self) auto
  finally have pos: "0 <s ?f \<longleftrightarrow> len + length pre < w" by (simp add: word_sless_alt del: of_nat_add)
  have "unat ?f = w - (len + length pre)" if "len + length pre < w"
  proof -
    have "?f = of_nat (w - (len + length pre))" using that by (simp add: of_nat_diff)
    then show ?thesis using assms(2) by (simp only:) (simp add: unsigned_of_nat take_bit_nat_eq_self)
  qed
  with fill pos show ?thesis by (auto simp del: of_nat_add)
qed

lemma str_is_takeWhile: "str_is m (Local bs) (takeWhile (\<lambda>b. b \<noteq> 0) bs)"
  by (induction bs) auto

lemma printed_Inl_append: "printed start mx m0 outp (Inl m) \<Longrightarrow> printed start mx m0 (outp @ rest) (Inl m)"
  by (simp add: printed_def)

lemma emit_lead_text:
  assumes "length outp \<le> unat mx"
  shows "printed start mx m0 (outp @ (if filler p = 48 then pre else []) @
      (if 0 <s fill \<and> \<not> minus_flag p then replicate (unat fill) (filler p) else []) @ (if filler p \<noteq> 48 then pre else []))
    (emit_lead start mx pre fill p (stored start outp m0) (place start outp))"
  unfolding emit_lead_def
  using printed_then [OF emit_chars_text [OF assms]] printed_then [OF emit_chars_text] emit_chars_text
  by (metis (no_types, lifting) append_assoc)

lemma emit_arg_text:
  assumes valid: "valid_conv cv" and ready: "ready strs cv a str p" and arg: "arg_ok start mx m0 strs cv a"
    and c: "unat mx \<le> unat (c - start)" "m0 c = cv_letter cv" and room: "length outp \<le> unat mx"
  shows "\<exists>st. emit_arg start mx c str 0 p (stored start outp m0) (place start outp) = Some st \<and> printed start mx m0 (outp @ conv_shown strs cv a) st"
proof (cases "cv_letter cv = 115")
  case True
  with arg have ok: "a \<noteq> 0" "stable start mx m0 (In_mem a) (strs a)" "length (strs a) < 2 ^ 30"
    by (simp_all add: arg_ok_def string_ok_def stable_In_mem)
  have str: "str = In_mem a" "decimal p = (case cv_prec cv of None \<Rightarrow> - 1 | Some n \<Rightarrow> of_nat n)" using ready True by (simp_all add: ready_def)
  have "unat (- 1 :: u32) = 2 ^ 32 - 1" by (simp add: unsigned_minus_1_eq_mask mask_eq_exp_minus_1)
  then have "take (unat (decimal p)) (strs a) = conv_shown strs cv a"
    using True valid ok(3) str(2) by (auto simp: conv_shown_def conv_body_def valid_conv_def unsigned_of_nat take_bit_nat_eq_self split: option.split)
  with emit_str_text [OF c(1) ok(2) room, of "decimal p"] c(2) True ok(1) str(1) show ?thesis by (simp add: emit_arg_def)
next
  case False
  with ready obtain bs where bs: "str = Local bs" "takeWhile (\<lambda>b. b \<noteq> 0) bs = conv_body strs cv a" by (auto simp: ready_def)
  then have "stable start mx m0 str (conv_body strs cv a)" using str_is_takeWhile [of _ bs] by (simp add: stable_def)
  moreover have "conv_shown strs cv a = conv_body strs cv a" using False by (simp add: conv_shown_def split: option.split)
  ultimately show ?thesis using emit_str_text [OF c(1) _ room, of m0 str "conv_body strs cv a" "decimal p"] c(2) False bs(1)
    by (simp add: emit_arg_def)
qed

lemma emit_field_text:
  assumes valid: "valid_conv cv" and ready: "ready strs cv a str p" and arg: "arg_ok start mx m0 strs cv a"
    and c: "unat mx \<le> unat (c - start)" "m0 c = cv_letter cv" and room: "length outp \<le> unat mx"
    and fill: "\<And>ch :: u8. (if 0 <s fill then replicate (unat fill) ch else []) =
      replicate (cv_width cv - (length (conv_body strs cv a) + length (conv_prefix cv a))) ch"
  shows "\<exists>st. emit_field start mx c (conv_prefix cv a) fill str 0 p (stored start outp m0) (place start outp) = Some st \<and>
    printed start mx m0 (outp @ conv_text strs cv a) st"
proof -
  let ?pad = "replicate (cv_width cv - (length (conv_body strs cv a) + length (conv_prefix cv a))) (conv_filler cv)"
  let ?minus = "45 \<in> set (cv_flags cv)"
  define lead where "lead = (if conv_filler cv = 48 then conv_prefix cv a else []) @ (if \<not> ?minus then ?pad else []) @
    (if conv_filler cv \<noteq> 48 then conv_prefix cv a else [])"
  have p: "filler p = conv_filler cv" "minus_flag p = ?minus" using ready by (simp_all add: ready_def)
  have pad: "(if 0 <s fill \<and> b then replicate (unat fill) (conv_filler cv) else []) = (if b then ?pad else [])" for b
    using fill [of "conv_filler cv"] by simp
  have lead: "printed start mx m0 (outp @ lead) (emit_lead start mx (conv_prefix cv a) fill p (stored start outp m0) (place start outp))"
    using emit_lead_text [OF room, of start m0 p "conv_prefix cv a" fill] unfolding p pad lead_def .
  have "?minus \<Longrightarrow> conv_filler cv \<noteq> 48" by (simp add: conv_filler_def)
  then have conv: "conv_text strs cv a = lead @ conv_shown strs cv a @ (if ?minus then ?pad else [])"
    by (auto simp: conv_text_def Let_def lead_def)
  show ?thesis
  proof (cases "emit_lead start mx (conv_prefix cv a) fill p (stored start outp m0) (place start outp)")
    case (Inl m)
    with lead printed_Inl_append show ?thesis by (fastforce simp: emit_field_def conv)
  next
    case (Inr ms)
    with lead have ms: "ms = (stored start (outp @ lead) m0, place start (outp @ lead))" "length (outp @ lead) \<le> unat mx"
      by (auto simp: printed_def)
    obtain st where st: "emit_arg start mx c str 0 p (stored start (outp @ lead) m0) (place start (outp @ lead)) = Some st"
      "printed start mx m0 ((outp @ lead) @ conv_shown strs cv a) st"
      using emit_arg_text [OF valid ready arg c ms(2)] by blast
    have "printed start mx m0 (((outp @ lead) @ conv_shown strs cv a) @ (if ?minus then ?pad else []))
      (unless_full st (emit_chars start mx (if ?minus then ?pad else [])))"
      by (rule printed_then [OF st(2)]) (rule emit_chars_text)
    with st(1) Inr ms(1) show ?thesis by (simp add: emit_field_def p pad conv split del: if_split cong del: if_weak_cong)
  qed
qed

end
