(* ===== verification/CPrintfFormats.thy ===== *)
theory CPrintfFormats
  imports CPrintfRender
begin

text \<open>
  The loop of \<^verbatim>\<open>snprintf\<close> prints the concatenation of the literal texts and the conversions of a format, cut at the size of the
  buffer; what it prints for a number is what \<^verbatim>\<open>strtoul\<close> reads back; and whatever the format, only the buffer changes. At the
  end, runs on concrete formats, some of which are not what the C standard asks for.
\<close>

subsection \<open>Formats\<close>

text \<open>A format is a list of conversions, each with the literal text before it, and the text behind them.\<close>

type_synonym fmt = "(u8 list \<times> conv) list"

fun fmt_bytes :: "fmt \<Rightarrow> u8 list \<Rightarrow> u8 list" where
  "fmt_bytes [] lit = lit"
| "fmt_bytes ((l, cv) # cs) lit = l @ 37 # spec_bytes cv @ cv_letter cv # fmt_bytes cs lit"

fun valid_fmt :: "fmt \<Rightarrow> u8 list \<Rightarrow> bool" where
  "valid_fmt [] lit \<longleftrightarrow> 37 \<notin> set lit"
| "valid_fmt ((l, cv) # cs) lit \<longleftrightarrow> 37 \<notin> set l \<and> valid_conv cv \<and> valid_fmt cs lit"

text \<open>There is an argument for every conversion but \<^verbatim>\<open>%%\<close>.\<close>

fun args_ok :: "u64 \<Rightarrow> u64 \<Rightarrow> memory \<Rightarrow> (u64 \<Rightarrow> u8 list) \<Rightarrow> fmt \<Rightarrow> va_list \<Rightarrow> bool" where
  "args_ok start mx m strs [] ap \<longleftrightarrow> True"
| "args_ok start mx m strs ((l, cv) # cs) ap \<longleftrightarrow>
     (cv_letter cv \<noteq> 37 \<longrightarrow> ap \<noteq> []) \<and> arg_ok start mx m strs cv (hd ap) \<and> args_ok start mx m strs cs (args_behind cv ap)"

fun fmt_text :: "(u64 \<Rightarrow> u8 list) \<Rightarrow> fmt \<Rightarrow> u8 list \<Rightarrow> va_list \<Rightarrow> u8 list" where
  "fmt_text strs [] lit ap = lit"
| "fmt_text strs ((l, cv) # cs) lit ap = l @ conv_text strs cv (hd ap) @ fmt_text strs cs lit (args_behind cv ap)"

subsection \<open>The loop\<close>

text \<open>What is left of a text: the whole text with a terminator if it fits, else as much as fits. A text that exactly fills the buffer
has no terminator, and its length or -1 is returned.\<close>

definition rendered :: "u64 \<Rightarrow> u64 \<Rightarrow> memory \<Rightarrow> u8 list \<Rightarrow> (u32 \<times> memory) option \<Rightarrow> bool" where
  "rendered start mx m0 outp res \<longleftrightarrow>
     (if length outp < unat mx then res = Some (of_nat (length outp), stored start (outp @ [0]) m0)
      else \<exists>r. res = Some (r, stored start (take (unat mx) outp) m0) \<and> (r = - 1 \<or> length outp = unat mx \<and> r = of_nat (length outp)))"

lemma printed_rendered:
  assumes "printed start mx m0 outp st" "\<And>m s. st = Inr (m, s) \<Longrightarrow> m = stored start outp m0 \<Longrightarrow> s = place start outp \<Longrightarrow>
    length outp \<le> unat mx \<Longrightarrow> rendered start mx m0 (outp @ rest) (f m s)"
  shows "rendered start mx m0 (outp @ rest) (case st of Inl m \<Rightarrow> Some (- 1, m) | Inr (m, s) \<Rightarrow> f m s)"
  using assms by (cases st) (auto simp: printed_def rendered_def)

lemma finish_rendered:
  assumes "length outp \<le> unat mx" "0 < unat mx" "unat mx < 2 ^ 31"
  shows "rendered start mx m0 outp (finish_output start mx (stored start outp m0) (place start outp))"
proof -
  have len: "length outp < 2 ^ 31" using assms(1,3) by simp
  then have "fits_int (of_nat (length outp))"
    by (simp add: fits_int_def word_sle_eq signed_of_nat signed_take_bit_int_eq_self)
  moreover have "unat (of_nat (length outp) :: u64) = length outp" using len by (simp add: unsigned_of_nat take_bit_nat_eq_self)
  then have "of_nat (length outp) < mx \<longleftrightarrow> length outp < unat mx" "ucast (of_nat (length outp) :: u64) = (of_nat (length outp) :: u32)"
    using len by (simp_all add: word_less_nat_alt word_unat_eq_iff unsigned_ucast_eq unsigned_of_nat)
  moreover have "mx \<noteq> 0" using assms(2) by auto
  ultimately show ?thesis using assms(1) store_char(1) [of outp mx start m0 0]
    by (auto simp: rendered_def finish_output_def place_def)
qed

text \<open>The format lies in one piece away from the buffer.\<close>

definition fmt_apart :: "u64 \<Rightarrow> u64 \<Rightarrow> memory \<Rightarrow> u64 \<Rightarrow> u8 list \<Rightarrow> bool" where
  "fmt_apart start mx m c bs \<longleftrightarrow> string_at m c bs \<and> clear_of c bs start (unat mx) \<and> unat c + length bs < 2 ^ 64"

lemma clear_of_drop: "clear_of c (bs @ cs) dst n \<Longrightarrow> clear_of (c + of_nat (length bs)) cs dst n"
  unfolding clear_of_def
proof (intro allI impI)
  fix i assume *: "\<forall>i \<le> length (bs @ cs). n \<le> unat (c + of_nat i - dst)" "i \<le> length cs"
  have "n \<le> unat (c + of_nat (length bs + i) - dst)" by (rule *(1) [rule_format]) (use *(2) in simp)
  then show "n \<le> unat (c + of_nat (length bs) + of_nat i - dst)" by (simp add: add.assoc)
qed

lemma apart_append:
  assumes "fmt_apart start mx m c (bs @ cs)"
  shows "fmt_apart start mx m (c + of_nat (length bs)) cs" "clear_of c bs start (unat mx)" "unat c + length bs < 2 ^ 64"
proof -
  have "unat (of_nat (length bs) :: u64) = length bs" using assms by (simp add: fmt_apart_def unsigned_of_nat take_bit_nat_eq_self)
  then have "unat (c + of_nat (length bs)) \<le> unat c + length bs" by (simp add: unat_word_ariths)
  with assms show "fmt_apart start mx m (c + of_nat (length bs)) cs" "clear_of c bs start (unat mx)" "unat c + length bs < 2 ^ 64"
    by (auto simp: fmt_apart_def cstring_append clear_of_drop) (auto simp: clear_of_def)
qed

lemma apart_first: "fmt_apart start mx m c bs \<Longrightarrow> unat mx \<le> unat (c - start)"
proof -
  assume "fmt_apart start mx m c bs"
  then have "unat mx \<le> unat (c + of_nat 0 - start)" unfolding fmt_apart_def clear_of_def by blast
  then show ?thesis by simp
qed

lemma apart_stored: "fmt_apart start mx m0 c bs \<Longrightarrow> length outp \<le> unat mx \<Longrightarrow> string_at (stored start outp m0) c bs"
  unfolding fmt_apart_def by (blast intro: cstring_stored)

text \<open>One conversion.\<close>

lemma one_conversion_text:
  assumes fmt: "fmt_apart start mx m0 c (37 # spec_bytes cv @ cv_letter cv # rest)" and valid: "valid_conv cv"
    and args: "cv_letter cv \<noteq> 37 \<longrightarrow> ap \<noteq> []" "arg_ok start mx m0 strs cv (hd ap)" and room: "length outp \<le> unat mx"
  shows "\<exists>st. one_conversion start mx c ap (stored start outp m0) (place start outp) =
      Some (c + of_nat (length (37 # spec_bytes cv @ [cv_letter cv])), args_behind cv ap, st) \<and>
    printed start mx m0 (outp @ conv_text strs cv (hd ap)) st"
proof -
  let ?m = "stored start outp m0" and ?c = "c + 1 + of_nat (length (spec_bytes cv))"
  have "fmt_apart start mx m0 (c + 1) (spec_bytes cv @ cv_letter cv # rest)" using apart_append(1) [of start mx m0 c "[37]"] fmt by simp
  from apart_append(1) [OF this] have letter: "fmt_apart start mx m0 ?c (cv_letter cv # rest)" .
  have spec: "get_spec ?m (c + 1) ap = Some (?c, ap, spec_of cv)"
    using apart_stored [OF \<open>fmt_apart start mx m0 (c + 1) _\<close> room] by (rule get_spec_correct [OF valid])
  have mc: "m0 ?c = cv_letter cv" "?m ?c = cv_letter cv" using letter apart_stored [OF letter room] by (simp_all add: fmt_apart_def)
  obtain str p where conv: "convert ?m (cv_letter cv) (spec_of cv) ap (place start outp - start) = Some (str, 0, conv_prefix cv (hd ap), p, ?m, args_behind cv ap)"
    "ready strs cv (hd ap) str p" using convert_text [OF valid, of ap] args(1) by blast
  have len: "str_length ?m str = Some (of_nat (length (conv_body strs cv (hd ap))))"
  proof (cases "cv_letter cv = 115")
    case True
    with args(2) have ok: "string_ok start mx m0 strs (hd ap)" by (simp add: arg_ok_def)
    then have "d_r_strlen ?m (hd ap) = Some (of_nat (length (strs (hd ap))))"
      using cstring_stored [of m0 "hd ap" "strs (hd ap)" start mx outp] room by (intro strlen_correct) (simp add: string_ok_def)
    with ok conv(2) True show ?thesis by (simp add: ready_def string_ok_def conv_body_def)
  next
    case False
    with conv(2) show ?thesis by (auto simp: ready_def)
  qed
  have w: "fill_count p = of_nat (cv_width cv)" "cv_width cv < 2 ^ 31" using conv(2) valid by (simp_all add: ready_def valid_conv_def)
  obtain fill where fill: "rest_fill ?m p (conv_prefix cv (hd ap)) str 0 = Some fill"
    "\<And>ch :: u8. (if 0 <s fill then replicate (unat fill) ch else []) =
      replicate (cv_width cv - (length (conv_body strs cv (hd ap)) + length (conv_prefix cv (hd ap)))) ch"
    using rest_fill_text [OF w len body_length [OF valid args(2)]] by blast
  obtain st where "emit_field start mx ?c (conv_prefix cv (hd ap)) fill str 0 p ?m (place start outp) = Some st"
    "printed start mx m0 (outp @ conv_text strs cv (hd ap)) st"
    using emit_field_text [OF valid conv(2) args(2) apart_first [OF letter] mc(1) room fill(2)] by blast
  moreover have "?c + 1 = c + of_nat (length (37 # spec_bytes cv @ [cv_letter cv]))" by simp
  ultimately show ?thesis using spec mc(2) conv(1) fill(1) by (simp add: one_conversion_def)
qed

lemma loop_at_literal:
  assumes fmt: "fmt_apart start mx m0 c (l @ bs)" "37 \<notin> set l" "bs = [] \<or> hd bs = 37" and room: "length outp \<le> unat mx"
    and next_part: "\<And>outp. length outp \<le> unat mx \<Longrightarrow>
      rendered start mx m0 (outp @ rest) (vsnprintf_loop start mx (c + of_nat (length l)) ap (stored start outp m0) (place start outp))"
  shows "rendered start mx m0 (outp @ l @ rest) (vsnprintf_loop start mx c ap (stored start outp m0) (place start outp))"
proof (cases "l = []")
  case True
  with next_part [OF room] show ?thesis by simp
next
  case False
  let ?m = "stored start outp m0"
  have str: "string_at ?m c (l @ bs)" using apart_stored [OF fmt(1) room] .
  obtain st where st: "copy_literal start mx c (c + of_nat (length l)) ?m (place start outp) = Some st" "printed start mx m0 (outp @ l) st"
    using copy_literal_text [of m0 c l bs start mx outp] apart_append(2,3) [OF fmt(1)] fmt(1) room by (auto simp: fmt_apart_def)
  have "m = stored start (outp @ l) m0 \<Longrightarrow> s = place start (outp @ l) \<Longrightarrow> length (outp @ l) \<le> unat mx \<Longrightarrow>
      rendered start mx m0 ((outp @ l) @ rest) (vsnprintf_loop start mx (c + of_nat (length l)) ap m s)" for m s
    using next_part [of "outp @ l"] by simp
  from printed_rendered [OF st(2) this] have "rendered start mx m0 (outp @ l @ rest)
      (case st of Inl m \<Rightarrow> Some (- 1, m) | Inr (m, s) \<Rightarrow> vsnprintf_loop start mx (c + of_nat (length l)) ap m s)" by simp
  moreover have "?m c \<noteq> 0" "?m c \<noteq> 37" using str False fmt(2) by (cases l; auto)+
  ultimately show ?thesis
    using scan_literal_text [OF str fmt(2,3)] st(1) by (subst vsnprintf_loop.simps) simp
qed

lemma loop_text:
  assumes mx: "0 < unat mx" "unat mx < 2 ^ 31"
  shows "valid_fmt cs lit \<Longrightarrow> fmt_apart start mx m0 c (fmt_bytes cs lit) \<Longrightarrow> args_ok start mx m0 strs cs ap \<Longrightarrow> length outp \<le> unat mx \<Longrightarrow>
    rendered start mx m0 (outp @ fmt_text strs cs lit ap) (vsnprintf_loop start mx c ap (stored start outp m0) (place start outp))"
proof (induction cs arbitrary: c ap outp)
  case Nil
  have "rendered start mx m0 (outp @ []) (vsnprintf_loop start mx (c + of_nat (length lit)) ap (stored start outp m0) (place start outp))"
    if "length outp \<le> unat mx" for outp
  proof -
    have "fmt_apart start mx m0 (c + of_nat (length lit)) []" using apart_append(1) [of start mx m0 c lit "[]"] Nil.prems(2) by simp
    from apart_stored [OF this that] have "stored start outp m0 (c + of_nat (length lit)) = 0" by simp
    with finish_rendered [OF that mx] show ?thesis by (subst vsnprintf_loop.simps) simp
  qed
  with loop_at_literal [of start mx m0 c lit "[]" outp "[]" ap] Nil.prems show ?case by simp
next
  case (Cons lcv cs)
  obtain l cv where lcv: "lcv = (l, cv)" by (cases lcv)
  let ?bs = "37 # spec_bytes cv @ cv_letter cv # fmt_bytes cs lit"
  have valid: "37 \<notin> set l" "valid_conv cv" "valid_fmt cs lit" using Cons.prems(1) by (simp_all add: lcv)
  have args: "cv_letter cv \<noteq> 37 \<longrightarrow> ap \<noteq> []" "arg_ok start mx m0 strs cv (hd ap)" "args_ok start mx m0 strs cs (args_behind cv ap)"
    using Cons.prems(3) by (simp_all add: lcv)
  have fmt: "fmt_apart start mx m0 c (l @ ?bs)" using Cons.prems(2) by (simp add: lcv)
  let ?c = "c + of_nat (length l)"
  define c' where "c' = ?c + of_nat (length (37 # spec_bytes cv @ [cv_letter cv]))"
  have at: "fmt_apart start mx m0 ?c ?bs" using apart_append(1) [OF fmt] .
  have after: "fmt_apart start mx m0 c' (fmt_bytes cs lit)"
    using apart_append(1) [of start mx m0 ?c "37 # spec_bytes cv @ [cv_letter cv]" "fmt_bytes cs lit"] at by (simp add: c'_def)
  have "rendered start mx m0 (outp @ conv_text strs cv (hd ap) @ fmt_text strs cs lit (args_behind cv ap))
      (vsnprintf_loop start mx ?c ap (stored start outp m0) (place start outp))" if room: "length outp \<le> unat mx" for outp
  proof -
    let ?m = "stored start outp m0" and ?t = "conv_text strs cv (hd ap)"
    obtain st where st: "one_conversion start mx ?c ap ?m (place start outp) = Some (c', args_behind cv ap, st)"
      "printed start mx m0 (outp @ ?t) st" using one_conversion_text [OF at valid(2) args(1,2) room] unfolding c'_def by blast
    have "m = stored start (outp @ ?t) m0 \<Longrightarrow> s = place start (outp @ ?t) \<Longrightarrow> length (outp @ ?t) \<le> unat mx \<Longrightarrow>
        rendered start mx m0 ((outp @ ?t) @ fmt_text strs cs lit (args_behind cv ap)) (vsnprintf_loop start mx c' (args_behind cv ap) m s)" for m s
      using Cons.IH [OF valid(3) after args(3), of "outp @ ?t"] by simp
    from printed_rendered [OF st(2) this] have "rendered start mx m0 (outp @ ?t @ fmt_text strs cs lit (args_behind cv ap))
        (case st of Inl m \<Rightarrow> Some (- 1, m) | Inr (m, s) \<Rightarrow> vsnprintf_loop start mx c' (args_behind cv ap) m s)" by simp
    moreover have "?m ?c = 37" using apart_stored [OF at room] by simp
    ultimately show ?thesis using st(1) by (subst vsnprintf_loop.simps) simp
  qed
  with loop_at_literal [OF fmt valid(1) _ Cons.prems(4)] show ?case by (simp add: lcv)
qed

lemma snprintf_rendered:
  assumes "valid_fmt cs lit" "fmt_apart s mx m fmt (fmt_bytes cs lit)" "args_ok s mx m strs cs ap" "s \<noteq> 0" "fmt \<noteq> 0" "0 < unat mx" "unat mx < 2 ^ 31"
  shows "rendered s mx m (fmt_text strs cs lit ap) (d_r_snprintf s mx fmt ap m)"
proof -
  have "rendered s mx m (fmt_text strs cs lit ap) (vsnprintf_loop s mx fmt ap m s)"
    using loop_text [OF assms(6,7,1,2,3), of "[]"] by (simp add: place_def)
  moreover have "d_r_snprintf s mx fmt ap m = vsnprintf_loop s mx fmt ap m s"
    using assms(4-6) by (auto simp: d_r_snprintf_def d_r_vsnprintf_def)
  ultimately show ?thesis by simp
qed

text \<open>C22: Every run of \<^verbatim>\<open>snprintf\<close> that the model covers changes no memory but the buffer it is given and the places the
arguments point to, where \<^verbatim>\<open>%n\<close> stores its count. It returns -1 or a number of characters that is not larger than the buffer,
and then, if there is room, the text ends with a terminator. The model covers the runs in which no assertion fails, no
floating-point conversion (\<^verbatim>\<open>%e\<close>, \<^verbatim>\<open>%f\<close>, \<^verbatim>\<open>%g\<close>) is made and no null wide string is printed; the others have no result.
Of the floating-point conversions the claim would be false: with a large precision they overrun the local array of 64 characters
before the code checks the length.\<close>

theorem snprintf_stays_in_buffer:
  assumes "d_r_snprintf s mx fmt ap m = Some (r, m')" "fmt \<noteq> 0" "mx < 2 ^ 63"
  shows "(\<forall>a. m' a \<noteq> m a \<longrightarrow> a - s < mx \<or> (\<exists>p \<in> set ap. a - p < 8)) \<and>
    (r = - 1 \<or> ucast r \<le> mx \<and> (ucast r < mx \<longrightarrow> m' (s + ucast r) = 0))"
proof -
  have "formatted s mx ap m (r, m')"
    using assms vsnprintf_loop_formatted [of s mx fmt ap m s "(r, m')"]
    by (auto simp: d_r_snprintf_def d_r_vsnprintf_def formatted_def split: if_splits)
  then show ?thesis by (simp add: formatted_def counts_at_def)
qed

text \<open>C21: \<^verbatim>\<open>snprintf\<close> prints the text of its format: for literal text and the conversions of integers, pointers, characters and
strings with any flags, a width below \<open>2 ^ 31\<close>, a precision below 63 and the sizes none, \<^verbatim>\<open>h\<close>, \<^verbatim>\<open>l\<close> and \<^verbatim>\<open>ll\<close> (strings: none), it ends, and it stores the text with a terminator and returns its length; a text
that does not fit is cut at the size of the buffer, and -1 is returned (a text that exactly fills the buffer has no terminator).
The sizes \<^verbatim>\<open>z\<close>, \<^verbatim>\<open>L\<close> and \<^verbatim>\<open>I64\<close> and a width or precision given by an argument with a star are left out.\<close>

theorem snprintf_prints_text:
  assumes "valid_fmt cs lit" "fmt_apart s mx m fmt (fmt_bytes cs lit)" "args_ok s mx m strs cs ap" "s \<noteq> 0" "fmt \<noteq> 0" "0 < unat mx" "unat mx < 2 ^ 31"
  shows "let outp = fmt_text strs cs lit ap in
    if length outp < unat mx then d_r_snprintf s mx fmt ap m = Some (of_nat (length outp), stored s (outp @ [0]) m)
    else \<exists>r. d_r_snprintf s mx fmt ap m = Some (r, stored s (take (unat mx) outp) m) \<and> (r = - 1 \<or> length outp = unat mx \<and> r = of_nat (length outp))"
  using snprintf_rendered [OF assms] by (simp add: rendered_def Let_def)

subsection \<open>Printing and parsing\<close>

text \<open>The plain conversion of a number, and its base.\<close>

definition plain_conv :: "u8 list \<Rightarrow> u8 \<Rightarrow> conv" where
  "plain_conv sz letter = \<lparr>cv_flags = [], cv_width = 0, cv_prec = None, cv_size = sz, cv_letter = letter\<rparr>"

lemma plain_conv_sel [simp]: "cv_flags (plain_conv sz letter) = []" "cv_width (plain_conv sz letter) = 0"
    "cv_prec (plain_conv sz letter) = None" "cv_size (plain_conv sz letter) = sz" "cv_letter (plain_conv sz letter) = letter"
  by (simp_all add: plain_conv_def)

definition letter_base :: "u8 \<Rightarrow> u32" where
  "letter_base letter = (if letter = 120 then 16 else if letter = 111 then 8 else 10)"

text \<open>The argument as a 64-bit number: sign-extended for \<^verbatim>\<open>%d\<close>, else zero-extended.\<close>

definition arg_value :: "u8 list \<Rightarrow> u8 \<Rightarrow> u64 \<Rightarrow> u64" where
  "arg_value sz letter a =
     (if sz = [108] \<or> sz = [108, 108] then a
      else if letter = 100 then scast (int_arg a) else ucast (int_arg a))"

lemma num_text_plain: "num_text b 1 False n = map digit_char (digits_of b n)"
proof (cases "n = 0")
  case True
  moreover have "digits_of b 0 = [0]" by (cases "b < 2") (simp_all add: digits_of.simps [of b 0])
  ultimately show ?thesis by (simp add: num_text_def digit_char_def)
next
  case False
  moreover from this have "0 < length (digits_of b n)" by simp
  then have "1 - length (digits_of b n) = 0" by linarith
  moreover have "digit_text False = digit_char" by (simp add: fun_eq_iff digit_text_def)
  ultimately show ?thesis by (simp add: num_text_def digits0_def)
qed

lemma plain_text:
  assumes "letter \<in> {100, 117, 120, 111}"
  shows "\<exists>neg n. conv_text strs (plain_conv sz letter) a = number_text neg (letter_base letter) (letter_base letter) n \<and>
    n < 2 ^ 64 \<and> (if neg then - of_nat n else of_nat n) = arg_value sz letter a \<and> (neg \<longrightarrow> letter = 100)"
proof -
  let ?cv = "plain_conv sz letter"
  have val: "- (2 ^ 63) \<le> signed_val ?cv a" "signed_val ?cv a < 2 ^ 63"
    using sint_ge [of a] sint_lt [of a] sint_ge [of "int_arg a"] sint_lt [of "int_arg a"] by (auto simp: signed_val_def)
  have "unat (int_arg a) < 2 ^ LENGTH(32)" by (rule unsigned_less)
  then have u: "unsigned_val ?cv a < 2 ^ 64" using unat_64 [of a] by (auto simp: unsigned_val_def)
  show ?thesis
  proof (cases "letter = 100")
    case True
    have "word_of_int (signed_val ?cv a) = arg_value sz letter a"
      using True by (auto simp: signed_val_def arg_value_def long_arg_def)
    moreover have "(if signed_val ?cv a < 0 then - of_nat (nat \<bar>signed_val ?cv a\<bar>) else of_nat (nat \<bar>signed_val ?cv a\<bar>)) = (word_of_int (signed_val ?cv a) :: u64)"
      by (simp add: of_nat_nat)
    ultimately have as_word: "(if signed_val ?cv a < 0 then - of_nat (nat \<bar>signed_val ?cv a\<bar>) else of_nat (nat \<bar>signed_val ?cv a\<bar>)) = arg_value sz letter a"
      by (simp only:)
    have conv: "conv_text strs ?cv a = number_text (signed_val ?cv a < 0) 10 10 (nat \<bar>signed_val ?cv a\<bar>)"
      using True num_text_plain [of 10]
      by (simp add: conv_text_def conv_body_def conv_prefix_def conv_shown_def digits_min_def number_text_def number_prefix_def)
    have "nat \<bar>signed_val ?cv a\<bar> < 2 ^ 64" using val by (auto simp: nat_less_iff)
    moreover have "letter_base letter = 10" using True by (simp add: letter_base_def)
    ultimately show ?thesis using as_word conv True by metis
  next
    case False
    have "conv_text strs ?cv a = number_text False (letter_base letter) (letter_base letter) (unsigned_val ?cv a)"
      using False assms num_text_plain
      by (auto simp: conv_text_def conv_body_def conv_prefix_def conv_shown_def digits_min_def number_text_def number_prefix_def letter_base_def Let_def)
    moreover have "of_nat (unsigned_val ?cv a) = arg_value sz letter a"
      using False by (auto simp: unsigned_val_def arg_value_def long_arg_def)
    ultimately show ?thesis using u by auto
  qed
qed

lemma number_text_length:
  assumes "8 \<le> unat base" "n < 2 ^ 64"
  shows "length (digits_of (unat base) n) \<le> 22" "length (number_text neg base base n) \<le> 23 + length (number_prefix base base)"
proof -
  have "n < 8 ^ 22" using assms(2) by (rule less_le_trans) simp
  also have "\<dots> \<le> unat base ^ 22" using assms(1) by (rule power_mono) simp
  finally have "length (digits0 (unat base) n) \<le> 22" using digits0_length [of "unat base" n 22] assms(1) by simp
  then show digits: "length (digits_of (unat base) n) \<le> 22" by (cases "n = 0") (simp_all add: digits0_def digits_of.simps [of _ 0])
  then show "length (number_text neg base base n) \<le> 23 + length (number_prefix base base)" by (simp add: number_text_def)
qed

lemma plain_print:
  assumes "letter \<in> {100, 117, 120, 111}" "sz \<in> {[], [104], [108], [108, 108]}" "fmt_apart s mx m fmt (fmt_bytes [([], plain_conv sz letter)] [])"
    "s \<noteq> 0" "fmt \<noteq> 0" "23 < unat mx" "unat mx < 2 ^ 31"
  obtains neg n t where "t = number_text neg (letter_base letter) (letter_base letter) n" "neg \<longrightarrow> letter = 100"
    "length (digits_of (unat (letter_base letter)) n) < 2 ^ 32" "length t \<le> 23"
    "(if neg then - of_nat n else of_nat n) = arg_value sz letter a"
    "d_r_snprintf s mx fmt [a] m = Some (of_nat (length t), stored s (t @ [0]) m)" "string_at (stored s (t @ [0]) m) s t"
proof -
  let ?cs = "[([], plain_conv sz letter)]" and ?b = "letter_base letter"
  have "valid_fmt ?cs []" using assms(1,2) by (auto simp: valid_conv_def conv_letters_def)
  moreover have "args_ok s mx m (\<lambda>_. []) ?cs [a]" using assms(1) by (auto simp: arg_ok_def)
  ultimately have ren: "rendered s mx m (fmt_text (\<lambda>_. []) ?cs [] [a]) (d_r_snprintf s mx fmt [a] m)"
    using assms(3-7) by (intro snprintf_rendered) auto
  obtain neg n where shown: "conv_text (\<lambda>_. []) (plain_conv sz letter) a = number_text neg ?b ?b n" "n < 2 ^ 64"
    "(if neg then - of_nat n else of_nat n) = arg_value sz letter a" "neg \<longrightarrow> letter = 100"
    using plain_text [OF assms(1)] by blast
  let ?t = "number_text neg ?b ?b n"
  have b: "2 \<le> ?b" "?b \<le> 36" "8 \<le> unat ?b" "number_prefix ?b ?b = []" using assms(1) by (auto simp: letter_base_def number_prefix_def)
  have len: "length (digits_of (unat ?b) n) \<le> 22" "length ?t \<le> 23" using number_text_length [OF b(3) shown(2)] b(4) by simp_all
  have print: "d_r_snprintf s mx fmt [a] m = Some (of_nat (length ?t), stored s (?t @ [0]) m)"
    using ren len(2) assms(6) by (simp add: rendered_def shown(1))
  have "d < 36" if "d \<in> set (digits_of (unat ?b) n)" for d
    using digits_of_less [of "unat ?b" d n] that b(1,2) by (simp add: word_le_nat_alt)
  then have "0 \<notin> set ?t" using digit_chars(2) b(4) by (auto simp: number_text_def)
  then have "string_at (stored s (?t @ [0]) m) s ?t" using len(2) by (intro cstring_stored_self) simp_all
  with print len shown(3,4) show ?thesis by (intro that [of ?t neg n]) simp_all
qed

text \<open>What \<^verbatim>\<open>snprintf\<close> prints for a number with \<^verbatim>\<open>%d\<close>, \<^verbatim>\<open>%u\<close>, \<^verbatim>\<open>%x\<close> or \<^verbatim>\<open>%o\<close>, of any size, \<^verbatim>\<open>strtoul\<close> reads back in the base of
the conversion: it gives the argument, sign- or zero-extended, and its end pointer is the end of the text.\<close>

theorem print_then_strtoul:
  assumes "letter \<in> {100, 117, 120, 111}" "sz \<in> {[], [104], [108], [108, 108]}" "fmt_apart s mx m fmt (fmt_bytes [([], plain_conv sz letter)] [])"
    "s \<noteq> 0" "fmt \<noteq> 0" "23 < unat mx" "unat mx < 2 ^ 31" "unat s + unat mx < 2 ^ 64"
  shows "\<exists>r m'. d_r_snprintf s mx fmt [a] m = Some (r, m') \<and> d_r_strtoul m' s (letter_base letter) = Some (arg_value sz letter a, s + ucast r)"
proof -
  obtain neg n t where t: "t = number_text neg (letter_base letter) (letter_base letter) n" "length (digits_of (unat (letter_base letter)) n) < 2 ^ 32"
    "length t \<le> 23" "(if neg then - of_nat n else of_nat n) = arg_value sz letter a"
    "d_r_snprintf s mx fmt [a] m = Some (of_nat (length t), stored s (t @ [0]) m)" "string_at (stored s (t @ [0]) m) s (t @ [])"
    using plain_print [OF assms(1-7)] by (metis append_Nil2)
  have b: "2 \<le> letter_base letter" "letter_base letter \<le> 36" using assms(1) by (auto simp: letter_base_def)
  from parse_int_number [OF b _ _ t(2) t(6) [unfolded t(1)]] t(4)
  have parse: "d_r_parse_int (stored s (t @ [0]) m) s (letter_base letter) 0 True = Some (s + of_nat (length t), Some (arg_value sz letter a))"
    by (simp add: base_known_def number_ends_def t(1))
  have small: "unat (of_nat (length t) :: u64) = length t" using t(3) by (simp add: unsigned_of_nat take_bit_nat_eq_self)
  have "t \<noteq> []" by (simp add: t(1) number_text_def)
  then have "unat (s + of_nat (length t)) \<noteq> 0"
    using small t(3) assms(6,8) unat_add_lem [of s "of_nat (length t)"] by simp
  then have "s + of_nat (length t) \<noteq> 0" by auto
  moreover have "ucast (of_nat (length t) :: u32) = (of_nat (length t) :: u64)"
    using t(3) by (simp add: word_unat_eq_iff unat_ucast_up unsigned_of_nat take_bit_nat_eq_self)
  ultimately show ?thesis using t(5) parse by (simp add: d_r_strtoul_def)
qed

subsection \<open>Concrete formats\<close>

text \<open>A memory with a format at 0x1000; the buffer is at 0x2000.\<close>

definition sample :: "u8 list \<Rightarrow> memory" where
  "sample bs = stored 0x1000 (bs @ [0]) (\<lambda>_. 0)"

lemma sample_apart:
  assumes "0 \<notin> set bs" "length bs < 0x1000" "unat mx \<le> 0x1000"
  shows "fmt_apart 0x2000 mx (sample bs) 0x1000 bs"
proof -
  have "unat mx \<le> unat (0x1000 + of_nat i - 0x2000 :: u64)" if "i \<le> length bs" for i
  proof -
    have "(of_nat (2 ^ 64 - 0x1000 + i) :: u64) = of_nat (2 ^ 64 - 0x1000) + of_nat i" by (rule of_nat_add)
    moreover have "(of_nat (2 ^ 64 - 0x1000) :: u64) = - 0x1000" by simp
    ultimately have "0x1000 + of_nat i - 0x2000 = (of_nat (2 ^ 64 - 0x1000 + i) :: u64)" by simp
    moreover have "unat (of_nat (2 ^ 64 - 0x1000 + i) :: u64) = 2 ^ 64 - 0x1000 + i"
      using that assms(2) by (simp add: unsigned_of_nat take_bit_nat_eq_self del: of_nat_add)
    ultimately have "unat (0x1000 + of_nat i - 0x2000 :: u64) = 2 ^ 64 - 0x1000 + i" by (simp only:)
    then show ?thesis using assms(3) by simp
  qed
  moreover have "string_at (sample bs) 0x1000 bs" unfolding sample_def using assms(1,2) by (intro cstring_stored_self) simp_all
  ultimately show ?thesis using assms(2) by (simp add: fmt_apart_def clear_of_def)
qed

text \<open>The result and the bytes of the buffer.\<close>

definition print_run :: "u64 \<Rightarrow> u8 list \<Rightarrow> va_list \<Rightarrow> (u32 \<times> u8 list) option" where
  "print_run mx bs ap = map_option (\<lambda>(r, m). (r, map (\<lambda>i. m (0x2000 + of_nat i)) [0..<unat mx])) (d_r_snprintf 0x2000 mx 0x1000 ap (sample bs))"

text \<open>"%05d" of 42 is 00042, but "%05u" pads with blanks: the zero is dropped when the case for \<^verbatim>\<open>u\<close> runs into the next one.\<close>

lemma signed_zero_flag: "print_run 6 [37, 48, 53, 100] [42] = Some (5, [48, 48, 48, 52, 50, 0])"
  by code_simp

lemma unsigned_zero_flag_lost: "print_run 6 [37, 48, 53, 117] [42] = Some (5, [32, 32, 32, 52, 50, 0])"
  by code_simp

text \<open>A negative width from an argument sets the minus flag when the filler has been settled: zeros follow the number.\<close>

lemma star_width_zeros: "print_run 6 [37, 48, 42, 100] [- 5, 42] = Some (5, [52, 50, 48, 48, 48, 0])"
  by code_simp

text \<open>The width counts the characters of a string that its precision cuts off.\<close>

lemma string_width_uncut: "conv_text (\<lambda>_. [97, 98, 99, 100]) \<lparr>cv_flags = [], cv_width = 5, cv_prec = Some 2, cv_size = [], cv_letter = 115\<rparr> a = [32, 97, 98]"
  by (simp add: conv_text_def conv_body_def conv_prefix_def conv_shown_def conv_filler_def)

text \<open>A null string is printed as a text, but with a width its length is taken first.\<close>

lemma null_string_width: "0 <s fill_count p \<Longrightarrow> rest_fill m p pre (In_mem 0) 0 = None"
  by (simp add: rest_fill_def Let_def)

lemma snprintf_stays_in_buffer_witness:
  "\<exists>r m. d_r_snprintf 0x2000 6 0x1000 [42] (sample [37, 48, 53, 117]) = Some (r, m) \<and> m 0x1003 = sample [37, 48, 53, 117] 0x1003"
proof -
  obtain r m where "d_r_snprintf 0x2000 6 0x1000 [42] (sample [37, 48, 53, 117]) = Some (r, m)"
    using unsigned_zero_flag_lost by (auto simp: print_run_def)
  with snprintf_stays_in_buffer [OF this] show ?thesis by auto
qed

lemma snprintf_prints_text_witness:
  "d_r_snprintf 0x2000 16 0x1000 [7, 0x1000] (sample [97, 37, 43, 100, 37, 115]) =
    Some (9, stored 0x2000 [97, 43, 55, 97, 37, 43, 100, 37, 115, 0] (sample [97, 37, 43, 100, 37, 115]))"
proof -
  let ?m = "sample [97, 37, 43, 100, 37, 115]" and ?strs = "\<lambda>_. [97, 37, 43, 100, 37, 115] :: u8 list"
  let ?cv = "\<lparr>cv_flags = [43], cv_width = 0, cv_prec = None, cv_size = [], cv_letter = 100\<rparr>"
  let ?cs = "[([97], ?cv), ([], plain_conv [] 115)]"
  have bytes: "fmt_bytes ?cs [] = [97, 37, 43, 100, 37, 115]"
    by (simp add: spec_bytes_def prec_bytes_def)
  have digits: "digits_of 10 7 = [7]" by (simp add: digits_of.simps)
  have shown: "fmt_text ?strs ?cs [] [7, 0x1000] = [97, 43, 55, 97, 37, 43, 100, 37, 115]"
    by (simp add: conv_text_def conv_body_def conv_prefix_def conv_shown_def conv_filler_def digits_min_def signed_val_def long_arg_def
      int_arg_def num_text_def digits0_def digits digit_text_def digit_char_def args_behind_def)
  have at: "fmt_apart 0x2000 16 ?m 0x1000 [97, 37, 43, 100, 37, 115]" by (rule sample_apart) simp_all
  have "valid_fmt ?cs []" by (simp add: valid_conv_def flag_letters_def conv_letters_def)
  moreover have "args_ok 0x2000 16 ?m ?strs ?cs [7, 0x1000]" using at by (simp add: arg_ok_def args_behind_def string_ok_def fmt_apart_def)
  ultimately show ?thesis
    using snprintf_prints_text [of ?cs "[]" "0x2000" 16 ?m "0x1000" ?strs "[7, 0x1000]"] at unfolding bytes shown by simp
qed

lemma print_then_strtoul_witness:
  "\<exists>r m. d_r_snprintf 0x2000 64 0x1000 [- 42] (sample [37, 108, 100]) = Some (r, m) \<and> d_r_strtoul m 0x2000 10 = Some (- 42, 0x2000 + ucast r)"
proof -
  have "fmt_apart 0x2000 64 (sample [37, 108, 100]) 0x1000 (fmt_bytes [([], plain_conv [108] 100)] [])"
    using sample_apart [of "[37, 108, 100]" 64] by (simp add: spec_bytes_def prec_bytes_def)
  then show ?thesis
    using print_then_strtoul [of 100 "[108]" "0x2000" 64 "sample [37, 108, 100]" "0x1000" "- 42"]
    by (simp add: letter_base_def arg_value_def)
qed

end
