(* ===== verification/CScanfProps.thy ===== *)
theory CScanfProps
  imports CScanf CPrintfFormats
begin

text \<open>
  Properties of \<^verbatim>\<open>sscanf\<close>: a character set holds the characters and ranges it is written with, a string conversion with a width
  stays in its buffer, and a number that \<^verbatim>\<open>snprintf\<close> has printed is read back with the same format.
\<close>

subsection \<open>Character sets\<close>

text \<open>A set is written as characters and ranges, perhaps with a dash at its end, before the closing bracket.\<close>

datatype charset_item = One u8 | Range u8 u8

fun item_bytes :: "charset_item \<Rightarrow> u8 list" where
  "item_bytes (One a) = [a]"
| "item_bytes (Range a b) = [a, 45, b]"

fun item_has :: "u8 \<Rightarrow> charset_item \<Rightarrow> bool" where
  "item_has c (One a) \<longleftrightarrow> c = a"
| "item_has c (Range a b) \<longleftrightarrow> c = a \<or> a <=s c \<and> c <=s b"

fun valid_item :: "charset_item \<Rightarrow> bool" where
  "valid_item (One a) \<longleftrightarrow> a \<noteq> 0 \<and> a \<noteq> 45"
| "valid_item (Range a b) \<longleftrightarrow> a \<noteq> 0 \<and> a \<noteq> 45 \<and> b \<noteq> 0 \<and> b \<noteq> 93"

fun item_first :: "charset_item \<Rightarrow> u8" where
  "item_first (One a) = a"
| "item_first (Range a b) = a"

definition charset_bytes :: "charset_item list \<Rightarrow> bool \<Rightarrow> u8 list" where
  "charset_bytes items dash = concat (map item_bytes items) @ (if dash then [45] else [])"

definition charset_has :: "charset_item list \<Rightarrow> bool \<Rightarrow> u8 \<Rightarrow> bool" where
  "charset_has items dash c \<longleftrightarrow> (\<exists>item \<in> set items. item_has c item) \<or> dash \<and> c = 45"

lemma charset_bytes_Cons: "charset_bytes (item # items) dash = item_bytes item @ charset_bytes items dash"
  by (simp add: charset_bytes_def)

lemma charset_has_Cons: "charset_has (item # items) dash c \<longleftrightarrow> item_has c item \<or> charset_has items dash c"
  by (auto simp: charset_has_def)

lemma charset_next: "\<forall>item \<in> set items. valid_item item \<Longrightarrow> m p = hd (charset_bytes items dash @ 93 # rest) \<Longrightarrow>
    m p = 45 \<Longrightarrow> items = [] \<and> dash"
  by (cases items; cases "hd items") (auto simp: charset_bytes_def split: if_splits)

lemma not_proper: "0 < i \<Longrightarrow> i < 2 ^ 64 \<Longrightarrow> proper + of_nat i \<noteq> proper" for proper :: u64
proof -
  assume "0 < i" "i < 2 ^ 64"
  then have "unat (of_nat i :: u64) \<noteq> 0" by (simp add: unsigned_of_nat take_bit_nat_eq_self)
  then show ?thesis by auto
qed

lemma charset_loop_correct:
  "string_at m (proper + of_nat i) (charset_bytes items dash @ 93 # rest) \<Longrightarrow> \<forall>item \<in> set items. valid_item item \<Longrightarrow>
   i + length (charset_bytes items dash) < 2 ^ 64 \<Longrightarrow> \<forall>item \<in> set (if i = 0 then tl items else items). item_first item \<noteq> 93 \<Longrightarrow>
   i = 0 \<longrightarrow> charset_bytes items dash \<noteq> [] \<Longrightarrow>
   charset_loop m proper (proper + of_nat i) c = Some (charset_has items dash c)"
proof (induction items arbitrary: i)
  case Nil
  show ?case
  proof (cases dash)
    case True
    with Nil have m: "m (proper + of_nat i) = 45" "m (proper + of_nat i + 1) = 93" by (simp_all add: charset_bytes_def)
    have "proper + of_nat (Suc i) \<noteq> proper" using Nil.prems(3) True by (intro not_proper) (simp_all add: charset_bytes_def)
    then have "proper + of_nat i + 1 \<noteq> proper" by (simp add: ac_simps)
    then have "charset_loop m proper (proper + of_nat i + 1) c = Some False" using m(2) by (subst charset_loop.simps) simp
    with m True show ?thesis by (subst charset_loop.simps) (simp add: charset_has_def)
  next
    case False
    with Nil have "m (proper + of_nat i) = 93" "0 < i" by (simp_all add: charset_bytes_def)
    moreover have "proper + of_nat i \<noteq> proper" using \<open>0 < i\<close> Nil.prems(3) by (intro not_proper) simp_all
    ultimately show ?thesis using False by (subst charset_loop.simps) (simp add: charset_has_def)
  qed
next
  case (Cons item items)
  let ?p = "proper + of_nat i"
  let ?n = "length (item_bytes item)"
  have str: "string_at m ?p (item_bytes item @ charset_bytes items dash @ 93 # rest)" using Cons.prems(1) by (simp add: charset_bytes_Cons)
  then have rest: "string_at m (proper + of_nat (i + ?n)) (charset_bytes items dash @ 93 # rest)" by (simp add: cstring_append add.assoc)
  have "0 < ?n" by (cases item) simp_all
  then have IH: "charset_loop m proper (proper + of_nat (i + ?n)) c = Some (charset_has items dash c)"
    using Cons.prems(2-4) by (intro Cons.IH [OF rest]) (auto simp: charset_bytes_Cons split: if_splits)
  have start: "m ?p \<noteq> 93 \<or> ?p = proper" using Cons.prems(4) str by (cases item) (auto split: if_splits)
  show ?case
  proof (cases item)
    case (One a)
    have "m (?p + 1) = 45 \<longrightarrow> m (?p + 2) = 93"
    proof
      assume "m (?p + 1) = 45"
      moreover have next_str: "string_at m (?p + 1) (charset_bytes items dash @ 93 # rest)" using str One by simp
      then have "m (?p + 1) = hd (charset_bytes items dash @ 93 # rest)" by (cases "charset_bytes items dash @ 93 # rest") auto
      ultimately have "items = [] \<and> dash" using charset_next [of items m "?p + 1" dash rest] Cons.prems(2) by simp
      with next_str show "m (?p + 2) = 93" by (simp add: charset_bytes_def add.assoc)
    qed
    with One str start IH show ?thesis by (subst charset_loop.simps) (auto simp: charset_has_Cons ac_simps)
  next
    case (Range a b)
    have "m ?p = a" "m (?p + 1) = 45" "m (?p + 2) = b" "b \<noteq> 93" using str Range Cons.prems(2) by (auto simp: add.assoc)
    with Range start IH show ?thesis by (subst charset_loop.simps) (auto simp: charset_has_Cons ac_simps)
  qed
qed

text \<open>C25: A scan set means what it is written with: for characters and ranges, perhaps with a closing bracket in the first place or a
dash in the last, a character is in the set exactly when one of them has it, and with a caret in front exactly when none does.\<close>

theorem charset_membership:
  assumes "string_at m p ((if negated then [94] else []) @ charset_bytes items dash @ 93 # rest)" "\<forall>item \<in> set items. valid_item item"
    "\<forall>item \<in> set (tl items). item_first item \<noteq> 93" "charset_bytes items dash \<noteq> []" "length (charset_bytes items dash) < 2 ^ 64"
    "\<not> negated \<longrightarrow> m p \<noteq> 94"
  shows "in_charset m p c = Some (charset_has items dash c \<noteq> negated)"
proof (cases negated)
  case True
  then have "string_at m (p + 1 + of_nat 0) (charset_bytes items dash @ 93 # rest)" "m p = 94" using assms(1) by simp_all
  with True charset_loop_correct [of m "p + 1" 0 items dash rest c] assms show ?thesis by (simp add: in_charset_def in_charset_helper_def)
next
  case False
  with charset_loop_correct [of m p 0 items dash rest c] assms show ?thesis by (simp add: in_charset_def in_charset_helper_def)
qed

subsection \<open>Strings with a width\<close>

lemma copy_token_bounds:
  assumes "copy_token s out i m sp = Some res"
  shows "0 < sc_width s \<longrightarrow> i \<le> sc_width s \<longrightarrow> (\<exists>k. k \<le> unat (sc_width s - i) \<and> fst res (out + of_nat k) = 0 \<and>
    (\<forall>a. fst res a \<noteq> m a \<longrightarrow> unat (a - out) \<le> k))"
proof (rule copy_token.raw_induct [where P = "\<lambda>s out i m sp res. 0 < sc_width s \<longrightarrow> i \<le> sc_width s \<longrightarrow>
    (\<exists>k. k \<le> unat (sc_width s - i) \<and> fst res (out + of_nat k) = 0 \<and> (\<forall>a. fst res a \<noteq> m a \<longrightarrow> unat (a - out) \<le> k))", OF _ assms], intro impI)
  fix rec s out i m sp res
  assume IH: "\<And>s out i m sp res. rec s out i m sp = Some res \<Longrightarrow> 0 < sc_width s \<longrightarrow> i \<le> sc_width s \<longrightarrow>
      (\<exists>k. k \<le> unat (sc_width s - i) \<and> fst res (out + of_nat k) = 0 \<and> (\<forall>a. fst res a \<noteq> m a \<longrightarrow> unat (a - out) \<le> k))"
    and body: "(if (sc_width s > 0 \<longrightarrow> i < sc_width s) \<and> m sp \<noteq> 0 then do {
        ok \<leftarrow> token_char s m (m sp);
        if ok then rec s (out + 1) (i + 1) (m(out := m sp)) (sp + 1)
        else Some (m(out := 0), sp) }
      else Some (m(out := 0), sp)) = Some res"
    and w: "0 < sc_width s" "i \<le> sc_width s"
  let ?goal = "\<exists>k. k \<le> unat (sc_width s - i) \<and> fst res (out + of_nat k) = 0 \<and> (\<forall>a. fst res a \<noteq> m a \<longrightarrow> unat (a - out) \<le> k)"
  have stop: ?goal if "res = (m(out := 0), sp)"
    using that by (intro exI [of _ 0]) auto
  show ?goal
  proof (cases "i < sc_width s \<and> m sp \<noteq> 0 \<and> token_char s m (m sp) = Some True")
    case False
    with body w(1) stop show ?thesis by (auto simp: bind_eq_Some_conv split: if_splits)
  next
    case True
    with body have "rec s (out + 1) (i + 1) (m(out := m sp)) (sp + 1) = Some res" by simp
    moreover have "i + 1 \<le> sc_width s" using True by (simp add: inc_le)
    ultimately obtain k where k: "k \<le> unat (sc_width s - (i + 1))" "fst res (out + 1 + of_nat k) = 0"
      "\<And>a. fst res a \<noteq> (m(out := m sp)) a \<Longrightarrow> unat (a - (out + 1)) \<le> k" using IH w(1) by blast
    have "sc_width s - i \<noteq> 0" using True by auto
    then have width: "unat (sc_width s - i) = Suc (unat (sc_width s - (i + 1)))"
      using unat_minus_one [of "sc_width s - i"] unat_gt_0 [of "sc_width s - i"] by (simp add: diff_diff_add)
    have "unat (a - out) \<le> Suc k" if "fst res a \<noteq> m a" for a
    proof (cases "a = out")
      case False
      then have "unat (a - out) = Suc (unat (a - (out + 1)))" using unat_minus_Suc [of "a - out"] by (simp add: diff_diff_add)
      moreover have "unat (a - (out + 1)) \<le> k" using k(3) [of a] that False by simp
      ultimately show ?thesis by simp
    qed simp
    with k(1,2) width show ?thesis by (intro exI [of _ "Suc k"]) (simp add: ac_simps)
  qed
qed

text \<open>C24: A string or set conversion with a width stays in a buffer of one byte more: it changes no memory but the bytes from its
argument on, at most the width and a terminator, and leaves a terminator behind the last one it changes.\<close>

theorem scan_width_bounds:
  assumes "scan_value s m sp (out # ap) = Some (Some (m', sp', ap'))" "sc_spec s = SPEC_STRING \<or> sc_spec s = SPEC_CHARSET"
    "\<not> is_ignored s" "0 < sc_width s"
  shows "ap' = ap \<and> (\<exists>k. k \<le> unat (sc_width s) \<and> m' (out + of_nat k) = 0 \<and> (\<forall>a. m' a \<noteq> m a \<longrightarrow> unat (a - out) \<le> k))"
proof -
  have "copy_token s out 0 m sp = Some (m', sp')" "ap' = ap"
    using assms by (auto simp: scan_value_def va_arg_def bind_eq_Some_conv)
  with copy_token_bounds [of s out 0 m sp "(m', sp')"] assms(4) show ?thesis by simp
qed

subsection \<open>Printing and scanning\<close>

definition size_of :: "u8 list \<Rightarrow> int_sz_t" where
  "size_of sz = (if sz = [104] then SZ_SHORT else if sz = [108] then SZ_LONG else if sz = [108, 108] then SZ_LONGLONG else SZ_INT)"

definition plain_spec :: "u8 list \<Rightarrow> u8 \<Rightarrow> scanf_spec" where
  "plain_spec sz letter = init_scanf_spec\<lparr>int_size := size_of sz, sc_spec := SPEC_INT, is_signed := (letter = 100),
     sc_base := letter_base letter\<rparr>"

lemma get_scanf_spec_plain:
  assumes "letter \<in> {100, 117, 120}" "sz \<in> {[], [104], [108], [108, 108]}" "string_at m fp (sz @ letter # rest)"
  shows "get_scanf_spec m fp init_scanf_spec = Some (fp + of_nat (length sz) + 1, plain_spec sz letter)"
proof -
  have stop: "get_scanf_spec m p s = Some (p + 1, s\<lparr>sc_spec := SPEC_INT, is_signed := (letter = 100), sc_base := letter_base letter\<rparr>)"
    if "m p = letter" "sc_base s = 10" for p s
    using that assms(1) by (subst get_scanf_spec.simps) (auto simp: letter_base_def)
  consider "sz = []" | "sz = [104]" | "sz = [108]" | "sz = [108, 108]" using assms(2) by blast
  then show ?thesis
  proof cases
    case 1
    with assms(3) stop [of fp init_scanf_spec] show ?thesis by (simp add: plain_spec_def size_of_def init_scanf_spec_def)
  next
    case 2
    with assms(3) stop [of "fp + 1" "init_scanf_spec\<lparr>int_size := SZ_SHORT\<rparr>"] show ?thesis
      by (subst get_scanf_spec.simps) (simp add: plain_spec_def size_of_def init_scanf_spec_def)
  next
    case 3
    with assms(3) stop [of "fp + 1" "init_scanf_spec\<lparr>int_size := SZ_LONG\<rparr>"] show ?thesis
      by (subst get_scanf_spec.simps) (simp add: plain_spec_def size_of_def init_scanf_spec_def)
  next
    case 4
    with assms(3) have m: "m fp = 108" "m (fp + 1) = 108" "m (fp + 2) = letter" by (simp_all add: add.assoc)
    then have "get_scanf_spec m (fp + 1) (init_scanf_spec\<lparr>int_size := SZ_LONG\<rparr>) = get_scanf_spec m (fp + 2) (init_scanf_spec\<lparr>int_size := SZ_LONGLONG\<rparr>)"
      by (subst get_scanf_spec.simps) (simp add: add.assoc)
    moreover have "get_scanf_spec m fp init_scanf_spec = get_scanf_spec m (fp + 1) (init_scanf_spec\<lparr>int_size := SZ_LONG\<rparr>)"
      using m by (subst get_scanf_spec.simps) (simp add: init_scanf_spec_def)
    moreover have "get_scanf_spec m (fp + 2) (init_scanf_spec\<lparr>int_size := SZ_LONGLONG\<rparr>) =
        Some (fp + 2 + 1, init_scanf_spec\<lparr>int_size := SZ_LONGLONG, sc_spec := SPEC_INT, is_signed := (letter = 100), sc_base := letter_base letter\<rparr>)"
      using stop [of "fp + 2" "init_scanf_spec\<lparr>int_size := SZ_LONGLONG\<rparr>"] m(3) by (simp add: init_scanf_spec_def)
    ultimately show ?thesis using 4 by (simp add: plain_spec_def size_of_def)
  qed
qed

lemma unsigned_parse: "m str \<noteq> 45 \<Longrightarrow> d_r_parse_int m str base width False = d_r_parse_int m str base width True"
  by (simp add: d_r_parse_int_def)

lemma write_mem_end: "clear_of c bs p 8 \<Longrightarrow> length vs \<le> 8 \<Longrightarrow> write_mem m p vs (c + of_nat (length bs)) = m (c + of_nat (length bs))"
proof (rule ccontr)
  assume clear: "clear_of c bs p 8" "length vs \<le> 8" "write_mem m p vs (c + of_nat (length bs)) \<noteq> m (c + of_nat (length bs))"
  then have "unat (c + of_nat (length bs) - p) < 8" using write_mem_outside [of m p vs "c + of_nat (length bs)"] by simp
  moreover have "8 \<le> unat (c + of_nat (length bs) - p)" using clear(1) by (simp add: clear_of_def)
  ultimately show False by simp
qed

text \<open>C23: What \<^verbatim>\<open>snprintf\<close> prints for a number, \<^verbatim>\<open>sscanf\<close> reads back with the same format: for \<^verbatim>\<open>%d\<close>, \<^verbatim>\<open>%u\<close> and \<^verbatim>\<open>%x\<close> of any size it
converts one value and stores the low bytes of the argument, as many as the size has, and nothing else.\<close>

theorem print_then_scan:
  assumes "letter \<in> {100, 117, 120}" "sz \<in> {[], [104], [108], [108, 108]}" "fmt_apart s mx m fmt (fmt_bytes [([], plain_conv sz letter)] [])"
    "s \<noteq> 0" "fmt \<noteq> 0" "23 < unat mx" "unat mx < 2 ^ 31" "unat s + unat mx < 2 ^ 64" "clear_of fmt (fmt_bytes [([], plain_conv sz letter)] []) p 8"
  shows "\<exists>r m'. d_r_snprintf s mx fmt [a] m = Some (r, m') \<and>
    d_r_sscanf m' s fmt [p] = Some (1, write_mem m' p (le_bytes (int_bytes (size_of sz)) (unat (arg_value sz letter a))))"
proof -
  let ?b = "letter_base letter" and ?bytes = "37 # sz @ [letter]"
  have bytes: "fmt_bytes [([], plain_conv sz letter)] [] = ?bytes" by (simp add: spec_bytes_def prec_bytes_def)
  have letter: "letter \<in> {100, 117, 120, 111}" using assms(1) by blast
  obtain neg n t where t: "t = number_text neg ?b ?b n" "neg \<longrightarrow> letter = 100" "length (digits_of (unat ?b) n) < 2 ^ 32"
    "length t \<le> 23" "(if neg then - of_nat n else of_nat n) = arg_value sz letter a"
    "d_r_snprintf s mx fmt [a] m = Some (of_nat (length t), stored s (t @ [0]) m)" "string_at (stored s (t @ [0]) m) s t"
    by (rule plain_print [OF letter assms(2-7)])
  let ?m = "stored s (t @ [0]) m"
  have b: "2 \<le> ?b" "?b \<le> 36" "2 \<le> unat ?b" "unat ?b \<le> 16" "number_prefix ?b ?b = []" using assms(1) by (auto simp: letter_base_def number_prefix_def)
  from parse_int_number [OF b(1,2) _ _ t(3), of ?b "[]" ?m s neg] t(1,5,7)
  have parse: "d_r_parse_int ?m s ?b 0 True = Some (s + of_nat (length t), Some (arg_value sz letter a))"
    by (simp add: base_known_def number_ends_def)
  obtain d ds where ds: "digits_of (unat ?b) n = d # ds" by (cases "digits_of (unat ?b) n") auto
  have "d < 16" using digits_of_less [OF b(3), of d n] ds b(4) by simp
  then have digit: "digit_char d \<noteq> 0 \<and> digit_char d \<noteq> 45 \<and> \<not> our_isspace (digit_char d)"
  proof -
    have "list_all (\<lambda>d. digit_char d \<noteq> 0 \<and> digit_char d \<noteq> 45 \<and> \<not> our_isspace (digit_char d)) [0..<16]" by code_simp
    with \<open>d < 16\<close> show ?thesis by (simp add: list_all_iff)
  qed
  have first: "?m s = (if neg then 45 else digit_char d)" using t(7) b(5) ds by (auto simp: t(1) number_text_def)
  then have str: "?m s \<noteq> 0" "\<not> our_isspace (?m s)" "\<not> neg \<longrightarrow> ?m s \<noteq> 45" using digit by (auto simp: our_isspace_def)
  then have skip: "skip_spaces ?m s = Some s" by (subst skip_spaces.simps) simp
  have number: "d_r_parse_int ?m s ?b 0 (letter = 100) = Some (s + of_nat (length t), Some (arg_value sz letter a))"
    using parse unsigned_parse [of ?m s ?b 0] t(2) str(3) by (cases "letter = 100") auto
  have small: "unat (of_nat (length t) :: u64) = length t" using t(4) by (simp add: unsigned_of_nat take_bit_nat_eq_self)
  have "t \<noteq> []" by (simp add: t(1) number_text_def)
  then have "unat (s + of_nat (length t)) \<noteq> 0"
    using small t(4) assms(6,8) unat_add_lem [of s "of_nat (length t)"] by simp
  then have "s + of_nat (length t) \<noteq> 0" by auto
  then have scan: "scan_value (plain_spec sz letter) ?m s [p] =
      Some (Some (write_mem ?m p (le_bytes (int_bytes (size_of sz)) (unat (arg_value sz letter a))), s + of_nat (length t), []))"
    using skip number by (simp add: scan_value_def plain_spec_def init_scanf_spec_def va_arg_def)
  have "length (t @ [0]) \<le> unat mx" using t(4) assms(6) by simp
  then have fmt: "string_at ?m fmt ?bytes" using apart_stored [OF assms(3)] unfolding bytes by blast
  then have spec: "get_scanf_spec ?m (fmt + 1) init_scanf_spec = Some (fmt + 1 + of_nat (length sz) + 1, plain_spec sz letter)"
    by (intro get_scanf_spec_plain [OF assms(1,2), where rest = "[]"]) simp
  let ?m' = "write_mem ?m p (le_bytes (int_bytes (size_of sz)) (unat (arg_value sz letter a)))"
  have "?m (fmt + of_nat (length ?bytes)) = 0" using cstring_end [OF fmt] .
  moreover have "int_bytes (size_of sz) \<le> 8" by (simp add: size_of_def)
  ultimately have "?m' (fmt + of_nat (length ?bytes)) = 0" using write_mem_end [OF assms(9)] unfolding bytes by simp
  moreover have "fmt + of_nat (length ?bytes) = fmt + 1 + of_nat (length sz) + 1" by simp
  ultimately have "?m' (fmt + 1 + of_nat (length sz) + 1) = 0" by (simp only:)
  then have "vsscanf_loop ?m' q (fmt + 1 + of_nat (length sz) + 1) [] 1 = Some (1, ?m')" for q
    by (subst vsscanf_loop.simps) simp
  moreover have "?m fmt = 37" "\<not> our_isspace 37" using fmt by (simp_all add: our_isspace_def)
  moreover have "\<not> is_ignored (plain_spec sz letter)" by (simp add: plain_spec_def init_scanf_spec_def)
  ultimately have "d_r_sscanf ?m s fmt [p] = Some (1, ?m')"
    using spec scan str(1) unfolding d_r_sscanf_def d_r_vsscanf_def by (subst vsscanf_loop.simps) simp
  with t(6) show ?thesis by blast
qed

subsection \<open>Concrete formats\<close>

lemma charset_membership_witness: "in_charset (stored 0x1000 [94, 93, 97, 45, 122, 45, 93, 0] (\<lambda>_. 0)) 0x1000 109 = Some False"
  using charset_membership [of "stored 0x1000 [94, 93, 97, 45, 122, 45, 93, 0] (\<lambda>_. 0)" "0x1000" True "[One 93, Range 97 122]" True "[]" 109]
  by (simp add: stored_def charset_bytes_def charset_has_def word_sle_eq)

text \<open>A string of four characters, with a width of two.\<close>

lemma scan_width_bounds_witness:
  "\<exists>m' sp' k. scan_value (init_scanf_spec\<lparr>sc_spec := SPEC_STRING, sc_width := 2\<rparr>) (write_mem (\<lambda>_. 0) 0x1000 [97, 98, 99, 100]) 0x1000 [0x2000] =
      Some (Some (m', sp', [])) \<and> k \<le> 2 \<and> m' (0x2000 + of_nat k) = 0"
proof -
  let ?s = "init_scanf_spec\<lparr>sc_spec := SPEC_STRING, sc_width := 2\<rparr>" and ?m = "write_mem (\<lambda>_. 0) 0x1000 [97, 98, 99, 100]"
  have "copy_token ?s 0x2000 0 ?m 0x1000 = Some (?m(0x2000 := 97, 0x2001 := 98, 0x2002 := 0), 0x1002)"
    by (simp add: copy_token.simps token_char_def our_isspace_def init_scanf_spec_def)
  moreover have "\<not> is_ignored init_scanf_spec" by (simp add: init_scanf_spec_def)
  ultimately obtain m' sp' where scan: "scan_value ?s ?m 0x1000 [0x2000] = Some (Some (m', sp', []))"
    by (simp add: scan_value_def va_arg_def del: write_mem.simps fun_upd_apply)
  with scan_width_bounds [OF scan] show ?thesis by (auto simp: init_scanf_spec_def)
qed

lemma print_then_scan_witness:
  "\<exists>r m. d_r_snprintf 0x2000 64 0x1000 [0x12ff] (sample [37, 104, 100]) = Some (r, m) \<and>
    d_r_sscanf m 0x2000 0x1000 [0xff0] = Some (1, write_mem m 0xff0 [0xff, 0x12])"
proof -
  have at: "fmt_apart 0x2000 64 (sample [37, 104, 100]) 0x1000 (fmt_bytes [([], plain_conv [104] 100)] [])"
    using sample_apart [of "[37, 104, 100]" 64] by (simp add: spec_bytes_def prec_bytes_def)
  have "list_all (\<lambda>i. 8 \<le> unat (0x1000 + of_nat i - 0xff0 :: u64)) [0..<4]" by code_simp
  then have "clear_of 0x1000 (fmt_bytes [([], plain_conv [104] 100)] []) 0xff0 8"
    by (auto simp: clear_of_def list_all_iff spec_bytes_def prec_bytes_def)
  moreover have "le_bytes (int_bytes (size_of [104])) (unat (arg_value [104] 100 0x12ff)) = [0xff, 0x12]"
  proof -
    have "unat (arg_value [104] 100 0x12ff) = 0x12ff" by (simp add: arg_value_def int_arg_def)
    moreover have "int_bytes (size_of [104]) = Suc (Suc 0)" by (simp add: size_of_def)
    ultimately show ?thesis by (simp only: le_bytes.simps) simp
  qed
  ultimately show ?thesis
    using print_then_scan [of 100 "[104]" "0x2000" 64 "sample [37, 104, 100]" "0x1000" "0xff0" "0x12ff"] at by simp
qed

text \<open>The result, and the byte stored at 0x2000 and at 0x2010.\<close>

definition scan_run :: "u8 list \<Rightarrow> u8 list \<Rightarrow> va_list \<Rightarrow> (u32 \<times> u8 \<times> u8) option" where
  "scan_run str fmt ap = map_option (\<lambda>(r, m). (r, m 0x2000, m 0x2010))
     (d_r_sscanf (write_mem (write_mem (\<lambda>_. 0) 0x1000 fmt) 0x3000 str) 0x3000 0x1000 ap)"

text \<open>The format goes on at the closing bracket of a set: the text must have a bracket of its own, and "a,1" is not read by "%[a-z],%d".\<close>

lemma charset_bracket_kept:
  "scan_run [97, 44, 49] [37, 91, 97, 45, 122, 93, 44, 37, 100] [0x2000, 0x2010] = Some (1, 97, 0)"
  "scan_run [97, 93, 44, 49] [37, 91, 97, 45, 122, 93, 44, 37, 100] [0x2000, 0x2010] = Some (2, 97, 1)"
  by code_simp+

text \<open>The width of a number is honoured: "%2d" reads 12 of 123.\<close>

lemma integer_width_honoured: "scan_run [49, 50, 51] [37, 50, 100] [0x2000] = Some (1, 12, 0)"
  by code_simp

end
