(* ===== verification/Spec2Isabelle.thy ===== *)
theory Spec2Isabelle
  imports InstrListClone Lifetime DrTable HashPersist VmVectorProps GenHashProps RvTypes RvLookup CScanfProps
begin

text \<open>
  \<^bold>\<open>What the program is.\<close> The repository traces when the functions of a hardware model and of the software that
  runs on it are alive. A virtual prototype, an ordinary program on the host, simulates the hardware and
  executes the RISC-V software. Python scripts under \<^verbatim>\<open>src/fld\<close> find the functions in the sources
  and their addresses in the debug information, and export them as an address table. A client of DynamoRIO
  (\<^verbatim>\<open>src/fld/tracer/tracer_template.c\<close>) reads the table, instruments the running prototype and
  records a time stamp whenever a listed host address is executed or the simulated program counter takes a
  listed value. After the run the scripts turn the records into function lifetimes and write them as an FTR
  file. DynamoRIO itself is part of the repository (\<^verbatim>\<open>src/dynamorio\<close>). Of it, the development models the
  RISC-V instruction codec with the operand and instruction objects it works on, the instruction lists, the
  container library, and four parts of the core that the rest of DynamoRIO rests on: the vectors of address ranges, the
  open-addressing hashtables, the string routines, and formatted output and input.

  \<^bold>\<open>Theories.\<close>
  \<^item> \<open>Prelude\<close>: machine types, C shifts, \<^verbatim>\<open>ASSERT\<close>, bit extensionality, the fact collections.
  \<^item> \<open>Bytes\<close>: little-endian integers, blocks of memory, stores into buffers, decimal numbers.
  \<^item> \<open>Tracer\<close>: \<^verbatim>\<open>tracer_template.c\<close>. The static variables are the record \<open>tracer_t\<close>; every callback and clean call
    is one definition. \<open>traced\<close> is the relation of the runs: the clean calls that instrumented code makes,
    in any order. The buffer with its file is an instance of the interface \<open>byte_log\<close>.
  \<^item> \<open>AddressTable\<close>: \<^verbatim>\<open>addressTranslation.py\<close>, the lines of the table, against the parser of the tracer.
  \<^item> \<open>FtrWriter\<close>: \<^verbatim>\<open>ftr_writer.py\<close>, the CBOR items and chunks, with a reader of CBOR as the specification.
  \<^item> \<open>Lifetime\<close>: \<^verbatim>\<open>generateFTRFile.py\<close>, from the records to executions and transactions.
  \<^item> \<open>RvBits\<close>, \<open>Opnd\<close>, \<open>Instr\<close>, \<open>RvInstr\<close>: field macros and opcode trie (\<^verbatim>\<open>codec.h\<close>, \<^verbatim>\<open>trie.h\<close>), operands
    (\<^verbatim>\<open>opnd_shared.c\<close>), instruction objects (\<^verbatim>\<open>instr_shared.c\<close>), RISC-V queries (\<^verbatim>\<open>riscv64/instr.c\<close>).
  \<^item> \<open>RvDecode\<close>, \<open>RvEncode\<close>, \<open>RvFields\<close>, \<open>RvCodec\<close>: \<^verbatim>\<open>riscv64/codec.c\<close>, its 68 operand decoders and encoders, the contract
    between each pair, the lookups and the decoder and encoder of an instruction.
  \<^item> \<open>RvApi\<close>: \<^verbatim>\<open>riscv64/decode.c\<close> and \<^verbatim>\<open>encode.c\<close>, the entry points, the raw queries, writing into memory, the register tables.
  \<^item> \<open>InstrList\<close>, \<open>InstrListOps\<close>, \<open>InstrListClone\<close>: \<^verbatim>\<open>core/ir/instrlist.c\<close>, the doubly linked instruction lists. The instructions live in a
    store from references to nodes, so that sharing is explicit; the four insertions satisfy one contract,
    the locale \<open>list_insertion\<close>. The second theory clears and encodes whole lists, the third clones them.
  \<^item> \<open>RvSample\<close>: a small instance of the generated tables, on which the theorems about the codec are evaluated.
  \<^item> \<open>DrVector\<close>, \<open>Hashtable\<close>, \<open>HashPersist\<close>, \<open>DrTable\<close>: \<^verbatim>\<open>ext/drcontainers\<close>, the growable vector, the chained hashtable, its
    persistence, and the table of chunks, which stores its chunks in the vector.
  \<^item> \<open>RvTypes\<close>: what kind of operand each field of an instruction is for, and that decoding delivers it.
  \<^item> \<open>RvLookup\<close>: the encodings of the instructions, those of the compressed ones from the listings in \<^verbatim>\<open>riscv64/isl\<close> as
    \<^verbatim>\<open>codec.py\<close> reads them, against the switches and the trie with which the decoder finds them.
  \<^item> \<open>VmVector\<close>, \<open>VmVectorInv\<close>, \<open>VmVectorSearch\<close>, \<open>VmVectorOps\<close>, \<open>VmVectorProps\<close>: \<^verbatim>\<open>core/vmareas.c\<close>, the vectors of address ranges.
    The first theory has the operations on the array of areas, the second and third their effect on the covered
    addresses, the fourth the exported routines with their lock, the last their contracts, among them
    the interface \<open>range_map\<close>.
  \<^item> \<open>GenHash\<close>, \<open>GenHashProbe\<close>, \<open>GenHashOps\<close>, \<open>GenHashMap\<close>, \<open>GenHashProps\<close>: the template \<^verbatim>\<open>core/hashtablex.h\<close> and its two instances in
    \<^verbatim>\<open>core/hashtable.c\<close>. The operations that an instance supplies are a record; the theories
    go from the probe sequence to whole tables, to a list of keys and payloads, and to sequences of commands.
  \<^item> \<open>CString\<close>, \<open>CStringProps\<close>: \<^verbatim>\<open>core/string.c\<close> and the number parser of \<^verbatim>\<open>core/io.c\<close>, over a memory of bytes in which an access
    outside is \<open>None\<close>.
  \<^item> \<open>CPrintf\<close>, \<open>CPrintfProps\<close>, \<open>CPrintfText\<close>, \<open>CPrintfRender\<close>, \<open>CPrintfFormats\<close>: \<^verbatim>\<open>core/iox.h\<close>, the narrow \<^verbatim>\<open>snprintf\<close>: the model, what it
    may write, the text of a number and of a conversion, the output steps, and whole formats.
  \<^item> \<open>CScanf\<close>, \<open>CScanfProps\<close>: \<^verbatim>\<open>core/io.c\<close>, \<^verbatim>\<open>sscanf\<close>, and its agreement with what \<^verbatim>\<open>snprintf\<close> prints.
  \<^item> this theory: the tool chain from the exported table to the evaluated records.

  \<^bold>\<open>Conventions.\<close> A definition has the name of the function it models. State is a record that is passed and
  returned. A result \<open>None\<close> is a failed assertion of the debug build, an access outside an array, a lock taken
  twice or another step without defined behaviour in C, and an exception in Python; a failure that the
  code reports itself is a value inside. A theorem that a call returns \<open>Some\<close> is therefore a statement that
  none of these happens. Machine integers are words where the code computes with them at their width;
  sizes and addresses of \<open>DrTable\<close> are naturals with the wrap-around written out. Loops are structural
  recursion over what they visit or over a count; there is no fuel. The lookup in the opcode trie and the
  loops along the links of instructions, which need not end on a malformed trie or a cyclic list, are partial
  functions; so are the binary search of a vector of address ranges, the probing of an open-addressing table and the loops
  over C strings, formats and inputs. The theorems show that they end on well-formed data.

  \<^bold>\<open>What is shown.\<close>
  \<^item> \<^emph>\<open>The tool chain.\<close> The tracer reads back exactly the addresses that were exported, in every reachable state
    file and buffer together hold exactly the records of the run, no clean call leaves the buffer, and the
    evaluation processes exactly these records. From alternating records the lifetimes are exact.
    Nested calls, unmatched ends, unresolved addresses and equal names are shown to go wrong.
  \<^item> \<^emph>\<open>FTR.\<close> What the writer emits is read back by a CBOR reader, for all 64-bit integers and all
    transactions of such integers, with their attributes.
  \<^item> \<^emph>\<open>Codec.\<close> Every operand field satisfies a contract, stated once in a locale and interpreted on the two tables of
    the code; decoding followed by encoding is the identity on words and, through memory, on
    bytes, when the fields meet their side conditions; the decoder fails exactly on bytes that no table entry fits. The places where the code violates the
    instruction set (jump immediates, hints, \<^verbatim>\<open>unimp\<close>, operand storage) are theorems too.
  \<^item> \<^emph>\<open>Instruction lists.\<close> Insertion, removal, replacement and cutting refine the operations on a sequence and keep
    every node outside; insertion and removal cancel; clearing frees exactly the list; encoding stays within
    its buffer; cloning restores what it clobbers and redirects the jump targets. Cutting at the
    first instruction is shown to leave an inconsistent object.
  \<^item> \<^emph>\<open>Containers.\<close> The vector refines a list, the hashtable with each of the library's key types a finite map,
    across all resizes below \<open>2 ^ 28\<close> entries, a bound that keeps the counter times 100 and the
    number of chains within 32 bits; persisting and reading back is the identity on the selected
    entries; the table of chunks maps every allocated entry to its index as long as a chunk stays below
    4 GB, the bound at which the code's cast of the capacity is exact.
  \<^item> \<^emph>\<open>Address ranges.\<close> Under adding, removing and overlap tests a vector behaves as a set of addresses, and one without
    merging as a map from addresses to payloads; the search for neighbours finds the nearest areas.
  \<^item> \<^emph>\<open>Open addressing.\<close> For every sequence of commands both instances answer as a list of keys and payloads, through
    resizes and removals, and have freed every payload once when they are destroyed. A table has at most \<open>2 ^ 25\<close>
    slots and a load factor for which the computation of the resize threshold stays within 32 bits. That a lookup in a full
    table does not return is a theorem as well. A removal while iterating leaves the iteration at its place unless an entry
    is pulled across the end of the table; an example where it then skips an entry is computed.
  \<^item> \<^emph>\<open>Strings.\<close> The parser of numbers reads what the C standard says, and string keys are compared as the code declares. \<^verbatim>\<open>snprintf\<close>
    writes nothing outside its buffer in the runs the model covers (no floating-point conversion, no null wide string, no failed
    assertion) and prints, for every format of integer, pointer, character and string conversions,
    the text of their specification, cut at the buffer; \<^verbatim>\<open>sscanf\<close> honours the width of a string and reads back the numbers that were
    printed. The bounds are buffers below \<open>2 ^ 31\<close> bytes, precisions below 63, the size of the code's array for a
    number, and strings below \<open>2 ^ 30\<close> bytes, for which the counters of type \<^verbatim>\<open>int\<close> are exact. The conversions on
    which the code departs from the C standard (flags of signed and unsigned numbers, a width given by an argument, a
    string longer than its precision) are theorems too.

  \<^bold>\<open>Parameters.\<close> The instruction tables, the opcode numbers and the trie are generated by the build and are
  arguments of the codec, with the conditions on an entry as hypotheses. So are what DynamoRIO tells the
  client (time, paths, registers, instructions), the debug information that \<^verbatim>\<open>pyelftools\<close> reads, the bytes of \<^verbatim>\<open>cbor2\<close>,
  the memory that the operating system gives to a chunk, the blocks of DynamoRIO's heap, and the persisted range.

  \<^bold>\<open>Not modelled.\<close> The scripts that walk directories and guess the code structure from text; DynamoRIO's dispatcher,
  code cache, linking and operating system layers, which emit and run machine code; its codecs of other
  architectures, clients and tools; printing of instructions; the virtual prototype and the example programs,
  which are third-party code; the clients of the address ranges in \<^verbatim>\<open>vmareas.c\<close> (executable areas, lists of fragments), the
  lookup tables and the persistence of \<^verbatim>\<open>hashtablex.h\<close>; floating-point conversions and the wide version of \<^verbatim>\<open>snprintf\<close>. Concurrency is modelled only as far as locks: an operation runs alone.
\<close>

text \<open>C1: the whole tool chain. For a project whose exported table fits the tracer, and for every run of the traced
program, the exit handler completes the trace file, the evaluation of that file processes exactly the
events that were recorded, in order, and every event is the start or end address of a hardware or
software method of the project.\<close>

theorem toolchain_records_methods:
  assumes export: "exportAddressTable pc hw_info sw_info hw_files sw_files = (table, methods)"
    and pc: "pc < 10 ^ 9" and fits: "list_all method_fits methods"
    and len: "length table \<le> MAX_ADDRESS_LINES"
    and main: "dr_client_main argc (Some table) heap static_init = Some st0" "2 \<le> argc"
    and heap: "length heap = FILE_BUF_SIZE"
    and run: "traced st0 code rs st"
  shows "\<exists>st'. event_exit st = Some st' \<and>
    readTracerResults (trace_file st') ev = fold_opt record_event (map record_view rs) ev \<and>
    (\<forall>c \<in> set rs. (if ctype c = TYPE_HW then unat (cpc c) \<in> method_addresses 0 methods
       else ctype c = TYPE_SW \<and> unat (cpc c) \<in> method_addresses 1 methods))"
proof -
  note inv = traced_inv [OF run conjunct1 [OF dr_client_main_wf [OF main heap]]]
  have frame: "vp_address st0 = (\<lambda>n. n \<in> method_addresses 0 methods)"
    "sw_address st0 = (\<lambda>n. n \<in> method_addresses 1 methods)"
    using main parse_exported_table [OF export pc fits len, of static_init] FILE_BUF_SIZE_pos heap
    by (auto simp: dr_client_main_def write_collection_eq static_init_def)
  have wf: "tracer_wf st" and log: "trace_log st = concat (map collection_bytes rs)"
    and ok: "\<forall>c \<in> set rs. record_ok st0 c"
    using inv dr_client_main_wf [OF main heap] by simp_all
  have "list_all (\<lambda>c. \<not> (ctype c = 0 \<and> cpc c = 0)) rs"
    using ok record_ok_nonzero by (fastforce simp: list_all_iff)
  then show ?thesis
    using event_exit_eq [OF wf] log readTracerResults_records ok frame
    by (auto simp: record_ok_def TYPE_HW_def TYPE_SW_def)
qed

theorem toolchain_records_methods_witness:
  "\<exists>st0 st st'. traced st0 {Add_rip 100} [sample_record] st \<and> event_exit st = Some st' \<and>
     100 \<in> method_addresses 0 sample_methods"
proof -
  obtain st0 where main: "dr_client_main 2 (Some (table_text [(0, Some 64), (1, Some 100), (1, Some 120)]))
      (replicate FILE_BUF_SIZE 0) static_init = Some st0" and st0: "vp_address st0 100" "base_address st0 = 0"
    "trace_pc st0 = 64" "tracer_wf st0"
    by (rule sample_start)
  obtain st where run: "traced st0 {Add_rip 100} [sample_record] st" using sample_run [OF st0] by blast
  have fits: "list_all method_fits sample_methods"
    by (simp add: sample_methods_def method_fits_def MAX_VP_RIPS_def)
  show ?thesis
    using toolchain_records_methods [OF sample_export _ fits sample_length main _ _ run] run
    by (fastforce simp: sample_record_def TYPE_HW_def)
qed

end
